(* ===== verification/Prelude.thy ===== *)
theory Prelude
  imports Main "HOL-Library.Sublist" "HOL-Library.List_Lexorder" "HOL-Library.Product_Lexorder"
begin

text \<open>
  What every component shares: Rust strings, results, tables and the two generic interfaces
  (codecs and invariant-preserving step systems).

  \<^item> A Rust \<^verbatim>\<open>str\<close> is a sequence of Unicode scalar values, so it is modelled as the list of its
    code points (\<open>ustr\<close>). Byte lengths are computed with \<open>utf8_len\<close>, so a length bound in bytes and
    a length bound in characters stay different things. \<open>lit\<close> turns an ASCII literal into a \<open>ustr\<close>.
    SQLite's BINARY collation compares UTF-8 bytes, which is the lexicographic order of code points.
  \<^item> A fallible function returns \<open>'e + 'a\<close>; \<open>and_then\<close> is the \<^verbatim>\<open>?\<close> operator.
  \<^item> A table is the list of its rows in rowid order. \<open>update_where\<close> is
    \<^verbatim>\<open>UPDATE \<dots> SET \<dots> WHERE \<dots>\<close>, \<open>exists_row\<close> is \<^verbatim>\<open>EXISTS(SELECT \<dots>)\<close>, \<open>find\<close> is a
    \<^verbatim>\<open>query_row\<close> followed by \<^verbatim>\<open>optional()\<close>.
\<close>

named_theorems table_simps \<open>how table operations act on keys, sizes and membership\<close>
named_theorems codec_simps \<open>encode/decode equations of the wire enumerations\<close>

section \<open>Strings\<close>

type_synonym uchar = nat
type_synonym ustr = "uchar list"

definition lit :: "string \<Rightarrow> ustr" where
  "lit s = map of_char s"

lemma lit_eq_iff [simp]: "lit a = lit b \<longleftrightarrow> a = b"
  by (simp add: lit_def inj_map_eq_map inj_of_char)

definition utf8_len :: "uchar \<Rightarrow> nat" where
  "utf8_len c = (if c < 0x80 then 1 else if c < 0x800 then 2 else if c < 0x10000 then 3 else 4)"

definition byte_len :: "ustr \<Rightarrow> nat" where
  "byte_len s = sum_list (map utf8_len s)"

text \<open>\<^verbatim>\<open>char::is_whitespace\<close> (the White\_Space property) and \<^verbatim>\<open>char::is_control\<close> (category Cc).\<close>

definition is_whitespace :: "uchar \<Rightarrow> bool" where
  "is_whitespace c \<longleftrightarrow>
     (9 \<le> c \<and> c \<le> 13) \<or> c = 0x20 \<or> c = 0x85 \<or> c = 0xA0 \<or> c = 0x1680 \<or> (0x2000 \<le> c \<and> c \<le> 0x200A)
     \<or> c = 0x2028 \<or> c = 0x2029 \<or> c = 0x202F \<or> c = 0x205F \<or> c = 0x3000"

definition is_control :: "uchar \<Rightarrow> bool" where
  "is_control c \<longleftrightarrow> c \<le> 0x1F \<or> (0x7F \<le> c \<and> c \<le> 0x9F)"

definition trim :: "ustr \<Rightarrow> ustr" where
  "trim s = rev (dropWhile is_whitespace (rev (dropWhile is_whitespace s)))"

definition trim_end_matches :: "(uchar \<Rightarrow> bool) \<Rightarrow> ustr \<Rightarrow> ustr" where
  "trim_end_matches p s = rev (dropWhile p (rev s))"

fun contains_str :: "ustr \<Rightarrow> ustr \<Rightarrow> bool" where
  "contains_str pat [] = (pat = [])"
| "contains_str pat (c # cs) = (prefix pat (c # cs) \<or> contains_str pat cs)"

definition strip_prefix :: "ustr \<Rightarrow> ustr \<Rightarrow> ustr option" where
  "strip_prefix p s = (if prefix p s then Some (drop (length p) s) else None)"

text \<open>\<^verbatim>\<open>str::split_once\<close> with a one-character separator.\<close>

fun split_once :: "uchar \<Rightarrow> ustr \<Rightarrow> (ustr \<times> ustr) option" where
  "split_once d [] = None"
| "split_once d (c # cs) =
     (if c = d then Some ([], cs) else map_option (\<lambda>(a, b). (c # a, b)) (split_once d cs))"

text \<open>\<^verbatim>\<open>str::split\<close> with a character: the fields between its occurrences, never an empty list.\<close>

fun split_all :: "uchar \<Rightarrow> ustr \<Rightarrow> ustr list" where
  "split_all d [] = [[]]"
| "split_all d (c # cs) =
     (if c = d then [] # split_all d cs
      else case split_all d cs of [] \<Rightarrow> [[c]] | f # fs \<Rightarrow> (c # f) # fs)"

text \<open>\<^verbatim>\<open>s.get(..n)\<close> with \<^verbatim>\<open>s.get(n..)\<close>: the split at byte offset \<open>n\<close>, when it is a character boundary.\<close>

fun split_at_byte :: "nat \<Rightarrow> ustr \<Rightarrow> (ustr \<times> ustr) option" where
  "split_at_byte n [] = (if n = 0 then Some ([], []) else None)"
| "split_at_byte n (c # cs) =
     (if n = 0 then Some ([], c # cs)
      else if n < utf8_len c then None
      else map_option (\<lambda>(a, b). (c # a, b)) (split_at_byte (n - utf8_len c) cs))"

lemma utf8_len_pos [simp]: "0 < utf8_len c"
  by (simp add: utf8_len_def)

lemma utf8_len_le4: "utf8_len c \<le> 4"
  by (simp add: utf8_len_def)

lemma byte_len_Nil [simp]: "byte_len [] = 0"
  and byte_len_Cons [simp]: "byte_len (c # cs) = utf8_len c + byte_len cs"
  and byte_len_append [simp]: "byte_len (s @ t) = byte_len s + byte_len t"
  by (simp_all add: byte_len_def)

lemma length_le_byte_len: "length s \<le> byte_len s"
proof (induction s)
  case (Cons c s)
  have "0 < utf8_len c" by simp
  with Cons show ?case by (simp only: length_Cons byte_len_Cons)
qed simp

lemma strip_prefix_append [simp]: "strip_prefix p (p @ s) = Some s"
  by (simp add: strip_prefix_def)

lemma strip_prefix_SomeD: "strip_prefix p s = Some t \<Longrightarrow> s = p @ t"
  by (auto simp: strip_prefix_def prefix_def split: if_splits)

lemma split_once_append: "d \<notin> set a \<Longrightarrow> split_once d (a @ d # b) = Some (a, b)"
  by (induction a) auto

lemma split_all_nonempty: "split_all d s \<noteq> []"
  by (induction s) (auto split: list.splits)

lemma split_all_single: "split_all d s = [f] \<longleftrightarrow> f = s \<and> d \<notin> set s"
proof (induction s arbitrary: f)
  case (Cons c s)
  obtain g fs where g: "split_all d s = g # fs" using split_all_nonempty[of d s] by (cases "split_all d s") blast+
  have "fs = [] \<longleftrightarrow> g = s \<and> d \<notin> set s" using Cons.IH[of g] by (simp add: g)
  then show ?case using g Cons.IH[of s] by auto
qed auto

lemma split_all_pair: "split_all d s = [a, b] \<longleftrightarrow> s = a @ d # b \<and> d \<notin> set a \<and> d \<notin> set b"
proof (induction s arbitrary: a)
  case (Cons c s)
  show ?case
  proof (cases "c = d")
    case True
    then show ?thesis using split_all_single[of d s b] by (cases a) auto
  next
    case False
    obtain f fs where f: "split_all d s = f # fs" using split_all_nonempty[of d s] by (cases "split_all d s") blast+
    show ?thesis
    proof (cases a)
      case (Cons x a')
      have "split_all d (c # s) = [a, b] \<longleftrightarrow> c = x \<and> split_all d s = [a', b]" using False by (auto simp: f Cons)
      also have "\<dots> \<longleftrightarrow> c # s = a @ d # b \<and> d \<notin> set a \<and> d \<notin> set b" using False Cons.IH[of a'] by (auto simp: Cons)
      finally show ?thesis .
    qed (use False f in simp)
  qed
qed auto

lemma split_at_byte_append: "split_at_byte (byte_len a) (a @ b) = Some (a, b)"
proof (induction a)
  case Nil
  show ?case by (cases b) simp_all
next
  case (Cons c a)
  have "0 < utf8_len c" by simp
  then have ne: "\<not> (utf8_len c + byte_len a = 0)" by linarith
  show ?case using Cons ne by simp
qed

lemma split_at_byte_SomeD: "split_at_byte n s = Some (a, b) \<Longrightarrow> s = a @ b \<and> byte_len a = n"
  by (induction n s arbitrary: a b rule: split_at_byte.induct) (auto split: if_splits)

lemma trim_Nil [simp]: "trim [] = []"
  by (simp add: trim_def)

lemma trim_eq_Nil_iff: "trim s = [] \<longleftrightarrow> (\<forall>c \<in> set s. is_whitespace c)"
proof
  assume "trim s = []"
  then have "\<forall>c \<in> set (dropWhile is_whitespace s). is_whitespace c"
    by (simp add: trim_def dropWhile_eq_Nil_conv)
  then have "dropWhile is_whitespace s = []"
    by (metis hd_dropWhile list.set_sel(1))
  then show "\<forall>c \<in> set s. is_whitespace c" by (simp add: dropWhile_eq_Nil_conv)
next
  assume "\<forall>c \<in> set s. is_whitespace c"
  then have "dropWhile is_whitespace s = []" by simp
  then show "trim s = []" by (simp only: trim_def) simp
qed

text \<open>\<open>trim\<close> removes a whitespace prefix and a whitespace suffix, and what it leaves is trimmed.\<close>

lemma dropWhile_cond: "(xs \<noteq> [] \<Longrightarrow> \<not> p (hd xs)) \<Longrightarrow> dropWhile p xs = xs"
  by (cases xs) auto

lemma trim_fixed:
  assumes "s \<noteq> [] \<Longrightarrow> \<not> is_whitespace (hd s)" and "s \<noteq> [] \<Longrightarrow> \<not> is_whitespace (last s)"
  shows "trim s = s"
proof -
  have 1: "dropWhile is_whitespace s = s" using assms(1) by (rule dropWhile_cond)
  have 2: "dropWhile is_whitespace (rev s) = rev s"
    using assms(2) by (intro dropWhile_cond) (simp add: hd_rev)
  show ?thesis by (simp add: trim_def 1 2)
qed

lemma trim_ends:
  assumes "trim s \<noteq> []"
  shows "\<not> is_whitespace (hd (trim s))" and "\<not> is_whitespace (last (trim s))"
proof -
  let ?d = "dropWhile is_whitespace s"
  let ?r = "dropWhile is_whitespace (rev ?d)"
  have ne: "?r \<noteq> []" using assms by (simp add: trim_def)
  then have dne: "?d \<noteq> []" by (metis dropWhile.simps(1) rev.simps(1))
  have "\<not> is_whitespace (hd ?r)" using ne by (rule hd_dropWhile)
  then show "\<not> is_whitespace (last (trim s))" by (simp add: trim_def last_rev)
  have "suffix ?r (rev ?d)" by (rule suffix_dropWhile)
  then have "prefix (trim s) ?d" by (simp add: trim_def suffix_to_prefix)
  with assms have "hd (trim s) = hd ?d" by (auto simp: prefix_def)
  moreover have "\<not> is_whitespace (hd ?d)" using dne by (rule hd_dropWhile)
  ultimately show "\<not> is_whitespace (hd (trim s))" by simp
qed

lemma trim_trim [simp]: "trim (trim s) = trim s"
  using trim_ends[of s] by (intro trim_fixed)

lemma set_trim_subset: "set (trim s) \<subseteq> set s"
  by (auto simp: trim_def dest!: set_dropWhileD)

section \<open>Results\<close>

fun and_then :: "'e + 'a \<Rightarrow> ('a \<Rightarrow> 'e + 'b) \<Rightarrow> 'e + 'b" where
  "and_then (Inl e) f = Inl e"
| "and_then (Inr a) f = f a"

lemma and_then_Inr_iff: "and_then r f = Inr b \<longleftrightarrow> (\<exists>a. r = Inr a \<and> f a = Inr b)"
  by (cases r) auto

lemma and_then_Inl_iff: "and_then r f = Inl e \<longleftrightarrow> r = Inl e \<or> (\<exists>a. r = Inr a \<and> f a = Inl e)"
  by (cases r) auto

lemma Inr_fst_projr: "\<not> isl r \<Longrightarrow> snd (projr r) = b \<Longrightarrow> r = Inr (fst (projr r), b)"
  by (cases r) auto

text \<open>\<^verbatim>\<open>iter().map(f).collect::<Result<Vec<_>, _>>()\<close>: stops at the first error.\<close>

fun collect_results :: "('a \<Rightarrow> 'e + 'b) \<Rightarrow> 'a list \<Rightarrow> 'e + 'b list" where
  "collect_results f [] = Inr []"
| "collect_results f (x # xs) =
     and_then (f x) (\<lambda>y. and_then (collect_results f xs) (\<lambda>ys. Inr (y # ys)))"

section \<open>Tables\<close>

definition update_where :: "('r \<Rightarrow> bool) \<Rightarrow> ('r \<Rightarrow> 'r) \<Rightarrow> 'r list \<Rightarrow> 'r list" where
  "update_where P f rows = map (\<lambda>r. if P r then f r else r) rows"

definition exists_row :: "('r \<Rightarrow> bool) \<Rightarrow> 'r list \<Rightarrow> bool" where
  "exists_row P rows = list_ex P rows"

definition changed_rows :: "('r \<Rightarrow> bool) \<Rightarrow> 'r list \<Rightarrow> nat" where
  "changed_rows P rows = length (filter P rows)"

lemma exists_row_iff [simp]: "exists_row P rows \<longleftrightarrow> (\<exists>r \<in> set rows. P r)"
  by (simp add: exists_row_def list_ex_iff)

lemma set_update_where [table_simps]:
  "set (update_where P f rows) = (\<lambda>r. if P r then f r else r) ` set rows"
  by (simp add: update_where_def)

lemma ball_update_where:
  "(\<forall>r \<in> set (update_where P f rows). Q r) \<longleftrightarrow> (\<forall>r \<in> set rows. if P r then Q (f r) else Q r)"
  by (simp only: set_update_where ball_simps if_distrib[of Q] cong: if_cong)

lemma in_update_where:
  "r \<in> set rows \<Longrightarrow> (if P r then f r else r) \<in> set (update_where P f rows)"
  unfolding set_update_where by (rule imageI)

lemma length_update_where [table_simps]: "length (update_where P f rows) = length rows"
  by (simp add: update_where_def)

lemma update_where_append [table_simps]:
  "update_where P f (xs @ ys) = update_where P f xs @ update_where P f ys"
  by (simp add: update_where_def)

lemma update_where_none: "\<forall>r \<in> set rows. \<not> P r \<Longrightarrow> update_where P f rows = rows"
  by (simp add: update_where_def map_idI)

text \<open>An update that keeps a projection of every row keeps the projected column.\<close>

lemma map_update_where [table_simps]:
  "(\<And>r. P r \<Longrightarrow> k (f r) = k r) \<Longrightarrow> map k (update_where P f rows) = map k rows"
  by (auto simp: update_where_def)

lemma image_update_where:
  assumes "\<And>r. P r \<Longrightarrow> k (f r) = k r"
  shows "k ` set (update_where P f rows) = k ` set rows"
proof -
  have "map k (update_where P f rows) = map k rows" by (rule map_update_where) (rule assms)
  then show ?thesis by (metis list.set_map)
qed

lemma filter_update_where:
  "(\<And>r. P r \<Longrightarrow> Q (f r) = Q r) \<Longrightarrow>
   filter Q (update_where P f rows) = update_where P f (filter Q rows)"
  by (induction rows) (auto simp: update_where_def)

lemma find_update_where:
  "(\<And>r. P r \<Longrightarrow> Q (f r) = Q r) \<Longrightarrow>
   find Q (update_where P f rows) = map_option (\<lambda>r. if P r then f r else r) (find Q rows)"
  by (induction rows) (auto simp: update_where_def)

lemma changed_rows_pos_iff [simp]: "0 < changed_rows P rows \<longleftrightarrow> (\<exists>r \<in> set rows. P r)"
  by (auto simp: changed_rows_def filter_empty_conv)

lemma changed_rows_0_iff: "changed_rows P rows = 0 \<longleftrightarrow> (\<forall>r \<in> set rows. \<not> P r)"
  by (simp add: changed_rows_def filter_empty_conv)

text \<open>\<open>unique_on P k\<close>: the partial unique index on \<open>k\<close> over the rows that satisfy \<open>P\<close>.\<close>

definition unique_on :: "('r \<Rightarrow> bool) \<Rightarrow> ('r \<Rightarrow> 'k) \<Rightarrow> 'r list \<Rightarrow> bool" where
  "unique_on P k rows \<longleftrightarrow> distinct (map k (filter P rows))"

lemma unique_on_Nil [simp]: "unique_on P k []"
  by (simp add: unique_on_def)

lemma unique_on_append1:
  "unique_on P k (rows @ [r]) \<longleftrightarrow>
     unique_on P k rows \<and> (P r \<longrightarrow> (\<forall>r' \<in> set rows. P r' \<longrightarrow> k r' \<noteq> k r))"
  by (cases "P r") (auto simp: unique_on_def image_iff)

text \<open>Rows that leave the index, or that keep their key and index status, keep it unique.\<close>

lemma unique_on_update_where:
  assumes "unique_on P k rows"
    and "\<And>r. r \<in> set rows \<Longrightarrow> Q r \<Longrightarrow> P (f r) \<Longrightarrow> P r \<and> k (f r) = k r"
  shows "unique_on P k (update_where Q f rows)"
  using assms
proof (induction rows)
  case (Cons r rows)
  have IH: "unique_on P k (update_where Q f rows)"
    using Cons.prems by (intro Cons.IH) (auto simp: unique_on_def split: if_splits)
  have keys: "k ` set (filter P (update_where Q f rows)) \<subseteq> k ` set (filter P rows)"
    using Cons.prems(2) by (fastforce simp: update_where_def split: if_splits)
  from Cons.prems(1) have "P r \<Longrightarrow> k r \<notin> k ` set (filter P rows)"
    by (simp add: unique_on_def)
  with IH keys Cons.prems(2)[of r] show ?case
    by (auto simp: unique_on_def update_where_def)
qed (simp add: update_where_def)

lemma unique_onD:
  "unique_on P k rows \<Longrightarrow> r \<in> set rows \<Longrightarrow> r' \<in> set rows \<Longrightarrow> P r \<Longrightarrow> P r' \<Longrightarrow> k r = k r' \<Longrightarrow> r = r'"
  by (auto simp: unique_on_def distinct_map dest: inj_onD)

lemma find_append: "find Q (xs @ ys) = (case find Q xs of None \<Rightarrow> find Q ys | Some x \<Rightarrow> Some x)"
  by (induction xs) auto

lemma find_exists: "x \<in> set xs \<Longrightarrow> P x \<Longrightarrow> \<exists>y. find P xs = Some y"
  by (cases "find P xs") (auto simp: find_None_iff)

lemma find_only:
  assumes "x \<in> set xs" "P x" "\<And>y. y \<in> set xs \<Longrightarrow> P y \<Longrightarrow> y = x"
  shows "find P xs = Some x"
proof -
  obtain y where y: "find P xs = Some y" using find_exists[of x xs P] assms(1,2) by blast
  then have "y \<in> set xs" "P y" by (auto simp: find_Some_iff)
  with y assms(3) show ?thesis by simp
qed

text \<open>With a primary key, a partial index is unique when equal index entries have equal primary keys.\<close>

lemma unique_on_via_key:
  assumes "unique_on (\<lambda>_. True) key rows"
    and "\<And>r r'. r \<in> set rows \<Longrightarrow> r' \<in> set rows \<Longrightarrow> P r \<Longrightarrow> P r' \<Longrightarrow> k r = k r' \<Longrightarrow> key r = key r'"
  shows "unique_on P k rows"
proof -
  have d: "distinct rows" "inj_on key (set rows)"
    using assms(1) by (simp_all add: unique_on_def distinct_map)
  then have "inj_on k (set (filter P rows))"
    using assms(2) by (auto intro!: inj_onI dest: inj_onD)
  with d(1) show ?thesis by (simp add: unique_on_def distinct_map)
qed

text \<open>Giving one row a new unique value that no row of another key has.\<close>

lemma unique_on_rekey:
  assumes key: "unique_on (\<lambda>_. True) key rows" and k: "unique_on (\<lambda>_. True) k rows"
    and f: "\<And>r. key (f r) = key r" "\<And>r. k (f r) = h" and P: "\<And>r. P r \<Longrightarrow> key r = i"
    and free: "\<And>r q. r \<in> set rows \<Longrightarrow> P r \<Longrightarrow> q \<in> set rows \<Longrightarrow> key q \<noteq> i \<Longrightarrow> k q \<noteq> h"
  shows "unique_on (\<lambda>_. True) k (update_where P f rows)"
proof (rule unique_on_via_key[where key = key])
  show "unique_on (\<lambda>_. True) key (update_where P f rows)"
    using key by (rule unique_on_update_where) (simp add: f(1))
  fix r r' assume r: "r \<in> set (update_where P f rows)" "r' \<in> set (update_where P f rows)" and eq: "k r = k r'"
  obtain a b where a: "a \<in> set rows" "r = (if P a then f a else a)" and b: "b \<in> set rows" "r' = (if P b then f b else b)"
    using r by (auto simp: set_update_where)
  have "key a = key b"
  proof (cases "P a \<or> P b")
    case True
    then show ?thesis
      using eq a b f(2) P free[of a b] free[of b a] by (metis (full_types))
  next
    case False
    then show ?thesis using eq a b unique_onD[OF k a(1) b(1)] by simp
  qed
  then show "key r = key r'" using a(2) b(2) f(1) by simp
qed

lemma find_unique:
  assumes "unique_on (\<lambda>_. True) k rows" and "r \<in> set rows"
  shows "find (\<lambda>x. k x = k r) rows = Some r"
proof (cases "find (\<lambda>x. k x = k r) rows")
  case None
  with assms(2) show ?thesis by (auto simp: find_None_iff)
next
  case (Some x)
  then have "x \<in> set rows" "k x = k r" by (auto simp: find_Some_iff)
  with assms have "x = r" by (auto dest: unique_onD)
  with Some show ?thesis by simp
qed

lemma find_SomeD: "find P rows = Some r \<Longrightarrow> r \<in> set rows \<and> P r"
  by (auto simp: find_Some_iff)

text \<open>\<^verbatim>\<open>ORDER BY k LIMIT 1\<close>: the first row of the rows sorted by \<open>k\<close>. Ties the query leaves open are
  broken by rowid.\<close>

definition first_by :: "('r \<Rightarrow> 'k::linorder) \<Rightarrow> 'r list \<Rightarrow> 'r option" where
  "first_by k rows = (case sort_key k rows of [] \<Rightarrow> None | r # _ \<Rightarrow> Some r)"

lemma first_by_in: "first_by k rows = Some r \<Longrightarrow> r \<in> set rows"
  by (auto simp: first_by_def split: list.splits)
    (metis list.set_intros(1) set_sort)

lemma first_by_None [simp]: "first_by k rows = None \<longleftrightarrow> rows = []"
  by (auto simp: first_by_def split: list.splits)
    (metis sort_key_simps(1) list.distinct(1) length_0_conv length_sort)

text \<open>A partial unique index admits at most one row per key.\<close>

lemma unique_on_at_most_one:
  assumes "unique_on P k rows" "\<And>r. Q r \<Longrightarrow> P r \<and> k r = c"
  shows "length (filter Q rows) \<le> 1"
proof -
  have "filter Q rows = filter Q (filter P rows)" using assms(2) by (auto intro!: filter_cong)
  then have d: "distinct (map k (filter Q rows))"
    using assms(1) by (simp add: unique_on_def distinct_map_filter del: filter_filter)
  have "set (map k (filter Q rows)) \<subseteq> {c}" using assms(2) by auto
  then have "card (set (map k (filter Q rows))) \<le> card {c}" by (intro card_mono) simp_all
  then show ?thesis using distinct_card[OF d] by simp
qed

lemma first_by_least:
  assumes "first_by k rows = Some r" "x \<in> set rows"
  shows "k r \<le> k x"
proof -
  obtain ys where ys: "sort_key k rows = r # ys"
    using assms(1) by (auto simp: first_by_def split: list.splits)
  have "x \<in> set (r # ys)" unfolding ys[symmetric] using assms(2) by simp
  moreover have "sorted (map k (r # ys))" unfolding ys[symmetric] by simp
  ultimately show ?thesis by auto
qed

section \<open>Interfaces used by several components\<close>

text \<open>
  A wire codec: what is encoded decodes to itself, so encoding is injective and comparing encodings
  (as the SQL does) is comparing values (as the Rust does).
\<close>

locale wire_codec =
  fixes enc :: "'a \<Rightarrow> ustr" and dec :: "ustr \<Rightarrow> 'a option" and ok :: "'a \<Rightarrow> bool"
  assumes dec_enc: "ok x \<Longrightarrow> dec (enc x) = Some x"
begin

lemma enc_eq_iff: "ok x \<Longrightarrow> ok y \<Longrightarrow> enc x = enc y \<longleftrightarrow> x = y"
  by (metis dec_enc option.inject)

lemma inj_on_enc: "inj_on enc {x. ok x}"
  by (auto simp: inj_on_def enc_eq_iff)

end

text \<open>
  A step system: an invariant of the initial states that every step keeps holds in every
  reachable state.
\<close>

locale step_system =
  fixes init :: "'s \<Rightarrow> bool" and step :: "'s \<Rightarrow> 'c \<Rightarrow> 's \<Rightarrow> bool" and inv :: "'s \<Rightarrow> bool"
  assumes inv_init: "init s \<Longrightarrow> inv s"
    and inv_step: "inv s \<Longrightarrow> step s c s' \<Longrightarrow> inv s'"
begin

inductive run :: "'s \<Rightarrow> 'c list \<Rightarrow> 's \<Rightarrow> bool" where
  run_nil: "run s [] s"
| run_snoc: "run s cs s' \<Longrightarrow> step s' c s'' \<Longrightarrow> run s (cs @ [c]) s''"

lemma run_inv: "run s cs s' \<Longrightarrow> inv s \<Longrightarrow> inv s'"
  by (induction rule: run.induct) (auto intro: inv_step)

lemma reachable_inv: "init s \<Longrightarrow> run s cs s' \<Longrightarrow> inv s'"
  by (blast intro: run_inv inv_init)

end

text \<open>
  A claim system: a step may hand an item out or take it back. An item is handed out only while it is not
  taken, handing it out takes it, and only its return releases it. Then over any sequence of admissible
  commands, whoever issues them and in whatever order, an item that was handed out is handed out again only
  after it came back: \<open>alternates\<close>.
\<close>

datatype 'k claim_event = Granted 'k | Returned 'k

fun alternates :: "'k \<Rightarrow> bool \<Rightarrow> 'k claim_event list \<Rightarrow> bool" where
  "alternates k held [] = True"
| "alternates k held (Granted j # es) =
     (if j = k then \<not> held \<and> alternates k True es else alternates k held es)"
| "alternates k held (Returned j # es) = alternates k (held \<and> j \<noteq> k) es"

lemma alternates_held_Granted: "alternates k True (map Granted ks) \<Longrightarrow> k \<notin> set ks"
  by (induction ks) (auto split: if_splits)

lemma alternates_mono_held: "alternates k True es \<Longrightarrow> alternates k False es"
proof (induction es)
  case (Cons e es)
  show ?case
  proof (cases e)
    case (Returned j)
    with Cons show ?thesis by (cases "j = k") auto
  qed (use Cons in auto)
qed simp

lemma alternates_distinct: "(\<And>k. alternates k False (map Granted ks)) \<Longrightarrow> distinct ks"
proof (induction ks)
  case (Cons j ks)
  have "alternates k False (map Granted ks)" for k
    using Cons.prems[of k] by (cases "j = k") (auto dest: alternates_held_Granted alternates_mono_held)
  moreover have "j \<notin> set ks" using Cons.prems[of j] by (auto dest: alternates_held_Granted)
  ultimately show ?case using Cons.IH by simp
qed simp

locale claim_return =
  fixes inv :: "'s \<Rightarrow> bool" and step :: "'s \<Rightarrow> 'c \<Rightarrow> 's \<times> 'k claim_event option"
    and taken :: "'s \<Rightarrow> 'k \<Rightarrow> bool" and admissible :: "'c \<Rightarrow> bool"
  assumes keeps_inv: "inv s \<Longrightarrow> admissible c \<Longrightarrow> step s c = (s', r) \<Longrightarrow> inv s'"
    and grants: "inv s \<Longrightarrow> admissible c \<Longrightarrow> step s c = (s', Some (Granted k)) \<Longrightarrow> \<not> taken s k \<and> taken s' k"
    and keeps: "inv s \<Longrightarrow> admissible c \<Longrightarrow> taken s k \<Longrightarrow> step s c = (s', r) \<Longrightarrow> r \<noteq> Some (Returned k) \<Longrightarrow> taken s' k"
begin

fun events :: "'s \<Rightarrow> 'c list \<Rightarrow> 'k claim_event list" where
  "events s [] = []"
| "events s (c # cs) =
     (case step s c of (s', None) \<Rightarrow> events s' cs | (s', Some e) \<Rightarrow> e # events s' cs)"

lemma events_alternate:
  "inv s \<Longrightarrow> (\<And>c. c \<in> set cs \<Longrightarrow> admissible c) \<Longrightarrow> (held \<Longrightarrow> taken s k) \<Longrightarrow> alternates k held (events s cs)"
proof (induction cs arbitrary: s held)
  case (Cons c cs)
  obtain s' r where st: "step s c = (s', r)" by fastforce
  have adm: "admissible c" by (rule Cons.prems) simp
  have i: "inv s'" by (rule keeps_inv[OF Cons.prems(1) adm st])
  note IH = Cons.IH[OF i]
  have kept: "taken s' k" if "held" "r \<noteq> Some (Returned k)"
    by (rule keeps[OF Cons.prems(1) adm Cons.prems(3)[OF that(1)] st that(2)])
  show ?case
  proof (cases r)
    case None
    then show ?thesis using st IH[of held] Cons.prems(2) kept by auto
  next
    case (Some e)
    show ?thesis
    proof (cases e)
      case (Granted j)
      have "\<not> taken s j" "taken s' j" using grants[OF Cons.prems(1) adm] st Some Granted by blast+
      then show ?thesis using st Some Granted IH[of True] IH[of held] Cons.prems(2,3) kept by auto
    next
      case (Returned j)
      then show ?thesis using st Some IH[of "held \<and> j \<noteq> k"] Cons.prems(2) kept by auto
    qed
  qed
qed simp

end

text \<open>
  The special case without returns: no item is handed out twice.
\<close>

locale claim_once =
  fixes inv :: "'s \<Rightarrow> bool" and step :: "'s \<Rightarrow> 'c \<Rightarrow> 's \<times> 'k option"
    and taken :: "'s \<Rightarrow> 'k \<Rightarrow> bool" and admissible :: "'c \<Rightarrow> bool"
  assumes keeps_inv: "inv s \<Longrightarrow> admissible c \<Longrightarrow> step s c = (s', r) \<Longrightarrow> inv s'"
    and grants: "inv s \<Longrightarrow> admissible c \<Longrightarrow> step s c = (s', Some k) \<Longrightarrow> \<not> taken s k \<and> taken s' k"
    and keeps: "inv s \<Longrightarrow> admissible c \<Longrightarrow> taken s k \<Longrightarrow> step s c = (s', r) \<Longrightarrow> taken s' k"

sublocale claim_once \<subseteq> claims: claim_return inv "\<lambda>s c. map_prod id (map_option Granted) (step s c)" taken admissible
proof
  fix s c s' r
  assume a: "inv s" "admissible c" "map_prod id (map_option Granted) (step s c) = (s', r)"
  show "inv s'" using keeps_inv[OF a(1,2)] a(3) by (cases "step s c") auto
next
  fix s c s' k
  assume a: "inv s" "admissible c" "map_prod id (map_option Granted) (step s c) = (s', Some (Granted k))"
  show "\<not> taken s k \<and> taken s' k" using grants[OF a(1,2)] a(3) by (cases "step s c") auto
next
  fix s c k s' r
  assume a: "inv s" "admissible c" "taken s k" "map_prod id (map_option Granted) (step s c) = (s', r)"
  show "taken s' k" using keeps[OF a(1-3)] a(4) by (cases "step s c") auto
qed

context claim_once
begin

fun granted :: "'s \<Rightarrow> 'c list \<Rightarrow> 'k list" where
  "granted s [] = []"
| "granted s (c # cs) =
     (case step s c of (s', None) \<Rightarrow> granted s' cs | (s', Some k) \<Rightarrow> k # granted s' cs)"

lemma events_granted: "claims.events s cs = map Granted (granted s cs)"
  by (induction cs arbitrary: s) (auto split: prod.splits option.splits)

lemma granted_once:
  assumes "inv s" "\<And>c. c \<in> set cs \<Longrightarrow> admissible c"
  shows "distinct (granted s cs)"
proof (rule alternates_distinct)
  show "alternates k False (map Granted (granted s cs))" for k
    using claims.events_alternate[of s cs False k] assms by (simp add: events_granted)
qed

end

end
