(* ===== verification/Agent.thy ===== *)
theory Agent
  imports Prelude
begin

text \<open>
  \<^verbatim>\<open>AgentKind\<close> of \<^verbatim>\<open>crates/ai-memory-core/src/ids.rs\<close>: the closed set of agent CLIs, its wire form, the
  tolerant parser that maps aliases and everything unknown to \<open>Other\<close>, and the predicates that say
  through which hook an agent can be handed a baton. The store keeps the wire string in its
  \<^verbatim>\<open>agent_kind\<close> columns, so the codec theorem is what lets the store compare strings for kinds.
\<close>

datatype agent_kind =
    ClaudeCode
  | Codex
  | OpenCode
  | Cursor
  | GeminiCli
  | ClaudeDesktop
  | OpenClaw
  | AntigravityCli
  | Omp
  | Pi
  | Crush
  | Grok
  | Zero
  | Devin
  | KimiCode
  | KiroCli
  | CommandCode
  | Hermes
  | Pool
  | Zcode
  | CopilotCli
  | Grizzybot
  | Droid
  | Muse
  | CodeBuddy
  | IbmBob
  | Dsh
  | Cline
  | QwenCode
  | Qoder
  | Other

text \<open>\<^verbatim>\<open>AgentKind::ALL\<close>, in the declared order.\<close>

definition all_agents :: "agent_kind list" where
  "all_agents =
     [ClaudeCode, Codex, OpenCode, Cursor, GeminiCli, ClaudeDesktop,
      OpenClaw, AntigravityCli, Omp, Pi, Crush, Grok,
      Zero, Devin, KimiCode, KiroCli, CommandCode, Hermes,
      Pool, Zcode, CopilotCli, Grizzybot, Droid, Muse,
      CodeBuddy, IbmBob, Dsh, Cline, QwenCode, Qoder,
      Other]"

primrec as_str :: "agent_kind \<Rightarrow> ustr" where
  "as_str ClaudeCode = lit ''claude-code''"
| "as_str Codex = lit ''codex''"
| "as_str OpenCode = lit ''open-code''"
| "as_str Cursor = lit ''cursor''"
| "as_str GeminiCli = lit ''gemini-cli''"
| "as_str ClaudeDesktop = lit ''claude-desktop''"
| "as_str OpenClaw = lit ''openclaw''"
| "as_str AntigravityCli = lit ''antigravity-cli''"
| "as_str Omp = lit ''omp''"
| "as_str Pi = lit ''pi''"
| "as_str Crush = lit ''crush''"
| "as_str Grok = lit ''grok''"
| "as_str Zero = lit ''zero''"
| "as_str Devin = lit ''devin''"
| "as_str KimiCode = lit ''kimi-code''"
| "as_str KiroCli = lit ''kiro-cli''"
| "as_str CommandCode = lit ''command-code''"
| "as_str Hermes = lit ''hermes''"
| "as_str Pool = lit ''pool''"
| "as_str Zcode = lit ''zcode''"
| "as_str CopilotCli = lit ''copilot-cli''"
| "as_str Grizzybot = lit ''grizzybot''"
| "as_str Droid = lit ''droid''"
| "as_str Muse = lit ''muse''"
| "as_str CodeBuddy = lit ''codebuddy''"
| "as_str IbmBob = lit ''ibm-bob''"
| "as_str Dsh = lit ''dsh''"
| "as_str Cline = lit ''cline''"
| "as_str QwenCode = lit ''qwen-code''"
| "as_str Qoder = lit ''qoder''"
| "as_str Other = lit ''other''"

text \<open>An alternative of string patterns of a \<^verbatim>\<open>match\<close>.\<close>

definition one_of :: "ustr \<Rightarrow> string list \<Rightarrow> bool" where
  "one_of s alts = (s \<in> set (map lit alts))"

definition from_wire :: "ustr \<Rightarrow> agent_kind" where
  "from_wire s =
     (if one_of s [''claude-code'', ''claude_code'', ''claude''] then ClaudeCode
      else if one_of s [''codex''] then Codex
      else if one_of s [''open-code'', ''opencode'', ''opencode2'', ''opencode-v2'', ''open-code2''] then OpenCode
      else if one_of s [''cursor''] then Cursor
      else if one_of s [''gemini-cli'', ''gemini''] then GeminiCli
      else if one_of s [''claude-desktop'', ''claude_desktop''] then ClaudeDesktop
      else if one_of s [''openclaw'', ''open-claw''] then OpenClaw
      else if one_of s [''antigravity-cli'', ''antigravity'', ''agy''] then AntigravityCli
      else if one_of s [''pi''] then Pi
      else if one_of s [''crush''] then Crush
      else if one_of s [''omp'', ''oh-my-pi''] then Omp
      else if one_of s [''grok''] then Grok
      else if one_of s [''zero''] then Zero
      else if one_of s [''devin''] then Devin
      else if one_of s [''kimi-code'', ''kimi''] then KimiCode
      else if one_of s [''kiro-cli'', ''kiro''] then KiroCli
      else if one_of s [''command-code'', ''commandcode'', ''cmdc'', ''cmd''] then CommandCode
      else if one_of s [''hermes'', ''hermes-agent''] then Hermes
      else if one_of s [''pool'', ''poolside''] then Pool
      else if one_of s [''zcode'', ''zai''] then Zcode
      else if one_of s [''copilot-cli'', ''copilot_cli''] then CopilotCli
      else if one_of s [''grizzybot'', ''grizzy-bot''] then Grizzybot
      else if one_of s [''droid'', ''factory-droid'', ''factory_droid''] then Droid
      else if one_of s [''muse'', ''muse-code'', ''musecode''] then Muse
      else if one_of s [''codebuddy'', ''code-buddy''] then CodeBuddy
      else if one_of s [''ibm-bob'', ''bob''] then IbmBob
      else if one_of s [''dsh'', ''deepseek-harness'', ''deepseek_harness''] then Dsh
      else if one_of s [''cline'', ''cline-cli''] then Cline
      else if one_of s [''qwen-code'', ''qwen'', ''qwencode''] then QwenCode
      else if one_of s [''qoder''] then Qoder
      else Other)"

definition session_start_injects_handoff :: "agent_kind \<Rightarrow> bool" where
  "session_start_injects_handoff a \<longleftrightarrow> \<not> (a = Crush \<or> a = Grok \<or> a = Zero \<or> a = KimiCode \<or> a = Hermes \<or> a = Pool \<or> a = Dsh \<or> a = Cline \<or> a = Other)"

definition user_prompt_injects_handoff :: "agent_kind \<Rightarrow> bool" where
  "user_prompt_injects_handoff a \<longleftrightarrow> a = KimiCode"

definition json_context_user_prompt_injects_handoff :: "agent_kind \<Rightarrow> bool" where
  "json_context_user_prompt_injects_handoff a \<longleftrightarrow> a = Hermes"

definition user_prompt_injects_context :: "agent_kind \<Rightarrow> bool" where
  "user_prompt_injects_context a \<longleftrightarrow> a = ClaudeCode \<or> a = Codex \<or> a = QwenCode \<or> a = Qoder"

definition subagent_start_injects_context :: "agent_kind \<Rightarrow> bool" where
  "subagent_start_injects_context a \<longleftrightarrow> a = ClaudeCode"

definition post_tool_injects_handoff :: "agent_kind \<Rightarrow> bool" where
  "post_tool_injects_handoff a \<longleftrightarrow> a = Grok"

definition reuses_session_id_after_end :: "agent_kind \<Rightarrow> bool" where
  "reuses_session_id_after_end a \<longleftrightarrow> a = Grok \<or> a = KimiCode"

lemmas channel_defs =
  session_start_injects_handoff_def user_prompt_injects_handoff_def
  json_context_user_prompt_injects_handoff_def post_tool_injects_handoff_def

lemma one_of_lit [codec_simps]: "one_of (lit w) alts \<longleftrightarrow> w \<in> set alts"
  by (auto simp: one_of_def)

lemma from_wire_as_str [codec_simps]: "from_wire (as_str k) = k"
  by (cases k) (simp_all add: from_wire_def one_of_lit)

lemma all_agents_complete: "k \<in> set all_agents"
  by (cases k) (simp_all add: all_agents_def)

interpretation agent_wire: wire_codec as_str "\<lambda>s. Some (from_wire s)" "\<lambda>_. True"
  by unfold_locales (simp add: from_wire_as_str)

lemma as_str_eq_iff [simp]: "as_str a = as_str b \<longleftrightarrow> a = b"
  using agent_wire.enc_eq_iff by simp

text \<open>
  Every agent kind survives its wire form: parsing what \<open>as_str\<close> writes gives the kind back,
  \<^verbatim>\<open>AgentKind::ALL\<close> lists every kind exactly once, and no two kinds share a wire string.
\<close>

theorem agent_wire_roundtrip:
  "from_wire (as_str k) = k \<and> k \<in> set all_agents \<and> distinct all_agents
   \<and> distinct (map as_str all_agents)"
proof -
  have d: "distinct all_agents" by (simp add: all_agents_def)
  have "inj_on as_str (set all_agents)" by (simp add: inj_on_def)
  with d have "distinct (map as_str all_agents)" by (simp add: distinct_map)
  with d show ?thesis by (simp add: from_wire_as_str all_agents_complete)
qed

text \<open>
  A handoff fetch is destructive, so an agent must never be able to take it through two hook
  events: the session-start, user-prompt, JSON-context and post-tool channels are pairwise
  exclusive, and the only agents with no channel at all are those the manual tool serves.
\<close>

theorem handoff_channels_exclusive:
  "length (filter (\<lambda>channel. channel k)
     [session_start_injects_handoff, user_prompt_injects_handoff,
      json_context_user_prompt_injects_handoff, post_tool_injects_handoff]) =
   (if k \<in> {Crush, Zero, Pool, Dsh, Cline, Other} then 0 else 1)"
  by (cases k) (simp_all add: channel_defs)

end
