(* ===== verification/Text.thy ===== *)
theory Text
  imports Prelude
begin

text \<open>
  Text helpers of the core crate that every storage boundary calls: decimal printing and
  \<^verbatim>\<open>usize\<close> parsing (used by the identity codec) and the two UTF-8 truncations of
  \<^verbatim>\<open>crates/ai-memory-core/src/sanitize.rs\<close>. The loops over \<^verbatim>\<open>char_indices\<close> are recursions that carry
  the byte offset. Shown: the byte bound of both truncations, that short text is untouched, that
  only a prefix (and a suffix) of the input survives, and that truncating twice is truncating once.
\<close>

section \<open>Decimal numbers\<close>

text \<open>\<^verbatim>\<open>format!("{n}")\<close> for an unsigned number, and \<^verbatim>\<open>str::parse::<usize>\<close> on a 64-bit target.\<close>

fun decimal :: "nat \<Rightarrow> ustr" where
  "decimal n = (if n < 10 then [48 + n] else decimal (n div 10) @ [48 + n mod 10])"

declare decimal.simps [simp del]

fun parse_digits :: "nat \<Rightarrow> ustr \<Rightarrow> nat option" where
  "parse_digits acc [] = Some acc"
| "parse_digits acc (c # cs) =
     (if 48 \<le> c \<and> c \<le> 57 then parse_digits (acc * 10 + (c - 48)) cs else None)"

definition parse_usize :: "ustr \<Rightarrow> nat option" where
  "parse_usize s =
     (case s of [] \<Rightarrow> None
      | c # cs \<Rightarrow>
          (let ds = (if c = 43 then cs else c # cs) in
           if ds = [] then None
           else case parse_digits 0 ds of None \<Rightarrow> None | Some n \<Rightarrow> if n < 2 ^ 64 then Some n else None))"

lemma parse_digits_append:
  "parse_digits acc (a @ b) = (case parse_digits acc a of None \<Rightarrow> None | Some m \<Rightarrow> parse_digits m b)"
  by (induction acc a rule: parse_digits.induct) auto

lemma parse_digits_decimal: "parse_digits 0 (decimal n) = Some n"
proof (induction n rule: decimal.induct)
  case (1 n)
  show ?case
  proof (cases "n < 10")
    case True
    then show ?thesis by (simp add: decimal.simps[of n])
  next
    case False
    with 1 have "parse_digits 0 (decimal (n div 10)) = Some (n div 10)" by simp
    with False show ?thesis
      by (simp add: decimal.simps[of n] parse_digits_append)
  qed
qed

lemma decimal_digits: "c \<in> set (decimal n) \<Longrightarrow> 48 \<le> c \<and> c \<le> 57"
proof (induction n rule: decimal.induct)
  case (1 n)
  then show ?case by (subst (asm) (2) decimal.simps) (auto split: if_splits)
qed

lemma decimal_not_Nil [simp]: "decimal n \<noteq> []"
  by (subst decimal.simps) auto

lemma parse_usize_decimal: "n < 2 ^ 64 \<Longrightarrow> parse_usize (decimal n) = Some n"
proof -
  assume n: "n < 2 ^ 64"
  obtain c cs where d: "decimal n = c # cs" by (cases "decimal n") auto
  have "c \<noteq> 43" using decimal_digits[of c n] d by auto
  then show ?thesis using n d parse_digits_decimal[of n]
    by (simp add: parse_usize_def Let_def)
qed

lemma byte_len_ascii: "(\<And>c. c \<in> set s \<Longrightarrow> c < 0x80) \<Longrightarrow> byte_len s = length s"
  by (induction s) (auto simp: utf8_len_def)

lemma byte_len_decimal: "byte_len (decimal n) = length (decimal n)"
  by (rule byte_len_ascii) (auto dest: decimal_digits)

lemma length_decimal: "n < 10 ^ k \<Longrightarrow> 0 < k \<Longrightarrow> length (decimal n) \<le> k"
proof (induction k arbitrary: n)
  case (Suc k)
  show ?case
  proof (cases "n < 10")
    case True
    then show ?thesis by (simp add: decimal.simps[of n])
  next
    case False
    with Suc.prems have "0 < k" by (cases k) auto
    moreover from Suc.prems have "n div 10 < 10 ^ k"
      by (simp add: less_mult_imp_div_less mult.commute)
    ultimately have "length (decimal (n div 10)) \<le> k" by (rule Suc.IH[rotated])
    with False show ?thesis by (simp add: decimal.simps[of n])
  qed
qed simp

section \<open>Truncation to a byte budget\<close>

definition ellipsis :: uchar where
  "ellipsis = 0x2026"

text \<open>The head loop: characters while the offset after them stays within \<open>limit\<close>.\<close>

fun utf8_head :: "nat \<Rightarrow> nat \<Rightarrow> ustr \<Rightarrow> ustr" where
  "utf8_head limit index [] = []"
| "utf8_head limit index (c # cs) =
     (let next = index + utf8_len c in
      if next > limit then [] else c # utf8_head limit next cs)"

definition truncate_utf8_bytes :: "ustr \<Rightarrow> nat \<Rightarrow> ustr" where
  "truncate_utf8_bytes input cap =
     (if byte_len input \<le> cap then input
      else if cap < utf8_len ellipsis then []
      else utf8_head (cap - utf8_len ellipsis) 0 input @ [ellipsis])"

text \<open>
  The tail loop walks the characters backwards; \<open>end\<close> is the offset just after the current one. It
  stops at the first character that starts at or before the target.
\<close>

fun utf8_tail :: "nat \<Rightarrow> nat \<Rightarrow> ustr \<Rightarrow> ustr \<Rightarrow> ustr" where
  "utf8_tail target end [] acc = acc"
| "utf8_tail target end (c # rev_cs) acc =
     (let index = end - utf8_len c in
      if index \<le> target then c # acc else utf8_tail target index rev_cs (c # acc))"

definition truncate_utf8_bytes_head_tail :: "ustr \<Rightarrow> nat \<Rightarrow> ustr" where
  "truncate_utf8_bytes_head_tail input cap =
     (if byte_len input \<le> cap then input
      else if cap < 64 then truncate_utf8_bytes input cap
      else
        let half = (cap - 48) div 2;
            head = utf8_head half 0 input;
            total = byte_len input;
            tail = utf8_tail (total - half) total (rev input) [];
            omitted = (total - byte_len tail) - byte_len head
        in head @ [10] @ lit ''...[truncated '' @ decimal omitted @ lit '' bytes]...'' @ [10] @ tail)"

lemma utf8_len_ellipsis: "utf8_len ellipsis = 3"
  by (simp add: ellipsis_def utf8_len_def)

lemma utf8_head_bound: "index \<le> limit \<Longrightarrow> index + byte_len (utf8_head limit index s) \<le> limit"
  by (induction limit index s rule: utf8_head.induct) (auto simp: Let_def)

lemma utf8_head_prefix: "prefix (utf8_head limit index s) s"
  by (induction limit index s rule: utf8_head.induct) (auto simp: Let_def)

lemma truncate_bound: "byte_len (truncate_utf8_bytes s cap) \<le> cap"
  using utf8_head_bound[of 0 "cap - 3" s]
  by (auto simp: truncate_utf8_bytes_def utf8_len_ellipsis)

lemma truncate_short [simp]: "byte_len s \<le> cap \<Longrightarrow> truncate_utf8_bytes s cap = s"
  by (simp add: truncate_utf8_bytes_def)

lemma truncate_idem [simp]:
  "truncate_utf8_bytes (truncate_utf8_bytes s cap) cap = truncate_utf8_bytes s cap"
  by (rule truncate_short) (rule truncate_bound)

text \<open>The tail it returns is a suffix, at most three bytes longer than asked for.\<close>

lemma utf8_tail_spec:
  assumes "byte_len (rev rcs) = end" "target < end"
  shows "\<exists>t. rev rcs @ acc = take (length rcs - length t) (rev rcs) @ (t @ acc)
             \<and> utf8_tail target end rcs acc = t @ acc
             \<and> byte_len t \<le> (end - target) + 3 \<and> suffix t (rev rcs)"
  using assms
proof (induction target "end" rcs acc rule: utf8_tail.induct)
  case (2 target "end" c rcs acc)
  let ?i = "end - utf8_len c"
  have b: "byte_len (rev rcs) = ?i" "utf8_len c \<le> end" using "2.prems"(1) by auto
  show ?case
  proof (cases "?i \<le> target")
    case True
    have "byte_len [c] \<le> (end - target) + 3"
      using utf8_len_le4[of c] "2.prems"(2) by simp
    with True show ?thesis
      by (intro exI[of _ "[c]"]) (auto simp: Let_def suffix_def)
  next
    case False
    then have "target < ?i" by simp
    from "2.IH"[OF refl False b(1) this] obtain t where
      t: "rev rcs @ c # acc = take (length rcs - length t) (rev rcs) @ (t @ c # acc)"
      "utf8_tail target ?i rcs (c # acc) = t @ c # acc"
      "byte_len t \<le> (?i - target) + 3" "suffix t (rev rcs)" by blast
    have len: "length t \<le> length rcs" using t(4) by (auto simp: suffix_def dest: arg_cong[of _ _ length])
    have bl: "byte_len (t @ [c]) \<le> (end - target) + 3"
      using t(3) b(2) \<open>target < ?i\<close> by simp
    have suf: "suffix (t @ [c]) (rev (c # rcs))" using t(4) by (auto simp: suffix_def)
    show ?thesis
      using t len bl suf False
      by (intro exI[of _ "t @ [c]"]) (simp add: Let_def)
  qed
qed simp

lemma utf8_tail_bound:
  assumes "byte_len s = end" "target < end"
  shows "byte_len (utf8_tail target end (rev s) []) \<le> (end - target) + 3"
    and "suffix (utf8_tail target end (rev s) []) s"
  using utf8_tail_spec[of "rev s" "end" target "[]"] assms by auto

lemma head_tail_bound:
  assumes "byte_len s < 10 ^ 19"
  shows "byte_len (truncate_utf8_bytes_head_tail s cap) \<le> cap"
proof (cases "byte_len s \<le> cap \<or> cap < 64")
  case True
  then show ?thesis using truncate_bound[of s cap]
    by (auto simp: truncate_utf8_bytes_head_tail_def)
next
  case False
  let ?half = "(cap - 48) div 2" and ?total = "byte_len s"
  let ?head = "utf8_head ?half 0 s" and ?tail = "utf8_tail (?total - ?half) ?total (rev s) []"
  let ?om = "(?total - byte_len ?tail) - byte_len ?head"
  have half: "0 < ?half" "?half < ?total" using False by auto
  have h: "byte_len ?head \<le> ?half" using utf8_head_bound[of 0 ?half s] by simp
  have t: "byte_len ?tail \<le> ?half + 3"
    using utf8_tail_bound(1)[of s ?total "?total - ?half"] half by simp
  have om: "byte_len (decimal ?om) \<le> 19"
    unfolding byte_len_decimal using assms by (intro length_decimal) auto
  have m: "byte_len ([10] @ lit ''...[truncated '') = 15" "byte_len (lit '' bytes]...'' @ [10]) = 11"
    by (simp_all add: lit_def utf8_len_def)
  have "byte_len (truncate_utf8_bytes_head_tail s cap)
      = byte_len ?head + 15 + byte_len (decimal ?om) + 11 + byte_len ?tail"
    using False m by (simp add: truncate_utf8_bytes_head_tail_def Let_def)
  also have "\<dots> \<le> 2 * ?half + 48" using h t om by linarith
  also have "\<dots> \<le> cap" using False by linarith
  finally show ?thesis .
qed

text \<open>
  A text cut to a byte budget never exceeds the budget, is unchanged when it already fits,
  keeps a prefix of the input followed by one ellipsis otherwise, and the head-and-tail variant
  keeps the same byte budget (for inputs below \<open>10 ^ 19\<close> bytes, since the omitted count is printed
  into a fixed 48-byte reserve).
\<close>

theorem truncation_budget:
  "byte_len (truncate_utf8_bytes s cap) \<le> cap
   \<and> (byte_len s \<le> cap \<longrightarrow> truncate_utf8_bytes s cap = s)
   \<and> (cap < byte_len s \<and> 3 \<le> cap \<longrightarrow>
        (\<exists>p. prefix p s \<and> truncate_utf8_bytes s cap = p @ [ellipsis]))
   \<and> (byte_len s < 10 ^ 19 \<longrightarrow> byte_len (truncate_utf8_bytes_head_tail s cap) \<le> cap)"
  using truncate_bound[of s cap] head_tail_bound[of s cap]
    utf8_head_prefix[of "cap - 3" 0 s]
  by (auto simp: truncate_utf8_bytes_def utf8_len_ellipsis)

theorem truncation_budget_witness:
  "truncate_utf8_bytes (lit ''abcdef'') 5 = lit ''ab'' @ [ellipsis]
   \<and> byte_len (truncate_utf8_bytes_head_tail (lit ''abcdef'') 5) \<le> 5"
  using truncation_budget[of "lit ''abcdef''" 5]
  by (simp add: lit_def truncate_utf8_bytes_def ellipsis_def utf8_len_def Let_def)

section \<open>Bytes\<close>

text \<open>The UTF-8 bytes of a string (\<^verbatim>\<open>str::as_bytes\<close>) and the big-endian bytes of a 64-bit number.\<close>

definition utf8_char :: "uchar \<Rightarrow> nat list" where
  "utf8_char c =
     (if c < 0x80 then [c]
      else if c < 0x800 then [0xC0 + c div 0x40, 0x80 + c mod 0x40]
      else if c < 0x10000 then [0xE0 + c div 0x1000, 0x80 + c div 0x40 mod 0x40, 0x80 + c mod 0x40]
      else [0xF0 + c div 0x40000, 0x80 + c div 0x1000 mod 0x40, 0x80 + c div 0x40 mod 0x40, 0x80 + c mod 0x40])"

definition utf8_bytes :: "ustr \<Rightarrow> nat list" where
  "utf8_bytes s = concat (map utf8_char s)"

definition be_bytes :: "nat \<Rightarrow> nat list" where
  "be_bytes n = rev (map (\<lambda>i. n div 256 ^ i mod 256) [0..<8])"

lemma length_be_bytes [simp]: "length (be_bytes n) = 8"
  by (simp add: be_bytes_def)

lemma length_utf8_char: "length (utf8_char c) = utf8_len c"
  by (simp add: utf8_char_def utf8_len_def)

lemma length_utf8_bytes: "length (utf8_bytes s) = byte_len s"
  by (simp add: utf8_bytes_def length_concat comp_def length_utf8_char byte_len_def)

lemma digits_value:
  "foldr (\<lambda>b a. b + 256 * a) (map (\<lambda>i. n div 256 ^ i mod 256) [0..<k]) 0 = (n::nat) mod 256 ^ k"
proof (induction k arbitrary: n)
  case (Suc k)
  have "foldr (\<lambda>b a. b + 256 * a) (map (\<lambda>i. n div 256 ^ i mod 256) [0..<Suc k]) 0
      = n mod 256 + 256 * foldr (\<lambda>b a. b + 256 * a) (map (\<lambda>i. (n div 256) div 256 ^ i mod 256) [0..<k]) 0"
    by (simp add: upt_conv_Cons map_Suc_upt[symmetric] div_mult2_eq comp_def del: upt_Suc)
  also have "\<dots> = n mod 256 ^ Suc k" unfolding Suc.IH by (simp add: mod_mult2_eq)
  finally show ?case .
qed simp

lemma be_bytes_inj:
  assumes "n < 2 ^ 64" "m < 2 ^ 64" "be_bytes n = be_bytes m"
  shows "n = m"
proof -
  have "map (\<lambda>i. n div 256 ^ i mod 256) [0..<8] = map (\<lambda>i. m div 256 ^ i mod 256) [0..<8]"
    using assms(3) by (simp only: be_bytes_def rev_is_rev_conv)
  then have "n mod 256 ^ 8 = m mod 256 ^ 8" unfolding digits_value[of _ 8, symmetric] by (simp only:)
  with assms(1,2) show ?thesis by simp
qed

text \<open>UTF-8 is a prefix code on scalar values, so the bytes determine the string.\<close>

lemma digit_eq: "(c::nat) div k = d div k \<Longrightarrow> c mod k = d mod k \<Longrightarrow> c = d"
  by (metis div_mult_mod_eq)

lemma div_0x40: "(c::nat) div 0x1000 = c div 0x40 div 0x40" "c div 0x40000 = c div 0x40 div 0x40 div 0x40"
  by (simp_all add: div_mult2_eq[symmetric])

lemma utf8_lead:
  "c < 0x80 \<Longrightarrow> hd (utf8_char c) < 0x80"
  "0x80 \<le> c \<Longrightarrow> c < 0x800 \<Longrightarrow> 0xC0 \<le> hd (utf8_char c) \<and> hd (utf8_char c) < 0xE0"
  "0x800 \<le> c \<Longrightarrow> c < 0x10000 \<Longrightarrow> 0xE0 \<le> hd (utf8_char c) \<and> hd (utf8_char c) < 0xF0"
  "0x10000 \<le> c \<Longrightarrow> 0xF0 \<le> hd (utf8_char c)"
  by (simp_all add: utf8_char_def)

lemma utf8_len_lead: "utf8_len c =
   (let b = hd (utf8_char c) in if b < 0x80 then 1 else if b < 0xE0 then 2 else if b < 0xF0 then 3 else 4)"
  using utf8_lead[of c] by (auto simp: utf8_len_def Let_def)

lemma utf8_char_inj: "utf8_char c = utf8_char d \<Longrightarrow> c = d"
proof -
  assume e: "utf8_char c = utf8_char d"
  then have "utf8_len c = utf8_len d" unfolding utf8_len_lead by simp
  then consider "c < 0x80" "d < 0x80" | "0x80 \<le> c" "c < 0x800" "0x80 \<le> d" "d < 0x800"
    | "0x800 \<le> c" "c < 0x10000" "0x800 \<le> d" "d < 0x10000" | "0x10000 \<le> c" "0x10000 \<le> d"
    unfolding utf8_len_def by (fastforce split: if_splits)
  then show ?thesis
  proof cases
    case 1 with e show ?thesis by (simp add: utf8_char_def)
  next
    case 2
    with e have "c div 0x40 = d div 0x40" "c mod 0x40 = d mod 0x40" by (simp_all add: utf8_char_def)
    then show ?thesis by (rule digit_eq)
  next
    case 3
    with e have t: "c div 0x40 div 0x40 = d div 0x40 div 0x40" "c div 0x40 mod 0x40 = d div 0x40 mod 0x40"
      and m: "c mod 0x40 = d mod 0x40" by (simp_all add: utf8_char_def div_0x40)
    from t have "c div 0x40 = d div 0x40" by (rule digit_eq)
    then show ?thesis using m by (rule digit_eq)
  next
    case 4
    with e have t: "c div 0x40 div 0x40 div 0x40 = d div 0x40 div 0x40 div 0x40"
      "c div 0x40 div 0x40 mod 0x40 = d div 0x40 div 0x40 mod 0x40"
      and m2: "c div 0x40 mod 0x40 = d div 0x40 mod 0x40" and m: "c mod 0x40 = d mod 0x40"
      by (simp_all add: utf8_char_def div_0x40)
    from t have "c div 0x40 div 0x40 = d div 0x40 div 0x40" by (rule digit_eq)
    then have "c div 0x40 = d div 0x40" using m2 by (rule digit_eq)
    then show ?thesis using m by (rule digit_eq)
  qed
qed

lemma utf8_bytes_inj: "utf8_bytes s = utf8_bytes t \<Longrightarrow> s = t"
proof (induction s arbitrary: t)
  case Nil
  then show ?case by (cases t) (auto simp: utf8_bytes_def utf8_char_def split: if_splits)
next
  case (Cons c s)
  obtain d t' where t: "t = d # t'"
    using Cons.prems by (cases t) (auto simp: utf8_bytes_def utf8_char_def split: if_splits)
  have e: "utf8_char c @ utf8_bytes s = utf8_char d @ utf8_bytes t'"
    using Cons.prems t by (simp add: utf8_bytes_def)
  have "utf8_char c \<noteq> []" "utf8_char d \<noteq> []" by (simp_all add: utf8_char_def)
  with e have "hd (utf8_char c) = hd (utf8_char d)" by (metis hd_append2)
  then have "length (utf8_char c) = length (utf8_char d)" unfolding length_utf8_char utf8_len_lead by simp
  with e have "utf8_char c = utf8_char d" "utf8_bytes s = utf8_bytes t'" by simp_all
  with Cons.IH t show ?case by (simp add: utf8_char_inj)
qed

end
