(* ===== verification/Identity.thy ===== *)
theory Identity
  imports Text
begin

text \<open>
  \<^verbatim>\<open>crates/ai-memory-core/src/actor.rs\<close>: who a request is from (\<open>actor_context\<close>, \<open>identity_key\<close>), what
  it may do (\<open>auth_level\<close>, \<open>capability\<close>), and which owned rows it sees (\<open>owner_filter\<close>). Ownership is
  keyed on a qualified storage string; the theorems show that this string determines the identity,
  that what is parsed back is valid, and that one operator's filter never admits another's rows.
  UUIDv5 hashing (the \<^verbatim>\<open>uuid\<close> crate) is the argument \<open>v5\<close> of \<open>path_segment\<close>.
\<close>

section \<open>Actors\<close>

record actor_context =
  ac_agent :: "ustr option"
  ac_user :: "ustr option"
  ac_name :: "ustr option"
  ac_email :: "ustr option"
  ac_session_id :: "ustr option"
  ac_issuer :: "ustr option"
  ac_sub :: "ustr option"
  ac_client :: "ustr option"

definition anonymous_actor :: actor_context where
  "anonymous_actor = \<lparr>ac_agent = None, ac_user = None, ac_name = None, ac_email = None,
     ac_session_id = None, ac_issuer = None, ac_sub = None, ac_client = None\<rparr>"

definition has_any :: "actor_context \<Rightarrow> bool" where
  "has_any a \<longleftrightarrow> ac_agent a \<noteq> None \<or> ac_user a \<noteq> None \<or> ac_name a \<noteq> None \<or> ac_email a \<noteq> None
     \<or> ac_session_id a \<noteq> None \<or> ac_issuer a \<noteq> None \<or> ac_sub a \<noteq> None \<or> ac_client a \<noteq> None"

datatype identity_key = SubjectKey ustr ustr | UserKey ustr

text \<open>The closure \<^verbatim>\<open>trimmed\<close> of \<^verbatim>\<open>identity_key\<close>: blank values name nobody.\<close>

definition trimmed :: "ustr option \<Rightarrow> ustr option" where
  "trimmed v = (case v of None \<Rightarrow> None | Some s \<Rightarrow> if trim s = [] then None else Some (trim s))"

definition identity_key :: "actor_context \<Rightarrow> identity_key option" where
  "identity_key a =
     (case (trimmed (ac_issuer a), trimmed (ac_sub a)) of
        (Some issuer, Some subject) \<Rightarrow> Some (SubjectKey issuer subject)
      | _ \<Rightarrow> map_option UserKey (trimmed (ac_user a)))"

fun to_actor_context :: "identity_key \<Rightarrow> actor_context" where
  "to_actor_context (SubjectKey issuer subject) =
     anonymous_actor\<lparr>ac_issuer := Some issuer, ac_sub := Some subject\<rparr>"
| "to_actor_context (UserKey user) = anonymous_actor\<lparr>ac_user := Some user\<rparr>"

definition identity_is_valid :: "identity_key \<Rightarrow> bool" where
  "identity_is_valid k \<longleftrightarrow> identity_key (to_actor_context k) = Some k"

fun storage_key :: "identity_key \<Rightarrow> ustr" where
  "storage_key (SubjectKey issuer subject) =
     lit ''oidc:'' @ decimal (byte_len issuer) @ lit '':'' @ issuer @ subject"
| "storage_key (UserKey user) = lit ''user:'' @ user"

definition from_storage_key :: "ustr \<Rightarrow> identity_key option" where
  "from_storage_key key =
     (let parsed =
        (case strip_prefix (lit ''user:'') key of
           Some user \<Rightarrow> Some (UserKey user)
         | None \<Rightarrow>
             Option.bind (strip_prefix (lit ''oidc:'') key) (\<lambda>encoded.
             Option.bind (split_once 58 encoded) (\<lambda>(issuer_len, remainder).
             Option.bind (parse_usize issuer_len) (\<lambda>n.
             map_option (\<lambda>(issuer, subject). SubjectKey issuer subject)
               (split_at_byte n remainder)))))
      in Option.bind parsed (\<lambda>k. if identity_is_valid k then Some k else None))"

text \<open>A path component for operator-owned data. \<open>readable_user\<close> is the guard of the first arm.\<close>

definition readable_user :: "ustr \<Rightarrow> bool" where
  "readable_user u \<longleftrightarrow> byte_len u \<le> 64 \<and> u \<noteq> [] \<and> last u \<noteq> 46
     \<and> (\<forall>c \<in> set u. (97 \<le> c \<and> c \<le> 122) \<or> (48 \<le> c \<and> c \<le> 57) \<or> c = 46 \<or> c = 95 \<or> c = 45)"

fun path_segment :: "(ustr \<Rightarrow> ustr) \<Rightarrow> identity_key \<Rightarrow> ustr" where
  "path_segment v5 (UserKey user) =
     (if readable_user user then lit ''u-'' @ user
      else lit ''uh-'' @ v5 (storage_key (UserKey user)))"
| "path_segment v5 (SubjectKey issuer subject) =
     lit ''o-'' @ v5 (storage_key (SubjectKey issuer subject))"

section \<open>Owner filters\<close>

datatype owner_filter = OwnerUser ustr | OwnerUnattributed | OwnerAny

definition owner_filter_for :: "actor_context \<Rightarrow> owner_filter" where
  "owner_filter_for a =
     (case identity_key a of None \<Rightarrow> OwnerUnattributed | Some k \<Rightarrow> OwnerUser (storage_key k))"

fun admits_owner :: "owner_filter \<Rightarrow> ustr option \<Rightarrow> bool" where
  "admits_owner _ None = True"
| "admits_owner OwnerAny _ = True"
| "admits_owner (OwnerUser me) (Some owner) = (me = owner)"
| "admits_owner OwnerUnattributed (Some _) = False"

definition owner_identity :: "identity_key option \<Rightarrow> bool \<Rightarrow> identity_key option" where
  "owner_identity identity distinguishes_operators =
     (if distinguishes_operators
      then (case identity of None \<Rightarrow> None | Some k \<Rightarrow> if identity_is_valid k then Some k else None)
      else None)"

definition owner_stamp :: "identity_key option \<Rightarrow> bool \<Rightarrow> ustr option" where
  "owner_stamp identity distinguishes_operators =
     map_option storage_key (owner_identity identity distinguishes_operators)"

section \<open>Capabilities\<close>

datatype auth_level = AuthAnonymous | AuthRoot | AuthUser

datatype capability = Admin | UserManagement | NormalRead | NormalWrite | SkipAdmissionChain

datatype authz_error = AuthenticationRequired string | AuthzForbidden string

fun authz_message :: "authz_error \<Rightarrow> string" where
  "authz_message (AuthenticationRequired msg) = msg"
| "authz_message (AuthzForbidden msg) = msg"

fun require_root :: "auth_level \<Rightarrow> string \<Rightarrow> string \<Rightarrow> authz_error + unit" where
  "require_root AuthRoot _ _ = Inr ()"
| "require_root AuthAnonymous anonymous_message _ = Inl (AuthenticationRequired anonymous_message)"
| "require_root AuthUser _ user_message = Inl (AuthzForbidden user_message)"

fun authorize_level :: "auth_level \<Rightarrow> capability \<Rightarrow> bool \<Rightarrow> authz_error + unit" where
  "authorize_level level NormalRead _ = Inr ()"
| "authorize_level level NormalWrite _ = Inr ()"
| "authorize_level level SkipAdmissionChain _ =
     (case level of AuthUser \<Rightarrow> Inl (AuthzForbidden ''admission webhook skip is root-only'')
      | _ \<Rightarrow> Inr ())"
| "authorize_level level Admin distinguishes_operators =
     (if \<not> distinguishes_operators then Inr ()
      else require_root level ''admin operation requires authentication in multi-user mode''
             ''admin operation is root-only in multi-user mode'')"
| "authorize_level level UserManagement _ =
     require_root level ''user management requires authentication'' ''user management is root-only''"

definition parse_skip_admission_chain :: "ustr option \<Rightarrow> ustr list" where
  "parse_skip_admission_chain raw =
     (case raw of None \<Rightarrow> []
      | Some value \<Rightarrow> filter (\<lambda>t. t \<noteq> []) (map trim (split_all 44 value)))"

definition skip_admission_chain_for :: "auth_level \<Rightarrow> ustr option \<Rightarrow> ustr list" where
  "skip_admission_chain_for level raw =
     (case authorize_level level SkipAdmissionChain True of
        Inr _ \<Rightarrow> parse_skip_admission_chain raw | Inl _ \<Rightarrow> [])"

section \<open>Lemmas\<close>

lemma trimmed_SomeD: "trimmed v = Some t \<Longrightarrow> t \<noteq> [] \<and> trim t = t"
  by (auto simp: trimmed_def split: option.splits if_splits)

lemma trimmed_Some_eq: "trimmed (Some s) = Some s \<longleftrightarrow> s \<noteq> [] \<and> trim s = s"
  by (auto simp: trimmed_def)

lemma valid_UserKey [simp]: "identity_is_valid (UserKey u) \<longleftrightarrow> u \<noteq> [] \<and> trim u = u"
  by (auto simp: identity_is_valid_def identity_key_def anonymous_actor_def trimmed_def
      split: option.splits)

lemma valid_SubjectKey [simp]:
  "identity_is_valid (SubjectKey i s) \<longleftrightarrow> i \<noteq> [] \<and> trim i = i \<and> s \<noteq> [] \<and> trim s = s"
  by (auto simp: identity_is_valid_def identity_key_def anonymous_actor_def trimmed_def
      split: option.splits if_splits)

lemma identity_key_valid: "identity_key a = Some k \<Longrightarrow> identity_is_valid k"
  by (auto simp: identity_key_def dest!: trimmed_SomeD split: option.splits)

lemma strip_user_oidc [simp]: "strip_prefix (lit ''user:'') (lit ''oidc:'' @ s) = None"
  by (simp add: strip_prefix_def lit_def)

lemma colon_not_in_decimal: "58 \<notin> set (decimal n)"
  using decimal_digits by fastforce

definition issuer_fits :: "identity_key \<Rightarrow> bool" where
  "issuer_fits k \<longleftrightarrow> (case k of SubjectKey i _ \<Rightarrow> byte_len i < 2 ^ 64 | UserKey _ \<Rightarrow> True)"

lemma from_storage_key_storage_key:
  assumes "identity_is_valid k" "issuer_fits k"
  shows "from_storage_key (storage_key k) = Some k"
proof (cases k)
  case (SubjectKey i s)
  have split: "split_once 58 (decimal (byte_len i) @ lit '':'' @ i @ s)
      = Some (decimal (byte_len i), i @ s)"
    using split_once_append[OF colon_not_in_decimal] by (simp add: lit_def)
  from assms SubjectKey have "parse_usize (decimal (byte_len i)) = Some (byte_len i)"
    by (simp add: issuer_fits_def parse_usize_decimal)
  with SubjectKey assms split show ?thesis
    by (simp add: from_storage_key_def split_at_byte_append)
next
  case (UserKey u)
  with assms show ?thesis by (simp add: from_storage_key_def)
qed

lemma from_storage_key_valid: "from_storage_key key = Some k \<Longrightarrow> identity_is_valid k"
  by (auto simp: from_storage_key_def Let_def simp del: valid_UserKey valid_SubjectKey
      elim!: Option.bind_eq_Some_conv[THEN iffD1, elim_format] split: if_splits)

interpretation identity_wire: wire_codec storage_key from_storage_key
    "\<lambda>k. identity_is_valid k \<and> issuer_fits k"
  by unfold_locales (simp add: from_storage_key_storage_key)

lemma owner_stamp_valid: "identity_is_valid k \<Longrightarrow> owner_stamp (Some k) True = Some (storage_key k)"
  by (simp add: owner_stamp_def owner_identity_def)

section \<open>Properties\<close>

text \<open>
  A stored owner key gives the identity back exactly: every valid identity is recovered from
  its storage key, so distinct identities never share an ownership bucket; and whatever the parser
  accepts is a valid (trimmed, non-blank) identity. The issuer length fits \<^verbatim>\<open>usize\<close>, as every Rust
  string's does.
\<close>

theorem identity_storage_roundtrip:
  assumes "identity_is_valid k" "issuer_fits k" "identity_is_valid k'" "issuer_fits k'"
  shows "from_storage_key (storage_key k) = Some k
    \<and> (storage_key k = storage_key k' \<longleftrightarrow> k = k')
    \<and> (\<forall>s j. from_storage_key s = Some j \<longrightarrow> identity_is_valid j)"
  using assms from_storage_key_storage_key[of k] identity_wire.enc_eq_iff[of k k']
    from_storage_key_valid by blast

theorem identity_storage_roundtrip_witness:
  "from_storage_key (storage_key (SubjectKey (lit ''https://idp'') (lit ''a:b'')))
     = Some (SubjectKey (lit ''https://idp'') (lit ''a:b''))
   \<and> storage_key (SubjectKey (lit ''https://idp'') (lit ''a:b'')) \<noteq> storage_key (UserKey (lit ''alice''))"
  using identity_storage_roundtrip
      [of "SubjectKey (lit ''https://idp'') (lit ''a:b'')" "UserKey (lit ''alice'')"]
  by (simp add: issuer_fits_def lit_def utf8_len_def trim_def is_whitespace_def)

text \<open>
  Owner isolation: the filter built from one identified actor admits a row stamped by another
  identified actor only when both resolve to the same identity, always admits shared rows, and a
  caller without identity sees shared rows only.
\<close>

theorem owner_filter_isolation:
  assumes "identity_key me = Some k" "identity_key other = Some k'"
    and "issuer_fits k" "issuer_fits k'"
  shows "(admits_owner (owner_filter_for me) (owner_stamp (identity_key other) True) \<longleftrightarrow> k = k')
    \<and> admits_owner (owner_filter_for me) None
    \<and> (\<forall>anon. identity_key anon = None \<longrightarrow>
         \<not> admits_owner (owner_filter_for anon) (owner_stamp (identity_key other) True))"
proof -
  from assms have v: "identity_is_valid k" "identity_is_valid k'"
    by (auto dest: identity_key_valid)
  then have "owner_stamp (identity_key other) True = Some (storage_key k')"
    by (simp add: assms owner_stamp_valid)
  moreover have "storage_key k = storage_key k' \<longleftrightarrow> k = k'"
    using v assms identity_wire.enc_eq_iff by blast
  ultimately show ?thesis by (simp add: owner_filter_for_def assms)
qed

theorem owner_filter_isolation_witness:
  "\<not> admits_owner (owner_filter_for (to_actor_context (UserKey (lit ''alice''))))
       (owner_stamp (identity_key (to_actor_context (SubjectKey (lit ''i'') (lit ''alice'')))) True)"
proof -
  have 1: "identity_key (to_actor_context (UserKey (lit ''alice''))) = Some (UserKey (lit ''alice''))"
    by (simp add: identity_key_def anonymous_actor_def trimmed_def lit_def trim_def is_whitespace_def)
  have 2: "identity_key (to_actor_context (SubjectKey (lit ''i'') (lit ''alice'')))
      = Some (SubjectKey (lit ''i'') (lit ''alice''))"
    by (simp add: identity_key_def anonymous_actor_def trimmed_def lit_def trim_def is_whitespace_def)
  show ?thesis
    using owner_filter_isolation[OF 1 2] by (simp add: issuer_fits_def lit_def utf8_len_def)
qed

text \<open>
  A path segment is safe to use as a directory name and identifies the operator: it has only
  lowercase letters, digits, dots, dashes and underscores, never ends in a dot, is at most 66
  characters, and two valid identities get the same segment only if they are equal, as long as
  their two storage keys do not collide under UUIDv5. The hypothesis on \<open>v5\<close> is the documented
  form of a simple UUID: 32 lowercase hex digits.
\<close>

theorem path_segment_safe:
  assumes hex: "\<And>s. length (v5 s) = 32 \<and> (\<forall>c \<in> set (v5 s). (48 \<le> c \<and> c \<le> 57) \<or> (97 \<le> c \<and> c \<le> 102))"
    and valid: "identity_is_valid k" "issuer_fits k" "identity_is_valid k'" "issuer_fits k'"
    and no_collision: "v5 (storage_key k) = v5 (storage_key k') \<Longrightarrow> storage_key k = storage_key k'"
  shows "(\<forall>c \<in> set (path_segment v5 k).
            (97 \<le> c \<and> c \<le> 122) \<or> (48 \<le> c \<and> c \<le> 57) \<or> c = 46 \<or> c = 95 \<or> c = 45)
    \<and> last (path_segment v5 k) \<noteq> 46
    \<and> length (path_segment v5 k) \<le> 66
    \<and> (path_segment v5 k = path_segment v5 k' \<longleftrightarrow> k = k')"
proof -
  have v5: "v5 s \<noteq> []" "last (v5 s) \<noteq> 46" for s
  proof -
    show ne: "v5 s \<noteq> []" using hex[of s] by auto
    then have "last (v5 s) \<in> set (v5 s)" by simp
    with hex[of s] show "last (v5 s) \<noteq> 46" by fastforce
  qed
  have inj: "path_segment v5 k = path_segment v5 k' \<longleftrightarrow> k = k'"
    using identity_wire.enc_eq_iff[of k k'] valid no_collision
    by (cases k; cases k') (auto simp: lit_def split: if_splits)
  have shape: "(\<forall>c \<in> set (path_segment v5 k).
            (97 \<le> c \<and> c \<le> 122) \<or> (48 \<le> c \<and> c \<le> 57) \<or> c = 46 \<or> c = 95 \<or> c = 45)
      \<and> length (path_segment v5 k) \<le> 66"
    using hex[of "storage_key k"] length_le_byte_len
    by (cases k) (fastforce simp: lit_def readable_user_def intro: le_trans split: if_splits)+
  have "last (path_segment v5 k) \<noteq> 46"
    using v5 by (cases k) (auto simp: readable_user_def)
  with inj shape show ?thesis by blast
qed

definition sample_v5 :: "ustr \<Rightarrow> ustr" where
  "sample_v5 s = replicate 31 48 @ [if s = storage_key (UserKey (lit ''Bob'')) then 97 else 98]"

theorem path_segment_safe_witness:
  "path_segment sample_v5 (UserKey (lit ''Bob'')) \<noteq> path_segment sample_v5 (UserKey (lit ''bob''))
   \<and> last (path_segment sample_v5 (UserKey (lit ''Bob''))) \<noteq> 46"
proof -
  have hex: "length (sample_v5 s) = 32
      \<and> (\<forall>c \<in> set (sample_v5 s). (48 \<le> c \<and> c \<le> 57) \<or> (97 \<le> c \<and> c \<le> 102))" for s
    by (auto simp: sample_v5_def)
  have col: "sample_v5 (storage_key (UserKey (lit ''Bob''))) = sample_v5 (storage_key (UserKey (lit ''bob'')))
      \<Longrightarrow> storage_key (UserKey (lit ''Bob'')) = storage_key (UserKey (lit ''bob''))"
    by (simp add: sample_v5_def split: if_splits)
  show ?thesis
    using path_segment_safe[of sample_v5 "UserKey (lit ''Bob'')" "UserKey (lit ''bob'')", OF hex _ _ _ _ col]
    by (simp add: issuer_fits_def lit_def trim_def is_whitespace_def)
qed

text \<open>
  The capability table: root may do everything; user management is root-only; admin routes are
  root-only once operators are told apart; a database user can neither skip the admission chain nor
  smuggle a skip list through the header.
\<close>

theorem capability_table:
  "((\<exists>e. authorize_level level cap d = Inl e) \<longleftrightarrow>
      level \<noteq> AuthRoot \<and> (cap = UserManagement \<or> (cap = Admin \<and> d))
      \<or> level = AuthUser \<and> cap = SkipAdmissionChain)
   \<and> skip_admission_chain_for level raw =
       (if level = AuthUser then [] else parse_skip_admission_chain raw)"
proof
  show "(\<exists>e. authorize_level level cap d = Inl e) \<longleftrightarrow>
      level \<noteq> AuthRoot \<and> (cap = UserManagement \<or> (cap = Admin \<and> d))
      \<or> level = AuthUser \<and> cap = SkipAdmissionChain"
    by (cases level; cases cap; simp)
  show "skip_admission_chain_for level raw =
      (if level = AuthUser then [] else parse_skip_admission_chain raw)"
    by (cases level) (simp_all add: skip_admission_chain_for_def)
qed


end
