(* ===== verification/Schema.thy ===== *)
theory Schema
  imports Agent Identity
begin

text \<open>
  The tables of the SQLite store that the modelled operations read and write, one record per row
  type (columns of the migrations under \<^verbatim>\<open>crates/ai-memory-store/migrations\<close>), the store as a record
  of tables, and the error type of the store layer. A UUID is the number its 16 big-endian bytes
  spell, so blob order is number order. \<^verbatim>\<open>from_slice\<close> on a stored id cannot fail here, since the
  columns only hold what \<^verbatim>\<open>as_bytes\<close> wrote. Timestamps are microseconds as \<open>int\<close>: \<^verbatim>\<open>jiff\<close>
  timestamps end in the year 9999, far inside \<^verbatim>\<open>i64\<close>. A \<^verbatim>\<open>CHECK (state IN ...)\<close> column is a datatype.
\<close>

type_synonym uuid = nat

datatype store_error =
    Sqlite string
  | NotFound string
  | StoreForbidden string
  | InvalidState string
  | MalformedRecord string
  | Duplicate ustr
  | WorkstreamBusy ustr int
  | WorkstreamNameTaken ustr
  | ManagedRunBoundaryRefused
  | ManagedRunLeaseLapsed
  | SessionPurged uuid
  | SessionCollision
  | PagePathCollides ustr ustr

type_synonym 'a store_result = "store_error + 'a"

section \<open>Scopes, users, sessions\<close>

record workspace_row =
  wsp_id :: uuid
  wsp_name :: ustr

record project_row =
  prj_id :: uuid
  prj_workspace :: uuid
  prj_name :: ustr
  prj_access_mode :: ustr
  prj_created_by :: "uuid option"

record grant_row =
  grt_workspace :: uuid
  grt_project :: uuid
  grt_user :: uuid
  grt_level :: ustr
  grt_granted_by :: "uuid option"
  grt_granted_at :: int

text \<open>A 32-byte SHA-256 digest is the number its bytes spell, like a UUID.\<close>

type_synonym digest = nat

datatype user_role = RoleRoot | RoleUser

record user_row =
  usr_id :: uuid
  usr_username :: ustr
  usr_name :: "ustr option"
  usr_email :: "ustr option"
  usr_created_at :: int
  usr_last_seen_at :: "int option"
  usr_role :: user_role
  usr_password_hash :: "ustr option"
  usr_must_change_password :: bool
  usr_disabled_at :: "int option"

record web_session_row =
  web_id :: uuid
  web_session_hash :: digest
  web_user :: uuid
  web_csrf_hash :: digest
  web_created_at :: int
  web_last_used_at :: int
  web_expires_at :: int
  web_revoked_at :: "int option"

record credential_row =
  crd_id :: uuid
  crd_user :: uuid
  crd_label :: ustr
  crd_token_hash :: digest
  crd_preview :: "ustr option"
  crd_created_at :: int
  crd_last_used_at :: "int option"
  crd_expires_at :: "int option"
  crd_revoked_at :: "int option"

record session_row =
  ses_id :: uuid
  ses_workspace :: uuid
  ses_project :: uuid
  ses_agent_kind :: ustr
  ses_cwd :: "ustr option"
  ses_started_at :: int
  ses_ended_at :: "int option"
  ses_summary_page :: "uuid option"
  ses_ended_observation_count :: nat
  ses_actor_user :: "ustr option"

record observation_row =
  obs_id :: uuid
  obs_session :: uuid
  obs_workspace :: uuid
  obs_project :: uuid
  obs_kind :: ustr
  obs_extension :: "ustr option"
  obs_source_event :: "ustr option"
  obs_title :: ustr
  obs_body :: ustr
  obs_importance :: int
  obs_created_at :: int
  obs_file_path :: "ustr option"

record purged_row =
  pur_session :: uuid
  pur_workspace :: uuid
  pur_project :: uuid

record ingest_key_row =
  ing_project :: uuid
  ing_key :: ustr
  ing_seen_at :: int
  ing_completed_at :: "int option"
  ing_session :: "uuid option"
  ing_agent_kind :: "ustr option"
  ing_observation_kind :: "ustr option"
  ing_event_identity :: "ustr option"
  ing_recovery_retained :: bool

text \<open>
  One row per page version. The full-text and embedding columns are derived data and not modelled, nor are the access
  counters and the salience, which no modelled operation reads.
\<close>

record page_row =
  pag_id :: uuid
  pag_workspace :: uuid
  pag_project :: uuid
  pag_path :: ustr
  pag_path_search :: ustr
  pag_title :: ustr
  pag_tier :: ustr
  pag_body :: ustr
  pag_body_sha256 :: digest
  pag_frontmatter_json :: ustr
  pag_is_latest :: bool
  pag_supersedes :: "uuid option"
  pag_pinned :: bool
  pag_author :: "uuid option"
  pag_created_at :: int
  pag_updated_at :: int
  pag_superseded_at :: "int option"
  pag_expires_at :: "int option"
  pag_valid_from :: "int option"
  pag_valid_to :: "int option"
  pag_compacted_at :: "int option"

record link_row =
  lnk_from :: uuid
  lnk_to :: "uuid option"
  lnk_workspace :: "ustr option"
  lnk_project :: "ustr option"
  lnk_path :: ustr
  lnk_type :: ustr

record evidence_row =
  pev_page :: uuid
  pev_kind :: ustr
  pev_source :: ustr
  pev_created_at :: int

record entity_row =
  ent_id :: uuid
  ent_workspace :: uuid
  ent_project :: uuid
  ent_name :: ustr
  ent_created_at :: int

record entity_link_row =
  epl_entity :: uuid
  epl_page :: uuid
  epl_valid_from :: "int option"
  epl_superseded_at :: "int option"

text \<open>A first live version with nothing in it, for the demonstrations.\<close>

definition plain_page :: "uuid \<Rightarrow> uuid \<Rightarrow> uuid \<Rightarrow> ustr \<Rightarrow> page_row" where
  "plain_page i workspace project path =
     \<lparr>pag_id = i, pag_workspace = workspace, pag_project = project, pag_path = path, pag_path_search = [],
      pag_title = [], pag_tier = lit ''semantic'', pag_body = [], pag_body_sha256 = 0, pag_frontmatter_json = lit ''{}'',
      pag_is_latest = True, pag_supersedes = None, pag_pinned = False, pag_author = None, pag_created_at = 0,
      pag_updated_at = 0, pag_superseded_at = None, pag_expires_at = None, pag_valid_from = Some 0,
      pag_valid_to = None, pag_compacted_at = None\<rparr>"

section \<open>Managed workstreams\<close>

datatype run_state = RunActive | RunFinished | RunExpired

record workstream_row =
  wst_id :: uuid
  wst_workspace :: uuid
  wst_project :: uuid
  wst_repo :: ustr
  wst_worktree :: ustr
  wst_name :: ustr
  wst_cwd :: ustr
  wst_created_at :: int
  wst_selected_at :: int
  wst_updated_at :: int

record run_row =
  run_id :: uuid
  run_workstream :: uuid
  run_agent_kind :: ustr
  run_lease_owner :: ustr
  run_native_session :: "ustr option"
  run_linked_at :: "int option"
  run_owner_user :: "ustr option"
  run_state :: run_state
  run_sync_after :: int
  run_sync_through :: int
  run_context_delivered :: bool
  run_lease_expires_at :: int
  run_started_at :: int
  run_ended_at :: "int option"
  run_exit_code :: "int option"
  run_previous_agent :: "ustr option"
  run_previous_native :: "ustr option"
  run_scope_by_id :: bool

record native_row =
  nss_workstream :: uuid
  nss_agent_kind :: ustr
  nss_session :: ustr
  nss_is_current :: bool
  nss_source_cursor :: "ustr option"
  nss_delivery_cursor :: int
  nss_created_at :: int
  nss_updated_at :: int

record event_row =
  evt_workstream :: uuid
  evt_sequence :: int
  evt_event_id :: ustr
  evt_agent_kind :: ustr
  evt_native_session :: ustr
  evt_source_record :: "ustr option"
  evt_kind :: ustr
  evt_role :: "ustr option"
  evt_content :: ustr
  evt_occurred_at :: "ustr option"
  evt_metadata_json :: ustr
  evt_segment_path :: "ustr option"
  evt_created_at :: int

section \<open>Handoffs and messages\<close>

datatype handoff_state = HandoffOpen | HandoffAccepted | HandoffExpired

datatype message_state = MsgPending | MsgClaimed | MsgCancelled | MsgEditing

record handoff_row =
  hnd_id :: uuid
  hnd_workspace :: uuid
  hnd_project :: uuid
  hnd_from_session :: "uuid option"
  hnd_from_agent :: ustr
  hnd_to_agent :: "ustr option"
  hnd_cwd :: "ustr option"
  hnd_summary :: ustr
  hnd_open_questions :: ustr
  hnd_next_steps :: ustr
  hnd_files_touched :: ustr
  hnd_state :: handoff_state
  hnd_created_at :: int
  hnd_accepted_by :: "ustr option"
  hnd_accepted_at :: "int option"
  hnd_accepted_by_session :: "uuid option"
  hnd_accepted_by_user :: "ustr option"
  hnd_owner_user :: "ustr option"

record message_row =
  msg_id :: uuid
  msg_from_workspace :: uuid
  msg_from_project :: uuid
  msg_from_agent :: ustr
  msg_from_session :: "uuid option"
  msg_from_owner_user :: "ustr option"
  msg_to_workspace :: uuid
  msg_to_project :: uuid
  msg_subject :: "ustr option"
  msg_body :: ustr
  msg_state :: message_state
  msg_created_at :: int
  msg_claimed_at :: "int option"
  msg_claimed_by_session :: "uuid option"
  msg_claimed_by_agent :: "ustr option"
  msg_claimed_by_user :: "ustr option"
  msg_nature :: "ustr option"
  msg_evidence :: "ustr option"
  msg_to_agent :: "ustr option"
  msg_edited_at :: "int option"

record audit_row =
  aud_at :: int
  aud_op :: string
  aud_workspace :: "uuid option"
  aud_project :: "uuid option"
  aud_page :: "uuid option"
  aud_author :: "uuid option"
  aud_detail :: ustr

section \<open>Consolidation jobs\<close>

datatype job_state = JobPending | JobRunning | JobCompleted | JobFailed | JobSuperseded

record job_row =
  job_session :: uuid
  job_workspace :: uuid
  job_project :: uuid
  job_generation :: nat
  job_state :: job_state
  job_requested_at :: int
  job_next_attempt_at :: int
  job_started_at :: "int option"
  job_completed_at :: "int option"
  job_attempts :: nat
  job_claim :: "uuid option"
  job_last_error :: "ustr option"

section \<open>The store\<close>

record store =
  workspaces :: "workspace_row list"
  projects :: "project_row list"
  users :: "user_row list"
  human_auth_state :: bool
  web_sessions :: "web_session_row list"
  api_credentials :: "credential_row list"
  pepper_state :: "(ustr \<times> int) option"
  project_grants :: "grant_row list"
  sessions :: "session_row list"
  observations :: "observation_row list"
  purged_sessions :: "purged_row list"
  ingest_keys :: "ingest_key_row list"
  pages :: "page_row list"
  links :: "link_row list"
  page_evidence :: "evidence_row list"
  entities :: "entity_row list"
  entity_page_links :: "entity_link_row list"
  workstreams :: "workstream_row list"
  managed_runs :: "run_row list"
  native_sessions :: "native_row list"
  workstream_events :: "event_row list"
  handoffs :: "handoff_row list"
  agent_messages :: "message_row list"
  consolidation_jobs :: "job_row list"
  audit_log :: "audit_row list"

definition empty_store :: store where
  "empty_store = \<lparr>workspaces = [], projects = [], users = [], human_auth_state = False, web_sessions = [],
     api_credentials = [], pepper_state = None, project_grants = [], sessions = [],
     observations = [], purged_sessions = [], ingest_keys = [], pages = [], links = [],
     page_evidence = [], entities = [], entity_page_links = [], workstreams = [], managed_runs = [],
     native_sessions = [], workstream_events = [], handoffs = [], agent_messages = [],
     consolidation_jobs = [],
     audit_log = []\<rparr>"

text \<open>\<^verbatim>\<open>find_workspace\<close>, \<^verbatim>\<open>find_project\<close>: primary-key lookups used by the joins below.\<close>

abbreviation find_run :: "store \<Rightarrow> uuid \<Rightarrow> run_row option" where
  "find_run s r \<equiv> find (\<lambda>x. run_id x = r) (managed_runs s)"

abbreviation find_workstream :: "store \<Rightarrow> uuid \<Rightarrow> workstream_row option" where
  "find_workstream s w \<equiv> find (\<lambda>x. wst_id x = w) (workstreams s)"

abbreviation find_session :: "store \<Rightarrow> uuid \<Rightarrow> session_row option" where
  "find_session s i \<equiv> find (\<lambda>x. ses_id x = i) (sessions s)"

text \<open>Every modelled mutation appends at most one audit row per audited step (\<^verbatim>\<open>audit_with_detail\<close>).\<close>

definition audit_with_detail ::
  "store \<Rightarrow> string \<Rightarrow> uuid option \<Rightarrow> uuid option \<Rightarrow> uuid option \<Rightarrow> uuid option \<Rightarrow> int \<Rightarrow> ustr \<Rightarrow> store" where
  "audit_with_detail s op workspace project page author at detail =
     s\<lparr>audit_log := audit_log s @
        [\<lparr>aud_at = at, aud_op = op, aud_workspace = workspace, aud_project = project,
          aud_page = page, aud_author = author, aud_detail = detail\<rparr>]\<rparr>"

definition audit ::
  "store \<Rightarrow> string \<Rightarrow> uuid option \<Rightarrow> uuid option \<Rightarrow> uuid option \<Rightarrow> uuid option \<Rightarrow> int \<Rightarrow> store" where
  "audit s op workspace project page author at =
     audit_with_detail s op workspace project page author at (lit ''{}'')"

text \<open>What a transaction leaves: its store when it commits, the old one on an error.\<close>

definition committed :: "store \<Rightarrow> (store \<times> 'a) store_result \<Rightarrow> store" where
  "committed s r = (case r of Inl _ \<Rightarrow> s | Inr (s', _) \<Rightarrow> s')"

text \<open>Every stored owner, sender or receiver is a qualified identity key.\<close>

definition validate_identity_storage_key :: "ustr option \<Rightarrow> string \<Rightarrow> unit store_result" where
  "validate_identity_storage_key value label =
     (case value of
        None \<Rightarrow> Inr ()
      | Some k \<Rightarrow> if from_storage_key k = None then Inl (InvalidState label) else Inr ())"

text \<open>
  The \<^verbatim>\<open>BEFORE INSERT\<close> triggers of migration V18: a row may only be inserted into a project that
  exists and belongs to the row's workspace.
\<close>

definition pairing_ok :: "store \<Rightarrow> uuid \<Rightarrow> uuid \<Rightarrow> bool" where
  "pairing_ok s workspace project =
     (map_option prj_workspace (find (\<lambda>p. prj_id p = project) (projects s)) = Some workspace)"

lemma pairing_okD:
  assumes "pairing_ok s w p"
  shows "p \<in> prj_id ` set (projects s)"
  using assms by (auto simp: pairing_ok_def dest!: find_SomeD)

lemma audit_frame [simp]:
  "workspaces (audit s op w p g a t) = workspaces s" "projects (audit s op w p g a t) = projects s"
  "users (audit s op w p g a t) = users s" "human_auth_state (audit s op w p g a t) = human_auth_state s"
  "web_sessions (audit s op w p g a t) = web_sessions s" "api_credentials (audit s op w p g a t) = api_credentials s"
  "pepper_state (audit s op w p g a t) = pepper_state s" "sessions (audit s op w p g a t) = sessions s"
  "project_grants (audit s op w p g a t) = project_grants s"
  "observations (audit s op w p g a t) = observations s"
  "purged_sessions (audit s op w p g a t) = purged_sessions s"
  "ingest_keys (audit s op w p g a t) = ingest_keys s" "pages (audit s op w p g a t) = pages s"
  "links (audit s op w p g a t) = links s" "page_evidence (audit s op w p g a t) = page_evidence s"
  "entities (audit s op w p g a t) = entities s" "entity_page_links (audit s op w p g a t) = entity_page_links s"
  "workstreams (audit s op w p g a t) = workstreams s"
  "managed_runs (audit s op w p g a t) = managed_runs s"
  "native_sessions (audit s op w p g a t) = native_sessions s"
  "workstream_events (audit s op w p g a t) = workstream_events s"
  "handoffs (audit s op w p g a t) = handoffs s"
  "agent_messages (audit s op w p g a t) = agent_messages s"
  "consolidation_jobs (audit s op w p g a t) = consolidation_jobs s"
  by (simp_all add: audit_def audit_with_detail_def)

lemma audit_with_detail_frame [simp]:
  "sessions (audit_with_detail s op w p g a t d) = sessions s"
  "observations (audit_with_detail s op w p g a t d) = observations s"
  "purged_sessions (audit_with_detail s op w p g a t d) = purged_sessions s"
  "projects (audit_with_detail s op w p g a t d) = projects s"
  "workspaces (audit_with_detail s op w p g a t d) = workspaces s"
  "pages (audit_with_detail s op w p g a t d) = pages s"
  "handoffs (audit_with_detail s op w p g a t d) = handoffs s"
  "managed_runs (audit_with_detail s op w p g a t d) = managed_runs s"
  "ingest_keys (audit_with_detail s op w p g a t d) = ingest_keys s"
  "consolidation_jobs (audit_with_detail s op w p g a t d) = consolidation_jobs s"
  "users (audit_with_detail s op w p g a t d) = users s"
  "project_grants (audit_with_detail s op w p g a t d) = project_grants s"
  by (simp_all add: audit_with_detail_def)

lemma committed_keeps:
  assumes "P s" and "\<And>s' x. r = Inr (s', x) \<Longrightarrow> P s'"
  shows "P (committed s r)"
  using assms by (auto simp: committed_def split: sum.splits)

end
