(* ===== verification/Json.thy ===== *)
theory Json
  imports Prelude
begin

text \<open>
  JSON values as \<^verbatim>\<open>serde_json\<close> keeps them with \<^verbatim>\<open>preserve_order\<close>: an object is the list of its members in
  insertion order. An insert replaces the value of a present key in place and appends an absent one, a remove swaps
  the last member into the hole, equality ignores the order. \<open>json_ok\<close> says that keys are distinct at every
  depth, which holds of every \<^verbatim>\<open>Map\<close>.
\<close>

datatype json =
    JNull
  | JBool bool
  | JPos nat
  | JNeg int
  | JFloat ustr
  | JStr ustr
  | JArr "json list"
  | JObj "(ustr \<times> json) list"

fun json_get :: "json \<Rightarrow> ustr \<Rightarrow> json option" where
  "json_get (JObj members) k = map_of members k"
| "json_get _ _ = None"

fun json_as_str :: "json \<Rightarrow> ustr option" where
  "json_as_str (JStr s) = Some s" | "json_as_str _ = None"

fun json_as_bool :: "json \<Rightarrow> bool option" where
  "json_as_bool (JBool b) = Some b" | "json_as_bool _ = None"

fun json_as_i64 :: "json \<Rightarrow> int option" where
  "json_as_i64 (JPos n) = (if n < 2 ^ 63 then Some (int n) else None)"
| "json_as_i64 (JNeg i) = Some i"
| "json_as_i64 _ = None"

fun json_as_u64 :: "json \<Rightarrow> nat option" where
  "json_as_u64 (JPos n) = Some n" | "json_as_u64 _ = None"

definition json_of_int :: "int \<Rightarrow> json" where
  "json_of_int i = (if 0 \<le> i then JPos (nat i) else JNeg i)"

lemma json_get_case: "json_get v k = (case v of JObj m \<Rightarrow> map_of m k | _ \<Rightarrow> None)"
  by (cases v) simp_all

type_synonym json_map = "(ustr \<times> json) list"

lemma size_map_of_less: "map_of m k = Some v \<Longrightarrow> size v < size (JObj m)"
  by (induction m) (auto split: if_splits)

lemma size_entry_less: "(k, v) \<in> set m \<Longrightarrow> size v < size (JObj m)"
  by (induction m) auto

text \<open>
  \<^verbatim>\<open>PartialEq\<close> of values: objects are compared as sets of members. A float is its shortest text, so only the
  two zeros are equal floats with different texts.
\<close>

function (sequential) json_eq :: "json \<Rightarrow> json \<Rightarrow> bool" where
  "json_eq JNull JNull = True"
| "json_eq (JBool a) (JBool b) = (a = b)"
| "json_eq (JPos a) (JPos b) = (a = b)"
| "json_eq (JNeg a) (JNeg b) = (a = b)"
| "json_eq (JFloat a) (JFloat b) = (a = b \<or> {a, b} = {lit ''0.0'', lit ''-0.0''})"
| "json_eq (JStr a) (JStr b) = (a = b)"
| "json_eq (JArr xs) (JArr ys) = (length xs = length ys \<and> list_all (\<lambda>(x, y). json_eq x y) (zip xs ys))"
| "json_eq (JObj a) (JObj b) =
     (length a = length b \<and>
      list_all (\<lambda>(k, v). case map_of b k of None \<Rightarrow> False | Some w \<Rightarrow> json_eq v w) a)"
| "json_eq _ _ = False"
  by pat_completeness auto
termination
proof (relation "measure (size o fst)", goal_cases)
  case (2 xs ys p x y)
  then have "x \<in> set xs" by (auto dest: set_zip_leftD)
  then show ?case by (induction xs) auto
next
  case (3 a b e k v w)
  then have "(k, v) \<in> set a" by auto
  from size_entry_less[OF this] show ?case by simp
qed auto

fun json_as_array :: "json \<Rightarrow> json list option" where
  "json_as_array (JArr xs) = Some xs" | "json_as_array _ = None"

definition map_str :: "json_map \<Rightarrow> ustr \<Rightarrow> ustr option" where
  "map_str m k = Option.bind (map_of m k) json_as_str"

definition contains_key :: "json_map \<Rightarrow> ustr \<Rightarrow> bool" where
  "contains_key m k \<longleftrightarrow> k \<in> fst ` set m"

text \<open>Overwrite the entry of a key in its place.\<close>

definition set_entry :: "ustr \<Rightarrow> ustr \<times> json \<Rightarrow> json_map \<Rightarrow> json_map" where
  "set_entry k e m = map (\<lambda>x. if fst x = k then e else x) m"

definition map_insert :: "ustr \<Rightarrow> json \<Rightarrow> json_map \<Rightarrow> json_map" where
  "map_insert k v m = (if contains_key m k then set_entry k (k, v) m else m @ [(k, v)])"

text \<open>\<^verbatim>\<open>Map::remove\<close> is \<^verbatim>\<open>swap_remove\<close>: the last entry takes the place of the removed one.\<close>

definition map_remove :: "ustr \<Rightarrow> json_map \<Rightarrow> json_map" where
  "map_remove k m =
     (if \<not> contains_key m k then m
      else if fst (last m) = k then butlast m
      else set_entry k (last m) (butlast m))"

lemma set_entry_absent: "k \<notin> fst ` set m \<Longrightarrow> set_entry k e m = m"
  by (induction m) (auto simp: set_entry_def)

lemma set_entry_twice: "fst e = k \<Longrightarrow> set_entry k e' (set_entry k e m) = set_entry k e' m"
  by (induction m) (auto simp: set_entry_def)

lemma set_entry_commute:
  "fst e = k \<Longrightarrow> fst e' = j \<Longrightarrow> j \<noteq> k \<Longrightarrow> set_entry k e (set_entry j e' m) = set_entry j e' (set_entry k e m)"
  by (induction m) (auto simp: set_entry_def)

lemma keys_set_entry: "fst e = k \<Longrightarrow> map fst (set_entry k e m) = map fst m"
  by (induction m) (auto simp: set_entry_def)

lemma contains_set_entry: "fst e = k \<Longrightarrow> contains_key (set_entry k e m) j = contains_key m j"
  using keys_set_entry[of e k m] by (metis contains_key_def list.set_map)

lemma map_of_set_entry:
  "fst e = k \<Longrightarrow> map_of (set_entry k e m) j = (if j = k \<and> contains_key m k then Some (snd e) else map_of m j)"
proof (induction m)
  case (Cons a m)
  then show ?case
    by (cases a; cases "fst a = k"; cases "j = k") (simp_all add: set_entry_def contains_key_def)
qed (simp add: set_entry_def contains_key_def)

lemma contains_key_iff: "contains_key m k \<longleftrightarrow> map_of m k \<noteq> None"
  by (simp add: contains_key_def map_of_eq_None_iff del: not_None_eq)

lemma map_of_insert: "map_of (map_insert k v m) j = (if j = k then Some v else map_of m j)"
proof (cases "contains_key m k")
  case False
  then have "map_of m k = None" by (simp add: contains_key_def map_of_eq_None_iff)
  with False show ?thesis by (auto simp: map_insert_def map_add_def split: option.splits)
qed (simp add: map_insert_def map_of_set_entry)

lemma contains_key_insert [simp]: "contains_key (map_insert k v m) j \<longleftrightarrow> j = k \<or> contains_key m j"
  by (simp add: contains_key_iff map_of_insert)

lemma map_str_insert: "map_str (map_insert k v m) j = (if j = k then json_as_str v else map_str m j)"
  by (simp add: map_str_def map_of_insert)

lemma distinct_map_insert: "distinct (map fst m) \<Longrightarrow> distinct (map fst (map_insert k v m))"
  by (auto simp: map_insert_def keys_set_entry contains_key_def)

lemma map_of_snoc: "fst l \<notin> fst ` set b \<Longrightarrow> map_of (b @ [l]) j = (if j = fst l then Some (snd l) else map_of b j)"
  using map_of_eq_None_iff[of b "fst l"] by (cases l) (auto simp: map_add_def split: option.splits)

lemma map_of_moved_entry:
  "k \<in> fst ` set b \<Longrightarrow> distinct (map fst b) \<Longrightarrow> fst l \<notin> fst ` set b \<Longrightarrow>
   map_of (set_entry k l b) j = (if j = fst l then Some (snd l) else if j = k then None else map_of b j)"
proof (induction b)
  case (Cons e b)
  show ?case
  proof (cases "fst e = k")
    case True
    with Cons.prems(2) have k: "k \<notin> fst ` set b" by auto
    then have "set_entry k l (e # b) = l # b" using True set_entry_absent[OF k] by (simp add: set_entry_def)
    moreover have "map_of b k = None" using k by (simp add: map_of_eq_None_iff)
    ultimately show ?thesis using True by (cases e; cases l) auto
  next
    case False
    then show ?thesis using Cons by (cases e) (auto simp: set_entry_def)
  qed
qed simp

lemma map_of_remove:
  assumes "distinct (map fst m)"
  shows "map_of (map_remove k m) j = (if j = k then None else map_of m j)"
proof (cases "contains_key m k")
  case False
  then show ?thesis by (auto simp: map_remove_def contains_key_iff)
next
  case True
  then have "m \<noteq> []" by (auto simp: contains_key_def)
  then obtain b l where m: "m = b @ [l]" by (cases m rule: rev_cases) blast+
  have d: "distinct (map fst b)" "fst l \<notin> fst ` set b" using assms m by auto
  show ?thesis
  proof (cases "fst l = k")
    case l: True
    then have "map_of b k = None" using d(2) by (simp add: map_of_eq_None_iff)
    then show ?thesis using l True map_of_snoc[OF d(2), of j] by (auto simp: map_remove_def m)
  next
    case l: False
    then have kb: "k \<in> fst ` set b" using True by (auto simp: contains_key_def m)
    from l True have "map_remove k m = set_entry k l b" by (simp add: map_remove_def m)
    then show ?thesis using l map_of_moved_entry[OF kb d, of j] map_of_snoc[OF d(2), of j] by (simp add: m)
  qed
qed

lemma map_insert_overwrite [simp]: "map_insert k v (map_insert k w m) = map_insert k v m"
proof (cases "contains_key m k")
  case True
  then show ?thesis by (simp add: map_insert_def contains_set_entry set_entry_twice)
next
  case False
  then have "set_entry k (k, v) m = m" by (intro set_entry_absent) (simp add: contains_key_def)
  moreover have "contains_key (m @ [(k, w)]) k" by (simp add: contains_key_def)
  ultimately show ?thesis using False by (simp add: map_insert_def) (simp add: set_entry_def)
qed

lemma map_insert_commute:
  assumes "contains_key m k" "j \<noteq> k"
  shows "map_insert k v (map_insert j w m) = map_insert j w (map_insert k v m)"
proof (cases "contains_key m j")
  case True
  with assms show ?thesis by (simp add: map_insert_def contains_set_entry set_entry_commute)
next
  case False
  have "set_entry k (k, v) (m @ [(j, w)]) = set_entry k (k, v) m @ [(j, w)]" using assms(2) by (simp add: set_entry_def)
  moreover have "contains_key (m @ [(j, w)]) k" using assms(1) by (simp add: contains_key_def)
  ultimately show ?thesis using assms(1) False by (simp add: map_insert_def contains_set_entry)
qed

lemma map_remove_insert:
  assumes "distinct (map fst m)"
  shows "map_remove k (map_insert k v m) = map_remove k m"
proof (cases "contains_key m k")
  case False
  then show ?thesis by (simp add: map_remove_def map_insert_def) (simp add: contains_key_def)
next
  case True
  then have "m \<noteq> []" by (auto simp: contains_key_def)
  then obtain b l where m: "m = b @ [l]" by (cases m rule: rev_cases) blast+
  have c: "contains_key (set_entry k (k, v) m) k" using True by (simp add: contains_set_entry)
  have ins: "map_insert k v m = set_entry k (k, v) m" using True by (simp add: map_insert_def)
  show ?thesis
  proof (cases "fst l = k")
    case l: True
    with assms m have "k \<notin> fst ` set b" by auto
    with l have "set_entry k (k, v) m = b @ [(k, v)]" using set_entry_absent[of k b] by (simp add: m set_entry_def)
    then show ?thesis using l True c unfolding map_remove_def ins by (simp add: m)
  next
    case l: False
    then have e: "set_entry k (k, v) m = set_entry k (k, v) b @ [l]" by (simp add: m set_entry_def)
    with c have "contains_key (set_entry k (k, v) b @ [l]) k" by simp
    with l True e show ?thesis unfolding map_remove_def ins by (simp add: m set_entry_twice)
  qed
qed

text \<open>The keys of a \<^verbatim>\<open>Map\<close> are distinct at every depth.\<close>

fun json_ok :: "json \<Rightarrow> bool" where
  "json_ok (JArr xs) = list_all json_ok xs"
| "json_ok (JObj m) = (distinct (map fst m) \<and> list_all (\<lambda>(k, v). json_ok v) m)"
| "json_ok _ = True"

lemma json_eq_refl: "json_ok v \<Longrightarrow> json_eq v v"
proof (induction v rule: json_ok.induct)
  case (1 xs)
  then have "list_all (\<lambda>(x, y). json_eq x y) (zip xs xs)"
    by (auto simp: list_all_iff zip_same_conv_map)
  then show ?case by simp
next
  case (2 m)
  have "map_of m k = Some v" "json_eq v v" if "(k, v) \<in> set m" for k v
    using 2 that by (auto simp: list_all_iff)
  then show ?case by (auto simp: list_all_iff)
qed auto

lemma json_ok_insert:
  assumes "json_ok (JObj m)" "json_ok v"
  shows "json_ok (JObj (map_insert k v m))"
  using assms distinct_map_insert[of m k v]
  by (auto simp: list_all_iff map_insert_def set_entry_def)

lemma json_ok_lookup: "json_ok (JObj m) \<Longrightarrow> map_of m k = Some v \<Longrightarrow> json_ok v"
  by (auto simp: list_all_iff dest!: map_of_SomeD)

lemma set_map_remove: "set (map_remove k m) \<subseteq> set m"
proof (cases "m = []")
  case False
  then have "last m \<in> set m" by simp
  then show ?thesis by (auto simp: map_remove_def set_entry_def dest: in_set_butlastD)
qed (simp add: map_remove_def contains_key_def)

lemma json_ok_remove:
  assumes "json_ok (JObj g)"
  shows "json_ok (JObj (map_remove k g))"
proof -
  have "distinct (map fst (map_remove k g))"
  proof (cases "g = []")
    case False
    then obtain b l where g: "g = b @ [l]" by (cases g rule: rev_cases) blast+
    have d: "distinct (map fst b)" "fst l \<notin> fst ` set b" using assms g by auto
    have "distinct (map fst (set_entry k l b))" using d
      by (induction b) (auto simp: set_entry_def image_iff)
    then show ?thesis using d by (auto simp: map_remove_def g)
  qed (simp add: map_remove_def contains_key_def)
  then show ?thesis using assms set_map_remove[of k g] by (auto simp: list_all_iff)
qed

end
