(* ===== verification/WorkstreamTypes.thy ===== *)
theory WorkstreamTypes
  imports Schema Json
begin

text \<open>
  The wire types of \<^verbatim>\<open>crates/ai-memory-core/src/workstream.rs\<close> that the ledger stores: event kinds,
  native session identities, the provenance scrubber and the event records. A \<^verbatim>\<open>Sanitizer\<close> is a value
  that travels with the request; all that is used of it is \<^verbatim>\<open>scrub\<close>, so it is the function
  \<open>scrub :: ustr \<Rightarrow> ustr\<close>. A \<^verbatim>\<open>serde_json::Value\<close> is \<open>json\<close>; the crate is built with
  \<^verbatim>\<open>preserve_order\<close>, so an object is the list of its members in insertion order.
\<close>

datatype workstream_event_kind =
  EvMessage | EvToolCall | EvToolResult | EvCompaction | EvCheckpoint | EvAnnotation

primrec event_kind_str :: "workstream_event_kind \<Rightarrow> ustr" where
  "event_kind_str EvMessage = lit ''message''"
| "event_kind_str EvToolCall = lit ''tool_call''"
| "event_kind_str EvToolResult = lit ''tool_result''"
| "event_kind_str EvCompaction = lit ''compaction''"
| "event_kind_str EvCheckpoint = lit ''checkpoint''"
| "event_kind_str EvAnnotation = lit ''annotation''"

definition event_kind_from_str :: "ustr \<Rightarrow> workstream_event_kind store_result" where
  "event_kind_from_str v =
     (if v = lit ''message'' then Inr EvMessage
      else if v = lit ''tool_call'' then Inr EvToolCall
      else if v = lit ''tool_result'' then Inr EvToolResult
      else if v = lit ''compaction'' then Inr EvCompaction
      else if v = lit ''checkpoint'' then Inr EvCheckpoint
      else if v = lit ''annotation'' then Inr EvAnnotation
      else Inl (MalformedRecord ''unknown workstream event kind''))"

section \<open>Native session identities\<close>

text \<open>Zero-width, bidi-control and invisible-format characters refused in an identity.\<close>

definition is_invisible :: "uchar \<Rightarrow> bool" where
  "is_invisible c \<longleftrightarrow> (0x200B \<le> c \<and> c \<le> 0x200F) \<or> (0x202A \<le> c \<and> c \<le> 0x202E)
     \<or> (0x2060 \<le> c \<and> c \<le> 0x2069) \<or> c = 0xFEFF"

definition native_identity_parse :: "(ustr \<Rightarrow> ustr) \<Rightarrow> ustr \<Rightarrow> ustr store_result" where
  "native_identity_parse scrub original =
     (if trim original = [] \<or> byte_len original > 512
         \<or> (\<exists>c \<in> set original. is_control c \<or> is_invisible c)
         \<or> contains_str (lit ''[REDACTED:'') original \<or> scrub original \<noteq> original
      then Inl (MalformedRecord ''native session identity is UNKNOWN; refusing managed binding'')
      else Inr original)"

definition native_identity_project :: "(ustr \<Rightarrow> ustr) \<Rightarrow> ustr \<Rightarrow> ustr" where
  "native_identity_project scrub original =
     (case native_identity_parse scrub original of Inl _ \<Rightarrow> [] | Inr s \<Rightarrow> s)"

section \<open>Events\<close>

record new_workstream_event =
  new_event_id :: ustr
  new_agent :: agent_kind
  new_native_session_id :: ustr
  new_source_record_id :: "ustr option"
  new_kind :: workstream_event_kind
  new_role :: "ustr option"
  new_content :: ustr
  new_occurred_at :: "ustr option"
  new_metadata :: json

record managed_native_session_reference =
  ref_agent :: agent_kind
  ref_native_session_id :: ustr

record workstream_event =
  we_sequence :: int
  we_event_id :: ustr
  we_agent :: agent_kind
  we_native_session_id :: ustr
  we_source_record_id :: "ustr option"
  we_metadata :: json
  we_kind :: workstream_event_kind
  we_role :: "ustr option"
  we_content :: ustr
  we_occurred_at :: "ustr option"

definition display_label :: "workstream_event \<Rightarrow> ustr" where
  "display_label e =
     (let role_or = (\<lambda>d. case we_role e of Some r \<Rightarrow> r | None \<Rightarrow> lit d) in
      case we_kind e of
        EvToolCall \<Rightarrow> lit ''historical tool call (completed evidence)''
      | EvToolResult \<Rightarrow> lit ''historical tool result (completed evidence)''
      | EvCheckpoint \<Rightarrow> role_or ''repository checkpoint''
      | EvCompaction \<Rightarrow> role_or ''native compaction''
      | EvAnnotation \<Rightarrow> role_or ''import note''
      | EvMessage \<Rightarrow> role_or ''message'')"

section \<open>Provenance\<close>

definition provenance_string_keys :: "string list" where
  "provenance_string_keys =
     [''tool'', ''tool_call_id'', ''tool_use_id'', ''parent_id'', ''summary_type'', ''status'']"

definition scrub_label :: "(ustr \<Rightarrow> ustr) \<Rightarrow> ustr \<Rightarrow> ustr" where
  "scrub_label scrub value = truncate_utf8_bytes (scrub value) 512"

text \<open>The members that survive, in the order the loop and the three \<^verbatim>\<open>if let\<close>s insert them.\<close>

definition allowed_strings :: "(ustr \<Rightarrow> ustr) \<Rightarrow> json \<Rightarrow> (ustr \<times> json) list" where
  "allowed_strings scrub metadata =
     List.map_filter (\<lambda>key.
       case Option.bind (json_get metadata (lit key)) json_as_str of
         None \<Rightarrow> None | Some v \<Rightarrow> Some (lit key, JStr (scrub_label scrub v))) provenance_string_keys"

definition allowed_is_error :: "json \<Rightarrow> (ustr \<times> json) list" where
  "allowed_is_error metadata =
     (case Option.bind (json_get metadata (lit ''is_error'')) json_as_bool of
        None \<Rightarrow> [] | Some b \<Rightarrow> [(lit ''is_error'', JBool b)])"

definition allowed_exit_code :: "json \<Rightarrow> (ustr \<times> json) list" where
  "allowed_exit_code metadata =
     (case Option.bind (json_get metadata (lit ''exit_code'')) json_as_i64 of
        None \<Rightarrow> []
      | Some v \<Rightarrow> if - (2 ^ 31) \<le> v \<and> v < 2 ^ 31 then [(lit ''exit_code'', json_of_int v)] else [])"

definition allowed_loss_count :: "json \<Rightarrow> (ustr \<times> json) list" where
  "allowed_loss_count metadata =
     (case Option.bind (json_get metadata (lit ''loss_count'')) json_as_u64 of
        None \<Rightarrow> [] | Some n \<Rightarrow> [(lit ''loss_count'', JPos n)])"

definition scrub_workstream_provenance ::
  "(ustr \<Rightarrow> ustr) \<Rightarrow> ustr option \<Rightarrow> json \<Rightarrow> ustr option \<times> json" where
  "scrub_workstream_provenance scrub source_record_id metadata =
     (let source = (case source_record_id of None \<Rightarrow> None
           | Some label \<Rightarrow> let l = scrub_label scrub label in if trim l = [] then None else Some l);
          allowed = allowed_strings scrub metadata @ allowed_is_error metadata
                    @ allowed_exit_code metadata @ allowed_loss_count metadata
      in (source, if allowed = [] then JNull else JObj allowed))"

section \<open>Lemmas\<close>

lemma event_kind_roundtrip [codec_simps]: "event_kind_from_str (event_kind_str k) = Inr k"
  by (cases k) (simp_all add: event_kind_from_str_def)

interpretation event_kind_wire: wire_codec event_kind_str
    "\<lambda>s. case event_kind_from_str s of Inl _ \<Rightarrow> None | Inr k \<Rightarrow> Some k" "\<lambda>_. True"
  by unfold_locales (simp add: event_kind_roundtrip)

lemma event_kind_str_eq_iff [simp]: "event_kind_str a = event_kind_str b \<longleftrightarrow> a = b"
  using event_kind_wire.enc_eq_iff by simp

lemma native_identity_parse_InrD:
  "native_identity_parse scrub s = Inr t \<Longrightarrow> t = s"
  by (auto simp: native_identity_parse_def split: if_splits)

definition native_ok :: "(ustr \<Rightarrow> ustr) \<Rightarrow> ustr \<Rightarrow> bool" where
  "native_ok scrub s \<longleftrightarrow> native_identity_parse scrub s = Inr s"

lemma native_identity_parse_cases:
  "native_identity_parse scrub s =
     (if native_ok scrub s then Inr s
      else Inl (MalformedRecord ''native session identity is UNKNOWN; refusing managed binding''))"
  by (auto simp: native_ok_def native_identity_parse_def)

lemma scrub_label_bound: "byte_len (scrub_label scrub v) \<le> 512"
  by (simp add: scrub_label_def truncate_bound)

text \<open>
  \<open>provenance_member\<close>: what a surviving metadata member may look like.
\<close>

definition provenance_member :: "ustr \<times> json \<Rightarrow> bool" where
  "provenance_member m \<longleftrightarrow>
     (case m of (k, v) \<Rightarrow>
        (k \<in> set (map lit provenance_string_keys) \<and> (\<exists>s. v = JStr s \<and> byte_len s \<le> 512))
        \<or> (k = lit ''is_error'' \<and> (\<exists>b. v = JBool b))
        \<or> (k = lit ''exit_code'' \<and> (\<exists>i. v = json_of_int i \<and> - (2 ^ 31) \<le> i \<and> i < 2 ^ 31))
        \<or> (k = lit ''loss_count'' \<and> (\<exists>n. v = JPos n)))"

lemma allowed_members:
  "m \<in> set (allowed_strings scrub md) \<Longrightarrow> provenance_member m"
  "m \<in> set (allowed_is_error md) \<Longrightarrow> provenance_member m"
  "m \<in> set (allowed_exit_code md) \<Longrightarrow> provenance_member m"
  "m \<in> set (allowed_loss_count md) \<Longrightarrow> provenance_member m"
  by (auto simp: provenance_member_def allowed_strings_def allowed_is_error_def allowed_exit_code_def
      allowed_loss_count_def scrub_label_bound map_filter_def split: option.splits if_splits)

lemma map_filter_keys:
  assumes "distinct ks"
  shows "distinct (map fst (List.map_filter (\<lambda>k. map_option (Pair (lit k)) (f k)) ks))
    \<and> set (map fst (List.map_filter (\<lambda>k. map_option (Pair (lit k)) (f k)) ks)) \<subseteq> lit ` set ks"
  using assms by (induction ks) (auto simp: map_filter_def)

lemma allowed_strings_keys:
  "distinct (map fst (allowed_strings scrub md))
   \<and> fst ` set (allowed_strings scrub md) \<subseteq> lit ` set provenance_string_keys"
proof -
  have "allowed_strings scrub md = List.map_filter (\<lambda>k. map_option (Pair (lit k))
      (map_option (\<lambda>v. JStr (scrub_label scrub v)) (Option.bind (json_get md (lit k)) json_as_str)))
      provenance_string_keys"
    unfolding allowed_strings_def by (rule arg_cong2[where f = List.map_filter]) (auto split: option.splits)
  moreover have "distinct provenance_string_keys" by (simp add: provenance_string_keys_def)
  ultimately show ?thesis
    using map_filter_keys[of provenance_string_keys "\<lambda>k. map_option (\<lambda>v. JStr (scrub_label scrub v))
        (Option.bind (json_get md (lit k)) json_as_str)"] by (simp only: set_map)
qed

lemma allowed_other_keys:
  "map fst (allowed_is_error md) \<in> {[], [lit ''is_error'']}"
  "map fst (allowed_exit_code md) \<in> {[], [lit ''exit_code'']}"
  "map fst (allowed_loss_count md) \<in> {[], [lit ''loss_count'']}"
  by (auto simp: allowed_is_error_def allowed_exit_code_def allowed_loss_count_def split: option.splits)

section \<open>Properties\<close>

text \<open>
  What reaches the ledger as provenance is an allow-list of small scalars: every member of the
  stored metadata is one of the nine known keys with its scalar type, every text is at most 512
  bytes, keys do not repeat, and the source label is at most 512 bytes and not blank.
\<close>

theorem provenance_allowlisted:
  "case scrub_workstream_provenance scrub source metadata of (src, md) \<Rightarrow>
     (\<forall>label. src = Some label \<longrightarrow> byte_len label \<le> 512 \<and> trim label \<noteq> [])
     \<and> (md = JNull \<or> (\<exists>members. md = JObj members \<and> members \<noteq> [] \<and> distinct (map fst members)
           \<and> (\<forall>m \<in> set members. provenance_member m)))"
proof -
  let ?ms = "allowed_strings scrub metadata @ allowed_is_error metadata
             @ allowed_exit_code metadata @ allowed_loss_count metadata"
  have mem: "\<forall>m \<in> set ?ms. provenance_member m" by (auto dest: allowed_members)
  have "distinct (map fst ?ms)"
    using allowed_strings_keys[of scrub metadata] allowed_other_keys[of metadata]
    by (auto simp: provenance_string_keys_def)
  with mem show ?thesis
    by (auto simp: scrub_workstream_provenance_def Let_def scrub_label_bound split: option.splits)
qed

definition sample_metadata :: json where
  "sample_metadata = JObj [(lit ''tool'', JStr (lit ''bash'')), (lit ''args'', JArr [JNull]),
     (lit ''exit_code'', JPos 3)]"

theorem provenance_allowlisted_witness:
  "scrub_workstream_provenance id (Some (lit ''r1'')) sample_metadata
     = (Some (lit ''r1''), JObj [(lit ''tool'', JStr (lit ''bash'')), (lit ''exit_code'', JPos 3)])
   \<and> provenance_member (lit ''exit_code'', JPos 3)"
proof -
  have e: "scrub_workstream_provenance id (Some (lit ''r1'')) sample_metadata
     = (Some (lit ''r1''), JObj [(lit ''tool'', JStr (lit ''bash'')), (lit ''exit_code'', JPos 3)])"
    by (simp add: scrub_workstream_provenance_def sample_metadata_def allowed_strings_def
        allowed_is_error_def allowed_exit_code_def allowed_loss_count_def provenance_string_keys_def
        map_filter_def scrub_label_def truncate_utf8_bytes_def json_of_int_def)
      (simp add: lit_def trim_def is_whitespace_def utf8_len_def)
  show ?thesis using provenance_allowlisted[of id "Some (lit ''r1'')" sample_metadata] e by auto
qed

text \<open>
  An accepted native session identity is exactly the original text: not blank, at most 512
  bytes, free of control and invisible characters and of redaction placeholders, and untouched by
  the sanitizer; the compatible projection of anything else is the empty (unknown) identity.
\<close>

theorem native_identity_exact:
  "(native_identity_parse scrub s = Inr t \<longleftrightarrow>
      t = s \<and> trim s \<noteq> [] \<and> byte_len s \<le> 512 \<and> \<not> list_ex (\<lambda>c. is_control c \<or> is_invisible c) s
      \<and> \<not> contains_str (lit ''[REDACTED:'') s \<and> scrub s = s)
   \<and> native_identity_project scrub s = (if native_identity_parse scrub s = Inr s then s else [])"
  by (auto simp: native_identity_parse_def native_identity_project_def list_ex_iff)

end
