(* ===== verification/WorkstreamStore.thy ===== *)
theory WorkstreamStore
  imports WorkstreamTypes
begin

text \<open>
  Managed workstreams, part one (\<^verbatim>\<open>crates/ai-memory-store/src/workstream.rs\<close>): selecting or creating a
  workstream and opening, renewing and releasing the lease of a run. A write function takes the store
  and returns the new store with its result; the result \<open>Inl e\<close> stands for a transaction that was
  dropped, so the store is then the old one. The clock reading and the fresh UUIDs are arguments
  (\<open>now\<close>, \<open>wid\<close>, \<open>rid\<close>). Every insert and every update that could break a \<^verbatim>\<open>UNIQUE\<close> index, a foreign
  key or the pairing trigger of migration V31 checks it and fails as SQLite does; the lemmas then
  show which of those failures can never happen.
\<close>

definition lease_micros :: int where
  "lease_micros = 90 * 1000000"

definition max_workstream_name_chars :: nat where
  "max_workstream_name_chars = 128"

datatype workstream_selection = SelCurrent | SelNamed ustr | SelNew ustr

definition validate_workstream_name :: "ustr \<Rightarrow> unit store_result" where
  "validate_workstream_name name =
     (let t = trim name in
      if t = [] \<or> length t > max_workstream_name_chars \<or> list_ex is_control t \<or> list_ex (\<lambda>c. c = 47 \<or> c = 92) t
      then Inl (InvalidState ''invalid workstream name'') else Inr ())"

fun validate_selection :: "workstream_selection \<Rightarrow> unit store_result" where
  "validate_selection SelCurrent = Inr ()"
| "validate_selection (SelNamed name) = validate_workstream_name name"
| "validate_selection (SelNew name) = validate_workstream_name name"

record prepare_input =
  pi_workspace :: uuid
  pi_project :: uuid
  pi_scope_by_id :: bool
  pi_repo :: ustr
  pi_worktree :: ustr
  pi_cwd :: ustr
  pi_agent :: agent_kind
  pi_automatic :: bool
  pi_available :: "agent_kind list"
  pi_selection :: workstream_selection
  pi_lease_owner :: ustr

record prepared_run =
  pr_workstream_id :: uuid
  pr_workstream_name :: ustr
  pr_run_id :: uuid
  pr_agent :: agent_kind
  pr_native_session :: "ustr option"
  pr_source_cursor :: "ustr option"
  pr_previous :: "managed_native_session_reference option"
  pr_sync_after :: int
  pr_sync_through :: int
  pr_may_adopt :: bool

section \<open>Queries\<close>

definition ledger :: "event_row list \<Rightarrow> uuid \<Rightarrow> event_row list" where
  "ledger events w = filter (\<lambda>e. evt_workstream e = w) events"

text \<open>\<^verbatim>\<open>COALESCE(MAX(sequence), 0)\<close>.\<close>

definition latest_sequence :: "store \<Rightarrow> uuid \<Rightarrow> int" where
  "latest_sequence s w =
     (case map evt_sequence (ledger (workstream_events s) w) of [] \<Rightarrow> 0 | x # xs \<Rightarrow> fold max xs x)"

definition in_checkout :: "uuid \<Rightarrow> uuid \<Rightarrow> ustr \<Rightarrow> ustr \<Rightarrow> workstream_row \<Rightarrow> bool" where
  "in_checkout workspace project repo worktree w \<longleftrightarrow>
     wst_workspace w = workspace \<and> wst_project w = project \<and> wst_repo w = repo \<and> wst_worktree w = worktree"

definition input_checkout :: "prepare_input \<Rightarrow> workstream_row \<Rightarrow> bool" where
  "input_checkout input = in_checkout (pi_workspace input) (pi_project input) (pi_repo input) (pi_worktree input)"

definition find_named_workstream :: "store \<Rightarrow> prepare_input \<Rightarrow> ustr \<Rightarrow> (uuid \<times> ustr) option" where
  "find_named_workstream s input name =
     map_option (\<lambda>w. (wst_id w, wst_name w))
       (find (\<lambda>w. input_checkout input w \<and> wst_name w = name) (workstreams s))"

definition current_natives :: "store \<Rightarrow> uuid \<Rightarrow> native_row list" where
  "current_natives s w = filter (\<lambda>n. nss_workstream n = w \<and> nss_is_current n) (native_sessions s)"

definition newest_available_agent :: "store \<Rightarrow> uuid \<Rightarrow> agent_kind list \<Rightarrow> agent_kind option" where
  "newest_available_agent s w available =
     find (\<lambda>a. a \<in> set available)
       (map (\<lambda>n. from_wire (nss_agent_kind n)) (sort_key (\<lambda>n. - nss_updated_at n) (current_natives s w)))"

section \<open>Selecting a workstream\<close>

definition workstream_key :: "workstream_row \<Rightarrow> uuid \<times> uuid \<times> ustr \<times> ustr \<times> ustr" where
  "workstream_key w = (wst_workspace w, wst_project w, wst_repo w, wst_worktree w, wst_name w)"

definition new_workstream_row :: "uuid \<Rightarrow> int \<Rightarrow> prepare_input \<Rightarrow> ustr \<Rightarrow> workstream_row" where
  "new_workstream_row wid now input name =
     \<lparr>wst_id = wid, wst_workspace = pi_workspace input, wst_project = pi_project input,
      wst_repo = pi_repo input, wst_worktree = pi_worktree input, wst_name = name,
      wst_cwd = pi_cwd input, wst_created_at = now, wst_selected_at = now, wst_updated_at = now\<rparr>"

definition insert_workstream ::
  "uuid \<Rightarrow> int \<Rightarrow> store \<Rightarrow> prepare_input \<Rightarrow> ustr \<Rightarrow> (store \<times> uuid \<times> ustr) store_result" where
  "insert_workstream wid now s input name =
     (let row = new_workstream_row wid now input name
      in if map_option prj_workspace (find (\<lambda>p. prj_id p = pi_project input) (projects s))
              \<noteq> Some (pi_workspace input)
         then Inl (Sqlite ''workspace_id does not match the workspace of the project'')
         else if pi_workspace input \<notin> wsp_id ` set (workspaces s)
         then Inl (Sqlite ''FOREIGN KEY constraint failed'')
         else if wid \<in> wst_id ` set (workstreams s) \<or> workstream_key row \<in> workstream_key ` set (workstreams s)
         then Inl (Sqlite ''UNIQUE constraint failed: workstreams'')
         else Inr (s\<lparr>workstreams := workstreams s @ [row]\<rparr>, wid, name))"

definition select_workstream ::
  "uuid \<Rightarrow> int \<Rightarrow> store \<Rightarrow> prepare_input \<Rightarrow> (store \<times> uuid \<times> ustr) store_result" where
  "select_workstream wid now s input =
     (case pi_selection input of
        SelNew name \<Rightarrow>
          and_then (validate_workstream_name name) (\<lambda>_.
            if exists_row (\<lambda>w. input_checkout input w \<and> wst_name w = name) (workstreams s)
            then Inl (Duplicate name)
            else insert_workstream wid now s input name)
      | SelNamed name \<Rightarrow>
          and_then (validate_workstream_name name) (\<lambda>_.
            case find_named_workstream s input name of
              None \<Rightarrow> Inl (NotFound ''managed workstream'')
            | Some (w, n) \<Rightarrow> Inr (s, w, n))
      | SelCurrent \<Rightarrow>
          (case first_by (\<lambda>w. (- wst_selected_at w, - int (wst_id w)))
                  (filter (input_checkout input) (workstreams s)) of
             Some w \<Rightarrow> Inr (s, wst_id w, wst_name w)
           | None \<Rightarrow> insert_workstream wid now s input (lit ''default'')))"

section \<open>Opening a run\<close>

definition expire_stale :: "int \<Rightarrow> store \<Rightarrow> store" where
  "expire_stale now s =
     s\<lparr>managed_runs := update_where (\<lambda>r. run_state r = RunActive \<and> run_lease_expires_at r \<le> now)
        (\<lambda>r. r\<lparr>run_state := RunExpired, run_ended_at := Some now\<rparr>) (managed_runs s)\<rparr>"

definition release_busy :: "int \<Rightarrow> store \<Rightarrow> uuid \<Rightarrow> ustr option \<Rightarrow> bool \<Rightarrow> store store_result" where
  "release_busy now s w owner force =
     (case find (\<lambda>r. run_workstream r = w \<and> run_state r = RunActive) (managed_runs s) of
        None \<Rightarrow> Inr s
      | Some busy \<Rightarrow>
          if force \<and> run_owner_user busy = owner
          then Inr (s\<lparr>managed_runs := update_where (\<lambda>r. run_id r = run_id busy \<and> run_state r = RunActive)
                 (\<lambda>r. r\<lparr>run_state := RunExpired, run_ended_at := Some now, run_lease_expires_at := now\<rparr>)
                 (managed_runs s)\<rparr>)
          else Inl (WorkstreamBusy (run_lease_owner busy) (run_lease_expires_at busy)))"

definition current_native :: "store \<Rightarrow> uuid \<Rightarrow> agent_kind \<Rightarrow> native_row option" where
  "current_native s w agent =
     find (\<lambda>n. nss_workstream n = w \<and> nss_agent_kind n = as_str agent \<and> nss_is_current n) (native_sessions s)"

definition previous_native_session ::
  "store \<Rightarrow> uuid \<Rightarrow> agent_kind \<Rightarrow> managed_native_session_reference option" where
  "previous_native_session s w agent =
     Option.bind (first_by (\<lambda>n. (- nss_updated_at n, nss_agent_kind n)) (current_natives s w)) (\<lambda>n.
       let previous = from_wire (nss_agent_kind n) in
       if previous \<noteq> agent then Some \<lparr>ref_agent = previous, ref_native_session_id = nss_session n\<rparr> else None)"

definition established :: "store \<Rightarrow> uuid \<Rightarrow> bool" where
  "established s w \<longleftrightarrow>
     exists_row (\<lambda>n. nss_workstream n = w) (native_sessions s)
     \<or> exists_row (\<lambda>e. evt_workstream e = w \<and>
          evt_kind e \<in> {lit ''message'', lit ''tool_call'', lit ''tool_result'', lit ''compaction''})
          (workstream_events s)"

definition insert_run :: "store \<Rightarrow> run_row \<Rightarrow> store store_result" where
  "insert_run s row =
     (if run_workstream row \<notin> wst_id ` set (workstreams s)
      then Inl (Sqlite ''FOREIGN KEY constraint failed'')
      else if run_id row \<in> run_id ` set (managed_runs s)
      then Inl (Sqlite ''UNIQUE constraint failed: managed_runs.id'')
      else if run_state row = RunActive
              \<and> exists_row (\<lambda>r. run_state r = RunActive \<and> run_workstream r = run_workstream row) (managed_runs s)
      then Inl (Sqlite ''UNIQUE constraint failed: idx_managed_runs_one_active'')
      else Inr (s\<lparr>managed_runs := managed_runs s @ [row]\<rparr>))"

text \<open>The row that the \<^verbatim>\<open>INSERT INTO managed_runs\<close> of \<^verbatim>\<open>prepare_run\<close> writes.\<close>

definition new_run_row ::
  "uuid \<Rightarrow> int \<Rightarrow> store \<Rightarrow> prepare_input \<Rightarrow> ustr option \<Rightarrow> uuid \<Rightarrow> agent_kind \<Rightarrow> run_row" where
  "new_run_row rid now s input owner w agent =
     (let native = current_native s w agent;
          previous = previous_native_session s w agent
      in \<lparr>run_id = rid, run_workstream = w, run_agent_kind = as_str agent,
          run_lease_owner = pi_lease_owner input,
          run_native_session = map_option nss_session native, run_linked_at = None,
          run_owner_user = owner, run_state = RunActive,
          run_sync_after = (case native of None \<Rightarrow> 0 | Some n \<Rightarrow> nss_delivery_cursor n),
          run_sync_through = latest_sequence s w, run_context_delivered = False,
          run_lease_expires_at = now + lease_micros, run_started_at = now, run_ended_at = None,
          run_exit_code = None,
          run_previous_agent = map_option (\<lambda>p. as_str (ref_agent p)) previous,
          run_previous_native = map_option ref_native_session_id previous,
          run_scope_by_id = pi_scope_by_id input\<rparr>)"

definition open_run ::
  "uuid \<Rightarrow> int \<Rightarrow> store \<Rightarrow> prepare_input \<Rightarrow> ustr option \<Rightarrow> uuid \<Rightarrow> ustr \<Rightarrow> (store \<times> prepared_run) store_result" where
  "open_run rid now s input owner w name =
     (let agent = (if pi_automatic input
            then (case newest_available_agent s w (pi_available input) of None \<Rightarrow> pi_agent input | Some a \<Rightarrow> a)
            else pi_agent input);
          row = new_run_row rid now s input owner w agent
      in and_then (insert_run s row) (\<lambda>s'. Inr
           (s'\<lparr>workstreams := update_where (\<lambda>x. wst_id x = w)
              (\<lambda>x. x\<lparr>wst_selected_at := now, wst_updated_at := now, wst_cwd := pi_cwd input\<rparr>) (workstreams s')\<rparr>,
            \<lparr>pr_workstream_id = w, pr_workstream_name = name, pr_run_id = rid, pr_agent = agent,
             pr_native_session = run_native_session row,
             pr_source_cursor = Option.bind (current_native s w agent) nss_source_cursor,
             pr_previous = previous_native_session s w agent,
             pr_sync_after = run_sync_after row, pr_sync_through = run_sync_through row,
             pr_may_adopt = (\<not> established s w)\<rparr>)))"

text \<open>\<open>owner_key_ok\<close> is the recurring \<^verbatim>\<open>IdentityKey::from_storage_key(owner).is_none()\<close> guard, negated.\<close>

definition owner_key_ok :: "ustr option \<Rightarrow> bool" where
  "owner_key_ok owner \<longleftrightarrow> (case owner of None \<Rightarrow> True | Some k \<Rightarrow> from_storage_key k \<noteq> None)"

definition prepare_run ::
  "uuid \<Rightarrow> uuid \<Rightarrow> int \<Rightarrow> store \<Rightarrow> prepare_input \<Rightarrow> ustr option \<Rightarrow> bool \<Rightarrow> (store \<times> prepared_run) store_result" where
  "prepare_run wid rid now s input owner force =
     (if \<not> owner_key_ok owner then Inl (InvalidState ''invalid managed-run owner identity'')
      else and_then (select_workstream wid now (expire_stale now s) input) (\<lambda>(s2, w, name).
           and_then (release_busy now s2 w owner force) (\<lambda>s3.
           open_run rid now s3 input owner w name)))"

section \<open>Renewing and releasing a lease\<close>

definition heartbeat :: "int \<Rightarrow> store \<Rightarrow> uuid \<Rightarrow> store \<times> bool" where
  "heartbeat now s rid =
     (let P = (\<lambda>r. run_id r = rid \<and> run_state r = RunActive) in
      (s\<lparr>managed_runs := update_where P (\<lambda>r. r\<lparr>run_lease_expires_at := now + lease_micros\<rparr>) (managed_runs s)\<rparr>,
       changed_rows P (managed_runs s) > 0))"

definition cancel_run :: "int \<Rightarrow> store \<Rightarrow> uuid \<Rightarrow> store \<times> bool" where
  "cancel_run now s rid =
     (let P = (\<lambda>r. run_id r = rid \<and> run_state r = RunActive) in
      (s\<lparr>managed_runs := update_where P
          (\<lambda>r. r\<lparr>run_state := RunExpired, run_ended_at := Some now, run_lease_expires_at := now\<rparr>) (managed_runs s)\<rparr>,
       changed_rows P (managed_runs s) > 0))"

section \<open>The invariant of the workstream tables\<close>

text \<open>
  The indexes and foreign keys of migration V31, and what the code keeps beyond them: the ledger of a
  workstream is numbered \<open>1, 2, \<dots>, n\<close> in insertion order without repeated event ids, and no cursor
  points past its end.
\<close>

definition native_key :: "native_row \<Rightarrow> uuid \<times> ustr \<times> ustr" where
  "native_key n = (nss_workstream n, nss_agent_kind n, nss_session n)"

definition native_slot :: "native_row \<Rightarrow> uuid \<times> ustr" where
  "native_slot n = (nss_workstream n, nss_agent_kind n)"

definition names_ok :: "workstream_row list \<Rightarrow> bool" where
  "names_ok ws \<longleftrightarrow> unique_on (\<lambda>_. True) wst_id ws \<and> unique_on (\<lambda>_. True) workstream_key ws"

definition runs_ok :: "workstream_row list \<Rightarrow> run_row list \<Rightarrow> bool" where
  "runs_ok ws runs \<longleftrightarrow> unique_on (\<lambda>_. True) run_id runs
     \<and> unique_on (\<lambda>r. run_state r = RunActive) run_workstream runs
     \<and> run_workstream ` set runs \<subseteq> wst_id ` set ws"

definition natives_ok :: "native_row list \<Rightarrow> bool" where
  "natives_ok ns \<longleftrightarrow> unique_on (\<lambda>_. True) native_key ns \<and> unique_on nss_is_current native_slot ns"

definition ledger_ok :: "event_row list \<Rightarrow> bool" where
  "ledger_ok es \<longleftrightarrow> (\<forall>w. map evt_sequence (ledger es w) = map int [1..<Suc (length (ledger es w))]
     \<and> distinct (map evt_event_id (ledger es w)))"

definition cursor_in :: "event_row list \<Rightarrow> uuid \<Rightarrow> int \<Rightarrow> bool" where
  "cursor_in es w c \<longleftrightarrow> 0 \<le> c \<and> c \<le> int (length (ledger es w))"

definition native_cursors_ok :: "event_row list \<Rightarrow> native_row list \<Rightarrow> bool" where
  "native_cursors_ok es ns \<longleftrightarrow> (\<forall>n \<in> set ns. cursor_in es (nss_workstream n) (nss_delivery_cursor n))"

definition run_cursors_ok :: "event_row list \<Rightarrow> run_row list \<Rightarrow> bool" where
  "run_cursors_ok es runs \<longleftrightarrow> (\<forall>r \<in> set runs. cursor_in es (run_workstream r) (run_sync_after r)
          \<and> cursor_in es (run_workstream r) (run_sync_through r))"

definition ws_inv :: "store \<Rightarrow> bool" where
  "ws_inv s \<longleftrightarrow> names_ok (workstreams s) \<and> runs_ok (workstreams s) (managed_runs s)
     \<and> natives_ok (native_sessions s) \<and> ledger_ok (workstream_events s)
     \<and> native_cursors_ok (workstream_events s) (native_sessions s)
     \<and> run_cursors_ok (workstream_events s) (managed_runs s)"

lemmas ws_inv_defs =
  ws_inv_def names_ok_def runs_ok_def natives_ok_def native_cursors_ok_def run_cursors_ok_def

section \<open>Lemmas\<close>

lemma latest_sequence_eq:
  assumes "ledger_ok (workstream_events s)"
  shows "latest_sequence s w = int (length (ledger (workstream_events s) w))"
proof -
  let ?l = "ledger (workstream_events s) w"
  let ?n = "length ?l"
  have seq: "map evt_sequence ?l = map int [1..<Suc ?n]"
    using assms by (simp only: ledger_ok_def)
  show ?thesis
  proof (cases "map evt_sequence ?l")
    case Nil
    then show ?thesis by (simp add: latest_sequence_def)
  next
    case (Cons x xs)
    then have n: "1 \<le> ?n" by (cases ?l) auto
    have "fold max xs x = Max (set (x # xs))" by (simp only: Max.set_eq_fold)
    also have "set (x # xs) = int ` {1..?n}" using seq by (simp only: Cons[symmetric]) auto
    also have "Max (int ` {1..?n}) = int (Max {1..?n})"
      using n by (intro mono_Max_commute[symmetric]) (simp_all add: mono_def del: length_greater_0_conv)
    also have "Max {1..?n} = ?n" using n by (intro Max_eqI) (simp_all del: length_greater_0_conv)
    finally show ?thesis using Cons by (simp add: latest_sequence_def)
  qed
qed

text \<open>An update of runs that activates none and keeps ids, workstreams and windows keeps the invariant.\<close>

lemma runs_ok_update:
  assumes "runs_ok ws rs"
    and "\<And>r. P r \<Longrightarrow> run_id (f r) = run_id r \<and> run_workstream (f r) = run_workstream r
          \<and> (run_state (f r) = RunActive \<longrightarrow> run_state r = RunActive)"
  shows "runs_ok ws (update_where P f rs)"
proof -
  have "map run_workstream (update_where P f rs) = map run_workstream rs"
    using assms(2) by (intro map_update_where) blast
  then have "run_workstream ` set (update_where P f rs) = run_workstream ` set rs" by (metis set_map)
  then show ?thesis
    using assms unfolding runs_ok_def by (auto intro!: unique_on_update_where)
qed

lemma ws_inv_update_runs:
  assumes "ws_inv s"
    and "\<And>r. P r \<Longrightarrow> run_id (f r) = run_id r \<and> run_workstream (f r) = run_workstream r
          \<and> run_sync_after (f r) = run_sync_after r \<and> run_sync_through (f r) = run_sync_through r
          \<and> (run_state (f r) = RunActive \<longrightarrow> run_state r = RunActive)"
  shows "ws_inv (s\<lparr>managed_runs := update_where P f (managed_runs s)\<rparr>)"
proof -
  have "runs_ok (workstreams s) (update_where P f (managed_runs s))"
    using assms by (intro runs_ok_update) (auto simp: ws_inv_def)
  moreover have "run_cursors_ok (workstream_events s) (update_where P f (managed_runs s))"
    using assms by (auto simp: ws_inv_def run_cursors_ok_def table_simps)
  ultimately show ?thesis using assms(1) by (simp add: ws_inv_def)
qed

lemma expire_stale_inv: "ws_inv s \<Longrightarrow> ws_inv (expire_stale now s)"
  unfolding expire_stale_def by (rule ws_inv_update_runs) auto

lemma heartbeat_inv: "ws_inv s \<Longrightarrow> ws_inv (fst (heartbeat now s rid))"
  unfolding heartbeat_def Let_def fst_conv by (rule ws_inv_update_runs) auto

lemma cancel_run_inv: "ws_inv s \<Longrightarrow> ws_inv (fst (cancel_run now s rid))"
  unfolding cancel_run_def Let_def fst_conv by (rule ws_inv_update_runs) auto

lemma release_busy_inv: "ws_inv s \<Longrightarrow> release_busy now s w owner force = Inr s' \<Longrightarrow> ws_inv s'"
  by (auto simp: release_busy_def intro!: ws_inv_update_runs split: option.splits if_splits)

lemma ws_inv_new_workstream:
  assumes "ws_inv s" "wst_id row \<notin> wst_id ` set (workstreams s)"
    "workstream_key row \<notin> workstream_key ` set (workstreams s)"
  shows "ws_inv (s\<lparr>workstreams := workstreams s @ [row]\<rparr>)"
  using assms by (auto simp: ws_inv_def names_ok_def runs_ok_def unique_on_append1 image_iff)

lemma ws_inv_update_workstreams:
  assumes "ws_inv s" "\<And>w. P w \<Longrightarrow> wst_id (f w) = wst_id w \<and> workstream_key (f w) = workstream_key w"
  shows "ws_inv (s\<lparr>workstreams := update_where P f (workstreams s)\<rparr>)"
proof -
  have "map wst_id (update_where P f (workstreams s)) = map wst_id (workstreams s)"
    using assms(2) by (intro map_update_where) blast
  then have ids: "wst_id ` set (update_where P f (workstreams s)) = wst_id ` set (workstreams s)"
    by (metis set_map)
  have "unique_on (\<lambda>_. True) wst_id (update_where P f (workstreams s))"
    "unique_on (\<lambda>_. True) workstream_key (update_where P f (workstreams s))"
    using assms by (auto simp: ws_inv_def names_ok_def intro!: unique_on_update_where)
  with ids assms(1) show ?thesis by (simp add: ws_inv_def names_ok_def runs_ok_def)
qed

text \<open>Selecting never touches runs, natives or the ledger, and returns a stored workstream.\<close>

lemma new_workstream_row_simps [simp]:
  "wst_id (new_workstream_row wid now input name) = wid"
  "wst_name (new_workstream_row wid now input name) = name"
  "input_checkout input (new_workstream_row wid now input name)"
  by (simp_all add: new_workstream_row_def input_checkout_def in_checkout_def)

lemma insert_workstream_InrD:
  assumes "insert_workstream wid now s input name = Inr (s', w, n)"
  shows "w = wid" "n = name" "wid \<notin> wst_id ` set (workstreams s)"
    "workstream_key (new_workstream_row wid now input name) \<notin> workstream_key ` set (workstreams s)"
    "s' = s\<lparr>workstreams := workstreams s @ [new_workstream_row wid now input name]\<rparr>"
  using assms by (auto simp: insert_workstream_def Let_def split: if_splits)

lemma select_workstream_cases:
  assumes "select_workstream wid now s input = Inr (s', w, n)"
  shows "(s' = s \<and> (\<exists>row \<in> set (workstreams s). wst_id row = w \<and> wst_name row = n \<and> input_checkout input row))
       \<or> (\<exists>name. insert_workstream wid now s input name = Inr (s', w, n))"
  using assms
  by (auto simp: select_workstream_def and_then_Inr_iff find_named_workstream_def dest!: find_SomeD first_by_in
      split: workstream_selection.splits option.splits if_splits)

lemma select_workstream_spec:
  assumes "select_workstream wid now s input = Inr (s', w, n)" "ws_inv s"
  shows "ws_inv s' \<and> managed_runs s' = managed_runs s \<and> native_sessions s' = native_sessions s
    \<and> workstream_events s' = workstream_events s
    \<and> (\<exists>row \<in> set (workstreams s'). wst_id row = w \<and> wst_name row = n \<and> input_checkout input row)"
  using select_workstream_cases[OF assms(1)]
proof
  assume "s' = s \<and> (\<exists>row \<in> set (workstreams s). wst_id row = w \<and> wst_name row = n \<and> input_checkout input row)"
  with assms(2) show ?thesis by simp
next
  assume "\<exists>name. insert_workstream wid now s input name = Inr (s', w, n)"
  then obtain name where i: "insert_workstream wid now s input name = Inr (s', w, n)" ..
  note d = insert_workstream_InrD[OF i]
  have "ws_inv s'" unfolding d(5) using assms(2) d(3,4) by (intro ws_inv_new_workstream) simp_all
  with d show ?thesis by simp
qed

lemma release_busy_spec:
  assumes "release_busy now s w owner force = Inr s'" "ws_inv s"
  shows "\<forall>r \<in> set (managed_runs s'). run_workstream r = w \<longrightarrow> run_state r \<noteq> RunActive"
    "run_id ` set (managed_runs s') = run_id ` set (managed_runs s)"
    "workstreams s' = workstreams s" "native_sessions s' = native_sessions s"
    "workstream_events s' = workstream_events s"
    "\<And>r. r \<in> set (managed_runs s) \<Longrightarrow> run_workstream r = w \<Longrightarrow> run_state r = RunActive \<Longrightarrow>
       force \<and> run_owner_user r = owner"
proof -
  let ?P = "\<lambda>r. run_workstream r = w \<and> run_state r = RunActive"
  have uniq: "r \<in> set (managed_runs s) \<Longrightarrow> r' \<in> set (managed_runs s) \<Longrightarrow> ?P r \<Longrightarrow> ?P r' \<Longrightarrow> r = r'" for r r'
    using assms(2) unique_onD[of "\<lambda>r. run_state r = RunActive" run_workstream "managed_runs s" r r']
    by (simp add: ws_inv_def runs_ok_def)
  have all: "(\<forall>r \<in> set (managed_runs s'). run_workstream r = w \<longrightarrow> run_state r \<noteq> RunActive)
    \<and> run_id ` set (managed_runs s') = run_id ` set (managed_runs s)
    \<and> workstreams s' = workstreams s \<and> native_sessions s' = native_sessions s
    \<and> workstream_events s' = workstream_events s
    \<and> (\<forall>r \<in> set (managed_runs s). ?P r \<longrightarrow> force \<and> run_owner_user r = owner)"
  proof (cases "find ?P (managed_runs s)")
    case None
    with assms(1) show ?thesis by (auto simp: release_busy_def find_None_iff)
  next
    case (Some busy)
    then have b: "busy \<in> set (managed_runs s)" "?P busy" by (auto dest: find_SomeD)
    from assms(1) Some have f: "force" "run_owner_user busy = owner"
      and s': "s' = s\<lparr>managed_runs := update_where (\<lambda>r. run_id r = run_id busy \<and> run_state r = RunActive)
          (\<lambda>r. r\<lparr>run_state := RunExpired, run_ended_at := Some now, run_lease_expires_at := now\<rparr>) (managed_runs s)\<rparr>"
      by (auto simp: release_busy_def split: if_splits)
    have "\<forall>r \<in> set (managed_runs s). ?P r \<longrightarrow> r = busy" using uniq b by blast
    moreover have "map run_id (managed_runs s') = map run_id (managed_runs s)"
      unfolding s' by (simp add: map_update_where)
    then have "run_id ` set (managed_runs s') = run_id ` set (managed_runs s)" by (metis set_map)
    ultimately show ?thesis using f unfolding s' by (auto simp: table_simps)
  qed
  from all show "\<forall>r \<in> set (managed_runs s'). run_workstream r = w \<longrightarrow> run_state r \<noteq> RunActive"
    "run_id ` set (managed_runs s') = run_id ` set (managed_runs s)"
    "workstreams s' = workstreams s" "native_sessions s' = native_sessions s"
    "workstream_events s' = workstream_events s"
    "\<And>r. r \<in> set (managed_runs s) \<Longrightarrow> run_workstream r = w \<Longrightarrow> run_state r = RunActive \<Longrightarrow>
       force \<and> run_owner_user r = owner" by blast+
qed

lemma insert_run_InrD:
  assumes "insert_run s row = Inr s'"
  shows "s' = s\<lparr>managed_runs := managed_runs s @ [row]\<rparr>" "run_workstream row \<in> wst_id ` set (workstreams s)"
    "run_id row \<notin> run_id ` set (managed_runs s)"
    "run_state row = RunActive \<Longrightarrow> r \<in> set (managed_runs s) \<Longrightarrow> run_state r = RunActive \<Longrightarrow>
       run_workstream r \<noteq> run_workstream row"
  using assms by (auto simp: insert_run_def split: if_splits)

lemma ws_inv_insert_run:
  assumes "ws_inv s" "insert_run s row = Inr s'"
    "cursor_in (workstream_events s) (run_workstream row) (run_sync_after row)"
    "cursor_in (workstream_events s) (run_workstream row) (run_sync_through row)"
  shows "ws_inv s'"
proof -
  note d = insert_run_InrD[OF assms(2)]
  from assms(1) have r: "runs_ok (workstreams s) (managed_runs s)" by (simp add: ws_inv_def)
  have ids: "unique_on (\<lambda>_. True) run_id (managed_runs s @ [row])"
    using r d(3) unfolding runs_ok_def unique_on_append1 by (metis imageI)
  have act: "unique_on (\<lambda>r. run_state r = RunActive) run_workstream (managed_runs s @ [row])"
    using r d(4) unfolding runs_ok_def unique_on_append1 by simp
  have "runs_ok (workstreams s) (managed_runs s @ [row])"
    using ids act r d(2) by (simp add: runs_ok_def)
  moreover have "run_cursors_ok (workstream_events s) (managed_runs s @ [row])"
    using assms by (simp add: ws_inv_def run_cursors_ok_def)
  ultimately show ?thesis using assms(1) by (simp add: ws_inv_def d(1))
qed

lemma current_native_SomeD:
  "current_native s w agent = Some n \<Longrightarrow>
     n \<in> set (native_sessions s) \<and> nss_workstream n = w \<and> nss_agent_kind n = as_str agent \<and> nss_is_current n"
  by (auto simp: current_native_def dest: find_SomeD)

lemma new_run_row_simps [simp]:
  "run_id (new_run_row rid now s input owner w agent) = rid"
  "run_workstream (new_run_row rid now s input owner w agent) = w"
  "run_state (new_run_row rid now s input owner w agent) = RunActive"
  "run_owner_user (new_run_row rid now s input owner w agent) = owner"
  "run_agent_kind (new_run_row rid now s input owner w agent) = as_str agent"
  "run_lease_expires_at (new_run_row rid now s input owner w agent) = now + lease_micros"
  "run_sync_through (new_run_row rid now s input owner w agent) = latest_sequence s w"
  "run_context_delivered (new_run_row rid now s input owner w agent) = False"
  "run_linked_at (new_run_row rid now s input owner w agent) = None"
  by (simp_all add: new_run_row_def Let_def)

lemma new_run_row_cursors:
  assumes "ws_inv s"
  shows "cursor_in (workstream_events s) w (run_sync_after (new_run_row rid now s input owner w agent))"
    and "cursor_in (workstream_events s) w (run_sync_through (new_run_row rid now s input owner w agent))"
proof -
  show "cursor_in (workstream_events s) w (run_sync_after (new_run_row rid now s input owner w agent))"
    using assms current_native_SomeD[of s w agent]
    by (auto simp: new_run_row_def Let_def cursor_in_def ws_inv_def native_cursors_ok_def
        split: option.splits)
  show "cursor_in (workstream_events s) w (run_sync_through (new_run_row rid now s input owner w agent))"
    using assms by (simp add: cursor_in_def ws_inv_def latest_sequence_eq)
qed

text \<open>What a successful \<open>open_run\<close> did.\<close>

lemma open_run_InrD:
  assumes "open_run rid now s input owner w name = Inr (s', pr)" "ws_inv s"
  shows "ws_inv s'" "rid \<notin> run_id ` set (managed_runs s)"
    "managed_runs s' = managed_runs s @ [new_run_row rid now s input owner w (pr_agent pr)]"
    "native_sessions s' = native_sessions s" "workstream_events s' = workstream_events s"
    "wst_id ` set (workstreams s') = wst_id ` set (workstreams s)"
    "pr_workstream_id pr = w" "pr_run_id pr = rid"
    "pr_sync_through pr = latest_sequence s w"
    "pr_sync_after pr = (case current_native s w (pr_agent pr) of None \<Rightarrow> 0 | Some n \<Rightarrow> nss_delivery_cursor n)"
    "pr_native_session pr = map_option nss_session (current_native s w (pr_agent pr))"
    "pr_may_adopt pr = (\<not> established s w)" "pr_workstream_name pr = name"
proof -
  define agent where "agent = (if pi_automatic input
            then (case newest_available_agent s w (pi_available input) of None \<Rightarrow> pi_agent input | Some a \<Rightarrow> a)
            else pi_agent input)"
  define row where "row = new_run_row rid now s input owner w agent"
  define touch :: "workstream_row \<Rightarrow> workstream_row"
    where "touch = (\<lambda>x. x\<lparr>wst_selected_at := now, wst_updated_at := now, wst_cwd := pi_cwd input\<rparr>)"
  obtain s1 where ins: "insert_run s row = Inr s1"
    and s': "s' = s1\<lparr>workstreams := update_where (\<lambda>x. wst_id x = w) touch (workstreams s1)\<rparr>"
    and pr: "pr_agent pr = agent" "pr_workstream_id pr = w" "pr_run_id pr = rid"
      "pr_sync_through pr = run_sync_through row" "pr_sync_after pr = run_sync_after row"
      "pr_native_session pr = run_native_session row" "pr_may_adopt pr = (\<not> established s w)"
      "pr_workstream_name pr = name"
    using assms(1) by (auto simp: open_run_def Let_def agent_def row_def touch_def and_then_Inr_iff)
  have touch: "wst_id (touch x) = wst_id x" "workstream_key (touch x) = workstream_key x" for x
    by (simp_all add: touch_def workstream_key_def)
  have s1: "ws_inv s1" "s1 = s\<lparr>managed_runs := managed_runs s @ [row]\<rparr>" "rid \<notin> run_id ` set (managed_runs s)"
    using ws_inv_insert_run[OF assms(2) ins] insert_run_InrD[OF ins] new_run_row_cursors[OF assms(2)]
    by (simp_all add: row_def)
  have "map wst_id (workstreams s') = map wst_id (workstreams s)"
    unfolding s' using touch by (simp add: s1(2) map_update_where)
  then show "wst_id ` set (workstreams s') = wst_id ` set (workstreams s)" by (metis set_map)
  show "ws_inv s'" unfolding s' using s1(1) touch by (intro ws_inv_update_workstreams) auto
  show "rid \<notin> run_id ` set (managed_runs s)" by (rule s1(3))
  show "managed_runs s' = managed_runs s @ [new_run_row rid now s input owner w (pr_agent pr)]"
    "native_sessions s' = native_sessions s" "workstream_events s' = workstream_events s"
    unfolding s' s1(2) by (simp_all add: pr row_def)
  show "pr_workstream_id pr = w" "pr_run_id pr = rid" "pr_may_adopt pr = (\<not> established s w)"
    "pr_workstream_name pr = name" by (rule pr)+
  show "pr_sync_through pr = latest_sequence s w"
    "pr_sync_after pr = (case current_native s w (pr_agent pr) of None \<Rightarrow> 0 | Some n \<Rightarrow> nss_delivery_cursor n)"
    "pr_native_session pr = map_option nss_session (current_native s w (pr_agent pr))"
    by (simp_all add: pr row_def new_run_row_def Let_def)
qed

lemma expire_stale_frame [simp]:
  "workstreams (expire_stale now s) = workstreams s" "projects (expire_stale now s) = projects s"
  "workspaces (expire_stale now s) = workspaces s"
  "native_sessions (expire_stale now s) = native_sessions s"
  "workstream_events (expire_stale now s) = workstream_events s"
  "map run_id (managed_runs (expire_stale now s)) = map run_id (managed_runs s)"
  by (simp_all add: expire_stale_def map_update_where)

lemma expire_stale_keeps_live:
  "r \<in> set (managed_runs s) \<Longrightarrow> now < run_lease_expires_at r \<Longrightarrow> r \<in> set (managed_runs (expire_stale now s))"
  by (auto simp: expire_stale_def table_simps)

lemma prepare_run_InrE:
  assumes "prepare_run wid rid now s input owner force = Inr (s', pr)"
  obtains s2 w name s3 where "owner_key_ok owner"
    and "select_workstream wid now (expire_stale now s) input = Inr (s2, w, name)"
    and "release_busy now s2 w owner force = Inr s3"
    and "open_run rid now s3 input owner w name = Inr (s', pr)"
  using assms by (auto simp: prepare_run_def and_then_Inr_iff split: if_splits)

lemma prepare_run_inv:
  assumes "ws_inv s" "prepare_run wid rid now s input owner force = Inr (s', pr)"
  shows "ws_inv s'"
  using assms(2)
proof (rule prepare_run_InrE)
  fix s2 w name s3
  assume "select_workstream wid now (expire_stale now s) input = Inr (s2, w, name)"
    and r: "release_busy now s2 w owner force = Inr s3"
    and o: "open_run rid now s3 input owner w name = Inr (s', pr)"
  then have "ws_inv s2" using select_workstream_spec expire_stale_inv[OF assms(1)] by blast
  then have "ws_inv s3" using release_busy_inv r by blast
  then show "ws_inv s'" using open_run_InrD(1) o by blast
qed

text \<open>A run that \<open>open_run\<close> adds is the only active run of its workstream.\<close>

lemma open_run_only_active:
  assumes "open_run rid now s input owner w name = Inr (s', pr)" "ws_inv s"
    and "\<forall>r \<in> set (managed_runs s). run_workstream r = w \<longrightarrow> run_state r \<noteq> RunActive"
  shows "filter (\<lambda>r. run_workstream r = w \<and> run_state r = RunActive) (managed_runs s')
    = [new_run_row rid now s input owner w (pr_agent pr)]"
proof -
  have "filter (\<lambda>r. run_workstream r = w \<and> run_state r = RunActive) (managed_runs s) = []"
    using assms(3) by (auto simp: filter_empty_conv)
  then show ?thesis using open_run_InrD(3)[OF assms(1,2)] by simp
qed

lemma expire_stale_inv_select:
  assumes "ws_inv s" "select_workstream wid now (expire_stale now s) input = Inr (s2, w, name)"
  shows "ws_inv s2" "managed_runs s2 = managed_runs (expire_stale now s)"
    "native_sessions s2 = native_sessions s" "workstream_events s2 = workstream_events s"
    "w \<in> wst_id ` set (workstreams s2)"
  using select_workstream_spec[OF assms(2) expire_stale_inv[OF assms(1)]] by auto

section \<open>A small store to instantiate the properties on\<close>

definition demo_store :: store where
  "demo_store = empty_store\<lparr>workspaces := [\<lparr>wsp_id = 1, wsp_name = lit ''ws''\<rparr>],
     projects := [\<lparr>prj_id = 2, prj_workspace = 1, prj_name = lit ''app'', prj_access_mode = lit ''open'',
       prj_created_by = None\<rparr>]\<rparr>"

definition demo_input :: prepare_input where
  "demo_input = \<lparr>pi_workspace = 1, pi_project = 2, pi_scope_by_id = True, pi_repo = lit ''repo'',
     pi_worktree = lit ''tree'', pi_cwd = lit ''/w'', pi_agent = ClaudeCode, pi_automatic = False,
     pi_available = [], pi_selection = SelCurrent, pi_lease_owner = lit ''host''\<rparr>"

definition demo_prepared :: "store \<times> prepared_run" where
  "demo_prepared = projr (prepare_run 10 20 1000 demo_store demo_input None False)"

lemma demo_store_inv: "ws_inv demo_store"
  by (simp add: demo_store_def empty_store_def ws_inv_defs ledger_ok_def ledger_def)

lemma demo_prepared_ok: "prepare_run 10 20 1000 demo_store demo_input None False = Inr demo_prepared"
proof -
  have "\<not> isl (prepare_run 10 20 1000 demo_store demo_input None False)" by code_simp
  then show ?thesis unfolding demo_prepared_def by simp
qed

lemma demo_prepared_inv: "ws_inv (fst demo_prepared)"
  using prepare_run_inv[OF demo_store_inv] demo_prepared_ok by (metis prod.collapse)

section \<open>Properties\<close>

text \<open>
  C2. Exclusive lease: when \<^verbatim>\<open>prepare_run\<close> succeeds, the run it returns is the only active run of its
  workstream, belongs to the caller and is leased for \<open>lease_micros\<close>; and a live run it displaced was
  taken over by force by its own owner, never from another operator.
\<close>

theorem prepare_run_exclusive:
  assumes "ws_inv s" "prepare_run wid rid now s input owner force = Inr (s', pr)"
  shows "\<exists>r. filter (\<lambda>r. run_workstream r = pr_workstream_id pr \<and> run_state r = RunActive) (managed_runs s') = [r]
      \<and> run_id r = rid \<and> pr_run_id pr = rid \<and> run_owner_user r = owner
      \<and> run_lease_expires_at r = now + lease_micros
      \<and> (\<forall>q \<in> set (managed_runs s). run_workstream q = pr_workstream_id pr \<and> run_state q = RunActive
           \<and> now < run_lease_expires_at q \<longrightarrow> force \<and> run_owner_user q = owner)"
  using assms(2)
proof (rule prepare_run_InrE)
  fix s2 w name s3
  assume sel: "select_workstream wid now (expire_stale now s) input = Inr (s2, w, name)"
    and rel: "release_busy now s2 w owner force = Inr s3"
    and op: "open_run rid now s3 input owner w name = Inr (s', pr)"
  note s2 = expire_stale_inv_select[OF assms(1) sel]
  note s3 = release_busy_spec[OF rel s2(1)]
  have inv3: "ws_inv s3" by (rule release_busy_inv[OF s2(1) rel])
  note o = open_run_InrD[OF op inv3]
  have "\<forall>q \<in> set (managed_runs s). run_workstream q = w \<and> run_state q = RunActive
           \<and> now < run_lease_expires_at q \<longrightarrow> force \<and> run_owner_user q = owner"
    using s3(6) s2(2) expire_stale_keeps_live by metis
  then show ?thesis using open_run_only_active[OF op inv3 s3(1)] o(7,8) by simp
qed

theorem prepare_run_exclusive_witness:
  "\<exists>r. filter (\<lambda>r. run_workstream r = 10 \<and> run_state r = RunActive) (managed_runs (fst demo_prepared)) = [r]
     \<and> run_id r = 20 \<and> run_owner_user r = None \<and> run_lease_expires_at r = 90001000"
proof -
  have pr: "prepare_run 10 20 1000 demo_store demo_input None False = Inr (fst demo_prepared, snd demo_prepared)"
    by (simp add: demo_prepared_ok)
  have "pr_workstream_id (snd demo_prepared) = 10" by code_simp
  then show ?thesis using prepare_run_exclusive[OF demo_store_inv pr] by (auto simp: lease_micros_def)
qed

text \<open>
  A live lease is respected: if the selected workstream has an active run whose lease has not
  passed, and the caller does not force the takeover of a run of its own, \<^verbatim>\<open>prepare_run\<close> answers
  \<^verbatim>\<open>WorkstreamBusy\<close> with that run's lease owner and expiry, and changes nothing.
\<close>

theorem prepare_run_busy:
  assumes "ws_inv s" "owner_key_ok owner"
    and sel: "select_workstream wid now (expire_stale now s) input = Inr (s2, w, name)"
    and r: "r \<in> set (managed_runs s)" "run_workstream r = w" "run_state r = RunActive"
      "now < run_lease_expires_at r" "\<not> (force \<and> run_owner_user r = owner)"
  shows "prepare_run wid rid now s input owner force
    = Inl (WorkstreamBusy (run_lease_owner r) (run_lease_expires_at r))"
proof -
  note s2 = expire_stale_inv_select[OF assms(1) sel]
  have r2: "r \<in> set (managed_runs s2)" using s2(2) expire_stale_keeps_live r(1,4) by metis
  let ?P = "\<lambda>q. run_workstream q = w \<and> run_state q = RunActive"
  obtain b where b: "find ?P (managed_runs s2) = Some b"
    using r2 r(2,3) by (cases "find ?P (managed_runs s2)") (auto simp: find_None_iff)
  have "runs_ok (workstreams s2) (managed_runs s2)" using s2(1) by (simp add: ws_inv_def)
  then have "b = r" using find_SomeD[OF b] r2 r(2,3) by (auto simp: runs_ok_def dest: unique_onD)
  then show ?thesis using b sel assms(2) r(5) by (auto simp: prepare_run_def release_busy_def)
qed

theorem prepare_run_busy_witness:
  "prepare_run 11 21 2000 (fst demo_prepared) demo_input None False = Inl (WorkstreamBusy (lit ''host'') 90001000)"
proof -
  have sel: "select_workstream 11 2000 (expire_stale 2000 (fst demo_prepared)) demo_input
    = Inr (expire_stale 2000 (fst demo_prepared), 10, lit ''default'')" by code_simp
  have r: "hd (managed_runs (fst demo_prepared)) \<in> set (managed_runs (fst demo_prepared))"
    "run_workstream (hd (managed_runs (fst demo_prepared))) = 10"
    "run_state (hd (managed_runs (fst demo_prepared))) = RunActive"
    "2000 < run_lease_expires_at (hd (managed_runs (fst demo_prepared)))"
    "run_lease_owner (hd (managed_runs (fst demo_prepared))) = lit ''host''"
    "run_lease_expires_at (hd (managed_runs (fst demo_prepared))) = 90001000" by code_simp+
  have "owner_key_ok None" by (simp add: owner_key_ok_def)
  from prepare_run_busy[OF demo_prepared_inv this sel r(1-4), of False 21] r(5,6)
  show ?thesis by simp
qed

text \<open>Each of the two inserts finds its constraints satisfied.\<close>

lemma select_workstream_no_sqlite:
  assumes "wid \<notin> wst_id ` set (workstreams s)"
    and "find (\<lambda>p. prj_id p = pi_project input) (projects s) = Some p" "prj_workspace p = pi_workspace input"
    and "pi_workspace input \<in> wsp_id ` set (workspaces s)"
  shows "select_workstream wid now s input \<noteq> Inl (Sqlite m)"
proof -
  have ins: "insert_workstream wid now s input name \<noteq> Inl (Sqlite m)"
    if "\<not> (\<exists>w \<in> set (workstreams s). input_checkout input w \<and> wst_name w = name)" for name
  proof -
    have "workstream_key (new_workstream_row wid now input name) \<notin> workstream_key ` set (workstreams s)"
      using that by (auto simp: workstream_key_def new_workstream_row_def input_checkout_def in_checkout_def)
    then show ?thesis using assms by (simp add: insert_workstream_def Let_def)
  qed
  have val: "validate_workstream_name name \<noteq> Inl (Sqlite m)" for name
    by (simp add: validate_workstream_name_def Let_def)
  show ?thesis
  proof (cases "pi_selection input")
    case SelCurrent
    then show ?thesis using ins[of "lit ''default''"]
      by (auto simp: select_workstream_def filter_empty_conv split: option.splits)
  next
    case (SelNamed name)
    then show ?thesis using val[of name]
      by (cases "validate_workstream_name name") (auto simp: select_workstream_def split: option.splits)
  next
    case (SelNew name)
    then show ?thesis using val[of name] ins[of name]
      by (cases "validate_workstream_name name") (auto simp: select_workstream_def)
  qed
qed

text \<open>
  No constraint failure: with fresh ids and a project that belongs to the named workspace,
  \<^verbatim>\<open>prepare_run\<close> never runs into a SQLite constraint. In particular the partial unique index
  \<^verbatim>\<open>idx_managed_runs_one_active\<close> is never what stops a launch: the busy check always sees the run first.
\<close>

theorem prepare_run_no_sqlite:
  assumes "ws_inv s" "wid \<notin> wst_id ` set (workstreams s)" "rid \<notin> run_id ` set (managed_runs s)"
    and "find (\<lambda>p. prj_id p = pi_project input) (projects s) = Some p" "prj_workspace p = pi_workspace input"
    and "pi_workspace input \<in> wsp_id ` set (workspaces s)"
  shows "prepare_run wid rid now s input owner force \<noteq> Inl (Sqlite m)"
proof (cases "owner_key_ok owner")
  case True
  have sel: "select_workstream wid now (expire_stale now s) input \<noteq> Inl (Sqlite m)"
    using assms by (intro select_workstream_no_sqlite) auto
  show ?thesis
  proof (cases "select_workstream wid now (expire_stale now s) input")
    case (Inl e)
    with sel True show ?thesis by (simp add: prepare_run_def)
  next
    case (Inr a)
    then obtain s2 w name where s2: "select_workstream wid now (expire_stale now s) input = Inr (s2, w, name)"
      by (cases a) auto
    note sp = expire_stale_inv_select[OF assms(1) s2]
    show ?thesis
    proof (cases "release_busy now s2 w owner force")
      case (Inl e)
      then have "e \<noteq> Sqlite m" by (auto simp: release_busy_def split: option.splits if_splits)
      with Inl s2 True show ?thesis by (simp add: prepare_run_def)
    next
      case (Inr s3)
      note rb = release_busy_spec[OF Inr sp(1)]
      have "run_id ` set (managed_runs s3) = run_id ` set (managed_runs s)"
        using rb(2) sp(2) expire_stale_frame(6)[of now s] by (metis set_map)
      then have "\<exists>x. open_run rid now s3 input owner w name = Inr x"
        using rb(1,3) sp(5) assms(3) by (auto simp: open_run_def Let_def insert_run_def)
      with Inr s2 True show ?thesis by (auto simp: prepare_run_def)
    qed
  qed
qed (simp add: prepare_run_def)

theorem prepare_run_no_sqlite_witness:
  "prepare_run 10 20 1000 demo_store demo_input None False \<noteq> Inl (Sqlite ''any'')"
  by (rule prepare_run_no_sqlite[OF demo_store_inv, where p = "hd (projects demo_store)"])
    (simp_all add: demo_store_def demo_input_def empty_store_def)

text \<open>
  The synchronization window of a new run starts at the delivery cursor of the harness's current
  session (0 without one), ends at the number of events the ledger holds, and is never inverted.
\<close>

theorem prepare_run_window:
  assumes "ws_inv s" "prepare_run wid rid now s input owner force = Inr (s', pr)"
  shows "pr_sync_through pr = int (length (ledger (workstream_events s) (pr_workstream_id pr)))
    \<and> pr_sync_after pr = (case current_native s (pr_workstream_id pr) (pr_agent pr) of
         None \<Rightarrow> 0 | Some n \<Rightarrow> nss_delivery_cursor n)
    \<and> 0 \<le> pr_sync_after pr \<and> pr_sync_after pr \<le> pr_sync_through pr"
  using assms(2)
proof (rule prepare_run_InrE)
  fix s2 w name s3
  assume sel: "select_workstream wid now (expire_stale now s) input = Inr (s2, w, name)"
    and rel: "release_busy now s2 w owner force = Inr s3"
    and op: "open_run rid now s3 input owner w name = Inr (s', pr)"
  note s2 = expire_stale_inv_select[OF assms(1) sel]
  note s3 = release_busy_spec[OF rel s2(1)]
  have inv3: "ws_inv s3" by (rule release_busy_inv[OF s2(1) rel])
  note o = open_run_InrD[OF op inv3]
  have same: "workstream_events s3 = workstream_events s" "native_sessions s3 = native_sessions s"
    using s3(4,5) s2(3,4) by simp_all
  have "ledger_ok (workstream_events s3)" using inv3 by (simp add: ws_inv_def)
  then have thr: "pr_sync_through pr = int (length (ledger (workstream_events s) w))"
    using o(9) latest_sequence_eq same by simp
  have aft: "pr_sync_after pr = (case current_native s w (pr_agent pr) of None \<Rightarrow> 0 | Some n \<Rightarrow> nss_delivery_cursor n)"
    using o(10) same by (simp add: current_native_def)
  have "cursor_in (workstream_events s) w (pr_sync_after pr)"
    using new_run_row_cursors(1)[OF inv3, of w rid now input owner "pr_agent pr"] o(10) same
    by (simp add: new_run_row_def Let_def)
  then show ?thesis using thr aft o(7) by (simp add: cursor_in_def)
qed

theorem prepare_run_window_witness:
  "pr_sync_after (snd demo_prepared) = 0 \<and> pr_sync_through (snd demo_prepared) = 0"
proof -
  have pr: "prepare_run 10 20 1000 demo_store demo_input None False = Inr (fst demo_prepared, snd demo_prepared)"
    by (simp add: demo_prepared_ok)
  show ?thesis using prepare_run_window[OF demo_store_inv pr]
    by (simp add: demo_store_def empty_store_def ledger_def)
qed

end
