(* ===== verification/WorkstreamLink.thy ===== *)
theory WorkstreamLink
  imports WorkstreamStore
begin

text \<open>
  Managed workstreams, part two (\<^verbatim>\<open>crates/ai-memory-store/src/workstream.rs\<close>): binding the native
  session that a hook reports to a run (\<^verbatim>\<open>link_native_session*\<close>, \<^verbatim>\<open>link_or_adopt_native_session\<close>,
  \<^verbatim>\<open>pinned_hook_scope\<close>) and claiming the synchronization context of a run
  (\<^verbatim>\<open>accept_context_in_transaction\<close>). The privacy scrubber and the \<^verbatim>\<open>uuid\<close> crate are parameters,
  collected in \<open>native_env\<close>. The lemmas show that binding never trips the one-current-session index,
  keeps the invariant, never moves a delivery cursor back, and only ever happens inside the scope and
  operator boundary of the run.
\<close>

record native_env =
  builtin_scrub :: "ustr \<Rightarrow> ustr"
  parse_uuid :: "ustr \<Rightarrow> uuid option"
  new_v5_oid :: "ustr \<Rightarrow> uuid"

definition from_native :: "native_env \<Rightarrow> ustr \<Rightarrow> uuid" where
  "from_native env raw = (case parse_uuid env raw of Some u \<Rightarrow> u | None \<Rightarrow> new_v5_oid env raw)"

datatype claude_session_boundary = BoundaryOther | BoundaryClear | BoundaryResume

definition from_session_start :: "agent_kind \<Rightarrow> bool \<Rightarrow> ustr option \<Rightarrow> claude_session_boundary" where
  "from_session_start agent session_start source =
     (if agent \<noteq> ClaudeCode \<or> \<not> session_start then BoundaryOther
      else if source = Some (lit ''clear'') then BoundaryClear
      else if source = Some (lit ''resume'') then BoundaryResume
      else BoundaryOther)"

datatype managed_run_session_link =
  LinkExact uuid | LinkAdopted uuid | LinkNoMatch | LinkAmbiguous | LinkRefused

record link_or_adopt_input =
  la_supplied :: uuid
  la_workspace :: uuid
  la_project :: uuid
  la_cwd :: ustr
  la_agent :: agent_kind
  la_native :: ustr
  la_owner :: "ustr option"

record link_in_scope_input =
  ls_run :: uuid
  ls_workspace :: uuid
  ls_project :: uuid
  ls_agent :: agent_kind
  ls_native :: ustr
  ls_owner :: "ustr option"

record hook_identity =
  hi_run :: uuid
  hi_agent :: agent_kind
  hi_cwd :: "ustr option"
  hi_native :: ustr
  hi_owner :: "ustr option"
  hi_session_start :: bool
  hi_boundary :: claude_session_boundary

section \<open>The boundary of a run\<close>

record boundary_row =
  br_state :: run_state
  br_workspace :: uuid
  br_project :: uuid
  br_cwd :: ustr
  br_agent :: ustr
  br_owner :: "ustr option"
  br_native :: "ustr option"

definition read_boundary :: "store \<Rightarrow> uuid \<Rightarrow> boundary_row option" where
  "read_boundary s rid =
     Option.bind (find_run s rid) (\<lambda>r. map_option (\<lambda>w.
       \<lparr>br_state = run_state r, br_workspace = wst_workspace w, br_project = wst_project w,
        br_cwd = wst_cwd w, br_agent = run_agent_kind r, br_owner = run_owner_user r,
        br_native = run_native_session r\<rparr>) (find_workstream s (run_workstream r)))"

definition admits :: "boundary_row \<Rightarrow> uuid \<Rightarrow> uuid \<Rightarrow> ustr option \<Rightarrow> ustr option \<Rightarrow> bool" where
  "admits row workspace project cwd owner \<longleftrightarrow>
     br_workspace row = workspace \<and> br_project row = project
     \<and> (case cwd of None \<Rightarrow> True | Some c \<Rightarrow> br_cwd row = c) \<and> br_owner row = owner"

definition pinned_hook_scope ::
  "native_env \<Rightarrow> int \<Rightarrow> store \<Rightarrow> hook_identity \<Rightarrow> (uuid \<times> uuid) option store_result" where
  "pinned_hook_scope env now s input =
     (case find_run s (hi_run input) of
        None \<Rightarrow> Inr None
      | Some pin \<Rightarrow>
        if \<not> run_scope_by_id pin then Inr None
        else case read_boundary s (hi_run input) of
          None \<Rightarrow> Inl ManagedRunBoundaryRefused
        | Some run \<Rightarrow>
          (case native_identity_parse (builtin_scrub env) (hi_native input) of
             Inl _ \<Rightarrow> Inl ManagedRunBoundaryRefused
           | Inr native \<Rightarrow>
             let linked = run_linked_at pin \<noteq> None; delivered = run_context_delivered pin in
             if br_state run \<noteq> RunActive
                \<or> br_agent run \<noteq> as_str (hi_agent input)
                \<or> br_owner run \<noteq> hi_owner input
                \<or> ((linked \<or> delivered) \<and> br_native run \<noteq> Some native
                     \<and> \<not> (hi_boundary input \<noteq> BoundaryOther \<and> hi_session_start input \<and> hi_agent input = ClaudeCode))
                \<or> ((hi_session_start input \<or> \<not> linked) \<and> hi_cwd input \<noteq> Some (br_cwd run))
             then Inl ManagedRunBoundaryRefused
             else if run_lease_expires_at pin \<le> now then Inl ManagedRunLeaseLapsed
             else Inr (Some (br_workspace run, br_project run))))"

section \<open>Writing the native-session table\<close>

definition retire_natives :: "int \<Rightarrow> uuid \<Rightarrow> ustr \<Rightarrow> ustr \<Rightarrow> native_row list \<Rightarrow> native_row list" where
  "retire_natives now w agent native =
     update_where (\<lambda>n. nss_workstream n = w \<and> nss_agent_kind n = agent \<and> nss_session n \<noteq> native)
       (\<lambda>n. n\<lparr>nss_is_current := False, nss_updated_at := now\<rparr>)"

text \<open>\<^verbatim>\<open>INSERT \<dots> ON CONFLICT(workstream_id, agent_kind, native_session_id) DO UPDATE SET \<dots>\<close>; \<open>upd\<close> is the
  \<^verbatim>\<open>SET\<close> clause, \<open>row\<close> the inserted row.\<close>

definition upserted :: "native_row \<Rightarrow> (native_row \<Rightarrow> native_row) \<Rightarrow> native_row list \<Rightarrow> native_row list" where
  "upserted row upd ns =
     (if exists_row (\<lambda>n. native_key n = native_key row) ns
      then update_where (\<lambda>n. native_key n = native_key row) upd ns
      else ns @ [row])"

definition upsert_native :: "store \<Rightarrow> native_row \<Rightarrow> (native_row \<Rightarrow> native_row) \<Rightarrow> store store_result" where
  "upsert_native s row upd =
     (if nss_workstream row \<notin> wst_id ` set (workstreams s)
      then Inl (Sqlite ''FOREIGN KEY constraint failed'')
      else if \<not> unique_on nss_is_current native_slot (upserted row upd (native_sessions s))
      then Inl (Sqlite ''UNIQUE constraint failed: idx_workstream_native_current'')
      else Inr (s\<lparr>native_sessions := upserted row upd (native_sessions s)\<rparr>))"

section \<open>Linking\<close>

definition session_foreign :: "native_env \<Rightarrow> store \<Rightarrow> run_row \<Rightarrow> ustr \<Rightarrow> bool" where
  "session_foreign env s run native \<longleftrightarrow>
     exists_row (\<lambda>x. ses_id x = from_native env native
       \<and> (case find_workstream s (run_workstream run) of
            None \<Rightarrow> False
          | Some w \<Rightarrow> ses_workspace x \<noteq> wst_workspace w \<or> ses_project x \<noteq> wst_project w
              \<or> ses_agent_kind x \<noteq> run_agent_kind run \<or> ses_actor_user x \<noteq> run_owner_user run))
       (sessions s)"

definition repoint_admitted :: "store \<Rightarrow> run_row \<Rightarrow> agent_kind \<Rightarrow> ustr \<Rightarrow> claude_session_boundary \<Rightarrow> bool" where
  "repoint_admitted s run agent native boundary \<longleftrightarrow>
     (if boundary = BoundaryClear
      then \<not> exists_row (\<lambda>n. nss_agent_kind n = as_str agent \<and> nss_session n = native) (native_sessions s)
      else exists_row (\<lambda>n. nss_workstream n = run_workstream run \<and> nss_agent_kind n = as_str agent
              \<and> nss_session n = native) (native_sessions s)
           \<and> \<not> exists_row (\<lambda>r. run_id r \<noteq> run_id run \<and> run_agent_kind r = as_str agent
              \<and> run_native_session r = Some native \<and> run_state r = RunActive) (managed_runs s))"

text \<open>Whether the run holds a session that \<open>native\<close> would replace.\<close>

definition repoints :: "run_row \<Rightarrow> ustr \<Rightarrow> bool" where
  "repoints run native \<longleftrightarrow> (run_context_delivered run \<or> run_linked_at run \<noteq> None)
     \<and> (case run_native_session run of None \<Rightarrow> False | Some linked \<Rightarrow> linked \<noteq> native)"

definition link_admitted ::
  "native_env \<Rightarrow> store \<Rightarrow> run_row \<Rightarrow> agent_kind \<Rightarrow> ustr \<Rightarrow> claude_session_boundary \<Rightarrow> bool" where
  "link_admitted env s run agent native boundary \<longleftrightarrow>
     run_agent_kind run = as_str agent
     \<and> \<not> (run_scope_by_id run \<and> session_foreign env s run native)
     \<and> (repoints run native \<longrightarrow>
          \<not> (boundary = BoundaryOther \<or> \<not> run_scope_by_id run \<or> agent \<noteq> ClaudeCode)
          \<and> repoint_admitted s run agent native boundary)"

definition initial_delivery :: "native_row list \<Rightarrow> run_row \<Rightarrow> ustr \<Rightarrow> ustr \<Rightarrow> int" where
  "initial_delivery ns run agent native =
     (case find (\<lambda>n. nss_workstream n = run_workstream run \<and> nss_agent_kind n = agent \<and> nss_session n = native) ns of
        Some n \<Rightarrow> nss_delivery_cursor n
      | None \<Rightarrow> if run_context_delivered run then run_sync_through run else 0)"

text \<open>The inserted row and the conflict clause of the link, and the columns the run gets.\<close>

definition link_row :: "int \<Rightarrow> run_row \<Rightarrow> agent_kind \<Rightarrow> ustr \<Rightarrow> int \<Rightarrow> native_row" where
  "link_row now run agent native delivery =
     \<lparr>nss_workstream = run_workstream run, nss_agent_kind = as_str agent, nss_session = native,
      nss_is_current = True, nss_source_cursor = None, nss_delivery_cursor = delivery,
      nss_created_at = now, nss_updated_at = now\<rparr>"

definition link_conflict :: "int \<Rightarrow> int \<Rightarrow> native_row \<Rightarrow> native_row" where
  "link_conflict now delivery n =
     n\<lparr>nss_is_current := True, nss_delivery_cursor := max (nss_delivery_cursor n) delivery,
       nss_updated_at := now\<rparr>"

definition link_run :: "int \<Rightarrow> ustr \<Rightarrow> int \<Rightarrow> run_row \<Rightarrow> run_row" where
  "link_run now native delivery r =
     r\<lparr>run_native_session := Some native, run_sync_after := delivery, run_linked_at := Some now\<rparr>"

definition bind_native :: "int \<Rightarrow> store \<Rightarrow> run_row \<Rightarrow> agent_kind \<Rightarrow> ustr \<Rightarrow> store store_result" where
  "bind_native now s run agent native =
     (let ns = retire_natives now (run_workstream run) (as_str agent) native (native_sessions s);
          delivery = initial_delivery ns run (as_str agent) native
      in and_then
           (upsert_native (s\<lparr>native_sessions := ns\<rparr>) (link_row now run agent native delivery)
              (link_conflict now delivery))
           (\<lambda>s2. Inr (s2\<lparr>managed_runs := update_where (\<lambda>r. run_id r = run_id run)
              (link_run now native delivery) (managed_runs s2)\<rparr>)))"

definition link_native_session_in_transaction ::
  "native_env \<Rightarrow> int \<Rightarrow> store \<Rightarrow> uuid \<Rightarrow> agent_kind \<Rightarrow> ustr \<Rightarrow> claude_session_boundary \<Rightarrow> (store \<times> bool) store_result" where
  "link_native_session_in_transaction env now s rid agent native boundary =
     (case find (\<lambda>r. run_id r = rid \<and> run_state r = RunActive) (managed_runs s) of
        None \<Rightarrow> Inr (s, False)
      | Some run \<Rightarrow>
          if \<not> link_admitted env s run agent native boundary then Inr (s, False)
          else and_then (bind_native now s run agent native) (\<lambda>s'. Inr (s', True)))"

definition link_native_session ::
  "native_env \<Rightarrow> int \<Rightarrow> store \<Rightarrow> uuid \<Rightarrow> agent_kind \<Rightarrow> ustr \<Rightarrow> (store \<times> bool) store_result" where
  "link_native_session env now s rid agent native_session_id =
     (case native_identity_parse (builtin_scrub env) native_session_id of
        Inl _ \<Rightarrow> Inr (s, False)
      | Inr native \<Rightarrow> link_native_session_in_transaction env now s rid agent native BoundaryOther)"

text \<open>The recovery query of \<^verbatim>\<open>link_or_adopt_native_session\<close>: \<^verbatim>\<open>LIMIT 2\<close> tells one candidate from many.\<close>

definition adoptable :: "int \<Rightarrow> store \<Rightarrow> link_or_adopt_input \<Rightarrow> run_row \<Rightarrow> bool" where
  "adoptable now s input r \<longleftrightarrow>
     (case find_workstream s (run_workstream r) of
        None \<Rightarrow> False
      | Some w \<Rightarrow> wst_workspace w = la_workspace input \<and> wst_project w = la_project input
          \<and> wst_cwd w = la_cwd input \<and> run_agent_kind r = as_str (la_agent input)
          \<and> run_owner_user r = la_owner input \<and> run_state r = RunActive \<and> run_lease_expires_at r > now
          \<and> \<not> run_context_delivered r \<and> run_linked_at r = None)"

definition adoption_candidates :: "int \<Rightarrow> store \<Rightarrow> link_or_adopt_input \<Rightarrow> uuid list" where
  "adoption_candidates now s input =
     take 2 (map run_id (sort_key (\<lambda>r. (- run_started_at r, - int (run_id r)))
       (filter (adoptable now s input) (managed_runs s))))"

definition link_selected ::
  "native_env \<Rightarrow> int \<Rightarrow> store \<Rightarrow> link_or_adopt_input \<Rightarrow> claude_session_boundary \<Rightarrow> ustr \<Rightarrow> uuid
     \<Rightarrow> managed_run_session_link \<Rightarrow> (store \<times> managed_run_session_link) store_result" where
  "link_selected env now s input boundary native rid outcome =
     and_then (link_native_session_in_transaction env now s rid (la_agent input) native boundary)
       (\<lambda>(s', linked). Inr (s', if linked then outcome else LinkRefused))"

definition link_or_adopt_native_session ::
  "native_env \<Rightarrow> int \<Rightarrow> store \<Rightarrow> link_or_adopt_input \<Rightarrow> claude_session_boundary
     \<Rightarrow> (store \<times> managed_run_session_link) store_result" where
  "link_or_adopt_native_session env now s input boundary =
     (if trim (la_native input) = [] \<or> trim (la_cwd input) = [] \<or> \<not> owner_key_ok (la_owner input)
      then Inr (s, LinkRefused)
      else case native_identity_parse (builtin_scrub env) (la_native input) of
        Inl _ \<Rightarrow> Inr (s, LinkRefused)
      | Inr native \<Rightarrow>
        if boundary \<noteq> BoundaryOther
           \<and> (la_agent input \<noteq> ClaudeCode
              \<or> \<not> exists_row (\<lambda>r. run_id r = la_supplied input \<and> run_state r = RunActive \<and> run_scope_by_id r
                    \<and> run_lease_expires_at r > now) (managed_runs s))
        then Inr (s, LinkRefused)
        else
          let codex = (if la_agent input = Codex then
                (case adoption_candidates now s input of
                   [only] \<Rightarrow> link_selected env now s input boundary native only (LinkAdopted only)
                 | [] \<Rightarrow> Inr (s, LinkNoMatch)
                 | _ \<Rightarrow> Inr (s, LinkAmbiguous))
              else Inr (s, LinkNoMatch))
          in case read_boundary s (la_supplied input) of
               Some run \<Rightarrow>
                 if br_state run = RunActive then
                   if admits run (la_workspace input) (la_project input) (Some (la_cwd input)) (la_owner input)
                      \<and> br_agent run = as_str (la_agent input)
                   then link_selected env now s input boundary native (la_supplied input) (LinkExact (la_supplied input))
                   else Inr (s, LinkRefused)
                 else codex
             | None \<Rightarrow> codex)"

definition link_native_session_in_scope ::
  "native_env \<Rightarrow> int \<Rightarrow> store \<Rightarrow> link_in_scope_input \<Rightarrow> (store \<times> managed_run_session_link) store_result" where
  "link_native_session_in_scope env now s input =
     (if \<not> owner_key_ok (ls_owner input) then Inr (s, LinkRefused)
      else case native_identity_parse (builtin_scrub env) (ls_native input) of
        Inl _ \<Rightarrow> Inr (s, LinkNoMatch)
      | Inr native \<Rightarrow>
        (case read_boundary s (ls_run input) of
           None \<Rightarrow> Inr (s, LinkNoMatch)
         | Some run \<Rightarrow>
             if br_state run \<noteq> RunActive then Inr (s, LinkNoMatch)
             else if \<not> admits run (ls_workspace input) (ls_project input) None (ls_owner input)
             then Inr (s, if br_native run = Some native then LinkNoMatch else LinkRefused)
             else and_then
               (link_native_session_in_transaction env now s (ls_run input) (ls_agent input) native BoundaryOther)
               (\<lambda>(s', linked). Inr (s', if linked then LinkExact (ls_run input) else LinkNoMatch))))"

section \<open>Claiming the context\<close>

definition accept_context_in_transaction :: "int \<Rightarrow> store \<Rightarrow> uuid \<Rightarrow> bool \<Rightarrow> store \<times> bool" where
  "accept_context_in_transaction now s rid require_undelivered =
     (case find (\<lambda>r. run_id r = rid \<and> run_state r = RunActive
                   \<and> (\<not> require_undelivered \<or> \<not> run_context_delivered r)) (managed_runs s) of
        None \<Rightarrow> (s, False)
      | Some run \<Rightarrow>
          let s1 = s\<lparr>managed_runs := update_where (\<lambda>r. run_id r = rid)
                 (\<lambda>r. r\<lparr>run_context_delivered := True, run_lease_expires_at := now + lease_micros\<rparr>)
                 (managed_runs s)\<rparr>
          in (case run_native_session run of
                None \<Rightarrow> s1
              | Some native \<Rightarrow> s1\<lparr>native_sessions := update_where
                  (\<lambda>n. nss_workstream n = run_workstream run \<and> nss_agent_kind n = run_agent_kind run
                     \<and> nss_session n = native)
                  (\<lambda>n. n\<lparr>nss_delivery_cursor := max (nss_delivery_cursor n) (run_sync_through run),
                         nss_updated_at := now\<rparr>) (native_sessions s1)\<rparr>, True))"

definition accept_context :: "int \<Rightarrow> store \<Rightarrow> uuid \<Rightarrow> store \<times> bool" where
  "accept_context now s rid = accept_context_in_transaction now s rid False"

definition claim_context_in_transaction :: "int \<Rightarrow> store \<Rightarrow> uuid \<Rightarrow> store \<times> bool" where
  "claim_context_in_transaction now s rid = accept_context_in_transaction now s rid True"

section \<open>Lemmas\<close>

subsection \<open>The native-session table\<close>

lemma native_key_update [simp]:
  "native_key (n\<lparr>nss_is_current := b, nss_updated_at := t\<rparr>) = native_key n"
  "native_key (n\<lparr>nss_is_current := b, nss_delivery_cursor := d, nss_updated_at := t\<rparr>) = native_key n"
  by (simp_all add: native_key_def)

lemma native_slot_of_key: "native_key n = native_key m \<Longrightarrow> native_slot n = native_slot m"
  by (simp add: native_key_def native_slot_def)

lemma natives_ok_update:
  assumes "natives_ok ns" "\<And>n. P n \<Longrightarrow> native_key (f n) = native_key n"
    and "\<And>n. P n \<Longrightarrow> nss_is_current (f n) \<Longrightarrow> nss_is_current n"
  shows "natives_ok (update_where P f ns)"
  unfolding natives_ok_def
proof
  show "unique_on (\<lambda>_. True) native_key (update_where P f ns)"
    using assms(1,2) by (intro unique_on_update_where) (simp_all add: natives_ok_def)
  show "unique_on nss_is_current native_slot (update_where P f ns)"
  proof (rule unique_on_update_where)
    show "unique_on nss_is_current native_slot ns" using assms(1) by (simp add: natives_ok_def)
    show "nss_is_current n \<and> native_slot (f n) = native_slot n" if "P n" "nss_is_current (f n)" for n
      using assms(2,3)[OF that(1)] that(2) by (simp add: native_slot_of_key[of "f n" n])
  qed
qed

lemma retire_natives_ok: "natives_ok ns \<Longrightarrow> natives_ok (retire_natives now w agent native ns)"
  unfolding retire_natives_def by (rule natives_ok_update) auto

lemma retire_natives_current:
  assumes "n \<in> set (retire_natives now w agent native ns)" "nss_is_current n"
    "nss_workstream n = w" "nss_agent_kind n = agent"
  shows "nss_session n = native"
proof -
  from assms(1) obtain m where "n = (if nss_workstream m = w \<and> nss_agent_kind m = agent \<and> nss_session m \<noteq> native
      then m\<lparr>nss_is_current := False, nss_updated_at := now\<rparr> else m)"
    by (auto simp only: retire_natives_def set_update_where image_iff)
  with assms(2-4) show ?thesis by (simp split: if_splits)
qed

lemma retire_natives_rows:
  assumes "n \<in> set (retire_natives now w agent native ns)"
  obtains m where "m \<in> set ns" "native_key n = native_key m" "nss_delivery_cursor n = nss_delivery_cursor m"
proof -
  from assms obtain m where m: "m \<in> set ns"
    "n = (if nss_workstream m = w \<and> nss_agent_kind m = agent \<and> nss_session m \<noteq> native
      then m\<lparr>nss_is_current := False, nss_updated_at := now\<rparr> else m)"
    by (auto simp only: retire_natives_def set_update_where image_iff)
  then show thesis by (intro that[of m]) simp_all
qed

text \<open>The rows of the upserted table: the old ones, one of them possibly updated, or the new one.\<close>

lemma upserted_rows:
  assumes "n \<in> set (upserted row upd ns)"
  shows "n = row \<or> n \<in> set ns \<or> (\<exists>m \<in> set ns. n = upd m \<and> native_key m = native_key row)"
proof (cases "exists_row (\<lambda>n. native_key n = native_key row) ns")
  case True
  with assms have "n \<in> (\<lambda>r. if native_key r = native_key row then upd r else r) ` set ns"
    by (simp add: upserted_def set_update_where)
  then obtain m where "m \<in> set ns" "n = (if native_key m = native_key row then upd m else m)"
    unfolding image_iff by blast
  then show ?thesis by (cases "native_key m = native_key row") auto
qed (use assms in \<open>simp add: upserted_def\<close>)

lemma upserted_keeps:
  assumes "m \<in> set ns" "\<And>n. native_key (upd n) = native_key n"
  shows "\<exists>n \<in> set (upserted row upd ns). native_key n = native_key m \<and> (n = m \<or> n = upd m)"
proof (cases "exists_row (\<lambda>n. native_key n = native_key row) ns")
  case True
  have "(if native_key m = native_key row then upd m else m)
      \<in> (\<lambda>r. if native_key r = native_key row then upd r else r) ` set ns"
    using assms(1) by (rule imageI)
  then have "(if native_key m = native_key row then upd m else m) \<in> set (upserted row upd ns)"
    using True by (simp add: upserted_def set_update_where)
  then show ?thesis using assms(2)
    by (intro bexI[of _ "if native_key m = native_key row then upd m else m"]) simp_all
qed (use assms(1) in \<open>auto simp: upserted_def\<close>)

lemma upserted_has:
  assumes "\<And>n. native_key (upd n) = native_key n"
  shows "\<exists>n \<in> set (upserted row upd ns). native_key n = native_key row \<and> (n = row \<or> (\<exists>m \<in> set ns. n = upd m))"
proof (cases "exists_row (\<lambda>n. native_key n = native_key row) ns")
  case True
  then obtain m where m: "m \<in> set ns" "native_key m = native_key row" by auto
  have "(if native_key m = native_key row then upd m else m)
      \<in> (\<lambda>r. if native_key r = native_key row then upd r else r) ` set ns"
    using m(1) by (rule imageI)
  then have "upd m \<in> set (upserted row upd ns)"
    using True m(2) by (simp add: upserted_def set_update_where)
  with m assms show ?thesis by metis
qed (auto simp: upserted_def)

text \<open>An upsert into a slot whose other sessions were retired satisfies the index.\<close>

lemma upserted_ok:
  assumes ok: "natives_ok ns" and upd: "\<And>n. native_key (upd n) = native_key n"
    and slot: "\<And>n. n \<in> set ns \<Longrightarrow> nss_is_current n \<Longrightarrow> native_slot n = native_slot row \<Longrightarrow>
        native_key n = native_key row"
  shows "natives_ok (upserted row upd ns)"
  unfolding natives_ok_def
proof
  let ?K = "\<lambda>n. native_key n = native_key row"
  show key: "unique_on (\<lambda>_. True) native_key (upserted row upd ns)"
  proof (cases "exists_row ?K ns")
    case True
    have "unique_on (\<lambda>_. True) native_key (update_where ?K upd ns)"
      using ok upd by (intro unique_on_update_where) (auto simp: natives_ok_def)
    with True show ?thesis by (simp add: upserted_def)
  next
    case False
    with ok show ?thesis by (auto simp: upserted_def natives_ok_def unique_on_append1)
  qed
  have same: "?K n" if "n \<in> set (upserted row upd ns)" "nss_is_current n" "native_slot n = native_slot row" for n
    using upserted_rows[OF that(1)] slot that(2,3) upd by auto
  show "unique_on nss_is_current native_slot (upserted row upd ns)"
    using key
  proof (rule unique_on_via_key)
    fix n m assume n: "n \<in> set (upserted row upd ns)" "nss_is_current n"
      and m: "m \<in> set (upserted row upd ns)" "nss_is_current m" and eq: "native_slot n = native_slot m"
    show "native_key n = native_key m"
    proof (cases "native_slot n = native_slot row")
      case True
      with same n m eq show ?thesis by metis
    next
      case False
      then have "\<not> ?K n" "\<not> ?K m" using eq by (auto dest: native_slot_of_key)
      then have "n \<in> set ns" "m \<in> set ns" using upserted_rows[OF n(1)] upserted_rows[OF m(1)] upd by auto
      then show ?thesis using ok n(2) m(2) eq by (auto simp: natives_ok_def dest: unique_onD)
    qed
  qed
qed

lemma upsert_native_ok:
  assumes "natives_ok (native_sessions s)" "\<And>n. native_key (upd n) = native_key n"
    and "\<And>n. n \<in> set (native_sessions s) \<Longrightarrow> nss_is_current n \<Longrightarrow> native_slot n = native_slot row \<Longrightarrow>
        native_key n = native_key row"
    and "nss_workstream row \<in> wst_id ` set (workstreams s)"
  shows "upsert_native s row upd = Inr (s\<lparr>native_sessions := upserted row upd (native_sessions s)\<rparr>)"
proof -
  have "natives_ok (upserted row upd (native_sessions s))" using assms(1-3) by (rule upserted_ok)
  then show ?thesis using assms(4) by (simp add: upsert_native_def natives_ok_def)
qed

subsection \<open>Making a session the current one\<close>

text \<open>
  Both writers of the table first retire the other sessions of the slot and then upsert the new
  current one. \<open>promote\<close> is that composition; it never fails, keeps the table invariant and never
  lowers a delivery cursor.
\<close>

definition promote :: "int \<Rightarrow> native_row \<Rightarrow> (native_row \<Rightarrow> native_row) \<Rightarrow> native_row list \<Rightarrow> native_row list" where
  "promote now row upd ns =
     upserted row upd (retire_natives now (nss_workstream row) (nss_agent_kind row) (nss_session row) ns)"

lemma promote_ok:
  assumes "natives_ok ns" "\<And>n. native_key (upd n) = native_key n"
  shows "natives_ok (promote now row upd ns)"
  unfolding promote_def
proof (rule upserted_ok)
  let ?r = "retire_natives now (nss_workstream row) (nss_agent_kind row) (nss_session row) ns"
  show "natives_ok ?r" using assms(1) by (rule retire_natives_ok)
  show "native_key n = native_key row" if "n \<in> set ?r" "nss_is_current n" "native_slot n = native_slot row" for n
    using retire_natives_current[OF that(1,2)] that(3) by (simp add: native_key_def native_slot_def)
qed (rule assms(2))

lemma upsert_after_retire:
  assumes "natives_ok (native_sessions s)" "\<And>n. native_key (upd n) = native_key n"
    and "nss_workstream row \<in> wst_id ` set (workstreams s)"
  shows "upsert_native (s\<lparr>native_sessions :=
      retire_natives now (nss_workstream row) (nss_agent_kind row) (nss_session row) (native_sessions s)\<rparr>) row upd
    = Inr (s\<lparr>native_sessions := promote now row upd (native_sessions s)\<rparr>)"
proof -
  have "natives_ok (promote now row upd (native_sessions s))" using assms(1,2) by (rule promote_ok)
  then show ?thesis using assms(3) by (simp add: upsert_native_def promote_def natives_ok_def)
qed

lemma promote_rows:
  assumes "n \<in> set (promote now row upd ns)"
  shows "n = row
    \<or> (\<exists>m \<in> set ns. native_key n = native_key m \<and> nss_delivery_cursor n = nss_delivery_cursor m)
    \<or> (\<exists>m k. m \<in> set ns \<and> native_key k = native_key m \<and> nss_delivery_cursor k = nss_delivery_cursor m
         \<and> n = upd k \<and> native_key k = native_key row)"
proof -
  let ?r = "retire_natives now (nss_workstream row) (nss_agent_kind row) (nss_session row) ns"
  from assms have "n = row \<or> n \<in> set ?r \<or> (\<exists>k \<in> set ?r. n = upd k \<and> native_key k = native_key row)"
    unfolding promote_def by (rule upserted_rows)
  then show ?thesis by (metis retire_natives_rows)
qed

lemma promote_keeps:
  assumes "m \<in> set ns" "\<And>n. native_key (upd n) = native_key n"
    and "\<And>n. nss_delivery_cursor n \<le> nss_delivery_cursor (upd n)"
  shows "\<exists>n \<in> set (promote now row upd ns). native_key n = native_key m
    \<and> nss_delivery_cursor m \<le> nss_delivery_cursor n"
proof -
  let ?P = "\<lambda>n. nss_workstream n = nss_workstream row \<and> nss_agent_kind n = nss_agent_kind row
      \<and> nss_session n \<noteq> nss_session row"
  define k where "k = (if ?P m then m\<lparr>nss_is_current := False, nss_updated_at := now\<rparr> else m)"
  have k: "native_key k = native_key m" "nss_delivery_cursor k = nss_delivery_cursor m"
    by (simp_all add: k_def)
  have "k \<in> set (retire_natives now (nss_workstream row) (nss_agent_kind row) (nss_session row) ns)"
    unfolding retire_natives_def set_update_where k_def by (rule imageI[OF assms(1)])
  from upserted_keeps[of k _ upd row, OF this assms(2)] show ?thesis
    unfolding promote_def using k assms(3)[of k] by auto
qed

lemma promote_has:
  assumes "\<And>n. native_key (upd n) = native_key n"
  shows "\<exists>n \<in> set (promote now row upd ns). native_key n = native_key row \<and> (n = row \<or> (\<exists>m. n = upd m))"
  using upserted_has[of upd row] assms unfolding promote_def by blast

subsection \<open>Binding a session to a run\<close>

lemma link_simps [simp]:
  "nss_workstream (link_row now run agent native d) = run_workstream run"
  "nss_agent_kind (link_row now run agent native d) = as_str agent"
  "nss_session (link_row now run agent native d) = native"
  "nss_is_current (link_row now run agent native d)"
  "nss_delivery_cursor (link_row now run agent native d) = d"
  "native_key (link_conflict now d n) = native_key n"
  "nss_is_current (link_conflict now d n)"
  "nss_delivery_cursor (link_conflict now d n) = max (nss_delivery_cursor n) d"
  "run_id (link_run now native d r) = run_id r"
  "run_workstream (link_run now native d r) = run_workstream r"
  "run_state (link_run now native d r) = run_state r"
  "run_sync_after (link_run now native d r) = d"
  "run_sync_through (link_run now native d r) = run_sync_through r"
  "run_context_delivered (link_run now native d r) = run_context_delivered r"
  "run_owner_user (link_run now native d r) = run_owner_user r"
  by (simp_all add: link_row_def link_conflict_def link_run_def native_key_def)

text \<open>The delivery cursor a binding starts from.\<close>

definition bind_delivery :: "int \<Rightarrow> store \<Rightarrow> run_row \<Rightarrow> agent_kind \<Rightarrow> ustr \<Rightarrow> int" where
  "bind_delivery now s run agent native =
     initial_delivery (retire_natives now (run_workstream run) (as_str agent) native (native_sessions s))
       run (as_str agent) native"

lemma cursor_in_max: "cursor_in es w a \<Longrightarrow> cursor_in es w b \<Longrightarrow> cursor_in es w (max a b)"
  by (simp add: cursor_in_def max_def)

lemma bind_delivery_cursor:
  assumes "ws_inv s" "run \<in> set (managed_runs s)"
  shows "cursor_in (workstream_events s) (run_workstream run) (bind_delivery now s run agent native)"
proof -
  let ?ns = "retire_natives now (run_workstream run) (as_str agent) native (native_sessions s)"
  let ?P = "\<lambda>n. nss_workstream n = run_workstream run \<and> nss_agent_kind n = as_str agent \<and> nss_session n = native"
  have run: "cursor_in (workstream_events s) (run_workstream run) (run_sync_through run)"
    using assms by (simp add: ws_inv_def run_cursors_ok_def)
  show ?thesis
  proof (cases "find ?P ?ns")
    case None
    with run show ?thesis by (simp add: bind_delivery_def initial_delivery_def cursor_in_def)
  next
    case (Some n)
    then have n: "n \<in> set ?ns" "nss_workstream n = run_workstream run" using find_SomeD[OF Some] by simp_all
    from n(1) obtain m where m: "m \<in> set (native_sessions s)" "native_key n = native_key m"
      "nss_delivery_cursor n = nss_delivery_cursor m" by (rule retire_natives_rows)
    have "cursor_in (workstream_events s) (nss_workstream m) (nss_delivery_cursor m)"
      using assms(1) m(1) by (simp add: ws_inv_def native_cursors_ok_def)
    then show ?thesis using Some m(2,3) n(2) by (simp add: bind_delivery_def initial_delivery_def native_key_def)
  qed
qed

lemma promote_cursors:
  assumes "native_cursors_ok es ns" "cursor_in es (nss_workstream row) (nss_delivery_cursor row)"
    and "\<And>n. native_key (upd n) = native_key n"
    and "\<And>n. nss_delivery_cursor (upd n) = max (nss_delivery_cursor n) (nss_delivery_cursor row)"
  shows "native_cursors_ok es (promote now row upd ns)"
  unfolding native_cursors_ok_def
proof
  fix n assume "n \<in> set (promote now row upd ns)"
  then consider "n = row" | m where "m \<in> set ns" "native_key n = native_key m" "nss_delivery_cursor n = nss_delivery_cursor m"
    | m k where "m \<in> set ns" "native_key k = native_key m" "nss_delivery_cursor k = nss_delivery_cursor m"
        "n = upd k" "native_key k = native_key row"
    using promote_rows by blast
  then show "cursor_in es (nss_workstream n) (nss_delivery_cursor n)"
  proof cases
    case 1 then show ?thesis using assms(2) by simp
  next
    case 2 then show ?thesis using assms(1) by (simp add: native_cursors_ok_def native_key_def)
  next
    case 3
    have "native_key n = native_key row" using 3(4,5) assms(3) by simp
    then have "nss_workstream n = nss_workstream row" "nss_workstream m = nss_workstream row"
      using 3(2,5) by (simp_all add: native_key_def)
    moreover have "cursor_in es (nss_workstream m) (nss_delivery_cursor m)"
      using assms(1) 3(1) by (simp add: native_cursors_ok_def)
    ultimately show ?thesis using assms(2,4) 3(3,4) by (simp add: cursor_in_max)
  qed
qed

lemma bind_native_eq:
  assumes "ws_inv s" "run \<in> set (managed_runs s)"
  shows "bind_native now s run agent native = Inr (s\<lparr>
      native_sessions := promote now (link_row now run agent native (bind_delivery now s run agent native))
        (link_conflict now (bind_delivery now s run agent native)) (native_sessions s),
      managed_runs := update_where (\<lambda>r. run_id r = run_id run)
        (link_run now native (bind_delivery now s run agent native)) (managed_runs s)\<rparr>)"
proof -
  have fk: "run_workstream run \<in> wst_id ` set (workstreams s)"
    using assms by (auto simp: ws_inv_def runs_ok_def)
  have "natives_ok (native_sessions s)" using assms(1) by (simp add: ws_inv_def)
  from upsert_after_retire[OF this, of "link_conflict now (bind_delivery now s run agent native)"
      "link_row now run agent native (bind_delivery now s run agent native)" now] fk
  show ?thesis by (simp add: bind_native_def Let_def bind_delivery_def)
qed

lemma bind_native_inv:
  assumes "ws_inv s" "run \<in> set (managed_runs s)" "bind_native now s run agent native = Inr s'"
  shows "ws_inv s'"
proof -
  define d where "d = bind_delivery now s run agent native"
  have d: "cursor_in (workstream_events s) (run_workstream run) d"
    unfolding d_def using assms(1,2) by (rule bind_delivery_cursor)
  have s': "s' = s\<lparr>native_sessions := promote now (link_row now run agent native d) (link_conflict now d) (native_sessions s),
      managed_runs := update_where (\<lambda>r. run_id r = run_id run) (link_run now native d) (managed_runs s)\<rparr>"
    using assms(3) unfolding bind_native_eq[OF assms(1,2)] d_def by simp
  have inv: "names_ok (workstreams s)" "runs_ok (workstreams s) (managed_runs s)" "natives_ok (native_sessions s)"
    "ledger_ok (workstream_events s)" "native_cursors_ok (workstream_events s) (native_sessions s)"
    "run_cursors_ok (workstream_events s) (managed_runs s)"
    using assms(1) by (simp_all add: ws_inv_def)
  have same: "r = run" if "r \<in> set (managed_runs s)" "run_id r = run_id run" for r
    using inv(2) that assms(2) by (auto simp: runs_ok_def dest: unique_onD)
  have 1: "runs_ok (workstreams s) (update_where (\<lambda>r. run_id r = run_id run) (link_run now native d) (managed_runs s))"
    using inv(2) by (rule runs_ok_update) simp
  have 2: "run_cursors_ok (workstream_events s)
      (update_where (\<lambda>r. run_id r = run_id run) (link_run now native d) (managed_runs s))"
    using inv(6) d same unfolding run_cursors_ok_def ball_update_where by auto
  have 3: "natives_ok (promote now (link_row now run agent native d) (link_conflict now d) (native_sessions s))"
    using inv(3) by (rule promote_ok) simp
  have 4: "native_cursors_ok (workstream_events s)
      (promote now (link_row now run agent native d) (link_conflict now d) (native_sessions s))"
    using inv(5) d by (intro promote_cursors) simp_all
  show ?thesis unfolding s' ws_inv_def using inv(1,4) 1 2 3 4 by simp
qed

lemma link_tx_cases:
  assumes "ws_inv s"
  obtains "link_native_session_in_transaction env now s rid agent native boundary = Inr (s, False)"
  | run s' where "link_native_session_in_transaction env now s rid agent native boundary = Inr (s', True)"
      "run \<in> set (managed_runs s)" "run_id run = rid" "run_state run = RunActive"
      "link_admitted env s run agent native boundary" "bind_native now s run agent native = Inr s'"
proof (cases "find (\<lambda>r. run_id r = rid \<and> run_state r = RunActive) (managed_runs s)")
  case None
  then have "link_native_session_in_transaction env now s rid agent native boundary = Inr (s, False)"
    by (simp add: link_native_session_in_transaction_def)
  then show thesis by (rule that(1))
next
  case (Some run)
  then have run: "run \<in> set (managed_runs s)" "run_id run = rid" "run_state run = RunActive"
    using find_SomeD[OF Some] by simp_all
  show thesis
  proof (cases "link_admitted env s run agent native boundary")
    case True
    obtain s' where "bind_native now s run agent native = Inr s'"
      using bind_native_eq[OF assms run(1)] by blast
    with Some True run show thesis
      by (intro that(2)[of s' run]) (simp_all add: link_native_session_in_transaction_def)
  next
    case False
    with Some have "link_native_session_in_transaction env now s rid agent native boundary = Inr (s, False)"
      by (simp add: link_native_session_in_transaction_def)
    then show thesis by (rule that(1))
  qed
qed

lemma link_tx_inv:
  assumes "ws_inv s" "link_native_session_in_transaction env now s rid agent native boundary = Inr (s', b)"
  shows "ws_inv s'"
  by (rule link_tx_cases[OF assms(1), of env now rid agent native boundary])
    (use assms bind_native_inv in auto)

lemma link_tx_False:
  assumes "ws_inv s" "link_native_session_in_transaction env now s rid agent native boundary = Inr (s', False)"
  shows "s' = s"
  by (rule link_tx_cases[OF assms(1), of env now rid agent native boundary])
    (use assms(2) in auto)

lemma bind_native_current:
  assumes "ws_inv s" "run \<in> set (managed_runs s)" "bind_native now s run agent native = Inr s'"
  shows "map_option nss_session (current_native s' (run_workstream run) agent) = Some native"
    and "\<forall>m \<in> set (native_sessions s). \<exists>n \<in> set (native_sessions s'). native_key n = native_key m
           \<and> nss_delivery_cursor m \<le> nss_delivery_cursor n"
proof -
  define d where "d = bind_delivery now s run agent native"
  let ?row = "link_row now run agent native d"
  have ns: "native_sessions s' = promote now ?row (link_conflict now d) (native_sessions s)"
    using assms(3) unfolding bind_native_eq[OF assms(1,2)] d_def by auto
  show "\<forall>m \<in> set (native_sessions s). \<exists>n \<in> set (native_sessions s'). native_key n = native_key m
           \<and> nss_delivery_cursor m \<le> nss_delivery_cursor n"
    unfolding ns by (intro ballI promote_keeps) simp_all
  obtain n where n: "n \<in> set (native_sessions s')" "native_key n = native_key ?row" "nss_is_current n"
    using promote_has[of "link_conflict now d" now ?row "native_sessions s"] unfolding ns by auto
  let ?P = "\<lambda>n. nss_workstream n = run_workstream run \<and> nss_agent_kind n = as_str agent \<and> nss_is_current n"
  have P: "?P n" "nss_session n = native" using n(2,3) by (simp_all add: native_key_def)
  obtain m where m: "find ?P (native_sessions s') = Some m"
    using n(1) P(1) by (cases "find ?P (native_sessions s')") (auto simp: find_None_iff)
  have "natives_ok (native_sessions s')" using bind_native_inv[OF assms] by (simp add: ws_inv_def)
  moreover have "native_slot m = native_slot n" using find_SomeD[OF m] P(1) by (simp add: native_slot_def)
  ultimately have "m = n"
    using find_SomeD[OF m] n(1,3) unique_onD[of nss_is_current native_slot "native_sessions s'" m n]
    by (simp add: natives_ok_def)
  then show "map_option nss_session (current_native s' (run_workstream run) agent) = Some native"
    using m P(2) by (simp add: current_native_def)
qed

lemma find_active_run:
  assumes "ws_inv s" "run \<in> set (managed_runs s)" "run_state run = RunActive"
  shows "find (\<lambda>r. run_id r = run_id run \<and> run_state r = RunActive) (managed_runs s) = Some run"
    and "find_run s (run_id run) = Some run"
proof -
  have u: "unique_on (\<lambda>_. True) run_id (managed_runs s)" using assms(1) by (simp add: ws_inv_def runs_ok_def)
  then show f: "find_run s (run_id run) = Some run" using assms(2) by (rule find_unique)
  obtain m where m: "find (\<lambda>r. run_id r = run_id run \<and> run_state r = RunActive) (managed_runs s) = Some m"
    using assms(2,3)
    by (cases "find (\<lambda>r. run_id r = run_id run \<and> run_state r = RunActive) (managed_runs s)") (auto simp: find_None_iff)
  have "m = run" using find_SomeD[OF m] u assms(2) by (auto dest: unique_onD)
  with m show "find (\<lambda>r. run_id r = run_id run \<and> run_state r = RunActive) (managed_runs s) = Some run" by simp
qed

subsection \<open>Concrete stores for the properties\<close>

definition demo_env :: native_env where
  "demo_env = \<lparr>builtin_scrub = (\<lambda>x. x), parse_uuid = (\<lambda>_. None), new_v5_oid = (\<lambda>_. 77)\<rparr>"

definition demo_linked :: store where
  "demo_linked = fst (projr (link_native_session_in_transaction demo_env 2000 (fst demo_prepared) 20 ClaudeCode (lit ''n1'') BoundaryOther))"

lemma demo_linked_ok:
  "link_native_session_in_transaction demo_env 2000 (fst demo_prepared) 20 ClaudeCode (lit ''n1'') BoundaryOther
     = Inr (demo_linked, True)"
proof -
  have "\<not> isl (link_native_session_in_transaction demo_env 2000 (fst demo_prepared) 20 ClaudeCode (lit ''n1'') BoundaryOther)
    \<and> snd (projr (link_native_session_in_transaction demo_env 2000 (fst demo_prepared) 20 ClaudeCode (lit ''n1'') BoundaryOther))"
    by code_simp
  then show ?thesis unfolding demo_linked_def by (intro Inr_fst_projr) simp_all
qed

lemma demo_parse: "native_identity_parse (builtin_scrub demo_env) (lit ''n1'') = Inr (lit ''n1'')"
  by (simp add: native_identity_parse_def demo_env_def lit_def trim_eq_Nil_iff is_whitespace_def is_control_def
      is_invisible_def utf8_len_def prefix_def)

lemma demo_trims: "trim (lit ''n1'') \<noteq> []" "trim (lit ''/w'') \<noteq> []"
  by (simp_all add: lit_def trim_eq_Nil_iff is_whitespace_def)

lemma demo_boundary: "read_boundary (fst demo_prepared) 20 = Some
    \<lparr>br_state = RunActive, br_workspace = 1, br_project = 2, br_cwd = lit ''/w'', br_agent = as_str ClaudeCode,
     br_owner = None, br_native = None\<rparr>"
  by code_simp

lemma demo_linked_inv: "ws_inv demo_linked"
  by (rule link_tx_inv[OF demo_prepared_inv demo_linked_ok])

section \<open>Properties of linking\<close>

text \<open>
  Linking is total and exact: it never runs into the one-current-session index or a foreign key,
  keeps the invariant, changes nothing when it answers \<^verbatim>\<open>false\<close>, and when it answers \<^verbatim>\<open>true\<close> the
  reported session is the current one of the run's workstream and harness and no delivery cursor of
  any session has moved back.
\<close>

theorem link_total:
  assumes "ws_inv s"
  shows "\<exists>s' linked. link_native_session_in_transaction env now s rid agent native boundary = Inr (s', linked)
    \<and> ws_inv s'
    \<and> (if linked
       then (\<exists>run \<in> set (managed_runs s). run_id run = rid \<and> run_state run = RunActive
              \<and> map_option nss_session (current_native s' (run_workstream run) agent) = Some native)
          \<and> (\<forall>m \<in> set (native_sessions s). \<exists>n \<in> set (native_sessions s'). native_key n = native_key m
              \<and> nss_delivery_cursor m \<le> nss_delivery_cursor n)
       else s' = s)"
proof (rule link_tx_cases[OF assms, of env now rid agent native boundary])
  assume "link_native_session_in_transaction env now s rid agent native boundary = Inr (s, False)"
  with assms show ?thesis by auto
next
  fix run s'
  assume l: "link_native_session_in_transaction env now s rid agent native boundary = Inr (s', True)"
    and r: "run \<in> set (managed_runs s)" "run_id run = rid" "run_state run = RunActive"
    and b: "bind_native now s run agent native = Inr s'"
  have "ws_inv s'" using assms r(1) b by (rule bind_native_inv)
  with l r bind_native_current[OF assms r(1) b] show ?thesis by auto
qed

theorem link_total_witness:
  "ws_inv demo_linked \<and> map_option nss_session (current_native demo_linked 10 ClaudeCode) = Some (lit ''n1'')"
proof -
  have "list_all (\<lambda>r. run_workstream r = 10) (managed_runs (fst demo_prepared))" by code_simp
  then show ?thesis
    using link_total[OF demo_prepared_inv, of demo_env 2000 20 ClaudeCode "lit ''n1''" BoundaryOther]
    by (auto simp: demo_linked_ok list_all_iff)
qed

text \<open>
  A linked run is repointed only at a documented Claude Code boundary: if a link succeeds although
  the run already holds (after delivery or an earlier link) another native session, then the run is
  ID-selected, the harness is Claude Code, and either the boundary is \<^verbatim>\<open>/clear\<close> and the new session was
  never seen by any workstream, or it is \<^verbatim>\<open>/resume\<close>, this workstream held the session before and no
  other active run holds it.
\<close>

theorem relink_only_at_boundary:
  assumes "ws_inv s" "run \<in> set (managed_runs s)" "run_state run = RunActive"
    and "run_context_delivered run \<or> run_linked_at run \<noteq> None"
    and "run_native_session run = Some held" "held \<noteq> native"
    and "link_native_session_in_transaction env now s (run_id run) agent native boundary = Inr (s', True)"
  shows "run_scope_by_id run \<and> agent = ClaudeCode \<and> run_agent_kind run = as_str ClaudeCode
    \<and> ((boundary = BoundaryClear
         \<and> (\<forall>n \<in> set (native_sessions s). \<not> (nss_agent_kind n = as_str ClaudeCode \<and> nss_session n = native)))
     \<or> (boundary = BoundaryResume
         \<and> (\<exists>n \<in> set (native_sessions s). native_key n = (run_workstream run, as_str ClaudeCode, native))
         \<and> (\<forall>r \<in> set (managed_runs s). run_id r \<noteq> run_id run \<and> run_state r = RunActive
              \<and> run_agent_kind r = as_str ClaudeCode \<longrightarrow> run_native_session r \<noteq> Some native)))"
proof -
  have "link_admitted env s run agent native boundary"
    using assms(7) find_active_run(1)[OF assms(1-3)]
    by (simp add: link_native_session_in_transaction_def split: if_splits)
  moreover have "repoints run native" using assms(4-6) by (simp add: repoints_def)
  ultimately have a: "run_agent_kind run = as_str agent" "boundary \<noteq> BoundaryOther" "run_scope_by_id run"
    "agent = ClaudeCode" "repoint_admitted s run agent native boundary"
    by (auto simp: link_admitted_def)
  show ?thesis
  proof (cases boundary)
    case BoundaryClear
    with a show ?thesis by (simp add: repoint_admitted_def)
  next
    case BoundaryResume
    with a show ?thesis by (auto simp: repoint_admitted_def native_key_def)
  qed (use a in simp)
qed

theorem relink_only_at_boundary_witness:
  "\<exists>s'. link_native_session_in_transaction demo_env 3000 demo_linked 20 ClaudeCode (lit ''n2'') BoundaryClear = Inr (s', True)
     \<and> (\<forall>n \<in> set (native_sessions demo_linked). \<not> (nss_agent_kind n = as_str ClaudeCode \<and> nss_session n = lit ''n2''))"
proof -
  let ?r = "hd (managed_runs demo_linked)"
  let ?l = "link_native_session_in_transaction demo_env 3000 demo_linked 20 ClaudeCode (lit ''n2'') BoundaryClear"
  have r: "?r \<in> set (managed_runs demo_linked)" "run_state ?r = RunActive" "run_linked_at ?r \<noteq> None"
    "run_native_session ?r = Some (lit ''n1'')" "run_id ?r = 20" by code_simp+
  have "\<not> isl ?l \<and> snd (projr ?l)" by code_simp
  then have s': "?l = Inr (fst (projr ?l), True)" by (intro Inr_fst_projr) simp_all
  have ne: "lit ''n1'' \<noteq> lit ''n2''" by simp
  have l: "run_context_delivered ?r \<or> run_linked_at ?r \<noteq> None" using r(3) by simp
  from relink_only_at_boundary[OF demo_linked_inv r(1,2) l r(4) ne, of demo_env 3000 ClaudeCode BoundaryClear] s' r(5)
  show ?thesis by auto
qed

subsection \<open>Linking and adopting inside the boundary\<close>

lemma sort_key_singleton: "sort_key k xs = [y] \<Longrightarrow> xs = [y]"
proof -
  assume a: "sort_key k xs = [y]"
  have "length xs = Suc 0" using arg_cong[OF a, of length] by simp
  then obtain z where z: "xs = [z]" by (cases xs) auto
  show "xs = [y]" using a unfolding z sort_key_simps insort_key.simps .
qed

lemma adoption_candidates_one:
  assumes "adoption_candidates now s input = [only]"
  shows "\<exists>run. filter (adoptable now s input) (managed_runs s) = [run] \<and> run_id run = only"
proof -
  let ?xs = "sort_key (\<lambda>r. (- run_started_at r, - int (run_id r))) (filter (adoptable now s input) (managed_runs s))"
  from assms obtain y where y: "?xs = [y]" "run_id y = only"
    unfolding adoption_candidates_def by (cases ?xs; cases "tl ?xs") auto
  from sort_key_singleton[OF y(1)] y(2) show ?thesis by blast
qed

lemma link_selected_cases:
  assumes "ws_inv s" "link_selected env now s input boundary native rid outcome = Inr (s', out)"
  shows "(out = outcome \<and> link_native_session_in_transaction env now s rid (la_agent input) native boundary = Inr (s', True))
    \<or> (out = LinkRefused \<and> s' = s)"
  using assms link_tx_False[OF assms(1)]
  by (auto simp: link_selected_def and_then_Inr_iff split: if_splits)

lemma link_selected_inv:
  assumes "ws_inv s" "link_selected env now s input boundary native rid outcome = Inr (s', out)"
  shows "ws_inv s'"
  using link_selected_cases[OF assms] link_tx_inv[OF assms(1)] assms(1) by blast

lemma link_or_adopt_cases:
  assumes "link_or_adopt_native_session env now s input boundary = Inr (s', out)"
  obtains (unchanged) "s' = s" "out \<in> {LinkRefused, LinkNoMatch, LinkAmbiguous}"
  | (exact) native row where "native_identity_parse (builtin_scrub env) (la_native input) = Inr native"
      "read_boundary s (la_supplied input) = Some row" "br_state row = RunActive"
      "admits row (la_workspace input) (la_project input) (Some (la_cwd input)) (la_owner input)"
      "br_agent row = as_str (la_agent input)"
      "link_selected env now s input boundary native (la_supplied input) (LinkExact (la_supplied input)) = Inr (s', out)"
  | (adopted) native only where "native_identity_parse (builtin_scrub env) (la_native input) = Inr native"
      "\<And>row. read_boundary s (la_supplied input) = Some row \<Longrightarrow> br_state row \<noteq> RunActive"
      "la_agent input = Codex" "boundary = BoundaryOther" "adoption_candidates now s input = [only]"
      "link_selected env now s input boundary native only (LinkAdopted only) = Inr (s', out)"
  using assms unfolding link_or_adopt_native_session_def
  by (auto simp: Let_def split: if_splits sum.splits option.splits list.splits)

lemma link_or_adopt_inv:
  assumes "ws_inv s" "link_or_adopt_native_session env now s input boundary = Inr (s', out)"
  shows "ws_inv s'"
  using assms(2) by (cases rule: link_or_adopt_cases) (auto simp: assms(1) dest: link_selected_inv[OF assms(1)])

lemma link_in_scope_cases:
  assumes "link_native_session_in_scope env now s input = Inr (s', out)"
  obtains "s' = s"
  | native row linked where "native_identity_parse (builtin_scrub env) (ls_native input) = Inr native"
      "read_boundary s (ls_run input) = Some row" "br_state row = RunActive"
      "admits row (ls_workspace input) (ls_project input) None (ls_owner input)"
      "link_native_session_in_transaction env now s (ls_run input) (ls_agent input) native BoundaryOther = Inr (s', linked)"
      "out = (if linked then LinkExact (ls_run input) else LinkNoMatch)"
  using assms unfolding link_native_session_in_scope_def
  by (auto simp: and_then_Inr_iff split: if_splits sum.splits option.splits)

lemma link_in_scope_inv:
  assumes "ws_inv s" "link_native_session_in_scope env now s input = Inr (s', out)"
  shows "ws_inv s'"
  using assms(2) by (cases rule: link_in_scope_cases) (auto simp: assms(1) dest: link_tx_inv[OF assms(1)])

lemma link_native_session_inv:
  assumes "ws_inv s" "link_native_session env now s rid agent raw = Inr (s', b)"
  shows "ws_inv s'"
  using assms by (auto simp: link_native_session_def dest: link_tx_inv[OF assms(1)] split: sum.splits)

text \<open>
  A SessionStart binds only inside its boundary: \<^verbatim>\<open>Exact\<close> means the supplied run was active and its
  workspace, project, checkout, operator and harness are the request's; \<^verbatim>\<open>Adopted\<close> means a Codex hook
  whose supplied id was not an active run, and exactly one live, undelivered, never linked run of the
  same scope, checkout and operator existed, and it is that one. Every other answer leaves the store
  unchanged.
\<close>

theorem link_or_adopt_boundary:
  assumes "ws_inv s" "link_or_adopt_native_session env now s input boundary = Inr (s', out)"
  shows "case out of
      LinkExact r \<Rightarrow> r = la_supplied input \<and> (\<exists>row. read_boundary s r = Some row \<and> br_state row = RunActive
        \<and> br_workspace row = la_workspace input \<and> br_project row = la_project input \<and> br_cwd row = la_cwd input
        \<and> br_owner row = la_owner input \<and> br_agent row = as_str (la_agent input))
    | LinkAdopted r \<Rightarrow> la_agent input = Codex \<and> boundary = BoundaryOther
        \<and> (\<forall>row. read_boundary s (la_supplied input) = Some row \<longrightarrow> br_state row \<noteq> RunActive)
        \<and> (\<exists>run. filter (adoptable now s input) (managed_runs s) = [run] \<and> run_id run = r)
    | _ \<Rightarrow> s' = s"
  using assms(2)
proof (cases rule: link_or_adopt_cases)
  case unchanged
  then show ?thesis by auto
next
  case (exact native row)
  from link_selected_cases[OF assms(1) exact(6)] exact show ?thesis by (auto simp: admits_def)
next
  case (adopted native only)
  from link_selected_cases[OF assms(1) adopted(6)] adoption_candidates_one[OF adopted(5)] adopted
  show ?thesis by auto
qed

definition demo_link_input :: link_or_adopt_input where
  "demo_link_input = \<lparr>la_supplied = 20, la_workspace = 1, la_project = 2, la_cwd = lit ''/w'', la_agent = ClaudeCode,
     la_native = lit ''n1'', la_owner = None\<rparr>"

theorem link_or_adopt_boundary_witness:
  "\<exists>s'. link_or_adopt_native_session demo_env 2000 (fst demo_prepared) demo_link_input BoundaryOther = Inr (s', LinkExact 20)
     \<and> (\<exists>row. read_boundary (fst demo_prepared) 20 = Some row \<and> br_state row = RunActive \<and> br_owner row = None)"
proof -
  have s': "link_or_adopt_native_session demo_env 2000 (fst demo_prepared) demo_link_input BoundaryOther
      = Inr (demo_linked, LinkExact 20)"
    by (simp add: link_or_adopt_native_session_def demo_link_input_def demo_parse demo_trims demo_boundary
        admits_def owner_key_ok_def link_selected_def demo_linked_ok)
  from link_or_adopt_boundary[OF demo_prepared_inv s'] s' show ?thesis by (auto simp: demo_link_input_def)
qed

text \<open>
  A later hook event can only move the session of a run of its own scope and operator: if
  \<^verbatim>\<open>link_native_session_in_scope\<close> changed the store at all, the run was active and its workspace, project
  and owner are the caller's; a caller from another project or operator changes nothing.
\<close>

theorem link_in_scope_isolated:
  assumes "ws_inv s" "link_native_session_in_scope env now s input = Inr (s', out)" "s' \<noteq> s"
  shows "out = LinkExact (ls_run input) \<and> (\<exists>run w. find_run s (ls_run input) = Some run
    \<and> find_workstream s (run_workstream run) = Some w \<and> run_state run = RunActive
    \<and> run_agent_kind run = as_str (ls_agent input)
    \<and> run_owner_user run = ls_owner input \<and> wst_workspace w = ls_workspace input \<and> wst_project w = ls_project input)"
  using assms(2)
proof (cases rule: link_in_scope_cases)
  case 1
  with assms(3) show ?thesis by simp
next
  case (2 native row linked)
  have linked using link_tx_False[OF assms(1)] 2(5) assms(3) by (cases linked) auto
  from 2(2-4) obtain run w where rw: "find_run s (ls_run input) = Some run"
    "find_workstream s (run_workstream run) = Some w" "run_state run = RunActive"
    "run_owner_user run = ls_owner input" "wst_workspace w = ls_workspace input" "wst_project w = ls_project input"
    by (auto simp: read_boundary_def admits_def split: Option.bind_splits)
  have "run_id run = ls_run input" "run \<in> set (managed_runs s)" using find_SomeD[OF rw(1)] by simp_all
  then have "run_agent_kind run = as_str (ls_agent input)"
    using 2(5) find_active_run(1)[OF assms(1) _ rw(3)] \<open>linked\<close>
    by (auto simp: link_native_session_in_transaction_def link_admitted_def split: if_splits)
  with rw 2(6) \<open>linked\<close> show ?thesis by auto
qed

definition demo_scope_input :: link_in_scope_input where
  "demo_scope_input = \<lparr>ls_run = 20, ls_workspace = 1, ls_project = 2, ls_agent = ClaudeCode,
     ls_native = lit ''n1'', ls_owner = None\<rparr>"

theorem link_in_scope_isolated_witness:
  "\<exists>s' run w. link_native_session_in_scope demo_env 2000 (fst demo_prepared) demo_scope_input = Inr (s', LinkExact 20)
     \<and> find_run (fst demo_prepared) 20 = Some run \<and> run_owner_user run = None
     \<and> find_workstream (fst demo_prepared) (run_workstream run) = Some w \<and> wst_project w = 2"
proof -
  have s': "link_native_session_in_scope demo_env 2000 (fst demo_prepared) demo_scope_input
      = Inr (demo_linked, LinkExact 20)"
    by (simp add: link_native_session_in_scope_def demo_scope_input_def demo_parse demo_boundary
        admits_def owner_key_ok_def demo_linked_ok)
  have "length (native_sessions demo_linked) \<noteq> length (native_sessions (fst demo_prepared))" by code_simp
  then have "demo_linked \<noteq> fst demo_prepared" by auto
  from link_in_scope_isolated[OF demo_prepared_inv s' this] s' show ?thesis by (auto simp: demo_scope_input_def)
qed

subsection \<open>The context of a run\<close>

text \<open>The native-session table after the packet of \<open>run\<close> was delivered.\<close>

definition delivered_natives :: "int \<Rightarrow> run_row \<Rightarrow> native_row list \<Rightarrow> native_row list" where
  "delivered_natives now run ns =
     update_where (\<lambda>n. Some (nss_session n) = run_native_session run
        \<and> nss_workstream n = run_workstream run \<and> nss_agent_kind n = run_agent_kind run)
       (\<lambda>n. n\<lparr>nss_delivery_cursor := max (nss_delivery_cursor n) (run_sync_through run), nss_updated_at := now\<rparr>) ns"

definition delivered_runs :: "int \<Rightarrow> uuid \<Rightarrow> run_row list \<Rightarrow> run_row list" where
  "delivered_runs now rid =
     update_where (\<lambda>r. run_id r = rid)
       (\<lambda>r. r\<lparr>run_context_delivered := True, run_lease_expires_at := now + lease_micros\<rparr>)"

lemma accept_context_cases:
  assumes "accept_context_in_transaction now s rid req = (s', ok)"
  obtains "\<not> ok" "s' = s"
    "\<And>r. r \<in> set (managed_runs s) \<Longrightarrow> run_id r = rid \<Longrightarrow> run_state r = RunActive \<Longrightarrow> req \<and> run_context_delivered r"
  | run where "ok" "run \<in> set (managed_runs s)" "run_id run = rid" "run_state run = RunActive"
      "req \<Longrightarrow> \<not> run_context_delivered run"
      "s' = s\<lparr>managed_runs := delivered_runs now rid (managed_runs s),
               native_sessions := delivered_natives now run (native_sessions s)\<rparr>"
proof (cases "find (\<lambda>r. run_id r = rid \<and> run_state r = RunActive \<and> (\<not> req \<or> \<not> run_context_delivered r)) (managed_runs s)")
  case None
  have "accept_context_in_transaction now s rid req = (s, False)"
    unfolding accept_context_in_transaction_def None by simp
  moreover have "\<And>r. r \<in> set (managed_runs s) \<Longrightarrow> run_id r = rid \<Longrightarrow> run_state r = RunActive \<Longrightarrow>
      req \<and> run_context_delivered r"
    using None unfolding find_None_iff by blast
  ultimately show thesis using assms by (intro that(1)) simp_all
next
  case (Some run)
  note f = find_SomeD[OF Some]
  have "accept_context_in_transaction now s rid req = (s\<lparr>managed_runs := delivered_runs now rid (managed_runs s),
               native_sessions := delivered_natives now run (native_sessions s)\<rparr>, True)"
  proof (cases "run_native_session run")
    case None
    then have "delivered_natives now run (native_sessions s) = native_sessions s"
      unfolding delivered_natives_def by (intro update_where_none) simp
    with None show ?thesis unfolding accept_context_in_transaction_def Some by (simp add: delivered_runs_def)
  next
    case (Some native)
    then have "delivered_natives now run (native_sessions s) = update_where
        (\<lambda>n. nss_workstream n = run_workstream run \<and> nss_agent_kind n = run_agent_kind run \<and> nss_session n = native)
        (\<lambda>n. n\<lparr>nss_delivery_cursor := max (nss_delivery_cursor n) (run_sync_through run), nss_updated_at := now\<rparr>)
        (native_sessions s)"
      unfolding delivered_natives_def by (simp add: conj_ac)
    with Some show ?thesis unfolding accept_context_in_transaction_def
        \<open>find _ (managed_runs s) = Some run\<close> by (simp add: delivered_runs_def)
  qed
  with f assms show thesis by (intro that(2)[of run]) simp_all
qed

lemma delivered_inv:
  assumes "ws_inv s" "run \<in> set (managed_runs s)"
  shows "ws_inv (s\<lparr>managed_runs := delivered_runs now rid (managed_runs s),
               native_sessions := delivered_natives now run (native_sessions s)\<rparr>)"
proof -
  have inv: "natives_ok (native_sessions s)" "native_cursors_ok (workstream_events s) (native_sessions s)"
    "cursor_in (workstream_events s) (run_workstream run) (run_sync_through run)"
    using assms by (simp_all add: ws_inv_def run_cursors_ok_def)
  have 1: "natives_ok (delivered_natives now run (native_sessions s))"
    unfolding delivered_natives_def using inv(1) by (rule natives_ok_update) (simp_all add: native_key_def)
  have 2: "native_cursors_ok (workstream_events s) (delivered_natives now run (native_sessions s))"
    using inv(2,3) unfolding delivered_natives_def native_cursors_ok_def ball_update_where
    by (auto simp: cursor_in_max)
  have 3: "ws_inv (s\<lparr>managed_runs := delivered_runs now rid (managed_runs s)\<rparr>)"
    unfolding delivered_runs_def using assms(1) by (rule ws_inv_update_runs) simp
  show ?thesis using 1 2 3 by (simp add: ws_inv_def)
qed

lemma accept_context_inv:
  assumes "ws_inv s" "accept_context_in_transaction now s rid req = (s', ok)"
  shows "ws_inv s'"
  using assms(2)
proof (cases rule: accept_context_cases)
  case (2 run)
  then show ?thesis using delivered_inv[OF assms(1) 2(2)] by simp
qed (use assms(1) in simp)

text \<open>
  The context packet of a run is claimed at most once: a successful claim found the run active and
  undelivered and marks it delivered with a renewed lease; any later claim of it, at any time, answers
  \<^verbatim>\<open>false\<close> and changes nothing. A claim also acknowledges the packet: the delivery cursor of the
  session the run holds is then at least the end of the run's window.
\<close>

theorem claim_context_once:
  assumes "ws_inv s" "claim_context_in_transaction now s rid = (s', True)"
  shows "(\<exists>run. find_run s rid = Some run \<and> run_state run = RunActive \<and> \<not> run_context_delivered run
            \<and> (\<forall>n \<in> set (native_sessions s'). Some (nss_session n) = run_native_session run
                 \<and> nss_workstream n = run_workstream run \<and> nss_agent_kind n = run_agent_kind run
                 \<longrightarrow> run_sync_through run \<le> nss_delivery_cursor n))
    \<and> (\<exists>run'. find_run s' rid = Some run' \<and> run_context_delivered run'
            \<and> run_lease_expires_at run' = now + lease_micros)
    \<and> (\<forall>now'. claim_context_in_transaction now' s' rid = (s', False))
    \<and> ws_inv s'"
proof -
  have inv: "ws_inv s'" using accept_context_inv assms unfolding claim_context_in_transaction_def by blast
  from assms(2) obtain run where run: "run \<in> set (managed_runs s)" "run_id run = rid" "run_state run = RunActive"
    "\<not> run_context_delivered run"
    and s': "s' = s\<lparr>managed_runs := delivered_runs now rid (managed_runs s),
               native_sessions := delivered_natives now run (native_sessions s)\<rparr>"
    unfolding claim_context_in_transaction_def by (auto elim: accept_context_cases)
  have f: "find_run s rid = Some run" using find_active_run(2)[OF assms(1) run(1,3)] run(2) by simp
  have "\<forall>n \<in> set (native_sessions s'). Some (nss_session n) = run_native_session run
      \<and> nss_workstream n = run_workstream run \<and> nss_agent_kind n = run_agent_kind run
      \<longrightarrow> run_sync_through run \<le> nss_delivery_cursor n"
    unfolding s' delivered_natives_def by (auto simp: ball_update_where)
  moreover define run' where "run' = run\<lparr>run_context_delivered := True, run_lease_expires_at := now + lease_micros\<rparr>"
  have in': "run' \<in> set (managed_runs s')"
    using in_update_where[OF run(1), of "\<lambda>r. run_id r = rid"
        "\<lambda>r. r\<lparr>run_context_delivered := True, run_lease_expires_at := now + lease_micros\<rparr>"] run(2)
    by (simp add: s' delivered_runs_def run'_def)
  have u: "unique_on (\<lambda>_. True) run_id (managed_runs s')" using inv by (simp add: ws_inv_def runs_ok_def)
  have "run_id run' = rid" using run(2) by (simp add: run'_def)
  then have f': "find_run s' rid = Some run'" using find_unique[OF u in'] by simp
  have "claim_context_in_transaction now' s' rid = (s', False)" for now'
  proof -
    have "r = run'" if "r \<in> set (managed_runs s')" "run_id r = rid" for r
      using that in' u \<open>run_id run' = rid\<close> by (auto dest: unique_onD)
    then have "find (\<lambda>r. run_id r = rid \<and> run_state r = RunActive \<and> (\<not> True \<or> \<not> run_context_delivered r)) (managed_runs s') = None"
      unfolding find_None_iff run'_def by force
    then show ?thesis by (simp add: claim_context_in_transaction_def accept_context_in_transaction_def)
  qed
  ultimately show ?thesis using f f' run inv by (auto simp: run'_def)
qed

definition demo_claimed :: store where
  "demo_claimed = fst (claim_context_in_transaction 3000 demo_linked 20)"

theorem claim_context_once_witness:
  "claim_context_in_transaction 3000 demo_linked 20 = (demo_claimed, True)
   \<and> claim_context_in_transaction 4000 demo_claimed 20 = (demo_claimed, False)"
proof -
  have "snd (claim_context_in_transaction 3000 demo_linked 20)" by code_simp
  then have c: "claim_context_in_transaction 3000 demo_linked 20 = (demo_claimed, True)"
    by (simp add: demo_claimed_def prod_eq_iff)
  from claim_context_once[OF demo_linked_inv c] c show ?thesis by simp
qed

subsection \<open>From the pinned scope to the link\<close>

text \<open>
  The scope an ID-selected run supplies to a SessionStart hook is one the link then accepts: if
  \<^verbatim>\<open>pinned_hook_scope\<close> answers a scope, the run is ID-selected, active, unexpired, of the caller's harness
  and operator, and the scope is its workstream's; and linking in that scope at that moment is decided
  by \<open>link_admitted\<close> alone - it binds exactly that run or refuses, and never falls back to adoption.
\<close>

theorem pinned_scope_links:
  assumes "ws_inv s" "pinned_hook_scope env now s h = Inr (Some (workspace, project))" "hi_session_start h"
    and "hi_cwd h = Some cwd" "trim cwd \<noteq> []" "owner_key_ok (hi_owner h)"
    and "hi_boundary h \<noteq> BoundaryOther \<longrightarrow> hi_agent h = ClaudeCode"
  shows "\<exists>run s'. find_run s (hi_run h) = Some run \<and> run_scope_by_id run \<and> run_state run = RunActive
      \<and> now < run_lease_expires_at run \<and> run_owner_user run = hi_owner h \<and> run_agent_kind run = as_str (hi_agent h)
      \<and> link_or_adopt_native_session env now s
          \<lparr>la_supplied = hi_run h, la_workspace = workspace, la_project = project, la_cwd = cwd,
           la_agent = hi_agent h, la_native = hi_native h, la_owner = hi_owner h\<rparr> (hi_boundary h)
        = Inr (s', if link_admitted env s run (hi_agent h) (hi_native h) (hi_boundary h)
                   then LinkExact (hi_run h) else LinkRefused)"
proof -
  from assms(2) obtain run row where f: "find_run s (hi_run h) = Some run" "run_scope_by_id run"
    and row: "read_boundary s (hi_run h) = Some row" "br_state row = RunActive" "br_agent row = as_str (hi_agent h)"
      "br_owner row = hi_owner h" "hi_cwd h = Some (br_cwd row)" "workspace = br_workspace row" "project = br_project row"
    and live: "now < run_lease_expires_at run" and ok: "native_ok (builtin_scrub env) (hi_native h)"
    using assms(3)
    by (auto simp: pinned_hook_scope_def Let_def native_identity_parse_cases split: option.splits if_splits)
  from f(1) row have run: "run_state run = RunActive" "run_owner_user run = hi_owner h"
    "run_agent_kind run = as_str (hi_agent h)"
    by (auto simp: read_boundary_def split: Option.bind_splits)
  have mem: "run \<in> set (managed_runs s)" "run_id run = hi_run h" using find_SomeD[OF f(1)] by simp_all
  have fa: "find (\<lambda>r. run_id r = hi_run h \<and> run_state r = RunActive) (managed_runs s) = Some run"
    using find_active_run(1)[OF assms(1) mem(1) run(1)] mem(2) by simp
  have ne: "trim (hi_native h) \<noteq> []"
    using ok by (auto simp: native_ok_def native_identity_parse_def split: if_splits)
  have pin: "exists_row (\<lambda>r. run_id r = hi_run h \<and> run_state r = RunActive \<and> run_scope_by_id r
      \<and> run_lease_expires_at r > now) (managed_runs s)"
    using mem run(1) f(2) live by auto
  let ?in = "\<lparr>la_supplied = hi_run h, la_workspace = workspace, la_project = project, la_cwd = cwd,
           la_agent = hi_agent h, la_native = hi_native h, la_owner = hi_owner h\<rparr>"
  have "link_or_adopt_native_session env now s ?in (hi_boundary h)
      = link_selected env now s ?in (hi_boundary h) (hi_native h) (hi_run h) (LinkExact (hi_run h))"
    using ne ok assms(4-7) pin row
    by (auto simp: link_or_adopt_native_session_def native_identity_parse_cases admits_def Let_def)
  moreover obtain s' where "bind_native now s run (hi_agent h) (hi_native h) = Inr s'"
    using bind_native_eq[OF assms(1) mem(1)] by blast
  then have "\<exists>s'. link_selected env now s ?in (hi_boundary h) (hi_native h) (hi_run h) (LinkExact (hi_run h))
      = Inr (s', if link_admitted env s run (hi_agent h) (hi_native h) (hi_boundary h)
                 then LinkExact (hi_run h) else LinkRefused)"
    using fa by (simp add: link_selected_def link_native_session_in_transaction_def)
  ultimately show ?thesis using f live run by auto
qed

definition demo_hook :: hook_identity where
  "demo_hook = \<lparr>hi_run = 20, hi_agent = ClaudeCode, hi_cwd = Some (lit ''/w''), hi_native = lit ''n1'',
     hi_owner = None, hi_session_start = True, hi_boundary = BoundaryOther\<rparr>"

theorem pinned_scope_links_witness:
  "\<exists>run s'. find_run (fst demo_prepared) 20 = Some run \<and> run_scope_by_id run
     \<and> link_or_adopt_native_session demo_env 2000 (fst demo_prepared)
          \<lparr>la_supplied = 20, la_workspace = 1, la_project = 2, la_cwd = lit ''/w'',
           la_agent = ClaudeCode, la_native = lit ''n1'', la_owner = None\<rparr> BoundaryOther
        = Inr (s', if link_admitted demo_env (fst demo_prepared) run ClaudeCode (lit ''n1'') BoundaryOther
                   then LinkExact 20 else LinkRefused)"
proof -
  have pin: "map_option (\<lambda>r. (run_scope_by_id r, run_linked_at r, run_context_delivered r, run_lease_expires_at r))
      (find_run (fst demo_prepared) 20) = Some (True, None, False, 90001000)" by code_simp
  then have p: "pinned_hook_scope demo_env 2000 (fst demo_prepared) demo_hook = Inr (Some (1, 2))"
    by (auto simp: pinned_hook_scope_def demo_hook_def demo_parse demo_boundary)
  have c: "hi_cwd demo_hook = Some (lit ''/w'')" "hi_session_start demo_hook" "owner_key_ok (hi_owner demo_hook)"
    "hi_boundary demo_hook \<noteq> BoundaryOther \<longrightarrow> hi_agent demo_hook = ClaudeCode"
    by (simp_all add: demo_hook_def owner_key_ok_def)
  from pinned_scope_links[OF demo_prepared_inv p c(2) c(1) demo_trims(2) c(3,4)] show ?thesis
    by (auto simp: demo_hook_def)
qed

end
