(* ===== verification/Authz.thy ===== *)
theory Authz
  imports Schema
begin

text \<open>
  \<^verbatim>\<open>crates/ai-memory-store/src/project_authz.rs\<close>: the per-project authorization choke point. A
  project row, the caller's grant and the caller are resolved from the store into a
  \<open>project_authz\<close>, and \<open>authorize_project\<close> decides a read or a write. The read of
  \<^verbatim>\<open>project_grants\<close> can fail; \<open>grants_fault\<close> is that failure (\<open>None\<close> when the read succeeds), so the
  fail-closed branches are part of the model.
\<close>

datatype access_mode = ModeOpen | ModeRestricted

primrec access_mode_str :: "access_mode \<Rightarrow> ustr" where
  "access_mode_str ModeOpen = lit ''open''"
| "access_mode_str ModeRestricted = lit ''restricted''"

definition access_mode_from_db :: "ustr option \<Rightarrow> access_mode" where
  "access_mode_from_db value = (if value = Some (lit ''restricted'') then ModeRestricted else ModeOpen)"

datatype grant_level = GrantRead | GrantWrite

primrec grant_level_str :: "grant_level \<Rightarrow> ustr" where
  "grant_level_str GrantRead = lit ''read''"
| "grant_level_str GrantWrite = lit ''write''"

definition grant_level_from_db :: "ustr \<Rightarrow> grant_level option" where
  "grant_level_from_db value =
     (if value = lit ''read'' then Some GrantRead
      else if value = lit ''write'' then Some GrantWrite else None)"

datatype project_access = NeedRead | NeedWrite

record project_principal =
  pp_is_root :: bool
  pp_is_creator :: bool
  pp_user_id :: "uuid option"

definition principal_anonymous :: project_principal where
  "principal_anonymous = \<lparr>pp_is_root = False, pp_is_creator = False, pp_user_id = None\<rparr>"

definition principal_root :: project_principal where
  "principal_root = \<lparr>pp_is_root = True, pp_is_creator = False, pp_user_id = None\<rparr>"

definition principal_user :: "uuid \<Rightarrow> project_principal" where
  "principal_user u = \<lparr>pp_is_root = False, pp_is_creator = False, pp_user_id = Some u\<rparr>"

record project_authz =
  pa_distinguishes_operators :: bool
  pa_access_mode :: access_mode
  pa_is_root :: bool
  pa_is_creator :: bool
  pa_grant :: "grant_level option"
  pa_reserved_global :: bool

definition restricted_project_forbidden :: string where
  "restricted_project_forbidden = ''project access is restricted; root, the project creator, or a matching grant is required''"

definition global_scope_write_forbidden :: string where
  "global_scope_write_forbidden = ''the global scope is shared with every project; writing it requires root or a write grant on it''"

definition authorize_project :: "project_authz \<Rightarrow> project_access \<Rightarrow> authz_error + unit" where
  "authorize_project ctx need =
     (if \<not> pa_distinguishes_operators ctx then Inr ()
      else if pa_reserved_global ctx \<and> need = NeedWrite then
        (if pa_is_root ctx \<or> pa_grant ctx = Some GrantWrite then Inr ()
         else Inl (AuthzForbidden global_scope_write_forbidden))
      else case pa_access_mode ctx of
          ModeOpen \<Rightarrow> Inr ()
        | ModeRestricted \<Rightarrow>
            if pa_is_root ctx \<or> pa_is_creator ctx then Inr ()
            else
              (let admitted = (case need of NeedRead \<Rightarrow> pa_grant ctx \<noteq> None
                                          | NeedWrite \<Rightarrow> pa_grant ctx = Some GrantWrite)
               in if admitted then Inr () else Inl (AuthzForbidden restricted_project_forbidden)))"

section \<open>Resolution from the store\<close>

record authz_row =
  ar_access_mode :: access_mode
  ar_creator :: "uuid option"
  ar_reserved_global :: bool

definition is_reserved_global :: "ustr \<Rightarrow> ustr \<Rightarrow> bool" where
  "is_reserved_global workspace project \<longleftrightarrow>
     (workspace = lit ''default'' \<and> project = lit ''_global'') \<or> project = lit ''_profile''"

text \<open>The project row joined with its workspace; \<open>None\<close> is \<^verbatim>\<open>QueryReturnedNoRows\<close>.\<close>

definition joined_project :: "store \<Rightarrow> (project_row \<Rightarrow> bool) \<Rightarrow> (project_row \<times> workspace_row) option" where
  "joined_project s P =
     Option.bind (find P (projects s)) (\<lambda>p.
       map_option (Pair p) (find (\<lambda>w. wsp_id w = prj_workspace p) (workspaces s)))"

definition read_project_row :: "store \<Rightarrow> uuid \<Rightarrow> authz_row" where
  "read_project_row s project_id =
     (case joined_project s (\<lambda>p. prj_id p = project_id) of
        Some (p, w) \<Rightarrow> \<lparr>ar_access_mode = access_mode_from_db (Some (prj_access_mode p)),
          ar_creator = prj_created_by p, ar_reserved_global = is_reserved_global (wsp_name w) (prj_name p)\<rparr>
      | None \<Rightarrow> \<lparr>ar_access_mode = ModeOpen, ar_creator = None, ar_reserved_global = False\<rparr>)"

definition read_project_row_strict :: "store \<Rightarrow> uuid \<Rightarrow> uuid \<Rightarrow> authz_row store_result" where
  "read_project_row_strict s workspace_id project_id =
     (case joined_project s (\<lambda>p. prj_workspace p = workspace_id \<and> prj_id p = project_id) of
        None \<Rightarrow> Inl (Sqlite ''query returned no rows'')
      | Some (p, w) \<Rightarrow>
          and_then
            (if prj_access_mode p = lit ''open'' then Inr ModeOpen
             else if prj_access_mode p = lit ''restricted'' then Inr ModeRestricted
             else Inl (MalformedRecord ''unknown project access mode''))
            (\<lambda>mode. Inr \<lparr>ar_access_mode = mode, ar_creator = prj_created_by p,
               ar_reserved_global = is_reserved_global (wsp_name w) (prj_name p)\<rparr>))"

definition read_grant ::
  "store_error option \<Rightarrow> store \<Rightarrow> uuid \<Rightarrow> uuid \<Rightarrow> uuid \<Rightarrow> grant_level option store_result" where
  "read_grant grants_fault s workspace_id project_id user_id =
     (case grants_fault of
        Some e \<Rightarrow> Inl e
      | None \<Rightarrow> Inr (Option.bind
          (find (\<lambda>g. grt_workspace g = workspace_id \<and> grt_project g = project_id \<and> grt_user g = user_id)
             (project_grants s))
          (\<lambda>g. grant_level_from_db (grt_level g))))"

definition users_exist :: "store \<Rightarrow> bool" where
  "users_exist s \<longleftrightarrow> users s \<noteq> []"

datatype resolution = Compatible | Strict

text \<open>The project row, with the strict checks of the \<open>Strict\<close> arm.\<close>

definition resolve_row ::
  "store \<Rightarrow> uuid \<Rightarrow> uuid \<Rightarrow> project_principal \<Rightarrow> bool \<Rightarrow> resolution \<Rightarrow> (authz_row \<times> bool) store_result" where
  "resolve_row s workspace_id project_id caller distinguishes resolution =
     (case resolution of
        Compatible \<Rightarrow> Inr (read_project_row s project_id, distinguishes)
      | Strict \<Rightarrow>
          and_then (read_project_row_strict s workspace_id project_id) (\<lambda>row.
            case pp_user_id caller of
              Some user_id \<Rightarrow>
                if exists_row (\<lambda>u. usr_id u = user_id) (users s) then Inr (row, distinguishes \<or> users_exist s)
                else Inl (StoreForbidden ''authenticated user no longer exists'')
            | None \<Rightarrow> Inr (row, distinguishes \<or> users_exist s)))"

definition resolve_grant ::
  "store_error option \<Rightarrow> store \<Rightarrow> uuid \<Rightarrow> uuid \<Rightarrow> project_principal \<Rightarrow> resolution \<Rightarrow> authz_row
     \<Rightarrow> grant_level option store_result" where
  "resolve_grant grants_fault s workspace_id project_id caller resolution row =
     (if ar_reserved_global row \<or> ar_access_mode row = ModeRestricted then
        (case pp_user_id caller of
           Some user_id \<Rightarrow>
             (case read_grant grants_fault s workspace_id project_id user_id of
                Inr grant \<Rightarrow> Inr grant
              | Inl err \<Rightarrow>
                  if resolution = Strict then Inl err
                  else if ar_reserved_global row then Inr None
                  else Inl err)
         | None \<Rightarrow> Inr None)
      else Inr None)"

definition resolve ::
  "store_error option \<Rightarrow> store \<Rightarrow> uuid \<Rightarrow> uuid \<Rightarrow> project_principal \<Rightarrow> bool \<Rightarrow> resolution
     \<Rightarrow> project_authz store_result" where
  "resolve grants_fault s workspace_id project_id caller distinguishes resolution =
     and_then (resolve_row s workspace_id project_id caller distinguishes resolution)
       (\<lambda>(row, distinguishes').
        and_then (resolve_grant grants_fault s workspace_id project_id caller resolution row)
          (\<lambda>grant. Inr
            \<lparr>pa_distinguishes_operators = distinguishes',
             pa_access_mode = ar_access_mode row,
             pa_is_root = pp_is_root caller,
             pa_is_creator = (pp_is_creator caller
               \<or> (ar_creator row \<noteq> None \<and> ar_creator row = pp_user_id caller)),
             pa_grant = grant,
             pa_reserved_global = ar_reserved_global row\<rparr>))"

definition resolve_project_authz ::
  "store_error option \<Rightarrow> store \<Rightarrow> uuid \<Rightarrow> uuid \<Rightarrow> project_principal \<Rightarrow> bool \<Rightarrow> project_authz store_result" where
  "resolve_project_authz grants_fault s w p caller d = resolve grants_fault s w p caller d Compatible"

definition resolve_project_authz_strict ::
  "store_error option \<Rightarrow> store \<Rightarrow> uuid \<Rightarrow> uuid \<Rightarrow> project_principal \<Rightarrow> bool \<Rightarrow> project_authz store_result" where
  "resolve_project_authz_strict grants_fault s w p caller d = resolve grants_fault s w p caller d Strict"

section \<open>Lemmas\<close>

lemmas resolve_defs =
  resolve_def resolve_row_def resolve_grant_def read_grant_def read_project_row_strict_def

interpretation grant_wire: wire_codec grant_level_str grant_level_from_db "\<lambda>_. True"
proof
  fix g show "grant_level_from_db (grant_level_str g) = Some g"
    by (cases g) (simp_all add: grant_level_from_db_def)
qed

interpretation access_mode_wire: wire_codec access_mode_str "\<lambda>v. Some (access_mode_from_db (Some v))" "\<lambda>_. True"
proof
  fix m show "Some (access_mode_from_db (Some (access_mode_str m))) = Some m"
    by (cases m) (simp_all add: access_mode_from_db_def)
qed

lemma authorize_write_iff:
  "authorize_project ctx NeedWrite = Inr () \<longleftrightarrow>
     \<not> pa_distinguishes_operators ctx \<or> pa_is_root ctx \<or> pa_grant ctx = Some GrantWrite
     \<or> (\<not> pa_reserved_global ctx \<and> (pa_access_mode ctx = ModeOpen \<or> pa_is_creator ctx))"
  by (auto simp: authorize_project_def Let_def split: access_mode.splits)

lemma authorize_read_iff:
  "authorize_project ctx NeedRead = Inr () \<longleftrightarrow>
     \<not> pa_distinguishes_operators ctx \<or> pa_access_mode ctx = ModeOpen
     \<or> pa_is_root ctx \<or> pa_is_creator ctx \<or> pa_grant ctx \<noteq> None"
  by (auto simp: authorize_project_def Let_def split: access_mode.splits)

lemma joined_project_SomeD:
  "joined_project s P = Some (p, w) \<Longrightarrow>
     p \<in> set (projects s) \<and> P p \<and> w \<in> set (workspaces s) \<and> wsp_id w = prj_workspace p"
  by (auto simp: joined_project_def bind_eq_Some_conv dest!: find_SomeD)

lemma read_project_row_strict_InrD:
  assumes "read_project_row_strict s w p = Inr row"
  shows "\<exists>pr \<in> set (projects s). prj_id pr = p \<and> prj_workspace pr = w
           \<and> prj_access_mode pr = access_mode_str (ar_access_mode row)"
proof -
  obtain pr wr where j: "joined_project s (\<lambda>p'. prj_workspace p' = w \<and> prj_id p' = p) = Some (pr, wr)"
    using assms by (auto simp: read_project_row_strict_def split: option.splits)
  from assms j have "prj_access_mode pr = access_mode_str (ar_access_mode row)"
    by (auto simp: read_project_row_strict_def split: if_splits)
  with joined_project_SomeD[OF j] show ?thesis by blast
qed

text \<open>What a successful resolution was computed from.\<close>

lemma resolve_InrE:
  assumes "resolve fault s w p caller d res = Inr ctx"
  obtains row where "resolve_row s w p caller d res = Inr (row, pa_distinguishes_operators ctx)"
    and "resolve_grant fault s w p caller res row = Inr (pa_grant ctx)"
    and "pa_access_mode ctx = ar_access_mode row" and "pa_reserved_global ctx = ar_reserved_global row"
    and "pa_is_root ctx = pp_is_root caller"
    and "pa_is_creator ctx \<longleftrightarrow> pp_is_creator caller \<or> (ar_creator row \<noteq> None \<and> ar_creator row = pp_user_id caller)"
  using assms unfolding resolve_def and_then_Inr_iff by (auto simp: and_then_Inr_iff)

lemma resolve_row_strict_InrD:
  assumes "resolve_row s w p caller d Strict = Inr (row, d')"
  shows "read_project_row_strict s w p = Inr row" and "d' \<longleftrightarrow> d \<or> users s \<noteq> []"
    and "pp_user_id caller = Some u \<Longrightarrow> u \<in> usr_id ` set (users s)"
  using assms
  by (auto simp: resolve_row_def and_then_Inr_iff users_exist_def split: option.splits if_splits)

lemma resolve_grant_strict_fault:
  assumes "resolve_grant (Some e) s w p caller Strict row = Inr g"
    and "ar_reserved_global row \<or> ar_access_mode row = ModeRestricted"
  shows "pp_user_id caller = None"
  using assms by (auto simp: resolve_grant_def read_grant_def split: option.splits)

section \<open>Properties\<close>

text \<open>
  The decision table of the choke point, and that a write is never admitted where a read would
  be refused. A deployment that tells operators apart admits a write to the reserved shared scopes
  only for root or a write grant, whatever the mode and whoever created them.
\<close>

theorem authorize_project_table:
  "(authorize_project ctx NeedWrite = Inr () \<longrightarrow> authorize_project ctx NeedRead = Inr ())
   \<and> (pa_distinguishes_operators ctx \<and> pa_reserved_global ctx \<longrightarrow>
        (authorize_project ctx NeedWrite = Inr () \<longleftrightarrow> pa_is_root ctx \<or> pa_grant ctx = Some GrantWrite))
   \<and> (pa_distinguishes_operators ctx \<and> \<not> pa_reserved_global ctx \<and> pa_access_mode ctx = ModeRestricted \<longrightarrow>
        (authorize_project ctx NeedWrite = Inr () \<longleftrightarrow>
           pa_is_root ctx \<or> pa_is_creator ctx \<or> pa_grant ctx = Some GrantWrite))"
  by (auto simp: authorize_write_iff authorize_read_iff)

definition sample_authz :: project_authz where
  "sample_authz = \<lparr>pa_distinguishes_operators = True, pa_access_mode = ModeRestricted, pa_is_root = False,
     pa_is_creator = False, pa_grant = Some GrantRead, pa_reserved_global = False\<rparr>"

theorem authorize_project_table_witness:
  "authorize_project sample_authz NeedWrite \<noteq> Inr () \<and> authorize_project sample_authz NeedRead = Inr ()"
  using authorize_project_table[of sample_authz]
  by (simp add: sample_authz_def authorize_read_iff)

text \<open>
  Strict resolution never degrades to open: it succeeds only for a project that exists in the
  named workspace with a known access mode, and only when the authenticated user still exists; a
  server with database users tells operators apart even if the caller's auth level does not; and a
  failing read of the grants of a restricted or reserved project is an error, never an empty grant.
\<close>

theorem strict_resolution_fails_closed:
  assumes "resolve_project_authz_strict fault s w p caller d = Inr ctx"
  shows "(\<exists>pr \<in> set (projects s). prj_id pr = p \<and> prj_workspace pr = w
            \<and> prj_access_mode pr = access_mode_str (pa_access_mode ctx))
    \<and> (\<forall>u. pp_user_id caller = Some u \<longrightarrow> u \<in> usr_id ` set (users s))
    \<and> (users s \<noteq> [] \<longrightarrow> pa_distinguishes_operators ctx)
    \<and> (fault \<noteq> None \<and> (pa_reserved_global ctx \<or> pa_access_mode ctx = ModeRestricted)
         \<longrightarrow> pp_user_id caller = None)"
proof -
  from assms obtain row where row: "resolve_row s w p caller d Strict = Inr (row, pa_distinguishes_operators ctx)"
    and grant: "resolve_grant fault s w p caller Strict row = Inr (pa_grant ctx)"
    and eqs: "pa_access_mode ctx = ar_access_mode row" "pa_reserved_global ctx = ar_reserved_global row"
    unfolding resolve_project_authz_strict_def by (elim resolve_InrE)
  from grant have "fault \<noteq> None \<and> (pa_reserved_global ctx \<or> pa_access_mode ctx = ModeRestricted)
         \<longrightarrow> pp_user_id caller = None"
    by (auto simp: eqs dest: resolve_grant_strict_fault)
  then show ?thesis
    using read_project_row_strict_InrD resolve_row_strict_InrD[OF row] by (simp add: eqs)
qed

definition sample_user :: "uuid \<Rightarrow> string \<Rightarrow> user_row" where
  "sample_user i name = \<lparr>usr_id = i, usr_username = lit name, usr_name = None, usr_email = None, usr_created_at = 1,
     usr_last_seen_at = None, usr_role = RoleUser, usr_password_hash = None, usr_must_change_password = False,
     usr_disabled_at = None\<rparr>"

definition sample_store :: store where
  "sample_store = empty_store\<lparr>workspaces := [\<lparr>wsp_id = 1, wsp_name = lit ''default''\<rparr>],
     projects := [\<lparr>prj_id = 2, prj_workspace = 1, prj_name = lit ''api'',
       prj_access_mode = lit ''restricted'', prj_created_by = Some 7\<rparr>],
     users := [sample_user 7 ''ann'', sample_user 8 ''bob''],
     project_grants := [\<lparr>grt_workspace = 1, grt_project = 2, grt_user = 8, grt_level = lit ''write'',
       grt_granted_by = None, grt_granted_at = 5\<rparr>]\<rparr>"

theorem strict_resolution_fails_closed_witness:
  "\<exists>ctx. resolve_project_authz_strict None sample_store 1 2 (principal_user 8) False = Inr ctx
     \<and> pa_distinguishes_operators ctx \<and> pa_access_mode ctx = ModeRestricted \<and> pa_grant ctx = Some GrantWrite"
proof -
  have r: "resolve_project_authz_strict None sample_store 1 2 (principal_user 8) False =
    Inr \<lparr>pa_distinguishes_operators = True, pa_access_mode = ModeRestricted, pa_is_root = False,
      pa_is_creator = False, pa_grant = Some GrantWrite, pa_reserved_global = False\<rparr>"
    by (simp add: resolve_project_authz_strict_def resolve_defs joined_project_def sample_store_def
        empty_store_def sample_user_def principal_user_def users_exist_def grant_level_from_db_def is_reserved_global_def)
  show ?thesis using strict_resolution_fails_closed[OF r] r by auto
qed

end
