(* ===== verification/WorkstreamFinish.thy ===== *)
theory WorkstreamFinish
  imports WorkstreamLink Authz
begin

text \<open>
  Managed workstreams, part three (\<^verbatim>\<open>crates/ai-memory-store/src/workstream.rs\<close>): who may mutate a run
  (\<^verbatim>\<open>ManagedRunAuthority\<close>, \<^verbatim>\<open>authorize_run_mutation\<close>) and importing the events of a run while closing or
  keeping it (\<^verbatim>\<open>finish_run\<close>, \<^verbatim>\<open>recover_run\<close>). \<open>json_text\<close> stands for \<^verbatim>\<open>serde_json::to_string\<close> on a
  \<^verbatim>\<open>Value\<close>, the sanitizer of the caller is a field of the input. The lemmas show that the ledger stays
  numbered without gaps or repeated event ids, that an import never runs into a constraint, that replays
  import nothing, and that only the owner with write access gets through.
\<close>

section \<open>Authority\<close>

datatype run_project_policy = PolicyGrants | TrustedProxyLegacy

record managed_run_authority =
  ma_principal :: project_principal
  ma_owner :: owner_filter
  ma_distinguishes :: bool
  ma_policy :: run_project_policy

definition from_auth ::
  "auth_level \<Rightarrow> uuid option \<Rightarrow> uuid option \<Rightarrow> actor_context \<Rightarrow> bool \<Rightarrow> managed_run_authority" where
  "from_auth level viewer user_id actor trusted_proxy_identity =
     (let user = (case viewer of Some v \<Rightarrow> Some v | None \<Rightarrow> user_id) in
      \<lparr>ma_principal = (case level of
           AuthRoot \<Rightarrow> principal_root
         | AuthUser \<Rightarrow> (case user of None \<Rightarrow> principal_anonymous | Some u \<Rightarrow> principal_user u)
         | AuthAnonymous \<Rightarrow> principal_anonymous),
       ma_owner = (if level = AuthAnonymous then OwnerUnattributed else owner_filter_for actor),
       ma_distinguishes = (trusted_proxy_identity \<or> level = AuthUser),
       ma_policy = (if level = AuthUser \<and> user = None \<and> identity_key actor \<noteq> None \<and> trusted_proxy_identity
                    then TrustedProxyLegacy else PolicyGrants)\<rparr>)"

record finish_env = native_env +
  json_text :: "json \<Rightarrow> ustr"
  grants_fault :: "store_error option"

definition authorize_run_mutation ::
  "store_error option \<Rightarrow> store \<Rightarrow> uuid \<Rightarrow> managed_run_authority \<Rightarrow> unit store_result" where
  "authorize_run_mutation fault s rid authority =
     (case find_run s rid of
        None \<Rightarrow> Inl (NotFound ''managed run not found'')
      | Some run \<Rightarrow>
        (case find_workstream s (run_workstream run) of
           None \<Rightarrow> Inl (Sqlite ''invalid column type Null'')
         | Some w \<Rightarrow>
           if \<not> admits_owner (ma_owner authority) (run_owner_user run)
           then Inl (StoreForbidden ''managed run belongs to another operator'')
           else and_then
             (resolve_project_authz_strict fault s (wst_workspace w) (wst_project w) (ma_principal authority)
                (ma_distinguishes authority))
             (\<lambda>authz. case ma_policy authority of
                 TrustedProxyLegacy \<Rightarrow> Inr ()
               | PolicyGrants \<Rightarrow>
                   (case authorize_project authz NeedWrite of
                      Inr _ \<Rightarrow> Inr ()
                    | Inl failure \<Rightarrow> Inl (StoreForbidden (authz_message failure))))))"

section \<open>Input and result of a finish\<close>

record finish_input =
  fi_scrub :: "ustr \<Rightarrow> ustr"
  fi_run :: uuid
  fi_native :: "ustr option"
  fi_source_cursor :: "ustr option"
  fi_events :: "new_workstream_event list"
  fi_complete :: bool
  fi_segment :: "ustr option"
  fi_exit_code :: "int option"

record finished_run =
  fr_imported :: nat
  fr_latest :: int

definition workstream_content_max_bytes :: nat where
  "workstream_content_max_bytes = 16 * 1024"

section \<open>Importing one event\<close>

definition stored_content :: "finish_input \<Rightarrow> new_workstream_event \<Rightarrow> ustr" where
  "stored_content input ev = truncate_utf8_bytes (fi_scrub input (new_content ev)) workstream_content_max_bytes"

definition event_row_of ::
  "finish_env \<Rightarrow> int \<Rightarrow> finish_input \<Rightarrow> uuid \<Rightarrow> int \<Rightarrow> new_workstream_event \<Rightarrow> ustr \<Rightarrow> event_row" where
  "event_row_of env now input w seq ev identity =
     (let (source, metadata) =
        scrub_workstream_provenance (fi_scrub input) (new_source_record_id ev) (new_metadata ev) in
      \<lparr>evt_workstream = w, evt_sequence = seq, evt_event_id = new_event_id ev,
       evt_agent_kind = as_str (new_agent ev), evt_native_session = identity, evt_source_record = source,
       evt_kind = event_kind_str (new_kind ev), evt_role = new_role ev, evt_content = stored_content input ev,
       evt_occurred_at = new_occurred_at ev, evt_metadata_json = json_text env metadata,
       evt_segment_path = fi_segment input, evt_created_at = now\<rparr>)"

definition insert_event :: "store \<Rightarrow> event_row \<Rightarrow> store store_result" where
  "insert_event s row =
     (if evt_workstream row \<notin> wst_id ` set (workstreams s)
      then Inl (Sqlite ''FOREIGN KEY constraint failed'')
      else if exists_row (\<lambda>e. evt_workstream e = evt_workstream row
                \<and> (evt_sequence e = evt_sequence row \<or> evt_event_id e = evt_event_id row)) (workstream_events s)
      then Inl (Sqlite ''UNIQUE constraint failed: workstream_events'')
      else Inr (s\<lparr>workstream_events := workstream_events s @ [row]\<rparr>))"

definition find_event :: "event_row list \<Rightarrow> uuid \<Rightarrow> ustr \<Rightarrow> event_row option" where
  "find_event es w event_id = find (\<lambda>e. evt_workstream e = w \<and> evt_event_id e = event_id) es"

definition same_identity :: "event_row \<Rightarrow> new_workstream_event \<Rightarrow> bool" where
  "same_identity e ev \<longleftrightarrow> evt_agent_kind e = as_str (new_agent ev)
     \<and> evt_native_session e = new_native_session_id ev \<and> evt_kind e = event_kind_str (new_kind ev)"

definition import_event ::
  "finish_env \<Rightarrow> int \<Rightarrow> finish_input \<Rightarrow> uuid \<Rightarrow> agent_kind \<Rightarrow> ustr option \<Rightarrow> new_workstream_event \<times> ustr
     \<Rightarrow> store \<times> int \<times> nat \<Rightarrow> (store \<times> int \<times> nat) store_result" where
  "import_event env now input w agent native item acc =
     (case (item, acc) of ((ev, identity), (s, latest, imported)) \<Rightarrow>
        if new_agent ev \<noteq> agent then Inl (InvalidState ''event belongs to another harness'')
        else if native \<noteq> None \<and> native \<noteq> Some (new_native_session_id ev)
        then Inl (InvalidState ''event belongs to another native session'')
        else case find_event (workstream_events s) w (new_event_id ev) of
          Some existing \<Rightarrow>
            if \<not> same_identity existing ev
            then Inl (InvalidState ''workstream event id reused with different identity'')
            else Inr (s, latest, imported)
        | None \<Rightarrow>
            and_then (insert_event s (event_row_of env now input w (latest + 1) ev identity))
              (\<lambda>s'. Inr (s', latest + 1, imported + 1)))"

fun import_events ::
  "finish_env \<Rightarrow> int \<Rightarrow> finish_input \<Rightarrow> uuid \<Rightarrow> agent_kind \<Rightarrow> ustr option \<Rightarrow> (new_workstream_event \<times> ustr) list
     \<Rightarrow> store \<times> int \<times> nat \<Rightarrow> (store \<times> int \<times> nat) store_result" where
  "import_events env now input w agent native [] acc = Inr acc"
| "import_events env now input w agent native (item # items) acc =
     and_then (import_event env now input w agent native item acc)
       (import_events env now input w agent native items)"

section \<open>Closing the run\<close>

definition unknown_native :: store_error where
  "unknown_native = InvalidState ''native session identity is UNKNOWN; refusing managed binding''"

definition validate_native :: "finish_env \<Rightarrow> ustr \<Rightarrow> ustr store_result" where
  "validate_native env raw =
     (case native_identity_parse (builtin_scrub env) raw of Inl _ \<Rightarrow> Inl unknown_native | Inr n \<Rightarrow> Inr n)"

definition resolve_native :: "finish_env \<Rightarrow> run_row \<Rightarrow> finish_input \<Rightarrow> ustr option store_result" where
  "resolve_native env run input =
     (case (case fi_native input of Some n \<Rightarrow> Some n | None \<Rightarrow> run_native_session run) of
        None \<Rightarrow> Inr None
      | Some raw \<Rightarrow> and_then (validate_native env raw) (\<lambda>n. Inr (Some n)))"

definition finish_native_row :: "int \<Rightarrow> finish_input \<Rightarrow> uuid \<Rightarrow> agent_kind \<Rightarrow> ustr \<Rightarrow> int \<Rightarrow> native_row" where
  "finish_native_row now input w agent native known_through =
     \<lparr>nss_workstream = w, nss_agent_kind = as_str agent, nss_session = native, nss_is_current = True,
      nss_source_cursor = fi_source_cursor input, nss_delivery_cursor = known_through,
      nss_created_at = now, nss_updated_at = now\<rparr>"

definition finish_conflict :: "int \<Rightarrow> finish_input \<Rightarrow> int \<Rightarrow> native_row \<Rightarrow> native_row" where
  "finish_conflict now input known_through n =
     n\<lparr>nss_is_current := True, nss_source_cursor := fi_source_cursor input,
       nss_delivery_cursor := max (nss_delivery_cursor n) known_through, nss_updated_at := now\<rparr>"

definition known_through :: "run_row \<Rightarrow> int \<Rightarrow> int" where
  "known_through run latest =
     (if run_context_delivered run \<or> run_sync_after run \<ge> run_sync_through run then latest else 0)"

definition record_native ::
  "int \<Rightarrow> store \<Rightarrow> finish_input \<Rightarrow> uuid \<Rightarrow> agent_kind \<Rightarrow> ustr option \<Rightarrow> int \<Rightarrow> store store_result" where
  "record_native now s input w agent native known =
     (case native of
        Some n \<Rightarrow>
          if fi_complete input
          then upsert_native (s\<lparr>native_sessions := retire_natives now w (as_str agent) n (native_sessions s)\<rparr>)
                 (finish_native_row now input w agent n known) (finish_conflict now input known)
          else Inr s
      | None \<Rightarrow> Inr s)"

definition close_run :: "int \<Rightarrow> finish_input \<Rightarrow> ustr option \<Rightarrow> run_row \<Rightarrow> run_row" where
  "close_run now input native r =
     (let r' = r\<lparr>run_native_session := (case native of None \<Rightarrow> run_native_session r | Some n \<Rightarrow> Some n),
               run_linked_at := (if native = None \<or> native = run_native_session r then run_linked_at r else None)\<rparr>
      in if fi_complete input
         then r'\<lparr>run_state := RunFinished, run_ended_at := Some now, run_lease_expires_at := now,
                 run_exit_code := fi_exit_code input\<rparr>
         else r'\<lparr>run_lease_expires_at := now + lease_micros\<rparr>)"

definition import_batch ::
  "finish_env \<Rightarrow> int \<Rightarrow> store \<Rightarrow> run_row \<Rightarrow> int \<Rightarrow> finish_input \<Rightarrow> (store \<times> finished_run) store_result" where
  "import_batch env now s run latest_before input =
     (let w = run_workstream run; agent = from_wire (run_agent_kind run) in
      and_then (resolve_native env run input) (\<lambda>native.
      and_then (collect_results (\<lambda>ev. validate_native env (new_native_session_id ev)) (fi_events input)) (\<lambda>identities.
      and_then (import_events env now input w agent native (zip (fi_events input) identities) (s, latest_before, 0))
        (\<lambda>(s1, latest, imported).
      and_then (record_native now s1 input w agent native (known_through run latest)) (\<lambda>s2.
      Inr (s2\<lparr>managed_runs := update_where (\<lambda>r. run_id r = fi_run input) (close_run now input native) (managed_runs s2),
              workstreams := update_where (\<lambda>x. wst_id x = w) (\<lambda>x. x\<lparr>wst_updated_at := now\<rparr>) (workstreams s2)\<rparr>,
           \<lparr>fr_imported = imported, fr_latest = latest\<rparr>))))))"

section \<open>Recovery\<close>

definition run_rowid :: "store \<Rightarrow> uuid \<Rightarrow> nat" where
  "run_rowid s rid = length (takeWhile (\<lambda>r. run_id r \<noteq> rid) (managed_runs s))"

definition superseded :: "store \<Rightarrow> run_row \<Rightarrow> bool" where
  "superseded s run \<longleftrightarrow>
     exists_row (\<lambda>(i, newer). run_workstream newer = run_workstream run
        \<and> (run_started_at newer > run_started_at run
           \<or> (run_started_at newer = run_started_at run \<and> i > run_rowid s (run_id run))))
       (enumerate 0 (managed_runs s))"

definition reopen_row :: "int \<Rightarrow> run_row \<Rightarrow> run_row" where
  "reopen_row now r = r\<lparr>run_state := RunActive, run_ended_at := None, run_lease_expires_at := now + lease_micros\<rparr>"

definition reopen_expired :: "int \<Rightarrow> store \<Rightarrow> uuid \<Rightarrow> store store_result" where
  "reopen_expired now s rid =
     (let runs = update_where (\<lambda>r. run_id r = rid \<and> run_state r = RunExpired) (reopen_row now) (managed_runs s)
      in if unique_on (\<lambda>r. run_state r = RunActive) run_workstream runs
         then Inr (s\<lparr>managed_runs := runs\<rparr>)
         else Inl (Sqlite ''UNIQUE constraint failed: idx_managed_runs_one_active''))"

definition validate_replayed_event :: "finish_env \<Rightarrow> store \<Rightarrow> run_row \<Rightarrow> finish_input \<Rightarrow> new_workstream_event \<Rightarrow> bool" where
  "validate_replayed_event env s run input ev \<longleftrightarrow>
     (let (source, metadata) =
        scrub_workstream_provenance (fi_scrub input) (new_source_record_id ev) (new_metadata ev) in
      (case find_event (workstream_events s) (run_workstream run) (new_event_id ev) of
         None \<Rightarrow> False
       | Some e \<Rightarrow> same_identity e ev \<and> evt_source_record e = source \<and> evt_role e = new_role ev
           \<and> evt_content e = truncate_utf8_bytes (new_content ev) workstream_content_max_bytes
           \<and> evt_occurred_at e = new_occurred_at ev \<and> evt_metadata_json e = json_text env metadata)
      \<and> as_str (new_agent ev) = run_agent_kind run)"

definition validate_finished_recovery ::
  "finish_env \<Rightarrow> store \<Rightarrow> run_row \<Rightarrow> finish_input \<Rightarrow> unit store_result" where
  "validate_finished_recovery env s run input =
     (if fi_native input \<noteq> run_native_session run
         \<or> (fi_complete input \<and> fi_exit_code input \<noteq> run_exit_code run)
         \<or> (\<not> fi_complete input \<and> (fi_source_cursor input \<noteq> None \<or> fi_exit_code input \<noteq> None))
      then Inl (InvalidState ''finished managed run recovery is not an exact replay'')
      else if \<not> list_all (validate_replayed_event env s run input) (fi_events input)
      then Inl (InvalidState ''finished managed run recovery contains uncommitted or changed events'')
      else and_then
        (case run_native_session run of
           None \<Rightarrow> Inr None
         | Some native \<Rightarrow>
             (case find (\<lambda>n. native_key n = (run_workstream run, run_agent_kind run, native)) (native_sessions s) of
                None \<Rightarrow> Inl (InvalidState ''finished managed run recovery has no durable native session'')
              | Some n \<Rightarrow> Inr (nss_source_cursor n)))
        (\<lambda>stored_cursor.
          if fi_complete input \<and> stored_cursor \<noteq> fi_source_cursor input
          then Inl (InvalidState ''finished managed run recovery cannot advance its source cursor'')
          else Inr ()))"

definition finish_run_inner ::
  "finish_env \<Rightarrow> int \<Rightarrow> store \<Rightarrow> managed_run_authority \<Rightarrow> finish_input \<Rightarrow> bool \<Rightarrow> (store \<times> finished_run) store_result" where
  "finish_run_inner env now s authority input recover_expired =
     and_then (authorize_run_mutation (grants_fault env) s (fi_run input) authority) (\<lambda>_.
       case find_run s (fi_run input) of
         None \<Rightarrow> Inl (NotFound ''managed run'')
       | Some run \<Rightarrow>
         let latest_before = latest_sequence s (run_workstream run) in
         (case run_state run of
            RunFinished \<Rightarrow>
              and_then (if recover_expired then validate_finished_recovery env s run input else Inr ())
                (\<lambda>_. Inr (s, \<lparr>fr_imported = 0, fr_latest = latest_before\<rparr>))
          | RunExpired \<Rightarrow>
              if recover_expired then
                (if superseded s run
                 then Inl (InvalidState ''managed run was superseded and cannot be recovered'')
                 else and_then (reopen_expired now s (fi_run input)) (\<lambda>s1. import_batch env now s1 run latest_before input))
              else Inl (InvalidState ''managed run is expired'')
          | RunActive \<Rightarrow> import_batch env now s run latest_before input))"

definition finish_run ::
  "finish_env \<Rightarrow> int \<Rightarrow> store \<Rightarrow> managed_run_authority \<Rightarrow> finish_input \<Rightarrow> (store \<times> finished_run) store_result" where
  "finish_run env now s authority input = finish_run_inner env now s authority input False"

definition recover_run ::
  "finish_env \<Rightarrow> int \<Rightarrow> store \<Rightarrow> managed_run_authority \<Rightarrow> finish_input \<Rightarrow> (store \<times> finished_run) store_result" where
  "recover_run env now s authority input = finish_run_inner env now s authority input True"

section \<open>Lemmas\<close>

subsection \<open>Growing the ledger\<close>

lemma ledger_append: "ledger (es @ fs) w = ledger es w @ ledger fs w"
  by (simp add: ledger_def)

lemma ledger_single: "ledger [row] w = (if evt_workstream row = w then [row] else [])"
  by (simp add: ledger_def)

lemma cursor_in_append: "cursor_in es w c \<Longrightarrow> cursor_in (es @ fs) w c"
  by (simp add: cursor_in_def ledger_append)

lemma ledger_sequence_le:
  assumes "ledger_ok es" "e \<in> set es"
  shows "1 \<le> evt_sequence e \<and> evt_sequence e \<le> int (length (ledger es (evt_workstream e)))"
proof -
  let ?l = "ledger es (evt_workstream e)"
  have "e \<in> set ?l" using assms(2) by (simp add: ledger_def)
  then have "evt_sequence e \<in> set (map evt_sequence ?l)" by simp
  also have "map evt_sequence ?l = map int [1..<Suc (length ?l)]" using assms(1) by (simp only: ledger_ok_def)
  finally show ?thesis by auto
qed

lemma ledger_ok_append1:
  assumes "ledger_ok es" "evt_sequence row = int (length (ledger es (evt_workstream row))) + 1"
    and "find_event es (evt_workstream row) (evt_event_id row) = None"
  shows "ledger_ok (es @ [row])"
  unfolding ledger_ok_def
proof
  fix w
  have old: "map evt_sequence (ledger es w) = map int [1..<Suc (length (ledger es w))]"
    "distinct (map evt_event_id (ledger es w))" using assms(1) by (simp_all only: ledger_ok_def)
  show "map evt_sequence (ledger (es @ [row]) w) = map int [1..<Suc (length (ledger (es @ [row]) w))]
      \<and> distinct (map evt_event_id (ledger (es @ [row]) w))"
  proof (cases "evt_workstream row = w")
    case True
    have "evt_event_id row \<notin> set (map evt_event_id (ledger es w))"
      using assms(3) True by (auto simp: find_event_def find_None_iff ledger_def)
    with old True assms(2) show ?thesis by (simp add: ledger_append ledger_single)
  next
    case False
    with old show ?thesis by (simp add: ledger_append ledger_single)
  qed
qed

lemma ws_inv_append_event:
  assumes "ws_inv s" "evt_sequence row = int (length (ledger (workstream_events s) (evt_workstream row))) + 1"
    and "find_event (workstream_events s) (evt_workstream row) (evt_event_id row) = None"
  shows "ws_inv (s\<lparr>workstream_events := workstream_events s @ [row]\<rparr>)"
proof -
  have "ledger_ok (workstream_events s @ [row])" using assms by (intro ledger_ok_append1) (simp_all add: ws_inv_def)
  then show ?thesis using assms(1)
    by (simp add: ws_inv_def native_cursors_ok_def run_cursors_ok_def cursor_in_append)
qed

lemma insert_event_ok:
  assumes "ws_inv s" "evt_workstream row \<in> wst_id ` set (workstreams s)"
    "evt_sequence row = int (length (ledger (workstream_events s) (evt_workstream row))) + 1"
    "find_event (workstream_events s) (evt_workstream row) (evt_event_id row) = None"
  shows "insert_event s row = Inr (s\<lparr>workstream_events := workstream_events s @ [row]\<rparr>)"
proof -
  have "ledger_ok (workstream_events s)" using assms(1) by (simp add: ws_inv_def)
  then have "\<not> (evt_workstream e = evt_workstream row
      \<and> (evt_sequence e = evt_sequence row \<or> evt_event_id e = evt_event_id row))" if "e \<in> set (workstream_events s)" for e
    using ledger_sequence_le[of "workstream_events s" e] that assms(3,4)
    by (auto simp: find_event_def find_None_iff)
  then show ?thesis using assms(2) by (simp add: insert_event_def)
qed

lemma find_event_append:
  "find_event es w i = Some e \<Longrightarrow> find_event (es @ fs) w i = Some e"
  by (induction es) (auto simp: find_event_def)

lemma find_event_snoc:
  "find_event es w i = None \<Longrightarrow> evt_workstream row = w \<Longrightarrow> evt_event_id row = i \<Longrightarrow> find_event (es @ [row]) w i = Some row"
  by (induction es) (auto simp: find_event_def split: if_splits)

subsection \<open>The import loop\<close>

definition import_ok :: "uuid \<Rightarrow> store \<times> int \<times> nat \<Rightarrow> bool" where
  "import_ok w acc = (case acc of (s, latest, _) \<Rightarrow>
     ws_inv s \<and> w \<in> wst_id ` set (workstreams s) \<and> latest = int (length (ledger (workstream_events s) w)))"

text \<open>What appending \<open>rows\<close> to the ledger of \<open>w\<close> does to the loop state.\<close>

definition appended :: "uuid \<Rightarrow> event_row list \<Rightarrow> store \<times> int \<times> nat \<Rightarrow> store \<times> int \<times> nat" where
  "appended w rows acc = (case acc of (s, latest, imported) \<Rightarrow>
     (s\<lparr>workstream_events := workstream_events s @ rows\<rparr>, latest + int (length rows), imported + length rows))"

lemma appended_Nil [simp]: "appended w [] acc = acc"
  by (cases acc) (simp add: appended_def)

lemma appended_appended: "appended w fs (appended w es acc) = appended w (es @ fs) acc"
  by (cases acc) (simp add: appended_def)

lemma event_row_of_simps [simp]:
  "evt_workstream (event_row_of env now input w q ev i) = w"
  "evt_sequence (event_row_of env now input w q ev i) = q"
  "evt_event_id (event_row_of env now input w q ev i) = new_event_id ev"
  "evt_content (event_row_of env now input w q ev i) = stored_content input ev"
  "evt_agent_kind (event_row_of env now input w q ev i) = as_str (new_agent ev)"
  "evt_native_session (event_row_of env now input w q ev i) = i"
  "evt_kind (event_row_of env now input w q ev i) = event_kind_str (new_kind ev)"
  by (simp_all add: event_row_of_def case_prod_beta Let_def)

lemma import_event_cases:
  assumes "import_ok w acc"
  obtains (refused) m where "import_event env now input w agent native (ev, identity) acc = Inl (InvalidState m)"
  | (present) e where "import_event env now input w agent native (ev, identity) acc = Inr acc"
      "find_event (workstream_events (fst acc)) w (new_event_id ev) = Some e" "same_identity e ev"
      "new_agent ev = agent" "native = None \<or> native = Some (new_native_session_id ev)"
  | (added) row where "import_event env now input w agent native (ev, identity) acc = Inr (appended w [row] acc)"
      "row = event_row_of env now input w (fst (snd acc) + 1) ev identity"
      "import_ok w (appended w [row] acc)"
      "find_event (workstream_events (fst acc)) w (new_event_id ev) = None"
      "new_agent ev = agent" "native = None \<or> native = Some (new_native_session_id ev)"
proof -
  obtain s latest imported where acc: "acc = (s, latest, imported)" by (cases acc) auto
  have ok: "ws_inv s" "w \<in> wst_id ` set (workstreams s)" "latest = int (length (ledger (workstream_events s) w))"
    using assms by (simp_all add: import_ok_def acc)
  define row where "row = event_row_of env now input w (latest + 1) ev identity"
  consider (bad) "new_agent ev \<noteq> agent \<or> (native \<noteq> None \<and> native \<noteq> Some (new_native_session_id ev))"
    | (old) e where "new_agent ev = agent" "native = None \<or> native = Some (new_native_session_id ev)"
        "find_event (workstream_events s) w (new_event_id ev) = Some e"
    | (new) "new_agent ev = agent" "native = None \<or> native = Some (new_native_session_id ev)"
        "find_event (workstream_events s) w (new_event_id ev) = None"
    by (metis option.exhaust)
  then show thesis
  proof cases
    case bad
    then have "\<exists>m. import_event env now input w agent native (ev, identity) acc = Inl (InvalidState m)"
      by (cases "new_agent ev = agent") (simp_all add: import_event_def acc)
    then show thesis using refused by blast
  next
    case old
    show thesis
    proof (cases "same_identity e ev")
      case True
      with old show thesis by (intro present[of e]) (auto simp: import_event_def acc)
    next
      case False
      with old show thesis
        by (intro refused[of "''workstream event id reused with different identity''"])
          (auto simp: import_event_def acc)
    qed
  next
    case new
    have ins: "insert_event s row = Inr (s\<lparr>workstream_events := workstream_events s @ [row]\<rparr>)"
      using ok new(3) by (intro insert_event_ok) (simp_all add: row_def)
    have "import_ok w (appended w [row] acc)"
      using ok new(3) ws_inv_append_event[OF ok(1), of row]
      by (simp add: import_ok_def appended_def acc row_def ledger_append ledger_single)
    with new ins show thesis
      by (intro added[of row]) (auto simp: import_event_def acc row_def[symmetric] appended_def)
  qed
qed

lemma import_events_spec:
  assumes "import_ok w acc" "import_events env now input w agent native items acc = Inr acc'"
  shows "\<exists>rows. acc' = appended w rows acc \<and> (\<forall>r \<in> set rows. evt_workstream r = w) \<and> import_ok w acc'
    \<and> (\<forall>item \<in> set items. new_agent (fst item) = agent
         \<and> (native = None \<or> native = Some (new_native_session_id (fst item)))
         \<and> (snd item = new_native_session_id (fst item) \<longrightarrow>
            (\<exists>e. find_event (workstream_events (fst acc')) w (new_event_id (fst item)) = Some e
               \<and> same_identity e (fst item))))"
  using assms
proof (induction items arbitrary: acc)
  case Nil
  then show ?case by (intro exI[of _ "[]"]) simp
next
  case (Cons item items)
  obtain ev identity where item: "item = (ev, identity)" by (cases item) auto
  have mono: "\<exists>e. find_event (workstream_events (fst acc')) w i = Some e \<and> P e"
    if "acc' = appended w rows acc1" "find_event (workstream_events (fst acc1)) w i = Some e" "P e" for rows acc1 i e P
    using that by (cases acc1) (auto simp: appended_def intro: find_event_append)
  show ?case
    using Cons.prems(1)
  proof (cases rule: import_event_cases[of w acc env now input agent native ev identity])
    case (refused m)
    with Cons.prems(2) item show ?thesis by simp
  next
    case (present e)
    with Cons.prems(2) item have "import_events env now input w agent native items acc = Inr acc'" by simp
    from Cons.IH[OF Cons.prems(1) this] obtain rows where r: "acc' = appended w rows acc"
      "\<forall>r \<in> set rows. evt_workstream r = w" "import_ok w acc'"
      "\<forall>item \<in> set items. new_agent (fst item) = agent \<and> (native = None \<or> native = Some (new_native_session_id (fst item)))
         \<and> (snd item = new_native_session_id (fst item) \<longrightarrow>
         (\<exists>e. find_event (workstream_events (fst acc')) w (new_event_id (fst item)) = Some e \<and> same_identity e (fst item)))"
      by blast
    have "\<exists>e. find_event (workstream_events (fst acc')) w (new_event_id ev) = Some e \<and> same_identity e ev"
      using mono[OF r(1) present(2), of "\<lambda>e. same_identity e ev"] present(3) by blast
    with r present(4,5) item show ?thesis by (intro exI[of _ rows]) simp
  next
    case (added row)
    with Cons.prems(2) item have "import_events env now input w agent native items (appended w [row] acc) = Inr acc'" by simp
    from Cons.IH[OF added(3) this] obtain rows where r: "acc' = appended w rows (appended w [row] acc)"
      "\<forall>r \<in> set rows. evt_workstream r = w" "import_ok w acc'"
      "\<forall>item \<in> set items. new_agent (fst item) = agent \<and> (native = None \<or> native = Some (new_native_session_id (fst item)))
         \<and> (snd item = new_native_session_id (fst item) \<longrightarrow>
         (\<exists>e. find_event (workstream_events (fst acc')) w (new_event_id (fst item)) = Some e \<and> same_identity e (fst item)))"
      by blast
    have "find_event (workstream_events (fst (appended w [row] acc))) w (new_event_id ev) = Some row"
      using added(2,4) by (cases acc) (simp add: appended_def find_event_snoc)
    from mono[OF r(1) this, of "\<lambda>e. same_identity e ev"] added(2)
    have "identity = new_native_session_id ev \<longrightarrow>
        (\<exists>e. find_event (workstream_events (fst acc')) w (new_event_id ev) = Some e \<and> same_identity e ev)"
      by (auto simp: same_identity_def)
    moreover have "evt_workstream row = w" using added(2) by simp
    ultimately show ?thesis using r added(5,6) item
      by (intro exI[of _ "row # rows"]) (simp add: appended_appended)
  qed
qed

lemma import_events_no_sqlite:
  assumes "import_ok w acc"
  shows "import_events env now input w agent native items acc \<noteq> Inl (Sqlite m)"
  using assms
proof (induction items arbitrary: acc)
  case (Cons item items)
  obtain ev identity where item: "item = (ev, identity)" by (cases item) auto
  show ?case using Cons.prems
    by (cases rule: import_event_cases[of w acc env now input agent native ev identity])
      (use Cons item in auto)
qed simp

text \<open>Events the ledger already holds are skipped.\<close>

lemma import_events_replay:
  assumes "\<forall>item \<in> set items. new_agent (fst item) = agent
      \<and> (native = None \<or> native = Some (new_native_session_id (fst item)))
      \<and> (\<exists>e. find_event (workstream_events (fst acc)) w (new_event_id (fst item)) = Some e \<and> same_identity e (fst item))"
  shows "import_events env now input w agent native items acc = Inr acc"
  using assms
proof (induction items)
  case (Cons item items)
  then have "import_event env now input w agent native item acc = Inr acc"
    by (cases acc; cases item) (auto simp: import_event_def)
  with Cons show ?case by simp
qed simp

subsection \<open>Closing\<close>

lemma finish_native_simps [simp]:
  "nss_workstream (finish_native_row now input w agent n k) = w"
  "nss_agent_kind (finish_native_row now input w agent n k) = as_str agent"
  "nss_session (finish_native_row now input w agent n k) = n"
  "nss_delivery_cursor (finish_native_row now input w agent n k) = k"
  "native_key (finish_conflict now input k row) = native_key row"
  "nss_delivery_cursor (finish_conflict now input k row) = max (nss_delivery_cursor row) k"
  by (simp_all add: finish_native_row_def finish_conflict_def native_key_def)

lemma record_native_ok:
  assumes "ws_inv s" "w \<in> wst_id ` set (workstreams s)" "cursor_in (workstream_events s) w known"
  shows "\<exists>ns. record_native now s input w agent native known = Inr (s\<lparr>native_sessions := ns\<rparr>)
    \<and> ws_inv (s\<lparr>native_sessions := ns\<rparr>)
    \<and> (\<forall>m \<in> set (native_sessions s). \<exists>n \<in> set ns. native_key n = native_key m \<and> nss_delivery_cursor m \<le> nss_delivery_cursor n)"
proof (cases native)
  case None
  with assms(1) show ?thesis by (intro exI[of _ "native_sessions s"]) (auto simp: record_native_def)
next
  case (Some n)
  have inv: "natives_ok (native_sessions s)" "native_cursors_ok (workstream_events s) (native_sessions s)"
    using assms(1) by (simp_all add: ws_inv_def)
  let ?row = "finish_native_row now input w agent n known"
  let ?ns = "promote now ?row (finish_conflict now input known) (native_sessions s)"
  have "natives_ok ?ns" using inv(1) by (rule promote_ok) simp
  moreover have "native_cursors_ok (workstream_events s) ?ns"
    using inv(2) assms(3) by (intro promote_cursors) simp_all
  ultimately have ok: "ws_inv (s\<lparr>native_sessions := ?ns\<rparr>)" using assms(1) by (simp add: ws_inv_def)
  have "upsert_native (s\<lparr>native_sessions := retire_natives now w (as_str agent) n (native_sessions s)\<rparr>)
      ?row (finish_conflict now input known) = Inr (s\<lparr>native_sessions := ?ns\<rparr>)"
    using upsert_after_retire[OF inv(1), of "finish_conflict now input known" ?row now] assms(2) by simp
  moreover have "\<forall>m \<in> set (native_sessions s). \<exists>n \<in> set ?ns. native_key n = native_key m \<and> nss_delivery_cursor m \<le> nss_delivery_cursor n"
    by (intro ballI promote_keeps) simp_all
  ultimately show ?thesis
  proof (cases "fi_complete input")
    case True
    with ok Some \<open>upsert_native _ _ _ = _\<close> show ?thesis
      by (intro exI[of _ ?ns]) (simp add: record_native_def \<open>\<forall>m \<in> set (native_sessions s). _\<close>)
  next
    case False
    with assms(1) Some show ?thesis by (intro exI[of _ "native_sessions s"]) (auto simp: record_native_def)
  qed
qed

lemma close_run_simps [simp]:
  "run_id (close_run now input native r) = run_id r"
  "run_workstream (close_run now input native r) = run_workstream r"
  "run_owner_user (close_run now input native r) = run_owner_user r"
  "run_agent_kind (close_run now input native r) = run_agent_kind r"
  "run_sync_after (close_run now input native r) = run_sync_after r"
  "run_sync_through (close_run now input native r) = run_sync_through r"
  "run_context_delivered (close_run now input native r) = run_context_delivered r"
  "run_state (close_run now input native r) = (if fi_complete input then RunFinished else run_state r)"
  "run_native_session (close_run now input native r) = (case native of None \<Rightarrow> run_native_session r | Some n \<Rightarrow> Some n)"
  by (simp_all add: close_run_def Let_def)

lemma validate_native_InrD: "validate_native env raw = Inr n \<Longrightarrow> n = raw"
  by (auto simp: validate_native_def dest: native_identity_parse_InrD split: sum.splits)

lemma validate_native_eq:
  "validate_native env raw = (if native_ok (builtin_scrub env) raw then Inr raw else Inl unknown_native)"
  by (simp add: validate_native_def native_identity_parse_cases)

lemma collect_validate:
  "collect_results (\<lambda>ev. validate_native env (new_native_session_id ev)) evs = Inr ids
    \<Longrightarrow> ids = map new_native_session_id evs"
  by (induction evs arbitrary: ids) (auto simp: and_then_Inr_iff dest: validate_native_InrD)

lemma collect_validate_ok:
  "(\<exists>ids. collect_results (\<lambda>ev. validate_native env (new_native_session_id ev)) evs = Inr ids)
    \<longleftrightarrow> (\<forall>ev \<in> set evs. native_ok (builtin_scrub env) (new_native_session_id ev))"
  by (induction evs) (auto simp: and_then_Inr_iff validate_native_def native_identity_parse_cases)

lemma resolve_native_closed:
  assumes "resolve_native env run input = Inr native"
  shows "resolve_native env (close_run now input native run) input = Inr native"
proof (cases native)
  case None
  with assms show ?thesis
    by (simp add: resolve_native_def validate_native_eq split: option.splits if_splits)
next
  case (Some n)
  with assms have "native_ok (builtin_scrub env) n"
    "fi_native input = Some n \<or> fi_native input = None \<and> run_native_session run = Some n"
    by (simp_all add: resolve_native_def validate_native_eq split: option.splits if_splits)
  with Some show ?thesis by (auto simp: resolve_native_def validate_native_eq)
qed

definition closed_store :: "int \<Rightarrow> finish_input \<Rightarrow> uuid \<Rightarrow> ustr option \<Rightarrow> store \<Rightarrow> store" where
  "closed_store now input w native s =
     s\<lparr>managed_runs := update_where (\<lambda>r. run_id r = fi_run input) (close_run now input native) (managed_runs s),
       workstreams := update_where (\<lambda>x. wst_id x = w) (\<lambda>x. x\<lparr>wst_updated_at := now\<rparr>) (workstreams s)\<rparr>"

lemma closed_store_inv:
  assumes "ws_inv s"
  shows "ws_inv (closed_store now input w native s)"
proof -
  have "ws_inv (s\<lparr>managed_runs := update_where (\<lambda>r. run_id r = fi_run input) (close_run now input native) (managed_runs s)\<rparr>)"
    using assms by (rule ws_inv_update_runs) simp
  from ws_inv_update_workstreams[OF this, of "\<lambda>x. wst_id x = w" "\<lambda>x. x\<lparr>wst_updated_at := now\<rparr>"]
  show ?thesis by (simp add: closed_store_def workstream_key_def)
qed

lemma import_batch_InrE:
  assumes "import_batch env now s run (int (length (ledger (workstream_events s) (run_workstream run)))) input = Inr (s', fr)"
    and "ws_inv s" "run_workstream run \<in> wst_id ` set (workstreams s)"
  obtains native rows ns where "resolve_native env run input = Inr native"
    "s' = closed_store now input (run_workstream run) native
       (s\<lparr>workstream_events := workstream_events s @ rows, native_sessions := ns\<rparr>)"
    "\<forall>m \<in> set (native_sessions s). \<exists>n \<in> set ns. native_key n = native_key m \<and> nss_delivery_cursor m \<le> nss_delivery_cursor n"
    "\<forall>r \<in> set rows. evt_workstream r = run_workstream run" "fr_imported fr = length rows"
    "fr_latest fr = int (length (ledger (workstream_events s') (run_workstream run)))" "ws_inv s'"
    "\<forall>ev \<in> set (fi_events input). new_agent ev = from_wire (run_agent_kind run)
       \<and> (native = None \<or> native = Some (new_native_session_id ev))
       \<and> native_ok (builtin_scrub env) (new_native_session_id ev)
       \<and> (\<exists>e. find_event (workstream_events s') (run_workstream run) (new_event_id ev) = Some e \<and> same_identity e ev)"
proof -
  let ?w = "run_workstream run"
  let ?l = "int (length (ledger (workstream_events s) ?w))"
  from assms(1) obtain native ids acc where n: "resolve_native env run input = Inr native"
    and ids: "collect_results (\<lambda>ev. validate_native env (new_native_session_id ev)) (fi_events input) = Inr ids"
    and imp: "import_events env now input ?w (from_wire (run_agent_kind run)) native (zip (fi_events input) ids) (s, ?l, 0) = Inr acc"
    and rest: "and_then (record_native now (fst acc) input ?w (from_wire (run_agent_kind run)) native (known_through run (fst (snd acc))))
        (\<lambda>s2. Inr (closed_store now input ?w native s2, \<lparr>fr_imported = snd (snd acc), fr_latest = fst (snd acc)\<rparr>)) = Inr (s', fr)"
    by (auto simp: import_batch_def Let_def and_then_Inr_iff closed_store_def)
  have zip: "zip (fi_events input) ids = map (\<lambda>ev. (ev, new_native_session_id ev)) (fi_events input)"
    using collect_validate[OF ids] by (simp add: zip_map2 zip_same_conv_map)
  have "import_ok ?w (s, ?l, 0)" using assms(2,3) by (simp add: import_ok_def)
  from import_events_spec[OF this imp] obtain rows where rows: "acc = appended ?w rows (s, ?l, 0)"
    "\<forall>r \<in> set rows. evt_workstream r = ?w" "import_ok ?w acc"
    "\<forall>item \<in> set (zip (fi_events input) ids). new_agent (fst item) = from_wire (run_agent_kind run)
      \<and> (native = None \<or> native = Some (new_native_session_id (fst item)))
      \<and> (snd item = new_native_session_id (fst item) \<longrightarrow>
         (\<exists>e. find_event (workstream_events (fst acc)) ?w (new_event_id (fst item)) = Some e \<and> same_identity e (fst item)))"
    by blast
  define s1 where "s1 = s\<lparr>workstream_events := workstream_events s @ rows\<rparr>"
  have acc: "fst acc = s1" "fst (snd acc) = int (length (ledger (workstream_events s1) ?w))" "snd (snd acc) = length rows"
    "ws_inv s1" "?w \<in> wst_id ` set (workstreams s1)"
    using rows(1,3) by (auto simp: appended_def import_ok_def s1_def)
  have "cursor_in (workstream_events s1) ?w (known_through run (fst (snd acc)))"
    using acc(2) by (simp add: known_through_def cursor_in_def)
  from record_native_ok[OF acc(4,5) this, of now input "from_wire (run_agent_kind run)" native]
  obtain ns where ns: "s' = closed_store now input ?w native (s1\<lparr>native_sessions := ns\<rparr>)"
    "ws_inv (s1\<lparr>native_sessions := ns\<rparr>)"
    "\<forall>m \<in> set (native_sessions s1). \<exists>n \<in> set ns. native_key n = native_key m \<and> nss_delivery_cursor m \<le> nss_delivery_cursor n"
    "fr = \<lparr>fr_imported = length rows, fr_latest = int (length (ledger (workstream_events s1) ?w))\<rparr>"
    using rest acc(1-3) by auto
  have ev': "workstream_events s' = workstream_events s1" by (simp add: ns(1) closed_store_def)
  have oks: "\<forall>ev \<in> set (fi_events input). native_ok (builtin_scrub env) (new_native_session_id ev)"
    using collect_validate_ok ids by blast
  show thesis
  proof (rule that)
    show "resolve_native env run input = Inr native" by (rule n)
    show "s' = closed_store now input ?w native (s\<lparr>workstream_events := workstream_events s @ rows, native_sessions := ns\<rparr>)"
      by (simp add: ns(1) s1_def)
    show "\<forall>m \<in> set (native_sessions s). \<exists>n \<in> set ns. native_key n = native_key m \<and> nss_delivery_cursor m \<le> nss_delivery_cursor n"
      using ns(3) by (simp add: s1_def)
    show "ws_inv s'" unfolding ns(1) using ns(2) by (rule closed_store_inv)
    show "fr_latest fr = int (length (ledger (workstream_events s') ?w))" by (simp add: ns(4) ev')
    show "\<forall>ev \<in> set (fi_events input). new_agent ev = from_wire (run_agent_kind run)
       \<and> (native = None \<or> native = Some (new_native_session_id ev))
       \<and> native_ok (builtin_scrub env) (new_native_session_id ev)
       \<and> (\<exists>e. find_event (workstream_events s') (run_workstream run) (new_event_id ev) = Some e \<and> same_identity e ev)"
      using rows(4) oks unfolding zip ev' acc(1) by auto
  qed (use rows(2) ns(4) in simp_all)
qed

subsection \<open>The whole transaction\<close>

lemma reopen_row_simps [simp]:
  "run_id (reopen_row now r) = run_id r" "run_workstream (reopen_row now r) = run_workstream r"
  "run_sync_after (reopen_row now r) = run_sync_after r" "run_sync_through (reopen_row now r) = run_sync_through r"
  "run_owner_user (reopen_row now r) = run_owner_user r" "run_state (reopen_row now r) = RunActive"
  "run_context_delivered (reopen_row now r) = run_context_delivered r"
  by (simp_all add: reopen_row_def)

definition reopened_runs :: "int \<Rightarrow> uuid \<Rightarrow> run_row list \<Rightarrow> run_row list" where
  "reopened_runs now rid = update_where (\<lambda>r. run_id r = rid \<and> run_state r = RunExpired) (reopen_row now)"

lemma reopen_expired_InrD:
  assumes "reopen_expired now s rid = Inr s1"
  shows "s1 = s\<lparr>managed_runs := reopened_runs now rid (managed_runs s)\<rparr>"
    "unique_on (\<lambda>r. run_state r = RunActive) run_workstream (reopened_runs now rid (managed_runs s))"
  using assms by (auto simp: reopen_expired_def reopened_runs_def Let_def split: if_splits)

lemma reopen_expired_inv:
  assumes "ws_inv s" "reopen_expired now s rid = Inr s1"
  shows "ws_inv s1"
proof -
  note d = reopen_expired_InrD[OF assms(2)]
  have r: "runs_ok (workstreams s) (managed_runs s)" using assms(1) by (simp add: ws_inv_def)
  have ids: "unique_on (\<lambda>_. True) run_id (reopened_runs now rid (managed_runs s))"
    unfolding reopened_runs_def using r by (intro unique_on_update_where) (simp_all add: runs_ok_def)
  have "map run_workstream (reopened_runs now rid (managed_runs s)) = map run_workstream (managed_runs s)"
    unfolding reopened_runs_def by (rule map_update_where) simp
  then have "run_workstream ` set (reopened_runs now rid (managed_runs s)) = run_workstream ` set (managed_runs s)"
    by (metis set_map)
  then have 1: "runs_ok (workstreams s) (reopened_runs now rid (managed_runs s))"
    using ids d(2) r by (simp add: runs_ok_def)
  have 2: "run_cursors_ok (workstream_events s) (reopened_runs now rid (managed_runs s))"
    using assms(1) unfolding reopened_runs_def run_cursors_ok_def ball_update_where
    by (simp add: ws_inv_def run_cursors_ok_def)
  show ?thesis using assms(1) 1 2 by (simp add: ws_inv_def d(1))
qed

text \<open>Every successful finish is a replay of a finished run or an import into an active one.\<close>

lemma finish_InrE:
  assumes "finish_run_inner env now s authority input rec = Inr (s', fr)" "ws_inv s"
  obtains (replay) run where "find_run s (fi_run input) = Some run" "run_state run = RunFinished" "s' = s"
      "fr = \<lparr>fr_imported = 0, fr_latest = int (length (ledger (workstream_events s) (run_workstream run)))\<rparr>"
      "rec \<Longrightarrow> validate_finished_recovery env s run input = Inr ()"
      "authorize_run_mutation (grants_fault env) s (fi_run input) authority = Inr ()"
  | (import) run s1 where "find_run s (fi_run input) = Some run"
      "run_state run = RunActive \<and> s1 = s
        \<or> run_state run = RunExpired \<and> rec \<and> \<not> superseded s run \<and> reopen_expired now s (fi_run input) = Inr s1"
      "ws_inv s1" "workstream_events s1 = workstream_events s" "workstreams s1 = workstreams s"
      "run_workstream run \<in> wst_id ` set (workstreams s1)"
      "import_batch env now s1 run (int (length (ledger (workstream_events s1) (run_workstream run)))) input = Inr (s', fr)"
      "authorize_run_mutation (grants_fault env) s (fi_run input) authority = Inr ()"
proof -
  from assms(1) obtain run where run: "find_run s (fi_run input) = Some run"
    and auth: "authorize_run_mutation (grants_fault env) s (fi_run input) authority = Inr ()"
    by (auto simp: finish_run_inner_def and_then_Inr_iff split: option.splits)
  have w: "run_workstream run \<in> wst_id ` set (workstreams s)"
    using find_SomeD[OF run] assms(2) by (auto simp: ws_inv_def runs_ok_def)
  have latest: "latest_sequence s (run_workstream run) = int (length (ledger (workstream_events s) (run_workstream run)))"
    using assms(2) by (simp add: latest_sequence_eq ws_inv_def)
  show thesis
  proof (cases "run_state run")
    case RunFinished
    with assms(1) run auth latest show thesis
      by (intro replay[of run]) (auto simp: finish_run_inner_def and_then_Inr_iff split: if_splits)
  next
    case RunActive
    with assms run auth latest w show thesis
      by (intro import[of run s]) (auto simp: finish_run_inner_def)
  next
    case RunExpired
    with assms(1) run auth latest obtain s1 where s1: "rec" "\<not> superseded s run"
      "reopen_expired now s (fi_run input) = Inr s1"
      "import_batch env now s1 run (int (length (ledger (workstream_events s) (run_workstream run)))) input = Inr (s', fr)"
      by (auto simp: finish_run_inner_def and_then_Inr_iff split: if_splits)
    have "workstream_events s1 = workstream_events s" "workstreams s1 = workstreams s"
      using reopen_expired_InrD(1)[OF s1(3)] by simp_all
    with RunExpired run auth s1 w reopen_expired_inv[OF assms(2) s1(3)] show thesis
      by (intro import[of run s1]) simp_all
  qed
qed

lemma finish_inv:
  assumes "ws_inv s" "finish_run_inner env now s authority input rec = Inr (s', fr)"
  shows "ws_inv s'"
  using assms(2,1)
proof (cases rule: finish_InrE)
  case (import run s1)
  from import(7,3,6) show ?thesis by (rule import_batch_InrE)
qed (use assms(1) in simp)

subsection \<open>A concrete finish\<close>

definition demo_fenv :: finish_env where
  "demo_fenv = \<lparr>builtin_scrub = (\<lambda>x. x), parse_uuid = (\<lambda>_. None), new_v5_oid = (\<lambda>_. 77),
     json_text = (\<lambda>_. lit ''null''), grants_fault = None\<rparr>"

definition demo_authority :: managed_run_authority where
  "demo_authority = from_auth AuthRoot None None anonymous_actor False"

definition demo_event :: new_workstream_event where
  "demo_event = \<lparr>new_event_id = lit ''e1'', new_agent = ClaudeCode, new_native_session_id = lit ''n1'',
     new_source_record_id = None, new_kind = EvMessage, new_role = Some (lit ''user''), new_content = lit ''hi'',
     new_occurred_at = None, new_metadata = JNull\<rparr>"

definition demo_batch :: "bool \<Rightarrow> finish_input" where
  "demo_batch complete = \<lparr>fi_scrub = (\<lambda>x. x), fi_run = 20, fi_native = Some (lit ''n1''), fi_source_cursor = None,
     fi_events = [demo_event], fi_complete = complete, fi_segment = None, fi_exit_code = (if complete then Some 0 else None)\<rparr>"

definition demo_finished :: "bool \<Rightarrow> store \<times> finished_run" where
  "demo_finished complete = projr (finish_run demo_fenv 5000 demo_linked demo_authority (demo_batch complete))"

lemma demo_validate: "validate_native demo_fenv (lit ''n1'') = Inr (lit ''n1'')"
  using demo_parse by (simp add: validate_native_def demo_fenv_def demo_env_def)

lemma demo_authorized: "authorize_run_mutation None demo_linked 20 demo_authority = Inr ()"
  by code_simp

lemma demo_run: "find_run demo_linked 20 = Some (hd (managed_runs demo_linked))"
  "run_state (hd (managed_runs demo_linked)) = RunActive" "run_workstream (hd (managed_runs demo_linked)) = 10"
  "run_agent_kind (hd (managed_runs demo_linked)) = as_str ClaudeCode"
  "workstream_events demo_linked = []" "map wst_id (workstreams demo_linked) = [10]"
  by code_simp+

lemma demo_batch_simps [simp]:
  "fi_run (demo_batch c) = 20" "fi_native (demo_batch c) = Some (lit ''n1'')" "fi_events (demo_batch c) = [demo_event]"
  "fi_complete (demo_batch c) = c" "new_native_session_id demo_event = lit ''n1''" "new_agent demo_event = ClaudeCode"
  "new_event_id demo_event = lit ''e1''" "grants_fault demo_fenv = None"
  by (simp_all add: demo_batch_def demo_event_def demo_fenv_def)

lemma demo_finish_result:
  "\<exists>t. finish_run demo_fenv 5000 demo_linked demo_authority (demo_batch complete) = Inr (t, \<lparr>fr_imported = 1, fr_latest = 1\<rparr>)"
proof -
  let ?s1 = "demo_linked\<lparr>workstream_events := [event_row_of demo_fenv 5000 (demo_batch complete) 10 1 demo_event (lit ''n1'')]\<rparr>"
  have w: "10 \<in> wst_id ` set (workstreams demo_linked)" using demo_run(6) by (metis list.set_intros(1) set_map)
  have latest: "latest_sequence demo_linked 10 = 0" by (simp add: latest_sequence_def demo_run ledger_def)
  have agent: "from_wire (as_str ClaudeCode) = ClaudeCode" by code_simp
  have imp: "import_events demo_fenv 5000 (demo_batch complete) 10 ClaudeCode (Some (lit ''n1'')) [(demo_event, lit ''n1'')] (demo_linked, 0, 0)
      = Inr (?s1, 1, 1)"
    using w by (simp add: import_event_def find_event_def insert_event_def demo_run)
  have "import_ok 10 (demo_linked, 0, 0)" using demo_linked_inv w by (simp add: import_ok_def demo_run ledger_def)
  from import_events_spec[OF this imp] have ok: "import_ok 10 (?s1, 1, 1)" by blast
  let ?k = "known_through (hd (managed_runs demo_linked)) 1"
  from ok have ok': "ws_inv ?s1" "10 \<in> wst_id ` set (workstreams ?s1)" "cursor_in (workstream_events ?s1) 10 ?k"
    by (simp_all add: import_ok_def known_through_def cursor_in_def)
  from record_native_ok[OF this, of 5000 "demo_batch complete" ClaudeCode "Some (lit ''n1'')"]
  obtain ns where ns: "record_native 5000 ?s1 (demo_batch complete) 10 ClaudeCode (Some (lit ''n1'')) ?k = Inr (?s1\<lparr>native_sessions := ns\<rparr>)"
    by blast
  show ?thesis
    using latest agent imp ns
    by (simp add: finish_run_def finish_run_inner_def demo_authorized demo_run demo_validate import_batch_def Let_def
        resolve_native_def del: import_events.simps)
qed

lemma demo_finish_ok:
  "finish_run demo_fenv 5000 demo_linked demo_authority (demo_batch complete)
     = Inr (fst (demo_finished complete), \<lparr>fr_imported = 1, fr_latest = 1\<rparr>)"
  using demo_finish_result[of complete] by (auto simp: demo_finished_def)

lemma demo_finished_inv: "ws_inv (fst (demo_finished complete))"
  using finish_inv[OF demo_linked_inv] demo_finish_ok unfolding finish_run_def by blast

section \<open>Properties of finishing\<close>

text \<open>
  C4. The ledger only grows, and only at its end: a successful finish or recovery appends rows to the
  run's own workstream, numbers them without a gap after the last one, reports how many it added and the
  new high-water mark, leaves every other workstream's ledger alone, and keeps the invariant. Every event
  of the batch is then in the ledger under its id, with its harness, session and kind.
\<close>

theorem finish_ledger:
  assumes "ws_inv s" "finish_run_inner env now s authority input rec = Inr (s', fr)"
  shows "\<exists>run rows. find_run s (fi_run input) = Some run
    \<and> workstream_events s' = workstream_events s @ rows \<and> (\<forall>r \<in> set rows. evt_workstream r = run_workstream run)
    \<and> map evt_sequence rows = map int [Suc (length (ledger (workstream_events s) (run_workstream run)))
          ..< Suc (length (ledger (workstream_events s') (run_workstream run)))]
    \<and> fr_imported fr = length rows
    \<and> fr_latest fr = int (length (ledger (workstream_events s') (run_workstream run)))
    \<and> ws_inv s'
    \<and> (run_state run = RunFinished \<or> (\<forall>ev \<in> set (fi_events input). \<exists>e \<in> set (workstream_events s').
          evt_workstream e = run_workstream run \<and> evt_event_id e = new_event_id ev \<and> same_identity e ev))"
  using assms(2,1)
proof (cases rule: finish_InrE)
  case (replay run)
  with assms(1) show ?thesis by (intro exI[of _ run] exI[of _ "[]"]) simp
next
  case (import run s1)
  let ?w = "run_workstream run"
  from import(7,3,6) show ?thesis
  proof (rule import_batch_InrE)
    fix native rows ns
    assume s': "s' = closed_store now input ?w native (s1\<lparr>workstream_events := workstream_events s1 @ rows, native_sessions := ns\<rparr>)"
      and rows: "\<forall>r \<in> set rows. evt_workstream r = ?w" and fr: "fr_imported fr = length rows"
        "fr_latest fr = int (length (ledger (workstream_events s') ?w))" and inv: "ws_inv s'"
      and evs: "\<forall>ev \<in> set (fi_events input). new_agent ev = from_wire (run_agent_kind run)
       \<and> (native = None \<or> native = Some (new_native_session_id ev))
       \<and> native_ok (builtin_scrub env) (new_native_session_id ev)
       \<and> (\<exists>e. find_event (workstream_events s') ?w (new_event_id ev) = Some e \<and> same_identity e ev)"
    have ev': "workstream_events s' = workstream_events s @ rows" by (simp add: s' closed_store_def import(4))
    have l: "ledger (workstream_events s') ?w = ledger (workstream_events s) ?w @ rows"
      using rows by (simp add: ev' ledger_append) (simp add: ledger_def)
    let ?n = "length (ledger (workstream_events s) ?w)"
    let ?m = "length (ledger (workstream_events s') ?w)"
    have seq: "map evt_sequence (ledger (workstream_events s') ?w) = map int [1..<Suc ?m]"
      using inv by (simp only: ws_inv_def ledger_ok_def)
    have "map evt_sequence rows = drop ?n (map evt_sequence (ledger (workstream_events s') ?w))"
      unfolding l by simp
    also have "\<dots> = map int [Suc ?n..<Suc ?m]" unfolding seq drop_map drop_upt by simp
    finally have "map evt_sequence rows = map int [Suc ?n..<Suc ?m]" .
    moreover have "\<forall>ev \<in> set (fi_events input). \<exists>e \<in> set (workstream_events s').
        evt_workstream e = ?w \<and> evt_event_id e = new_event_id ev \<and> same_identity e ev"
      using evs by (fastforce simp: find_event_def dest: find_SomeD)
    ultimately show ?thesis using import(1) ev' rows fr inv by (intro exI[of _ run] exI[of _ rows]) simp
  qed
qed

theorem finish_ledger_witness:
  "map evt_sequence (workstream_events (fst (demo_finished True))) = [1]"
proof -
  have fin: "finish_run_inner demo_fenv 5000 demo_linked demo_authority (demo_batch True) False
      = Inr (fst (demo_finished True), \<lparr>fr_imported = 1, fr_latest = 1\<rparr>)"
    using demo_finish_ok[of True] by (simp add: finish_run_def)
  from finish_ledger[OF demo_linked_inv fin] show ?thesis
    by (auto simp: demo_run ledger_def)
qed

text \<open>The import of an authorized batch into an active run meets no constraint.\<close>

lemma import_batch_no_sqlite:
  assumes "ws_inv s" "run_workstream run \<in> wst_id ` set (workstreams s)"
  shows "import_batch env now s run (int (length (ledger (workstream_events s) (run_workstream run)))) input \<noteq> Inl (Sqlite m)"
proof
  let ?w = "run_workstream run"
  let ?l = "int (length (ledger (workstream_events s) ?w))"
  assume bad: "import_batch env now s run ?l input = Inl (Sqlite m)"
  have val: "validate_native env raw \<noteq> Inl (Sqlite m)" for raw
    by (auto simp: validate_native_def unknown_native_def split: sum.splits)
  have res: "resolve_native env run input \<noteq> Inl (Sqlite m)"
    using val by (auto simp: resolve_native_def and_then_Inl_iff split: option.splits)
  have ids: "collect_results (\<lambda>ev. validate_native env (new_native_session_id ev)) evs \<noteq> Inl (Sqlite m)" for evs
    using val by (induction evs) (auto simp: and_then_Inl_iff)
  have ok: "import_ok ?w (s, ?l, 0)" using assms by (simp add: import_ok_def)
  from bad res ids obtain native idl acc where
    imp: "import_events env now input ?w (from_wire (run_agent_kind run)) native (zip (fi_events input) idl) (s, ?l, 0) = Inr acc"
    and rec: "record_native now (fst acc) input ?w (from_wire (run_agent_kind run)) native (known_through run (fst (snd acc))) = Inl (Sqlite m)"
    using import_events_no_sqlite[OF ok]
    by (fastforce simp: import_batch_def Let_def and_then_Inl_iff)
  from import_events_spec[OF ok imp] have ok': "import_ok ?w acc" by blast
  then have "ws_inv (fst acc)" "?w \<in> wst_id ` set (workstreams (fst acc))"
    "cursor_in (workstream_events (fst acc)) ?w (known_through run (fst (snd acc)))"
    by (auto simp: import_ok_def known_through_def cursor_in_def)
  from record_native_ok[OF this, of now input "from_wire (run_agent_kind run)" native] rec show False by auto
qed

text \<open>
  An authorized finish of an active run never fails on a database constraint: neither the primary
  key and event-id index of the ledger, nor the one-current-session index, nor a foreign key can stop it.
\<close>

theorem finish_no_sqlite:
  assumes "ws_inv s" "authorize_run_mutation (grants_fault env) s (fi_run input) authority = Inr ()"
    and "find_run s (fi_run input) = Some run" "run_state run = RunActive"
  shows "finish_run env now s authority input \<noteq> Inl (Sqlite m)"
proof -
  have "run_workstream run \<in> wst_id ` set (workstreams s)"
    using find_SomeD[OF assms(3)] assms(1) by (auto simp: ws_inv_def runs_ok_def)
  moreover have "latest_sequence s (run_workstream run) = int (length (ledger (workstream_events s) (run_workstream run)))"
    using assms(1) by (simp add: latest_sequence_eq ws_inv_def)
  ultimately show ?thesis using assms import_batch_no_sqlite[OF assms(1)]
    by (simp add: finish_run_def finish_run_inner_def)
qed

theorem finish_no_sqlite_witness:
  "finish_run demo_fenv 5000 demo_linked demo_authority (demo_batch True) \<noteq> Inl (Sqlite ''any'')"
  by (rule finish_no_sqlite[OF demo_linked_inv, where run = "hd (managed_runs demo_linked)"])
    (simp_all add: demo_authorized demo_run)

text \<open>Authorization looks only at columns that closing a run leaves alone.\<close>

lemma authorize_closed:
  "authorize_run_mutation fault (closed_store now input w native (s\<lparr>workstream_events := es, native_sessions := ns\<rparr>)) rid authority
     = authorize_run_mutation fault s rid authority"
proof -
  let ?t = "closed_store now input w native (s\<lparr>workstream_events := es, native_sessions := ns\<rparr>)"
  have r: "find_run ?t rid = map_option (\<lambda>r. if run_id r = fi_run input then close_run now input native r else r) (find_run s rid)"
    by (simp add: closed_store_def find_update_where)
  have f: "find_workstream ?t x = map_option (\<lambda>y. if wst_id y = w then y\<lparr>wst_updated_at := now\<rparr> else y) (find_workstream s x)" for x
    by (simp add: closed_store_def find_update_where)
  have frame: "projects ?t = projects s" "workspaces ?t = workspaces s" "users ?t = users s" "project_grants ?t = project_grants s"
    by (simp_all add: closed_store_def)
  have z: "resolve_project_authz_strict fault ?t a b c d = resolve_project_authz_strict fault s a b c d" for a b c d
    unfolding resolve_project_authz_strict_def resolve_def resolve_row_def resolve_grant_def read_grant_def
      read_project_row_strict_def read_project_row_def joined_project_def users_exist_def frame ..
  show ?thesis
    unfolding authorize_run_mutation_def r
    by (cases "find_run s rid") (auto simp: f z split: option.splits)
qed

lemma closed_find_run:
  "find_run (closed_store now input w native t) (fi_run input)
     = map_option (close_run now input native) (find_run t (fi_run input))"
proof -
  have "find_run (closed_store now input w native t) (fi_run input)
      = map_option (\<lambda>r. if run_id r = fi_run input then close_run now input native r else r) (find_run t (fi_run input))"
    by (simp add: closed_store_def find_update_where)
  then show ?thesis by (cases "find_run t (fi_run input)") (auto dest: find_SomeD)
qed

text \<open>
  Finishing is idempotent: once a run was finished with \<^verbatim>\<open>complete\<close>, finishing it again, with whatever
  batch, imports nothing, changes nothing and reports the same high-water mark.
\<close>

theorem finish_idempotent:
  assumes "ws_inv s" "finish_run env now s authority input = Inr (s', fr)" "fi_complete input"
    and "fi_run input' = fi_run input"
  shows "finish_run env now' s' authority input' = Inr (s', \<lparr>fr_imported = 0, fr_latest = fr_latest fr\<rparr>)"
proof -
  from assms(2) have fin: "finish_run_inner env now s authority input False = Inr (s', fr)" by (simp add: finish_run_def)
  have inv': "ws_inv s'" by (rule finish_inv[OF assms(1) fin])
  have "\<exists>run'. find_run s' (fi_run input) = Some run' \<and> run_state run' = RunFinished
    \<and> fr_latest fr = int (length (ledger (workstream_events s') (run_workstream run')))
    \<and> authorize_run_mutation (grants_fault env) s' (fi_run input) authority = Inr ()"
    using fin assms(1)
  proof (cases rule: finish_InrE)
    case (replay run)
    then show ?thesis by simp
  next
    case (import run s1)
    then have s1: "s1 = s" by auto
    from import(7,3,6) show ?thesis
    proof (rule import_batch_InrE)
      fix native rows ns
      assume s': "s' = closed_store now input (run_workstream run) native
          (s1\<lparr>workstream_events := workstream_events s1 @ rows, native_sessions := ns\<rparr>)"
        and fr: "fr_latest fr = int (length (ledger (workstream_events s') (run_workstream run)))"
      have "find_run s' (fi_run input) = Some (close_run now input native run)"
        unfolding s' closed_find_run using import(1) s1 by simp
      moreover have "authorize_run_mutation (grants_fault env) s' (fi_run input) authority = Inr ()"
        unfolding s' authorize_closed using import(8) s1 by simp
      ultimately show ?thesis using fr assms(3) by simp
    qed
  qed
  then show ?thesis using assms(4) inv'
    by (auto simp: finish_run_def finish_run_inner_def latest_sequence_eq ws_inv_def)
qed

theorem finish_idempotent_witness:
  "finish_run demo_fenv 6000 (fst (demo_finished True)) demo_authority (demo_batch True)
     = Inr (fst (demo_finished True), \<lparr>fr_imported = 0, fr_latest = 1\<rparr>)"
  using finish_idempotent[OF demo_linked_inv demo_finish_ok[of True], of "demo_batch True" 6000] by simp

text \<open>
  Replaying a partial batch is harmless: after a batch of an active run was imported without
  \<^verbatim>\<open>complete\<close>, sending the same batch again imports no event and leaves the ledger as it is.
\<close>

theorem finish_batch_replay:
  assumes "ws_inv s" "finish_run env now s authority input = Inr (s', fr)" "\<not> fi_complete input"
    and "find_run s (fi_run input) = Some run" "run_state run = RunActive"
  shows "\<exists>s''. finish_run env now' s' authority input = Inr (s'', \<lparr>fr_imported = 0, fr_latest = fr_latest fr\<rparr>)
    \<and> workstream_events s'' = workstream_events s'"
proof -
  from assms(2) have fin: "finish_run_inner env now s authority input False = Inr (s', fr)" by (simp add: finish_run_def)
  show ?thesis
    using fin assms(1)
  proof (cases rule: finish_InrE)
    case (replay run')
    with assms(4,5) show ?thesis by simp
  next
    case (import run' s1)
    then have s1: "s1 = s" "run' = run" using assms(4) by auto
    from import(7,3,6) show ?thesis
    proof (rule import_batch_InrE)
      fix native rows ns
      assume n: "resolve_native env run' input = Inr native"
        and s': "s' = closed_store now input (run_workstream run') native
          (s1\<lparr>workstream_events := workstream_events s1 @ rows, native_sessions := ns\<rparr>)"
        and fr: "fr_latest fr = int (length (ledger (workstream_events s') (run_workstream run')))" and inv: "ws_inv s'"
        and evs: "\<forall>ev \<in> set (fi_events input). new_agent ev = from_wire (run_agent_kind run')
          \<and> (native = None \<or> native = Some (new_native_session_id ev))
          \<and> native_ok (builtin_scrub env) (new_native_session_id ev)
          \<and> (\<exists>e. find_event (workstream_events s') (run_workstream run') (new_event_id ev) = Some e \<and> same_identity e ev)"
      define r2 where "r2 = close_run now input native run"
      have find2: "find_run s' (fi_run input) = Some r2"
        unfolding s' closed_find_run r2_def using assms(4) s1 by simp
      have auth2: "authorize_run_mutation (grants_fault env) s' (fi_run input) authority = Inr ()"
        unfolding s' authorize_closed using import(8) s1 by simp
      have r2: "run_state r2 = RunActive" "run_workstream r2 = run_workstream run" "run_agent_kind r2 = run_agent_kind run"
        using assms(3,5) by (simp_all add: r2_def)
      have n2: "resolve_native env r2 input = Inr native"
        using resolve_native_closed n s1(2) unfolding r2_def by blast
      obtain ids where ids: "collect_results (\<lambda>ev. validate_native env (new_native_session_id ev)) (fi_events input) = Inr ids"
        using evs collect_validate_ok[of env "fi_events input"] by blast
      have zip: "zip (fi_events input) ids = map (\<lambda>ev. (ev, new_native_session_id ev)) (fi_events input)"
        using collect_validate[OF ids] by (simp add: zip_map2 zip_same_conv_map)
      let ?l = "int (length (ledger (workstream_events s') (run_workstream run)))"
      have imp: "import_events env now' input (run_workstream run) (from_wire (run_agent_kind run)) native
          (zip (fi_events input) ids) (s', ?l, 0) = Inr (s', ?l, 0)"
        using evs s1(2) by (intro import_events_replay) (auto simp: zip)
      have "record_native now' s' input (run_workstream run) (from_wire (run_agent_kind run)) native k = Inr s'" for k
        using assms(3) by (simp add: record_native_def split: option.splits)
      then have "import_batch env now' s' r2 ?l input
          = Inr (closed_store now' input (run_workstream run) native s', \<lparr>fr_imported = 0, fr_latest = ?l\<rparr>)"
        using n2 ids imp r2 by (simp add: import_batch_def Let_def closed_store_def)
      moreover have "latest_sequence s' (run_workstream run) = ?l" using inv by (simp add: latest_sequence_eq ws_inv_def)
      ultimately have "finish_run env now' s' authority input
          = Inr (closed_store now' input (run_workstream run) native s', \<lparr>fr_imported = 0, fr_latest = ?l\<rparr>)"
        using find2 auth2 r2 by (simp add: finish_run_def finish_run_inner_def)
      then show ?thesis using fr s1(2) by (auto simp: closed_store_def)
    qed
  qed
qed

theorem finish_batch_replay_witness:
  "\<exists>s''. finish_run demo_fenv 6000 (fst (demo_finished False)) demo_authority (demo_batch False)
     = Inr (s'', \<lparr>fr_imported = 0, fr_latest = 1\<rparr>)"
  using finish_batch_replay[OF demo_linked_inv demo_finish_ok[of False], of "hd (managed_runs demo_linked)" 6000] demo_run
  by auto

text \<open>
  Only the owner with write access changes a run: whenever a finish or recovery succeeds, the
  authority's owner filter admits the run's owner, and unless the trusted-proxy policy applies, the
  strictly resolved authorization of the run's own project grants write access.
\<close>

theorem finish_authorized:
  assumes "finish_run_inner env now s authority input rec = Inr r"
  shows "\<exists>run w. find_run s (fi_run input) = Some run \<and> find_workstream s (run_workstream run) = Some w
    \<and> admits_owner (ma_owner authority) (run_owner_user run)
    \<and> (\<exists>authz. resolve_project_authz_strict (grants_fault env) s (wst_workspace w) (wst_project w)
            (ma_principal authority) (ma_distinguishes authority) = Inr authz
         \<and> (ma_policy authority = PolicyGrants \<longrightarrow> authorize_project authz NeedWrite = Inr ()))"
proof -
  from assms have "authorize_run_mutation (grants_fault env) s (fi_run input) authority = Inr ()"
    by (auto simp: finish_run_inner_def and_then_Inr_iff)
  then obtain run w authz where a: "find_run s (fi_run input) = Some run" "find_workstream s (run_workstream run) = Some w"
    "admits_owner (ma_owner authority) (run_owner_user run)"
    "resolve_project_authz_strict (grants_fault env) s (wst_workspace w) (wst_project w)
       (ma_principal authority) (ma_distinguishes authority) = Inr authz"
    "(case ma_policy authority of TrustedProxyLegacy \<Rightarrow> Inr () | PolicyGrants \<Rightarrow>
       (case authorize_project authz NeedWrite of Inr _ \<Rightarrow> Inr () | Inl failure \<Rightarrow> Inl (StoreForbidden (authz_message failure)))) = Inr ()"
    unfolding authorize_run_mutation_def by (auto simp: and_then_Inr_iff split: option.splits if_splits)
  from a(5) have "ma_policy authority = PolicyGrants \<longrightarrow> authorize_project authz NeedWrite = Inr ()"
    by (cases "authorize_project authz NeedWrite") auto
  with a(1-4) show ?thesis by auto
qed

theorem finish_authorized_witness:
  "admits_owner (ma_owner demo_authority) (run_owner_user (hd (managed_runs demo_linked)))"
proof -
  have fin: "finish_run_inner demo_fenv 5000 demo_linked demo_authority (demo_batch True) False
      = Inr (fst (demo_finished True), \<lparr>fr_imported = 1, fr_latest = 1\<rparr>)"
    using demo_finish_ok[of True] by (simp add: finish_run_def)
  from finish_authorized[OF fin] demo_run(1) show ?thesis by auto
qed

text \<open>
  An expired run comes back only while it is the newest: a successful recovery of an expired run
  means that no run of its workstream started later and no other one is active, so recovery never takes
  the workstream away from a later launch; and a plain finish never revives an expired run.
\<close>

theorem recover_only_latest:
  assumes "ws_inv s" "finish_run_inner env now s authority input rec = Inr r"
    and "find_run s (fi_run input) = Some run" "run_state run = RunExpired"
  shows "rec \<and> (\<forall>q \<in> set (managed_runs s). run_workstream q = run_workstream run \<longrightarrow>
      run_started_at q \<le> run_started_at run \<and> run_state q \<noteq> RunActive)"
proof -
  obtain s' fr where r: "r = (s', fr)" by (cases r) auto
  from assms(2)[unfolded r] assms(1) show ?thesis
  proof (cases rule: finish_InrE)
    case (replay run')
    with assms(3,4) show ?thesis by simp
  next
    case (import run' s1)
    with assms(3,4) have e: "rec" "\<not> superseded s run" "reopen_expired now s (fi_run input) = Inr s1" by auto
    have started: "run_started_at q \<le> run_started_at run"
      if q: "q \<in> set (managed_runs s)" "run_workstream q = run_workstream run" for q
    proof -
      obtain i where "i < length (managed_runs s)" "managed_runs s ! i = q"
        using q(1) by (auto simp: in_set_conv_nth)
      then have "(i, q) \<in> set (enumerate 0 (managed_runs s))" by (simp add: in_set_enumerate_eq)
      with e(2) q(2) show ?thesis unfolding superseded_def exists_row_iff by fastforce
    qed
    let ?rs = "reopened_runs now (fi_run input) (managed_runs s)"
    have u: "unique_on (\<lambda>r. run_state r = RunActive) run_workstream ?rs"
      using reopen_expired_InrD(2)[OF e(3)] .
    have run: "run \<in> set (managed_runs s)" "run_id run = fi_run input" using find_SomeD[OF assms(3)] by simp_all
    have in1: "reopen_row now run \<in> set ?rs"
      using in_update_where[OF run(1), of "\<lambda>r. run_id r = fi_run input \<and> run_state r = RunExpired" "reopen_row now"]
        run(2) assms(4) by (simp add: reopened_runs_def)
    have "run_state q \<noteq> RunActive" if q: "q \<in> set (managed_runs s)" "run_workstream q = run_workstream run" for q
    proof
      assume a: "run_state q = RunActive"
      then have "q \<in> set ?rs"
        using in_update_where[OF q(1), of "\<lambda>r. run_id r = fi_run input \<and> run_state r = RunExpired" "reopen_row now"]
        by (simp add: reopened_runs_def)
      from unique_onD[OF u this in1] a q(2) have "q = reopen_row now run" by simp
      then have "run_id q = run_id run" by simp
      with q(1) run(1) assms(1) have "q = run" by (auto simp: ws_inv_def runs_ok_def dest: unique_onD)
      with a assms(4) show False by simp
    qed
    with started e(1) show ?thesis by blast
  qed
qed

definition demo_expired :: store where
  "demo_expired = fst (cancel_run 4000 demo_linked 20)"

lemma demo_expired_facts:
  "find_run demo_expired 20 = Some (hd (managed_runs demo_expired))"
  "run_state (hd (managed_runs demo_expired)) = RunExpired" "run_workstream (hd (managed_runs demo_expired)) = 10"
  "length (managed_runs demo_expired) = 1"
  "authorize_run_mutation None demo_expired 20 demo_authority = Inr ()"
  "run_native_session (hd (managed_runs demo_expired)) = Some (lit ''n1'')"
  "run_agent_kind (hd (managed_runs demo_expired)) = as_str ClaudeCode"
  "superseded demo_expired (hd (managed_runs demo_expired)) = False"
  by code_simp+

lemma demo_expired_inv: "ws_inv demo_expired"
  unfolding demo_expired_def by (rule cancel_run_inv[OF demo_linked_inv])

definition demo_empty_batch :: finish_input where
  "demo_empty_batch = \<lparr>fi_scrub = (\<lambda>x. x), fi_run = 20, fi_native = Some (lit ''n1''), fi_source_cursor = None,
     fi_events = [], fi_complete = False, fi_segment = None, fi_exit_code = None\<rparr>"

theorem recover_only_latest_witness:
  "\<exists>r. recover_run demo_fenv 5000 demo_expired demo_authority demo_empty_batch = Inr r
     \<and> (\<forall>q \<in> set (managed_runs demo_expired). run_workstream q = 10 \<longrightarrow> run_state q \<noteq> RunActive)"
proof -
  have "\<not> isl (reopen_expired 5000 demo_expired 20)" by code_simp
  then obtain s1 where s1: "reopen_expired 5000 demo_expired 20 = Inr s1" by (cases "reopen_expired 5000 demo_expired 20") auto
  have "\<exists>r. finish_run_inner demo_fenv 5000 demo_expired demo_authority demo_empty_batch True = Inr r"
    using s1 by (simp add: finish_run_inner_def demo_empty_batch_def demo_expired_facts import_batch_def
        resolve_native_def demo_validate record_native_def)
  then obtain r where r: "finish_run_inner demo_fenv 5000 demo_expired demo_authority demo_empty_batch True = Inr r" ..
  have f: "find_run demo_expired (fi_run demo_empty_batch) = Some (hd (managed_runs demo_expired))"
    by (simp add: demo_empty_batch_def demo_expired_facts)
  from recover_only_latest[OF demo_expired_inv r f demo_expired_facts(2)] r show ?thesis
    by (auto simp: demo_expired_facts recover_run_def)
qed

text \<open>
  C39. Recovering a finished run accepts an exact replay only as long as the sanitizer leaves the content
  alone: an event whose content the sanitizer changed was stored scrubbed, but the replay check compares
  the unscrubbed content, so the identical request is refused.
\<close>

theorem scrubbed_replay_refused:
  assumes "authorize_run_mutation (grants_fault env) s (fi_run input) authority = Inr ()"
    and "find_run s (fi_run input) = Some run" "run_state run = RunFinished"
    and "ev \<in> set (fi_events input)"
    and "find_event (workstream_events s) (run_workstream run) (new_event_id ev) = Some e"
    and "evt_content e = stored_content input ev"
    and "stored_content input ev \<noteq> truncate_utf8_bytes (new_content ev) workstream_content_max_bytes"
  shows "\<exists>m. recover_run env now s authority input = Inl (InvalidState m)"
proof -
  have "\<not> validate_replayed_event env s run input ev"
    using assms(5-7) by (simp add: validate_replayed_event_def case_prod_beta Let_def)
  then have "\<not> list_all (validate_replayed_event env s run input) (fi_events input)"
    using assms(4) by (auto simp: list_all_iff)
  then have "\<exists>m. validate_finished_recovery env s run input = Inl (InvalidState m)"
    by (simp add: validate_finished_recovery_def)
  then show ?thesis using assms(1-3) by (auto simp: recover_run_def finish_run_inner_def)
qed

definition demo_scrubbed_batch :: finish_input where
  "demo_scrubbed_batch = (demo_batch True)\<lparr>fi_scrub := (\<lambda>_. lit ''hi''),
     fi_events := [demo_event\<lparr>new_content := lit ''secret''\<rparr>]\<rparr>"

definition demo_scrubbed :: store where
  "demo_scrubbed = demo_expired\<lparr>managed_runs := map (\<lambda>r. r\<lparr>run_state := RunFinished\<rparr>) (managed_runs demo_expired),
     workstream_events := [event_row_of demo_fenv 5000 demo_scrubbed_batch 10 1
        (demo_event\<lparr>new_content := lit ''secret''\<rparr>) (lit ''n1'')]\<rparr>"

theorem scrubbed_replay_refused_witness:
  "\<exists>m. recover_run demo_fenv 6000 demo_scrubbed demo_authority demo_scrubbed_batch = Inl (InvalidState m)"
proof (rule scrubbed_replay_refused)
  show "authorize_run_mutation (grants_fault demo_fenv) demo_scrubbed (fi_run demo_scrubbed_batch) demo_authority = Inr ()"
    by code_simp
  have f: "find_run demo_scrubbed 20 = Some (hd (managed_runs demo_scrubbed))" by code_simp
  then show "find_run demo_scrubbed (fi_run demo_scrubbed_batch) = Some (hd (managed_runs demo_scrubbed))"
    by (simp add: demo_scrubbed_batch_def)
  show "run_state (hd (managed_runs demo_scrubbed)) = RunFinished" by code_simp
  have w: "run_workstream (hd (managed_runs demo_scrubbed)) = 10" by code_simp
  let ?ev = "demo_event\<lparr>new_content := lit ''secret''\<rparr>"
  show "?ev \<in> set (fi_events demo_scrubbed_batch)" by (simp add: demo_scrubbed_batch_def)
  show "find_event (workstream_events demo_scrubbed) (run_workstream (hd (managed_runs demo_scrubbed))) (new_event_id ?ev)
      = Some (event_row_of demo_fenv 5000 demo_scrubbed_batch 10 1 ?ev (lit ''n1''))"
    unfolding w by (simp add: demo_scrubbed_def find_event_def)
  show "evt_content (event_row_of demo_fenv 5000 demo_scrubbed_batch 10 1 ?ev (lit ''n1'')) = stored_content demo_scrubbed_batch ?ev"
    by simp
  have b: "byte_len (lit ''hi'') \<le> workstream_content_max_bytes" "byte_len (lit ''secret'') \<le> workstream_content_max_bytes"
    by (simp_all add: lit_def utf8_len_def workstream_content_max_bytes_def)
  then show "stored_content demo_scrubbed_batch ?ev \<noteq> truncate_utf8_bytes (new_content ?ev) workstream_content_max_bytes"
    by (simp add: stored_content_def demo_scrubbed_batch_def)
qed

end
