(* ===== verification/WorkstreamRead.thy ===== *)
theory WorkstreamRead
  imports WorkstreamFinish
begin

text \<open>
  Managed workstreams, part four (\<^verbatim>\<open>crates/ai-memory-store/src/workstream.rs\<close>): the reads behind the
  discovery and operator listings (\<^verbatim>\<open>operational_status\<close>, \<^verbatim>\<open>list_recent\<close>, \<^verbatim>\<open>list_operational\<close>,
  \<^verbatim>\<open>run_status\<close>), the context window handed to a run (\<^verbatim>\<open>run_context\<close>) and \<^verbatim>\<open>rename\<close>. Both listings
  compute in SQL what the Rust code computes again or regroups; the lemmas show that the two agree.
\<close>

section \<open>Status\<close>

datatype workstream_operational_status = StActive | StInterrupted | StCompleted | StEmpty

fun operational_status_str :: "workstream_operational_status \<Rightarrow> ustr" where
  "operational_status_str StActive = lit ''active''"
| "operational_status_str StInterrupted = lit ''interrupted''"
| "operational_status_str StCompleted = lit ''completed''"
| "operational_status_str StEmpty = lit ''empty''"

definition operational_status ::
  "run_state option \<Rightarrow> int option \<Rightarrow> int option \<Rightarrow> nat \<Rightarrow> int \<Rightarrow> workstream_operational_status" where
  "operational_status state lease exit_code event_count now_us =
     (if state = Some RunActive \<and> (case lease of None \<Rightarrow> False | Some l \<Rightarrow> l > now_us) then StActive
      else if state = Some RunExpired
         \<or> (state = Some RunActive \<and> (case lease of None \<Rightarrow> True | Some l \<Rightarrow> l \<le> now_us))
         \<or> (state = Some RunFinished \<and> exit_code \<noteq> Some 0)
      then StInterrupted
      else if event_count = 0 then StEmpty
      else StCompleted)"

text \<open>The \<^verbatim>\<open>CASE \<dots> END AS attention\<close> column of \<^verbatim>\<open>list_operational\<close>, over the latest run or its absence.\<close>

definition attention :: "int \<Rightarrow> run_row option \<Rightarrow> nat \<Rightarrow> nat" where
  "attention now_us run event_count =
     (case run of
        None \<Rightarrow> if event_count > 0 then 2 else 3
      | Some lr \<Rightarrow>
          if run_state lr = RunActive \<and> run_lease_expires_at lr > now_us then 0
          else if run_state lr = RunExpired
             \<or> (run_state lr = RunActive \<and> run_lease_expires_at lr \<le> now_us)
             \<or> (run_state lr = RunFinished \<and> run_exit_code lr \<noteq> Some 0) then 1
          else if event_count > 0 then 2
          else 3)"

fun status_rank :: "workstream_operational_status \<Rightarrow> nat" where
  "status_rank StActive = 0"
| "status_rank StInterrupted = 1"
| "status_rank StCompleted = 2"
| "status_rank StEmpty = 3"

record stored_run_status =
  rs_run_id :: uuid
  rs_workstream_id :: uuid
  rs_agent :: agent_kind
  rs_native_session :: "ustr option"
  rs_linked :: bool
  rs_delivered :: bool
  rs_state :: run_state

definition run_status :: "store \<Rightarrow> uuid \<Rightarrow> stored_run_status option" where
  "run_status s rid =
     map_option (\<lambda>r. \<lparr>rs_run_id = rid, rs_workstream_id = run_workstream r, rs_agent = from_wire (run_agent_kind r),
        rs_native_session = run_native_session r, rs_linked = (run_linked_at r \<noteq> None),
        rs_delivered = run_context_delivered r, rs_state = run_state r\<rparr>) (find_run s rid)"

section \<open>Listings\<close>

text \<open>
  \<^verbatim>\<open>LEFT JOIN workstream_native_sessions native ON \<dots> AND native.is_current = 1\<close> of a page, in the order
  of the page and, inside one entry, of \<^verbatim>\<open>native.updated_at DESC, native.agent_kind ASC\<close>.
\<close>

definition linked_agents :: "store \<Rightarrow> uuid \<Rightarrow> ustr list" where
  "linked_agents s w = map nss_agent_kind (sort_key (\<lambda>n. (- nss_updated_at n, nss_agent_kind n)) (current_natives s w))"

definition left_join :: "'b \<Rightarrow> ustr list \<Rightarrow> ('b \<times> ustr option) list" where
  "left_join b agents = (if agents = [] then [(b, None)] else map (\<lambda>a. (b, Some a)) agents)"

text \<open>The loop that regroups the joined rows: a new summary whenever the id changes, and the harness of the
  row pushed to the last summary.\<close>

fun regroup :: "('b \<Rightarrow> uuid) \<Rightarrow> (agent_kind \<Rightarrow> 'b \<Rightarrow> 'b) \<Rightarrow> 'b list \<Rightarrow> ('b \<times> ustr option) list \<Rightarrow> 'b list" where
  "regroup key push summaries [] = summaries"
| "regroup key push summaries ((b, agent) # rows) =
     (let opened = (if summaries = [] \<or> key (last summaries) \<noteq> key b then summaries @ [b] else summaries);
          pushed = (case agent of None \<Rightarrow> opened | Some a \<Rightarrow> butlast opened @ [push (from_wire a) (last opened)])
      in regroup key push pushed rows)"

record workstream_summary =
  sum_id :: uuid
  sum_name :: ustr
  sum_created_at :: int
  sum_last_active_at :: int
  sum_current :: bool
  sum_linked :: "agent_kind list"

definition push_recent :: "agent_kind \<Rightarrow> workstream_summary \<Rightarrow> workstream_summary" where
  "push_recent a b = b\<lparr>sum_linked := sum_linked b @ [a]\<rparr>"

definition recent_entry :: "workstream_row list \<Rightarrow> workstream_row \<Rightarrow> workstream_summary" where
  "recent_entry scoped w =
     \<lparr>sum_id = wst_id w, sum_name = wst_name w, sum_created_at = wst_created_at w,
      sum_last_active_at = wst_updated_at w,
      sum_current = (map_option wst_id (first_by (\<lambda>x. (- wst_selected_at x, - int (wst_id x))) scoped) = Some (wst_id w)),
      sum_linked = []\<rparr>"

definition recent_page :: "store \<Rightarrow> uuid \<Rightarrow> uuid \<Rightarrow> ustr \<Rightarrow> ustr \<Rightarrow> nat \<Rightarrow> nat \<Rightarrow> workstream_summary list" where
  "recent_page s workspace project repo worktree limit offset =
     (let scoped = filter (in_checkout workspace project repo worktree) (workstreams s) in
      take (max 1 (min 100 limit)) (drop offset
        (sort_key (\<lambda>b. (\<not> sum_current b, - sum_last_active_at b, - int (sum_id b))) (map (recent_entry scoped) scoped))))"

definition list_recent :: "store \<Rightarrow> uuid \<Rightarrow> uuid \<Rightarrow> ustr \<Rightarrow> ustr \<Rightarrow> nat \<Rightarrow> nat \<Rightarrow> workstream_summary list" where
  "list_recent s workspace project repo worktree limit offset =
     regroup sum_id push_recent []
       (concat (map (\<lambda>b. left_join b (linked_agents s (sum_id b)))
         (recent_page s workspace project repo worktree limit offset)))"

record operational_summary =
  ops_id :: uuid
  ops_workspace_name :: ustr
  ops_project_name :: ustr
  ops_name :: ustr
  ops_status :: workstream_operational_status
  ops_latest_run :: "uuid option"
  ops_latest_agent :: "agent_kind option"
  ops_event_count :: nat
  ops_linked :: "agent_kind list"
  ops_last_active_at :: int
  ops_latest_started_at :: "int option"
  ops_latest_ended_at :: "int option"

definition push_operational :: "agent_kind \<Rightarrow> operational_summary \<Rightarrow> operational_summary" where
  "push_operational a b = b\<lparr>ops_linked := ops_linked b @ [a]\<rparr>"

definition latest_run :: "store \<Rightarrow> uuid \<Rightarrow> run_row option" where
  "latest_run s w = first_by (\<lambda>r. (- run_started_at r, - int (run_id r)))
     (filter (\<lambda>r. run_workstream r = w) (managed_runs s))"

text \<open>The columns of \<^verbatim>\<open>selected\<close>: the workstream, its workspace and project names, its latest run and its
  event count.\<close>

definition operational_rows :: "store \<Rightarrow> (workstream_row \<times> ustr \<times> ustr \<times> run_row option \<times> nat) list" where
  "operational_rows s = List.map_filter (\<lambda>w.
     case (find (\<lambda>x. wsp_id x = wst_workspace w) (workspaces s), find (\<lambda>p. prj_id p = wst_project w) (projects s)) of
       (Some x, Some p) \<Rightarrow> Some (w, wsp_name x, prj_name p, latest_run s (wst_id w),
          length (ledger (workstream_events s) (wst_id w)))
     | _ \<Rightarrow> None) (workstreams s)"

definition operational_entry ::
  "int \<Rightarrow> workstream_row \<times> ustr \<times> ustr \<times> run_row option \<times> nat \<Rightarrow> operational_summary" where
  "operational_entry now_us row =
     (case row of (w, workspace_name, project_name, run, event_count) \<Rightarrow>
       \<lparr>ops_id = wst_id w, ops_workspace_name = workspace_name, ops_project_name = project_name, ops_name = wst_name w,
        ops_status = operational_status (map_option run_state run) (map_option run_lease_expires_at run)
          (Option.bind run run_exit_code) event_count now_us,
        ops_latest_run = map_option run_id run, ops_latest_agent = map_option (\<lambda>r. from_wire (run_agent_kind r)) run,
        ops_event_count = event_count, ops_linked = [], ops_last_active_at = wst_updated_at w,
        ops_latest_started_at = map_option run_started_at run, ops_latest_ended_at = Option.bind run run_ended_at\<rparr>)"

definition operational_page :: "store \<Rightarrow> nat \<Rightarrow> nat \<Rightarrow> int \<Rightarrow> operational_summary list" where
  "operational_page s limit offset now_us =
     map (operational_entry now_us) (take (max 1 (min 101 limit)) (drop offset
       (sort_key (\<lambda>(w, _, _, run, event_count).
          (attention now_us run event_count, - wst_updated_at w, - int (wst_id w))) (operational_rows s))))"

definition list_operational :: "store \<Rightarrow> nat \<Rightarrow> nat \<Rightarrow> int \<Rightarrow> operational_summary list" where
  "list_operational s limit offset now_us =
     regroup ops_id push_operational []
       (concat (map (\<lambda>b. left_join b (linked_agents s (ops_id b))) (operational_page s limit offset now_us)))"

section \<open>Renaming\<close>

datatype workstream_selector = SelectName ustr | SelectId uuid

record rename_workstream =
  rn_workspace :: uuid
  rn_project :: uuid
  rn_repo :: ustr
  rn_worktree :: ustr
  rn_selector :: workstream_selector
  rn_new_name :: ustr

record renamed_workstream =
  rd_id :: uuid
  rd_from :: ustr
  rd_to :: ustr

definition rename_scope :: "rename_workstream \<Rightarrow> workstream_row \<Rightarrow> bool" where
  "rename_scope input = in_checkout (rn_workspace input) (rn_project input) (rn_repo input) (rn_worktree input)"

definition rename :: "store \<Rightarrow> rename_workstream \<Rightarrow> (store \<times> renamed_workstream) store_result" where
  "rename s input =
     and_then (validate_workstream_name (rn_new_name input)) (\<lambda>_.
       let new_name = trim (rn_new_name input) in
       case find (\<lambda>w. rename_scope input w
               \<and> (case rn_selector input of SelectName name \<Rightarrow> wst_name w = name | SelectId i \<Rightarrow> wst_id w = i)) (workstreams s) of
         None \<Rightarrow> Inl (NotFound ''managed workstream'')
       | Some found \<Rightarrow>
           if wst_name found = new_name
           then Inr (s, \<lparr>rd_id = wst_id found, rd_from = wst_name found, rd_to = wst_name found\<rparr>)
           else if exists_row (\<lambda>w. rename_scope input w \<and> wst_name w = new_name \<and> wst_id w \<noteq> wst_id found) (workstreams s)
           then Inl (WorkstreamNameTaken new_name)
           else
             let ws = update_where (\<lambda>w. wst_id w = wst_id found) (\<lambda>w. w\<lparr>wst_name := new_name\<rparr>) (workstreams s)
             in if unique_on (\<lambda>_. True) workstream_key ws
                then Inr (s\<lparr>workstreams := ws\<rparr>, \<lparr>rd_id = wst_id found, rd_from = wst_name found, rd_to = new_name\<rparr>)
                else Inl (Sqlite ''UNIQUE constraint failed: workstreams''))"

section \<open>The context window\<close>

record managed_run_context =
  rc_run_id :: uuid
  rc_workstream_id :: uuid
  rc_workstream_name :: ustr
  rc_agent :: agent_kind
  rc_native_session :: "ustr option"
  rc_previous :: "managed_native_session_reference option"
  rc_sync_after :: int
  rc_sync_through :: int
  rc_delivered :: bool
  rc_events :: "workstream_event list"

definition context_event :: "event_row \<Rightarrow> workstream_event store_result" where
  "context_event e = and_then (event_kind_from_str (evt_kind e)) (\<lambda>k. Inr
     \<lparr>we_sequence = evt_sequence e, we_event_id = evt_event_id e, we_agent = from_wire (evt_agent_kind e),
      we_native_session_id = evt_native_session e, we_source_record_id = None, we_metadata = JNull,
      we_kind = k, we_role = evt_role e, we_content = evt_content e, we_occurred_at = evt_occurred_at e\<rparr>)"

definition context_rows :: "store \<Rightarrow> run_row \<Rightarrow> nat \<Rightarrow> event_row list" where
  "context_rows s run max_events =
     take max_events (sort_key (\<lambda>e. - evt_sequence e)
       (filter (\<lambda>e. evt_workstream e = run_workstream run \<and> evt_sequence e > run_sync_after run
          \<and> evt_sequence e \<le> run_sync_through run) (workstream_events s)))"

definition run_context :: "store \<Rightarrow> uuid \<Rightarrow> nat \<Rightarrow> managed_run_context option store_result" where
  "run_context s rid max_events =
     (case find (\<lambda>r. run_id r = rid \<and> run_state r = RunActive) (managed_runs s) of
        None \<Rightarrow> Inr None
      | Some run \<Rightarrow>
        (case find_workstream s (run_workstream run) of
           None \<Rightarrow> Inr None
         | Some w \<Rightarrow>
             and_then (collect_results context_event (context_rows s run max_events)) (\<lambda>events. Inr (Some
               \<lparr>rc_run_id = rid, rc_workstream_id = run_workstream run, rc_workstream_name = wst_name w,
                rc_agent = from_wire (run_agent_kind run), rc_native_session = run_native_session run,
                rc_previous = (case (run_previous_agent run, run_previous_native run) of
                   (Some a, Some n) \<Rightarrow> Some \<lparr>ref_agent = from_wire a, ref_native_session_id = n\<rparr>
                 | _ \<Rightarrow> None),
                rc_sync_after = run_sync_after run, rc_sync_through = run_sync_through run,
                rc_delivered = run_context_delivered run, rc_events = rev events\<rparr>))))"

section \<open>Lemmas\<close>

subsection \<open>Regrouping a joined page\<close>

lemma regroup_pushes:
  assumes "\<And>a b. key (push a b) = key b" "key b0 = key b"
  shows "regroup key push (summaries @ [b]) (map (\<lambda>a. (b0, Some a)) agents @ rows)
    = regroup key push (summaries @ [fold (\<lambda>a. push (from_wire a)) agents b]) rows"
  using assms(2)
proof (induction agents arbitrary: b)
  case (Cons a agents)
  then have "key b0 = key (push (from_wire a) b)" using assms(1) by simp
  from Cons.IH[OF this] show ?case using Cons.prems by simp
qed simp

lemma regroup_entry:
  assumes "\<And>a b. key (push a b) = key b" "summaries = [] \<or> key (last summaries) \<noteq> key b"
  shows "regroup key push summaries (left_join b agents @ rows)
    = regroup key push (summaries @ [fold (\<lambda>a. push (from_wire a)) agents b]) rows"
proof (cases agents)
  case Nil
  with assms(2) show ?thesis by (auto simp: left_join_def)
next
  case (Cons a rest)
  have "key b = key (push (from_wire a) b)" using assms(1) by simp
  from regroup_pushes[of key push, OF assms(1) this, of summaries rest rows] Cons assms(2)
  show ?thesis by (auto simp: left_join_def)
qed

lemma key_fold_push: "(\<And>a b. key (push a b) = key b) \<Longrightarrow> key (fold (\<lambda>a. push (from_wire a)) agents b) = key b"
  by (induction agents arbitrary: b) simp_all

lemma regroup_page_from:
  assumes push: "\<And>a b. key (push a b) = key b"
    and "distinct (map key page)" "summaries = [] \<or> key (last summaries) \<notin> key ` set page"
  shows "regroup key push summaries (concat (map (\<lambda>b. left_join b (agents b)) page))
    = summaries @ map (\<lambda>b. fold (\<lambda>a. push (from_wire a)) (agents b) b) page"
  using assms(2,3)
proof (induction page arbitrary: summaries)
  case (Cons b page)
  let ?b = "fold (\<lambda>a. push (from_wire a)) (agents b) b"
  have kb: "key ?b = key b" using push by (intro key_fold_push[of key push])
  have "regroup key push summaries (left_join b (agents b) @ concat (map (\<lambda>b. left_join b (agents b)) page))
      = regroup key push (summaries @ [?b]) (concat (map (\<lambda>b. left_join b (agents b)) page))"
    using Cons.prems(2) push by (intro regroup_entry[of key push]) auto
  also have "\<dots> = (summaries @ [?b]) @ map (\<lambda>b. fold (\<lambda>a. push (from_wire a)) (agents b) b) page"
    using Cons.prems(1) kb by (intro Cons.IH) auto
  finally show ?case by simp
qed simp

lemma regroup_page:
  assumes "\<And>a b. key (push a b) = key b" "distinct (map key page)"
  shows "regroup key push [] (concat (map (\<lambda>b. left_join b (agents b)) page))
    = map (\<lambda>b. fold (\<lambda>a. push (from_wire a)) (agents b) b) page"
  using regroup_page_from[of key push page "[]" agents] assms by simp

lemma fold_push_recent:
  "fold (\<lambda>a. push_recent (from_wire a)) agents b = b\<lparr>sum_linked := sum_linked b @ map from_wire agents\<rparr>"
  by (induction agents arbitrary: b) (simp_all add: push_recent_def)

lemma fold_push_operational:
  "fold (\<lambda>a. push_operational (from_wire a)) agents b = b\<lparr>ops_linked := ops_linked b @ map from_wire agents\<rparr>"
  by (induction agents arbitrary: b) (simp_all add: push_operational_def)

lemma distinct_page: "distinct (map k xs) \<Longrightarrow> distinct (map k (take m (drop n (sort_key f xs))))"
proof -
  assume "distinct (map k xs)"
  then have "distinct xs" "inj_on k (set xs)" by (simp_all add: distinct_map)
  then have "distinct (map k (sort_key f xs))" by (simp add: distinct_map)
  then show ?thesis by (simp only: take_map[symmetric] drop_map[symmetric]) simp
qed

lemma recent_page_distinct:
  assumes "ws_inv s"
  shows "distinct (map sum_id (recent_page s workspace project repo worktree limit offset))"
proof -
  have "distinct (map wst_id (workstreams s))"
    using assms by (simp add: ws_inv_def names_ok_def unique_on_def)
  then have d: "distinct (map wst_id (filter (in_checkout workspace project repo worktree) (workstreams s)))"
    by (rule distinct_map_filter)
  have "map sum_id (map (recent_entry scoped) ws) = map wst_id ws" for scoped ws
    by (simp add: recent_entry_def)
  then show ?thesis unfolding recent_page_def Let_def using d by (intro distinct_page) (simp only:)
qed

lemma operational_rows_ids:
  "distinct (map wst_id ws) \<Longrightarrow> distinct (map (\<lambda>r. wst_id (fst r)) (List.map_filter (\<lambda>w.
     case (f w, g w) of (Some x, Some p) \<Rightarrow> Some (w, h w x p) | _ \<Rightarrow> None) ws))"
  by (induction ws) (auto simp: List.map_filter_def split: option.splits)

lemma operational_page_distinct:
  assumes "ws_inv s"
  shows "distinct (map ops_id (operational_page s limit offset now))"
proof -
  have "distinct (map wst_id (workstreams s))"
    using assms by (simp add: ws_inv_def names_ok_def unique_on_def)
  then have "distinct (map (\<lambda>r. wst_id (fst r)) (operational_rows s))"
    unfolding operational_rows_def by (rule operational_rows_ids)
  then have d: "distinct (map (\<lambda>r. wst_id (fst r)) (take m (drop n (sort_key f (operational_rows s)))))" for m n
    and f :: "_ \<Rightarrow> nat \<times> int \<times> int" by (rule distinct_page)
  have "ops_id (operational_entry now r) = wst_id (fst r)" for r
    by (cases r) (simp add: operational_entry_def)
  then show ?thesis unfolding operational_page_def using d by (simp add: comp_def)
qed

subsection \<open>Sorted windows\<close>

lemma insort_key_last: "\<forall>y \<in> set ys. k y < k x \<Longrightarrow> insort_key k x ys = ys @ [x]"
  by (induction ys) auto

lemma sort_key_desc:
  fixes f :: "'r \<Rightarrow> int"
  shows "sorted_wrt (<) (map f xs) \<Longrightarrow> sort_key (\<lambda>x. - f x) xs = rev xs"
proof (induction xs)
  case (Cons x xs)
  then have "\<forall>y \<in> set (rev xs). - f y < - f x" by simp
  then show ?case using Cons by (simp add: insort_key_last)
qed simp

lemma filter_upto_int:
  assumes "0 \<le> a" "b \<le> int n"
  shows "filter (\<lambda>i. a < i \<and> i \<le> b) (map int [1..<Suc n]) = [a + 1..b]"
proof (rule sorted_distinct_set_unique)
  show "set (filter (\<lambda>i. a < i \<and> i \<le> b) (map int [1..<Suc n])) = set [a + 1..b]"
  proof
    show "set [a + 1..b] \<subseteq> set (filter (\<lambda>i. a < i \<and> i \<le> b) (map int [1..<Suc n]))"
    proof
      fix i assume "i \<in> set [a + 1..b]"
      then have i: "a + 1 \<le> i" "i \<le> b" by simp_all
      then have "i = int (nat i)" "nat i \<in> set [1..<Suc n]" using assms by auto
      then have "i \<in> set (map int [1..<Suc n])" unfolding set_map by (rule image_eqI)
      with i show "i \<in> set (filter (\<lambda>i. a < i \<and> i \<le> b) (map int [1..<Suc n]))" unfolding set_filter by simp
    qed
  qed auto
  show "distinct (filter (\<lambda>i. a < i \<and> i \<le> b) (map int [1..<Suc n]))"
    by (intro distinct_filter) (simp add: distinct_map del: upt_Suc)
  have "sorted (map int [1..<Suc n])" by (simp add: sorted_map sorted_wrt_upt[THEN sorted_wrt_mono_rel[rotated]] del: upt_Suc)
  then show "sorted (filter (\<lambda>i. a < i \<and> i \<le> b) (map int [1..<Suc n]))" by (rule sorted_wrt_filter)
qed simp_all

lemma drop_upto_int: "drop n [i..j] = [i + int n..j]"
proof (induction n arbitrary: i)
  case (Suc n)
  show ?case
  proof (cases "i \<le> j")
    case True
    then have "drop (Suc n) [i..j] = drop n [i + 1..j]" by (simp add: upto_rec1)
    with Suc show ?thesis by (simp add: algebra_simps)
  qed simp
qed simp

subsection \<open>The events of a context\<close>

definition kinds_ok :: "event_row list \<Rightarrow> bool" where
  "kinds_ok es \<longleftrightarrow> (\<forall>e \<in> set es. \<exists>k. evt_kind e = event_kind_str k)"

lemma context_events_ok:
  assumes "\<forall>e \<in> set rows. \<exists>k. evt_kind e = event_kind_str k"
  shows "\<exists>evs. collect_results context_event rows = Inr evs
    \<and> map (\<lambda>v. (we_sequence v, we_content v)) evs = map (\<lambda>e. (evt_sequence e, evt_content e)) rows"
  using assms
proof (induction rows)
  case (Cons e rows)
  then obtain k where "evt_kind e = event_kind_str k" by auto
  then obtain ev where "context_event e = Inr ev" "we_sequence ev = evt_sequence e" "we_content ev = evt_content e"
    by (simp add: context_event_def event_kind_roundtrip)
  with Cons show ?case by auto
qed simp

lemma context_rows_sequences:
  assumes "ledger_ok (workstream_events s)"
    and "cursor_in (workstream_events s) (run_workstream run) (run_sync_after run)"
    and "cursor_in (workstream_events s) (run_workstream run) (run_sync_through run)"
  shows "map evt_sequence (rev (context_rows s run m)) =
    [max (run_sync_after run) (run_sync_through run - int m) + 1..run_sync_through run]"
proof -
  let ?w = "run_workstream run" and ?a = "run_sync_after run" and ?b = "run_sync_through run"
  let ?l = "ledger (workstream_events s) ?w"
  let ?in = "\<lambda>i. ?a < i \<and> i \<le> ?b"
  have c: "0 \<le> ?a" "?b \<le> int (length ?l)" using assms(2,3) by (simp_all add: cursor_in_def)
  define xs where "xs = filter (\<lambda>e. ?in (evt_sequence e)) ?l"
  have "map evt_sequence xs = filter ?in (map evt_sequence ?l)"
    by (simp add: xs_def filter_map comp_def)
  also have "map evt_sequence ?l = map int [1..<Suc (length ?l)]" using assms(1) by (simp only: ledger_ok_def)
  finally have seq: "map evt_sequence xs = [?a + 1..?b]" using filter_upto_int[OF c] by simp
  have "filter (\<lambda>e. evt_workstream e = ?w \<and> evt_sequence e > ?a \<and> evt_sequence e \<le> ?b) (workstream_events s) = xs"
    by (simp add: xs_def ledger_def conj_ac)
  moreover have "sort_key (\<lambda>e. - evt_sequence e) xs = rev xs"
    by (rule sort_key_desc) (simp add: seq)
  ultimately have "rev (context_rows s run m) = drop (length xs - m) xs"
    by (simp add: context_rows_def take_rev)
  then have "map evt_sequence (rev (context_rows s run m)) = drop (length xs - m) [?a + 1..?b]"
    by (simp add: drop_map[symmetric] seq[symmetric])
  also have "\<dots> = [?a + 1 + int (length xs - m)..?b]" by (rule drop_upto_int)
  also have "length xs = nat (?b - ?a)" using arg_cong[OF seq, of length] by simp
  finally show ?thesis by (simp add: max_def algebra_simps nat_diff_distrib)
qed

section \<open>Properties of the reads\<close>

text \<open>
  The context of an active run is the newest part of its window: the events it carries are the
  last \<open>max_events\<close> of the sequence numbers \<open>sync_after + 1, \<dots>, sync_through\<close>, ascending, none missing,
  each with the content the ledger of the run's workstream holds under that number.
\<close>

theorem run_context_window:
  assumes "ws_inv s" "kinds_ok (workstream_events s)" "run \<in> set (managed_runs s)" "run_state run = RunActive"
  shows "\<exists>ctx. run_context s (run_id run) max_events = Inr (Some ctx)
    \<and> map we_sequence (rc_events ctx)
        = [max (run_sync_after run) (run_sync_through run - int max_events) + 1..run_sync_through run]
    \<and> (\<forall>v \<in> set (rc_events ctx). \<exists>e \<in> set (workstream_events s). evt_workstream e = run_workstream run
         \<and> evt_sequence e = we_sequence v \<and> evt_content e = we_content v)"
proof -
  let ?rows = "context_rows s run max_events"
  have sub: "set ?rows \<subseteq> {e \<in> set (workstream_events s). evt_workstream e = run_workstream run}"
    by (auto simp: context_rows_def dest: in_set_takeD)
  then have "\<forall>e \<in> set ?rows. \<exists>k. evt_kind e = event_kind_str k" using assms(2) by (auto simp: kinds_ok_def)
  from context_events_ok[OF this] obtain evs where evs: "collect_results context_event ?rows = Inr evs"
    "map (\<lambda>v. (we_sequence v, we_content v)) evs = map (\<lambda>e. (evt_sequence e, evt_content e)) ?rows" by blast
  have fst: "map we_sequence evs = map evt_sequence ?rows" using arg_cong[OF evs(2), of "map fst"] by (simp add: comp_def)
  have inv: "ledger_ok (workstream_events s)" "run_cursors_ok (workstream_events s) (managed_runs s)"
    "run_workstream run \<in> wst_id ` set (workstreams s)"
    using assms(1,3) by (auto simp: ws_inv_def runs_ok_def)
  have seq: "map we_sequence (rev evs)
      = [max (run_sync_after run) (run_sync_through run - int max_events) + 1..run_sync_through run]"
    using context_rows_sequences[OF inv(1)] inv(2) assms(3) fst
    by (simp add: run_cursors_ok_def rev_map[symmetric])
  have "\<exists>e \<in> set ?rows. evt_sequence e = we_sequence v \<and> evt_content e = we_content v" if "v \<in> set evs" for v
  proof -
    have "(we_sequence v, we_content v) \<in> set (map (\<lambda>v. (we_sequence v, we_content v)) evs)" using that by simp
    then show ?thesis unfolding evs(2) by auto
  qed
  with sub have cont: "\<forall>v \<in> set (rev evs). \<exists>e \<in> set (workstream_events s). evt_workstream e = run_workstream run
         \<and> evt_sequence e = we_sequence v \<and> evt_content e = we_content v" by fastforce
  obtain w where w: "find_workstream s (run_workstream run) = Some w"
    using inv(3) by (cases "find_workstream s (run_workstream run)") (auto simp: find_None_iff)
  show ?thesis using find_active_run(1)[OF assms(1,3,4)] w evs(1) seq cont by (simp add: run_context_def)
qed

theorem run_context_window_witness:
  "\<exists>ctx. run_context demo_linked 20 50 = Inr (Some ctx) \<and> map we_sequence (rc_events ctx) = []"
proof -
  let ?r = "hd (managed_runs demo_linked)"
  have r: "?r \<in> set (managed_runs demo_linked)" "run_id ?r = 20" "run_sync_after ?r = 0" "run_sync_through ?r = 0"
    by code_simp+
  have "kinds_ok (workstream_events demo_linked)" by (simp add: demo_run kinds_ok_def)
  from run_context_window[OF demo_linked_inv this r(1) demo_run(2), of 50] r show ?thesis by auto
qed

lemma attention_is_status:
  "attention now_us run event_count = status_rank (operational_status (map_option run_state run)
     (map_option run_lease_expires_at run) (Option.bind run run_exit_code) event_count now_us)"
proof (cases run)
  case None
  then show ?thesis by (simp add: attention_def operational_status_def)
next
  case (Some r)
  then show ?thesis by (cases "run_state r") (auto simp: attention_def operational_status_def)
qed

lemma list_operational_eq:
  assumes "ws_inv s"
  shows "list_operational s limit offset now_us =
    map (\<lambda>b. b\<lparr>ops_linked := map from_wire (linked_agents s (ops_id b))\<rparr>) (operational_page s limit offset now_us)"
proof -
  have "list_operational s limit offset now_us =
      map (\<lambda>b. fold (\<lambda>a. push_operational (from_wire a)) (linked_agents s (ops_id b)) b) (operational_page s limit offset now_us)"
    unfolding list_operational_def
    by (rule regroup_page) (simp_all add: push_operational_def operational_page_distinct[OF assms])
  moreover have "ops_linked b = []" if "b \<in> set (operational_page s limit offset now_us)" for b
    using that by (auto simp: operational_page_def operational_entry_def)
  ultimately show ?thesis by (simp add: fold_push_operational)
qed

text \<open>
  The operator overview: the status the Rust code computes for an entry is the one the SQL ordered
  the page by, so live and interrupted workstreams come first; every workstream of the page takes exactly
  one slot however many harnesses it has linked, with all of them attached newest link first; and a page
  never exceeds 101 entries.
\<close>

theorem list_operational_spec:
  assumes "ws_inv s"
  shows "sorted (map (\<lambda>b. status_rank (ops_status b)) (list_operational s limit offset now_us))
    \<and> distinct (map ops_id (list_operational s limit offset now_us))
    \<and> (\<forall>b \<in> set (list_operational s limit offset now_us). ops_linked b = map from_wire (linked_agents s (ops_id b)))
    \<and> length (list_operational s limit offset now_us) \<le> 101"
proof -
  let ?k = "\<lambda>(w, _, _, run, event_count). (attention now_us run event_count, - wst_updated_at w, - int (wst_id w))"
  let ?rows = "sort_key ?k (operational_rows s)"
  have st: "status_rank (ops_status (operational_entry now_us r)) = fst (?k r)" for r
    by (cases r) (simp add: operational_entry_def attention_is_status)
  have "sorted (map ?k ?rows)" by simp
  then have "sorted (map (\<lambda>r. fst (?k r)) ?rows)"
    unfolding sorted_map by (rule sorted_wrt_mono_rel[rotated]) (auto simp: less_eq_prod_def)
  then have "sorted (map (\<lambda>r. fst (?k r)) (take m (drop n ?rows)))" for m n
    by (simp only: take_map[symmetric] drop_map[symmetric] sorted_wrt_take sorted_wrt_drop)
  then have "sorted (map (\<lambda>b. status_rank (ops_status b)) (operational_page s limit offset now_us))"
    by (simp add: operational_page_def comp_def st)
  moreover have "length (operational_page s limit offset now_us) \<le> 101" by (simp add: operational_page_def)
  ultimately show ?thesis
    unfolding list_operational_eq[OF assms] using operational_page_distinct[OF assms, of limit offset now_us]
    by (simp add: comp_def)
qed

theorem list_operational_spec_witness:
  "map ops_status (list_operational demo_linked 10 0 2000) = [StActive] \<and> ops_linked (hd (list_operational demo_linked 10 0 2000)) = [ClaudeCode]"
proof -
  have p: "map ops_id (list_operational demo_linked 10 0 2000) = [10]"
    "map ops_status (list_operational demo_linked 10 0 2000) = [StActive]"
    "map from_wire (linked_agents demo_linked 10) = [ClaudeCode]" by code_simp+
  then have "list_operational demo_linked 10 0 2000 \<noteq> []" by auto
  then show ?thesis using list_operational_spec[OF demo_linked_inv, of 10 0 2000] p
    by (cases "list_operational demo_linked 10 0 2000") auto
qed

lemma list_recent_eq:
  assumes "ws_inv s"
  shows "list_recent s workspace project repo worktree limit offset =
    map (\<lambda>b. b\<lparr>sum_linked := map from_wire (linked_agents s (sum_id b))\<rparr>)
      (recent_page s workspace project repo worktree limit offset)"
proof -
  have "list_recent s workspace project repo worktree limit offset =
      map (\<lambda>b. fold (\<lambda>a. push_recent (from_wire a)) (linked_agents s (sum_id b)) b)
        (recent_page s workspace project repo worktree limit offset)"
    unfolding list_recent_def
    by (rule regroup_page) (simp_all add: push_recent_def recent_page_distinct[OF assms])
  moreover have "sum_linked b = []" if "b \<in> set (recent_page s workspace project repo worktree limit offset)" for b
    using that by (auto simp: recent_page_def Let_def recent_entry_def dest!: in_set_takeD in_set_dropD)
  ultimately show ?thesis by (simp add: fold_push_recent)
qed

text \<open>The head of a page sorted with the current entry first.\<close>

lemma sorted_page_head:
  assumes "x \<in> set xs" "\<not> fst (k x)" "0 < m"
  shows "\<exists>y ys. take m (sort_key (k :: 'r \<Rightarrow> bool \<times> int \<times> int) xs) = y # ys \<and> y \<in> set xs \<and> \<not> fst (k y)"
proof -
  obtain y ys where y: "sort_key k xs = y # ys"
    using assms(1) by (cases "sort_key k xs") (metis set_sort empty_iff list.set(1), blast)
  have "y \<in> set xs" using arg_cong[OF y, of set] by auto
  have "x \<in> set (y # ys)" using assms(1) arg_cong[OF y, of set] by auto
  moreover have "sorted (map k (y # ys))" unfolding y[symmetric] by simp
  ultimately have "k y \<le> k x" by auto
  then have "\<not> fst (k y)" using assms(2) by (auto simp: less_eq_prod_def)
  with y \<open>y \<in> set xs\<close> assms(3) show ?thesis by (cases m) auto
qed

text \<open>
  The discovery listing starts with the workstream a bare launch resumes: if the checkout has a
  workstream, the first entry of the first page is marked current, it is the only one marked, and it is
  exactly the workstream that \<^verbatim>\<open>select_workstream\<close> picks for the same checkout under the \<^verbatim>\<open>Current\<close>
  selection.
\<close>

theorem list_recent_head_is_selected:
  assumes "ws_inv s" "pi_selection input = SelCurrent" "row \<in> set (workstreams s)" "input_checkout input row"
  shows "\<exists>b rest. list_recent s (pi_workspace input) (pi_project input) (pi_repo input) (pi_worktree input) limit 0 = b # rest
    \<and> sum_current b \<and> (\<forall>c \<in> set rest. \<not> sum_current c)
    \<and> select_workstream wid now s input = Inr (s, sum_id b, sum_name b)"
proof -
  let ?scoped = "filter (input_checkout input) (workstreams s)"
  let ?k = "\<lambda>b. (\<not> sum_current b, - sum_last_active_at b, - int (sum_id b))"
  have scoped: "filter (in_checkout (pi_workspace input) (pi_project input) (pi_repo input) (pi_worktree input)) (workstreams s) = ?scoped"
    by (simp add: input_checkout_def)
  have "row \<in> set ?scoped" using assms(3,4) by simp
  then obtain c where c: "first_by (\<lambda>w. (- wst_selected_at w, - int (wst_id w))) ?scoped = Some c"
    by (metis first_by_None empty_iff list.set(1) option.exhaust)
  then have cin: "c \<in> set ?scoped" by (rule first_by_in)
  have cur: "sum_current (recent_entry ?scoped w) \<longleftrightarrow> wst_id w = wst_id c" for w
    by (simp add: recent_entry_def c eq_commute)
  have ids: "sum_id (recent_entry ?scoped w) = wst_id w" "sum_name (recent_entry ?scoped w) = wst_name w" for w
    by (simp_all add: recent_entry_def)
  let ?entries = "map (recent_entry ?scoped) ?scoped"
  let ?page = "recent_page s (pi_workspace input) (pi_project input) (pi_repo input) (pi_worktree input) limit 0"
  have page: "?page = take (max 1 (min 100 limit)) (sort_key ?k ?entries)"
    unfolding recent_page_def scoped Let_def by simp
  have "recent_entry ?scoped c \<in> set ?entries" "\<not> fst (?k (recent_entry ?scoped c))" using cin cur by auto
  then have "\<exists>y ys. ?page = y # ys \<and> y \<in> set ?entries \<and> \<not> fst (?k y)"
    unfolding page by (intro sorted_page_head[of "recent_entry ?scoped c" ?entries ?k "max 1 (min 100 limit)"]) simp_all
  then obtain y ys where y: "?page = y # ys" "y \<in> set ?entries" "sum_current y" by auto
  from y(2,3) obtain w where w: "w \<in> set (workstreams s)" "wst_id w = wst_id c" "y = recent_entry ?scoped w"
    using cur by auto
  have "w = c" using w(1,2) cin assms(1) by (auto simp: ws_inv_def names_ok_def dest: unique_onD)
  have rest: "\<not> sum_current z" if "z \<in> set ys" for z
  proof
    assume z: "sum_current z"
    have "z \<in> set ?page" using that y(1) by simp
    then have "z \<in> set ?entries" unfolding page by (auto dest: in_set_takeD)
    then have "sum_id z = sum_id y" using z cur ids w by auto
    moreover have "distinct (map sum_id ?page)" by (rule recent_page_distinct[OF assms(1)])
    ultimately show False using that unfolding y(1) by (auto simp: image_iff)
  qed
  have "select_workstream wid now s input = Inr (s, sum_id y, sum_name y)"
    using c assms(2) w(3) \<open>w = c\<close> ids by (simp add: select_workstream_def)
  then show ?thesis unfolding list_recent_eq[OF assms(1)] y(1) using y(3) rest by auto
qed

theorem list_recent_head_is_selected_witness:
  "\<exists>b rest. list_recent demo_linked 1 2 (lit ''repo'') (lit ''tree'') 10 0 = b # rest \<and> sum_current b
     \<and> select_workstream 11 5000 demo_linked demo_input = Inr (demo_linked, sum_id b, sum_name b)"
proof -
  have r: "hd (workstreams demo_linked) \<in> set (workstreams demo_linked)" "input_checkout demo_input (hd (workstreams demo_linked))"
    by code_simp+
  have sel: "pi_selection demo_input = SelCurrent" by (simp add: demo_input_def)
  from list_recent_head_is_selected[OF demo_linked_inv sel r, of 10 11 5000]
  show ?thesis by (auto simp: demo_input_def)
qed

text \<open>A renamed row keeps every column but its name.\<close>

lemma renamed_key_unique:
  assumes "names_ok ws" "found \<in> set ws"
    and free: "\<And>w. w \<in> set ws \<Longrightarrow> wst_id w \<noteq> wst_id found \<Longrightarrow> workstream_key w \<noteq> workstream_key (found\<lparr>wst_name := n\<rparr>)"
  shows "names_ok (update_where (\<lambda>w. wst_id w = wst_id found) (\<lambda>w. w\<lparr>wst_name := n\<rparr>) ws)"
  (is "names_ok ?ws")
proof -
  have same: "w = found" if "w \<in> set ws" "wst_id w = wst_id found" for w
    using that assms(1,2) by (auto simp: names_ok_def dest: unique_onD)
  have ids: "unique_on (\<lambda>_. True) wst_id ?ws"
    using assms(1) by (intro unique_on_update_where) (simp_all add: names_ok_def)
  have mem: "w \<in> set ws \<and> wst_id w \<noteq> wst_id found \<or> w = found\<lparr>wst_name := n\<rparr>" if "w \<in> set ?ws" for w
    using that same by (auto simp: set_update_where split: if_splits)
  have "unique_on (\<lambda>_. True) workstream_key ?ws"
    using ids
  proof (rule unique_on_via_key)
    fix a b assume "a \<in> set ?ws" "b \<in> set ?ws" and k: "workstream_key a = workstream_key b"
    with mem[of a] mem[of b] consider "a \<in> set ws" "b \<in> set ws" | "a = b"
      using free by metis
    then show "wst_id a = wst_id b"
      using assms(1) k by cases (auto simp: names_ok_def dest: unique_onD)
  qed
  with ids show ?thesis by (simp add: names_ok_def)
qed

lemma rename_spec:
  assumes "ws_inv s"
  shows "rename s input \<noteq> Inl (Sqlite m)
    \<and> (\<forall>s' r. rename s input = Inr (s', r) \<longrightarrow> ws_inv s' \<and> rd_to r = trim (rn_new_name input)
         \<and> (\<exists>found \<in> set (workstreams s). rename_scope input found \<and> wst_id found = rd_id r \<and> wst_name found = rd_from r)
         \<and> s' = s\<lparr>workstreams := update_where (\<lambda>w. wst_id w = rd_id r) (\<lambda>w. w\<lparr>wst_name := rd_to r\<rparr>) (workstreams s)\<rparr>)"
proof (cases "validate_workstream_name (rn_new_name input)")
  case (Inl e)
  then have "rename s input = Inl e" "e \<noteq> Sqlite m"
    by (auto simp: rename_def validate_workstream_name_def Let_def split: if_splits)
  then show ?thesis by simp
next
  case (Inr u)
  let ?n = "trim (rn_new_name input)"
  let ?P = "\<lambda>w. rename_scope input w
    \<and> (case rn_selector input of SelectName name \<Rightarrow> wst_name w = name | SelectId i \<Rightarrow> wst_id w = i)"
  let ?ren = "\<lambda>f. update_where (\<lambda>w. wst_id w = wst_id f) (\<lambda>w. w\<lparr>wst_name := ?n\<rparr>) (workstreams s)"
  have names: "names_ok (workstreams s)" using assms by (simp add: ws_inv_def)
  show ?thesis
  proof (cases "find ?P (workstreams s)")
    case None
    with Inr show ?thesis by (simp add: rename_def Let_def)
  next
    case (Some found)
    then have f: "found \<in> set (workstreams s)" "rename_scope input found" using find_SomeD[OF Some] by simp_all
    have same: "w = found" if "w \<in> set (workstreams s)" "wst_id w = wst_id found" for w
      using that f(1) names by (auto simp: names_ok_def dest: unique_onD)
    show ?thesis
    proof (cases "wst_name found = ?n")
      case True
      have "w\<lparr>wst_name := ?n\<rparr> = w" if "w \<in> set (workstreams s)" "wst_id w = wst_id found" for w
        using same[OF that] True by (cases w) simp
      then have "?ren found = workstreams s" unfolding update_where_def by (intro map_idI) simp
      with True Inr Some f assms show ?thesis by (auto simp: rename_def Let_def)
    next
      case False
      show ?thesis
      proof (cases "exists_row (\<lambda>w. rename_scope input w \<and> wst_name w = ?n \<and> wst_id w \<noteq> wst_id found) (workstreams s)")
        case True
        with Inr Some False show ?thesis by (simp add: rename_def Let_def)
      next
        case free: False
        have "workstream_key w \<noteq> workstream_key (found\<lparr>wst_name := ?n\<rparr>)"
          if "w \<in> set (workstreams s)" "wst_id w \<noteq> wst_id found" for w
          using that free f(2) by (auto simp: workstream_key_def rename_scope_def in_checkout_def)
        then have ok: "names_ok (?ren found)" by (intro renamed_key_unique names f(1))
        have "map wst_id (?ren found) = map wst_id (workstreams s)" by (rule map_update_where) simp
        then have "wst_id ` set (?ren found) = wst_id ` set (workstreams s)" by (metis set_map)
        then have "ws_inv (s\<lparr>workstreams := ?ren found\<rparr>)" using assms ok by (simp add: ws_inv_def runs_ok_def)
        moreover have "rename s input = Inr (s\<lparr>workstreams := ?ren found\<rparr>,
            \<lparr>rd_id = wst_id found, rd_from = wst_name found, rd_to = ?n\<rparr>)"
          using Inr Some False free ok by (simp add: rename_def Let_def names_ok_def)
        ultimately show ?thesis using f by auto
      qed
    qed
  qed
qed

text \<open>
  Renaming changes one name and nothing else: it never trips the unique index, it reaches only a
  workstream of the caller's own checkout, and on success exactly that row's name becomes the trimmed
  new name while every other column, row and table stays as it was - in particular the selection and
  activity times that order the listings.
\<close>

theorem rename_exact:
  assumes "ws_inv s"
  shows "rename s input \<noteq> Inl (Sqlite m)
    \<and> (\<forall>s' r. rename s input = Inr (s', r) \<longrightarrow> ws_inv s' \<and> rd_to r = trim (rn_new_name input)
         \<and> (\<exists>found \<in> set (workstreams s). rename_scope input found \<and> wst_id found = rd_id r \<and> wst_name found = rd_from r)
         \<and> s' = s\<lparr>workstreams := update_where (\<lambda>w. wst_id w = rd_id r) (\<lambda>w. w\<lparr>wst_name := rd_to r\<rparr>) (workstreams s)\<rparr>)"
  using assms by (rule rename_spec)

definition demo_rename :: rename_workstream where
  "demo_rename = \<lparr>rn_workspace = 1, rn_project = 2, rn_repo = lit ''repo'', rn_worktree = lit ''tree'',
     rn_selector = SelectId 10, rn_new_name = lit '' parser ''\<rparr>"

theorem rename_exact_witness:
  "\<exists>s' r. rename demo_linked demo_rename = Inr (s', r) \<and> rd_to r = lit ''parser''"
proof -
  have t: "trim (lit '' parser '') = lit ''parser''" by (simp add: lit_def trim_def is_whitespace_def)
  have v: "validate_workstream_name (lit '' parser '') = Inr ()"
    by (simp add: validate_workstream_name_def t) (simp add: lit_def is_control_def max_workstream_name_chars_def)
  have "map wst_id (workstreams demo_linked) = [10]" "list_all (rename_scope demo_rename) (workstreams demo_linked)"
    "list_all (\<lambda>w. wst_name w = lit ''default'') (workstreams demo_linked)" by code_simp+
  then obtain w where w: "workstreams demo_linked = [w]" "wst_id w = 10" "rename_scope demo_rename w" "wst_name w = lit ''default''"
    by (auto simp: map_eq_Cons_conv)
  have "\<exists>x. rename demo_linked demo_rename = Inr x"
    using w(2-4) by (simp add: rename_def demo_rename_def v t Let_def w(1) update_where_def unique_on_def)
  then obtain s' r where "rename demo_linked demo_rename = Inr (s', r)" by auto
  with rename_exact[OF demo_linked_inv, of demo_rename] t show ?thesis by (auto simp: demo_rename_def)
qed

end
