(* ===== verification/WorkstreamSystem.thy ===== *)
theory WorkstreamSystem
  imports WorkstreamRead
begin

text \<open>
  The workstream tables as a state machine. A command is one write transaction of
  \<^verbatim>\<open>workstream.rs\<close> as the single writer thread serializes them, with the clock reading and the fresh ids
  it drew; \<open>exec\<close> runs it and returns the new store together with the run whose context it handed out,
  if it handed one out. A command that fails leaves the store as it was. The two interfaces of the prelude are
  interpreted here: \<open>step_system\<close> gives the invariant of every reachable store, \<open>claim_once\<close> that no
  context is handed out twice whatever the order of commands.
\<close>

datatype ws_command =
    Prepare uuid uuid prepare_input "ustr option" bool
  | Heartbeat uuid
  | Cancel uuid
  | Link uuid agent_kind ustr
  | LinkOrAdopt link_or_adopt_input claude_session_boundary
  | LinkInScope link_in_scope_input
  | AcceptContext uuid
  | ClaimContext uuid
  | Finish managed_run_authority finish_input
  | Recover managed_run_authority finish_input
  | Rename rename_workstream

definition native_part :: "finish_env \<Rightarrow> native_env" where
  "native_part env = \<lparr>builtin_scrub = builtin_scrub env, parse_uuid = parse_uuid env, new_v5_oid = new_v5_oid env\<rparr>"

fun exec :: "finish_env \<Rightarrow> store \<Rightarrow> int \<times> ws_command \<Rightarrow> store \<times> uuid option" where
  "exec env s (now, Prepare wid rid input owner force) = (committed s (prepare_run wid rid now s input owner force), None)"
| "exec env s (now, Heartbeat rid) = (fst (heartbeat now s rid), None)"
| "exec env s (now, Cancel rid) = (fst (cancel_run now s rid), None)"
| "exec env s (now, Link rid agent native) = (committed s (link_native_session (native_part env) now s rid agent native), None)"
| "exec env s (now, LinkOrAdopt input boundary) =
     (committed s (link_or_adopt_native_session (native_part env) now s input boundary), None)"
| "exec env s (now, LinkInScope input) = (committed s (link_native_session_in_scope (native_part env) now s input), None)"
| "exec env s (now, AcceptContext rid) = (fst (accept_context now s rid), None)"
| "exec env s (now, ClaimContext rid) =
     (case claim_context_in_transaction now s rid of (s', ok) \<Rightarrow> (s', if ok then Some rid else None))"
| "exec env s (now, Finish authority input) = (committed s (finish_run env now s authority input), None)"
| "exec env s (now, Recover authority input) = (committed s (recover_run env now s authority input), None)"
| "exec env s (now, Rename input) = (committed s (rename s input), None)"

fun exec_all :: "finish_env \<Rightarrow> store \<Rightarrow> (int \<times> ws_command) list \<Rightarrow> store" where
  "exec_all env s [] = s"
| "exec_all env s (c # cs) = exec_all env (fst (exec env s c)) cs"

text \<open>The contexts handed out along a sequence of commands, in order.\<close>

fun claimed_contexts :: "finish_env \<Rightarrow> store \<Rightarrow> (int \<times> ws_command) list \<Rightarrow> uuid list" where
  "claimed_contexts env s [] = []"
| "claimed_contexts env s (c # cs) =
     (case exec env s c of
        (s', None) \<Rightarrow> claimed_contexts env s' cs
      | (s', Some rid) \<Rightarrow> rid # claimed_contexts env s' cs)"

section \<open>Every command keeps the invariant\<close>

lemma rename_inv: "ws_inv s \<Longrightarrow> rename s input = Inr (s', r) \<Longrightarrow> ws_inv s'"
  using rename_spec by blast

lemma committed_inv:
  "ws_inv s \<Longrightarrow> (\<And>s' x. r = Inr (s', x) \<Longrightarrow> ws_inv s') \<Longrightarrow> ws_inv (committed s r)"
  by (auto simp: committed_def split: sum.splits)

lemma exec_inv: "ws_inv s \<Longrightarrow> ws_inv (fst (exec env s c))"
proof -
  assume inv: "ws_inv s"
  obtain now cmd where c: "c = (now, cmd)" by (cases c)
  show ?thesis
  proof (cases cmd)
    case (Prepare wid rid input owner force)
    then show ?thesis using prepare_run_inv[OF inv] by (simp add: c committed_inv[OF inv])
  next
    case (Link rid agent native)
    then show ?thesis using link_native_session_inv[OF inv] by (simp add: c committed_inv[OF inv])
  next
    case (LinkOrAdopt input boundary)
    then show ?thesis using link_or_adopt_inv[OF inv] by (simp add: c committed_inv[OF inv])
  next
    case (LinkInScope input)
    then show ?thesis using link_in_scope_inv[OF inv] by (simp add: c committed_inv[OF inv])
  next
    case (AcceptContext rid)
    then show ?thesis using accept_context_inv[OF inv] by (metis accept_context_def c exec.simps(7) fst_conv prod.collapse)
  next
    case (ClaimContext rid)
    obtain s' ok where r: "claim_context_in_transaction now s rid = (s', ok)" by fastforce
    then have "ws_inv s'" using accept_context_inv[OF inv] unfolding claim_context_in_transaction_def by blast
    with r ClaimContext show ?thesis by (simp add: c)
  next
    case (Finish authority input)
    then show ?thesis using finish_inv[OF inv] by (simp add: c finish_run_def committed_inv[OF inv])
  next
    case (Recover authority input)
    then show ?thesis using finish_inv[OF inv] by (simp add: c recover_run_def committed_inv[OF inv])
  next
    case (Rename input)
    then show ?thesis using rename_inv[OF inv] by (simp add: c committed_inv[OF inv])
  qed (simp_all add: c heartbeat_inv[OF inv] cancel_run_inv[OF inv])
qed

section \<open>What no command ever undoes\<close>

definition run_le :: "run_row \<Rightarrow> run_row \<Rightarrow> bool" where
  "run_le r r' \<longleftrightarrow> run_id r' = run_id r \<and> run_owner_user r' = run_owner_user r
     \<and> (run_context_delivered r \<longrightarrow> run_context_delivered r') \<and> (run_state r = RunFinished \<longrightarrow> run_state r' = RunFinished)"

definition runs_le :: "run_row list \<Rightarrow> run_row list \<Rightarrow> bool" where
  "runs_le rs rs' \<longleftrightarrow> (\<forall>r \<in> set rs. \<exists>r' \<in> set rs'. run_le r r')"

definition natives_le :: "native_row list \<Rightarrow> native_row list \<Rightarrow> bool" where
  "natives_le ns ns' \<longleftrightarrow> (\<forall>n \<in> set ns. \<exists>n' \<in> set ns'. native_key n' = native_key n
     \<and> nss_delivery_cursor n \<le> nss_delivery_cursor n')"

definition store_le :: "store \<Rightarrow> store \<Rightarrow> bool" where
  "store_le s s' \<longleftrightarrow> (\<exists>rows. workstream_events s' = workstream_events s @ rows)
     \<and> natives_le (native_sessions s) (native_sessions s') \<and> runs_le (managed_runs s) (managed_runs s')"

lemma run_le_refl [simp]: "run_le r r" by (simp add: run_le_def)

lemma runs_le_refl [simp]: "runs_le rs rs" unfolding runs_le_def using run_le_refl by blast

lemma natives_le_refl [simp]: "natives_le ns ns" by (auto simp: natives_le_def)

lemma runs_le_trans [trans]: "runs_le a b \<Longrightarrow> runs_le b c \<Longrightarrow> runs_le a c"
  unfolding runs_le_def run_le_def by fastforce

lemma natives_le_trans: "natives_le a b \<Longrightarrow> natives_le b c \<Longrightarrow> natives_le a c"
  unfolding natives_le_def by (metis order_trans)

lemma store_le_refl [simp]: "store_le s s"
  by (simp add: store_le_def)

lemma store_le_trans: "store_le a b \<Longrightarrow> store_le b c \<Longrightarrow> store_le a c"
  unfolding store_le_def using runs_le_trans natives_le_trans by (metis append_assoc)

lemma runs_le_update: "(\<And>r. P r \<Longrightarrow> run_le r (f r)) \<Longrightarrow> runs_le rs (update_where P f rs)"
  unfolding runs_le_def using in_update_where[of _ rs P f] run_le_refl by (metis (full_types))

lemma runs_le_append: "runs_le rs (rs @ added)"
  unfolding runs_le_def using run_le_refl by fastforce

lemma runs_le_same: "managed_runs s' = managed_runs s \<Longrightarrow> runs_le (managed_runs s) (managed_runs s')"
  by simp

lemma expire_stale_le: "runs_le (managed_runs s) (managed_runs (expire_stale now s))"
  unfolding expire_stale_def by simp (rule runs_le_update, simp add: run_le_def)

lemma release_busy_le: "release_busy now s w owner force = Inr s' \<Longrightarrow> runs_le (managed_runs s) (managed_runs s')"
  by (auto simp: release_busy_def run_le_def intro!: runs_le_update split: option.splits if_splits)

lemma prepare_run_le:
  assumes "ws_inv s" "prepare_run wid rid now s input owner force = Inr (s', pr)"
  shows "store_le s s'"
  using assms(2)
proof (rule prepare_run_InrE)
  fix s2 w name s3
  assume sel: "select_workstream wid now (expire_stale now s) input = Inr (s2, w, name)"
    and rel: "release_busy now s2 w owner force = Inr s3"
    and op: "open_run rid now s3 input owner w name = Inr (s', pr)"
  note s2 = expire_stale_inv_select[OF assms(1) sel]
  note s3 = release_busy_spec[OF rel s2(1)]
  note o = open_run_InrD[OF op release_busy_inv[OF s2(1) rel]]
  have "runs_le (managed_runs s) (managed_runs s2)" using expire_stale_le s2(2) by simp
  also have "runs_le (managed_runs s2) (managed_runs s3)" by (rule release_busy_le[OF rel])
  also have "runs_le (managed_runs s3) (managed_runs s')" unfolding o(3) by (rule runs_le_append)
  finally show "store_le s s'"
    unfolding store_le_def using s2(3,4) s3(4,5) o(4,5) by auto
qed

lemma bind_native_le:
  assumes "ws_inv s" "run \<in> set (managed_runs s)" "bind_native now s run agent native = Inr s'"
  shows "store_le s s'"
proof -
  define d where "d = bind_delivery now s run agent native"
  have s': "s' = s\<lparr>native_sessions := promote now (link_row now run agent native d) (link_conflict now d) (native_sessions s),
      managed_runs := update_where (\<lambda>r. run_id r = run_id run) (link_run now native d) (managed_runs s)\<rparr>"
    using assms(3) unfolding bind_native_eq[OF assms(1,2)] d_def by simp
  have "runs_le (managed_runs s) (managed_runs s')"
    unfolding s' by simp (rule runs_le_update, simp add: run_le_def)
  moreover have "natives_le (native_sessions s) (native_sessions s')"
    using bind_native_current(2)[OF assms] by (simp add: natives_le_def)
  ultimately show ?thesis by (simp add: store_le_def s')
qed

lemma link_tx_le:
  assumes "ws_inv s" "link_native_session_in_transaction env now s rid agent native boundary = Inr (s', b)"
  shows "store_le s s'"
  by (rule link_tx_cases[OF assms(1), of env now rid agent native boundary])
    (use assms bind_native_le in auto)

lemma link_selected_le:
  "ws_inv s \<Longrightarrow> link_selected env now s input boundary native rid outcome = Inr (s', out) \<Longrightarrow> store_le s s'"
  using link_selected_cases link_tx_le store_le_refl by metis

lemma link_le:
  assumes "ws_inv s"
  shows "link_or_adopt_native_session env now s input boundary = Inr (s', out) \<Longrightarrow> store_le s s'"
    and "link_native_session_in_scope env now s scope = Inr (s', out) \<Longrightarrow> store_le s s'"
    and "link_native_session env now s rid agent raw = Inr (s', b) \<Longrightarrow> store_le s s'"
proof -
  show "store_le s s'" if "link_or_adopt_native_session env now s input boundary = Inr (s', out)"
    using that by (cases rule: link_or_adopt_cases) (auto dest: link_selected_le[OF assms])
  show "store_le s s'" if "link_native_session_in_scope env now s scope = Inr (s', out)"
    using that by (cases rule: link_in_scope_cases) (auto dest: link_tx_le[OF assms])
  show "store_le s s'" if "link_native_session env now s rid agent raw = Inr (s', b)"
    using that by (auto simp: link_native_session_def dest: link_tx_le[OF assms] split: sum.splits)
qed

lemma natives_le_update:
  "(\<And>n. P n \<Longrightarrow> native_key (f n) = native_key n \<and> nss_delivery_cursor n \<le> nss_delivery_cursor (f n))
    \<Longrightarrow> natives_le ns (update_where P f ns)"
  unfolding natives_le_def using in_update_where[of _ ns P f] by (metis (full_types) order_refl)

lemma accept_context_le:
  assumes "accept_context_in_transaction now s rid req = (s', ok)"
  shows "store_le s s'"
  using assms
proof (cases rule: accept_context_cases)
  case (2 run)
  have "runs_le (managed_runs s) (delivered_runs now rid (managed_runs s))"
    unfolding delivered_runs_def by (rule runs_le_update) (simp add: run_le_def)
  moreover have "natives_le (native_sessions s) (delivered_natives now run (native_sessions s))"
    unfolding delivered_natives_def by (rule natives_le_update) (simp add: native_key_def)
  ultimately show ?thesis by (simp add: 2(6) store_le_def)
qed simp

lemma finish_le:
  assumes "ws_inv s" "finish_run_inner env now s authority input rec = Inr (s', fr)"
  shows "store_le s s'"
  using assms(2,1)
proof (cases rule: finish_InrE)
  case (import run s1)
  have s1: "native_sessions s1 = native_sessions s" "runs_le (managed_runs s) (managed_runs s1)"
  proof -
    have "runs_le (managed_runs s) (reopened_runs now (fi_run input) (managed_runs s))"
      unfolding reopened_runs_def by (rule runs_le_update) (simp add: run_le_def)
    then show "native_sessions s1 = native_sessions s" "runs_le (managed_runs s) (managed_runs s1)"
      using import(2) by (auto dest: reopen_expired_InrD(1))
  qed
  from import(7,3,6) show ?thesis
  proof (rule import_batch_InrE)
    fix native rows ns
    assume s': "s' = closed_store now input (run_workstream run) native
        (s1\<lparr>workstream_events := workstream_events s1 @ rows, native_sessions := ns\<rparr>)"
      and ns: "\<forall>m \<in> set (native_sessions s1). \<exists>n \<in> set ns. native_key n = native_key m \<and> nss_delivery_cursor m \<le> nss_delivery_cursor n"
    have "runs_le (managed_runs s1) (managed_runs s')"
      unfolding s' closed_store_def by simp (rule runs_le_update, simp add: run_le_def)
    then have "runs_le (managed_runs s) (managed_runs s')" using s1(2) runs_le_trans by blast
    moreover have "natives_le (native_sessions s) (native_sessions s')"
      using ns by (simp add: s' closed_store_def natives_le_def s1(1))
    ultimately show "store_le s s'" using import(4) by (auto simp: store_le_def s' closed_store_def)
  qed
qed simp

lemma committed_le:
  "(\<And>s' x. r = Inr (s', x) \<Longrightarrow> store_le s s') \<Longrightarrow> store_le s (committed s r)"
  by (auto simp: committed_def split: sum.splits)

lemma lease_le:
  "store_le s (fst (heartbeat now s rid))" "store_le s (fst (cancel_run now s rid))"
  by (auto simp: heartbeat_def cancel_run_def Let_def store_le_def run_le_def intro!: runs_le_update)

lemma rename_le:
  assumes "ws_inv s" "rename s input = Inr (s', r)"
  shows "store_le s s'"
proof -
  have "s' = s\<lparr>workstreams := update_where (\<lambda>w. wst_id w = rd_id r) (\<lambda>w. w\<lparr>wst_name := rd_to r\<rparr>) (workstreams s)\<rparr>"
    using rename_spec[OF assms(1)] assms(2) by blast
  then show ?thesis by (simp add: store_le_def)
qed

lemma exec_le:
  assumes inv: "ws_inv s"
  shows "store_le s (fst (exec env s c))"
proof -
  obtain now cmd where c: "c = (now, cmd)" by (cases c)
  show ?thesis
  proof (cases cmd)
    case (Prepare wid rid input owner force)
    then show ?thesis using prepare_run_le[OF inv] by (simp add: c committed_le)
  next
    case (Link rid agent native)
    then show ?thesis using link_le(3)[OF inv] by (simp add: c committed_le)
  next
    case (LinkOrAdopt input boundary)
    then show ?thesis using link_le(1)[OF inv] by (simp add: c committed_le)
  next
    case (LinkInScope input)
    then show ?thesis using link_le(2)[OF inv] by (simp add: c committed_le)
  next
    case (AcceptContext rid)
    then show ?thesis using accept_context_le by (metis accept_context_def c exec.simps(7) fst_conv prod.collapse)
  next
    case (ClaimContext rid)
    obtain s' ok where r: "claim_context_in_transaction now s rid = (s', ok)" by fastforce
    then have "store_le s s'" using accept_context_le unfolding claim_context_in_transaction_def by blast
    with r ClaimContext show ?thesis by (simp add: c)
  next
    case (Finish authority input)
    then show ?thesis using finish_le[OF inv] by (simp add: c finish_run_def committed_le)
  next
    case (Recover authority input)
    then show ?thesis using finish_le[OF inv] by (simp add: c recover_run_def committed_le)
  next
    case (Rename input)
    then show ?thesis using rename_le[OF inv] by (simp add: c committed_le)
  qed (simp_all add: c lease_le)
qed

section \<open>The interfaces, on the workstream tables\<close>

definition no_workstreams :: "store \<Rightarrow> bool" where
  "no_workstreams s \<longleftrightarrow> workstreams s = [] \<and> managed_runs s = [] \<and> native_sessions s = [] \<and> workstream_events s = []"

lemma no_workstreams_inv: "no_workstreams s \<Longrightarrow> ws_inv s"
  by (simp add: no_workstreams_def ws_inv_defs ledger_ok_def ledger_def)

interpretation wsys: step_system no_workstreams "\<lambda>s c s'. s' = fst (exec env s c)" ws_inv for env
  by unfold_locales (simp_all add: no_workstreams_inv exec_inv)

definition context_taken :: "store \<Rightarrow> uuid \<Rightarrow> bool" where
  "context_taken s rid \<longleftrightarrow> (\<exists>r \<in> set (managed_runs s). run_id r = rid \<and> run_context_delivered r)"

lemma context_taken_le: "store_le s s' \<Longrightarrow> context_taken s rid \<Longrightarrow> context_taken s' rid"
  unfolding store_le_def runs_le_def run_le_def context_taken_def by metis

lemma exec_claims:
  assumes "ws_inv s" "exec env s c = (s', Some rid)"
  shows "\<not> context_taken s rid \<and> context_taken s' rid"
proof -
  obtain now where claim: "claim_context_in_transaction now s rid = (s', True)"
    using assms(2) by (cases c; cases "snd c") (auto split: if_splits prod.splits)
  then have acc: "accept_context_in_transaction now s rid True = (s', True)"
    by (simp add: claim_context_in_transaction_def)
  from acc obtain run where run: "run \<in> set (managed_runs s)" "run_id run = rid" "\<not> run_context_delivered run"
    "s' = s\<lparr>managed_runs := delivered_runs now rid (managed_runs s), native_sessions := delivered_natives now run (native_sessions s)\<rparr>"
    by (auto elim: accept_context_cases)
  have "r = run" if "r \<in> set (managed_runs s)" "run_id r = rid" for r
    using that run(1,2) assms(1) by (auto simp: ws_inv_def runs_ok_def dest: unique_onD)
  then have "\<not> context_taken s rid" using run(3) by (auto simp: context_taken_def)
  moreover have "run\<lparr>run_context_delivered := True, run_lease_expires_at := now + lease_micros\<rparr> \<in> set (managed_runs s')"
    using in_update_where[OF run(1), of "\<lambda>r. run_id r = rid"
        "\<lambda>r. r\<lparr>run_context_delivered := True, run_lease_expires_at := now + lease_micros\<rparr>"] run(2)
    by (simp add: run(4) delivered_runs_def)
  then have "context_taken s' rid" unfolding context_taken_def by (rule bexI[rotated]) (simp add: run(2))
  ultimately show ?thesis ..
qed

interpretation wctx: claim_once ws_inv "exec env" context_taken "\<lambda>_. True" for env
proof
  show "ws_inv s'" if "ws_inv s" "exec env s c = (s', r)" for s c s' r
    using exec_inv[OF that(1), of env c] that(2) by simp
  show "\<not> context_taken s k \<and> context_taken s' k" if "ws_inv s" "exec env s c = (s', Some k)" for s c s' k
    using exec_claims[OF that] .
  show "context_taken s' k" if "ws_inv s" "context_taken s k" "exec env s c = (s', r)" for s k c s' r
    using context_taken_le[OF exec_le[OF that(1), of env c] that(2)] that(3) by simp
qed

lemma exec_all_run: "wsys.run env s cs (exec_all env s cs)"
proof -
  have "wsys.run env s (pre @ cs) (exec_all env t cs)" if "wsys.run env s pre t" for pre t
    using that
  proof (induction cs arbitrary: pre t)
    case (Cons c cs)
    have "wsys.run env s (pre @ [c]) (fst (exec env t c))" using Cons.prems by (rule wsys.run_snoc) simp
    from Cons.IH[OF this] show ?case by simp
  qed simp
  from this[OF wsys.run_nil] show ?thesis by simp
qed

lemma claimed_contexts_granted: "claimed_contexts env s cs = wctx.granted env s cs"
  by (induction cs arbitrary: s) (auto split: prod.splits option.splits)

lemma exec_all_le: "ws_inv s \<Longrightarrow> store_le s (exec_all env s cs)"
  by (induction cs arbitrary: s) (auto intro: store_le_trans exec_le exec_inv)

section \<open>Properties of every history\<close>

text \<open>
  C1. Starting without workstreams, after any sequence of commands: a workstream has at most one active
  run, a workstream and harness have at most one current native session, the events of a workstream are
  numbered \<open>1, 2, \<dots>\<close> without a gap and without a repeated id, and no run or session cursor points past
  the end of its ledger.
\<close>

theorem reachable_invariant:
  assumes "no_workstreams s"
  shows "length (filter (\<lambda>r. run_workstream r = w \<and> run_state r = RunActive) (managed_runs (exec_all env s cs))) \<le> 1
    \<and> length (filter (\<lambda>n. nss_workstream n = w \<and> nss_agent_kind n = a \<and> nss_is_current n) (native_sessions (exec_all env s cs))) \<le> 1
    \<and> map evt_sequence (ledger (workstream_events (exec_all env s cs)) w)
        = map int [1..<Suc (length (ledger (workstream_events (exec_all env s cs)) w))]
    \<and> distinct (map evt_event_id (ledger (workstream_events (exec_all env s cs)) w))
    \<and> run_cursors_ok (workstream_events (exec_all env s cs)) (managed_runs (exec_all env s cs))
    \<and> native_cursors_ok (workstream_events (exec_all env s cs)) (native_sessions (exec_all env s cs))"
proof -
  let ?s = "exec_all env s cs"
  have inv: "ws_inv ?s" using wsys.reachable_inv[OF assms exec_all_run] .
  have 1: "length (filter (\<lambda>r. run_workstream r = w \<and> run_state r = RunActive) (managed_runs ?s)) \<le> 1"
    using inv by (intro unique_on_at_most_one[of "\<lambda>r. run_state r = RunActive" run_workstream _ _ w]) (simp_all add: ws_inv_def runs_ok_def)
  have 2: "length (filter (\<lambda>n. nss_workstream n = w \<and> nss_agent_kind n = a \<and> nss_is_current n) (native_sessions ?s)) \<le> 1"
    using inv by (intro unique_on_at_most_one[of nss_is_current native_slot _ _ "(w, a)"]) (simp_all add: ws_inv_def natives_ok_def native_slot_def)
  have 3: "map evt_sequence (ledger (workstream_events ?s) w) = map int [1..<Suc (length (ledger (workstream_events ?s) w))]"
    "distinct (map evt_event_id (ledger (workstream_events ?s) w))"
    using inv by (simp_all only: ws_inv_def ledger_ok_def)
  show ?thesis using 1 2 3 inv by (simp only: ws_inv_def)
qed

theorem reachable_invariant_witness:
  "length (filter (\<lambda>r. run_workstream r = 10 \<and> run_state r = RunActive)
     (managed_runs (exec_all demo_fenv demo_store [(1000, Prepare 10 20 demo_input None False), (2000, Cancel 20)]))) \<le> 1"
proof -
  have "no_workstreams demo_store" by (simp add: no_workstreams_def demo_store_def empty_store_def)
  from reachable_invariant[OF this] show ?thesis by blast
qed

text \<open>
  C3. Each synchronization context is handed out at most once: along any sequence of commands, in any
  order and from any number of hooks, no run's context is claimed successfully twice.
\<close>

theorem contexts_claimed_once:
  assumes "ws_inv s"
  shows "distinct (claimed_contexts env s cs)"
  unfolding claimed_contexts_granted using assms by (rule wctx.granted_once) simp

theorem contexts_claimed_once_witness:
  "distinct (claimed_contexts demo_fenv demo_linked [(3000, ClaimContext 20), (4000, ClaimContext 20)])
   \<and> claimed_contexts demo_fenv demo_linked [(3000, ClaimContext 20), (4000, ClaimContext 20)] = [20]"
proof
  show "distinct (claimed_contexts demo_fenv demo_linked [(3000, ClaimContext 20), (4000, ClaimContext 20)])"
    by (rule contexts_claimed_once[OF demo_linked_inv])
  show "claimed_contexts demo_fenv demo_linked [(3000, ClaimContext 20), (4000, ClaimContext 20)] = [20]" by code_simp
qed

text \<open>
  Nothing is taken back: along any sequence of commands the ledger only grows at its end, no delivery
  cursor of a native session decreases, and a run that was finished, or whose context was delivered, stays
  so and keeps its owner.
\<close>

theorem history_monotone:
  assumes "ws_inv s"
  shows "(\<exists>rows. workstream_events (exec_all env s cs) = workstream_events s @ rows)
    \<and> (\<forall>n \<in> set (native_sessions s). \<exists>n' \<in> set (native_sessions (exec_all env s cs)).
         native_key n' = native_key n \<and> nss_delivery_cursor n \<le> nss_delivery_cursor n')
    \<and> (\<forall>r \<in> set (managed_runs s). \<exists>r' \<in> set (managed_runs (exec_all env s cs)).
         run_id r' = run_id r \<and> run_owner_user r' = run_owner_user r
         \<and> (run_context_delivered r \<longrightarrow> run_context_delivered r')
         \<and> (run_state r = RunFinished \<longrightarrow> run_state r' = RunFinished))"
  using exec_all_le[OF assms, of env cs] by (simp add: store_le_def runs_le_def run_le_def natives_le_def)

theorem history_monotone_witness:
  "\<exists>rows. workstream_events (exec_all demo_fenv demo_linked [(3000, ClaimContext 20)]) = workstream_events demo_linked @ rows"
  using history_monotone[OF demo_linked_inv] by blast

end
