(* ===== verification/Messages.thy ===== *)
theory Messages
  imports Schema Text
begin

text \<open>
  The cross-project message queue (\<^verbatim>\<open>crates/ai-memory-core/src/message.rs\<close> and the message section of
  \<^verbatim>\<open>crates/ai-memory-store/src/ops.rs\<close>): sending with backpressure, popping exactly once, cancelling by the
  sender, and taking a message out of the queue to edit it. The lemmas show that a message is handed out
  at most once whatever the interleaving, that a pop takes the oldest message addressed to the caller,
  that every operation stays inside its mailbox, and how the pending bound behaves.
\<close>

section \<open>Data\<close>

datatype message_nature = NatUnknown | NatMeasured | NatReported | NatInferred

fun message_nature_str :: "message_nature \<Rightarrow> ustr" where
  "message_nature_str NatUnknown = lit ''unknown''"
| "message_nature_str NatMeasured = lit ''measured''"
| "message_nature_str NatReported = lit ''reported''"
| "message_nature_str NatInferred = lit ''inferred''"

definition message_nature_from_str :: "ustr \<Rightarrow> message_nature store_result" where
  "message_nature_from_str v =
     (if v = lit ''unknown'' then Inr NatUnknown
      else if v = lit ''measured'' then Inr NatMeasured
      else if v = lit ''reported'' then Inr NatReported
      else if v = lit ''inferred'' then Inr NatInferred
      else Inl (MalformedRecord ''unknown message nature''))"

fun message_state_str :: "message_state \<Rightarrow> ustr" where
  "message_state_str MsgPending = lit ''pending''"
| "message_state_str MsgClaimed = lit ''claimed''"
| "message_state_str MsgCancelled = lit ''cancelled''"
| "message_state_str MsgEditing = lit ''editing''"

definition message_state_from_str :: "ustr \<Rightarrow> message_state store_result" where
  "message_state_from_str v =
     (if v = lit ''pending'' then Inr MsgPending
      else if v = lit ''claimed'' then Inr MsgClaimed
      else if v = lit ''cancelled'' then Inr MsgCancelled
      else if v = lit ''editing'' then Inr MsgEditing
      else Inl (MalformedRecord ''unknown message state''))"

record new_agent_message =
  nm_from_workspace :: uuid
  nm_from_project :: uuid
  nm_from_agent :: agent_kind
  nm_from_session :: "uuid option"
  nm_from_owner_user :: "ustr option"
  nm_to_workspace :: uuid
  nm_to_project :: uuid
  nm_to_agent :: "agent_kind option"
  nm_subject :: "ustr option"
  nm_body :: ustr
  nm_nature :: message_nature
  nm_evidence :: "ustr option"

record message_claim =
  mc_workspace :: uuid
  mc_project :: uuid
  mc_agent :: agent_kind
  mc_session :: "uuid option"
  mc_user :: "ustr option"

record agent_message =
  am_id :: uuid
  am_to_workspace :: uuid
  am_to_project :: uuid
  am_to_agent :: "agent_kind option"
  am_from_workspace :: uuid
  am_from_project :: uuid
  am_from_agent :: agent_kind
  am_from_owner_user :: "ustr option"
  am_subject :: "ustr option"
  am_body :: ustr
  am_nature :: message_nature
  am_evidence :: "ustr option"
  am_state :: message_state
  am_created_at :: int
  am_claimed_at :: "int option"

definition message_field_max_bytes :: nat where
  "message_field_max_bytes = 16 * 1024"

definition message_evidence_max_bytes :: nat where
  "message_evidence_max_bytes = 1000"

definition max_pending_inbox_messages :: nat where
  "max_pending_inbox_messages = 256"

definition bound_message_field :: "ustr \<Rightarrow> ustr" where
  "bound_message_field v = truncate_utf8_bytes v message_field_max_bytes"

definition bound_message_evidence :: "ustr \<Rightarrow> ustr" where
  "bound_message_evidence v = truncate_utf8_bytes v message_evidence_max_bytes"

definition row_to_agent_message :: "message_row \<Rightarrow> agent_message store_result" where
  "row_to_agent_message m =
     and_then (message_nature_from_str (case msg_nature m of None \<Rightarrow> lit ''unknown'' | Some n \<Rightarrow> n)) (\<lambda>nature. Inr
       \<lparr>am_id = msg_id m, am_to_workspace = msg_to_workspace m, am_to_project = msg_to_project m,
        am_to_agent = map_option from_wire (msg_to_agent m), am_from_workspace = msg_from_workspace m,
        am_from_project = msg_from_project m, am_from_agent = from_wire (msg_from_agent m),
        am_from_owner_user = msg_from_owner_user m, am_subject = msg_subject m, am_body = msg_body m,
        am_nature = nature, am_evidence = msg_evidence m, am_state = msg_state m,
        am_created_at = msg_created_at m, am_claimed_at = msg_claimed_at m\<rparr>)"

section \<open>Mailboxes\<close>

definition in_inbox :: "uuid \<Rightarrow> uuid \<Rightarrow> message_row \<Rightarrow> bool" where
  "in_inbox workspace project m \<longleftrightarrow> msg_to_workspace m = workspace \<and> msg_to_project m = project"

definition in_outbox :: "uuid \<Rightarrow> uuid \<Rightarrow> message_row \<Rightarrow> bool" where
  "in_outbox workspace project m \<longleftrightarrow> msg_from_workspace m = workspace \<and> msg_from_project m = project"

definition pending_in :: "uuid \<Rightarrow> uuid \<Rightarrow> message_row list \<Rightarrow> nat" where
  "pending_in workspace project msgs =
     changed_rows (\<lambda>m. in_inbox workspace project m \<and> msg_state m = MsgPending) msgs"

text \<open>\<^verbatim>\<open>to_agent IS NULL OR to_agent = ?\<close>\<close>

definition addressed_to :: "agent_kind \<Rightarrow> message_row \<Rightarrow> bool" where
  "addressed_to agent m \<longleftrightarrow> msg_to_agent m = None \<or> msg_to_agent m = Some (as_str agent)"

definition claimable :: "message_claim \<Rightarrow> message_row \<Rightarrow> bool" where
  "claimable claim m \<longleftrightarrow> in_inbox (mc_workspace claim) (mc_project claim) m \<and> msg_state m = MsgPending
     \<and> addressed_to (mc_agent claim) m"

section \<open>Sending\<close>

definition new_message_row :: "uuid \<Rightarrow> int \<Rightarrow> new_agent_message \<Rightarrow> message_row" where
  "new_message_row mid now m =
     \<lparr>msg_id = mid, msg_from_workspace = nm_from_workspace m, msg_from_project = nm_from_project m,
      msg_from_agent = as_str (nm_from_agent m), msg_from_session = nm_from_session m,
      msg_from_owner_user = nm_from_owner_user m, msg_to_workspace = nm_to_workspace m,
      msg_to_project = nm_to_project m, msg_subject = map_option bound_message_field (nm_subject m),
      msg_body = bound_message_field (nm_body m), msg_state = MsgPending, msg_created_at = now,
      msg_claimed_at = None, msg_claimed_by_session = None, msg_claimed_by_agent = None,
      msg_claimed_by_user = None, msg_nature = Some (message_nature_str (nm_nature m)),
      msg_evidence = map_option bound_message_evidence (nm_evidence m),
      msg_to_agent = map_option as_str (nm_to_agent m), msg_edited_at = None\<rparr>"

definition insert_message_row :: "store \<Rightarrow> message_row \<Rightarrow> store store_result" where
  "insert_message_row s row =
     (if msg_id row \<in> msg_id ` set (agent_messages s)
      then Inl (Sqlite ''UNIQUE constraint failed: agent_messages.id'')
      else if \<not> {msg_from_workspace row, msg_to_workspace row} \<subseteq> wsp_id ` set (workspaces s)
         \<or> \<not> {msg_from_project row, msg_to_project row} \<subseteq> prj_id ` set (projects s)
         \<or> \<not> set_option (msg_from_session row) \<subseteq> ses_id ` set (sessions s)
      then Inl (Sqlite ''FOREIGN KEY constraint failed'')
      else Inr (s\<lparr>agent_messages := agent_messages s @ [row]\<rparr>))"

definition insert_message :: "uuid \<Rightarrow> int \<Rightarrow> store \<Rightarrow> new_agent_message \<Rightarrow> (store \<times> uuid) store_result" where
  "insert_message mid now s m =
     and_then (validate_identity_storage_key (nm_from_owner_user m) ''message sender'') (\<lambda>_.
       if nm_nature m = NatMeasured \<and> (case nm_evidence m of None \<Rightarrow> True | Some v \<Rightarrow> trim v = [])
       then Inl (InvalidState ''evidence_required: measured messages require non-empty evidence'')
       else if pending_in (nm_to_workspace m) (nm_to_project m) (agent_messages s) \<ge> max_pending_inbox_messages
       then Inl (InvalidState ''recipient inbox is full'')
       else and_then (insert_message_row s (new_message_row mid now m)) (\<lambda>s'.
         Inr (audit s' ''send_message'' (Some (nm_to_workspace m)) (Some (nm_to_project m)) None None now, mid)))"

section \<open>Popping\<close>

definition pop_target :: "store \<Rightarrow> message_claim \<Rightarrow> uuid option \<Rightarrow> uuid option" where
  "pop_target s claim specific_id =
     (case specific_id of
        Some i \<Rightarrow> Some i
      | None \<Rightarrow> map_option msg_id (first_by msg_created_at (filter (claimable claim) (agent_messages s))))"

definition claim_row :: "int \<Rightarrow> message_claim \<Rightarrow> message_row \<Rightarrow> message_row" where
  "claim_row now claim m =
     m\<lparr>msg_state := MsgClaimed, msg_claimed_at := Some now, msg_claimed_by_session := mc_session claim,
       msg_claimed_by_agent := Some (as_str (mc_agent claim)), msg_claimed_by_user := mc_user claim\<rparr>"

definition pop_message_in_transaction ::
  "int \<Rightarrow> store \<Rightarrow> message_claim \<Rightarrow> uuid option \<Rightarrow> (store \<times> agent_message option) store_result" where
  "pop_message_in_transaction now s claim specific_id =
     and_then (validate_identity_storage_key (mc_user claim) ''message recipient'') (\<lambda>_.
       case pop_target s claim specific_id of
         None \<Rightarrow> Inr (s, None)
       | Some target \<Rightarrow>
           let P = (\<lambda>m. msg_id m = target \<and> claimable claim m) in
           if \<not> exists_row P (agent_messages s) then Inr (s, None)
           else if changed_rows P (agent_messages s) = 0 then Inr (s, None)
           else if \<not> set_option (mc_session claim) \<subseteq> ses_id ` set (sessions s)
           then Inl (Sqlite ''FOREIGN KEY constraint failed'')
           else
             let s1 = audit (s\<lparr>agent_messages := update_where P (claim_row now claim) (agent_messages s)\<rparr>)
                        ''pop_message'' (Some (mc_workspace claim)) (Some (mc_project claim)) None None now
             in (case find (\<lambda>m. msg_id m = target \<and> in_inbox (mc_workspace claim) (mc_project claim) m) (agent_messages s1) of
                   None \<Rightarrow> Inr (s1, None)
                 | Some row \<Rightarrow> and_then (row_to_agent_message row) (\<lambda>am. Inr (s1, Some am))))"

definition pop_message ::
  "int \<Rightarrow> store \<Rightarrow> message_claim \<Rightarrow> uuid option \<Rightarrow> (store \<times> agent_message option) store_result" where
  "pop_message now s claim specific_id = pop_message_in_transaction now s claim specific_id"

section \<open>Cancelling and editing\<close>

definition cancel_messages :: "int \<Rightarrow> store \<Rightarrow> uuid \<Rightarrow> uuid \<Rightarrow> uuid option \<Rightarrow> store \<times> nat" where
  "cancel_messages now s workspace project specific_id =
     (let P = (\<lambda>m. (case specific_id of None \<Rightarrow> True | Some i \<Rightarrow> msg_id m = i)
               \<and> in_outbox workspace project m \<and> msg_state m = MsgPending);
          changed = changed_rows P (agent_messages s);
          s1 = s\<lparr>agent_messages := update_where P (\<lambda>m. m\<lparr>msg_state := MsgCancelled\<rparr>) (agent_messages s)\<rparr>
      in (if changed > 0 then audit s1 ''cancel_message'' (Some workspace) (Some project) None None now else s1, changed))"

definition begin_message_edit ::
  "int \<Rightarrow> store \<Rightarrow> uuid \<Rightarrow> uuid \<Rightarrow> uuid \<Rightarrow> (store \<times> agent_message option) store_result" where
  "begin_message_edit now s workspace project i =
     (let P = (\<lambda>m. msg_id m = i \<and> in_inbox workspace project m \<and> msg_state m = MsgPending) in
      if changed_rows P (agent_messages s) = 0 then Inr (s, None)
      else
        let s1 = s\<lparr>agent_messages := update_where P (\<lambda>m. m\<lparr>msg_state := MsgEditing\<rparr>) (agent_messages s)\<rparr> in
        case find (\<lambda>m. msg_id m = i) (agent_messages s1) of
          None \<Rightarrow> Inl (Sqlite ''query returned no rows'')
        | Some row \<Rightarrow> and_then (row_to_agent_message row) (\<lambda>am.
            Inr (audit s1 ''edit_message_begin'' (Some workspace) (Some project) None None now, Some am)))"

definition finish_message_edit ::
  "int \<Rightarrow> store \<Rightarrow> uuid \<Rightarrow> uuid \<Rightarrow> uuid \<Rightarrow> (ustr option \<times> ustr) option \<Rightarrow> store \<times> bool" where
  "finish_message_edit now s workspace project i replacement =
     (let P = (\<lambda>m. msg_id m = i \<and> in_inbox workspace project m \<and> msg_state m = MsgEditing);
          f = (case replacement of
                 Some (subject, body) \<Rightarrow> (\<lambda>m. m\<lparr>msg_state := MsgPending,
                    msg_subject := map_option bound_message_field subject, msg_body := bound_message_field body,
                    msg_edited_at := Some now\<rparr>)
               | None \<Rightarrow> (\<lambda>m. m\<lparr>msg_state := MsgPending\<rparr>));
          changed = changed_rows P (agent_messages s);
          s1 = s\<lparr>agent_messages := update_where P f (agent_messages s)\<rparr>
      in (if changed > 0
          then audit s1 (if replacement \<noteq> None then ''edit_message_save'' else ''edit_message_release'')
                 (Some workspace) (Some project) None None now
          else s1, changed > 0))"

section \<open>The invariant\<close>

text \<open>The primary key and the \<^verbatim>\<open>CHECK (nature \<dots>)\<close> constraint of the table.\<close>

definition nature_ok :: "message_row \<Rightarrow> bool" where
  "nature_ok m \<longleftrightarrow> (\<exists>n. message_nature_from_str (case msg_nature m of None \<Rightarrow> lit ''unknown'' | Some v \<Rightarrow> v) = Inr n)"

definition msgs_ok :: "message_row list \<Rightarrow> bool" where
  "msgs_ok ms \<longleftrightarrow> unique_on (\<lambda>_. True) msg_id ms \<and> (\<forall>m \<in> set ms. nature_ok m)"

lemma message_nature_roundtrip [codec_simps]: "message_nature_from_str (message_nature_str n) = Inr n"
  by (cases n) (simp_all add: message_nature_from_str_def)

lemma message_state_roundtrip [codec_simps]: "message_state_from_str (message_state_str st) = Inr st"
  by (cases st) (simp_all add: message_state_from_str_def)

interpretation nature_wire: wire_codec message_nature_str
    "\<lambda>v. case message_nature_from_str v of Inl _ \<Rightarrow> None | Inr n \<Rightarrow> Some n" "\<lambda>_. True"
  by unfold_locales (simp add: message_nature_roundtrip)

interpretation message_state_wire: wire_codec message_state_str
    "\<lambda>v. case message_state_from_str v of Inl _ \<Rightarrow> None | Inr n \<Rightarrow> Some n" "\<lambda>_. True"
  by unfold_locales (simp add: message_state_roundtrip)

lemma msgs_ok_unique: "msgs_ok ms \<Longrightarrow> m \<in> set ms \<Longrightarrow> m' \<in> set ms \<Longrightarrow> msg_id m = msg_id m' \<Longrightarrow> m = m'"
  by (auto simp: msgs_ok_def dest: unique_onD)

lemma msgs_ok_update:
  assumes "msgs_ok ms" "\<And>m. P m \<Longrightarrow> msg_id (f m) = msg_id m \<and> msg_nature (f m) = msg_nature m"
  shows "msgs_ok (update_where P f ms)"
proof -
  have "unique_on (\<lambda>_. True) msg_id (update_where P f ms)"
    using assms by (intro unique_on_update_where) (simp_all add: msgs_ok_def)
  moreover have "\<forall>m \<in> set (update_where P f ms). nature_ok m"
    using assms unfolding ball_update_where by (simp add: msgs_ok_def nature_ok_def)
  ultimately show ?thesis by (simp add: msgs_ok_def)
qed

lemma msgs_ok_append:
  assumes "msgs_ok ms" "msg_id row \<notin> msg_id ` set ms" "nature_ok row"
  shows "msgs_ok (ms @ [row])"
proof -
  have "\<forall>r \<in> set ms. msg_id r \<noteq> msg_id row" using assms(2) by (metis imageI)
  with assms(1,3) show ?thesis by (simp add: msgs_ok_def unique_on_append1)
qed

lemma claim_row_simps [simp]:
  "msg_id (claim_row now claim m) = msg_id m" "msg_nature (claim_row now claim m) = msg_nature m"
  "msg_state (claim_row now claim m) = MsgClaimed" "in_inbox w p (claim_row now claim m) = in_inbox w p m"
  "msg_claimed_by_session (claim_row now claim m) = mc_session claim"
  "msg_claimed_at (claim_row now claim m) = Some now"
  "msg_created_at (claim_row now claim m) = msg_created_at m"
  by (simp_all add: claim_row_def in_inbox_def)

lemma row_to_agent_message_ok:
  "nature_ok m \<Longrightarrow> \<exists>am. row_to_agent_message m = Inr am \<and> am_id am = msg_id m \<and> am_body am = msg_body m
    \<and> am_to_workspace am = msg_to_workspace m \<and> am_to_project am = msg_to_project m \<and> am_state am = msg_state m"
  by (auto simp: row_to_agent_message_def nature_ok_def)

section \<open>Popping, step by step\<close>

lemma pop_total:
  assumes "msgs_ok (agent_messages s)" "validate_identity_storage_key (mc_user claim) ''message recipient'' = Inr ()"
    and "set_option (mc_session claim) \<subseteq> ses_id ` set (sessions s)"
  shows "\<exists>s' r. pop_message now s claim specific = Inr (s', r)"
proof (cases "pop_target s claim specific")
  case None
  with assms(2) show ?thesis by (simp add: pop_message_def pop_message_in_transaction_def)
next
  case (Some target)
  let ?P = "\<lambda>m. msg_id m = target \<and> claimable claim m"
  let ?ms = "update_where ?P (claim_row now claim) (agent_messages s)"
  have "msgs_ok ?ms" using assms(1) by (rule msgs_ok_update) simp
  then have view: "\<exists>am. row_to_agent_message row = Inr am" if "row \<in> set ?ms" for row
    using row_to_agent_message_ok that by (auto simp: msgs_ok_def)
  let ?F = "\<lambda>m. msg_id m = target \<and> in_inbox (mc_workspace claim) (mc_project claim) m"
  have "\<exists>r. (case find ?F ?ms of None \<Rightarrow> Inr (t, None)
      | Some row \<Rightarrow> and_then (row_to_agent_message row) (\<lambda>am. Inr (t, Some am))) = Inr (t, r)" for t :: store
  proof (cases "find ?F ?ms")
    case (Some row)
    then obtain am where "row_to_agent_message row = Inr am" using view find_SomeD[OF Some] by blast
    with Some show ?thesis by simp
  qed simp
  then show ?thesis using assms(2,3) Some
    by (simp add: pop_message_def pop_message_in_transaction_def Let_def) blast
qed

text \<open>The table after \<open>row\<close> was claimed.\<close>

definition claimed_table :: "int \<Rightarrow> message_claim \<Rightarrow> message_row \<Rightarrow> message_row list \<Rightarrow> message_row list" where
  "claimed_table now claim row ms = update_where (\<lambda>m. msg_id m = msg_id row) (claim_row now claim) ms"

lemma pop_cases:
  assumes "msgs_ok (agent_messages s)" "pop_message now s claim specific = Inr (s', r)"
  obtains (nothing) "s' = s" "r = None"
      "\<And>m. m \<in> set (agent_messages s) \<Longrightarrow> claimable claim m \<Longrightarrow> specific \<noteq> None \<and> specific \<noteq> Some (msg_id m)"
  | (popped) row am where "row \<in> set (agent_messages s)" "claimable claim row"
      "specific = None \<or> specific = Some (msg_id row)"
      "specific = None \<Longrightarrow> first_by msg_created_at (filter (claimable claim) (agent_messages s)) = Some row"
      "agent_messages s' = claimed_table now claim row (agent_messages s)"
      "row_to_agent_message (claim_row now claim row) = Inr am" "r = Some am" "am_id am = msg_id row"
      "sessions s' = sessions s" "workspaces s' = workspaces s" "projects s' = projects s"
proof -
  let ?ms = "agent_messages s"
  have key: "validate_identity_storage_key (mc_user claim) ''message recipient'' = Inr ()"
    using assms(2) by (auto simp: pop_message_def pop_message_in_transaction_def and_then_Inr_iff)
  show thesis
  proof (cases "pop_target s claim specific")
    case None
    then have "specific = None" "filter (claimable claim) ?ms = []"
      by (auto simp: pop_target_def split: option.splits)
    then have no: "\<not> claimable claim m" if "m \<in> set ?ms" for m using that by (auto simp: filter_empty_conv)
    have sr: "s' = s" "r = None"
      using assms(2) None key by (simp_all add: pop_message_def pop_message_in_transaction_def)
    show thesis
    proof (rule that(1))
      show "s' = s" "r = None" by (rule sr)+
      show "specific \<noteq> None \<and> specific \<noteq> Some (msg_id m)" if "m \<in> set ?ms" "claimable claim m" for m
        using no[OF that(1)] that(2) by contradiction
    qed
  next
    case (Some target)
    let ?P = "\<lambda>m. msg_id m = target \<and> claimable claim m"
    show thesis
    proof (cases "exists_row ?P ?ms")
      case False
      have sr: "s' = s" "r = None"
        using assms(2) Some key False by (simp_all add: pop_message_def pop_message_in_transaction_def)
      have "specific \<noteq> None"
      proof
        assume n: "specific = None"
        with Some obtain row where x: "first_by msg_created_at (filter (claimable claim) ?ms) = Some row" "msg_id row = target"
          by (auto simp: pop_target_def)
        from first_by_in[OF x(1)] False x(2) show False by auto
      qed
      then have sp: "specific = Some target" using Some by (auto simp: pop_target_def)
      show thesis using False sp by (intro that(1)[OF sr]) auto
    next
      case True
      then obtain row where row: "row \<in> set ?ms" "msg_id row = target" "claimable claim row" by auto
      have same: "m = row" if "m \<in> set ?ms" "msg_id m = target" for m
        using msgs_ok_unique[OF assms(1) that(1) row(1)] that(2) row(2) by simp
      have tab: "update_where ?P (claim_row now claim) ?ms = claimed_table now claim row ?ms"
        unfolding update_where_def claimed_table_def using same row(2,3) by (intro map_cong) auto
      define s1 where "s1 = audit (s\<lparr>agent_messages := claimed_table now claim row ?ms\<rparr>)
          ''pop_message'' (Some (mc_workspace claim)) (Some (mc_project claim)) None None now"
      have ok1: "msgs_ok (agent_messages s1)"
        unfolding s1_def claimed_table_def using msgs_ok_update[OF assms(1)] by simp
      have in1: "claim_row now claim row \<in> set (agent_messages s1)"
        using in_update_where[OF row(1), of "\<lambda>m. msg_id m = msg_id row" "claim_row now claim"]
        by (simp add: s1_def claimed_table_def)
      let ?F = "\<lambda>m. msg_id m = target \<and> in_inbox (mc_workspace claim) (mc_project claim) m"
      have "?F (claim_row now claim row)" using row(2,3) by (simp add: claimable_def)
      then have fnd: "find ?F (agent_messages s1) = Some (claim_row now claim row)"
        using msgs_ok_unique[OF ok1 _ in1] row(2) by (intro find_only[OF in1]) simp_all
      have fnd2: "find ?F (update_where ?P (claim_row now claim) ?ms) = Some (claim_row now claim row)"
        using fnd by (simp add: s1_def tab)
      obtain am where am: "row_to_agent_message (claim_row now claim row) = Inr am" "am_id am = msg_id row"
        using row_to_agent_message_ok[of "claim_row now claim row"] ok1 in1 by (auto simp: msgs_ok_def)
      have ch: "changed_rows ?P ?ms \<noteq> 0" using row by (auto simp: changed_rows_0_iff)
      have "pop_message now s claim specific =
          (if \<not> set_option (mc_session claim) \<subseteq> ses_id ` set (sessions s)
           then Inl (Sqlite ''FOREIGN KEY constraint failed'') else Inr (s1, Some am))"
        unfolding pop_message_def pop_message_in_transaction_def Let_def s1_def tab[symmetric]
        using Some key True ch fnd2 am(1) by (simp del: exists_row_iff)
      then have "s' = s1 \<and> r = Some am" using assms(2) by (simp split: if_splits)
      moreover have sp: "specific = None \<or> specific = Some (msg_id row)"
        using Some row(2) by (auto simp: pop_target_def split: option.splits)
      moreover have "first_by msg_created_at (filter (claimable claim) ?ms) = Some row" if "specific = None"
      proof -
        from Some that obtain x where x: "first_by msg_created_at (filter (claimable claim) ?ms) = Some x" "msg_id x = target"
          by (auto simp: pop_target_def)
        have "x = row" using first_by_in[OF x(1)] same x(2) by simp
        with x show ?thesis by simp
      qed
      ultimately show thesis using row am by (intro popped[of row am]) (simp_all add: s1_def)
    qed
  qed
qed

section \<open>The queue as a state machine\<close>

datatype msg_command =
    Send uuid new_agent_message
  | Pop message_claim "uuid option"
  | CancelMessages uuid uuid "uuid option"
  | BeginEdit uuid uuid uuid
  | FinishEdit uuid uuid uuid "(ustr option \<times> ustr) option"

text \<open>One transaction of the writer; a failed one leaves the store as it was. The second component is the message
  a pop handed out.\<close>

fun msg_exec :: "store \<Rightarrow> int \<times> msg_command \<Rightarrow> store \<times> uuid option" where
  "msg_exec s (now, Send mid m) = (case insert_message mid now s m of Inl _ \<Rightarrow> (s, None) | Inr (s', _) \<Rightarrow> (s', None))"
| "msg_exec s (now, Pop claim specific) =
     (case pop_message now s claim specific of Inl _ \<Rightarrow> (s, None) | Inr (s', r) \<Rightarrow> (s', map_option am_id r))"
| "msg_exec s (now, CancelMessages w p i) = (fst (cancel_messages now s w p i), None)"
| "msg_exec s (now, BeginEdit w p i) =
     (case begin_message_edit now s w p i of Inl _ \<Rightarrow> (s, None) | Inr (s', _) \<Rightarrow> (s', None))"
| "msg_exec s (now, FinishEdit w p i rep) = (fst (finish_message_edit now s w p i rep), None)"

fun msg_exec_all :: "store \<Rightarrow> (int \<times> msg_command) list \<Rightarrow> store" where
  "msg_exec_all s [] = s"
| "msg_exec_all s (c # cs) = msg_exec_all (fst (msg_exec s c)) cs"

fun popped_messages :: "store \<Rightarrow> (int \<times> msg_command) list \<Rightarrow> uuid list" where
  "popped_messages s [] = []"
| "popped_messages s (c # cs) =
     (case msg_exec s c of
        (s', None) \<Rightarrow> popped_messages s' cs
      | (s', Some i) \<Rightarrow> i # popped_messages s' cs)"

text \<open>
  What a transaction may do to one row: nothing, or one transition of the state machine - claim, cancel
  and take out from \<open>MsgPending\<close>, put back from \<open>MsgEditing\<close>. Id, addressing and age never change.
\<close>

definition same_coordinates :: "message_row \<Rightarrow> message_row \<Rightarrow> bool" where
  "same_coordinates m m' \<longleftrightarrow> msg_id m' = msg_id m \<and> msg_nature m' = msg_nature m
     \<and> msg_from_workspace m' = msg_from_workspace m \<and> msg_from_project m' = msg_from_project m
     \<and> msg_to_workspace m' = msg_to_workspace m \<and> msg_to_project m' = msg_to_project m
     \<and> msg_to_agent m' = msg_to_agent m \<and> msg_created_at m' = msg_created_at m"

definition message_step :: "message_row \<Rightarrow> message_row \<Rightarrow> bool" where
  "message_step m m' \<longleftrightarrow> m' = m \<or> same_coordinates m m'
     \<and> (msg_state m = MsgPending \<and> msg_state m' \<in> {MsgClaimed, MsgCancelled, MsgEditing}
        \<or> msg_state m = MsgEditing \<and> msg_state m' = MsgPending)"

definition table_step :: "message_row list \<Rightarrow> message_row list \<Rightarrow> bool" where
  "table_step ms ms' \<longleftrightarrow> (\<exists>f new. ms' = map f ms @ new \<and> (\<forall>m \<in> set ms. message_step m (f m)))"

lemma table_step_update:
  assumes "\<And>m. m \<in> set ms \<Longrightarrow> P m \<Longrightarrow> message_step m (f m)"
  shows "table_step ms (update_where P f ms)"
  unfolding table_step_def update_where_def
  by (rule exI[of _ "\<lambda>m. if P m then f m else m"], rule exI[of _ "[]"])
    (use assms in \<open>auto simp: message_step_def\<close>)

lemma table_step_refl: "table_step ms ms"
  unfolding table_step_def by (rule exI[of _ id], rule exI[of _ "[]"]) (simp add: message_step_def)

lemma table_step_append: "table_step ms (ms @ [row])"
  unfolding table_step_def by (rule exI[of _ id], rule exI[of _ "[row]"]) (simp add: message_step_def)

lemma claimed_table_step:
  assumes "msgs_ok ms" "row \<in> set ms" "msg_state row = MsgPending"
  shows "table_step ms (claimed_table now claim row ms)"
  unfolding claimed_table_def
proof (rule table_step_update)
  fix m assume "m \<in> set ms" "msg_id m = msg_id row"
  then have "m = row" using msgs_ok_unique[OF assms(1) _ assms(2)] by blast
  with assms(3) show "message_step m (claim_row now claim m)"
    by (simp add: message_step_def same_coordinates_def claim_row_def)
qed

lemma pop_table:
  assumes "msgs_ok (agent_messages s)" "pop_message now s claim specific = Inr (s', r)"
  shows "table_step (agent_messages s) (agent_messages s')" "length (agent_messages s') = length (agent_messages s)"
proof -
  have "table_step (agent_messages s) (agent_messages s') \<and> length (agent_messages s') = length (agent_messages s)"
  proof (rule pop_cases[OF assms])
    assume "s' = s"
    then show ?thesis by (simp add: table_step_refl)
  next
    fix row am
    assume "row \<in> set (agent_messages s)" "claimable claim row"
      "agent_messages s' = claimed_table now claim row (agent_messages s)"
    then show ?thesis using claimed_table_step[OF assms(1)]
      by (simp add: claimable_def) (simp add: claimed_table_def table_simps)
  qed
  then show "table_step (agent_messages s) (agent_messages s')" "length (agent_messages s') = length (agent_messages s)"
    by blast+
qed

lemma insert_message_InrD:
  assumes "insert_message mid now s m = Inr (s', r)"
  shows "agent_messages s' = agent_messages s @ [new_message_row mid now m]" "r = mid"
    "mid \<notin> msg_id ` set (agent_messages s)"
    "pending_in (nm_to_workspace m) (nm_to_project m) (agent_messages s) < max_pending_inbox_messages"
  using assms
  by (auto simp: insert_message_def insert_message_row_def and_then_Inr_iff new_message_row_def split: if_splits)

lemma begin_edit_InrD:
  assumes "begin_message_edit now s w p i = Inr (s', r)"
  shows "agent_messages s' = update_where (\<lambda>m. msg_id m = i \<and> in_inbox w p m \<and> msg_state m = MsgPending)
      (\<lambda>m. m\<lparr>msg_state := MsgEditing\<rparr>) (agent_messages s)"
proof (cases "changed_rows (\<lambda>m. msg_id m = i \<and> in_inbox w p m \<and> msg_state m = MsgPending) (agent_messages s) = 0")
  case True
  with assms have "s' = s" by (simp add: begin_message_edit_def Let_def)
  moreover have "update_where (\<lambda>m. msg_id m = i \<and> in_inbox w p m \<and> msg_state m = MsgPending)
      (\<lambda>m. m\<lparr>msg_state := MsgEditing\<rparr>) (agent_messages s) = agent_messages s"
    using True unfolding changed_rows_0_iff by (rule update_where_none)
  ultimately show ?thesis by simp
next
  case False
  with assms show ?thesis
    by (auto simp: begin_message_edit_def Let_def and_then_Inr_iff split: option.splits)
qed

definition edit_text :: "int \<Rightarrow> (ustr option \<times> ustr) option \<Rightarrow> message_row \<Rightarrow> message_row" where
  "edit_text now replacement m =
     (case replacement of
        Some (subject, body) \<Rightarrow> m\<lparr>msg_state := MsgPending, msg_subject := map_option bound_message_field subject,
           msg_body := bound_message_field body, msg_edited_at := Some now\<rparr>
      | None \<Rightarrow> m\<lparr>msg_state := MsgPending\<rparr>)"

lemma finish_edit_table:
  "agent_messages (fst (finish_message_edit now s w p i rep)) =
     update_where (\<lambda>m. msg_id m = i \<and> in_inbox w p m \<and> msg_state m = MsgEditing) (edit_text now rep) (agent_messages s)"
proof -
  have "edit_text now rep = (case rep of
      Some (subject, body) \<Rightarrow> (\<lambda>m. m\<lparr>msg_state := MsgPending, msg_subject := map_option bound_message_field subject,
         msg_body := bound_message_field body, msg_edited_at := Some now\<rparr>)
    | None \<Rightarrow> (\<lambda>m. m\<lparr>msg_state := MsgPending\<rparr>))"
    by (auto simp: edit_text_def fun_eq_iff split: option.splits)
  then show ?thesis by (simp add: finish_message_edit_def Let_def)
qed

lemma cancel_table:
  "agent_messages (fst (cancel_messages now s w p i)) =
     update_where (\<lambda>m. (case i of None \<Rightarrow> True | Some x \<Rightarrow> msg_id m = x) \<and> in_outbox w p m \<and> msg_state m = MsgPending)
       (\<lambda>m. m\<lparr>msg_state := MsgCancelled\<rparr>) (agent_messages s)"
  by (simp add: cancel_messages_def Let_def)

lemma edit_text_simps [simp]:
  "msg_state (edit_text now rep m) = MsgPending" "same_coordinates m (edit_text now rep m)"
  "in_inbox w p (edit_text now rep m) = in_inbox w p m" "msg_id (edit_text now rep m) = msg_id m"
  by (auto simp: edit_text_def same_coordinates_def in_inbox_def split: option.splits)

lemma msg_exec_step:
  assumes "msgs_ok (agent_messages s)"
  shows "table_step (agent_messages s) (agent_messages (fst (msg_exec s c)))"
proof -
  obtain now cmd where c: "c = (now, cmd)" by (cases c)
  show ?thesis
  proof (cases cmd)
    case (Send mid m)
    then show ?thesis using insert_message_InrD(1)
      by (auto simp: c table_step_refl table_step_append split: sum.splits)
  next
    case (Pop claim specific)
    show ?thesis
    proof (cases "pop_message now s claim specific")
      case (Inl e)
      with Pop show ?thesis by (simp add: c table_step_refl)
    next
      case (Inr x)
      obtain s' r where x: "x = (s', r)" by (cases x)
      from pop_table(1)[OF assms Inr[unfolded x]] Inr Pop show ?thesis by (simp add: c x)
    qed
  next
    case (CancelMessages w p i)
    then show ?thesis
      by (simp add: c cancel_table) (rule table_step_update, simp add: message_step_def same_coordinates_def)
  next
    case (BeginEdit w p i)
    show ?thesis
    proof (cases "begin_message_edit now s w p i")
      case (Inl e)
      with BeginEdit show ?thesis by (simp add: c table_step_refl)
    next
      case (Inr x)
      obtain s' r where x: "x = (s', r)" by (cases x)
      have "table_step (agent_messages s) (agent_messages s')"
        unfolding begin_edit_InrD[OF Inr[unfolded x]]
        by (rule table_step_update) (simp add: message_step_def same_coordinates_def)
      with Inr BeginEdit show ?thesis by (simp add: c x)
    qed
  next
    case (FinishEdit w p i rep)
    then show ?thesis
      by (simp add: c finish_edit_table) (rule table_step_update, simp add: message_step_def)
  qed
qed

lemma message_step_coordinates: "message_step m m' \<Longrightarrow> same_coordinates m m'"
  by (auto simp: message_step_def same_coordinates_def)

lemma msg_exec_ok:
  assumes "msgs_ok (agent_messages s)"
  shows "msgs_ok (agent_messages (fst (msg_exec s c)))"
proof -
  obtain f new where f: "agent_messages (fst (msg_exec s c)) = map f (agent_messages s) @ new"
    "\<forall>m \<in> set (agent_messages s). message_step m (f m)"
    using msg_exec_step[OF assms, of c] by (auto simp: table_step_def)
  obtain now cmd where c: "c = (now, cmd)" by (cases c)
  show ?thesis
  proof (cases "\<exists>mid m s' r. cmd = Send mid m \<and> insert_message mid now s m = Inr (s', r)")
    case True
    then obtain mid m s' r where i: "cmd = Send mid m" "insert_message mid now s m = Inr (s', r)" by blast
    note d = insert_message_InrD[OF i(2)]
    have "nature_ok (new_message_row mid now m)"
      by (simp add: nature_ok_def new_message_row_def message_nature_roundtrip)
    then have "msgs_ok (agent_messages s @ [new_message_row mid now m])"
      using d(3) by (intro msgs_ok_append[OF assms]) (simp_all add: new_message_row_def)
    with i d(1) show ?thesis by (simp add: c)
  next
    case False
    have "length (agent_messages (fst (msg_exec s c))) = length (agent_messages s)"
    proof (cases cmd)
      case (Send mid m)
      with False show ?thesis by (auto simp: c split: sum.splits)
    next
      case (Pop claim specific)
      show ?thesis
      proof (cases "pop_message now s claim specific")
        case (Inr x)
        obtain s' r where x: "x = (s', r)" by (cases x)
        from pop_table(2)[OF assms Inr[unfolded x]] Inr Pop show ?thesis by (simp add: c x)
      qed (simp add: Pop c)
    next
      case (BeginEdit w p i)
      then show ?thesis
        by (auto simp: c table_simps begin_edit_InrD split: sum.splits)
    qed (simp_all add: c cancel_table finish_edit_table table_simps)
    then have ms: "agent_messages (fst (msg_exec s c)) = map f (agent_messages s)" using f(1) by simp
    have keep: "\<forall>m \<in> set (agent_messages s). msg_id (f m) = msg_id m \<and> msg_nature (f m) = msg_nature m"
      using f(2) message_step_coordinates unfolding same_coordinates_def by metis
    then have "map msg_id (map f (agent_messages s)) = map msg_id (agent_messages s)" by simp
    then have "unique_on (\<lambda>_. True) msg_id (map f (agent_messages s))"
      using assms by (simp add: msgs_ok_def unique_on_def del: map_map)
    then show ?thesis using assms keep unfolding ms by (simp add: msgs_ok_def nature_ok_def)
  qed
qed

definition message_taken :: "store \<Rightarrow> uuid \<Rightarrow> bool" where
  "message_taken s i \<longleftrightarrow> (\<exists>m \<in> set (agent_messages s). msg_id m = i \<and> msg_state m = MsgClaimed)"

lemma table_step_final:
  assumes "table_step ms ms'" "m \<in> set ms" "msg_state m \<in> {MsgClaimed, MsgCancelled}"
  shows "m \<in> set ms'"
proof -
  obtain f new where f: "ms' = map f ms @ new" "\<forall>m \<in> set ms. message_step m (f m)"
    using assms(1) by (auto simp: table_step_def)
  have "f m = m" using f(2) assms(2,3) by (auto simp: message_step_def)
  with f(1) assms(2) show ?thesis by (metis Un_iff image_eqI list.set_map set_append)
qed

lemma msg_exec_pops:
  assumes "msgs_ok (agent_messages s)" "msg_exec s c = (s', Some i)"
  shows "\<not> message_taken s i \<and> message_taken s' i"
proof -
  obtain now claim specific am where p: "pop_message now s claim specific = Inr (s', Some am)" "am_id am = i"
    using assms(2) by (cases c; cases "snd c") (auto split: sum.splits)
  show ?thesis
  proof (rule pop_cases[OF assms(1) p(1)])
    fix row am'
    assume row: "row \<in> set (agent_messages s)" "claimable claim row"
      and t: "agent_messages s' = claimed_table now claim row (agent_messages s)"
      and am: "Some am = Some am'" "am_id am' = msg_id row"
    have id: "msg_id row = i" using am p(2) by simp
    have "m = row" if "m \<in> set (agent_messages s)" "msg_id m = i" for m
      using msgs_ok_unique[OF assms(1) that(1) row(1)] that(2) id by simp
    then have "\<not> message_taken s i" using row(2) by (auto simp: message_taken_def claimable_def)
    moreover have "claim_row now claim row \<in> set (agent_messages s')"
      using in_update_where[OF row(1), of "\<lambda>m. msg_id m = msg_id row" "claim_row now claim"]
      by (simp add: t claimed_table_def)
    then have "message_taken s' i" unfolding message_taken_def by (rule bexI[rotated]) (simp add: id)
    ultimately show ?thesis ..
  qed simp
qed

interpretation mq: claim_once "\<lambda>s. msgs_ok (agent_messages s)" msg_exec message_taken "\<lambda>_. True"
proof
  show "msgs_ok (agent_messages s')" if "msgs_ok (agent_messages s)" "msg_exec s c = (s', r)" for s c s' r
    using msg_exec_ok[OF that(1), of c] that(2) by simp
  show "\<not> message_taken s k \<and> message_taken s' k" if "msgs_ok (agent_messages s)" "msg_exec s c = (s', Some k)" for s c s' k
    using that by (rule msg_exec_pops)
  show "message_taken s' k" if "msgs_ok (agent_messages s)" "message_taken s k" "msg_exec s c = (s', r)" for s k c s' r
    using table_step_final[OF msg_exec_step[OF that(1), of c]] that(2,3) unfolding message_taken_def by fastforce
qed

interpretation msys: step_system "\<lambda>s. agent_messages s = []" "\<lambda>s c s'. s' = fst (msg_exec s c)" "\<lambda>s. msgs_ok (agent_messages s)"
proof
  show "msgs_ok (agent_messages s)" if "agent_messages s = []" for s using that by (simp add: msgs_ok_def)
qed (simp add: msg_exec_ok)

lemma popped_granted: "popped_messages s cs = mq.granted s cs"
  by (induction cs arbitrary: s) (auto split: prod.splits option.splits)

lemma msg_exec_all_final:
  "msgs_ok (agent_messages s) \<Longrightarrow> m \<in> set (agent_messages s) \<Longrightarrow> msg_state m \<in> {MsgClaimed, MsgCancelled} \<Longrightarrow>
     m \<in> set (agent_messages (msg_exec_all s cs))"
proof (induction cs arbitrary: s)
  case (Cons c cs)
  then show ?case using table_step_final[OF msg_exec_step[OF Cons.prems(1), of c]] msg_exec_ok[OF Cons.prems(1), of c] by simp
qed simp

section \<open>Properties of the message queue\<close>

definition demo_mail :: store where
  "demo_mail = empty_store\<lparr>workspaces := [\<lparr>wsp_id = 1, wsp_name = lit ''ws''\<rparr>],
     projects := [\<lparr>prj_id = 2, prj_workspace = 1, prj_name = lit ''a'', prj_access_mode = lit ''open'', prj_created_by = None\<rparr>,
                  \<lparr>prj_id = 3, prj_workspace = 1, prj_name = lit ''b'', prj_access_mode = lit ''open'', prj_created_by = None\<rparr>]\<rparr>"

definition demo_message :: new_agent_message where
  "demo_message = \<lparr>nm_from_workspace = 1, nm_from_project = 2, nm_from_agent = ClaudeCode, nm_from_session = None,
     nm_from_owner_user = None, nm_to_workspace = 1, nm_to_project = 3, nm_to_agent = None, nm_subject = None,
     nm_body = lit ''please rebase'', nm_nature = NatReported, nm_evidence = None\<rparr>"

definition demo_claim :: message_claim where
  "demo_claim = \<lparr>mc_workspace = 1, mc_project = 3, mc_agent = Codex, mc_session = None, mc_user = None\<rparr>"

definition demo_sent :: store where
  "demo_sent = demo_mail\<lparr>agent_messages := [new_message_row 7 100 demo_message, new_message_row 8 200 demo_message]\<rparr>"

lemma demo_sent_ok: "msgs_ok (agent_messages demo_sent)"
  by (simp add: demo_sent_def msgs_ok_def unique_on_def nature_ok_def new_message_row_def message_nature_roundtrip)

text \<open>
  C8. A message is popped at most once: over any sequence of sends, pops, cancels and edits, by any number
  of sessions and in any order, no message is handed out twice.
\<close>

theorem messages_popped_once:
  assumes "msgs_ok (agent_messages s)"
  shows "distinct (popped_messages s cs)"
  unfolding popped_granted using assms by (rule mq.granted_once) simp

theorem messages_popped_once_witness:
  "distinct (popped_messages demo_sent [(300, Pop demo_claim None), (301, Pop demo_claim None), (302, Pop demo_claim (Some 7))])"
  by (rule messages_popped_once[OF demo_sent_ok])

text \<open>
  Popped and cancelled messages are final: whatever happens afterwards, the row keeps its state, its
  text and the record of who claimed it.
\<close>

theorem message_final:
  assumes "msgs_ok (agent_messages s)" "m \<in> set (agent_messages s)" "msg_state m = MsgClaimed \<or> msg_state m = MsgCancelled"
  shows "m \<in> set (agent_messages (msg_exec_all s cs))"
  using assms by (intro msg_exec_all_final) auto

theorem message_final_witness:
  "claim_row 300 demo_claim (new_message_row 7 100 demo_message) \<in> set (agent_messages (msg_exec_all
     (demo_sent\<lparr>agent_messages := [claim_row 300 demo_claim (new_message_row 7 100 demo_message)]\<rparr>)
     [(400, CancelMessages 1 2 None), (401, BeginEdit 1 3 7), (402, Pop demo_claim None)]))"
proof (rule message_final)
  show "msgs_ok (agent_messages (demo_sent\<lparr>agent_messages := [claim_row 300 demo_claim (new_message_row 7 100 demo_message)]\<rparr>))"
    by (simp add: msgs_ok_def unique_on_def nature_ok_def new_message_row_def message_nature_roundtrip)
qed simp_all

text \<open>
  A pop takes the oldest claimable message and nothing else: without an explicit id it returns a message
  of the caller's own inbox that was pending and addressed to the caller's harness or to any, and no
  claimable message is older; exactly that row changes, to claimed by the caller. It answers nothing only
  if no message is claimable.
\<close>

theorem pop_takes_oldest:
  assumes "msgs_ok (agent_messages s)" "pop_message now s claim None = Inr (s', r)"
  shows "case r of
      None \<Rightarrow> s' = s \<and> (\<forall>m \<in> set (agent_messages s). \<not> claimable claim m)
    | Some am \<Rightarrow> (\<exists>row \<in> set (agent_messages s). am_id am = msg_id row \<and> am_body am = msg_body row
          \<and> in_inbox (mc_workspace claim) (mc_project claim) row \<and> msg_state row = MsgPending
          \<and> addressed_to (mc_agent claim) row
          \<and> (\<forall>m \<in> set (agent_messages s). claimable claim m \<longrightarrow> msg_created_at row \<le> msg_created_at m)
          \<and> agent_messages s' = update_where (\<lambda>m. msg_id m = msg_id row) (claim_row now claim) (agent_messages s))"
proof (rule pop_cases[OF assms])
  assume "s' = s" "r = None"
    "\<And>m. m \<in> set (agent_messages s) \<Longrightarrow> claimable claim m \<Longrightarrow> None \<noteq> (None :: uuid option) \<and> None \<noteq> Some (msg_id m)"
  then show ?thesis by auto
next
  fix row am
  assume row: "row \<in> set (agent_messages s)" "claimable claim row"
    and first: "None = (None :: uuid option) \<Longrightarrow> first_by msg_created_at (filter (claimable claim) (agent_messages s)) = Some row"
    and t: "agent_messages s' = claimed_table now claim row (agent_messages s)"
    and am: "row_to_agent_message (claim_row now claim row) = Inr am" "r = Some am" "am_id am = msg_id row"
  have "\<forall>m \<in> set (agent_messages s). claimable claim m \<longrightarrow> msg_created_at row \<le> msg_created_at m"
    using first_by_least[OF first[OF refl]] by auto
  moreover have "am_body am = msg_body row"
    using am(1) by (auto simp: row_to_agent_message_def and_then_Inr_iff claim_row_def)
  ultimately show ?thesis using row t am(2,3)
    by (auto simp: claimable_def claimed_table_def intro!: bexI[of _ row])
qed

theorem pop_takes_oldest_witness:
  "\<exists>s' am. pop_message 300 demo_sent demo_claim None = Inr (s', Some am) \<and> am_id am = 7"
proof -
  let ?p = "pop_message 300 demo_sent demo_claim None"
  have f: "first_by msg_created_at (filter (claimable demo_claim) (agent_messages demo_sent)) = Some (new_message_row 7 100 demo_message)"
    "exists_row (\<lambda>m. msg_id m = 7 \<and> claimable demo_claim m) (agent_messages demo_sent)"
    by (simp_all add: demo_sent_def claimable_def in_inbox_def addressed_to_def new_message_row_def demo_message_def
        demo_claim_def first_by_def)
  have "\<exists>s' r. ?p = Inr (s', r)"
    by (rule pop_total[OF demo_sent_ok]) (simp_all add: demo_claim_def validate_identity_storage_key_def)
  then obtain s' r where p: "?p = Inr (s', r)" by auto
  from pop_takes_oldest[OF demo_sent_ok p] f(2) show ?thesis
    by (cases r) (use p in \<open>auto simp: demo_sent_def claimable_def in_inbox_def addressed_to_def new_message_row_def
        demo_message_def demo_claim_def\<close>)
qed

text \<open>Which rows a command may touch: those of the mailbox it names.\<close>

fun touches :: "msg_command \<Rightarrow> message_row \<Rightarrow> bool" where
  "touches (Send _ _) m = False"
| "touches (Pop claim _) m = in_inbox (mc_workspace claim) (mc_project claim) m"
| "touches (CancelMessages w p _) m = in_outbox w p m"
| "touches (BeginEdit w p _) m = in_inbox w p m"
| "touches (FinishEdit w p _ _) m = in_inbox w p m"

lemma untouched_update:
  assumes "m \<in> set ms" "\<not> P m"
  shows "m \<in> set (update_where P f ms)"
  using in_update_where[OF assms(1), of P f] assms(2) by simp

text \<open>
  The mailbox boundary: a pop or an edit changes only messages addressed to the project it names, a
  cancel only messages that project sent, a send none; every other message stays exactly as it was.
\<close>

theorem mailbox_isolation:
  assumes "msgs_ok (agent_messages s)" "m \<in> set (agent_messages s)" "\<not> touches c m"
  shows "m \<in> set (agent_messages (fst (msg_exec s (now, c))))"
proof (cases c)
  case (Send mid nm)
  then show ?thesis using assms(2) insert_message_InrD(1) by (auto split: sum.splits)
next
  case (Pop claim specific)
  show ?thesis
  proof (cases "pop_message now s claim specific")
    case (Inr x)
    obtain s' r where x: "x = (s', r)" by (cases x)
    have "m \<in> set (agent_messages s')"
    proof (rule pop_cases[OF assms(1) Inr[unfolded x]])
      assume "s' = s" then show ?thesis using assms(2) by simp
    next
      fix row am
      assume row: "row \<in> set (agent_messages s)" "claimable claim row"
        and t: "agent_messages s' = claimed_table now claim row (agent_messages s)"
      have "msg_id m \<noteq> msg_id row"
        using msgs_ok_unique[OF assms(1,2) row(1)] row(2) assms(3) Pop by (auto simp: claimable_def)
      then show ?thesis unfolding t claimed_table_def by (rule untouched_update[OF assms(2)])
    qed
    with Inr Pop x show ?thesis by simp
  qed (use Pop assms(2) in simp)
next
  case (CancelMessages w p i)
  then show ?thesis using assms(3) by (simp add: cancel_table) (rule untouched_update[OF assms(2)], simp)
next
  case (BeginEdit w p i)
  show ?thesis
  proof (cases "begin_message_edit now s w p i")
    case (Inr x)
    obtain s' r where x: "x = (s', r)" by (cases x)
    have "m \<in> set (agent_messages s')"
      unfolding begin_edit_InrD[OF Inr[unfolded x]] using assms(3) BeginEdit by (intro untouched_update[OF assms(2)]) simp
    with Inr BeginEdit x show ?thesis by simp
  qed (use BeginEdit assms(2) in simp)
next
  case (FinishEdit w p i rep)
  then show ?thesis using assms(3) by (simp add: finish_edit_table) (rule untouched_update[OF assms(2)], simp)
qed

theorem mailbox_isolation_witness:
  "new_message_row 7 100 demo_message \<in> set (agent_messages (fst (msg_exec demo_sent (300, Pop (demo_claim\<lparr>mc_project := 2\<rparr>) (Some 7)))))"
proof (rule mailbox_isolation[OF demo_sent_ok])
  show "new_message_row 7 100 demo_message \<in> set (agent_messages demo_sent)" by (simp add: demo_sent_def)
  show "\<not> touches (Pop (demo_claim\<lparr>mc_project := 2\<rparr>) (Some 7)) (new_message_row 7 100 demo_message)"
    by (simp add: in_inbox_def demo_claim_def new_message_row_def demo_message_def)
qed

subsection \<open>The pending bound\<close>

lemma changed_rows_update_le:
  assumes "\<And>m. m \<in> set ms \<Longrightarrow> P m \<Longrightarrow> Q (f m) \<Longrightarrow> Q m"
  shows "changed_rows Q (update_where P f ms) \<le> changed_rows Q ms"
  using assms by (induction ms) (auto simp: changed_rows_def update_where_def)

lemma changed_rows_update_add:
  assumes "\<And>m. P m \<Longrightarrow> \<not> Q m \<and> Q (f m)"
  shows "changed_rows Q (update_where P f ms) = changed_rows Q ms + changed_rows P ms"
  using assms by (induction ms) (auto simp: changed_rows_def update_where_def)

lemma changed_rows_key:
  assumes "unique_on (\<lambda>_. True) k ms" "\<And>m. P m \<Longrightarrow> k m = c" "x \<in> set ms" "P x"
  shows "changed_rows P ms = 1"
proof -
  have "changed_rows P ms \<le> 1"
    unfolding changed_rows_def using assms(1,2) by (intro unique_on_at_most_one[of "\<lambda>_. True" k _ _ c]) auto
  moreover have "changed_rows P ms \<noteq> 0" using assms(3,4) by (auto simp: changed_rows_0_iff)
  ultimately show ?thesis by linarith
qed

lemma demo_rows:
  "msg_id (new_message_row i t demo_message) = i" "msg_state (new_message_row i t demo_message) = MsgPending"
  "in_inbox 1 3 (new_message_row i t demo_message)" "nature_ok (new_message_row i t demo_message)"
proof -
  show "nature_ok (new_message_row i t demo_message)"
    by (auto simp: nature_ok_def new_message_row_def message_nature_roundtrip)
qed (simp_all add: new_message_row_def in_inbox_def demo_message_def)

text \<open>
  Backpressure: while no edit is saved or released, no command takes an inbox from within the bound of
  256 pending messages to beyond it; a send into a full inbox is refused.
\<close>

theorem inbox_bound:
  assumes "msgs_ok (agent_messages s)" "pending_in w p (agent_messages s) \<le> max_pending_inbox_messages"
    and "\<And>a b i rep. c \<noteq> FinishEdit a b i rep"
  shows "pending_in w p (agent_messages (fst (msg_exec s (now, c)))) \<le> max_pending_inbox_messages"
proof (cases c)
  case (Send mid m)
  show ?thesis
  proof (cases "insert_message mid now s m")
    case (Inr x)
    obtain s' r where x: "x = (s', r)" by (cases x)
    note d = insert_message_InrD[OF Inr[unfolded x]]
    show ?thesis using Inr x Send assms(2) d(4) unfolding pending_in_def
      by (auto simp: d(1) changed_rows_def in_inbox_def new_message_row_def)
  qed (use Send assms(2) in simp)
next
  case (Pop claim specific)
  show ?thesis
  proof (cases "pop_message now s claim specific")
    case (Inr x)
    obtain s' r where x: "x = (s', r)" by (cases x)
    have "pending_in w p (agent_messages s') \<le> max_pending_inbox_messages"
    proof (rule pop_cases[OF assms(1) Inr[unfolded x]])
      assume "s' = s" then show ?thesis using assms(2) by simp
    next
      fix row am
      assume "agent_messages s' = claimed_table now claim row (agent_messages s)"
      then have "pending_in w p (agent_messages s') \<le> pending_in w p (agent_messages s)"
        unfolding pending_in_def claimed_table_def by (simp, intro changed_rows_update_le) simp
      with assms(2) show ?thesis by linarith
    qed
    with Inr Pop x show ?thesis by simp
  qed (use Pop assms(2) in simp)
next
  case (CancelMessages a b i)
  have "pending_in w p (agent_messages (fst (cancel_messages now s a b i))) \<le> pending_in w p (agent_messages s)"
    unfolding pending_in_def cancel_table by (rule changed_rows_update_le) simp
  with CancelMessages assms(2) show ?thesis by simp
next
  case (BeginEdit a b i)
  show ?thesis
  proof (cases "begin_message_edit now s a b i")
    case (Inr x)
    obtain s' r where x: "x = (s', r)" by (cases x)
    have "pending_in w p (agent_messages s') \<le> pending_in w p (agent_messages s)"
      unfolding pending_in_def begin_edit_InrD[OF Inr[unfolded x]] by (rule changed_rows_update_le) simp
    with Inr BeginEdit x assms(2) show ?thesis by simp
  qed (use BeginEdit assms(2) in simp)
qed (use assms(3) in blast)

theorem inbox_bound_witness:
  "pending_in 1 3 (agent_messages (fst (msg_exec demo_sent (300, Send 9 demo_message)))) \<le> max_pending_inbox_messages"
proof (rule inbox_bound[OF demo_sent_ok])
  show "pending_in 1 3 (agent_messages demo_sent) \<le> max_pending_inbox_messages"
    by (simp add: pending_in_def changed_rows_def demo_sent_def in_inbox_def new_message_row_def demo_message_def
        max_pending_inbox_messages_def)
qed simp

text \<open>
  C38. The bound does not hold for edits: saving or releasing an edited message puts it back without
  looking at the inbox, so the pending count grows by one whatever it was. An inbox that was filled to
  the bound while a message was out for editing then holds 257 pending messages.
\<close>

theorem edit_ignores_inbox_bound:
  assumes "msgs_ok (agent_messages s)" "finish_message_edit now s w p i rep = (s', True)"
  shows "pending_in w p (agent_messages s') = pending_in w p (agent_messages s) + 1"
proof -
  let ?P = "\<lambda>m. msg_id m = i \<and> in_inbox w p m \<and> msg_state m = MsgEditing"
  let ?Q = "\<lambda>m. in_inbox w p m \<and> msg_state m = MsgPending"
  have t: "agent_messages s' = update_where ?P (edit_text now rep) (agent_messages s)"
    using finish_edit_table[of now s w p i rep] assms(2) by simp
  have "changed_rows ?P (agent_messages s) > 0" using assms(2) by (simp add: finish_message_edit_def Let_def)
  then obtain m where m: "m \<in> set (agent_messages s)" "?P m" by auto
  have "changed_rows ?P (agent_messages s) = 1"
    using assms(1) m by (intro changed_rows_key[where k = msg_id and c = i and x = m]) (auto simp: msgs_ok_def)
  moreover have "changed_rows ?Q (update_where ?P (edit_text now rep) (agent_messages s))
      = changed_rows ?Q (agent_messages s) + changed_rows ?P (agent_messages s)"
    by (rule changed_rows_update_add) simp
  ultimately show ?thesis unfolding pending_in_def t by simp
qed

definition full_inbox :: store where
  "full_inbox = demo_mail\<lparr>agent_messages := (new_message_row 999 1 demo_message)\<lparr>msg_state := MsgEditing\<rparr>
     # map (\<lambda>i. new_message_row i 2 demo_message) [0..<256]\<rparr>"

theorem edit_ignores_inbox_bound_witness:
  "pending_in 1 3 (agent_messages (fst (finish_message_edit 5 full_inbox 1 3 999 None))) = 257"
proof -
  have ed: "nature_ok (m\<lparr>msg_state := MsgEditing\<rparr>) = nature_ok m" "in_inbox 1 3 (m\<lparr>msg_state := MsgEditing\<rparr>) = in_inbox 1 3 m" for m
    by (simp_all add: nature_ok_def in_inbox_def)
  have ok: "msgs_ok (agent_messages full_inbox)"
    by (auto simp: full_inbox_def msgs_ok_def unique_on_def demo_rows ed comp_def)
  have n: "pending_in 1 3 (agent_messages full_inbox) = 256"
    by (simp add: full_inbox_def pending_in_def changed_rows_def demo_rows filter_map comp_def del: One_nat_def)
  have "finish_message_edit 5 full_inbox 1 3 999 None = (fst (finish_message_edit 5 full_inbox 1 3 999 None), True)"
    by (simp add: finish_message_edit_def Let_def full_inbox_def demo_rows ed del: One_nat_def)
  from edit_ignores_inbox_bound[OF ok this] n show ?thesis by simp
qed

text \<open>
  Taking a message out and releasing it unchanged is invisible to the queue: the table of messages is
  exactly what it was, so the message is back in its original place.
\<close>

theorem edit_release_roundtrip:
  assumes "begin_message_edit now s w p i = Inr (s', Some am)" "msgs_ok (agent_messages s)"
  shows "\<exists>s''. finish_message_edit now' s' w p i None = (s'', True) \<and> agent_messages s'' = agent_messages s"
proof -
  let ?P = "\<lambda>m. msg_id m = i \<and> in_inbox w p m \<and> msg_state m = MsgPending"
  let ?E = "\<lambda>m. msg_id m = i \<and> in_inbox w p m \<and> msg_state m = MsgEditing"
  let ?out = "\<lambda>m. m\<lparr>msg_state := MsgEditing\<rparr>"
  have t: "agent_messages s' = update_where ?P ?out (agent_messages s)" by (rule begin_edit_InrD[OF assms(1)])
  have "changed_rows ?P (agent_messages s) \<noteq> 0"
  proof
    assume "changed_rows ?P (agent_messages s) = 0"
    with assms(1) show False by (simp add: begin_message_edit_def Let_def)
  qed
  then obtain m where m: "m \<in> set (agent_messages s)" "?P m" by (auto simp: changed_rows_0_iff)
  have one: "x = m" if "x \<in> set (agent_messages s)" "msg_id x = i" for x
    using msgs_ok_unique[OF assms(2) that(1) m(1)] that(2) m(2) by simp
  have restored: "update_where ?E (edit_text now' None) (update_where ?P ?out (agent_messages s)) = agent_messages s"
    unfolding update_where_def map_map
  proof (rule map_idI)
    fix x assume x: "x \<in> set (agent_messages s)"
    show "((\<lambda>r. if ?E r then edit_text now' None r else r) \<circ> (\<lambda>r. if ?P r then ?out r else r)) x = x"
    proof (cases "msg_id x = i")
      case True
      then have "x = m" using one x by blast
      have "(?out m)\<lparr>msg_state := MsgPending\<rparr> = m" using m(2) by (cases m) simp
      moreover have "?P m" "?E (?out m)" using m(2) by (simp_all add: in_inbox_def)
      ultimately show ?thesis unfolding \<open>x = m\<close> by (simp add: edit_text_def)
    qed simp
  qed
  have "?out m \<in> set (agent_messages s')" unfolding t using in_update_where[OF m(1), of ?P ?out] m(2) by simp
  moreover have "?E (?out m)" using m(2) by (simp add: in_inbox_def)
  ultimately have "changed_rows ?E (agent_messages s') > 0" unfolding changed_rows_pos_iff by blast
  then have "snd (finish_message_edit now' s' w p i None)" by (simp add: finish_message_edit_def Let_def)
  moreover have "agent_messages (fst (finish_message_edit now' s' w p i None)) = agent_messages s"
    unfolding finish_edit_table t by (rule restored)
  ultimately show ?thesis by (intro exI[of _ "fst (finish_message_edit now' s' w p i None)"]) (simp add: prod_eq_iff)
qed

theorem edit_release_roundtrip_witness:
  "\<exists>s' am s''. begin_message_edit 300 demo_sent 1 3 7 = Inr (s', Some am)
     \<and> finish_message_edit 400 s' 1 3 7 None = (s'', True) \<and> agent_messages s'' = agent_messages demo_sent"
proof -
  let ?r = "new_message_row 7 100 demo_message"
  have "nature_ok (?r\<lparr>msg_state := MsgEditing\<rparr>)" using demo_rows(4)[of 7 100] by (simp add: nature_ok_def)
  from row_to_agent_message_ok[OF this] obtain am where "row_to_agent_message (?r\<lparr>msg_state := MsgEditing\<rparr>) = Inr am" by blast
  then have "\<exists>s'. begin_message_edit 300 demo_sent 1 3 7 = Inr (s', Some am)"
    by (simp add: begin_message_edit_def Let_def demo_sent_def demo_rows changed_rows_def update_where_def del: One_nat_def)
  then obtain s' where b: "begin_message_edit 300 demo_sent 1 3 7 = Inr (s', Some am)" ..
  from edit_release_roundtrip[OF b demo_sent_ok, of 400] b show ?thesis by blast
qed

end
