(* ===== verification/Paths.thy ===== *)
theory Paths
  imports Identity
begin

text \<open>
  Working-directory comparison (\<^verbatim>\<open>normalize_cwd\<close>, \<^verbatim>\<open>is_windows_style_path\<close> and \<^verbatim>\<open>cwd_within\<close> of
  \<^verbatim>\<open>crates/ai-memory-store/src/reader.rs\<close>): which directories count as one, and which is inside which. The
  store decides with it which handoffs a starting session may take and whether a session end comes from
  the session's own directory. Shown: normalization is idempotent, and the byte-prefix test of the code
  is exactly containment of path components, hence a preorder.
\<close>

definition slash :: uchar where "slash = 47"

definition backslash :: uchar where "backslash = 92"

definition is_ascii_alphabetic :: "uchar \<Rightarrow> bool" where
  "is_ascii_alphabetic c \<longleftrightarrow> (65 \<le> c \<and> c \<le> 90) \<or> (97 \<le> c \<and> c \<le> 122)"

definition is_ascii_hexdigit :: "uchar \<Rightarrow> bool" where
  "is_ascii_hexdigit c \<longleftrightarrow> (48 \<le> c \<and> c \<le> 57) \<or> (65 \<le> c \<and> c \<le> 70) \<or> (97 \<le> c \<and> c \<le> 102)"

definition to_ascii_lower :: "uchar \<Rightarrow> uchar" where
  "to_ascii_lower c = (if 65 \<le> c \<and> c \<le> 90 then c + 32 else c)"

definition is_windows_style_path :: "ustr \<Rightarrow> bool" where
  "is_windows_style_path path \<longleftrightarrow>
     (case path of c # d # _ \<Rightarrow> is_ascii_alphabetic c \<and> d = 58 | _ \<Rightarrow> False)
     \<or> prefix [slash, slash] path"

definition normalize_cwd :: "ustr \<Rightarrow> ustr" where
  "normalize_cwd p =
     (let replaced = map (\<lambda>c. if c = backslash then slash else c) p;
          trimmed = trim_end_matches (\<lambda>c. c = slash) replaced;
          core = (if trimmed = [] then [slash] else trimmed)
      in if is_windows_style_path core then map to_ascii_lower core else core)"

definition cwd_within :: "ustr \<Rightarrow> ustr \<Rightarrow> bool" where
  "cwd_within ancestor descendant =
     (let a = normalize_cwd ancestor; d = normalize_cwd descendant in
      if a = d then True
      else if a = [slash] then prefix [slash] d \<and> byte_len d > 1
      else prefix a d \<and> prefix [slash] (drop (length a) d))"

section \<open>Normalization\<close>

lemma trim_end_matches_last:
  "trim_end_matches P s = [] \<or> \<not> P (last (trim_end_matches P s))"
proof (cases "dropWhile P (rev s) = []")
  case False
  then have "\<not> P (hd (dropWhile P (rev s)))" by (rule hd_dropWhile)
  then show ?thesis by (simp add: trim_end_matches_def last_rev)
qed (simp add: trim_end_matches_def)

lemma trim_end_matches_id: "s = [] \<or> \<not> P (last s) \<Longrightarrow> trim_end_matches P s = s"
  by (cases s rule: rev_cases) (auto simp: trim_end_matches_def)

lemma set_trim_end_matches: "set (trim_end_matches P s) \<subseteq> set s"
  by (auto simp: trim_end_matches_def dest: set_dropWhileD)

lemma to_ascii_lower_simps [simp]:
  "to_ascii_lower c = slash \<longleftrightarrow> c = slash" "to_ascii_lower c = backslash \<longleftrightarrow> c = backslash"
  "slash = to_ascii_lower c \<longleftrightarrow> c = slash" "backslash = to_ascii_lower c \<longleftrightarrow> c = backslash"
  "to_ascii_lower c = 58 \<longleftrightarrow> c = 58" "to_ascii_lower (to_ascii_lower c) = to_ascii_lower c"
  "is_ascii_alphabetic (to_ascii_lower c) = is_ascii_alphabetic c"
  by (auto simp: to_ascii_lower_def slash_def backslash_def is_ascii_alphabetic_def)

lemma windows_style_lower [simp]: "is_windows_style_path (map to_ascii_lower p) = is_windows_style_path p"
  by (cases p; cases "tl p") (auto simp: is_windows_style_path_def)

text \<open>A normalized directory is the root, or has no backslash and does not end in a slash.\<close>

definition cwd_core :: "ustr \<Rightarrow> bool" where
  "cwd_core p \<longleftrightarrow> backslash \<notin> set p \<and> (p = [slash] \<or> (p \<noteq> [] \<and> last p \<noteq> slash))
     \<and> (is_windows_style_path p \<longrightarrow> map to_ascii_lower p = p)"

lemma normalize_cwd_core: "cwd_core (normalize_cwd p)"
proof -
  let ?r = "map (\<lambda>c. if c = backslash then slash else c) p"
  let ?t = "trim_end_matches (\<lambda>c. c = slash) ?r"
  let ?core = "if ?t = [] then [slash] else ?t"
  have "backslash \<notin> set ?r" by (auto simp: slash_def backslash_def)
  then have b: "backslash \<notin> set ?core" using set_trim_end_matches[of "\<lambda>c. c = slash" ?r]
    by (auto simp: slash_def backslash_def)
  have l: "?core = [slash] \<or> (?core \<noteq> [] \<and> last ?core \<noteq> slash)"
    using trim_end_matches_last[of "\<lambda>c. c = slash" ?r] by auto
  show ?thesis
  proof (cases "is_windows_style_path ?core")
    case True
    then have "normalize_cwd p = map to_ascii_lower ?core" by (simp add: normalize_cwd_def Let_def)
    moreover have "last (map to_ascii_lower ?core) = to_ascii_lower (last ?core)" using l by (intro last_map) auto
    ultimately show ?thesis using b l by (auto simp: cwd_core_def)
  next
    case False
    then have "normalize_cwd p = ?core" by (simp add: normalize_cwd_def Let_def)
    with b l False show ?thesis unfolding cwd_core_def by simp
  qed
qed

lemma normalize_cwd_id: "cwd_core p \<Longrightarrow> normalize_cwd p = p"
proof -
  assume p: "cwd_core p"
  have "map (\<lambda>c. if c = backslash then slash else c) p = p"
    using p by (intro map_idI) (auto simp: cwd_core_def)
  moreover have "(if trim_end_matches (\<lambda>c. c = slash) p = [] then [slash] else trim_end_matches (\<lambda>c. c = slash) p) = p"
  proof (cases "p = [slash]")
    case False
    then have "trim_end_matches (\<lambda>c. c = slash) p = p" "p \<noteq> []"
      using p by (auto simp: cwd_core_def intro: trim_end_matches_id)
    then show ?thesis by simp
  qed (simp add: trim_end_matches_def)
  ultimately show ?thesis using p by (simp add: normalize_cwd_def Let_def cwd_core_def)
qed

lemma normalize_cwd_idem [simp]: "normalize_cwd (normalize_cwd p) = normalize_cwd p"
  by (rule normalize_cwd_id) (rule normalize_cwd_core)

section \<open>Containment\<close>

text \<open>The components of a path: what lies between the slashes; the root has none.\<close>

definition components :: "ustr \<Rightarrow> ustr list" where
  "components p = (if p = [slash] then [[]] else split_all slash p)"

lemma split_all_not_Nil [simp]: "split_all d s \<noteq> []"
  by (cases s) (auto split: list.splits)

lemma split_all_append: "split_all d (a @ d # b) = split_all d a @ split_all d b"
  by (induction a) (auto split: list.splits)

lemma split_all_prefixD: "prefix (split_all d a) (split_all d x) \<Longrightarrow> x = a \<or> prefix (a @ [d]) x"
proof (induction a arbitrary: x)
  case Nil
  then show ?case by (cases x) (auto split: if_splits list.splits)
next
  case (Cons c cs)
  obtain t ts where t: "split_all d cs = t # ts" by (cases "split_all d cs") auto
  from Cons.prems t obtain y ys where x: "x = y # ys" by (cases x) (auto split: if_splits)
  obtain u us where u: "split_all d ys = u # us" by (cases "split_all d ys") auto
  have "y = c \<and> prefix (split_all d cs) (split_all d ys)"
    using Cons.prems t u x by (auto split: if_splits)
  with Cons.IH[of ys] x show ?case by auto
qed

lemma prefix_split_on_iff:
  "prefix (split_all d a) (split_all d x) \<longleftrightarrow> x = a \<or> prefix (a @ [d]) x"
proof
  assume "x = a \<or> prefix (a @ [d]) x"
  then consider "x = a" | b where "x = a @ d # b" by (auto simp: prefix_def)
  then show "prefix (split_all d a) (split_all d x)" by cases (auto simp: split_all_append)
qed (rule split_all_prefixD)

lemma prefix_snoc_iff: "prefix (a @ [c]) d \<longleftrightarrow> prefix a d \<and> prefix [c] (drop (length a) d)"
  by (auto simp: prefix_def)

lemma components_root_prefix:
  assumes "cwd_core d" "d \<noteq> [slash]"
  shows "prefix (components [slash]) (components d) \<longleftrightarrow> prefix [slash] d \<and> byte_len d > 1"
proof -
  obtain c cs where d: "d = c # cs" using assms by (cases d) (auto simp: cwd_core_def)
  have "cs \<noteq> []" if "c = slash" using assms(2) d that by auto
  moreover have "utf8_len slash = 1" by (simp add: utf8_len_def slash_def)
  ultimately have "c = slash \<Longrightarrow> byte_len d > 1" using d by (cases cs) simp_all
  then show ?thesis using assms d by (auto simp: components_def split: list.splits)
qed

lemma split_all_inj: "split_all d a = split_all d b \<Longrightarrow> a = b"
  using split_all_prefixD[of d a b] split_all_prefixD[of d b a] by (auto dest!: prefix_length_le)

lemma components_inj:
  assumes "cwd_core a" "cwd_core b" "components a = components b"
  shows "a = b"
proof -
  have "split_all slash c \<noteq> [[]]" if "cwd_core c" for c
    using that by (cases c) (auto simp: cwd_core_def split: list.splits)
  then show ?thesis using assms split_all_inj[of slash a b] by (auto simp: components_def split: if_splits)
qed

lemma cwd_within_components:
  "cwd_within a d \<longleftrightarrow> prefix (components (normalize_cwd a)) (components (normalize_cwd d))"
proof -
  let ?a = "normalize_cwd a" and ?d = "normalize_cwd d"
  have core: "cwd_core ?a" "cwd_core ?d" by (rule normalize_cwd_core)+
  consider "?a = ?d" | "?a \<noteq> ?d" "?a = [slash]" | "?a \<noteq> ?d" "?a \<noteq> [slash]" by blast
  then show ?thesis
  proof cases
    case 1
    then show ?thesis by (simp add: cwd_within_def)
  next
    case 2
    with components_root_prefix[OF core(2)] show ?thesis by (simp add: cwd_within_def Let_def)
  next
    case 3
    have "prefix (split_all slash ?a) (components ?d) \<longleftrightarrow> prefix (?a @ [slash]) ?d"
    proof (cases "?d = [slash]")
      case True
      have "split_all slash ?a \<noteq> [[]]" using core(1) 3(2) by (cases ?a) (auto simp: cwd_core_def split: list.splits)
      with True core(1) show ?thesis
        by (cases "split_all slash ?a") (auto simp: components_def cwd_core_def prefix_Cons)
    next
      case False
      with 3(1) show ?thesis by (auto simp: components_def prefix_split_on_iff)
    qed
    with 3 show ?thesis by (simp add: cwd_within_def Let_def components_def prefix_snoc_iff)
  qed
qed

text \<open>
  A directory contains another exactly when its path components are a prefix of the other's, after
  normalization: so \<^verbatim>\<open>/repo\<close> contains \<^verbatim>\<open>/repo/api\<close> and never \<^verbatim>\<open>/repo-other\<close>, the relation is
  reflexive and transitive, and two directories contain each other only if they normalize to the same one.
\<close>

theorem cwd_within_spec:
  "(cwd_within a d \<longleftrightarrow> prefix (components (normalize_cwd a)) (components (normalize_cwd d)))
   \<and> cwd_within a a
   \<and> (cwd_within a b \<and> cwd_within b c \<longrightarrow> cwd_within a c)
   \<and> (cwd_within a b \<and> cwd_within b a \<longrightarrow> normalize_cwd a = normalize_cwd b)"
  unfolding cwd_within_components
  using components_inj[OF normalize_cwd_core normalize_cwd_core, of a b]
  by (auto intro: prefix_order.trans dest: prefix_order.antisym)

theorem cwd_within_spec_witness:
  "cwd_within (lit ''C:/Repo/'') (lit ''c:/repo/api'') \<and> cwd_within (lit ''C:/Repo/'') (lit ''C:/Repo/'')
   \<and> \<not> cwd_within (lit ''/repo'') (lit ''/repo-other'')"
proof -
  have "cwd_within (lit ''C:/Repo/'') (lit ''c:/repo/api'')" by code_simp
  moreover have "\<not> cwd_within (lit ''/repo'') (lit ''/repo-other'')" by code_simp
  moreover have "cwd_within (lit ''C:/Repo/'') (lit ''C:/Repo/'')"
    using cwd_within_spec[of "lit ''C:/Repo/''" "lit ''C:/Repo/''" "lit ''C:/Repo/''" "lit ''C:/Repo/''"] by simp
  ultimately show ?thesis by blast
qed

end
