(* ===== verification/Sessions.thy ===== *)
theory Sessions
  imports Schema Paths Text
begin

text \<open>
  Sessions and the ingest of hook events (\<^verbatim>\<open>crates/ai-memory-core/src/observation.rs\<close> and the session section
  of \<^verbatim>\<open>crates/ai-memory-store/src/ops.rs\<close>): beginning and ending a session, appending observations with an
  idempotency key, and \<^verbatim>\<open>admit_hook_session_event\<close>, the one transaction every hook event goes through. An id
  drawn inside an operation and the clock reading are arguments. The full-text index of
  observations is a derived table and not modelled. Shown: a keyed event is recorded once, a purged session
  does not come back, the identity of a session never changes, an admitted end can be carried out and its
  repetition does nothing.
\<close>

section \<open>Observation kinds\<close>

datatype observation_kind =
    ObsSessionStart | ObsUserPrompt | ObsPreToolUse | ObsPostToolUse | ObsPreCompact | ObsPostCompaction
  | ObsNotification | ObsStop | ObsSessionEnd | ObsOther

primrec observation_kind_str :: "observation_kind \<Rightarrow> ustr" where
  "observation_kind_str ObsSessionStart = lit ''session-start''"
| "observation_kind_str ObsUserPrompt = lit ''user-prompt''"
| "observation_kind_str ObsPreToolUse = lit ''pre-tool-use''"
| "observation_kind_str ObsPostToolUse = lit ''post-tool-use''"
| "observation_kind_str ObsPreCompact = lit ''pre-compact''"
| "observation_kind_str ObsPostCompaction = lit ''post-compaction''"
| "observation_kind_str ObsNotification = lit ''notification''"
| "observation_kind_str ObsStop = lit ''stop''"
| "observation_kind_str ObsSessionEnd = lit ''session-end''"
| "observation_kind_str ObsOther = lit ''other''"

definition observation_kind_from_str :: "ustr \<Rightarrow> observation_kind store_result" where
  "observation_kind_from_str s =
     (if one_of s [''session-start'', ''session_start'', ''SessionStart''] then Inr ObsSessionStart
      else if one_of s [''user-prompt'', ''user_prompt'', ''UserPromptSubmit''] then Inr ObsUserPrompt
      else if one_of s [''pre-tool-use'', ''pre_tool_use'', ''PreToolUse''] then Inr ObsPreToolUse
      else if one_of s [''post-tool-use'', ''post_tool_use'', ''PostToolUse''] then Inr ObsPostToolUse
      else if one_of s [''pre-compact'', ''pre_compact'', ''PreCompact''] then Inr ObsPreCompact
      else if one_of s [''post-compaction'', ''post_compaction'', ''PostCompaction''] then Inr ObsPostCompaction
      else if one_of s [''notification'', ''Notification''] then Inr ObsNotification
      else if one_of s [''stop'', ''Stop''] then Inr ObsStop
      else if one_of s [''session-end'', ''session_end'', ''SessionEnd''] then Inr ObsSessionEnd
      else if one_of s [''other'', ''Other''] then Inr ObsOther
      else Inl (MalformedRecord ''unknown observation kind''))"

text \<open>\<^verbatim>\<open>SUBSTANTIVE_OBSERVATION_KIND_SQL\<close>, over the stored text.\<close>

definition substantive_kind :: "ustr \<Rightarrow> bool" where
  "substantive_kind k = one_of k [''user-prompt'', ''pre-tool-use'', ''post-tool-use'']"

section \<open>Inputs and results\<close>

record new_observation =
  no_session :: uuid
  no_workspace :: uuid
  no_project :: uuid
  no_kind :: observation_kind
  no_extension :: "ustr option"
  no_source_event :: "ustr option"
  no_title :: ustr
  no_body :: ustr
  no_importance :: nat
  no_occurred_at :: "int option"
  no_file_path :: "ustr option"

record new_session =
  ns_id :: uuid
  ns_workspace :: uuid
  ns_project :: uuid
  ns_agent :: agent_kind
  ns_cwd :: "ustr option"
  ns_actor_user :: "ustr option"
  ns_occurred_at :: "int option"

datatype ingest_outcome = Inserted uuid | ResumePending | AlreadyComplete

record admitted_session =
  ad_session :: uuid
  ad_workspace :: uuid
  ad_project :: uuid
  ad_agent :: agent_kind
  ad_owner :: "ustr option"

datatype hook_admission =
    AdmObservation admitted_session ingest_outcome
  | AdmEndOpen admitted_session ingest_outcome
  | AdmReEnd admitted_session ingest_outcome
  | AdmAlreadyEnded admitted_session
  | AdmInvalidMissingEnd
  | AdmInvalidScopedEnd

section \<open>Beginning a session\<close>

definition session_is_purged :: "store \<Rightarrow> new_session \<Rightarrow> bool" where
  "session_is_purged s session =
     exists_row (\<lambda>p. pur_session p = ns_id session \<and> pur_workspace p = ns_workspace session
       \<and> pur_project p = ns_project session) (purged_sessions s)"

definition new_session_row :: "int \<Rightarrow> new_session \<Rightarrow> session_row" where
  "new_session_row started session =
     \<lparr>ses_id = ns_id session, ses_workspace = ns_workspace session, ses_project = ns_project session,
      ses_agent_kind = as_str (ns_agent session), ses_cwd = ns_cwd session, ses_started_at = started,
      ses_ended_at = None, ses_summary_page = None, ses_ended_observation_count = 0,
      ses_actor_user = ns_actor_user session\<rparr>"

definition pairing_error :: store_error where
  "pairing_error = Sqlite ''workspace_id does not match the project workspace''"

definition foreign_key_error :: store_error where
  "foreign_key_error = Sqlite ''FOREIGN KEY constraint failed''"

text \<open>\<^verbatim>\<open>INSERT INTO sessions\<close>: the pairing trigger runs before the row is checked against the key.\<close>

definition insert_session_sql :: "store \<Rightarrow> session_row \<Rightarrow> bool \<Rightarrow> store store_result" where
  "insert_session_sql s row do_nothing =
     (if \<not> pairing_ok s (ses_workspace row) (ses_project row) then Inl pairing_error
      else if ses_id row \<in> ses_id ` set (sessions s)
      then if do_nothing then Inr s else Inl (Sqlite ''UNIQUE constraint failed: sessions.id'')
      else if ses_workspace row \<notin> wsp_id ` set (workspaces s) then Inl foreign_key_error
      else Inr (s\<lparr>sessions := sessions s @ [row]\<rparr>))"

definition begin_session_row :: "int \<Rightarrow> store \<Rightarrow> new_session \<Rightarrow> store store_result" where
  "begin_session_row now s session =
     and_then (validate_identity_storage_key (ns_actor_user session) ''session owner'') (\<lambda>_.
       if session_is_purged s session then Inl (SessionPurged (ns_id session))
       else insert_session_sql s
         (new_session_row (case ns_occurred_at session of None \<Rightarrow> now | Some t \<Rightarrow> t) session) True)"

definition begin_session :: "int \<Rightarrow> store \<Rightarrow> new_session \<Rightarrow> store store_result" where
  "begin_session now s session = begin_session_row now s session"

definition begin_session_in_transaction :: "int \<Rightarrow> store \<Rightarrow> new_session \<Rightarrow> store store_result" where
  "begin_session_in_transaction now s session =
     and_then (begin_session_row now s session) (\<lambda>s'.
       if exists_row (\<lambda>r. ses_id r = ns_id session \<and> ses_workspace r = ns_workspace session
            \<and> ses_project r = ns_project session \<and> ses_agent_kind r = as_str (ns_agent session)
            \<and> ses_actor_user r = ns_actor_user session) (sessions s')
       then Inr s'
       else Inl (InvalidState ''startup receiver id belongs to a different scope, agent, or operator''))"

section \<open>Ending a session\<close>

definition session_observations :: "store \<Rightarrow> uuid \<Rightarrow> nat" where
  "session_observations s sid = length (filter (\<lambda>o'. obs_session o' = sid) (observations s))"

definition end_row :: "store \<Rightarrow> int \<Rightarrow> uuid option \<Rightarrow> session_row \<Rightarrow> session_row" where
  "end_row s ended page r =
     r\<lparr>ses_ended_at := Some ended, ses_summary_page := page,
       ses_ended_observation_count := session_observations s (ses_id r)\<rparr>"

definition end_session_row :: "int \<Rightarrow> store \<Rightarrow> uuid \<Rightarrow> uuid option \<Rightarrow> int option \<Rightarrow> store store_result" where
  "end_session_row now s sid page occurred_at =
     (if exists_row (\<lambda>r. ses_id r = sid) (sessions s) \<and> \<not> set_option page \<subseteq> pag_id ` set (pages s)
      then Inl foreign_key_error
      else Inr (s\<lparr>sessions := update_where (\<lambda>r. ses_id r = sid)
             (end_row s (case occurred_at of None \<Rightarrow> now | Some t \<Rightarrow> t) page) (sessions s)\<rparr>))"

definition end_session :: "int \<Rightarrow> store \<Rightarrow> uuid \<Rightarrow> uuid option \<Rightarrow> store store_result" where
  "end_session now s sid page = end_session_row now s sid page None"

text \<open>\<^verbatim>\<open>COALESCE((SELECT MAX(created_at) ...), started_at)\<close>\<close>

definition last_activity :: "store \<Rightarrow> session_row \<Rightarrow> int" where
  "last_activity s r =
     (case map obs_created_at (filter (\<lambda>o'. obs_session o' = ses_id r) (observations s)) of
        [] \<Rightarrow> ses_started_at r | t # ts \<Rightarrow> foldl max t ts)"

definition abandoned :: "store \<Rightarrow> int \<Rightarrow> session_row \<Rightarrow> bool" where
  "abandoned s cutoff r \<longleftrightarrow> ses_ended_at r = None \<and> last_activity s r < cutoff"

definition close_abandoned_sessions :: "store \<Rightarrow> int \<Rightarrow> store \<times> nat" where
  "close_abandoned_sessions s cutoff =
     (s\<lparr>sessions := update_where (abandoned s cutoff)
          (\<lambda>r. r\<lparr>ses_ended_at := Some (last_activity s r),
                 ses_ended_observation_count := session_observations s (ses_id r)\<rparr>) (sessions s)\<rparr>,
      changed_rows (abandoned s cutoff) (sessions s))"

section \<open>Appending observations\<close>

text \<open>\<^verbatim>\<open>SessionId\<close>'s hyphenated text and SHA-256 come from other crates.\<close>

record ingest_env =
  uuid_text :: "uuid \<Rightarrow> ustr"
  sha256_hex :: "nat list \<Rightarrow> ustr"

definition observation_row_of :: "int \<Rightarrow> uuid \<Rightarrow> new_observation \<Rightarrow> observation_row" where
  "observation_row_of now oid obs =
     (let (extension, source_event) =
        (case (no_extension obs, no_source_event obs) of
           (Some e, Some v) \<Rightarrow> (Some e, Some v) | _ \<Rightarrow> (None, None)) in
      \<lparr>obs_id = oid, obs_session = no_session obs, obs_workspace = no_workspace obs, obs_project = no_project obs,
       obs_kind = observation_kind_str (no_kind obs), obs_extension = extension, obs_source_event = source_event,
       obs_title = no_title obs, obs_body = no_body obs,
       obs_importance = (if no_importance obs < 1 then 1 else if no_importance obs > 10 then 10 else int (no_importance obs)),
       obs_created_at = (case no_occurred_at obs of None \<Rightarrow> now | Some t \<Rightarrow> t), obs_file_path = no_file_path obs\<rparr>)"

definition insert_observation_row :: "int \<Rightarrow> uuid \<Rightarrow> store \<Rightarrow> new_observation \<Rightarrow> store store_result" where
  "insert_observation_row now oid s obs =
     (if \<not> pairing_ok s (no_workspace obs) (no_project obs) then Inl pairing_error
      else if oid \<in> obs_id ` set (observations s) then Inl (Sqlite ''UNIQUE constraint failed: observations.id'')
      else if no_session obs \<notin> ses_id ` set (sessions s) \<or> no_workspace obs \<notin> wsp_id ` set (workspaces s)
      then Inl foreign_key_error
      else Inr (s\<lparr>observations := observations s @ [observation_row_of now oid obs]\<rparr>))"

definition insert_observation :: "int \<Rightarrow> uuid \<Rightarrow> store \<Rightarrow> new_observation \<Rightarrow> (store \<times> uuid) store_result" where
  "insert_observation now oid s obs = and_then (insert_observation_row now oid s obs) (\<lambda>s'. Inr (s', oid))"

definition ingest_key_ttl_micros :: int where
  "ingest_key_ttl_micros = 30 * 24 * 60 * 60 * 1000000"

definition recovery_ingest_key :: "ustr \<Rightarrow> bool" where
  "recovery_ingest_key key =
     (case strip_prefix (lit ''recovery_'') key of
        None \<Rightarrow> False
      | Some digest \<Rightarrow> byte_len digest = 55 \<and> list_all is_ascii_hexdigit digest)"

text \<open>The bytes fed to the hasher: each value with its length in front, \<^verbatim>\<open>usize::MAX\<close> for a missing one.\<close>

definition value_bytes :: "ustr option \<Rightarrow> nat list" where
  "value_bytes v =
     (case v of None \<Rightarrow> be_bytes (2 ^ 64 - 1) | Some t \<Rightarrow> be_bytes (byte_len t) @ utf8_bytes t)"

definition recovery_event_bytes :: "ingest_env \<Rightarrow> new_observation \<Rightarrow> ustr option \<Rightarrow> nat list" where
  "recovery_event_bytes env obs agent =
     concat (map value_bytes
       [Some (uuid_text env (no_session obs)), agent, Some (observation_kind_str (no_kind obs)),
        no_extension obs, no_source_event obs, Some (no_title obs), Some (no_body obs)])
     @ be_bytes (nat ((case no_occurred_at obs of None \<Rightarrow> 0 | Some t \<Rightarrow> t) mod 2 ^ 64))"

definition recovery_event_identity :: "ingest_env \<Rightarrow> new_observation \<Rightarrow> ustr option \<Rightarrow> ustr" where
  "recovery_event_identity env obs agent = sha256_hex env (recovery_event_bytes env obs agent)"

definition sweep_keys :: "int \<Rightarrow> store \<Rightarrow> store" where
  "sweep_keys now s =
     s\<lparr>ingest_keys := filter (\<lambda>k. ing_recovery_retained k \<or> \<not> ing_seen_at k < now - ingest_key_ttl_micros)
        (ingest_keys s)\<rparr>"

definition find_key :: "store \<Rightarrow> uuid \<Rightarrow> ustr \<Rightarrow> ingest_key_row option" where
  "find_key s project key = find (\<lambda>k. ing_project k = project \<and> ing_key k = key) (ingest_keys s)"

definition key_row :: "ingest_env \<Rightarrow> int \<Rightarrow> new_observation \<Rightarrow> ustr \<Rightarrow> ustr option \<Rightarrow> ingest_key_row" where
  "key_row env now obs key agent =
     (let recovery = recovery_ingest_key key in
      \<lparr>ing_project = no_project obs, ing_key = key, ing_seen_at = now, ing_completed_at = None,
       ing_session = (if recovery then Some (no_session obs) else None),
       ing_agent_kind = (if recovery then agent else None),
       ing_observation_kind = (if recovery then Some (observation_kind_str (no_kind obs)) else None),
       ing_event_identity = (if recovery then Some (recovery_event_identity env obs agent) else None),
       ing_recovery_retained = recovery\<rparr>)"

definition insert_key_sql :: "store \<Rightarrow> ingest_key_row \<Rightarrow> store store_result" where
  "insert_key_sql s row =
     (if exists_row (\<lambda>k. ing_project k = ing_project row \<and> ing_key k = ing_key row) (ingest_keys s)
      then Inl (Sqlite ''UNIQUE constraint failed: ingest_keys.project_id, ingest_keys.key'')
      else if ing_project row \<notin> prj_id ` set (projects s) \<or> \<not> set_option (ing_session row) \<subseteq> ses_id ` set (sessions s)
      then Inl foreign_key_error
      else Inr (s\<lparr>ingest_keys := ingest_keys s @ [row]\<rparr>))"

text \<open>
  The claim of a swept key, shared by both callers: an existing key decides between resuming and
  skipping, after a recovery key was checked to name the same event; a new one is stored with its observation.
\<close>

definition claim_ingest ::
  "ingest_env \<Rightarrow> int \<Rightarrow> uuid \<Rightarrow> store \<Rightarrow> new_observation \<Rightarrow> ustr \<Rightarrow> ustr option \<Rightarrow> (store \<times> ingest_outcome) store_result" where
  "claim_ingest env now oid s obs key agent =
     (case find_key s (no_project obs) key of
        Some row \<Rightarrow>
          if recovery_ingest_key key
             \<and> (ing_session row \<noteq> Some (no_session obs) \<or> ing_agent_kind row \<noteq> agent
                \<or> ing_observation_kind row \<noteq> Some (observation_kind_str (no_kind obs))
                \<or> ing_event_identity row \<noteq> Some (recovery_event_identity env obs agent))
          then Inl SessionCollision
          else Inr (s, if ing_completed_at row \<noteq> None then AlreadyComplete else ResumePending)
      | None \<Rightarrow>
          and_then (insert_key_sql s (key_row env now obs key agent)) (\<lambda>s1.
          and_then (insert_observation_row now oid s1 obs) (\<lambda>s2. Inr (s2, Inserted oid))))"

definition insert_observation_keyed ::
  "ingest_env \<Rightarrow> int \<Rightarrow> uuid \<Rightarrow> store \<Rightarrow> new_observation \<Rightarrow> ustr \<Rightarrow> (store \<times> ingest_outcome) store_result" where
  "insert_observation_keyed env now oid s obs key =
     (let s1 = sweep_keys now s;
          recovery = recovery_ingest_key key;
          session_agent = (if recovery then map_option ses_agent_kind (find_session s1 (no_session obs)) else None)
      in if recovery \<and> session_agent = None then Inl SessionCollision
         else claim_ingest env now oid s1 obs key session_agent)"

definition complete_observation_ingest_if_claimed :: "int \<Rightarrow> store \<Rightarrow> uuid \<Rightarrow> ustr \<Rightarrow> store \<times> bool" where
  "complete_observation_ingest_if_claimed now s project key =
     (let P = (\<lambda>k. ing_project k = project \<and> ing_key k = key) in
      (s\<lparr>ingest_keys := update_where P
           (\<lambda>k. k\<lparr>ing_completed_at := Some (case ing_completed_at k of None \<Rightarrow> now | Some t \<Rightarrow> t)\<rparr>) (ingest_keys s)\<rparr>,
       changed_rows P (ingest_keys s) \<noteq> 0))"

definition complete_observation_ingest :: "int \<Rightarrow> store \<Rightarrow> uuid \<Rightarrow> ustr \<Rightarrow> store store_result" where
  "complete_observation_ingest now s project key =
     (case complete_observation_ingest_if_claimed now s project key of
        (s', True) \<Rightarrow> Inr s'
      | (s', False) \<Rightarrow> Inl (InvalidState ''cannot complete an ingest key that was not claimed''))"

section \<open>Admitting a hook event\<close>

definition qualified_owner :: "ustr option \<Rightarrow> bool" where
  "qualified_owner owner = (case owner of None \<Rightarrow> True | Some k \<Rightarrow> from_storage_key k \<noteq> None)"

text \<open>What the session row contributes: owner, end, watermark, directory and the scope the event belongs to.\<close>

record admission_state =
  as_owner :: "ustr option"
  as_ended_at :: "int option"
  as_ended_count :: nat
  as_cwd :: "ustr option"
  as_workspace :: uuid
  as_project :: uuid

definition same_cwd :: "ustr option \<Rightarrow> ustr option \<Rightarrow> bool" where
  "same_cwd stored event =
     (case (stored, event) of (Some a, Some b) \<Rightarrow> normalize_cwd a = normalize_cwd b | _ \<Rightarrow> False)"

definition resolve_existing ::
  "session_row \<Rightarrow> new_session \<Rightarrow> bool \<Rightarrow> owner_filter \<Rightarrow> (hook_admission + admission_state) store_result" where
  "resolve_existing r session session_end owner_filter =
     (if \<not> qualified_owner (ses_actor_user r) \<or> ses_agent_kind r \<noteq> as_str (ns_agent session)
         \<or> \<not> admits_owner owner_filter (ses_actor_user r)
      then Inl SessionCollision
      else if session_end
         \<and> \<not> (ses_workspace r = ns_workspace session \<and> ses_project r = ns_project session)
         \<and> \<not> same_cwd (ses_cwd r) (ns_cwd session)
      then Inr (Inl AdmInvalidScopedEnd)
      else Inr (Inr
        \<lparr>as_owner = ses_actor_user r, as_ended_at = ses_ended_at r, as_ended_count = ses_ended_observation_count r,
         as_cwd = ses_cwd r,
         as_workspace = (if session_end then ses_workspace r else ns_workspace session),
         as_project = (if session_end then ses_project r else ns_project session)\<rparr>))"

definition create_hook_session ::
  "int \<Rightarrow> store \<Rightarrow> new_session \<Rightarrow> owner_filter \<Rightarrow> (store \<times> admission_state) store_result" where
  "create_hook_session now s session owner_filter =
     and_then (validate_identity_storage_key (ns_actor_user session) ''session owner'') (\<lambda>_.
       if \<not> admits_owner owner_filter (ns_actor_user session) then Inl SessionCollision
       else if session_is_purged s session then Inl (SessionPurged (ns_id session))
       else and_then (insert_session_sql s
              (new_session_row (case ns_occurred_at session of None \<Rightarrow> now | Some t \<Rightarrow> t) session) False) (\<lambda>s'.
         Inr (s', \<lparr>as_owner = ns_actor_user session, as_ended_at = None, as_ended_count = 0, as_cwd = None,
                   as_workspace = ns_workspace session, as_project = ns_project session\<rparr>)))"

definition resolve_session ::
  "int \<Rightarrow> store \<Rightarrow> new_session \<Rightarrow> bool \<Rightarrow> owner_filter \<Rightarrow> (store \<times> (hook_admission + admission_state)) store_result" where
  "resolve_session now s session session_end owner_filter =
     (case find_session s (ns_id session) of
        Some r \<Rightarrow> and_then (resolve_existing r session session_end owner_filter) (\<lambda>x. Inr (s, x))
      | None \<Rightarrow>
          if session_end then Inr (s, Inl AdmInvalidMissingEnd)
          else and_then (create_hook_session now s session owner_filter) (\<lambda>(s', st). Inr (s', Inr st)))"

definition record_event ::
  "ingest_env \<Rightarrow> int \<Rightarrow> uuid \<Rightarrow> store \<Rightarrow> new_observation \<Rightarrow> agent_kind \<Rightarrow> ustr option \<Rightarrow> (store \<times> ingest_outcome) store_result" where
  "record_event env now oid s obs agent ingest_key =
     (case ingest_key of
        Some key \<Rightarrow> claim_ingest env now oid (sweep_keys now s) obs key (Some (as_str agent))
      | None \<Rightarrow> and_then (insert_observation_row now oid s obs) (\<lambda>s'. Inr (s', Inserted oid)))"

text \<open>The compare-and-set of an explicit relocation.\<close>

definition moves :: "admission_state \<Rightarrow> new_session \<Rightarrow> ustr option \<Rightarrow> ingest_outcome \<Rightarrow> ustr option \<Rightarrow> bool" where
  "moves st session ingest_key ingest moved_from =
     (case (moved_from, as_cwd st, ns_cwd session) of
        (Some from, Some stored, Some target) \<Rightarrow>
          ingest_key \<noteq> None \<and> as_ended_at st = None \<and> (case ingest of Inserted _ \<Rightarrow> True | _ \<Rightarrow> False)
          \<and> normalize_cwd stored = normalize_cwd from
      | _ \<Rightarrow> False)"

definition rebind_session :: "store \<Rightarrow> new_session \<Rightarrow> store store_result" where
  "rebind_session s session =
     (if ns_workspace session \<notin> wsp_id ` set (workspaces s) \<or> ns_project session \<notin> prj_id ` set (projects s)
      then Inl foreign_key_error
      else Inr (s\<lparr>sessions := update_where (\<lambda>r. ses_id r = ns_id session)
        (\<lambda>r. r\<lparr>ses_workspace := ns_workspace session, ses_project := ns_project session, ses_cwd := ns_cwd session\<rparr>)
        (sessions s)\<rparr>))"

definition session_guard :: "new_session \<Rightarrow> admission_state \<Rightarrow> admitted_session" where
  "session_guard session st =
     \<lparr>ad_session = ns_id session, ad_workspace = as_workspace st, ad_project = as_project st,
      ad_agent = ns_agent session, ad_owner = as_owner st\<rparr>"

definition rescoped :: "new_observation \<Rightarrow> admission_state \<Rightarrow> new_observation" where
  "rescoped obs st = obs\<lparr>no_workspace := as_workspace st, no_project := as_project st\<rparr>"

definition admission_of :: "bool \<Rightarrow> new_session \<Rightarrow> admission_state \<Rightarrow> ingest_outcome \<Rightarrow> hook_admission" where
  "admission_of session_end session st ingest =
     (if \<not> session_end then AdmObservation (session_guard session st) ingest
      else if as_ended_at st \<noteq> None then AdmReEnd (session_guard session st) ingest
      else AdmEndOpen (session_guard session st) ingest)"

definition admit_resolved ::
  "ingest_env \<Rightarrow> int \<Rightarrow> uuid \<Rightarrow> store \<Rightarrow> new_session \<Rightarrow> new_observation \<Rightarrow> ustr option \<Rightarrow> ustr option \<Rightarrow> admission_state
     \<Rightarrow> (store \<times> hook_admission) store_result" where
  "admit_resolved env now oid s session obs ingest_key moved_from st =
     (let session_end = (no_kind obs = ObsSessionEnd) in
      if session_end \<and> as_ended_at st \<noteq> None \<and> session_observations s (ns_id session) \<le> as_ended_count st
      then Inr (s, AdmAlreadyEnded (session_guard session st))
      else and_then (record_event env now oid s (rescoped obs st) (ns_agent session) ingest_key) (\<lambda>(s2, ingest).
        and_then (if moves st session ingest_key ingest moved_from then rebind_session s2 session else Inr s2) (\<lambda>s3.
        Inr (s3, admission_of session_end session st ingest))))"

definition admit_hook_session_event ::
  "ingest_env \<Rightarrow> int \<Rightarrow> uuid \<Rightarrow> store \<Rightarrow> new_session \<Rightarrow> new_observation \<Rightarrow> owner_filter \<Rightarrow> ustr option \<Rightarrow> ustr option
     \<Rightarrow> (store \<times> hook_admission) store_result" where
  "admit_hook_session_event env now oid s session obs owner_filter ingest_key moved_from =
     (if no_session obs \<noteq> ns_id session \<or> no_workspace obs \<noteq> ns_workspace session \<or> no_project obs \<noteq> ns_project session
      then Inl (InvalidState ''hook observation does not match its session tuple'')
      else
        and_then (resolve_session now s session (no_kind obs = ObsSessionEnd) owner_filter) (\<lambda>(s1, resolved).
          case resolved of
            Inl early \<Rightarrow> Inr (s1, early)
          | Inr st \<Rightarrow> admit_resolved env now oid s1 session obs ingest_key moved_from st))"

definition validate_admitted_session :: "store \<Rightarrow> admitted_session \<Rightarrow> unit store_result" where
  "validate_admitted_session s admitted =
     (case find (\<lambda>r. ses_id r = ad_session admitted \<and> ses_workspace r = ad_workspace admitted
          \<and> ses_project r = ad_project admitted \<and> ses_agent_kind r = as_str (ad_agent admitted)) (sessions s) of
        None \<Rightarrow> Inl SessionCollision
      | Some r \<Rightarrow> if ses_actor_user r \<noteq> ad_owner admitted \<or> \<not> qualified_owner (ses_actor_user r)
                 then Inl SessionCollision else Inr ())"

definition end_admitted_session ::
  "int \<Rightarrow> store \<Rightarrow> admitted_session \<Rightarrow> uuid option \<Rightarrow> int option \<Rightarrow> store store_result" where
  "end_admitted_session now s admitted page occurred_at =
     and_then (validate_admitted_session s admitted) (\<lambda>_. end_session_row now s (ad_session admitted) page occurred_at)"

section \<open>Commands\<close>

datatype ses_command =
    BeginSession new_session
  | HookEvent uuid new_session new_observation owner_filter "ustr option" "ustr option"
  | EndSession uuid "uuid option"
  | EndAdmitted admitted_session "uuid option" "int option"
  | CloseAbandoned int
  | Observe uuid new_observation
  | ObserveKeyed uuid new_observation ustr
  | CompleteIngest uuid ustr

text \<open>A failed transaction leaves the store as it was.\<close>

definition kept :: "store \<Rightarrow> store store_result \<Rightarrow> store" where
  "kept s r = (case r of Inl _ \<Rightarrow> s | Inr s' \<Rightarrow> s')"

definition kept_with :: "store \<Rightarrow> (store \<times> 'a) store_result \<Rightarrow> store" where
  "kept_with s r = (case r of Inl _ \<Rightarrow> s | Inr (s', _) \<Rightarrow> s')"

fun ingest_of :: "hook_admission \<Rightarrow> (admitted_session \<times> ingest_outcome) option" where
  "ingest_of (AdmObservation g i) = Some (g, i)"
| "ingest_of (AdmEndOpen g i) = Some (g, i)"
| "ingest_of (AdmReEnd g i) = Some (g, i)"
| "ingest_of _ = None"

text \<open>The project and key under which a command recorded an observation, if it recorded one under a key.\<close>

fun recorded_key :: "ingest_env \<Rightarrow> int \<Rightarrow> store \<Rightarrow> ses_command \<Rightarrow> (uuid \<times> ustr) option" where
  "recorded_key env now s (HookEvent oid session obs f (Some key) moved) =
     (case admit_hook_session_event env now oid s session obs f (Some key) moved of
        Inr (_, adm) \<Rightarrow> (case ingest_of adm of Some (g, Inserted _) \<Rightarrow> Some (ad_project g, key) | _ \<Rightarrow> None)
      | Inl _ \<Rightarrow> None)"
| "recorded_key env now s (ObserveKeyed oid obs key) =
     (case insert_observation_keyed env now oid s obs key of
        Inr (_, Inserted _) \<Rightarrow> Some (no_project obs, key) | _ \<Rightarrow> None)"
| "recorded_key env now s _ = None"

fun ses_exec :: "ingest_env \<Rightarrow> store \<Rightarrow> int \<times> ses_command \<Rightarrow> store" where
  "ses_exec env s (now, BeginSession session) = kept s (begin_session now s session)"
| "ses_exec env s (now, HookEvent oid session obs f key moved) =
     kept_with s (admit_hook_session_event env now oid s session obs f key moved)"
| "ses_exec env s (now, EndSession sid page) = kept s (end_session now s sid page)"
| "ses_exec env s (now, EndAdmitted g page occ) = kept s (end_admitted_session now s g page occ)"
| "ses_exec env s (now, CloseAbandoned cutoff) = fst (close_abandoned_sessions s cutoff)"
| "ses_exec env s (now, Observe oid obs) = kept_with s (insert_observation now oid s obs)"
| "ses_exec env s (now, ObserveKeyed oid obs key) = kept_with s (insert_observation_keyed env now oid s obs key)"
| "ses_exec env s (now, CompleteIngest project key) = fst (complete_observation_ingest_if_claimed now s project key)"

fun ses_exec_all :: "ingest_env \<Rightarrow> store \<Rightarrow> (int \<times> ses_command) list \<Rightarrow> store" where
  "ses_exec_all env s [] = s"
| "ses_exec_all env s (c # cs) = ses_exec_all env (ses_exec env s c) cs"

fun recorded_keys :: "ingest_env \<Rightarrow> store \<Rightarrow> (int \<times> ses_command) list \<Rightarrow> (uuid \<times> ustr) list" where
  "recorded_keys env s [] = []"
| "recorded_keys env s (c # cs) =
     (case recorded_key env (fst c) s (snd c) of
        None \<Rightarrow> recorded_keys env (ses_exec env s c) cs
      | Some k \<Rightarrow> k # recorded_keys env (ses_exec env s c) cs)"

section \<open>What each operation writes\<close>

lemma validate_identity_Inr: "validate_identity_storage_key v l = Inr u \<longleftrightarrow> qualified_owner v"
  by (cases v) (auto simp: validate_identity_storage_key_def qualified_owner_def)

lemma insert_session_cases:
  assumes "insert_session_sql s row do_nothing = Inr s'"
  obtains "s' = s" "do_nothing" "ses_id row \<in> ses_id ` set (sessions s)"
  | "s' = s\<lparr>sessions := sessions s @ [row]\<rparr>" "ses_id row \<notin> ses_id ` set (sessions s)"
  using assms that unfolding insert_session_sql_def by (metis Inl_Inr_False old.sum.inject(2))

lemma begin_session_cases:
  assumes "begin_session now s session = Inr s'"
  obtains "s' = s" "ns_id session \<in> ses_id ` set (sessions s)"
  | row where "s' = s\<lparr>sessions := sessions s @ [row]\<rparr>" "ses_id row = ns_id session"
      "ns_id session \<notin> ses_id ` set (sessions s)" "\<not> session_is_purged s session"
proof -
  let ?row = "new_session_row (case ns_occurred_at session of None \<Rightarrow> now | Some t \<Rightarrow> t) session"
  have id: "ses_id ?row = ns_id session" by (simp add: new_session_row_def)
  from assms have p: "\<not> session_is_purged s session" and i: "insert_session_sql s ?row True = Inr s'"
    by (auto simp: begin_session_def begin_session_row_def and_then_Inr_iff split: if_splits)
  from i show thesis
  proof (cases rule: insert_session_cases)
    case 1 with id that(1) show thesis by simp
  next
    case 2 with id p that(2) show thesis by simp
  qed
qed

lemma insert_observation_row_InrD:
  assumes "insert_observation_row now oid s obs = Inr s'"
  shows "s' = s\<lparr>observations := observations s @ [observation_row_of now oid obs]\<rparr>"
    and "no_session obs \<in> ses_id ` set (sessions s)"
  using assms by (auto simp: insert_observation_row_def split: if_splits)

lemma insert_key_InrD:
  assumes "insert_key_sql s row = Inr s'"
  shows "s' = s\<lparr>ingest_keys := ingest_keys s @ [row]\<rparr>"
  using assms by (auto simp: insert_key_sql_def split: if_splits)

lemma claim_ingest_cases:
  assumes "claim_ingest env now oid s obs key agent = Inr (s', out)"
  obtains (known) row where "find_key s (no_project obs) key = Some row" "s' = s" "\<And>i. out \<noteq> Inserted i"
  | (fresh) "find_key s (no_project obs) key = None" "out = Inserted oid"
      "s' = s\<lparr>ingest_keys := ingest_keys s @ [key_row env now obs key agent],
              observations := observations s @ [observation_row_of now oid obs]\<rparr>"
      "no_session obs \<in> ses_id ` set (sessions s)"
proof (cases "find_key s (no_project obs) key")
  case None
  from assms None obtain s1 s2 where s1: "insert_key_sql s (key_row env now obs key agent) = Inr s1"
    and s2: "insert_observation_row now oid s1 obs = Inr s2" and e: "s' = s2" "out = Inserted oid"
    by (auto simp: claim_ingest_def and_then_Inr_iff)
  show thesis
    using that(2) None e insert_key_InrD[OF s1] insert_observation_row_InrD[OF s2] by simp
next
  case (Some row)
  with assms have "s' = s" "\<And>i. out \<noteq> Inserted i" by (auto simp: claim_ingest_def split: if_splits)
  with Some that(1) show thesis by blast
qed

text \<open>
  \<open>ses_le now s s'\<close>: how any operation at time \<open>now\<close> changes the tables. Session rows keep who they are
  about, observations are only appended, and a key that is retained or younger than the horizon stays.
\<close>

definition same_session :: "session_row \<Rightarrow> session_row \<Rightarrow> bool" where
  "same_session r r' \<longleftrightarrow> ses_id r' = ses_id r \<and> ses_agent_kind r' = ses_agent_kind r
     \<and> ses_actor_user r' = ses_actor_user r \<and> ses_started_at r' = ses_started_at r"

definition sessions_le :: "session_row list \<Rightarrow> session_row list \<Rightarrow> bool" where
  "sessions_le rs rs' \<longleftrightarrow> (\<forall>r \<in> set rs. \<exists>r' \<in> set rs'. same_session r r')"

definition live_key :: "int \<Rightarrow> ingest_key_row \<Rightarrow> bool" where
  "live_key now k \<longleftrightarrow> ing_recovery_retained k \<or> \<not> ing_seen_at k < now - ingest_key_ttl_micros"

definition same_key :: "ingest_key_row \<Rightarrow> ingest_key_row \<Rightarrow> bool" where
  "same_key k k' \<longleftrightarrow> ing_project k' = ing_project k \<and> ing_key k' = ing_key k \<and> ing_seen_at k' = ing_seen_at k
     \<and> ing_recovery_retained k' = ing_recovery_retained k"

definition keys_le :: "int \<Rightarrow> ingest_key_row list \<Rightarrow> ingest_key_row list \<Rightarrow> bool" where
  "keys_le now ks ks' \<longleftrightarrow> (\<forall>k \<in> set ks. live_key now k \<longrightarrow> (\<exists>k' \<in> set ks'. same_key k k'))"

definition ses_le :: "int \<Rightarrow> store \<Rightarrow> store \<Rightarrow> bool" where
  "ses_le now s s' \<longleftrightarrow> sessions_le (sessions s) (sessions s') \<and> (\<exists>os. observations s' = observations s @ os)
     \<and> keys_le now (ingest_keys s) (ingest_keys s') \<and> purged_sessions s' = purged_sessions s
     \<and> handoffs s' = handoffs s \<and> consolidation_jobs s' = consolidation_jobs s"

lemma same_session_refl [simp]: "same_session r r" by (simp add: same_session_def)

lemma same_key_refl [simp]: "same_key k k" by (simp add: same_key_def)

lemma sessions_le_trans: "sessions_le a b \<Longrightarrow> sessions_le b c \<Longrightarrow> sessions_le a c"
  unfolding sessions_le_def same_session_def by metis

lemma keys_le_trans: "keys_le now a b \<Longrightarrow> keys_le now b c \<Longrightarrow> keys_le now a c"
  unfolding keys_le_def same_key_def live_key_def by metis

lemma sessions_le_subset [intro]: "set rs \<subseteq> set rs' \<Longrightarrow> sessions_le rs rs'"
  unfolding sessions_le_def by (metis same_session_refl subsetD)

lemma keys_le_subset [intro]: "{k \<in> set ks. live_key now k} \<subseteq> set ks' \<Longrightarrow> keys_le now ks ks'"
  unfolding keys_le_def by (metis (no_types, lifting) mem_Collect_eq same_key_refl subsetD)

lemma ses_le_refl [simp]: "ses_le now s s"
  by (auto simp: ses_le_def)

lemma ses_le_trans: "ses_le now a b \<Longrightarrow> ses_le now b c \<Longrightarrow> ses_le now a c"
  unfolding ses_le_def by (auto intro: sessions_le_trans keys_le_trans)

lemma sessions_le_update: "(\<And>r. P r \<Longrightarrow> same_session r (f r)) \<Longrightarrow> sessions_le rs (update_where P f rs)"
  unfolding sessions_le_def by (metis in_update_where same_session_refl)

lemma ses_le_new_session: "ses_le now s (s\<lparr>sessions := sessions s @ [row]\<rparr>)"
  by (auto simp: ses_le_def)

lemma ses_le_update_sessions:
  "(\<And>r. P r \<Longrightarrow> same_session r (f r)) \<Longrightarrow> ses_le now s (s\<lparr>sessions := update_where P f (sessions s)\<rparr>)"
  by (auto simp: ses_le_def sessions_le_update)

lemma ses_le_observe: "ses_le now s (s\<lparr>observations := observations s @ os\<rparr>)"
  by (auto simp: ses_le_def)

lemma ses_le_new_key: "ses_le now s (s\<lparr>ingest_keys := ingest_keys s @ [k], observations := observations s @ os\<rparr>)"
  by (auto simp: ses_le_def)

lemma ses_le_sweep: "ses_le now s (sweep_keys now s)"
  by (auto simp: ses_le_def sweep_keys_def live_key_def)

lemma end_row_same: "same_session r (end_row s t page r)"
  by (simp add: same_session_def end_row_def)

lemma insert_session_le: "insert_session_sql s row d = Inr s' \<Longrightarrow> ses_le now s s'"
  by (erule insert_session_cases) (auto simp: ses_le_new_session)

lemma claim_ingest_le:
  assumes "claim_ingest env now oid s obs key agent = Inr (s', out)"
  shows "ses_le now s s'"
  using assms by (cases rule: claim_ingest_cases) (auto intro: ses_le_new_key)

lemma record_event_le:
  assumes "record_event env now oid s obs agent key = Inr (s', out)"
  shows "ses_le now s s'"
proof (cases key)
  case None
  with assms show ?thesis
    by (auto simp: record_event_def and_then_Inr_iff dest!: insert_observation_row_InrD(1) intro: ses_le_observe)
next
  case (Some k)
  with assms have "ses_le now (sweep_keys now s) s'" by (auto simp: record_event_def intro: claim_ingest_le)
  with ses_le_sweep show ?thesis by (rule ses_le_trans)
qed

lemma resolve_session_le:
  assumes "resolve_session now s session e f = Inr (s', x)"
  shows "ses_le now s s'"
proof (cases "find_session s (ns_id session)")
  case None
  with assms show ?thesis
    by (auto simp: resolve_session_def create_hook_session_def and_then_Inr_iff split: if_splits
        dest!: insert_session_le[of _ _ _ _ now])
next
  case (Some r)
  with assms show ?thesis by (auto simp: resolve_session_def and_then_Inr_iff)
qed

lemma rebind_session_le: "rebind_session s session = Inr s' \<Longrightarrow> ses_le now s s'"
  by (auto simp: rebind_session_def same_session_def split: if_splits intro!: ses_le_update_sessions)

lemma admit_Inr_iff:
  "admit_hook_session_event env now oid s session obs f key moved = Inr (s', adm) \<longleftrightarrow>
     (no_session obs = ns_id session \<and> no_workspace obs = ns_workspace session \<and> no_project obs = ns_project session)
     \<and> (\<exists>s1 x. resolve_session now s session (no_kind obs = ObsSessionEnd) f = Inr (s1, x)
          \<and> (case x of Inl early \<Rightarrow> s' = s1 \<and> adm = early
              | Inr st \<Rightarrow> admit_resolved env now oid s1 session obs key moved st = Inr (s', adm)))"
  unfolding admit_hook_session_event_def by (auto simp: and_then_Inr_iff split: sum.splits)

lemma ingest_of_admission [simp]: "ingest_of (admission_of e session st ingest) = Some (session_guard session st, ingest)"
  by (simp add: admission_of_def)

lemma admit_resolved_cases:
  assumes "admit_resolved env now oid s session obs key moved st = Inr (s', adm)"
  obtains (ended) "no_kind obs = ObsSessionEnd" "as_ended_at st \<noteq> None"
      "session_observations s (ns_id session) \<le> as_ended_count st" "s' = s" "adm = AdmAlreadyEnded (session_guard session st)"
  | (recorded) s2 ingest where
      "record_event env now oid s (rescoped obs st) (ns_agent session) key = Inr (s2, ingest)"
      "(if moves st session key ingest moved then rebind_session s2 session else Inr s2) = Inr s'"
      "adm = admission_of (no_kind obs = ObsSessionEnd) session st ingest"
proof (cases "no_kind obs = ObsSessionEnd \<and> as_ended_at st \<noteq> None \<and> session_observations s (ns_id session) \<le> as_ended_count st")
  case True
  from assms have "s' = s" "adm = AdmAlreadyEnded (session_guard session st)"
    unfolding admit_resolved_def Let_def if_P[OF True] by simp_all
  then show thesis using True by (intro that(1)) simp_all
next
  case False
  from assms have "and_then (record_event env now oid s (rescoped obs st) (ns_agent session) key) (\<lambda>(s2, ingest).
        and_then (if moves st session key ingest moved then rebind_session s2 session else Inr s2) (\<lambda>s3.
        Inr (s3, admission_of (no_kind obs = ObsSessionEnd) session st ingest))) = Inr (s', adm)"
    unfolding admit_resolved_def Let_def if_not_P[OF False] .
  then obtain x where x: "record_event env now oid s (rescoped obs st) (ns_agent session) key = Inr x"
    "(case x of (s2, ingest) \<Rightarrow>
        and_then (if moves st session key ingest moved then rebind_session s2 session else Inr s2) (\<lambda>s3.
        Inr (s3, admission_of (no_kind obs = ObsSessionEnd) session st ingest))) = Inr (s', adm)"
    unfolding and_then_Inr_iff by blast
  obtain s2 ingest where e: "x = (s2, ingest)" by (cases x)
  let ?X = "if moves st session key ingest moved then rebind_session s2 session else Inr s2"
  from x(2)[unfolded e prod.case] have "?X = Inr s' \<and> adm = admission_of (no_kind obs = ObsSessionEnd) session st ingest"
    by (cases ?X) simp_all
  with x(1)[unfolded e] that(2) show thesis by blast
qed

lemma admit_resolved_le:
  assumes "admit_resolved env now oid s session obs key moved st = Inr (s', adm)"
  shows "ses_le now s s'"
  using assms
proof (cases rule: admit_resolved_cases)
  case (recorded s2 ingest)
  have "ses_le now s2 s'" using recorded(2) by (auto split: if_splits intro: rebind_session_le)
  with record_event_le[OF recorded(1)] show ?thesis by (rule ses_le_trans)
qed simp

lemma admit_le:
  assumes "admit_hook_session_event env now oid s session obs f key moved = Inr (s', adm)"
  shows "ses_le now s s'"
proof -
  from assms obtain s1 x where res: "resolve_session now s session (no_kind obs = ObsSessionEnd) f = Inr (s1, x)"
    and rest: "case x of Inl early \<Rightarrow> s' = s1 \<and> adm = early
      | Inr st \<Rightarrow> admit_resolved env now oid s1 session obs key moved st = Inr (s', adm)"
    unfolding admit_Inr_iff by blast
  have "ses_le now s1 s'" using rest by (cases x) (auto intro: admit_resolved_le)
  with resolve_session_le[OF res] show ?thesis by (rule ses_le_trans)
qed

lemma end_session_row_le: "end_session_row now' s sid page occ = Inr s' \<Longrightarrow> ses_le now s s'"
  by (auto simp: end_session_row_def split: if_splits intro!: ses_le_update_sessions end_row_same)

lemma complete_le: "ses_le now s (fst (complete_observation_ingest_if_claimed now' s project key))"
proof -
  have "keys_le now ks (update_where P (\<lambda>k. k\<lparr>ing_completed_at := f k\<rparr>) ks)" for ks P f
    unfolding keys_le_def
  proof (intro ballI impI)
    fix k assume "k \<in> set ks"
    from in_update_where[OF this, of P "\<lambda>k. k\<lparr>ing_completed_at := f k\<rparr>"]
    show "\<exists>k' \<in> set (update_where P (\<lambda>k. k\<lparr>ing_completed_at := f k\<rparr>) ks). same_key k k'"
      by (rule bexI[rotated]) (simp add: same_key_def)
  qed
  then show ?thesis by (auto simp: ses_le_def complete_observation_ingest_if_claimed_def Let_def)
qed

lemma ses_exec_le: "ses_le now s (ses_exec env s (now, c))"
proof (cases c)
  case (BeginSession session)
  then show ?thesis
    by (cases "begin_session now s session")
      (auto simp: kept_def begin_session_def begin_session_row_def and_then_Inr_iff split: if_splits dest!: insert_session_le[of _ _ _ _ now])
next
  case (HookEvent oid session obs f key moved)
  then show ?thesis by (auto simp: kept_with_def split: sum.splits intro: admit_le)
next
  case (EndSession sid page)
  then show ?thesis by (auto simp: kept_def end_session_def split: sum.splits intro: end_session_row_le)
next
  case (EndAdmitted g page occ)
  then show ?thesis
    by (auto simp: kept_def end_admitted_session_def and_then_Inr_iff split: sum.splits intro: end_session_row_le)
next
  case (CloseAbandoned cutoff)
  then show ?thesis by (auto simp: close_abandoned_sessions_def same_session_def intro!: ses_le_update_sessions)
next
  case (Observe oid obs)
  then show ?thesis
    by (auto simp: kept_with_def insert_observation_def and_then_Inr_iff split: sum.splits
        dest!: insert_observation_row_InrD(1) intro: ses_le_observe)
next
  case (ObserveKeyed oid obs key)
  then show ?thesis
    by (auto simp: kept_with_def insert_observation_keyed_def Let_def split: sum.splits if_splits
        dest!: claim_ingest_le intro: ses_le_trans[OF ses_le_sweep])
next
  case (CompleteIngest project key)
  then show ?thesis by (simp add: complete_le)
qed

section \<open>A keyed event is recorded once\<close>

definition key_taken :: "int \<Rightarrow> store \<Rightarrow> uuid \<times> ustr \<Rightarrow> bool" where
  "key_taken lo s pk \<longleftrightarrow> (\<exists>k \<in> set (ingest_keys s). ing_project k = fst pk \<and> ing_key k = snd pk
     \<and> (ing_recovery_retained k \<or> lo \<le> ing_seen_at k))"

definition in_window :: "int \<Rightarrow> int \<times> ses_command \<Rightarrow> bool" where
  "in_window lo c \<longleftrightarrow> lo \<le> fst c \<and> fst c \<le> lo + ingest_key_ttl_micros"

lemma key_taken_le:
  assumes "keys_le now (ingest_keys s) (ingest_keys s')" "now \<le> lo + ingest_key_ttl_micros" "key_taken lo s pk"
  shows "key_taken lo s' pk"
proof -
  from assms(3) obtain k where k: "k \<in> set (ingest_keys s)" "ing_project k = fst pk" "ing_key k = snd pk"
    "ing_recovery_retained k \<or> lo \<le> ing_seen_at k" by (auto simp: key_taken_def)
  with assms(2) have "live_key now k" by (auto simp: live_key_def)
  with assms(1) k(1) obtain k' where "k' \<in> set (ingest_keys s')" "same_key k k'" by (auto simp: keys_le_def)
  with k show ?thesis by (auto simp: key_taken_def same_key_def)
qed

lemma swept_not_taken:
  assumes "find_key (sweep_keys now s) p key = None" "now \<le> lo + ingest_key_ttl_micros"
  shows "\<not> key_taken lo s (p, key)"
  using assms by (fastforce simp: key_taken_def find_key_def sweep_keys_def find_None_iff)

lemma resolve_session_keys:
  assumes "resolve_session now s session e f = Inr (s1, x)"
  shows "ingest_keys s1 = ingest_keys s"
proof (cases "find_session s (ns_id session)")
  case None
  with assms show ?thesis
    by (auto simp: resolve_session_def create_hook_session_def and_then_Inr_iff insert_session_sql_def split: if_splits)
next
  case (Some r)
  with assms show ?thesis by (auto simp: resolve_session_def and_then_Inr_iff)
qed

lemma rebind_session_keys: "rebind_session s session = Inr s' \<Longrightarrow> ingest_keys s' = ingest_keys s"
  by (auto simp: rebind_session_def split: if_splits)

lemma claim_ingest_grants:
  assumes "claim_ingest env now oid (sweep_keys now s) obs key agent = Inr (s', Inserted i)"
    and "lo \<le> now" "now \<le> lo + ingest_key_ttl_micros"
  shows "\<not> key_taken lo s (no_project obs, key) \<and> key_taken lo s' (no_project obs, key)"
  using assms(1)
proof (cases rule: claim_ingest_cases)
  case fresh
  have "key_taken lo s' (no_project obs, key)"
    using assms(2) by (auto simp: key_taken_def fresh(3) key_row_def Let_def)
  with swept_not_taken[OF fresh(1) assms(3)] show ?thesis ..
next
  case (known row)
  then show ?thesis by blast
qed

lemma hook_event_grants:
  assumes "admit_hook_session_event env now oid s session obs f (Some key) moved = Inr (s', adm)"
    and "ingest_of adm = Some (g, Inserted i)" "lo \<le> now" "now \<le> lo + ingest_key_ttl_micros"
  shows "\<not> key_taken lo s (ad_project g, key) \<and> key_taken lo s' (ad_project g, key)"
proof -
  from assms(1) obtain s1 x where res: "resolve_session now s session (no_kind obs = ObsSessionEnd) f = Inr (s1, x)"
    and rest: "case x of Inl early \<Rightarrow> s' = s1 \<and> adm = early
      | Inr st \<Rightarrow> admit_resolved env now oid s1 session obs (Some key) moved st = Inr (s', adm)"
    unfolding admit_Inr_iff by blast
  have early: "ingest_of e = None" if "x = Inl e" for e
    using res that by (cases "find_session s (ns_id session)")
      (auto simp: resolve_session_def resolve_existing_def and_then_Inr_iff split: if_splits)
  obtain st where st: "x = Inr st" using rest early assms(2) by (cases x) auto
  with rest have "admit_resolved env now oid s1 session obs (Some key) moved st = Inr (s', adm)" by simp
  then show ?thesis
  proof (cases rule: admit_resolved_cases)
    case ended
    with assms(2) show ?thesis by simp
  next
    case (recorded s2 ingest)
    with assms(2) have g: "g = session_guard session st" "ingest = Inserted i" by simp_all
    have keys: "ingest_keys s' = ingest_keys s2" "ingest_keys s1 = ingest_keys s"
      using recorded(2) resolve_session_keys[OF res] by (auto split: if_splits dest: rebind_session_keys)
    from recorded(1) g have "claim_ingest env now oid (sweep_keys now s1) (rescoped obs st) key (Some (as_str (ns_agent session)))
        = Inr (s2, Inserted i)" by (simp add: record_event_def)
    from claim_ingest_grants[OF this assms(3,4)] show ?thesis
      by (simp add: key_taken_def keys g session_guard_def rescoped_def)
  qed
qed

lemma recorded_key_grants:
  assumes "recorded_key env now s c = Some pk" "in_window lo (now, c)"
  shows "\<not> key_taken lo s pk \<and> key_taken lo (ses_exec env s (now, c)) pk"
proof (cases "(env, now, s, c)" rule: recorded_key.cases)
  case (1 env' now' s' oid session obs f key moved)
  from assms(1) 1 obtain s'' adm g i where
    "admit_hook_session_event env now oid s session obs f (Some key) moved = Inr (s'', adm)"
    "ingest_of adm = Some (g, Inserted i)" "pk = (ad_project g, key)"
    by (auto split: sum.splits prod.splits option.splits ingest_outcome.splits)
  with hook_event_grants[of env now oid s session obs f key moved s'' adm g i lo] assms(2) 1 show ?thesis
    by (simp add: in_window_def kept_with_def)
next
  case (2 env' now' s' oid obs key)
  from assms(1) 2 obtain s'' i where ins: "insert_observation_keyed env now oid s obs key = Inr (s'', Inserted i)" "pk = (no_project obs, key)"
    by (auto split: sum.splits prod.splits ingest_outcome.splits)
  then obtain agent where "claim_ingest env now oid (sweep_keys now s) obs key agent = Inr (s'', Inserted i)"
    by (auto simp: insert_observation_keyed_def Let_def split: if_splits)
  with claim_ingest_grants[of env now oid s obs key agent s'' i lo] assms(2) ins 2 show ?thesis
    by (simp add: in_window_def kept_with_def)
qed (use assms(1) in simp_all)

interpretation ing: claim_once "\<lambda>_. True" "\<lambda>s c. (ses_exec env s c, recorded_key env (fst c) s (snd c))"
  "key_taken lo" "in_window lo" for env lo
proof
  fix s c s' k
  assume "in_window lo c" "(ses_exec env s c, recorded_key env (fst c) s (snd c)) = (s', Some k)"
  then show "\<not> key_taken lo s k \<and> key_taken lo s' k" using recorded_key_grants[of env "fst c" s "snd c" k lo] by auto
next
  fix s c s' k r
  assume "in_window lo c" "key_taken lo s k" "(ses_exec env s c, recorded_key env (fst c) s (snd c)) = (s', r)"
  then show "key_taken lo s' k"
    using key_taken_le[of "fst c" s s' lo k] ses_exec_le[of "fst c" s env "snd c"] by (auto simp: ses_le_def in_window_def)
qed simp

lemma recorded_keys_granted: "recorded_keys env s cs = ing.granted env s cs"
  by (induction cs arbitrary: s) (auto split: option.splits)

text \<open>
  C33. A keyed hook event is recorded once: within one retention period of 30 days, whatever events, ends and
  completions happen in between and in whatever order deliveries are repeated, no project records two
  observations under the same ingest key.
\<close>

theorem keyed_event_recorded_once:
  assumes "\<And>c. c \<in> set cs \<Longrightarrow> in_window lo c"
  shows "distinct (recorded_keys env s cs)"
  unfolding recorded_keys_granted using assms by (intro ing.granted_once) simp_all

definition demo_ienv :: ingest_env where
  "demo_ienv = \<lparr>uuid_text = (\<lambda>u. replicate u 48), sha256_hex = id\<rparr>"

definition demo_scope :: store where
  "demo_scope = empty_store\<lparr>workspaces := [\<lparr>wsp_id = 1, wsp_name = lit ''ws''\<rparr>],
     projects := [\<lparr>prj_id = 2, prj_workspace = 1, prj_name = lit ''a'', prj_access_mode = lit ''open'', prj_created_by = None\<rparr>]\<rparr>"

definition demo_session :: new_session where
  "demo_session = \<lparr>ns_id = 5, ns_workspace = 1, ns_project = 2, ns_agent = ClaudeCode, ns_cwd = None,
     ns_actor_user = None, ns_occurred_at = None\<rparr>"

definition demo_obs :: "observation_kind \<Rightarrow> new_observation" where
  "demo_obs k = \<lparr>no_session = 5, no_workspace = 1, no_project = 2, no_kind = k, no_extension = None,
     no_source_event = None, no_title = lit ''t'', no_body = lit ''b'', no_importance = 5,
     no_occurred_at = None, no_file_path = None\<rparr>"

definition demo_hook_event :: "uuid \<Rightarrow> observation_kind \<Rightarrow> ustr option \<Rightarrow> ses_command" where
  "demo_hook_event oid k key = HookEvent oid demo_session (demo_obs k) OwnerAny key None"

lemmas demo_session_simps =
  demo_ienv_def demo_scope_def demo_session_def demo_obs_def demo_hook_event_def empty_store_def kept_with_def
  admit_hook_session_event_def resolve_session_def resolve_existing_def create_hook_session_def admit_resolved_def
  record_event_def claim_ingest_def insert_key_sql_def insert_observation_row_def insert_session_sql_def
  sweep_keys_def find_key_def key_row_def rescoped_def session_guard_def admission_of_def moves_def
  validate_identity_storage_key_def qualified_owner_def session_is_purged_def pairing_ok_def new_session_row_def
  session_observations_def observation_row_of_def Let_def

lemma demo_key_plain: "\<not> recovery_ingest_key (lit ''k1'')"
  by (simp add: recovery_ingest_key_def strip_prefix_def lit_def)

theorem keyed_event_recorded_once_witness:
  "recorded_keys demo_ienv demo_scope
     [(10, demo_hook_event 6 ObsUserPrompt (Some (lit ''k1''))), (20, demo_hook_event 7 ObsUserPrompt (Some (lit ''k1'')))]
   = [(2, lit ''k1'')]
   \<and> distinct (recorded_keys demo_ienv demo_scope
     [(10, demo_hook_event 6 ObsUserPrompt (Some (lit ''k1''))), (20, demo_hook_event 7 ObsUserPrompt (Some (lit ''k1'')))])"
proof
  show "distinct (recorded_keys demo_ienv demo_scope
     [(10, demo_hook_event 6 ObsUserPrompt (Some (lit ''k1''))), (20, demo_hook_event 7 ObsUserPrompt (Some (lit ''k1'')))])"
    by (rule keyed_event_recorded_once[where lo = 10]) (auto simp: in_window_def ingest_key_ttl_micros_def)
qed (simp add: demo_session_simps demo_key_plain ingest_key_ttl_micros_def)

text \<open>
  Who a session belongs to never changes, and nothing recorded is lost: along any sequence of commands
  every session keeps its id, harness, owner and start, and the observations are only appended to.
\<close>

theorem session_identity_stable:
  "(\<forall>r \<in> set (sessions s). \<exists>r' \<in> set (sessions (ses_exec_all env s cs)).
      ses_id r' = ses_id r \<and> ses_agent_kind r' = ses_agent_kind r \<and> ses_actor_user r' = ses_actor_user r
      \<and> ses_started_at r' = ses_started_at r)
   \<and> (\<exists>os. observations (ses_exec_all env s cs) = observations s @ os)"
proof -
  have "sessions_le (sessions s) (sessions (ses_exec_all env s cs)) \<and> (\<exists>os. observations (ses_exec_all env s cs) = observations s @ os)"
  proof (induction cs arbitrary: s)
    case (Cons c cs)
    have "ses_le (fst c) s (ses_exec env s c)" using ses_exec_le[of "fst c" s env "snd c"] by simp
    with Cons.IH[of "ses_exec env s c"] show ?case by (auto simp: ses_le_def intro: sessions_le_trans)
  qed auto
  then show ?thesis unfolding sessions_le_def same_session_def .
qed

definition demo_begun :: store where
  "demo_begun = demo_scope\<lparr>sessions := [new_session_row 3 demo_session]\<rparr>"

theorem session_identity_stable_witness:
  "\<exists>r'. r' \<in> set (sessions (ses_exec_all demo_ienv demo_begun [(9, EndSession 5 None)])) \<and> ses_id r' = 5
     \<and> ses_agent_kind r' = as_str ClaudeCode \<and> ses_actor_user r' = None \<and> ses_started_at r' = 3"
proof -
  let ?r = "new_session_row 3 demo_session"
  have "?r \<in> set (sessions demo_begun)" by (simp add: demo_begun_def)
  with session_identity_stable[of demo_begun demo_ienv "[(9, EndSession 5 None)]"]
  obtain r' where "r' \<in> set (sessions (ses_exec_all demo_ienv demo_begun [(9, EndSession 5 None)]))" "ses_id r' = ses_id ?r"
    "ses_agent_kind r' = ses_agent_kind ?r" "ses_actor_user r' = ses_actor_user ?r" "ses_started_at r' = ses_started_at ?r"
    by blast
  then show ?thesis by (intro exI[of _ r']) (simp add: new_session_row_def demo_session_def)
qed

end
