(* ===== verification/Handoffs.thy ===== *)
theory Handoffs
  imports Sessions
begin

text \<open>
  Handoffs (\<^verbatim>\<open>crates/ai-memory-core/src/handoff.rs\<close>, the handoff section of
  \<^verbatim>\<open>crates/ai-memory-store/src/ops.rs\<close> and the handoff readers of \<^verbatim>\<open>reader.rs\<close>): a session that ends
  leaves a baton, and the next session in the project takes it. A baton is open, accepted or expired; only an
  end without work gives an accepted baton back. The JSON form of a list of strings is written and
  read by another crate and is a parameter. The lemmas say what each operation does to the table: sweeping
  in chunks is one update, and every operation leaves the accepted rows alone, delivers one baton, or returns one.
\<close>

section \<open>Data\<close>

primrec handoff_state_str :: "handoff_state \<Rightarrow> ustr" where
  "handoff_state_str HandoffOpen = lit ''open''"
| "handoff_state_str HandoffAccepted = lit ''accepted''"
| "handoff_state_str HandoffExpired = lit ''expired''"

definition handoff_state_from_str :: "ustr \<Rightarrow> handoff_state store_result" where
  "handoff_state_from_str s =
     (if s = lit ''open'' then Inr HandoffOpen
      else if s = lit ''accepted'' then Inr HandoffAccepted
      else if s = lit ''expired'' then Inr HandoffExpired
      else Inl (MalformedRecord ''unknown handoff state''))"

record new_handoff =
  nh_workspace :: uuid
  nh_project :: uuid
  nh_from_session :: "uuid option"
  nh_from_agent :: agent_kind
  nh_to_agent :: "agent_kind option"
  nh_cwd :: "ustr option"
  nh_summary :: ustr
  nh_open_questions :: "ustr list"
  nh_next_steps :: "ustr list"
  nh_files_touched :: "ustr list"
  nh_owner_user :: "ustr option"

record handoff_acceptance =
  ha_handoff :: uuid
  ha_workspace :: uuid
  ha_project :: uuid
  ha_agent :: agent_kind
  ha_session :: "uuid option"
  ha_user :: "ustr option"
  ha_owner_filter :: owner_filter
  ha_receiving_cwd :: "ustr option"

record handoff_scope =
  hs_id :: uuid
  hs_workspace :: uuid
  hs_project :: uuid

record handoff_origin =
  ho_from_session :: "uuid option"
  ho_from_agent :: agent_kind
  ho_to_agent :: "agent_kind option"
  ho_cwd :: "ustr option"
  ho_owner_user :: "ustr option"

record handoff_content =
  hc_summary :: ustr
  hc_open_questions :: "ustr list"
  hc_next_steps :: "ustr list"
  hc_files_touched :: "ustr list"

record handoff_lifecycle =
  hl_state :: handoff_state
  hl_created_at :: int
  hl_accepted_by :: "agent_kind option"
  hl_accepted_at :: "int option"
  hl_accepted_by_session :: "uuid option"
  hl_accepted_by_user :: "ustr option"

record handoff =
  h_scope :: handoff_scope
  h_origin :: handoff_origin
  h_content :: handoff_content
  h_lifecycle :: handoff_lifecycle

datatype lifecycle_only_end_outcome = LifecycleEnded "uuid option" | LifecycleSubstantive

text \<open>\<^verbatim>\<open>serde_json\<close> on \<^verbatim>\<open>Vec<String>\<close>.\<close>

record json_lists =
  list_to_json :: "ustr list \<Rightarrow> ustr"
  list_from_json :: "ustr \<Rightarrow> ustr list option"

section \<open>Writing a baton\<close>

definition handoff_field_max_bytes :: nat where
  "handoff_field_max_bytes = 16 * 1024"

definition handoff_list_max_items :: nat where
  "handoff_list_max_items = 256"

definition bound_handoff_field :: "ustr \<Rightarrow> ustr" where
  "bound_handoff_field v = truncate_utf8_bytes v handoff_field_max_bytes"

definition bound_handoff_list :: "ustr list \<Rightarrow> ustr list" where
  "bound_handoff_list items = map bound_handoff_field (take handoff_list_max_items items)"

record handoff_fields =
  hf_summary :: ustr
  hf_open_questions :: ustr
  hf_next_steps :: ustr
  hf_files_touched :: ustr
  hf_cwd :: "ustr option"

definition stored_cwd :: "ustr \<Rightarrow> ustr" where
  "stored_cwd p =
     (let trimmed = trim_end_matches (\<lambda>c. c = slash \<or> c = backslash) p
      in if trimmed = [] then [slash] else trimmed)"

definition handoff_fields_of :: "json_lists \<Rightarrow> new_handoff \<Rightarrow> handoff_fields" where
  "handoff_fields_of js h =
     \<lparr>hf_summary = bound_handoff_field (nh_summary h),
      hf_open_questions = list_to_json js (bound_handoff_list (nh_open_questions h)),
      hf_next_steps = list_to_json js (bound_handoff_list (nh_next_steps h)),
      hf_files_touched = list_to_json js (bound_handoff_list (nh_files_touched h)),
      hf_cwd = map_option stored_cwd (nh_cwd h)\<rparr>"

text \<open>\<^verbatim>\<open>EXISTS (SELECT 1 FROM sessions s WHERE s.id = ... AND s.ended_at IS NULL)\<close>, alone or with an observation
  after a cutoff.\<close>

definition session_open :: "store \<Rightarrow> uuid option \<Rightarrow> bool" where
  "session_open s sid = exists_row (\<lambda>r. Some (ses_id r) = sid \<and> ses_ended_at r = None) (sessions s)"

definition session_busy :: "store \<Rightarrow> int \<Rightarrow> uuid option \<Rightarrow> bool" where
  "session_busy s since sid =
     exists_row (\<lambda>r. Some (ses_id r) = sid \<and> ses_ended_at r = None
       \<and> exists_row (\<lambda>o'. obs_session o' = ses_id r \<and> obs_created_at o' > since) (observations s)) (sessions s)"

definition same_cwd_superseded :: "store \<Rightarrow> new_handoff \<Rightarrow> ustr option \<Rightarrow> uuid option \<Rightarrow> handoff_row \<Rightarrow> bool" where
  "same_cwd_superseded s h cwd keep r \<longleftrightarrow>
     hnd_workspace r = nh_workspace h \<and> hnd_project r = nh_project h \<and> hnd_state r = HandoffOpen
     \<and> hnd_from_session r \<noteq> None \<and> hnd_cwd r = cwd \<and> hnd_owner_user r = nh_owner_user h \<and> Some (hnd_id r) \<noteq> keep
     \<and> (hnd_from_session r = nh_from_session h \<or> \<not> session_open s (hnd_from_session r))"

definition expire_rows :: "(handoff_row \<Rightarrow> bool) \<Rightarrow> handoff_row list \<Rightarrow> handoff_row list" where
  "expire_rows P = update_where P (\<lambda>r. r\<lparr>hnd_state := HandoffExpired\<rparr>)"

definition expire_same_cwd_auto_handoffs ::
  "int \<Rightarrow> store \<Rightarrow> new_handoff \<Rightarrow> ustr option \<Rightarrow> uuid option \<Rightarrow> store" where
  "expire_same_cwd_auto_handoffs now s h cwd keep =
     (let P = same_cwd_superseded s h cwd keep;
          s1 = s\<lparr>handoffs := expire_rows P (handoffs s)\<rparr>
      in if changed_rows P (handoffs s) > 0
         then audit s1 ''expire_superseded_handoffs'' (Some (nh_workspace h)) (Some (nh_project h)) None None now
         else s1)"

definition refreshed_row :: "json_lists \<Rightarrow> int \<Rightarrow> new_handoff \<Rightarrow> handoff_row \<Rightarrow> handoff_row" where
  "refreshed_row js now h r =
     (let f = handoff_fields_of js h in
      r\<lparr>hnd_cwd := hf_cwd f, hnd_summary := hf_summary f, hnd_open_questions := hf_open_questions f,
        hnd_next_steps := hf_next_steps f, hnd_files_touched := hf_files_touched f, hnd_created_at := now\<rparr>)"

definition refresh_handoff_row :: "json_lists \<Rightarrow> int \<Rightarrow> store \<Rightarrow> uuid \<Rightarrow> new_handoff \<Rightarrow> store" where
  "refresh_handoff_row js now s hid h =
     (let s1 = expire_same_cwd_auto_handoffs now s h (hf_cwd (handoff_fields_of js h)) (Some hid)
      in audit (s1\<lparr>handoffs := update_where (\<lambda>r. hnd_id r = hid \<and> hnd_state r = HandoffOpen) (refreshed_row js now h) (handoffs s1)\<rparr>)
           ''refresh_handoff'' (Some (nh_workspace h)) (Some (nh_project h)) None None now)"

definition new_handoff_row :: "json_lists \<Rightarrow> int \<Rightarrow> uuid \<Rightarrow> new_handoff \<Rightarrow> handoff_row" where
  "new_handoff_row js now hid h =
     (let f = handoff_fields_of js h in
      \<lparr>hnd_id = hid, hnd_workspace = nh_workspace h, hnd_project = nh_project h, hnd_from_session = nh_from_session h,
       hnd_from_agent = as_str (nh_from_agent h), hnd_to_agent = map_option as_str (nh_to_agent h), hnd_cwd = hf_cwd f,
       hnd_summary = hf_summary f, hnd_open_questions = hf_open_questions f, hnd_next_steps = hf_next_steps f,
       hnd_files_touched = hf_files_touched f, hnd_state = HandoffOpen, hnd_created_at = now, hnd_accepted_by = None,
       hnd_accepted_at = None, hnd_accepted_by_session = None, hnd_accepted_by_user = None,
       hnd_owner_user = nh_owner_user h\<rparr>)"

definition insert_handoff_sql :: "store \<Rightarrow> handoff_row \<Rightarrow> store store_result" where
  "insert_handoff_sql s row =
     (if \<not> pairing_ok s (hnd_workspace row) (hnd_project row) then Inl pairing_error
      else if hnd_id row \<in> hnd_id ` set (handoffs s) then Inl (Sqlite ''UNIQUE constraint failed: handoffs.id'')
      else if hnd_workspace row \<notin> wsp_id ` set (workspaces s) \<or> \<not> set_option (hnd_from_session row) \<subseteq> ses_id ` set (sessions s)
      then Inl foreign_key_error
      else Inr (s\<lparr>handoffs := handoffs s @ [row]\<rparr>))"

definition insert_handoff_row :: "json_lists \<Rightarrow> int \<Rightarrow> uuid \<Rightarrow> store \<Rightarrow> new_handoff \<Rightarrow> (store \<times> uuid) store_result" where
  "insert_handoff_row js now hid s h =
     and_then (validate_identity_storage_key (nh_owner_user h) ''handoff owner'') (\<lambda>_.
       let row = new_handoff_row js now hid h;
           s1 = (if nh_from_session h \<noteq> None then expire_same_cwd_auto_handoffs now s h (hnd_cwd row) None else s)
       in and_then (insert_handoff_sql s1 row) (\<lambda>s2.
            Inr (audit s2 ''insert_handoff'' (Some (nh_workspace h)) (Some (nh_project h)) None None now, hid)))"

definition insert_handoff :: "json_lists \<Rightarrow> int \<Rightarrow> uuid \<Rightarrow> store \<Rightarrow> new_handoff \<Rightarrow> (store \<times> uuid) store_result" where
  "insert_handoff js now hid s h = insert_handoff_row js now hid s h"

definition own_baton :: "uuid \<Rightarrow> session_row \<Rightarrow> handoff_row \<Rightarrow> bool" where
  "own_baton sid live r \<longleftrightarrow> hnd_from_session r = Some sid \<and> hnd_workspace r = ses_workspace live
     \<and> hnd_project r = ses_project live \<and> hnd_owner_user r = ses_actor_user live \<and> hnd_state r = HandoffOpen"

definition checkpoint_session_handoff ::
  "json_lists \<Rightarrow> int \<Rightarrow> uuid \<Rightarrow> store \<Rightarrow> new_handoff \<Rightarrow> (store \<times> uuid option) store_result" where
  "checkpoint_session_handoff js now hid s h =
     (case nh_from_session h of
        None \<Rightarrow> Inl (InvalidState ''checkpoint handoff has no source session'')
      | Some sid \<Rightarrow>
          (case find (\<lambda>r. ses_id r = sid \<and> ses_ended_at r = None) (sessions s) of
             None \<Rightarrow> Inr (s, None)
           | Some live \<Rightarrow>
               if ses_workspace live \<noteq> nh_workspace h \<or> ses_project live \<noteq> nh_project h \<or> ses_actor_user live \<noteq> nh_owner_user h
               then Inl (InvalidState ''checkpoint handoff scope or owner does not match its session'')
               else (case first_by (\<lambda>r. - hnd_created_at r) (filter (own_baton sid live) (handoffs s)) of
                       Some r \<Rightarrow> Inr (refresh_handoff_row js now s (hnd_id r) h, Some (hnd_id r))
                     | None \<Rightarrow> and_then (insert_handoff_row js now hid s h) (\<lambda>(s', i). Inr (s', Some i)))))"

definition end_session_with_handoff ::
  "json_lists \<Rightarrow> int \<Rightarrow> uuid \<Rightarrow> store \<Rightarrow> uuid \<Rightarrow> uuid option \<Rightarrow> new_handoff \<Rightarrow> (store \<times> uuid) store_result" where
  "end_session_with_handoff js now hid s sid page h =
     (if nh_from_session h \<noteq> Some sid
      then Inl (InvalidState ''automatic handoff source does not match the ended session'')
      else (case find_session s sid of
              None \<Rightarrow> Inl (InvalidState ''cannot end a missing session with an automatic handoff'')
            | Some r \<Rightarrow>
                if ses_workspace r \<noteq> nh_workspace h \<or> ses_project r \<noteq> nh_project h
                then Inl (InvalidState ''automatic handoff scope does not match the ended session'')
                else if ses_actor_user r \<noteq> nh_owner_user h
                then Inl (InvalidState ''automatic handoff owner does not match the ended session'')
                else and_then (end_session_row now s sid page None) (\<lambda>s1. insert_handoff_row js now hid s1 h)))"

definition end_admitted_session_with_handoff ::
  "json_lists \<Rightarrow> int \<Rightarrow> uuid \<Rightarrow> store \<Rightarrow> admitted_session \<Rightarrow> uuid option \<Rightarrow> new_handoff \<Rightarrow> int option
     \<Rightarrow> (store \<times> uuid) store_result" where
  "end_admitted_session_with_handoff js now hid s admitted page h occurred_at =
     (if nh_from_session h \<noteq> Some (ad_session admitted) \<or> nh_workspace h \<noteq> ad_workspace admitted
         \<or> nh_project h \<noteq> ad_project admitted \<or> nh_owner_user h \<noteq> ad_owner admitted
      then Inl SessionCollision
      else and_then (validate_admitted_session s admitted) (\<lambda>_.
        and_then (end_session_row now s (ad_session admitted) page occurred_at) (\<lambda>s1.
        insert_handoff_row js now hid s1 h)))"

section \<open>An end without work gives the baton back\<close>

definition held_by :: "uuid \<Rightarrow> handoff_row \<Rightarrow> bool" where
  "held_by sid r \<longleftrightarrow> hnd_state r = HandoffAccepted \<and> hnd_accepted_by_session r = Some sid"

text \<open>\<^verbatim>\<open>ORDER BY accepted_at DESC, created_at DESC\<close>: a missing acceptance time sorts last.\<close>

definition release_order :: "handoff_row \<Rightarrow> (bool \<times> int) \<times> int" where
  "release_order r = ((case hnd_accepted_at r of None \<Rightarrow> (True, 0) | Some t \<Rightarrow> (False, - t)), - hnd_created_at r)"

definition release_row :: "handoff_row \<Rightarrow> handoff_row" where
  "release_row r = r\<lparr>hnd_state := HandoffOpen, hnd_accepted_by := None, hnd_accepted_at := None,
     hnd_accepted_by_session := None, hnd_accepted_by_user := None\<rparr>"

definition has_substantive_observation :: "store \<Rightarrow> uuid \<Rightarrow> bool" where
  "has_substantive_observation s sid =
     exists_row (\<lambda>o'. obs_session o' = sid \<and> substantive_kind (obs_kind o')) (observations s)"

definition release_handoff :: "int \<Rightarrow> store \<Rightarrow> uuid \<Rightarrow> store \<times> uuid option" where
  "release_handoff now s sid =
     (case first_by release_order (filter (held_by sid) (handoffs s)) of
        None \<Rightarrow> (s, None)
      | Some r \<Rightarrow>
          (audit (s\<lparr>handoffs := update_where (\<lambda>x. hnd_id x = hnd_id r \<and> held_by sid x) release_row (handoffs s)\<rparr>)
             ''release_lifecycle_only_handoff'' (Some (hnd_workspace r)) (Some (hnd_project r)) None None now,
           Some (hnd_id r)))"

definition end_lifecycle_only_session_in_tx ::
  "int \<Rightarrow> store \<Rightarrow> uuid \<Rightarrow> int option \<Rightarrow> (store \<times> lifecycle_only_end_outcome) store_result" where
  "end_lifecycle_only_session_in_tx now s sid occurred_at =
     (if has_substantive_observation s sid then Inr (s, LifecycleSubstantive)
      else and_then (end_session_row now s sid None occurred_at) (\<lambda>s1.
        case release_handoff now s1 sid of (s2, reopened) \<Rightarrow> Inr (s2, LifecycleEnded reopened)))"

definition end_lifecycle_only_session :: "int \<Rightarrow> store \<Rightarrow> uuid \<Rightarrow> (store \<times> lifecycle_only_end_outcome) store_result" where
  "end_lifecycle_only_session now s sid = end_lifecycle_only_session_in_tx now s sid None"

definition end_admitted_lifecycle_only_session ::
  "int \<Rightarrow> store \<Rightarrow> admitted_session \<Rightarrow> int option \<Rightarrow> (store \<times> lifecycle_only_end_outcome) store_result" where
  "end_admitted_lifecycle_only_session now s admitted occurred_at =
     and_then (validate_admitted_session s admitted) (\<lambda>_.
       end_lifecycle_only_session_in_tx now s (ad_session admitted) occurred_at)"

section \<open>Which baton fits where\<close>

definition auto_handoff_matches_cwd :: "ustr option \<Rightarrow> ustr option \<Rightarrow> bool" where
  "auto_handoff_matches_cwd handoff_cwd cwd_filter =
     (case (cwd_filter, handoff_cwd) of
        (None, _) \<Rightarrow> True
      | (_, None) \<Rightarrow> True
      | (Some session_cwd, Some cwd) \<Rightarrow> cwd_within cwd session_cwd)"

type_synonym selection_key = "bool \<times> int \<times> nat \<times> uuid"

definition handoff_selection_key :: "bool \<Rightarrow> int \<Rightarrow> ustr option \<Rightarrow> uuid \<Rightarrow> selection_key" where
  "handoff_selection_key manual created_at cwd hid =
     (manual, created_at,
      if manual then 0 else (case cwd of None \<Rightarrow> 0 | Some c \<Rightarrow> byte_len (normalize_cwd c)), hid)"

section \<open>Accepting a baton\<close>

definition operator_matches :: "owner_filter \<Rightarrow> ustr option \<Rightarrow> unit store_result" where
  "operator_matches filter_by user =
     (case (filter_by, user) of
        (OwnerUser expected, Some actual) \<Rightarrow>
          if expected \<noteq> actual then Inl (InvalidState ''accepting handoff operator does not match its owner filter'') else Inr ()
      | (OwnerUser _, None) \<Rightarrow> Inl (InvalidState ''an owner-scoped handoff claim requires an accepting operator'')
      | (OwnerUnattributed, Some _) \<Rightarrow> Inl (InvalidState ''an unattributed handoff claim cannot record a named operator'')
      | _ \<Rightarrow> Inr ())"

text \<open>The checks on the receiving session: \<open>None\<close> when it already holds a baton, else the store with an ended
  session of a harness that reuses its ids reopened.\<close>

definition receive_session :: "store \<Rightarrow> handoff_acceptance \<Rightarrow> store option store_result" where
  "receive_session s a =
     (case ha_session a of
        None \<Rightarrow> Inr (Some s)
      | Some sid \<Rightarrow>
          (case find_session s sid of
             None \<Rightarrow> Inl (InvalidState ''handoff receiver session does not exist'')
           | Some r \<Rightarrow>
               if \<not> (ses_workspace r = ha_workspace a \<and> ses_project r = ha_project a \<and> ses_agent_kind r = as_str (ha_agent a))
               then Inl (InvalidState ''handoff receiver session does not match the accepting scope and agent'')
               else if exists_row (held_by sid) (handoffs s) then Inr None
               else if ses_ended_at r = None then Inr (Some s)
               else if reuses_session_id_after_end (ha_agent a)
               then Inr (Some (s\<lparr>sessions := update_where (\<lambda>x. ses_id x = sid) (\<lambda>x. x\<lparr>ses_ended_at := None\<rparr>) (sessions s)\<rparr>))
               else Inl (InvalidState ''an ended session cannot accept a handoff'')))"

definition open_target :: "handoff_acceptance \<Rightarrow> handoff_row \<Rightarrow> bool" where
  "open_target a r \<longleftrightarrow> hnd_id r = ha_handoff a \<and> hnd_workspace r = ha_workspace a \<and> hnd_project r = ha_project a
     \<and> hnd_state r = HandoffOpen"

definition accepted_row :: "int \<Rightarrow> handoff_acceptance \<Rightarrow> handoff_row \<Rightarrow> handoff_row" where
  "accepted_row now a r =
     r\<lparr>hnd_state := HandoffAccepted, hnd_accepted_by := Some (as_str (ha_agent a)), hnd_accepted_at := Some now,
       hnd_accepted_by_session := ha_session a, hnd_accepted_by_user := ha_user a\<rparr>"

definition in_use :: "store \<Rightarrow> int option \<Rightarrow> uuid option \<Rightarrow> bool" where
  "in_use s busy_since sid = (case busy_since of None \<Rightarrow> session_open s sid | Some since \<Rightarrow> session_busy s since sid)"

definition superseded_by ::
  "store \<Rightarrow> handoff_acceptance \<Rightarrow> handoff_row \<Rightarrow> int option \<Rightarrow> handoff_row \<Rightarrow> bool" where
  "superseded_by s a accepted busy_since r \<longleftrightarrow>
     hnd_workspace r = ha_workspace a \<and> hnd_project r = ha_project a \<and> hnd_state r = HandoffOpen
     \<and> hnd_from_session r \<noteq> None \<and> hnd_owner_user r = hnd_owner_user accepted
     \<and> \<not> in_use s busy_since (hnd_from_session r)
     \<and> auto_handoff_matches_cwd (hnd_cwd r)
         (case ha_receiving_cwd a of None \<Rightarrow> hnd_cwd accepted | Some c \<Rightarrow> Some c)
     \<and> handoff_selection_key False (hnd_created_at r) (hnd_cwd r) (hnd_id r)
       < handoff_selection_key False (hnd_created_at accepted) (hnd_cwd accepted) (ha_handoff a)"

text \<open>\<^verbatim>\<open>slice::chunks\<close>, and one \<^verbatim>\<open>UPDATE ... WHERE id IN (...)\<close> per chunk with the rows it changed.\<close>

function chunks :: "nat \<Rightarrow> 'a list \<Rightarrow> 'a list list" where
  "chunks n xs = (if n = 0 \<or> xs = [] then [] else take n xs # chunks n (drop n xs))"
  by pat_completeness auto
termination by (relation "measure (\<lambda>(n, xs). length xs)") auto

declare chunks.simps [simp del]

definition expire_chunk :: "handoff_row list \<times> nat \<Rightarrow> uuid list \<Rightarrow> handoff_row list \<times> nat" where
  "expire_chunk st chunk =
     (let P = (\<lambda>r. hnd_state r = HandoffOpen \<and> hnd_id r \<in> set chunk)
      in (expire_rows P (fst st), snd st + changed_rows P (fst st)))"

definition expire_superseded_auto_handoffs ::
  "store \<Rightarrow> handoff_acceptance \<Rightarrow> handoff_row \<Rightarrow> int option \<Rightarrow> store \<times> nat" where
  "expire_superseded_auto_handoffs s a accepted busy_since =
     (let ids = map hnd_id (filter (superseded_by s a accepted busy_since) (handoffs s));
          (rows, expired) = foldl expire_chunk (handoffs s, 0) (chunks 500 ids)
      in (s\<lparr>handoffs := rows\<rparr>, expired))"

definition claim_handoff :: "int \<Rightarrow> store \<Rightarrow> handoff_acceptance \<Rightarrow> int option \<Rightarrow> handoff_row \<Rightarrow> store \<times> bool" where
  "claim_handoff now s a busy_since target =
     (let P = (\<lambda>r. open_target a r \<and> admits_owner (ha_owner_filter a) (hnd_owner_user r));
          s1 = s\<lparr>handoffs := update_where P (accepted_row now a) (handoffs s)\<rparr>;
          log = (\<lambda>t op. audit t op (Some (ha_workspace a)) (Some (ha_project a)) None None now)
      in if changed_rows P (handoffs s) = 0 then (s1, False)
         else
           let s2 = log s1 ''accept_handoff'' in
           if hnd_from_session target = None then (s2, True)
           else (case expire_superseded_auto_handoffs s2 a target busy_since of
                   (s3, expired) \<Rightarrow> (if expired > 0 then log s3 ''expire_superseded_handoffs'' else s3, True)))"

definition i64_max :: int where "i64_max = 2 ^ 63 - 1"

definition accept_handoff_in_transaction ::
  "int \<Rightarrow> store \<Rightarrow> handoff_acceptance \<Rightarrow> int option \<Rightarrow> (store \<times> bool) store_result" where
  "accept_handoff_in_transaction now s a busy_since =
     and_then (validate_identity_storage_key (ha_user a) ''accepting handoff operator'') (\<lambda>_.
     and_then (operator_matches (ha_owner_filter a) (ha_user a)) (\<lambda>_.
     and_then (receive_session s a) (\<lambda>received.
       case received of
         None \<Rightarrow> Inr (s, False)
       | Some s1 \<Rightarrow>
           (case find (open_target a) (handoffs s1) of
              None \<Rightarrow> Inr (s1, False)
            | Some target \<Rightarrow>
                if session_busy s1 (case busy_since of None \<Rightarrow> i64_max | Some t \<Rightarrow> t) (hnd_from_session target)
                then Inr (s1, False)
                else Inr (claim_handoff now s1 a busy_since target)))))"

definition accept_handoff :: "int \<Rightarrow> store \<Rightarrow> handoff_acceptance \<Rightarrow> (store \<times> bool) store_result" where
  "accept_handoff now s a = accept_handoff_in_transaction now s a None"

section \<open>Expiring and cancelling\<close>

definition expirable :: "uuid \<Rightarrow> uuid \<Rightarrow> owner_filter \<Rightarrow> int option \<Rightarrow> handoff_row \<Rightarrow> bool" where
  "expirable workspace project filter_by older_than r \<longleftrightarrow>
     hnd_workspace r = workspace \<and> hnd_project r = project \<and> hnd_state r = HandoffOpen
     \<and> admits_owner filter_by (hnd_owner_user r)
     \<and> (case older_than of None \<Rightarrow> True | Some cutoff \<Rightarrow> hnd_created_at r \<le> cutoff)"

definition expire_open_handoffs ::
  "int \<Rightarrow> store \<Rightarrow> uuid \<Rightarrow> uuid \<Rightarrow> owner_filter \<Rightarrow> int option \<Rightarrow> uuid option \<Rightarrow> store \<times> nat" where
  "expire_open_handoffs now s workspace project filter_by older_than author =
     (let P = expirable workspace project filter_by older_than;
          s1 = s\<lparr>handoffs := expire_rows P (handoffs s)\<rparr>;
          changed = changed_rows P (handoffs s)
      in (if changed > 0
          then audit_with_detail s1 ''expire_open_handoffs'' (Some workspace) (Some project) None author now
                 (lit ''{\"expired\":'' @ decimal changed @ lit ''}'')
          else s1, changed))"

definition cancel_handoff :: "int \<Rightarrow> store \<Rightarrow> uuid \<Rightarrow> uuid \<Rightarrow> uuid \<Rightarrow> owner_filter \<Rightarrow> store \<times> bool" where
  "cancel_handoff now s hid workspace project filter_by =
     (let P = (\<lambda>r. hnd_id r = hid \<and> expirable workspace project filter_by None r);
          s1 = s\<lparr>handoffs := expire_rows P (handoffs s)\<rparr>
      in if changed_rows P (handoffs s) > 0
         then (audit s1 ''cancel_handoff'' (Some workspace) (Some project) None None now, True)
         else (s1, False))"

section \<open>Reading\<close>

definition parse_list :: "json_lists \<Rightarrow> ustr \<Rightarrow> ustr list store_result" where
  "parse_list js t = (case list_from_json js t of None \<Rightarrow> Inl (MalformedRecord ''json'') | Some xs \<Rightarrow> Inr xs)"

definition row_to_handoff :: "json_lists \<Rightarrow> handoff_row \<Rightarrow> handoff store_result" where
  "row_to_handoff js r =
     (if \<not> qualified_owner (hnd_owner_user r)
      then Inl (MalformedRecord ''handoff owner is not a qualified identity storage key'')
      else if \<not> qualified_owner (hnd_accepted_by_user r)
      then Inl (MalformedRecord ''accepting handoff operator is not a qualified identity storage key'')
      else
        and_then (parse_list js (hnd_open_questions r)) (\<lambda>open_questions.
        and_then (parse_list js (hnd_next_steps r)) (\<lambda>next_steps.
        and_then (parse_list js (hnd_files_touched r)) (\<lambda>files_touched. Inr
          \<lparr>h_scope = \<lparr>hs_id = hnd_id r, hs_workspace = hnd_workspace r, hs_project = hnd_project r\<rparr>,
           h_origin = \<lparr>ho_from_session = hnd_from_session r, ho_from_agent = from_wire (hnd_from_agent r),
             ho_to_agent = map_option from_wire (hnd_to_agent r), ho_cwd = hnd_cwd r, ho_owner_user = hnd_owner_user r\<rparr>,
           h_content = \<lparr>hc_summary = hnd_summary r, hc_open_questions = open_questions, hc_next_steps = next_steps,
             hc_files_touched = files_touched\<rparr>,
           h_lifecycle = \<lparr>hl_state = hnd_state r, hl_created_at = hnd_created_at r,
             hl_accepted_by = map_option from_wire (hnd_accepted_by r), hl_accepted_at = hnd_accepted_at r,
             hl_accepted_by_session = hnd_accepted_by_session r, hl_accepted_by_user = hnd_accepted_by_user r\<rparr>\<rparr>))))"

definition is_handoff_candidate :: "handoff \<Rightarrow> ustr option \<Rightarrow> owner_filter \<Rightarrow> bool" where
  "is_handoff_candidate h cwd_filter filter_by \<longleftrightarrow>
     admits_owner filter_by (ho_owner_user (h_origin h))
     \<and> (ho_from_session (h_origin h) = None \<or> auto_handoff_matches_cwd (ho_cwd (h_origin h)) cwd_filter)"

definition preference :: "handoff \<Rightarrow> selection_key" where
  "preference h = handoff_selection_key (ho_from_session (h_origin h) = None) (hl_created_at (h_lifecycle h))
     (ho_cwd (h_origin h)) (hs_id (h_scope h))"

definition prefer_handoff :: "handoff \<Rightarrow> handoff \<Rightarrow> bool" where
  "prefer_handoff a b \<longleftrightarrow> preference a > preference b"

text \<open>The selection loop: the first row that fails to read ends it with that error.\<close>

fun select_loop ::
  "json_lists \<Rightarrow> ustr option \<Rightarrow> owner_filter \<Rightarrow> handoff option \<Rightarrow> handoff_row list \<Rightarrow> handoff option store_result" where
  "select_loop js cwd_filter filter_by selected [] = Inr selected"
| "select_loop js cwd_filter filter_by selected (r # rs) =
     and_then (row_to_handoff js r) (\<lambda>h.
       select_loop js cwd_filter filter_by
         (if is_handoff_candidate h cwd_filter filter_by
             \<and> (case selected of None \<Rightarrow> True | Some current \<Rightarrow> prefer_handoff h current)
          then Some h else selected) rs)"

definition selectable :: "store \<Rightarrow> uuid \<Rightarrow> uuid \<Rightarrow> owner_filter \<Rightarrow> int option \<Rightarrow> handoff_row \<Rightarrow> bool" where
  "selectable s workspace project filter_by busy_since r \<longleftrightarrow>
     hnd_workspace r = workspace \<and> hnd_project r = project \<and> hnd_state r = HandoffOpen
     \<and> admits_owner filter_by (hnd_owner_user r)
     \<and> (case busy_since of None \<Rightarrow> True | Some since \<Rightarrow> \<not> session_busy s since (hnd_from_session r))"

definition open_handoff_for ::
  "json_lists \<Rightarrow> store \<Rightarrow> uuid \<Rightarrow> uuid \<Rightarrow> ustr option \<Rightarrow> owner_filter \<Rightarrow> int option \<Rightarrow> handoff option store_result" where
  "open_handoff_for js s workspace project cwd_filter filter_by busy_since =
     select_loop js cwd_filter filter_by None
       (sort_key (\<lambda>r. - hnd_created_at r) (filter (selectable s workspace project filter_by busy_since) (handoffs s)))"

definition latest_open_handoff ::
  "json_lists \<Rightarrow> store \<Rightarrow> uuid \<Rightarrow> uuid \<Rightarrow> ustr option \<Rightarrow> owner_filter \<Rightarrow> handoff option store_result" where
  "latest_open_handoff js s workspace project cwd_filter filter_by =
     open_handoff_for js s workspace project cwd_filter filter_by None"

definition startup_handoff ::
  "json_lists \<Rightarrow> store \<Rightarrow> uuid \<Rightarrow> uuid \<Rightarrow> ustr option \<Rightarrow> owner_filter \<Rightarrow> int \<Rightarrow> handoff option store_result" where
  "startup_handoff js s workspace project cwd_filter filter_by busy_since =
     open_handoff_for js s workspace project cwd_filter filter_by (Some busy_since)"

definition list_handoffs ::
  "json_lists \<Rightarrow> store \<Rightarrow> uuid \<Rightarrow> uuid \<Rightarrow> handoff_state option \<Rightarrow> owner_filter \<Rightarrow> nat \<Rightarrow> handoff list store_result" where
  "list_handoffs js s workspace project state filter_by limit =
     (let scoped = (\<lambda>r. hnd_workspace r = workspace \<and> hnd_project r = project
             \<and> (case state of None \<Rightarrow> True | Some st \<Rightarrow> hnd_state r = st));
          rows = (case filter_by of
             OwnerUser owner \<Rightarrow> filter (\<lambda>r. scoped r \<and> hnd_owner_user r = None) (handoffs s)
               @ filter (\<lambda>r. scoped r \<and> hnd_owner_user r = Some owner) (handoffs s)
           | OwnerUnattributed \<Rightarrow> filter (\<lambda>r. scoped r \<and> hnd_owner_user r = None) (handoffs s)
           | OwnerAny \<Rightarrow> filter scoped (handoffs s))
      in collect_results (row_to_handoff js)
           (take (max 1 (min limit 500)) (sort_key (\<lambda>r. - hnd_created_at r) rows)))"

definition read_optional :: "json_lists \<Rightarrow> handoff_row option \<Rightarrow> handoff option store_result" where
  "read_optional js row =
     (case row of None \<Rightarrow> Inr None | Some r \<Rightarrow> and_then (row_to_handoff js r) (\<lambda>h. Inr (Some h)))"

definition handoff_by_id :: "json_lists \<Rightarrow> store \<Rightarrow> uuid \<Rightarrow> handoff option store_result" where
  "handoff_by_id js s hid = read_optional js (find (\<lambda>r. hnd_id r = hid) (handoffs s))"

definition handoff_by_id_in_scope ::
  "json_lists \<Rightarrow> store \<Rightarrow> uuid \<Rightarrow> uuid \<Rightarrow> uuid \<Rightarrow> owner_filter \<Rightarrow> handoff option store_result" where
  "handoff_by_id_in_scope js s workspace project hid filter_by =
     read_optional js (find (\<lambda>r. hnd_workspace r = workspace \<and> hnd_project r = project \<and> hnd_id r = hid
       \<and> admits_owner filter_by (hnd_owner_user r)) (handoffs s))"

definition handoff_claimed_by_live_session ::
  "store \<Rightarrow> uuid \<Rightarrow> uuid \<Rightarrow> uuid \<Rightarrow> owner_filter \<Rightarrow> uuid option" where
  "handoff_claimed_by_live_session s workspace project sid filter_by =
     map_option hnd_id (first_by (\<lambda>r. fst (release_order r))
       (filter (\<lambda>r. hnd_workspace r = workspace \<and> hnd_project r = project \<and> held_by sid r
          \<and> admits_owner filter_by (hnd_owner_user r) \<and> session_open s (Some sid)) (handoffs s)))"

section \<open>Sweeping in chunks is one update\<close>

lemma concat_chunks: "0 < n \<Longrightarrow> concat (chunks n xs) = xs"
proof (induction n xs rule: chunks.induct)
  case (1 n xs)
  then show ?case by (cases "xs = []") (simp_all add: chunks.simps[of n xs] chunks.simps[of n "[]"])
qed

lemma expire_rows_twice:
  assumes "\<And>r. Q r \<Longrightarrow> hnd_state r = HandoffOpen"
  shows "expire_rows Q (expire_rows P rows) = expire_rows (\<lambda>r. P r \<or> Q r) rows"
proof -
  have "\<not> Q (r\<lparr>hnd_state := HandoffExpired\<rparr>)" for r using assms[of "r\<lparr>hnd_state := HandoffExpired\<rparr>"] by auto
  then show ?thesis by (simp add: expire_rows_def update_where_def)
qed

lemma changed_expire_rows:
  assumes "\<And>r. Q r \<Longrightarrow> hnd_state r = HandoffOpen"
  shows "changed_rows P rows + changed_rows Q (expire_rows P rows) = changed_rows (\<lambda>r. P r \<or> Q r) rows"
proof -
  have "\<not> Q (r\<lparr>hnd_state := HandoffExpired\<rparr>)" for r using assms[of "r\<lparr>hnd_state := HandoffExpired\<rparr>"] by auto
  then show ?thesis by (induction rows) (simp_all add: expire_rows_def update_where_def changed_rows_def)
qed

lemma foldl_expire_chunk:
  "foldl expire_chunk (rows, n) css =
     (let P = (\<lambda>r. hnd_state r = HandoffOpen \<and> hnd_id r \<in> set (concat css))
      in (expire_rows P rows, n + changed_rows P rows))"
proof (induction css arbitrary: rows n)
  case Nil
  show ?case by (simp add: Let_def expire_rows_def update_where_def changed_rows_def)
next
  case (Cons cs css)
  let ?P = "\<lambda>r. hnd_state r = HandoffOpen \<and> hnd_id r \<in> set cs"
  let ?Q = "\<lambda>r. hnd_state r = HandoffOpen \<and> hnd_id r \<in> set (concat css)"
  have PQ: "(\<lambda>r. ?P r \<or> ?Q r) = (\<lambda>r. hnd_state r = HandoffOpen \<and> hnd_id r \<in> set (concat (cs # css)))" by auto
  have "foldl expire_chunk (rows, n) (cs # css) = foldl expire_chunk (expire_rows ?P rows, n + changed_rows ?P rows) css"
    by (simp add: expire_chunk_def Let_def)
  also have "\<dots> = (expire_rows ?Q (expire_rows ?P rows), n + (changed_rows ?P rows + changed_rows ?Q (expire_rows ?P rows)))"
    unfolding Cons.IH Let_def by (simp add: add.assoc)
  also have "\<dots> = (expire_rows (\<lambda>r. ?P r \<or> ?Q r) rows, n + changed_rows (\<lambda>r. ?P r \<or> ?Q r) rows)"
    by (subst expire_rows_twice, blast, subst changed_expire_rows, blast, rule refl)
  finally show ?case unfolding PQ Let_def .
qed

lemma expire_superseded_eq:
  "expire_superseded_auto_handoffs s a accepted busy_since =
     (let P = (\<lambda>r. hnd_state r = HandoffOpen \<and> hnd_id r \<in> hnd_id ` {x \<in> set (handoffs s). superseded_by s a accepted busy_since x})
      in (s\<lparr>handoffs := expire_rows P (handoffs s)\<rparr>, changed_rows P (handoffs s)))"
  by (simp add: expire_superseded_auto_handoffs_def foldl_expire_chunk concat_chunks Let_def)

section \<open>How operations change the batons\<close>

lemma hnd_id_expire_rows [simp]: "hnd_id ` set (expire_rows P rows) = hnd_id ` set rows"
proof -
  have "map hnd_id (expire_rows P rows) = map hnd_id rows" unfolding expire_rows_def by (rule map_update_where) simp
  then show ?thesis by (metis set_map)
qed

text \<open>
  \<open>quiet rows rows'\<close>: no baton was delivered or returned. The accepted rows are the same, in the same order,
  ids stay unique, and an open row carries no trace of a receiver.
\<close>

abbreviation is_accepted :: "handoff_row \<Rightarrow> bool" where
  "is_accepted r \<equiv> hnd_state r = HandoffAccepted"

abbreviation unique_ids :: "handoff_row list \<Rightarrow> bool" where
  "unique_ids \<equiv> unique_on (\<lambda>_. True) hnd_id"

definition open_clean :: "handoff_row list \<Rightarrow> bool" where
  "open_clean rows \<longleftrightarrow> (\<forall>r \<in> set rows. hnd_state r = HandoffOpen \<longrightarrow> release_row r = r)"

definition quiet :: "handoff_row list \<Rightarrow> handoff_row list \<Rightarrow> bool" where
  "quiet rows rows' \<longleftrightarrow> filter is_accepted rows' = filter is_accepted rows \<and> (unique_ids rows \<longrightarrow> unique_ids rows')
     \<and> (open_clean rows \<longrightarrow> open_clean rows')"

lemma quiet_refl [simp]: "quiet rows rows"
  by (simp add: quiet_def)

lemma quiet_trans: "quiet a b \<Longrightarrow> quiet b c \<Longrightarrow> quiet a c"
  by (simp add: quiet_def)

lemma quiet_update:
  assumes "\<And>r. P r \<Longrightarrow> \<not> is_accepted r \<and> \<not> is_accepted (f r) \<and> hnd_id (f r) = hnd_id r"
    and "\<And>r. P r \<Longrightarrow> hnd_state (f r) = HandoffOpen \<Longrightarrow> hnd_state r = HandoffOpen \<and> (release_row r = r \<longrightarrow> release_row (f r) = f r)"
  shows "quiet rows (update_where P f rows)"
proof -
  have "filter is_accepted (update_where P f rows) = filter is_accepted rows"
    using assms(1) by (induction rows) (auto simp: update_where_def)
  moreover have "unique_ids (update_where P f rows)" if "unique_ids rows"
    using that by (rule unique_on_update_where) (use assms in blast)
  moreover have "open_clean (update_where P f rows)" if "open_clean rows"
    using that assms(2) unfolding open_clean_def ball_update_where by auto
  ultimately show ?thesis by (simp add: quiet_def)
qed

lemma quiet_expire: "(\<And>r. P r \<Longrightarrow> hnd_state r = HandoffOpen) \<Longrightarrow> quiet rows (expire_rows P rows)"
  unfolding expire_rows_def by (rule quiet_update) simp_all

lemma quiet_append:
  "hnd_state r = HandoffOpen \<Longrightarrow> release_row r = r \<Longrightarrow> hnd_id r \<notin> hnd_id ` set rows \<Longrightarrow> quiet rows (rows @ [r])"
  by (auto simp: quiet_def unique_on_append1 image_iff open_clean_def)

lemma expire_same_cwd_frame [simp]:
  "sessions (expire_same_cwd_auto_handoffs now s h cwd keep) = sessions s"
  "workspaces (expire_same_cwd_auto_handoffs now s h cwd keep) = workspaces s"
  "projects (expire_same_cwd_auto_handoffs now s h cwd keep) = projects s"
  "handoffs (expire_same_cwd_auto_handoffs now s h cwd keep) = expire_rows (same_cwd_superseded s h cwd keep) (handoffs s)"
  by (simp_all add: expire_same_cwd_auto_handoffs_def Let_def)

lemma quiet_same_cwd: "quiet rows (expire_rows (same_cwd_superseded s h cwd keep) rows)"
  by (rule quiet_expire) (simp add: same_cwd_superseded_def)

lemma handoffs_refresh:
  "handoffs (refresh_handoff_row js now s hid h) =
     update_where (\<lambda>r. hnd_id r = hid \<and> hnd_state r = HandoffOpen) (refreshed_row js now h)
       (expire_rows (same_cwd_superseded s h (hf_cwd (handoff_fields_of js h)) (Some hid)) (handoffs s))"
  by (simp add: refresh_handoff_row_def Let_def)

lemma refreshed_row_simps [simp]:
  "hnd_state (refreshed_row js now h r) = hnd_state r" "hnd_id (refreshed_row js now h r) = hnd_id r"
  "hnd_from_session (refreshed_row js now h r) = hnd_from_session r"
  "hnd_workspace (refreshed_row js now h r) = hnd_workspace r" "hnd_project (refreshed_row js now h r) = hnd_project r"
  "hnd_owner_user (refreshed_row js now h r) = hnd_owner_user r"
  "release_row r = r \<Longrightarrow> release_row (refreshed_row js now h r) = refreshed_row js now h r"
  by (simp_all add: refreshed_row_def release_row_def Let_def) (cases r, simp)

lemma refresh_quiet: "quiet (handoffs s) (handoffs (refresh_handoff_row js now s hid h))"
  unfolding handoffs_refresh by (rule quiet_trans[OF quiet_same_cwd quiet_update]) simp_all

lemma insert_handoff_row_InrD:
  assumes "insert_handoff_row js now hid s h = Inr (s', i)"
  shows "i = hid" "hid \<notin> hnd_id ` set (handoffs s)" "sessions s' = sessions s"
    "handoffs s' = (if nh_from_session h \<noteq> None
        then expire_rows (same_cwd_superseded s h (hf_cwd (handoff_fields_of js h)) None) (handoffs s) else handoffs s)
        @ [new_handoff_row js now hid h]"
proof -
  let ?row = "new_handoff_row js now hid h"
  let ?s1 = "if nh_from_session h \<noteq> None then expire_same_cwd_auto_handoffs now s h (hnd_cwd ?row) None else s"
  have row: "hnd_id ?row = hid" "hnd_cwd ?row = hf_cwd (handoff_fields_of js h)"
    by (simp_all add: new_handoff_row_def Let_def)
  from assms obtain s2 where s2: "insert_handoff_sql ?s1 ?row = Inr s2" "i = hid"
    "s' = audit s2 ''insert_handoff'' (Some (nh_workspace h)) (Some (nh_project h)) None None now"
    by (auto simp: insert_handoff_row_def and_then_Inr_iff Let_def)
  from s2(1) have "s2 = ?s1\<lparr>handoffs := handoffs ?s1 @ [?row]\<rparr>" "hid \<notin> hnd_id ` set (handoffs ?s1)"
    unfolding insert_handoff_sql_def row by (auto split: if_splits)
  moreover have "hnd_id ` set (handoffs ?s1) = hnd_id ` set (handoffs s)" by simp
  ultimately show "i = hid" "hid \<notin> hnd_id ` set (handoffs s)" "sessions s' = sessions s"
    "handoffs s' = (if nh_from_session h \<noteq> None
        then expire_rows (same_cwd_superseded s h (hf_cwd (handoff_fields_of js h)) None) (handoffs s) else handoffs s) @ [?row]"
    using s2 by (simp_all add: row)
qed

lemma new_handoff_row_simps [simp]:
  "hnd_state (new_handoff_row js now hid h) = HandoffOpen" "hnd_id (new_handoff_row js now hid h) = hid"
  "release_row (new_handoff_row js now hid h) = new_handoff_row js now hid h"
  by (simp_all add: new_handoff_row_def Let_def release_row_def)

lemma insert_handoff_quiet:
  assumes "insert_handoff_row js now hid s h = Inr (s', i)"
  shows "quiet (handoffs s) (handoffs s')"
proof -
  note d = insert_handoff_row_InrD[OF assms]
  let ?t = "if nh_from_session h \<noteq> None
     then expire_rows (same_cwd_superseded s h (hf_cwd (handoff_fields_of js h)) None) (handoffs s) else handoffs s"
  have "quiet (handoffs s) ?t" by (simp add: quiet_same_cwd)
  moreover have "quiet ?t (?t @ [new_handoff_row js now hid h])" by (rule quiet_append) (use d(2) in simp_all)
  ultimately show ?thesis unfolding d(4) by (rule quiet_trans)
qed

lemma end_session_row_handoffs: "end_session_row now s sid page occ = Inr s' \<Longrightarrow> handoffs s' = handoffs s"
  by (auto simp: end_session_row_def split: if_splits)

lemma checkpoint_quiet:
  assumes "checkpoint_session_handoff js now hid s h = Inr (s', i)"
  shows "quiet (handoffs s) (handoffs s')"
  using assms
  by (auto simp: checkpoint_session_handoff_def and_then_Inr_iff refresh_quiet
      split: option.splits if_splits prod.splits intro: insert_handoff_quiet)

lemma end_with_handoff_quiet:
  assumes "end_session_with_handoff js now hid s sid page h = Inr (s', i)"
  shows "quiet (handoffs s) (handoffs s')"
proof -
  from assms obtain s1 where "end_session_row now s sid page None = Inr s1" "insert_handoff_row js now hid s1 h = Inr (s', i)"
    by (auto simp: end_session_with_handoff_def and_then_Inr_iff split: option.splits if_splits)
  from insert_handoff_quiet[OF this(2)] end_session_row_handoffs[OF this(1)] show ?thesis by simp
qed

lemma end_admitted_with_handoff_quiet:
  assumes "end_admitted_session_with_handoff js now hid s g page h occ = Inr (s', i)"
  shows "quiet (handoffs s) (handoffs s')"
proof -
  from assms obtain s1 where "end_session_row now s (ad_session g) page occ = Inr s1" "insert_handoff_row js now hid s1 h = Inr (s', i)"
    by (auto simp: end_admitted_session_with_handoff_def and_then_Inr_iff split: if_splits)
  from insert_handoff_quiet[OF this(2)] end_session_row_handoffs[OF this(1)] show ?thesis by simp
qed

lemma expire_open_handoffs_eq:
  "handoffs (fst (expire_open_handoffs now s w p f old author)) = expire_rows (expirable w p f old) (handoffs s)"
  by (simp add: expire_open_handoffs_def Let_def)

lemma cancel_handoff_eq:
  "handoffs (fst (cancel_handoff now s hid w p f)) = expire_rows (\<lambda>r. hnd_id r = hid \<and> expirable w p f None r) (handoffs s)"
  by (simp add: cancel_handoff_def Let_def)

lemma expirable_open: "expirable w p f old r \<Longrightarrow> hnd_state r = HandoffOpen"
  by (simp add: expirable_def)

section \<open>Accepting and releasing\<close>

definition claimable_by :: "handoff_acceptance \<Rightarrow> handoff_row \<Rightarrow> bool" where
  "claimable_by a r \<longleftrightarrow> open_target a r \<and> admits_owner (ha_owner_filter a) (hnd_owner_user r)"

text \<open>The table right after the compare-and-set, before older batons are swept.\<close>

definition claimed_rows :: "int \<Rightarrow> handoff_acceptance \<Rightarrow> handoff_row list \<Rightarrow> handoff_row list" where
  "claimed_rows now a = update_where (claimable_by a) (accepted_row now a)"

definition swept_by ::
  "store \<Rightarrow> handoff_acceptance \<Rightarrow> handoff_row \<Rightarrow> int option \<Rightarrow> handoff_row list \<Rightarrow> handoff_row \<Rightarrow> bool" where
  "swept_by s a target busy_since rows r \<longleftrightarrow> hnd_from_session target \<noteq> None \<and> hnd_state r = HandoffOpen
     \<and> hnd_id r \<in> hnd_id ` {x \<in> set rows. superseded_by s a target busy_since x}"

lemma superseded_by_cong:
  "sessions s = sessions s' \<Longrightarrow> observations s = observations s' \<Longrightarrow> superseded_by s = superseded_by s'"
  by (intro ext) (simp add: superseded_by_def in_use_def session_open_def session_busy_def split: option.splits)

lemma claim_handoff_refused:
  assumes "claim_handoff now s a busy target = (s', False)"
  shows "s' = s" "\<forall>r \<in> set (handoffs s). \<not> claimable_by a r"
proof -
  have none: "\<forall>r \<in> set (handoffs s). \<not> claimable_by a r"
    using assms by (simp add: claim_handoff_def Let_def changed_rows_0_iff claimable_by_def split: if_splits prod.splits)
  then have "update_where (\<lambda>r. open_target a r \<and> admits_owner (ha_owner_filter a) (hnd_owner_user r)) (accepted_row now a) (handoffs s)
      = handoffs s" by (intro update_where_none) (simp add: claimable_by_def)
  with assms show "s' = s" by (simp add: claim_handoff_def Let_def split: if_splits prod.splits)
  show "\<forall>r \<in> set (handoffs s). \<not> claimable_by a r" by (rule none)
qed

lemma claim_handoff_done:
  assumes "claim_handoff now s a busy target = (s', True)"
  shows "\<exists>r \<in> set (handoffs s). claimable_by a r"
    "handoffs s' = expire_rows (swept_by s a target busy (claimed_rows now a (handoffs s))) (claimed_rows now a (handoffs s))"
    "sessions s' = sessions s" "observations s' = observations s"
proof -
  let ?P = "\<lambda>r. open_target a r \<and> admits_owner (ha_owner_filter a) (hnd_owner_user r)"
  have P: "?P = claimable_by a" by (intro ext) (simp add: claimable_by_def)
  have ne: "changed_rows (claimable_by a) (handoffs s) \<noteq> 0"
    using assms by (simp add: claim_handoff_def P Let_def split: if_splits)
  then show "\<exists>r \<in> set (handoffs s). claimable_by a r" by (simp add: changed_rows_0_iff)
  let ?s2 = "audit (s\<lparr>handoffs := claimed_rows now a (handoffs s)\<rparr>) ''accept_handoff'' (Some (ha_workspace a)) (Some (ha_project a)) None None now"
  have sup: "superseded_by ?s2 = superseded_by s" by (rule superseded_by_cong) simp_all
  have s': "s' = (if hnd_from_session target = None then ?s2
      else (case expire_superseded_auto_handoffs ?s2 a target busy of
        (s3, expired) \<Rightarrow> if expired > 0 then audit s3 ''expire_superseded_handoffs'' (Some (ha_workspace a)) (Some (ha_project a)) None None now else s3))"
    using assms ne by (simp add: claim_handoff_def P Let_def claimed_rows_def split: if_splits prod.splits)
  have id: "expire_rows (\<lambda>r. False) rows = rows" for rows by (simp add: expire_rows_def update_where_def)
  show "handoffs s' = expire_rows (swept_by s a target busy (claimed_rows now a (handoffs s))) (claimed_rows now a (handoffs s))"
    unfolding s' expire_superseded_eq sup by (simp add: Let_def swept_by_def[abs_def] id)
  show "sessions s' = sessions s" "observations s' = observations s"
    unfolding s' expire_superseded_eq by (simp_all add: Let_def)
qed

lemma receive_session_cases:
  assumes "receive_session s a = Inr received"
  obtains (holding) sid where "ha_session a = Some sid" "received = None" "\<exists>r \<in> set (handoffs s). held_by sid r"
  | (ready) s1 where "received = Some s1" "handoffs s1 = handoffs s" "observations s1 = observations s"
      "\<And>sid. ha_session a = Some sid \<Longrightarrow> \<forall>r \<in> set (handoffs s). \<not> held_by sid r"
proof (cases "ha_session a")
  case None
  with assms show thesis by (intro ready[of s]) (simp_all add: receive_session_def)
next
  case (Some sid)
  show thesis
  proof (cases "exists_row (held_by sid) (handoffs s)")
    case True
    with Some assms show thesis
      by (intro holding[of sid]) (auto simp: receive_session_def split: option.splits if_splits)
  next
    case False
    with Some assms obtain s1 where "received = Some s1" "handoffs s1 = handoffs s" "observations s1 = observations s"
      by (auto simp: receive_session_def split: option.splits if_splits)
    with False Some show thesis by (intro ready[of s1]) auto
  qed
qed

lemma accept_cases:
  assumes "accept_handoff_in_transaction now s a busy = Inr (s', b)"
  obtains (refused) "\<not> b" "handoffs s' = handoffs s"
  | (claimed) s1 target where "b" "handoffs s1 = handoffs s" "observations s1 = observations s"
      "find (open_target a) (handoffs s) = Some target"
      "\<exists>r \<in> set (handoffs s). claimable_by a r"
      "\<And>sid. ha_session a = Some sid \<Longrightarrow> \<forall>r \<in> set (handoffs s). \<not> held_by sid r"
      "handoffs s' = expire_rows (swept_by s1 a target busy (claimed_rows now a (handoffs s))) (claimed_rows now a (handoffs s))"
proof -
  from assms obtain received where rec: "receive_session s a = Inr received"
    and rest: "(case received of None \<Rightarrow> Inr (s, False)
       | Some s1 \<Rightarrow> (case find (open_target a) (handoffs s1) of None \<Rightarrow> Inr (s1, False)
            | Some target \<Rightarrow>
                if session_busy s1 (case busy of None \<Rightarrow> i64_max | Some t \<Rightarrow> t) (hnd_from_session target)
                then Inr (s1, False) else Inr (claim_handoff now s1 a busy target))) = (Inr (s', b) :: (store \<times> bool) store_result)"
    unfolding accept_handoff_in_transaction_def and_then_Inr_iff by blast
  from rec show thesis
  proof (cases rule: receive_session_cases)
    case (holding sid)
    with rest show thesis by (intro refused) simp_all
  next
    case (ready s1)
    show thesis
    proof (cases b)
      case True
      from rest ready(1) True obtain target where t: "find (open_target a) (handoffs s1) = Some target"
        "claim_handoff now s1 a busy target = (s', True)" by (auto split: option.splits if_splits)
      note d = claim_handoff_done[OF t(2)]
      show thesis using d(1,2) t(1) ready True by (intro claimed[of s1 target]) simp_all
    next
      case False
      from rest ready(1) False have "s' = s1"
        by (auto split: option.splits if_splits dest: claim_handoff_refused(1))
      with False ready(2) show thesis by (intro refused) simp_all
    qed
  qed
qed

lemma accepted_row_simps [simp]:
  "hnd_id (accepted_row now a r) = hnd_id r" "hnd_state (accepted_row now a r) = HandoffAccepted"
  "hnd_accepted_by_session (accepted_row now a r) = ha_session a"
  "hnd_workspace (accepted_row now a r) = hnd_workspace r" "hnd_project (accepted_row now a r) = hnd_project r"
  "hnd_owner_user (accepted_row now a r) = hnd_owner_user r"
  by (simp_all add: accepted_row_def)

lemma release_row_simps [simp]:
  "hnd_id (release_row r) = hnd_id r" "hnd_state (release_row r) = HandoffOpen"
  "hnd_accepted_by_session (release_row r) = None"
  by (simp_all add: release_row_def)

lemma quiet_swept: "quiet rows (expire_rows (swept_by s a target busy rows') rows)"
  by (rule quiet_expire) (simp add: swept_by_def)

lemma claimed_rows_unique: "unique_ids rows \<Longrightarrow> unique_ids (claimed_rows now a rows)"
  unfolding claimed_rows_def by (rule unique_on_update_where) simp_all

lemma release_cases:
  assumes "release_handoff now s sid = (s', reopened)"
  obtains (none) "reopened = None" "s' = s" "\<forall>r \<in> set (handoffs s). \<not> held_by sid r"
  | (released) r where "reopened = Some (hnd_id r)" "r \<in> set (handoffs s)" "held_by sid r"
      "handoffs s' = update_where (\<lambda>x. hnd_id x = hnd_id r \<and> held_by sid x) release_row (handoffs s)"
proof (cases "first_by release_order (filter (held_by sid) (handoffs s))")
  case None
  with assms show thesis by (intro none) (auto simp: release_handoff_def filter_empty_conv)
next
  case (Some r)
  from first_by_in[OF Some] assms Some show thesis by (intro released[of r]) (auto simp: release_handoff_def)
qed

lemma lifecycle_end_cases:
  assumes "end_lifecycle_only_session_in_tx now s sid occ = Inr (s', out)"
  obtains (substantive) "out = LifecycleSubstantive" "s' = s"
  | (ended) s1 reopened where "out = LifecycleEnded reopened" "end_session_row now s sid None occ = Inr s1"
      "handoffs s1 = handoffs s" "release_handoff now s1 sid = (s', reopened)"
proof (cases "has_substantive_observation s sid")
  case True
  with assms show thesis by (intro substantive) (simp_all add: end_lifecycle_only_session_in_tx_def)
next
  case False
  with assms obtain s1 where s1: "end_session_row now s sid None occ = Inr s1"
    "(case release_handoff now s1 sid of (s2, reopened) \<Rightarrow> Inr (s2, LifecycleEnded reopened)) = (Inr (s', out) :: (store \<times> lifecycle_only_end_outcome) store_result)"
    unfolding end_lifecycle_only_session_in_tx_def if_not_P[OF False] and_then_Inr_iff by blast
  obtain s2 reopened where "release_handoff now s1 sid = (s2, reopened)" by fastforce
  with s1 end_session_row_handoffs[OF s1(1)] show thesis by (intro ended[of reopened s1]) simp_all
qed

end
