(* ===== verification/HandoffSystem.thy ===== *)
theory HandoffSystem
  imports Handoffs
begin

text \<open>
  The handoff operations as one system of commands, together with the session commands they race with. Shown:
  a baton is delivered again only after it was returned, a receiver holds at most one, no claim or expiry reaches
  across an owner or scope, the startup selection is the best candidate and can be claimed, a checkpoint
  keeps one open baton, and an end without work restores the row.
\<close>

section \<open>Commands\<close>

datatype baton_command =
    InsertBaton uuid new_handoff
  | CheckpointBaton uuid new_handoff
  | EndWithBaton uuid uuid "uuid option" new_handoff
  | EndAdmittedWithBaton uuid admitted_session "uuid option" new_handoff "int option"
  | AcceptBaton handoff_acceptance "int option"
  | LifecycleEnd uuid
  | AdmittedLifecycleEnd admitted_session "int option"
  | ExpireBatons uuid uuid owner_filter "int option" "uuid option"
  | CancelBaton uuid uuid uuid owner_filter
  | SessionCommand ses_command

definition lifecycle_event :: "lifecycle_only_end_outcome store_result \<Rightarrow> uuid claim_event option" where
  "lifecycle_event r = (case r of Inr (LifecycleEnded (Some k)) \<Rightarrow> Some (Returned k) | _ \<Rightarrow> None)"

definition result_of :: "(store \<times> 'a) store_result \<Rightarrow> 'a store_result" where
  "result_of r = (case r of Inl e \<Rightarrow> Inl e | Inr (_, x) \<Rightarrow> Inr x)"

fun baton_event :: "int \<Rightarrow> store \<Rightarrow> baton_command \<Rightarrow> uuid claim_event option" where
  "baton_event now s (AcceptBaton a busy) =
     (if result_of (accept_handoff_in_transaction now s a busy) = Inr True then Some (Granted (ha_handoff a)) else None)"
| "baton_event now s (LifecycleEnd sid) = lifecycle_event (result_of (end_lifecycle_only_session now s sid))"
| "baton_event now s (AdmittedLifecycleEnd g occ) =
     lifecycle_event (result_of (end_admitted_lifecycle_only_session now s g occ))"
| "baton_event now s _ = None"

fun baton_exec :: "ingest_env \<Rightarrow> json_lists \<Rightarrow> store \<Rightarrow> int \<times> baton_command \<Rightarrow> store" where
  "baton_exec env js s (now, InsertBaton hid h) = kept_with s (insert_handoff js now hid s h)"
| "baton_exec env js s (now, CheckpointBaton hid h) = kept_with s (checkpoint_session_handoff js now hid s h)"
| "baton_exec env js s (now, EndWithBaton hid sid page h) = kept_with s (end_session_with_handoff js now hid s sid page h)"
| "baton_exec env js s (now, EndAdmittedWithBaton hid g page h occ) =
     kept_with s (end_admitted_session_with_handoff js now hid s g page h occ)"
| "baton_exec env js s (now, AcceptBaton a busy) = kept_with s (accept_handoff_in_transaction now s a busy)"
| "baton_exec env js s (now, LifecycleEnd sid) = kept_with s (end_lifecycle_only_session now s sid)"
| "baton_exec env js s (now, AdmittedLifecycleEnd g occ) = kept_with s (end_admitted_lifecycle_only_session now s g occ)"
| "baton_exec env js s (now, ExpireBatons w p f old author) = fst (expire_open_handoffs now s w p f old author)"
| "baton_exec env js s (now, CancelBaton hid w p f) = fst (cancel_handoff now s hid w p f)"
| "baton_exec env js s (now, SessionCommand c) = ses_exec env s (now, c)"

fun baton_events :: "ingest_env \<Rightarrow> json_lists \<Rightarrow> store \<Rightarrow> (int \<times> baton_command) list \<Rightarrow> uuid claim_event list" where
  "baton_events env js s [] = []"
| "baton_events env js s (c # cs) =
     (case baton_event (fst c) s (snd c) of None \<Rightarrow> [] | Some e \<Rightarrow> [e]) @ baton_events env js (baton_exec env js s c) cs"

fun baton_exec_all :: "ingest_env \<Rightarrow> json_lists \<Rightarrow> store \<Rightarrow> (int \<times> baton_command) list \<Rightarrow> store" where
  "baton_exec_all env js s [] = s"
| "baton_exec_all env js s (c # cs) = baton_exec_all env js (baton_exec env js s c) cs"

lemma kept_with_quiet:
  assumes "\<And>s' x. r = Inr (s', x) \<Longrightarrow> quiet (handoffs s) (handoffs s')"
  shows "quiet (handoffs s) (handoffs (kept_with s r))"
  using assms by (auto simp: kept_with_def split: sum.splits prod.splits)

lemma ses_exec_handoffs: "handoffs (ses_exec env s (now, c)) = handoffs s"
  using ses_exec_le[of now s env c] by (simp add: ses_le_def)

text \<open>What a command does to the batons: nothing visible, a delivery, or a return.\<close>

definition delivers :: "int \<Rightarrow> handoff_acceptance \<Rightarrow> handoff_row list \<Rightarrow> handoff_row list \<Rightarrow> bool" where
  "delivers now a rows rows' \<longleftrightarrow> (\<exists>r \<in> set rows. claimable_by a r)
     \<and> (\<forall>sid. ha_session a = Some sid \<longrightarrow> (\<forall>r \<in> set rows. \<not> held_by sid r)) \<and> quiet (claimed_rows now a rows) rows'"

definition returns :: "uuid \<Rightarrow> uuid \<Rightarrow> handoff_row list \<Rightarrow> handoff_row list \<Rightarrow> bool" where
  "returns sid k rows rows' \<longleftrightarrow> (\<exists>r \<in> set rows. hnd_id r = k \<and> held_by sid r)
     \<and> rows' = update_where (\<lambda>x. hnd_id x = k \<and> held_by sid x) release_row rows"

lemma lifecycle_end_step:
  assumes "end_lifecycle_only_session_in_tx now s sid occ = Inr (s', out)"
  shows "(out = LifecycleEnded None \<or> out = LifecycleSubstantive) \<and> handoffs s' = handoffs s
    \<or> (\<exists>k. out = LifecycleEnded (Some k) \<and> returns sid k (handoffs s) (handoffs s'))"
  using assms
proof (cases rule: lifecycle_end_cases)
  case (ended s1 reopened)
  from ended(4) show ?thesis
    by (cases rule: release_cases) (use ended in \<open>auto simp: returns_def\<close>)
qed simp

lemma end_admitted_lifecycle_Inr:
  "end_admitted_lifecycle_only_session now s g occ = Inr x \<longleftrightarrow>
     validate_admitted_session s g = Inr () \<and> end_lifecycle_only_session_in_tx now s (ad_session g) occ = Inr x"
  by (simp add: end_admitted_lifecycle_only_session_def and_then_Inr_iff)

lemma lifecycle_command_step:
  assumes "r = end_lifecycle_only_session_in_tx now s sid occ \<or> isl r"
  shows "lifecycle_event (result_of r) = None \<and> quiet (handoffs s) (handoffs (kept_with s r))
    \<or> (\<exists>k. lifecycle_event (result_of r) = Some (Returned k) \<and> returns sid k (handoffs s) (handoffs (kept_with s r)))"
proof (cases r)
  case (Inr x)
  then obtain s' out where x: "x = (s', out)" "end_lifecycle_only_session_in_tx now s sid occ = Inr (s', out)"
    using assms by (cases x) auto
  from lifecycle_end_step[OF x(2)] show ?thesis
    by (auto simp: Inr x(1) kept_with_def result_of_def lifecycle_event_def)
qed (simp add: kept_with_def result_of_def lifecycle_event_def)

lemma baton_step_cases:
  obtains (quiet) "baton_event now s c = None" "quiet (handoffs s) (handoffs (baton_exec env js s (now, c)))"
  | (delivery) a where "baton_event now s c = Some (Granted (ha_handoff a))"
      "delivers now a (handoffs s) (handoffs (baton_exec env js s (now, c)))"
  | (return) k sid where "baton_event now s c = Some (Returned k)"
      "returns sid k (handoffs s) (handoffs (baton_exec env js s (now, c)))"
proof (cases c)
  case (AcceptBaton a busy)
  show thesis
  proof (cases "accept_handoff_in_transaction now s a busy")
    case (Inl e)
    with AcceptBaton show thesis by (intro quiet) (simp_all add: result_of_def kept_with_def)
  next
    case (Inr x)
    then obtain s' b where x: "accept_handoff_in_transaction now s a busy = Inr (s', b)" by (cases x) simp
    from x show thesis
    proof (cases rule: accept_cases)
      case refused
      with x AcceptBaton show thesis by (intro quiet) (simp_all add: result_of_def kept_with_def)
    next
      case (claimed s1 target)
      show thesis
      proof (rule delivery)
        show "baton_event now s c = Some (Granted (ha_handoff a))" using x claimed(1) AcceptBaton by (simp add: result_of_def)
        show "delivers now a (handoffs s) (handoffs (baton_exec env js s (now, c)))"
          using x claimed AcceptBaton by (simp add: delivers_def kept_with_def quiet_swept)
      qed
    qed
  qed
next
  case (LifecycleEnd sid)
  with lifecycle_command_step[of "end_lifecycle_only_session now s sid" now s sid None] show thesis
    by (auto simp: end_lifecycle_only_session_def intro: quiet return)
next
  case (AdmittedLifecycleEnd g occ)
  have "end_admitted_lifecycle_only_session now s g occ = end_lifecycle_only_session_in_tx now s (ad_session g) occ
      \<or> isl (end_admitted_lifecycle_only_session now s g occ)"
    by (cases "validate_admitted_session s g") (simp_all add: end_admitted_lifecycle_only_session_def)
  from lifecycle_command_step[OF this] AdmittedLifecycleEnd show thesis by (auto intro: quiet return)
next
  case (InsertBaton hid h)
  then show thesis by (intro quiet) (auto simp: insert_handoff_def intro: kept_with_quiet insert_handoff_quiet)
next
  case (CheckpointBaton hid h)
  then show thesis by (intro quiet) (auto intro: kept_with_quiet checkpoint_quiet)
next
  case (EndWithBaton hid sid page h)
  then show thesis by (intro quiet) (auto intro: kept_with_quiet end_with_handoff_quiet)
next
  case (EndAdmittedWithBaton hid g page h occ)
  then show thesis by (intro quiet) (auto intro: kept_with_quiet end_admitted_with_handoff_quiet)
next
  case (ExpireBatons w p f old author)
  then show thesis by (intro quiet) (auto simp: expire_open_handoffs_eq intro!: quiet_expire dest: expirable_open)
next
  case (CancelBaton hid w p f)
  then show thesis by (intro quiet) (auto simp: cancel_handoff_eq intro!: quiet_expire dest: expirable_open)
next
  case (SessionCommand c')
  then show thesis by (intro quiet) (simp_all add: ses_exec_handoffs)
qed

section \<open>The baton invariant\<close>

definition batons_ok :: "handoff_row list \<Rightarrow> bool" where
  "batons_ok rows \<longleftrightarrow> unique_ids rows \<and> open_clean rows
     \<and> unique_on (\<lambda>r. is_accepted r \<and> hnd_accepted_by_session r \<noteq> None) hnd_accepted_by_session rows"

lemma unique_receivers_filter:
  "unique_on (\<lambda>r. is_accepted r \<and> hnd_accepted_by_session r \<noteq> None) hnd_accepted_by_session rows
     = unique_on (\<lambda>r. hnd_accepted_by_session r \<noteq> None) hnd_accepted_by_session (filter is_accepted rows)"
  by (simp add: unique_on_def conj_commute)

lemma quiet_ok: "quiet rows rows' \<Longrightarrow> batons_ok rows \<Longrightarrow> batons_ok rows'"
  unfolding batons_ok_def unique_receivers_filter by (simp add: quiet_def)

lemma delivers_ok:
  assumes "delivers now a rows rows'" "batons_ok rows"
  shows "batons_ok rows'"
proof -
  let ?t = "claimed_rows now a rows"
  let ?P = "\<lambda>r. is_accepted r \<and> hnd_accepted_by_session r \<noteq> None"
  have u: "unique_ids ?t" using assms(2) by (intro claimed_rows_unique) (simp add: batons_ok_def)
  have old: "unique_on ?P hnd_accepted_by_session rows" using assms(2) by (simp add: batons_ok_def)
  have free: "ha_session a \<noteq> hnd_accepted_by_session r" if "r \<in> set rows" "?P r" for r
    using assms(1) that by (auto simp: delivers_def held_by_def)
  have rows: "\<exists>x \<in> set rows. r = accepted_row now a x \<and> claimable_by a x \<or> r = x" if "r \<in> set ?t" for r
    using that by (auto simp: claimed_rows_def set_update_where)
  have "unique_on ?P hnd_accepted_by_session ?t"
  proof (rule unique_on_via_key[OF u])
    fix r r' assume r: "r \<in> set ?t" "r' \<in> set ?t" "?P r" "?P r'" "hnd_accepted_by_session r = hnd_accepted_by_session r'"
    from rows[OF r(1)] obtain x where x: "x \<in> set rows" "r = accepted_row now a x \<and> claimable_by a x \<or> r = x" by blast
    from rows[OF r(2)] obtain y where y: "y \<in> set rows" "r' = accepted_row now a y \<and> claimable_by a y \<or> r' = y" by blast
    show "hnd_id r = hnd_id r'"
      using x(2) y(2) r(3-5) free[OF x(1)] free[OF y(1)] unique_onD[OF old x(1) y(1)]
      by (elim disjE) (auto simp: claimable_by_def open_target_def)
  qed
  moreover have "open_clean ?t"
    using assms(2) unfolding claimed_rows_def open_clean_def batons_ok_def ball_update_where by auto
  ultimately have "batons_ok ?t" using u by (simp add: batons_ok_def)
  with assms(1) show ?thesis by (auto simp: delivers_def intro: quiet_ok)
qed

lemma release_release [simp]: "release_row (release_row r) = release_row r"
  by (simp add: release_row_def)

lemma returns_ok:
  assumes "returns sid k rows rows'" "batons_ok rows"
  shows "batons_ok rows'"
proof -
  let ?P = "\<lambda>x. hnd_id x = k \<and> held_by sid x"
  have r: "rows' = update_where ?P release_row rows" using assms(1) by (simp add: returns_def)
  have "unique_ids rows'" unfolding r using assms(2) by (intro unique_on_update_where) (simp_all add: batons_ok_def)
  moreover have "unique_on (\<lambda>r. is_accepted r \<and> hnd_accepted_by_session r \<noteq> None) hnd_accepted_by_session rows'"
    unfolding r using assms(2) by (intro unique_on_update_where) (simp_all add: batons_ok_def)
  moreover have "open_clean rows'"
    using assms(2) unfolding r open_clean_def batons_ok_def ball_update_where by auto
  ultimately show ?thesis by (simp add: batons_ok_def)
qed

lemma baton_exec_ok: "batons_ok (handoffs s) \<Longrightarrow> batons_ok (handoffs (baton_exec env js s (now, c)))"
  by (cases rule: baton_step_cases[of now s c env js]) (auto intro: quiet_ok delivers_ok returns_ok)

interpretation baton: step_system "\<lambda>s. handoffs s = []" "\<lambda>s c s'. s' = baton_exec env js s c" "\<lambda>s. batons_ok (handoffs s)"
  for env js
proof
  show "batons_ok (handoffs s)" if "handoffs s = []" for s :: store using that by (simp add: batons_ok_def open_clean_def)
  show "batons_ok (handoffs s')" if "batons_ok (handoffs s)" "s' = baton_exec env js s c" for s c s'
    using that baton_exec_ok[of s env js "fst c" "snd c"] by simp
qed

definition baton_taken :: "store \<Rightarrow> uuid \<Rightarrow> bool" where
  "baton_taken s k \<longleftrightarrow> (\<exists>r \<in> set (handoffs s). hnd_id r = k \<and> is_accepted r)"

lemma baton_taken_filter: "baton_taken s k \<longleftrightarrow> (\<exists>r \<in> set (filter is_accepted (handoffs s)). hnd_id r = k)"
  by (auto simp: baton_taken_def)

lemma quiet_taken: "quiet rows (handoffs s') \<Longrightarrow> baton_taken s' k \<longleftrightarrow> (\<exists>r \<in> set (filter is_accepted rows). hnd_id r = k)"
  unfolding baton_taken_filter quiet_def by simp

lemma baton_grants:
  assumes ok: "batons_ok (handoffs s)" and ev: "baton_event now s c = Some (Granted k)"
  shows "\<not> baton_taken s k \<and> baton_taken (baton_exec env js s (now, c)) k"
proof (cases rule: baton_step_cases[of now s c env js])
  case (delivery a)
  with ev have k: "k = ha_handoff a" by simp
  from delivery(2) obtain r where r: "r \<in> set (handoffs s)" "claimable_by a r" by (auto simp: delivers_def)
  then have "hnd_id r = k" "\<not> is_accepted r" by (simp_all add: k claimable_by_def open_target_def)
  with r ok have "\<not> baton_taken s k" by (auto simp: baton_taken_def batons_ok_def dest: unique_onD)
  moreover have "accepted_row now a r \<in> set (claimed_rows now a (handoffs s))"
    using in_update_where[OF r(1), of "claimable_by a" "accepted_row now a"] r(2) by (simp add: claimed_rows_def)
  with \<open>hnd_id r = k\<close> have "baton_taken (baton_exec env js s (now, c)) k"
    using delivery(2) by (subst quiet_taken[of "claimed_rows now a (handoffs s)"]) (force simp: delivers_def)+
  ultimately show ?thesis ..
qed (use ev in simp_all)

lemma baton_keeps:
  assumes ok: "batons_ok (handoffs s)" and t: "baton_taken s k" and ev: "baton_event now s c \<noteq> Some (Returned k)"
  shows "baton_taken (baton_exec env js s (now, c)) k"
proof (cases rule: baton_step_cases[of now s c env js])
  case quiet
  from t show ?thesis unfolding quiet_taken[OF quiet(2)] baton_taken_filter[of s] .
next
  case (delivery a)
  from t obtain r where r: "r \<in> set (handoffs s)" "hnd_id r = k" "is_accepted r" by (auto simp: baton_taken_def)
  then have "r \<in> set (claimed_rows now a (handoffs s))"
    using in_update_where[OF r(1), of "claimable_by a" "accepted_row now a"] by (simp add: claimed_rows_def claimable_by_def open_target_def)
  with r delivery(2) show ?thesis by (subst quiet_taken[of "claimed_rows now a (handoffs s)"]) (auto simp: delivers_def)
next
  case (return k' sid)
  from t obtain r where r: "r \<in> set (handoffs s)" "hnd_id r = k" "is_accepted r" by (auto simp: baton_taken_def)
  with ev return have "r \<in> set (handoffs (baton_exec env js s (now, c)))"
    using in_update_where[OF r(1), of "\<lambda>x. hnd_id x = k' \<and> held_by sid x" release_row] by (simp add: returns_def)
  with r show ?thesis by (auto simp: baton_taken_def)
qed

interpretation bat: claim_return "\<lambda>s. batons_ok (handoffs s)"
  "\<lambda>s c. (baton_exec env js s c, baton_event (fst c) s (snd c))" baton_taken "\<lambda>_. True" for env js
proof
  fix s c s' r
  assume "batons_ok (handoffs s)" "(baton_exec env js s c, baton_event (fst c) s (snd c)) = (s', r)"
  then show "batons_ok (handoffs s')" using baton_exec_ok[of s env js "fst c" "snd c"] by auto
next
  fix s c s' k
  assume "batons_ok (handoffs s)" "(baton_exec env js s c, baton_event (fst c) s (snd c)) = (s', Some (Granted k))"
  then show "\<not> baton_taken s k \<and> baton_taken s' k" using baton_grants[of s "fst c" "snd c" k env js] by auto
next
  fix s c k s' r
  assume "batons_ok (handoffs s)" "baton_taken s k" "(baton_exec env js s c, baton_event (fst c) s (snd c)) = (s', r)"
    "r \<noteq> Some (Returned k)"
  then show "baton_taken s' k" using baton_keeps[of s k "fst c" "snd c" env js] by auto
qed

lemma baton_events_eq: "baton_events env js s cs = bat.events env js s cs"
  by (induction cs arbitrary: s) (auto split: option.splits)

section \<open>Delivery\<close>

definition demo_js :: json_lists where
  "demo_js = \<lparr>list_to_json = concat, list_from_json = (\<lambda>t. Some [t])\<rparr>"

definition demo_new_handoff :: new_handoff where
  "demo_new_handoff = \<lparr>nh_workspace = 1, nh_project = 2, nh_from_session = None, nh_from_agent = Codex, nh_to_agent = None,
     nh_cwd = None, nh_summary = lit ''s'', nh_open_questions = [], nh_next_steps = [], nh_files_touched = [],
     nh_owner_user = None\<rparr>"

definition demo_row :: handoff_row where
  "demo_row = \<lparr>hnd_id = 8, hnd_workspace = 1, hnd_project = 2, hnd_from_session = None, hnd_from_agent = as_str Codex,
     hnd_to_agent = None, hnd_cwd = None, hnd_summary = lit ''s'', hnd_open_questions = [], hnd_next_steps = [],
     hnd_files_touched = [], hnd_state = HandoffOpen, hnd_created_at = 4, hnd_accepted_by = None, hnd_accepted_at = None,
     hnd_accepted_by_session = None, hnd_accepted_by_user = None, hnd_owner_user = None\<rparr>"

definition demo_relay :: store where
  "demo_relay = demo_begun\<lparr>handoffs := [demo_row]\<rparr>"

definition demo_acceptance :: "uuid option \<Rightarrow> handoff_acceptance" where
  "demo_acceptance sid = \<lparr>ha_handoff = 8, ha_workspace = 1, ha_project = 2, ha_agent = ClaudeCode, ha_session = sid,
     ha_user = None, ha_owner_filter = OwnerAny, ha_receiving_cwd = None\<rparr>"

lemma demo_relay_ok: "batons_ok (handoffs demo_relay)"
  by (simp add: demo_relay_def batons_ok_def open_clean_def unique_on_def demo_row_def release_row_def)

lemmas demo_relay_simps =
  demo_relay_def demo_begun_def demo_scope_def demo_session_def demo_row_def demo_acceptance_def empty_store_def
  new_session_row_def accept_handoff_in_transaction_def validate_identity_storage_key_def operator_matches_def
  receive_session_def held_by_def open_target_def session_busy_def claim_handoff_def accepted_row_def update_where_def
  changed_rows_def result_of_def kept_with_def lifecycle_event_def end_lifecycle_only_session_def
  end_lifecycle_only_session_in_tx_def has_substantive_observation_def end_session_row_def release_handoff_def
  first_by_def release_order_def release_row_def end_row_def audit_def audit_with_detail_def Let_def

text \<open>
  C9. A baton is delivered again only after it came back: along any sequence of session and handoff
  commands, in whatever order sessions race for it, between two successful accepts of one handoff there is
  an end without work that returned it, and a handoff that is already accepted is not accepted again before.
\<close>

theorem batons_alternate:
  assumes "batons_ok (handoffs s)"
  shows "alternates k (baton_taken s k) (baton_events env js s cs)"
  unfolding baton_events_eq using assms by (intro bat.events_alternate) simp_all

definition demo_relay_commands :: "(int \<times> baton_command) list" where
  "demo_relay_commands =
     [(10, AcceptBaton (demo_acceptance (Some 5)) None), (20, AcceptBaton (demo_acceptance None) None),
      (30, LifecycleEnd 5), (40, AcceptBaton (demo_acceptance None) None)]"

theorem batons_alternate_witness:
  "baton_events demo_ienv demo_js demo_relay demo_relay_commands = [Granted 8, Returned 8, Granted 8]
   \<and> alternates 8 False (baton_events demo_ienv demo_js demo_relay demo_relay_commands)"
proof
  show "baton_events demo_ienv demo_js demo_relay demo_relay_commands = [Granted 8, Returned 8, Granted 8]"
    by (simp add: demo_relay_commands_def demo_relay_simps)
  have "\<not> baton_taken demo_relay 8" by (simp add: baton_taken_def demo_relay_def demo_row_def)
  then show "alternates 8 False (baton_events demo_ienv demo_js demo_relay demo_relay_commands)"
    using batons_alternate[OF demo_relay_ok, of 8 demo_ienv demo_js demo_relay_commands] by simp
qed

lemma baton_exec_all_run: "baton.run env js s cs (baton_exec_all env js s cs)"
proof (induction cs rule: rev_induct)
  case (snoc c cs)
  have "baton_exec_all env js s (cs @ [c]) = baton_exec env js (baton_exec_all env js s cs) c"
    by (induction cs arbitrary: s) simp_all
  with snoc show ?case by (simp add: baton.run_snoc)
qed (simp add: baton.run_nil)

lemma held_at_most_one: "batons_ok rows \<Longrightarrow> length (filter (held_by sid) rows) \<le> 1"
  unfolding batons_ok_def by (elim conjE, erule unique_on_at_most_one[where c = "Some sid"]) (simp add: held_by_def)

lemma held_unique: "batons_ok rows \<Longrightarrow> r \<in> set rows \<Longrightarrow> r' \<in> set rows \<Longrightarrow> held_by sid r \<Longrightarrow> held_by sid r' \<Longrightarrow> r = r'"
  unfolding batons_ok_def by (elim conjE, erule (2) unique_onD[where k = hnd_accepted_by_session]) (simp_all add: held_by_def)

lemma release_leaves_none:
  assumes "batons_ok (handoffs s)" "release_handoff now s sid = (s', k)" "x \<in> set (handoffs s')"
  shows "\<not> held_by sid x"
  using assms(2)
proof (cases rule: release_cases)
  case (released r)
  with assms(3) obtain y where "y \<in> set (handoffs s)" "x = (if hnd_id y = hnd_id r \<and> held_by sid y then release_row y else y)"
    by (auto simp: set_update_where)
  with released held_unique[OF assms(1)] show ?thesis by (auto simp: held_by_def split: if_splits)
qed (use assms(3) in simp)

text \<open>
  C28. A receiver holds at most one baton, from the empty table on and whatever commands run; so the end of a
  session that did no work returns the only one it could hold and strands none.
\<close>

theorem one_baton_per_receiver:
  assumes "handoffs s = []" and "t = baton_exec_all env js s cs"
  shows "length (filter (held_by sid) (handoffs t)) \<le> 1
    \<and> (\<forall>now t' k. end_lifecycle_only_session now t sid = Inr (t', LifecycleEnded k) \<longrightarrow> filter (held_by sid) (handoffs t') = [])"
proof (intro conjI allI impI)
  have ok: "batons_ok (handoffs t)" using baton.reachable_inv[OF assms(1) baton_exec_all_run] by (simp add: assms(2))
  then show "length (filter (held_by sid) (handoffs t)) \<le> 1" by (rule held_at_most_one)
  fix now t' k assume "end_lifecycle_only_session now t sid = Inr (t', LifecycleEnded k)"
  then have "end_lifecycle_only_session_in_tx now t sid None = Inr (t', LifecycleEnded k)" by (simp add: end_lifecycle_only_session_def)
  then show "filter (held_by sid) (handoffs t') = []"
  proof (cases rule: lifecycle_end_cases)
    case (ended s1 reopened)
    with ok have "batons_ok (handoffs s1)" by simp
    with ended(4) release_leaves_none[of s1] show ?thesis by (auto simp: filter_empty_conv)
  qed simp
qed

definition demo_given_commands :: "(int \<times> baton_command) list" where
  "demo_given_commands = [(4, InsertBaton 8 demo_new_handoff), (10, AcceptBaton (demo_acceptance (Some 5)) None)]"

theorem one_baton_per_receiver_witness:
  "length (filter (held_by 5) (handoffs (baton_exec_all demo_ienv demo_js demo_begun demo_given_commands))) \<le> 1
   \<and> filter (held_by 5) (handoffs (baton_exec_all demo_ienv demo_js demo_begun demo_given_commands)) \<noteq> []"
proof
  have "handoffs demo_begun = []" by (simp add: demo_begun_def demo_scope_def empty_store_def)
  then show "length (filter (held_by 5) (handoffs (baton_exec_all demo_ienv demo_js demo_begun demo_given_commands))) \<le> 1"
    using one_baton_per_receiver[OF _ refl] by blast
qed (simp add: demo_given_commands_def demo_new_handoff_def insert_handoff_def insert_handoff_row_def insert_handoff_sql_def
    new_handoff_row_def handoff_fields_of_def pairing_ok_def demo_relay_simps)

section \<open>Owners and scopes\<close>

definition within :: "uuid \<Rightarrow> uuid \<Rightarrow> owner_filter \<Rightarrow> handoff_row \<Rightarrow> bool" where
  "within w p f r \<longleftrightarrow> hnd_workspace r = w \<and> hnd_project r = p \<and> admits_owner f (hnd_owner_user r)"

fun claim_boundary :: "baton_command \<Rightarrow> (uuid \<times> uuid \<times> owner_filter) option" where
  "claim_boundary (AcceptBaton a busy) = Some (ha_workspace a, ha_project a, ha_owner_filter a)"
| "claim_boundary (ExpireBatons w p f old author) = Some (w, p, f)"
| "claim_boundary (CancelBaton hid w p f) = Some (w, p, f)"
| "claim_boundary _ = None"

lemma filter_update_outside:
  assumes "\<And>r. r \<in> set rows \<Longrightarrow> P r \<Longrightarrow> \<not> F r \<and> \<not> F (f r)"
  shows "filter F (update_where P f rows) = filter F rows"
  using assms by (induction rows) (auto simp: update_where_def)

lemma within_expired [simp]: "within w p f (r\<lparr>hnd_state := st\<rparr>) = within w p f r"
  by (simp add: within_def)

lemma outside_expire:
  assumes "\<And>r. r \<in> set rows \<Longrightarrow> P r \<Longrightarrow> within w p f r"
  shows "filter (\<lambda>r. \<not> within w p f r) (expire_rows P rows) = filter (\<lambda>r. \<not> within w p f r) rows"
  unfolding expire_rows_def by (rule filter_update_outside) (simp add: assms)

lemma expirable_within: "expirable w p f old r \<Longrightarrow> within w p f r"
  by (simp add: expirable_def within_def)

lemma swept_within:
  assumes "unique_ids rows" "swept_by s a target busy rows r" "r \<in> set rows"
    "admits_owner (ha_owner_filter a) (hnd_owner_user target)"
  shows "within (ha_workspace a) (ha_project a) (ha_owner_filter a) r"
proof -
  from assms(2) obtain x where "x \<in> set rows" "superseded_by s a target busy x" "hnd_id r = hnd_id x" by (auto simp: swept_by_def)
  with assms(1,3) have "superseded_by s a target busy r" by (auto dest: unique_onD)
  with assms(4) show ?thesis by (simp add: superseded_by_def within_def)
qed

lemma accept_outside:
  assumes "batons_ok (handoffs s)" "accept_handoff_in_transaction now s a busy = Inr (s', b)"
  shows "filter (\<lambda>r. \<not> within (ha_workspace a) (ha_project a) (ha_owner_filter a) r) (handoffs s')
    = filter (\<lambda>r. \<not> within (ha_workspace a) (ha_project a) (ha_owner_filter a) r) (handoffs s)"
  using assms(2)
proof (cases rule: accept_cases)
  case (claimed s1 target)
  let ?t = "claimed_rows now a (handoffs s)"
  have u: "unique_ids (handoffs s)" using assms(1) by (simp add: batons_ok_def)
  from claimed(4) have t: "target \<in> set (handoffs s)" "open_target a target" by (auto dest: find_SomeD)
  from claimed(5) obtain r where r: "r \<in> set (handoffs s)" "claimable_by a r" by blast
  with t u have "r = target" by (auto simp: claimable_by_def open_target_def dest: unique_onD)
  with r have "admits_owner (ha_owner_filter a) (hnd_owner_user target)" by (simp add: claimable_by_def)
  with claimed_rows_unique[OF u] have "filter (\<lambda>r. \<not> within (ha_workspace a) (ha_project a) (ha_owner_filter a) r) (handoffs s')
     = filter (\<lambda>r. \<not> within (ha_workspace a) (ha_project a) (ha_owner_filter a) r) ?t"
    unfolding claimed(7) by (intro outside_expire) (blast intro: swept_within)
  also have "\<dots> = filter (\<lambda>r. \<not> within (ha_workspace a) (ha_project a) (ha_owner_filter a) r) (handoffs s)"
    unfolding claimed_rows_def by (rule filter_update_outside) (simp add: claimable_by_def open_target_def within_def)
  finally show ?thesis .
qed simp

text \<open>
  C29. Claiming, expiring and cancelling stay inside the caller's boundary: a handoff of another workspace or
  project, or of an owner the caller's filter does not admit, is not changed, not even by the sweep of older
  batons that follows a claim.
\<close>

theorem handoff_boundary:
  assumes "batons_ok (handoffs s)" and "claim_boundary c = Some (w, p, f)"
  shows "filter (\<lambda>r. \<not> within w p f r) (handoffs (baton_exec env js s (now, c))) = filter (\<lambda>r. \<not> within w p f r) (handoffs s)"
proof (cases "c" rule: claim_boundary.cases)
  case (1 a busy)
  then show ?thesis using assms accept_outside[OF assms(1), of now a busy]
    by (cases "accept_handoff_in_transaction now s a busy") (auto simp: kept_with_def split: prod.splits)
next
  case (2 w' p' f' old author)
  with assms(2) show ?thesis by (simp add: expire_open_handoffs_eq outside_expire expirable_within)
next
  case (3 hid w' p' f')
  with assms(2) show ?thesis by (auto simp: cancel_handoff_eq intro!: outside_expire intro: expirable_within)
qed (use assms(2) in simp_all)

definition demo_owned :: store where
  "demo_owned = demo_begun\<lparr>handoffs := [demo_row, demo_row\<lparr>hnd_id := 9, hnd_owner_user := Some (lit ''user:bob'')\<rparr>]\<rparr>"

lemma demo_owned_ok: "batons_ok (handoffs demo_owned)"
  by (simp add: demo_owned_def batons_ok_def open_clean_def unique_on_def demo_row_def release_row_def)

theorem handoff_boundary_witness:
  "map hnd_state (handoffs (baton_exec demo_ienv demo_js demo_owned (9, ExpireBatons 1 2 OwnerUnattributed None None)))
     = [HandoffExpired, HandoffOpen]
   \<and> filter (\<lambda>r. \<not> within 1 2 OwnerUnattributed r)
       (handoffs (baton_exec demo_ienv demo_js demo_owned (9, ExpireBatons 1 2 OwnerUnattributed None None)))
     = filter (\<lambda>r. \<not> within 1 2 OwnerUnattributed r) (handoffs demo_owned)"
proof
  show "filter (\<lambda>r. \<not> within 1 2 OwnerUnattributed r)
       (handoffs (baton_exec demo_ienv demo_js demo_owned (9, ExpireBatons 1 2 OwnerUnattributed None None)))
     = filter (\<lambda>r. \<not> within 1 2 OwnerUnattributed r) (handoffs demo_owned)"
    by (rule handoff_boundary[OF demo_owned_ok]) simp
qed (simp add: expire_open_handoffs_eq demo_owned_def expire_rows_def update_where_def expirable_def demo_row_def)

section \<open>Accept and give back\<close>

lemma release_accepted: "release_row (accepted_row now a r) = release_row r"
  by (simp add: release_row_def accepted_row_def)

lemma find_update_id:
  assumes "\<And>r. P r \<Longrightarrow> hnd_id (f r) = hnd_id r"
  shows "find (\<lambda>r. hnd_id r = k) (update_where P f rows) = map_option (\<lambda>r. if P r then f r else r) (find (\<lambda>r. hnd_id r = k) rows)"
  using assms by (intro find_update_where) simp

text \<open>What an accept makes of the claimed row: it is accepted, and the sweep does not touch it.\<close>

lemma accept_row:
  assumes "batons_ok (handoffs s)" "accept_handoff_in_transaction now s a busy = Inr (s', True)"
  obtains r where "find (\<lambda>x. hnd_id x = ha_handoff a) (handoffs s) = Some r" "hnd_state r = HandoffOpen"
    "find (\<lambda>x. hnd_id x = ha_handoff a) (handoffs s') = Some (accepted_row now a r)"
  using assms(2)
proof (cases rule: accept_cases)
  case (claimed s1 target)
  from claimed(5) obtain r where r: "r \<in> set (handoffs s)" "claimable_by a r" by blast
  then have id: "hnd_id r = ha_handoff a" "hnd_state r = HandoffOpen" by (simp_all add: claimable_by_def open_target_def)
  have f: "find (\<lambda>x. hnd_id x = ha_handoff a) (handoffs s) = Some r"
    using find_unique[of hnd_id "handoffs s" r] assms(1) r(1) id(1) by (simp add: batons_ok_def)
  then have c: "find (\<lambda>x. hnd_id x = ha_handoff a) (claimed_rows now a (handoffs s)) = Some (accepted_row now a r)"
    using r(2) by (simp add: claimed_rows_def find_update_id)
  have "find (\<lambda>x. hnd_id x = ha_handoff a) (handoffs s') = Some (accepted_row now a r)"
    unfolding claimed(7) expire_rows_def by (simp add: find_update_id c swept_by_def)
  with f id(2) that show thesis by blast
qed simp

text \<open>
  C31. A session that takes a baton and ends without having done any work puts it back exactly as it was:
  the end reports that handoff as reopened, and its row is the row it had before the claim, open and without
  a trace of the receiver.
\<close>

theorem accept_release_roundtrip:
  assumes "batons_ok (handoffs s)" and "ha_session a = Some sid"
    and "accept_handoff_in_transaction now s a busy = Inr (s1, True)"
    and "end_lifecycle_only_session now' s1 sid = Inr (s2, LifecycleEnded reopened)"
  shows "reopened = Some (ha_handoff a)
    \<and> find (\<lambda>r. hnd_id r = ha_handoff a) (handoffs s2) = find (\<lambda>r. hnd_id r = ha_handoff a) (handoffs s)
    \<and> (\<exists>r. find (\<lambda>r. hnd_id r = ha_handoff a) (handoffs s) = Some r \<and> hnd_state r = HandoffOpen)"
proof -
  obtain r where r: "find (\<lambda>x. hnd_id x = ha_handoff a) (handoffs s) = Some r" "hnd_state r = HandoffOpen"
    "find (\<lambda>x. hnd_id x = ha_handoff a) (handoffs s1) = Some (accepted_row now a r)"
    using accept_row[OF assms(1,3)] .
  then have in1: "accepted_row now a r \<in> set (handoffs s1)" by (auto dest: find_SomeD)
  have held: "held_by sid (accepted_row now a r)" using assms(2) by (simp add: held_by_def)
  have idr: "hnd_id r = ha_handoff a" using find_SomeD[OF r(1)] by simp
  have ok1: "batons_ok (handoffs s1)"
    using baton_exec_ok[OF assms(1), of demo_ienv demo_js now "AcceptBaton a busy"] assms(3) by (simp add: kept_with_def)
  have clean: "release_row r = r"
    using assms(1) find_SomeD[OF r(1)] r(2) by (auto simp: batons_ok_def open_clean_def)
  from assms(4) have "end_lifecycle_only_session_in_tx now' s1 sid None = Inr (s2, LifecycleEnded reopened)"
    by (simp add: end_lifecycle_only_session_def)
  then show ?thesis
  proof (cases rule: lifecycle_end_cases)
    case (ended t k)
    from ended(4) show ?thesis
    proof (cases rule: release_cases)
      case none
      with in1 held ended(3) show ?thesis by auto
    next
      case (released x)
      with ended(3) held_unique[OF ok1 _ in1 _ held, of x] have "x = accepted_row now a r" by simp
      with released ended r clean idr held show ?thesis by (simp add: find_update_id release_accepted)
    qed
  qed simp
qed

theorem accept_release_roundtrip_witness:
  "\<exists>s1 s2. accept_handoff_in_transaction 10 demo_relay (demo_acceptance (Some 5)) None = Inr (s1, True)
     \<and> end_lifecycle_only_session 20 s1 5 = Inr (s2, LifecycleEnded (Some 8))
     \<and> find (\<lambda>r. hnd_id r = 8) (handoffs s2) = Some demo_row"
proof -
  let ?a = "demo_acceptance (Some 5)"
  obtain s1 where s1: "accept_handoff_in_transaction 10 demo_relay ?a None = Inr (s1, True)"
    "sessions s1 = sessions demo_relay" "observations s1 = []"
    by (simp add: demo_relay_simps)
  then obtain s2 k where s2: "end_lifecycle_only_session 20 s1 5 = Inr (s2, LifecycleEnded k)"
    by (cases "release_handoff 20 (projr (end_session_row 20 s1 5 None None)) 5")
      (simp add: end_lifecycle_only_session_def end_lifecycle_only_session_in_tx_def has_substantive_observation_def end_session_row_def)
  have "ha_session ?a = Some 5" "ha_handoff ?a = 8" by (simp_all add: demo_acceptance_def)
  with accept_release_roundtrip[OF demo_relay_ok _ s1(1) s2] s1(1) s2 show ?thesis
    by (simp add: demo_relay_def demo_row_def)
qed

section \<open>Checkpoints\<close>

text \<open>
  A live session that checkpoints its baton every turn keeps one open row: when it had at most one open
  baton before, it has exactly one after, it is the one whose id is returned, and an existing one keeps its id.
\<close>

theorem checkpoint_keeps_one:
  assumes "unique_ids (handoffs s)" and "nh_from_session h = Some sid"
    and "find (\<lambda>r. ses_id r = sid \<and> ses_ended_at r = None) (sessions s) = Some live"
    and "length (filter (own_baton sid live) (handoffs s)) \<le> 1"
    and "checkpoint_session_handoff js now hid s h = Inr (s', Some i)"
  shows "\<exists>r. filter (own_baton sid live) (handoffs s') = [r] \<and> hnd_id r = i \<and> hnd_created_at r = now
    \<and> (\<forall>r0 \<in> set (filter (own_baton sid live) (handoffs s)). i = hnd_id r0)"
proof -
  let ?own = "own_baton sid live"
  have scope: "ses_workspace live = nh_workspace h" "ses_project live = nh_project h" "ses_actor_user live = nh_owner_user h"
    using assms(2,3,5) by (auto simp: checkpoint_session_handoff_def split: if_splits)
  have own_keep: "?own (refreshed_row js now h r) = ?own r" for r by (simp add: own_baton_def)
  show ?thesis
  proof (cases "filter ?own (handoffs s)")
    case Nil
    with assms(2,3,5) scope have ins: "insert_handoff_row js now hid s h = Inr (s', i)"
      by (auto simp: checkpoint_session_handoff_def first_by_def and_then_Inr_iff split: prod.splits)
    note d = insert_handoff_row_InrD[OF ins]
    let ?t = "if nh_from_session h \<noteq> None then expire_rows (same_cwd_superseded s h (hf_cwd (handoff_fields_of js h)) None) (handoffs s) else handoffs s"
    have "filter ?own ?t = []"
      using Nil by (auto simp: filter_empty_conv expire_rows_def set_update_where own_baton_def)
    moreover have "?own (new_handoff_row js now hid h)"
      using assms(2) scope by (simp add: own_baton_def new_handoff_row_def Let_def)
    ultimately have "filter ?own (handoffs s') = [new_handoff_row js now hid h]" unfolding d(4) by simp
    then show ?thesis using d(1) Nil by (simp add: new_handoff_row_def Let_def)
  next
    case (Cons r rs)
    with assms(4) have one: "filter ?own (handoffs s) = [r]" by simp
    then have r: "r \<in> set (handoffs s)" "?own r" by (auto simp: filter_eq_Cons_iff)
    from one assms(2,3,5) scope have s': "s' = refresh_handoff_row js now s (hnd_id r) h" "i = hnd_id r"
      by (auto simp: checkpoint_session_handoff_def first_by_def)
    let ?sup = "same_cwd_superseded s h (hf_cwd (handoff_fields_of js h)) (Some (hnd_id r))"
    have "filter ?own (expire_rows ?sup rows) = filter ?own rows" if "set rows \<subseteq> set (handoffs s)" for rows
    proof -
      have "\<not> ?own x" if "x \<in> set rows" "?sup x" for x
      proof
        assume "?own x"
        with that \<open>set rows \<subseteq> set (handoffs s)\<close> have "x \<in> set (filter ?own (handoffs s))" by auto
        with one that(2) show False by (simp add: same_cwd_superseded_def)
      qed
      then show ?thesis unfolding expire_rows_def by (intro filter_update_outside) (auto simp: own_baton_def)
    qed
    with one have e: "filter ?own (expire_rows ?sup (handoffs s)) = [r]" by simp
    have "filter ?own (handoffs s') = update_where (\<lambda>x. hnd_id x = hnd_id r \<and> hnd_state x = HandoffOpen) (refreshed_row js now h)
        (filter ?own (expire_rows ?sup (handoffs s)))"
      unfolding s'(1) handoffs_refresh by (rule filter_update_where) (simp add: own_keep)
    also have "\<dots> = [refreshed_row js now h r]" unfolding e using r(2) by (simp add: update_where_def own_baton_def)
    finally show ?thesis using s'(2) one by (simp add: refreshed_row_def Let_def)
  qed
qed

definition demo_checkpoint :: new_handoff where
  "demo_checkpoint = demo_new_handoff\<lparr>nh_from_session := Some 5, nh_from_agent := ClaudeCode\<rparr>"

definition demo_live :: session_row where
  "demo_live = new_session_row 3 demo_session"

definition demo_checkpointed :: store where
  "demo_checkpointed = kept_with demo_begun (checkpoint_session_handoff demo_js 10 8 demo_begun demo_checkpoint)"

lemmas demo_checkpoint_simps =
  demo_checkpoint_def demo_new_handoff_def demo_live_def checkpoint_session_handoff_def own_baton_def insert_handoff_row_def
  insert_handoff_sql_def new_handoff_row_def handoff_fields_of_def pairing_ok_def expire_same_cwd_auto_handoffs_def expire_rows_def
  refresh_handoff_row_def refreshed_row_def same_cwd_superseded_def demo_relay_simps

theorem checkpoint_keeps_one_witness:
  "\<exists>s' r. checkpoint_session_handoff demo_js 20 9 demo_checkpointed demo_checkpoint = Inr (s', Some 8)
     \<and> filter (own_baton 5 demo_live) (handoffs s') = [r] \<and> hnd_id r = 8 \<and> hnd_created_at r = 20"
proof -
  have first: "handoffs demo_checkpointed = [new_handoff_row demo_js 10 8 demo_checkpoint]" "sessions demo_checkpointed = [demo_live]"
    by (simp_all add: demo_checkpointed_def demo_checkpoint_simps)
  have own: "own_baton 5 demo_live (new_handoff_row demo_js 10 8 demo_checkpoint)" by (simp add: demo_checkpoint_simps)
  have live: "nh_from_session demo_checkpoint = Some 5"
    "find (\<lambda>r. ses_id r = 5 \<and> ses_ended_at r = None) (sessions demo_checkpointed) = Some demo_live"
    "ses_workspace demo_live = nh_workspace demo_checkpoint" "ses_project demo_live = nh_project demo_checkpoint"
    "ses_actor_user demo_live = nh_owner_user demo_checkpoint"
    by (simp_all add: first demo_checkpoint_def demo_new_handoff_def demo_live_def new_session_row_def demo_session_def)
  have one: "filter (own_baton 5 demo_live) (handoffs demo_checkpointed) = [new_handoff_row demo_js 10 8 demo_checkpoint]"
    using own by (simp add: first)
  have s': "checkpoint_session_handoff demo_js 20 9 demo_checkpointed demo_checkpoint
      = Inr (refresh_handoff_row demo_js 20 demo_checkpointed 8 demo_checkpoint, Some 8)"
    using live one by (simp add: checkpoint_session_handoff_def first_by_def)
  have "unique_ids (handoffs demo_checkpointed)" by (simp add: first unique_on_def)
  moreover have "length (filter (own_baton 5 demo_live) (handoffs demo_checkpointed)) \<le> 1" by (simp add: one)
  ultimately show ?thesis using checkpoint_keeps_one[OF _ live(1,2) _ s'] s' by blast
qed

section \<open>Selection at startup\<close>

text \<open>Candidate and preference, read off the row.\<close>

definition fits_cwd :: "ustr option \<Rightarrow> handoff_row \<Rightarrow> bool" where
  "fits_cwd cwd r \<longleftrightarrow> hnd_from_session r = None \<or> auto_handoff_matches_cwd (hnd_cwd r) cwd"

definition row_key :: "handoff_row \<Rightarrow> selection_key" where
  "row_key r = handoff_selection_key (hnd_from_session r = None) (hnd_created_at r) (hnd_cwd r) (hnd_id r)"

lemma row_to_handoff_InrD:
  assumes "row_to_handoff js r = Inr h"
  shows "hs_id (h_scope h) = hnd_id r" "preference h = row_key r" "ho_from_session (h_origin h) = hnd_from_session r"
    "is_handoff_candidate h cwd f \<longleftrightarrow> admits_owner f (hnd_owner_user r) \<and> fits_cwd cwd r"
proof -
  from assms obtain qs ns fs where h: "h = \<lparr>h_scope = \<lparr>hs_id = hnd_id r, hs_workspace = hnd_workspace r, hs_project = hnd_project r\<rparr>,
      h_origin = \<lparr>ho_from_session = hnd_from_session r, ho_from_agent = from_wire (hnd_from_agent r),
        ho_to_agent = map_option from_wire (hnd_to_agent r), ho_cwd = hnd_cwd r, ho_owner_user = hnd_owner_user r\<rparr>,
      h_content = \<lparr>hc_summary = hnd_summary r, hc_open_questions = qs, hc_next_steps = ns, hc_files_touched = fs\<rparr>,
      h_lifecycle = \<lparr>hl_state = hnd_state r, hl_created_at = hnd_created_at r, hl_accepted_by = map_option from_wire (hnd_accepted_by r),
        hl_accepted_at = hnd_accepted_at r, hl_accepted_by_session = hnd_accepted_by_session r, hl_accepted_by_user = hnd_accepted_by_user r\<rparr>\<rparr>"
    unfolding row_to_handoff_def by (auto simp: and_then_Inr_iff split: if_splits)
  show "hs_id (h_scope h) = hnd_id r" "preference h = row_key r" "ho_from_session (h_origin h) = hnd_from_session r"
    "is_handoff_candidate h cwd f \<longleftrightarrow> admits_owner f (hnd_owner_user r) \<and> fits_cwd cwd r"
    by (simp_all add: h preference_def row_key_def is_handoff_candidate_def fits_cwd_def)
qed

definition best_of :: "handoff option \<Rightarrow> selection_key set \<Rightarrow> bool" where
  "best_of out keys \<longleftrightarrow> (\<forall>k \<in> keys. \<exists>b. out = Some b \<and> k \<le> preference b)"

lemma select_loop_spec:
  assumes "select_loop js cwd f selected rows = Inr out"
  shows "best_of out (row_key ` {r \<in> set rows. admits_owner f (hnd_owner_user r) \<and> fits_cwd cwd r} \<union> preference ` set_option selected)
    \<and> (out = selected \<or> (\<exists>r \<in> set rows. \<exists>h. out = Some h \<and> row_to_handoff js r = Inr h \<and> admits_owner f (hnd_owner_user r) \<and> fits_cwd cwd r))"
  using assms
proof (induction rows arbitrary: selected)
  case Nil
  then show ?case by (auto simp: best_of_def)
next
  case (Cons r rs)
  from Cons.prems obtain h where h: "row_to_handoff js r = Inr h" by (auto simp: and_then_Inr_iff)
  note hd = row_to_handoff_InrD[OF h]
  let ?next = "if is_handoff_candidate h cwd f \<and> (case selected of None \<Rightarrow> True | Some c \<Rightarrow> prefer_handoff h c) then Some h else selected"
  from Cons.prems h have loop: "select_loop js cwd f ?next rs = Inr out" by simp
  note IH = Cons.IH[OF loop]
  have upto: "\<exists>b. ?next = Some b \<and> k \<le> preference b"
    if "(is_handoff_candidate h cwd f \<and> k = row_key r) \<or> (\<exists>b. selected = Some b \<and> k = preference b)" for k
    using that hd(2) by (cases selected) (auto simp: prefer_handoff_def)
  have keep: "\<exists>b. out = Some b \<and> k \<le> preference b" if "\<exists>b. ?next = Some b \<and> k \<le> preference b" for k
    using IH that unfolding best_of_def by (force intro: order_trans)
  have "best_of out (row_key ` {x \<in> set (r # rs). admits_owner f (hnd_owner_user x) \<and> fits_cwd cwd x} \<union> preference ` set_option selected)"
    unfolding best_of_def
  proof
    fix k assume "k \<in> row_key ` {x \<in> set (r # rs). admits_owner f (hnd_owner_user x) \<and> fits_cwd cwd x} \<union> preference ` set_option selected"
    then consider "k \<in> row_key ` {x \<in> set rs. admits_owner f (hnd_owner_user x) \<and> fits_cwd cwd x}"
      | "(is_handoff_candidate h cwd f \<and> k = row_key r) \<or> (\<exists>b. selected = Some b \<and> k = preference b)"
      unfolding hd(4) by (cases selected) auto
    then show "\<exists>b. out = Some b \<and> k \<le> preference b"
    proof cases
      case 1 with IH show ?thesis by (simp add: best_of_def)
    next
      case 2 with upto keep show ?thesis by blast
    qed
  qed
  moreover have "out = selected \<or> (\<exists>x \<in> set (r # rs). \<exists>h. out = Some h \<and> row_to_handoff js x = Inr h \<and> admits_owner f (hnd_owner_user x) \<and> fits_cwd cwd x)"
    using IH h hd(4)[of cwd f] by (cases "?next = selected") (auto split: if_splits)
  ultimately show ?case ..
qed

text \<open>
  The baton delivered to a starting session is the best one it may have: it is open, in the project,
  admitted by the caller's owner filter, not of a session still in use, and manual or from the starting
  directory or one above it; and every other such baton has a smaller selection key, so a manual one beats an automatic one,
  then the newest wins. Nothing is selected only when there is no such baton.
\<close>

theorem startup_selection_best:
  assumes "startup_handoff js s w p cwd f busy = Inr out"
  shows "case out of
      None \<Rightarrow> \<forall>r \<in> set (handoffs s). \<not> (selectable s w p f (Some busy) r \<and> fits_cwd cwd r)
    | Some h \<Rightarrow> \<exists>r \<in> set (handoffs s). row_to_handoff js r = Inr h \<and> selectable s w p f (Some busy) r \<and> fits_cwd cwd r
        \<and> (\<forall>r' \<in> set (handoffs s). selectable s w p f (Some busy) r' \<and> fits_cwd cwd r' \<longrightarrow> row_key r' \<le> row_key r)"
proof -
  let ?rows = "sort_key (\<lambda>r. - hnd_created_at r) (filter (selectable s w p f (Some busy)) (handoffs s))"
  have rows: "x \<in> set ?rows \<longleftrightarrow> x \<in> set (handoffs s) \<and> selectable s w p f (Some busy) x" for x by simp
  have adm: "selectable s w p f (Some busy) x \<Longrightarrow> admits_owner f (hnd_owner_user x)" for x by (simp add: selectable_def)
  from assms have loop: "select_loop js cwd f None ?rows = Inr out" by (simp add: startup_handoff_def open_handoff_for_def)
  note spec = select_loop_spec[OF loop]
  have best: "\<exists>b. out = Some b \<and> row_key x \<le> preference b"
    if "x \<in> set (handoffs s)" "selectable s w p f (Some busy) x" "fits_cwd cwd x" for x
  proof -
    have "row_key x \<in> row_key ` {r \<in> set ?rows. admits_owner f (hnd_owner_user r) \<and> fits_cwd cwd r}" using that adm rows by blast
    with spec show ?thesis unfolding best_of_def by blast
  qed
  show ?thesis
  proof (cases out)
    case None
    with best show ?thesis by auto
  next
    case (Some h)
    with spec obtain r where "r \<in> set ?rows" "row_to_handoff js r = Inr h" "fits_cwd cwd r" by auto
    with Some best row_to_handoff_InrD(2)[of js r h] show ?thesis unfolding rows by auto
  qed
qed

definition demo_handoff :: handoff where
  "demo_handoff = projr (row_to_handoff demo_js demo_row)"

lemma demo_row_reads: "row_to_handoff demo_js demo_row = Inr demo_handoff"
  by (simp add: demo_handoff_def row_to_handoff_def parse_list_def demo_js_def demo_row_def qualified_owner_def)

lemma demo_startup: "startup_handoff demo_js demo_relay 1 2 (Some (lit ''/repo'')) OwnerAny 0 = Inr (Some demo_handoff)"
proof -
  have sel: "selectable demo_relay 1 2 OwnerAny (Some 0) demo_row"
    by (simp add: selectable_def demo_row_def session_busy_def demo_relay_def demo_begun_def demo_scope_def empty_store_def)
  have "is_handoff_candidate demo_handoff (Some (lit ''/repo'')) OwnerAny"
    using row_to_handoff_InrD(4)[OF demo_row_reads, of "Some (lit ''/repo'')" OwnerAny] by (simp add: fits_cwd_def demo_row_def)
  moreover have "handoffs demo_relay = [demo_row]" by (simp add: demo_relay_def)
  ultimately show ?thesis using sel by (simp add: startup_handoff_def open_handoff_for_def demo_row_reads)
qed

theorem startup_selection_best_witness:
  "\<exists>r. r \<in> set (handoffs demo_relay) \<and> row_to_handoff demo_js r = Inr demo_handoff
     \<and> selectable demo_relay 1 2 OwnerAny (Some 0) r \<and> fits_cwd (Some (lit ''/repo'')) r"
  using startup_selection_best[OF demo_startup] by auto

text \<open>
  C30. A selected baton can be claimed: the baton the startup selection returns is accepted by a claim made in
  the same state with the same cutoff and owner filter, by any operator the filter stands for and any open
  receiver of the project that holds no other baton.
\<close>

theorem selected_baton_claimable:
  assumes "startup_handoff js s (ha_workspace a) (ha_project a) cwd (ha_owner_filter a) busy = Inr (Some h)"
    and "hs_id (h_scope h) = ha_handoff a"
    and "batons_ok (handoffs s)"
    and "qualified_owner (ha_user a)" and "operator_matches (ha_owner_filter a) (ha_user a) = Inr ()"
    and "\<And>sid. ha_session a = Some sid \<Longrightarrow> \<exists>r. find_session s sid = Some r \<and> ses_workspace r = ha_workspace a
        \<and> ses_project r = ha_project a \<and> ses_agent_kind r = as_str (ha_agent a) \<and> ses_ended_at r = None
        \<and> filter (held_by sid) (handoffs s) = []"
  shows "\<exists>s'. accept_handoff_in_transaction now s a (Some busy) = Inr (s', True)"
proof -
  from startup_selection_best[OF assms(1)] obtain r where r: "r \<in> set (handoffs s)" "row_to_handoff js r = Inr h"
    "selectable s (ha_workspace a) (ha_project a) (ha_owner_filter a) (Some busy) r" by auto
  from row_to_handoff_InrD(1)[OF r(2)] assms(2) have id: "hnd_id r = ha_handoff a" by simp
  with r(3) have t: "open_target a r" "admits_owner (ha_owner_filter a) (hnd_owner_user r)" "\<not> session_busy s busy (hnd_from_session r)"
    by (simp_all add: open_target_def selectable_def)
  have target: "find (open_target a) (handoffs s) = Some r"
    using r(1) t(1) by (rule find_only) (use assms(3) r(1) id in \<open>auto simp: open_target_def batons_ok_def dest: unique_onD\<close>)
  have rec: "receive_session s a = Inr (Some s)"
  proof (cases "ha_session a")
    case (Some sid)
    with assms(6)[OF Some] show ?thesis by (auto simp: receive_session_def filter_empty_conv)
  qed (simp add: receive_session_def)
  obtain s' b where c: "claim_handoff now s a (Some busy) r = (s', b)" by fastforce
  moreover have b
  proof (rule ccontr)
    assume "\<not> b"
    with c have "\<not> claimable_by a r" using claim_handoff_refused(2)[of now s a "Some busy" r s'] r(1) by simp
    with t show False by (simp add: claimable_by_def)
  qed
  moreover have "validate_identity_storage_key (ha_user a) l = Inr ()" for l using assms(4) by (simp add: validate_identity_Inr)
  ultimately show ?thesis using assms(5) rec target t(3) by (simp add: accept_handoff_in_transaction_def)
qed

theorem selected_baton_claimable_witness:
  "\<exists>s'. accept_handoff_in_transaction 10 demo_relay (demo_acceptance (Some 5)) (Some 0) = Inr (s', True)"
proof (rule selected_baton_claimable)
  show "startup_handoff demo_js demo_relay (ha_workspace (demo_acceptance (Some 5))) (ha_project (demo_acceptance (Some 5)))
      (Some (lit ''/repo'')) (ha_owner_filter (demo_acceptance (Some 5))) 0 = Inr (Some demo_handoff)"
    using demo_startup by (simp add: demo_acceptance_def)
  show "hs_id (h_scope demo_handoff) = ha_handoff (demo_acceptance (Some 5))"
    using row_to_handoff_InrD(1)[OF demo_row_reads] by (simp add: demo_acceptance_def demo_row_def)
  show "batons_ok (handoffs demo_relay)" by (rule demo_relay_ok)
qed (simp_all add: demo_acceptance_def qualified_owner_def operator_matches_def demo_relay_def demo_begun_def demo_scope_def
    empty_store_def new_session_row_def demo_session_def held_by_def demo_row_def)

end
