(* ===== verification/Startup.thy ===== *)
theory Startup
  imports HandoffSystem WorkstreamLink
begin

text \<open>
  The startup transaction (\<^verbatim>\<open>WriteCmd::AcceptStartupContext\<close> of \<^verbatim>\<open>crates/ai-memory-store/src/writer.rs\<close>): one
  SessionStart response carries the managed synchronization packet and a handoff, and both are claimed in
  one transaction, after the receiving session was begun. A return before the commit rolls everything back. Shown: it
  is all or nothing, and what the startup selection offered is delivered when the run still owes its packet.
\<close>

record startup_context_acceptance =
  sc_handoff_accepted :: bool
  sc_managed_context_accepted :: bool

definition no_startup_context :: startup_context_acceptance where
  "no_startup_context = \<lparr>sc_handoff_accepted = False, sc_managed_context_accepted = False\<rparr>"

definition matching_acceptance :: "new_session \<Rightarrow> handoff_acceptance option \<Rightarrow> bool" where
  "matching_acceptance session accept =
     (case accept of
        None \<Rightarrow> False
      | Some a \<Rightarrow> ha_session a = Some (ns_id session) \<and> ha_workspace a = ns_workspace session
          \<and> ha_project a = ns_project session \<and> ha_agent a = ns_agent session)"

definition begin_receiver ::
  "int \<Rightarrow> store \<Rightarrow> new_session option \<Rightarrow> handoff_acceptance option \<Rightarrow> store store_result" where
  "begin_receiver now s receiver accept =
     (case receiver of
        None \<Rightarrow> Inr s
      | Some session \<Rightarrow>
          if \<not> matching_acceptance session accept
          then Inl (InvalidState ''startup receiver session does not match its handoff claim'')
          else begin_session_in_transaction now s session)"

definition accept_startup_context ::
  "int \<Rightarrow> store \<Rightarrow> handoff_acceptance option \<Rightarrow> uuid option \<Rightarrow> new_session option \<Rightarrow> int
     \<Rightarrow> (store \<times> startup_context_acceptance) store_result" where
  "accept_startup_context now s accept managed_run receiver busy_since =
     and_then (begin_receiver now s receiver accept) (\<lambda>s1.
       let (s2, managed) = (case managed_run of Some rid \<Rightarrow> claim_context_in_transaction now s1 rid | None \<Rightarrow> (s1, False)) in
       if managed_run \<noteq> None \<and> \<not> managed then Inr (s, no_startup_context)
       else and_then (case accept of
                        Some a \<Rightarrow> accept_handoff_in_transaction now s2 a (Some busy_since)
                      | None \<Rightarrow> Inr (s2, False)) (\<lambda>(s3, accepted).
              Inr (s3, \<lparr>sc_handoff_accepted = accepted, sc_managed_context_accepted = managed\<rparr>)))"

section \<open>All or nothing\<close>

lemma begin_in_transaction_frame:
  assumes "begin_session_in_transaction now s session = Inr s'"
  shows "managed_runs s' = managed_runs s" "handoffs s' = handoffs s" "native_sessions s' = native_sessions s"
proof -
  from assms have "begin_session_row now s session = Inr s'"
    by (auto simp: begin_session_in_transaction_def and_then_Inr_iff split: if_splits)
  then obtain row where "insert_session_sql s row True = Inr s'"
    by (auto simp: begin_session_row_def and_then_Inr_iff split: if_splits)
  then show "managed_runs s' = managed_runs s" "handoffs s' = handoffs s" "native_sessions s' = native_sessions s"
    by (auto elim!: insert_session_cases)
qed

lemma begin_receiver_frame:
  assumes "begin_receiver now s receiver accept = Inr s'"
  shows "managed_runs s' = managed_runs s" "handoffs s' = handoffs s" "native_sessions s' = native_sessions s"
  using assms by (auto simp: begin_receiver_def split: option.splits if_splits dest: begin_in_transaction_frame)

lemma claim_context_handoffs:
  assumes "claim_context_in_transaction now s rid = (s', ok)"
  shows "handoffs s' = handoffs s" "sessions s' = sessions s" "observations s' = observations s"
  using assms unfolding claim_context_in_transaction_def by (auto elim!: accept_context_cases)

lemma accept_handoff_runs:
  assumes "accept_handoff_in_transaction now s a busy = Inr (s', b)"
  shows "managed_runs s' = managed_runs s"
proof -
  have claim: "managed_runs (fst (claim_handoff now t a busy target)) = managed_runs t" for t target
    by (simp add: claim_handoff_def expire_superseded_eq Let_def)
  have recv: "managed_runs t = managed_runs s" if "receive_session s a = Inr (Some t)" for t
    using that by (auto simp: receive_session_def split: option.splits if_splits)
  from assms obtain received where "receive_session s a = Inr received"
    and "(case received of None \<Rightarrow> Inr (s, False)
       | Some s1 \<Rightarrow> (case find (open_target a) (handoffs s1) of None \<Rightarrow> Inr (s1, False)
            | Some target \<Rightarrow>
                if session_busy s1 (case busy of None \<Rightarrow> i64_max | Some t \<Rightarrow> t) (hnd_from_session target)
                then Inr (s1, False) else Inr (claim_handoff now s1 a busy target))) = (Inr (s', b) :: (store \<times> bool) store_result)"
    unfolding accept_handoff_in_transaction_def and_then_Inr_iff by blast
  then consider "received = None" "s' = s" | t where "received = Some t" "s' = t \<or> (\<exists>target. s' = fst (claim_handoff now t a busy target))"
    by (auto split: option.splits if_splits) (metis fst_conv)+
  then show ?thesis
  proof cases
    case (2 t)
    then have "managed_runs s' = managed_runs t" using claim by auto
    with 2 recv[of t] \<open>receive_session s a = Inr received\<close> show ?thesis by simp
  qed simp
qed

lemma accept_startup_cases:
  assumes "accept_startup_context now s accept managed_run receiver busy = Inr (s', r)"
  obtains (nothing) rid s1 where "managed_run = Some rid" "begin_receiver now s receiver accept = Inr s1"
      "claim_context_in_transaction now s1 rid = (s1, False)" "s' = s" "r = no_startup_context"
  | (claimed) s1 s2 managed where "begin_receiver now s receiver accept = Inr s1"
      "(case managed_run of Some rid \<Rightarrow> claim_context_in_transaction now s1 rid | None \<Rightarrow> (s1, False)) = (s2, managed)"
      "managed = (managed_run \<noteq> None)" "sc_managed_context_accepted r = managed"
      "(case accept of Some a \<Rightarrow> accept_handoff_in_transaction now s2 a (Some busy) | None \<Rightarrow> Inr (s2, False)) = Inr (s', sc_handoff_accepted r)"
proof -
  from assms obtain s1 where s1: "begin_receiver now s receiver accept = Inr s1"
    and rest: "(let (s2, managed) = (case managed_run of Some rid \<Rightarrow> claim_context_in_transaction now s1 rid | None \<Rightarrow> (s1, False)) in
       if managed_run \<noteq> None \<and> \<not> managed then Inr (s, no_startup_context)
       else and_then (case accept of Some a \<Rightarrow> accept_handoff_in_transaction now s2 a (Some busy) | None \<Rightarrow> Inr (s2, False)) (\<lambda>(s3, accepted).
              Inr (s3, \<lparr>sc_handoff_accepted = accepted, sc_managed_context_accepted = managed\<rparr>))) = Inr (s', r)"
    unfolding accept_startup_context_def and_then_Inr_iff by blast
  obtain s2 managed where c: "(case managed_run of Some rid \<Rightarrow> claim_context_in_transaction now s1 rid | None \<Rightarrow> (s1, False)) = (s2, managed)"
    by fastforce
  show thesis
  proof (cases "managed_run \<noteq> None \<and> \<not> managed")
    case True
    then obtain rid where rid: "managed_run = Some rid" "\<not> managed" by blast
    with c have "claim_context_in_transaction now s1 rid = (s2, False)" by simp
    then have "s2 = s1" unfolding claim_context_in_transaction_def by (auto elim!: accept_context_cases)
    with \<open>claim_context_in_transaction now s1 rid = (s2, False)\<close> have no: "claim_context_in_transaction now s1 rid = (s1, False)" by simp
    from rest have "s' = s" "r = no_startup_context" unfolding Let_def c prod.case if_P[OF True] by simp_all
    with rid(1) s1 no show thesis by (rule nothing)
  next
    case False
    from rest have "and_then (case accept of Some a \<Rightarrow> accept_handoff_in_transaction now s2 a (Some busy) | None \<Rightarrow> Inr (s2, False)) (\<lambda>(s3, accepted).
              Inr (s3, \<lparr>sc_handoff_accepted = accepted, sc_managed_context_accepted = managed\<rparr>)) = Inr (s', r)"
      unfolding Let_def c prod.case if_not_P[OF False] .
    then obtain b where "(case accept of Some a \<Rightarrow> accept_handoff_in_transaction now s2 a (Some busy) | None \<Rightarrow> Inr (s2, False)) = Inr (s', b)"
      "r = \<lparr>sc_handoff_accepted = b, sc_managed_context_accepted = managed\<rparr>"
      by (auto simp: and_then_Inr_iff split: prod.splits)
    moreover have "managed = (managed_run \<noteq> None)" using False c by (cases managed_run) auto
    ultimately show thesis using s1 c by (intro claimed[of s1 s2 managed]) simp_all
  qed
qed

text \<open>
  C32. One startup response is claimed as a whole. When the managed packet was asked for and could not be
  claimed, nothing happened: the store is as it was, the receiver was not begun and the handoff is still open. A
  handoff is accepted only together with the packet that was asked for, and an accepted handoff is then
  recorded as accepted while a claimed packet is recorded as delivered.
\<close>

theorem startup_all_or_nothing:
  assumes "accept_startup_context now s accept managed_run receiver busy = Inr (s', r)"
  shows "(managed_run \<noteq> None \<and> \<not> sc_managed_context_accepted r \<longrightarrow> s' = s \<and> \<not> sc_handoff_accepted r)
    \<and> (\<forall>rid. managed_run = Some rid \<and> sc_managed_context_accepted r \<longrightarrow>
         (\<exists>run \<in> set (managed_runs s'). run_id run = rid \<and> run_context_delivered run)
         \<and> (\<exists>run \<in> set (managed_runs s). run_id run = rid \<and> \<not> run_context_delivered run))
    \<and> (\<forall>a. accept = Some a \<and> sc_handoff_accepted r \<longrightarrow>
         (\<exists>h \<in> set (handoffs s). claimable_by a h) \<and> (\<exists>h \<in> set (handoffs s'). hnd_id h = ha_handoff a \<and> is_accepted h))"
  using assms
proof (cases rule: accept_startup_cases)
  case (nothing rid s1)
  then show ?thesis by (simp add: no_startup_context_def)
next
  case (claimed s1 s2 managed)
  have runs: "managed_runs s' = managed_runs s2"
    using claimed(5) by (auto split: option.splits dest: accept_handoff_runs)
  have packet: "(\<exists>run \<in> set (managed_runs s'). run_id run = rid \<and> run_context_delivered run)
      \<and> (\<exists>run \<in> set (managed_runs s). run_id run = rid \<and> \<not> run_context_delivered run)"
    if "managed_run = Some rid" for rid
  proof -
    from claimed(2,3) that have "accept_context_in_transaction now s1 rid True = (s2, True)"
      by (simp add: claim_context_in_transaction_def)
    then obtain run where run: "run \<in> set (managed_runs s1)" "run_id run = rid" "\<not> run_context_delivered run"
      "managed_runs s2 = delivered_runs now rid (managed_runs s1)" by (auto elim!: accept_context_cases)
    let ?f = "\<lambda>r. r\<lparr>run_context_delivered := True, run_lease_expires_at := now + lease_micros\<rparr>"
    have "?f run \<in> set (managed_runs s')"
      using in_update_where[OF run(1), of "\<lambda>r. run_id r = rid" ?f] run(2) by (simp add: runs run(4) delivered_runs_def)
    then have "\<exists>run \<in> set (managed_runs s'). run_id run = rid \<and> run_context_delivered run"
      by (rule bexI[rotated]) (simp add: run(2))
    with run begin_receiver_frame(1)[OF claimed(1)] show ?thesis by auto
  qed
  have baton: "(\<exists>h \<in> set (handoffs s). claimable_by a h) \<and> (\<exists>h \<in> set (handoffs s'). hnd_id h = ha_handoff a \<and> is_accepted h)"
    if "accept = Some a" "sc_handoff_accepted r" for a
  proof -
    have h2: "handoffs s2 = handoffs s"
      using claimed(2) begin_receiver_frame(2)[OF claimed(1)] by (auto split: option.splits dest: claim_context_handoffs(1))
    from claimed(5) that have "accept_handoff_in_transaction now s2 a (Some busy) = Inr (s', True)" by simp
    then show ?thesis
    proof (cases rule: accept_cases)
      case (claimed t target)
      then obtain h where h: "h \<in> set (handoffs s)" "claimable_by a h" using h2 by auto
      have "accepted_row now a h \<in> set (claimed_rows now a (handoffs s))"
        using in_update_where[OF h(1), of "claimable_by a" "accepted_row now a"] h(2) by (simp add: claimed_rows_def)
      then have "accepted_row now a h \<in> set (handoffs s')"
        unfolding claimed(7) h2 expire_rows_def by (auto dest: in_update_where[where P = "swept_by t a target (Some busy) (claimed_rows now a (handoffs s))"] simp: swept_by_def)
      moreover have "hnd_id h = ha_handoff a" using h(2) by (simp add: claimable_by_def open_target_def)
      ultimately show ?thesis using h by (intro conjI bexI[of _ h] bexI[of _ "accepted_row now a h"]) simp_all
    qed simp
  qed
  show ?thesis using claimed(3,4) packet baton by auto
qed

definition demo_desk :: store where
  "demo_desk = (fst demo_prepared)\<lparr>sessions := [new_session_row 3 demo_session], handoffs := [demo_row]\<rparr>"

lemma demo_desk_run: "exists_row (\<lambda>r. run_id r = 20 \<and> run_state r = RunActive \<and> \<not> run_context_delivered r) (managed_runs demo_desk)"
proof -
  have "list_ex (\<lambda>r. run_id r = 20 \<and> run_state r = RunActive \<and> \<not> run_context_delivered r) (managed_runs (fst demo_prepared))"
    by code_simp
  then show ?thesis by (simp add: demo_desk_def list_ex_iff)
qed

section \<open>Delivery\<close>

lemma startup_handoff_cong:
  assumes "handoffs t = handoffs s" "sessions t = sessions s" "observations t = observations s"
  shows "startup_handoff js t w p cwd f busy = startup_handoff js s w p cwd f busy"
proof -
  have "selectable t w p f (Some busy) = selectable s w p f (Some busy)"
    by (intro ext) (simp add: selectable_def session_busy_def assms)
  then show ?thesis by (simp add: startup_handoff_def open_handoff_for_def assms)
qed

lemma claim_context_done:
  assumes "exists_row (\<lambda>r. run_id r = rid \<and> run_state r = RunActive \<and> \<not> run_context_delivered r) (managed_runs s)"
  obtains s' where "claim_context_in_transaction now s rid = (s', True)"
proof -
  obtain s' ok where c: "accept_context_in_transaction now s rid True = (s', ok)" by fastforce
  then have ok using assms by (cases rule: accept_context_cases) auto
  with c that show thesis by (simp add: claim_context_in_transaction_def)
qed

text \<open>
  A startup delivers what it was offered: with a run that still owes its packet, a receiver that is
  registered and free, and the handoff the startup selection returned in this state, one call accepts both.
\<close>

theorem startup_delivers:
  assumes "startup_handoff js s (ha_workspace a) (ha_project a) cwd (ha_owner_filter a) busy = Inr (Some h)"
    and "hs_id (h_scope h) = ha_handoff a" and "batons_ok (handoffs s)"
    and "qualified_owner (ha_user a)" and "operator_matches (ha_owner_filter a) (ha_user a) = Inr ()"
    and "matching_acceptance session (Some a)" and "begin_session_in_transaction now s session = Inr s"
    and "find_session s (ns_id session) = Some r" and "ses_ended_at r = None" and "filter (held_by (ns_id session)) (handoffs s) = []"
    and "exists_row (\<lambda>r. run_id r = rid \<and> run_state r = RunActive \<and> \<not> run_context_delivered r) (managed_runs s)"
    and "unique_on (\<lambda>_. True) ses_id (sessions s)"
  shows "\<exists>s'. accept_startup_context now s (Some a) (Some rid) (Some session) busy
     = Inr (s', \<lparr>sc_handoff_accepted = True, sc_managed_context_accepted = True\<rparr>)"
proof -
  have m: "ha_session a = Some (ns_id session)" "ha_workspace a = ns_workspace session" "ha_project a = ns_project session"
    "ha_agent a = ns_agent session" using assms(6) by (simp_all add: matching_acceptance_def)
  from assms(7) obtain x where x: "x \<in> set (sessions s)" "ses_id x = ns_id session" "ses_workspace x = ns_workspace session"
    "ses_project x = ns_project session" "ses_agent_kind x = as_str (ns_agent session)"
    by (auto simp: begin_session_in_transaction_def and_then_Inr_iff split: if_splits)
  have "x = r" using find_SomeD[OF assms(8)] x(1,2) by (intro unique_onD[OF assms(12)]) simp_all
  obtain s2 where s2: "claim_context_in_transaction now s rid = (s2, True)" using claim_context_done[OF assms(11)] .
  note f = claim_context_handoffs[OF s2]
  have "\<exists>s'. accept_handoff_in_transaction now s2 a (Some busy) = Inr (s', True)"
  proof (rule selected_baton_claimable[OF _ assms(2) _ assms(4,5)])
    show "startup_handoff js s2 (ha_workspace a) (ha_project a) cwd (ha_owner_filter a) busy = Inr (Some h)"
      using assms(1) startup_handoff_cong[OF f] by simp
    show "batons_ok (handoffs s2)" using assms(3) f(1) by simp
    fix sid assume "ha_session a = Some sid"
    then show "\<exists>r. find_session s2 sid = Some r \<and> ses_workspace r = ha_workspace a \<and> ses_project r = ha_project a
        \<and> ses_agent_kind r = as_str (ha_agent a) \<and> ses_ended_at r = None \<and> filter (held_by sid) (handoffs s2) = []"
      using assms(8-10) x(3-5) \<open>x = r\<close> m f by simp
  qed
  then obtain s' where "accept_handoff_in_transaction now s2 a (Some busy) = Inr (s', True)" ..
  then have "accept_startup_context now s (Some a) (Some rid) (Some session) busy
     = Inr (s', \<lparr>sc_handoff_accepted = True, sc_managed_context_accepted = True\<rparr>)"
    using assms(6,7) s2 by (simp add: accept_startup_context_def begin_receiver_def)
  then show ?thesis ..
qed

lemma demo_desk_simps:
  "handoffs demo_desk = [demo_row]" "sessions demo_desk = [new_session_row 3 demo_session]" "observations demo_desk = []"
  "purged_sessions demo_desk = []" "projects demo_desk = projects demo_store"
proof -
  have "observations (fst demo_prepared) = []" by code_simp
  moreover have "purged_sessions (fst demo_prepared) = []" by code_simp
  moreover have "projects (fst demo_prepared) = projects demo_store" by code_simp
  ultimately show "handoffs demo_desk = [demo_row]" "sessions demo_desk = [new_session_row 3 demo_session]" "observations demo_desk = []"
    "purged_sessions demo_desk = []" "projects demo_desk = projects demo_store"
    by (simp_all add: demo_desk_def)
qed

lemma demo_desk_registered: "begin_session_in_transaction 3000 demo_desk demo_session = Inr demo_desk"
  by (simp add: begin_session_in_transaction_def begin_session_row_def insert_session_sql_def session_is_purged_def pairing_ok_def
      validate_identity_storage_key_def new_session_row_def demo_session_def demo_store_def demo_desk_simps)

theorem startup_delivers_witness:
  "\<exists>s'. accept_startup_context 3000 demo_desk (Some (demo_acceptance (Some 5))) (Some 20) (Some demo_session) 0
     = Inr (s', \<lparr>sc_handoff_accepted = True, sc_managed_context_accepted = True\<rparr>)"
proof (rule startup_delivers[of demo_js])
  have "handoffs demo_desk = handoffs demo_relay" "sessions demo_desk = sessions demo_relay" "observations demo_desk = observations demo_relay"
    by (simp_all add: demo_desk_simps demo_relay_def demo_begun_def demo_scope_def empty_store_def)
  from startup_handoff_cong[OF this] demo_startup
  show "startup_handoff demo_js demo_desk (ha_workspace (demo_acceptance (Some 5))) (ha_project (demo_acceptance (Some 5)))
      (Some (lit ''/repo'')) (ha_owner_filter (demo_acceptance (Some 5))) 0 = Inr (Some demo_handoff)"
    by (simp add: demo_acceptance_def)
  show "hs_id (h_scope demo_handoff) = ha_handoff (demo_acceptance (Some 5))"
    using row_to_handoff_InrD(1)[OF demo_row_reads] by (simp add: demo_acceptance_def demo_row_def)
  show "batons_ok (handoffs demo_desk)" using demo_relay_ok by (simp add: demo_relay_def demo_desk_simps)
  show "exists_row (\<lambda>r. run_id r = 20 \<and> run_state r = RunActive \<and> \<not> run_context_delivered r) (managed_runs demo_desk)"
    by (rule demo_desk_run)
  show "begin_session_in_transaction 3000 demo_desk demo_session = Inr demo_desk" by (rule demo_desk_registered)
  show "find_session demo_desk (ns_id demo_session) = Some (new_session_row 3 demo_session)"
    by (simp add: demo_desk_simps new_session_row_def)
qed (simp_all add: demo_acceptance_def qualified_owner_def operator_matches_def matching_acceptance_def demo_session_def
    new_session_row_def held_by_def demo_desk_simps demo_row_def unique_on_def)

theorem startup_all_or_nothing_witness:
  "\<exists>s'. accept_startup_context 3000 demo_desk (Some (demo_acceptance (Some 5))) (Some 21) (Some demo_session) 0 = Inr (s', no_startup_context)
     \<and> s' = demo_desk"
proof -
  have "\<not> list_ex (\<lambda>r. run_id r = 21) (managed_runs (fst demo_prepared))" by code_simp
  then have "find (\<lambda>r. run_id r = 21 \<and> run_state r = RunActive \<and> (\<not> True \<or> \<not> run_context_delivered r)) (managed_runs demo_desk) = None"
    by (auto simp: find_None_iff list_ex_iff demo_desk_def)
  then have "claim_context_in_transaction 3000 demo_desk 21 = (demo_desk, False)"
    by (simp add: claim_context_in_transaction_def accept_context_in_transaction_def)
  with demo_desk_registered obtain s' where r: "accept_startup_context 3000 demo_desk (Some (demo_acceptance (Some 5))) (Some 21) (Some demo_session) 0
      = Inr (s', no_startup_context)"
    by (simp add: accept_startup_context_def begin_receiver_def matching_acceptance_def demo_acceptance_def demo_session_def)
  with startup_all_or_nothing[OF r] show ?thesis by (auto simp: no_startup_context_def)
qed

end
