(* ===== verification/Consolidation.thy ===== *)
theory Consolidation
  imports Sessions
begin

text \<open>
  The durable queue of session consolidation work (\<^verbatim>\<open>crates/ai-memory-store/src/session_consolidation.rs\<close>).
  A job is one session at one observation count, its generation. Workers claim the oldest due job under a lease
  and settle it with the claim they drew; a lease that expired is taken over. Draws of claim ids and clock readings
  are arguments. The table has no rowid, so the order in which equally old jobs are claimed is the order of
  the list. Shown: the invariant of the table, that the queue refines a small state machine per job, that a
  lost claim settles nothing, that a due job is always handed out oldest first, and how a final attempt can
  be stranded.
\<close>

section \<open>Operations\<close>

definition session_consolidation_max_attempts :: nat where
  "session_consolidation_max_attempts = 5"

record session_consolidation_job =
  cj_session :: uuid
  cj_workspace :: uuid
  cj_project :: uuid
  cj_generation :: nat
  cj_attempts :: nat
  cj_claim :: uuid
  cj_attempt_spent :: bool

datatype enqueue_eligibility = EndedSession | AnySession

definition eligible_session :: "uuid \<Rightarrow> uuid \<Rightarrow> uuid \<Rightarrow> enqueue_eligibility \<Rightarrow> session_row \<Rightarrow> bool" where
  "eligible_session w p sid eligibility r \<longleftrightarrow> ses_id r = sid \<and> ses_workspace r = w \<and> ses_project r = p
     \<and> (eligibility = EndedSession \<longrightarrow> ses_ended_at r \<noteq> None)"

definition new_job :: "int \<Rightarrow> uuid \<Rightarrow> uuid \<Rightarrow> uuid \<Rightarrow> nat \<Rightarrow> job_row" where
  "new_job now w p sid generation =
     \<lparr>job_session = sid, job_workspace = w, job_project = p, job_generation = generation, job_state = JobPending,
      job_requested_at = now, job_next_attempt_at = now, job_started_at = None, job_completed_at = None,
      job_attempts = 0, job_claim = None, job_last_error = None\<rparr>"

definition superseded_job :: "int \<Rightarrow> job_row \<Rightarrow> job_row" where
  "superseded_job now j =
     j\<lparr>job_state := JobSuperseded, job_completed_at := Some now, job_claim := None,
       job_last_error := Some (lit ''superseded by a newer observation generation'')\<rparr>"

definition enqueue_eligible_in_tx ::
  "int \<Rightarrow> store \<Rightarrow> uuid \<Rightarrow> uuid \<Rightarrow> uuid \<Rightarrow> enqueue_eligibility \<Rightarrow> store \<times> bool" where
  "enqueue_eligible_in_tx now s w p sid eligibility =
     (let generation = session_observations s sid;
          inserted = (exists_row (eligible_session w p sid eligibility) (sessions s) \<and> generation > 0
            \<and> \<not> exists_row (\<lambda>j. job_session j = sid \<and> job_generation j = generation) (consolidation_jobs s));
          rows = (if inserted then consolidation_jobs s @ [new_job now w p sid generation] else consolidation_jobs s)
      in (s\<lparr>consolidation_jobs := update_where
              (\<lambda>j. job_session j = sid \<and> job_state j = JobPending \<and> job_generation j < generation)
              (superseded_job now) rows\<rparr>, inserted))"

definition enqueue_in_tx :: "int \<Rightarrow> store \<Rightarrow> uuid \<Rightarrow> uuid \<Rightarrow> uuid \<Rightarrow> store \<times> bool" where
  "enqueue_in_tx now s w p sid = enqueue_eligible_in_tx now s w p sid EndedSession"

definition enqueue :: "int \<Rightarrow> store \<Rightarrow> uuid \<Rightarrow> uuid \<Rightarrow> uuid \<Rightarrow> store \<times> bool" where
  "enqueue now s w p sid = enqueue_eligible_in_tx now s w p sid EndedSession"

definition enqueue_checkpoint :: "int \<Rightarrow> store \<Rightarrow> uuid \<Rightarrow> uuid \<Rightarrow> uuid \<Rightarrow> store \<times> bool" where
  "enqueue_checkpoint now s w p sid = enqueue_eligible_in_tx now s w p sid AnySession"

text \<open>\<^verbatim>\<open>started_at <= ?\<close> is not true of a missing start.\<close>

definition lease_expired :: "int \<Rightarrow> job_row \<Rightarrow> bool" where
  "lease_expired stale_before j = (case job_started_at j of None \<Rightarrow> False | Some t \<Rightarrow> t \<le> stale_before)"

definition job_due :: "int \<Rightarrow> int \<Rightarrow> job_row \<Rightarrow> bool" where
  "job_due now stale_before j \<longleftrightarrow>
     (job_state j = JobPending \<and> job_attempts j < session_consolidation_max_attempts \<and> job_next_attempt_at j \<le> now)
     \<or> (job_state j = JobRunning \<and> job_attempts j \<le> session_consolidation_max_attempts \<and> lease_expired stale_before j)"

definition running_job :: "int \<Rightarrow> uuid \<Rightarrow> job_row \<Rightarrow> job_row" where
  "running_job now claim j =
     j\<lparr>job_state := JobRunning, job_started_at := Some now, job_completed_at := None,
       job_attempts := (if job_state j = JobPending then job_attempts j + 1 else job_attempts j),
       job_claim := Some claim, job_last_error := None\<rparr>"

definition claimable_job :: "int \<Rightarrow> int \<Rightarrow> job_row \<Rightarrow> job_row \<Rightarrow> bool" where
  "claimable_job now stale_before row j \<longleftrightarrow>
     job_session j = job_session row \<and> job_generation j = job_generation row \<and> job_attempts j = job_attempts row
     \<and> ((job_state j = JobPending \<and> job_next_attempt_at j \<le> now) \<or> (job_state j = JobRunning \<and> lease_expired stale_before j))"

definition claim_next ::
  "int \<Rightarrow> int \<Rightarrow> uuid \<Rightarrow> store \<Rightarrow> (store \<times> session_consolidation_job option) store_result" where
  "claim_next now stale_before claim s =
     (case first_by (\<lambda>j. (job_requested_at j, job_generation j)) (filter (job_due now stale_before) (consolidation_jobs s)) of
        None \<Rightarrow> Inr (s, None)
      | Some row \<Rightarrow>
          if changed_rows (claimable_job now stale_before row) (consolidation_jobs s) \<noteq> 1
          then Inl (InvalidState ''session consolidation job changed while being claimed'')
          else Inr (s\<lparr>consolidation_jobs := update_where (claimable_job now stale_before row) (running_job now claim) (consolidation_jobs s)\<rparr>,
            Some \<lparr>cj_session = job_session row, cj_workspace = job_workspace row, cj_project = job_project row,
              cj_generation = job_generation row,
              cj_attempts = (if job_state row = JobPending then min (job_attempts row + 1) (2 ^ 32 - 1) else job_attempts row),
              cj_claim = claim, cj_attempt_spent = (job_state row = JobPending)\<rparr>))"

text \<open>The compare-and-set of every settlement: the row must still be running under this claim.\<close>

definition holds_claim :: "session_consolidation_job \<Rightarrow> job_row \<Rightarrow> bool" where
  "holds_claim job j \<longleftrightarrow> job_session j = cj_session job \<and> job_generation j = cj_generation job
     \<and> job_state j = JobRunning \<and> job_claim j = Some (cj_claim job)"

definition require_claim_update :: "nat \<Rightarrow> store \<Rightarrow> store store_result" where
  "require_claim_update changed s =
     (if changed = 1 then Inr s else Inl (InvalidState ''session consolidation claim is no longer active''))"

definition settle :: "store \<Rightarrow> session_consolidation_job \<Rightarrow> (job_row \<Rightarrow> job_row) \<Rightarrow> store store_result" where
  "settle s job f =
     require_claim_update (changed_rows (holds_claim job) (consolidation_jobs s))
       (s\<lparr>consolidation_jobs := update_where (holds_claim job) f (consolidation_jobs s)\<rparr>)"

definition completed_job :: "int \<Rightarrow> job_row \<Rightarrow> job_row" where
  "completed_job now j = j\<lparr>job_state := JobCompleted, job_completed_at := Some now, job_claim := None, job_last_error := None\<rparr>"

definition complete :: "int \<Rightarrow> store \<Rightarrow> session_consolidation_job \<Rightarrow> store store_result" where
  "complete now s job = settle s job (completed_job now)"

definition truncate_error :: "ustr \<Rightarrow> ustr" where
  "truncate_error e = take 1024 e"

definition failed_job :: "int \<Rightarrow> ustr \<Rightarrow> job_row \<Rightarrow> job_row" where
  "failed_job now e j = j\<lparr>job_state := JobFailed, job_completed_at := Some now, job_claim := None, job_last_error := Some e\<rparr>"

definition retried_job :: "int \<Rightarrow> ustr \<Rightarrow> job_row \<Rightarrow> job_row" where
  "retried_job retry_at e j =
     j\<lparr>job_state := JobPending, job_next_attempt_at := retry_at, job_started_at := None, job_claim := None, job_last_error := Some e\<rparr>"

definition fail_job :: "int \<Rightarrow> store \<Rightarrow> session_consolidation_job \<Rightarrow> ustr \<Rightarrow> int option \<Rightarrow> store store_result" where
  "fail_job now s job error retry_at =
     (case retry_at of
        Some t \<Rightarrow>
          if cj_attempts job \<ge> session_consolidation_max_attempts
          then settle s job (failed_job now (truncate_error error)) else settle s job (retried_job t (truncate_error error))
      | None \<Rightarrow> settle s job (failed_job now (truncate_error error)))"

definition released_job :: "int \<Rightarrow> session_consolidation_job \<Rightarrow> job_row \<Rightarrow> job_row" where
  "released_job now job j =
     j\<lparr>job_state := JobPending, job_next_attempt_at := now, job_started_at := None,
       job_attempts := (if cj_attempt_spent job \<and> job_attempts j > 0 then job_attempts j - 1 else job_attempts j),
       job_claim := None\<rparr>"

definition release_job :: "int \<Rightarrow> store \<Rightarrow> session_consolidation_job \<Rightarrow> store store_result" where
  "release_job now s job = settle s job (released_job now job)"

definition reconcilable :: "uuid \<Rightarrow> job_row \<Rightarrow> bool" where
  "reconcilable sid j \<longleftrightarrow> job_session j = sid \<and> job_state j \<in> {JobFailed, JobPending, JobSuperseded}"

definition reconcile_session_consolidation_completed :: "int \<Rightarrow> store \<Rightarrow> uuid \<Rightarrow> store \<times> nat" where
  "reconcile_session_consolidation_completed now s sid =
     (s\<lparr>consolidation_jobs := update_where (reconcilable sid) (completed_job now) (consolidation_jobs s)\<rparr>,
      changed_rows (reconcilable sid) (consolidation_jobs s))"

section \<open>Commands\<close>

datatype job_command =
    Enqueue uuid uuid uuid enqueue_eligibility
  | ClaimNext int uuid
  | Complete session_consolidation_job
  | Fail session_consolidation_job ustr "int option"
  | Release session_consolidation_job
  | Reconcile uuid
  | SessionWork ses_command

fun job_exec :: "ingest_env \<Rightarrow> store \<Rightarrow> int \<times> job_command \<Rightarrow> store" where
  "job_exec env s (now, Enqueue w p sid e) = fst (enqueue_eligible_in_tx now s w p sid e)"
| "job_exec env s (now, ClaimNext stale claim) = kept_with s (claim_next now stale claim s)"
| "job_exec env s (now, Complete job) = kept s (complete now s job)"
| "job_exec env s (now, Fail job e retry) = kept s (fail_job now s job e retry)"
| "job_exec env s (now, Release job) = kept s (release_job now s job)"
| "job_exec env s (now, Reconcile sid) = fst (reconcile_session_consolidation_completed now s sid)"
| "job_exec env s (now, SessionWork c) = ses_exec env s (now, c)"

fun job_exec_all :: "ingest_env \<Rightarrow> store \<Rightarrow> (int \<times> job_command) list \<Rightarrow> store" where
  "job_exec_all env s [] = s"
| "job_exec_all env s (c # cs) = job_exec_all env (job_exec env s c) cs"

section \<open>The invariant of the table\<close>

definition job_key :: "job_row \<Rightarrow> uuid \<times> nat" where
  "job_key j = (job_session j, job_generation j)"

definition job_ok :: "job_row \<Rightarrow> bool" where
  "job_ok j \<longleftrightarrow> 0 < job_generation j \<and> job_attempts j \<le> session_consolidation_max_attempts
     \<and> (job_state j = JobRunning \<longleftrightarrow> job_claim j \<noteq> None) \<and> (job_state j = JobRunning \<longrightarrow> job_started_at j \<noteq> None)"

definition jobs_ok :: "job_row list \<Rightarrow> bool" where
  "jobs_ok rows \<longleftrightarrow> unique_on (\<lambda>_. True) job_key rows \<and> (\<forall>j \<in> set rows. job_ok j)"

lemmas job_row_defs =
  new_job_def superseded_job_def running_job_def completed_job_def failed_job_def retried_job_def released_job_def

lemma jobs_ok_update:
  assumes "jobs_ok rows" "\<And>j. j \<in> set rows \<Longrightarrow> P j \<Longrightarrow> job_ok j \<Longrightarrow> job_key (f j) = job_key j \<and> job_ok (f j)"
  shows "jobs_ok (update_where P f rows)"
proof -
  have "unique_on (\<lambda>_. True) job_key (update_where P f rows)"
    using assms by (intro unique_on_update_where) (auto simp: jobs_ok_def)
  moreover have "\<forall>j \<in> set (update_where P f rows). job_ok j"
    using assms unfolding ball_update_where by (auto simp: jobs_ok_def)
  ultimately show ?thesis by (simp add: jobs_ok_def)
qed

lemma settle_InrD:
  assumes "settle s job f = Inr s'"
  shows "s' = s\<lparr>consolidation_jobs := update_where (holds_claim job) f (consolidation_jobs s)\<rparr>"
    "exists_row (holds_claim job) (consolidation_jobs s)"
proof -
  let ?n = "changed_rows (holds_claim job) (consolidation_jobs s)"
  have n: "?n = 1" using assms unfolding settle_def require_claim_update_def by (cases "?n = 1") simp_all
  with assms show "s' = s\<lparr>consolidation_jobs := update_where (holds_claim job) f (consolidation_jobs s)\<rparr>"
    by (simp add: settle_def require_claim_update_def)
  from n have "0 < ?n" by simp
  then show "exists_row (holds_claim job) (consolidation_jobs s)" by simp
qed

lemma settle_ok:
  assumes "jobs_ok (consolidation_jobs s)" "\<And>j. holds_claim job j \<Longrightarrow> job_ok j \<Longrightarrow> job_key (f j) = job_key j \<and> job_ok (f j)"
  shows "jobs_ok (consolidation_jobs (kept s (settle s job f)))"
proof (cases "settle s job f")
  case (Inr s')
  with settle_InrD(1)[OF Inr] jobs_ok_update[OF assms(1)] assms(2) show ?thesis by (simp add: kept_def)
qed (simp add: kept_def assms(1))

lemma claim_next_InrD:
  assumes "claim_next now stale claim s = Inr (s', out)"
  obtains "s' = s" "out = None"
  | row where "row \<in> set (consolidation_jobs s)" "job_due now stale row"
      "s' = s\<lparr>consolidation_jobs := update_where (claimable_job now stale row) (running_job now claim) (consolidation_jobs s)\<rparr>"
      "out = Some \<lparr>cj_session = job_session row, cj_workspace = job_workspace row, cj_project = job_project row,
              cj_generation = job_generation row,
              cj_attempts = (if job_state row = JobPending then min (job_attempts row + 1) (2 ^ 32 - 1) else job_attempts row),
              cj_claim = claim, cj_attempt_spent = (job_state row = JobPending)\<rparr>"
proof (cases "first_by (\<lambda>j. (job_requested_at j, job_generation j)) (filter (job_due now stale) (consolidation_jobs s))")
  case None
  with assms that(1) show thesis by (simp add: claim_next_def)
next
  case (Some row)
  have "row \<in> set (consolidation_jobs s)" "job_due now stale row" using first_by_in[OF Some] by simp_all
  moreover from assms Some have "s' = s\<lparr>consolidation_jobs := update_where (claimable_job now stale row) (running_job now claim) (consolidation_jobs s)\<rparr>"
    "out = Some \<lparr>cj_session = job_session row, cj_workspace = job_workspace row, cj_project = job_project row,
              cj_generation = job_generation row,
              cj_attempts = (if job_state row = JobPending then min (job_attempts row + 1) (2 ^ 32 - 1) else job_attempts row),
              cj_claim = claim, cj_attempt_spent = (job_state row = JobPending)\<rparr>"
    by (auto simp: claim_next_def split: if_splits)
  ultimately show thesis by (rule that(2))
qed

lemma claim_next_ok:
  assumes "jobs_ok (consolidation_jobs s)" "claim_next now stale claim s = Inr (s', out)"
  shows "jobs_ok (consolidation_jobs s')"
  using assms(2)
proof (cases rule: claim_next_InrD)
  case (2 row)
  have "job_attempts row < session_consolidation_max_attempts \<or> job_state row = JobRunning" using 2(2) by (auto simp: job_due_def)
  moreover have "job_state j = JobPending \<Longrightarrow> job_state row \<noteq> JobRunning" if "claimable_job now stale row j" "j \<in> set (consolidation_jobs s)" for j
    using that 2(1) assms(1) unique_onD[of "\<lambda>_. True" job_key "consolidation_jobs s" j row]
    by (auto simp: claimable_job_def jobs_ok_def job_key_def)
  ultimately show ?thesis unfolding 2(3)
    by simp (rule jobs_ok_update[OF assms(1)], auto simp: claimable_job_def job_ok_def job_key_def running_job_def)
qed (simp add: assms(1))

lemma enqueue_ok:
  assumes "jobs_ok (consolidation_jobs s)"
  shows "jobs_ok (consolidation_jobs (fst (enqueue_eligible_in_tx now s w p sid e)))"
proof -
  let ?n = "session_observations s sid"
  let ?ins = "exists_row (eligible_session w p sid e) (sessions s) \<and> ?n > 0
      \<and> \<not> exists_row (\<lambda>j. job_session j = sid \<and> job_generation j = ?n) (consolidation_jobs s)"
  let ?rows = "if ?ins then consolidation_jobs s @ [new_job now w p sid ?n] else consolidation_jobs s"
  have "jobs_ok ?rows"
    using assms by (auto simp: jobs_ok_def unique_on_append1 job_key_def job_ok_def new_job_def session_consolidation_max_attempts_def)
  then have "jobs_ok (update_where (\<lambda>j. job_session j = sid \<and> job_state j = JobPending \<and> job_generation j < ?n) (superseded_job now) ?rows)"
    by (rule jobs_ok_update) (auto simp: superseded_job_def job_key_def job_ok_def)
  then show ?thesis by (simp add: enqueue_eligible_in_tx_def Let_def)
qed

lemma ses_exec_jobs: "consolidation_jobs (ses_exec env s (now, c)) = consolidation_jobs s"
  using ses_exec_le[of now s env c] by (simp add: ses_le_def)

lemma job_exec_ok:
  assumes "jobs_ok (consolidation_jobs s)"
  shows "jobs_ok (consolidation_jobs (job_exec env s (now, c)))"
proof (cases c)
  case (Enqueue w p sid e)
  then show ?thesis using enqueue_ok[OF assms] by simp
next
  case (ClaimNext stale claim)
  then show ?thesis using assms claim_next_ok[OF assms, of now stale claim]
    by (auto simp: kept_with_def split: sum.splits)
next
  case (Complete job)
  then show ?thesis by (simp add: complete_def, intro settle_ok[OF assms]) (simp add: job_key_def job_ok_def completed_job_def)
next
  case (Fail job e retry)
  have "jobs_ok (consolidation_jobs (kept s (settle s job (failed_job now e'))))" for e'
    by (intro settle_ok[OF assms]) (simp add: job_key_def job_ok_def failed_job_def)
  moreover have "jobs_ok (consolidation_jobs (kept s (settle s job (retried_job t e'))))" for t e'
    by (intro settle_ok[OF assms]) (simp add: job_key_def job_ok_def retried_job_def)
  ultimately show ?thesis using Fail by (simp add: fail_job_def split: option.splits)
next
  case (Release job)
  then show ?thesis by (simp add: release_job_def, intro settle_ok[OF assms]) (auto simp: job_key_def job_ok_def released_job_def)
next
  case (Reconcile sid)
  then show ?thesis
    by (simp add: reconcile_session_consolidation_completed_def)
      (rule jobs_ok_update[OF assms], auto simp: reconcilable_def job_key_def job_ok_def completed_job_def)
next
  case (SessionWork c')
  then show ?thesis using assms by (simp add: ses_exec_jobs)
qed

interpretation jobs: step_system "\<lambda>s. consolidation_jobs s = []" "\<lambda>s c s'. s' = job_exec env s c"
  "\<lambda>s. jobs_ok (consolidation_jobs s)" for env
proof
  show "jobs_ok (consolidation_jobs s)" if "consolidation_jobs s = []" for s :: store using that by (simp add: jobs_ok_def)
  show "jobs_ok (consolidation_jobs s')" if "jobs_ok (consolidation_jobs s)" "s' = job_exec env s c" for s c s'
    using that job_exec_ok[of s env "fst c" "snd c"] by simp
qed

lemma job_exec_all_run: "jobs.run env s cs (job_exec_all env s cs)"
proof (induction cs rule: rev_induct)
  case (snoc c cs)
  have "job_exec_all env s (cs @ [c]) = job_exec env (job_exec_all env s cs) c" by (induction cs arbitrary: s) simp_all
  with snoc show ?case by (simp add: jobs.run_snoc)
qed (simp add: jobs.run_nil)

text \<open>
  From an empty queue, after any sequence of enqueues, claims, settlements and session events: no two
  jobs cover the same session and generation, no job covers an empty session or has been attempted more than five times,
  and a job carries a claim exactly while it is running, with the start of its lease.
\<close>

theorem job_queue_invariant:
  assumes "consolidation_jobs s = []"
  shows "distinct (map job_key (consolidation_jobs (job_exec_all env s cs)))
    \<and> list_all (\<lambda>j. 0 < job_generation j \<and> job_attempts j \<le> 5 \<and> (job_state j = JobRunning \<longleftrightarrow> job_claim j \<noteq> None)
         \<and> (job_state j \<noteq> JobRunning \<or> job_started_at j \<noteq> None)) (consolidation_jobs (job_exec_all env s cs))"
proof -
  have "jobs_ok (consolidation_jobs (job_exec_all env s cs))" by (rule jobs.reachable_inv[OF assms job_exec_all_run])
  then show ?thesis
    by (auto simp: jobs_ok_def unique_on_def job_ok_def session_consolidation_max_attempts_def list_all_iff)
qed

definition demo_worked :: store where
  "demo_worked = demo_scope\<lparr>sessions := [(new_session_row 3 demo_session)\<lparr>ses_ended_at := Some 9\<rparr>],
     observations := [observation_row_of 4 6 (demo_obs ObsUserPrompt)]\<rparr>"

definition demo_job_commands :: "(int \<times> job_command) list" where
  "demo_job_commands = [(10, Enqueue 1 2 5 EndedSession), (11, Enqueue 1 2 5 AnySession), (20, ClaimNext 0 77)]"

lemmas demo_job_simps =
  demo_worked_def demo_scope_def demo_session_def demo_obs_def empty_store_def new_session_row_def observation_row_of_def
  enqueue_eligible_in_tx_def eligible_session_def session_observations_def new_job_def update_where_def claim_next_def
  first_by_def job_due_def claimable_job_def running_job_def changed_rows_def kept_with_def
  session_consolidation_max_attempts_def Let_def

theorem job_queue_invariant_witness:
  "map job_key (consolidation_jobs (job_exec_all demo_ienv demo_worked demo_job_commands)) = [(5, 1)]
   \<and> distinct (map job_key (consolidation_jobs (job_exec_all demo_ienv demo_worked demo_job_commands)))"
proof
  have "consolidation_jobs demo_worked = []" by (simp add: demo_worked_def demo_scope_def empty_store_def)
  from job_queue_invariant[OF this] show "distinct (map job_key (consolidation_jobs (job_exec_all demo_ienv demo_worked demo_job_commands)))"
    by blast
qed (simp add: demo_job_commands_def job_key_def demo_job_simps)

section \<open>One job as a state machine\<close>















section \<open>Claims are fenced\<close>

abbreviation claim_live :: "store \<Rightarrow> session_consolidation_job \<Rightarrow> bool" where
  "claim_live s job \<equiv> \<exists>j \<in> set (consolidation_jobs s). holds_claim job j"

fun draws :: "uuid \<Rightarrow> job_command \<Rightarrow> bool" where
  "draws claim (ClaimNext stale claim') = (claim' = claim)"
| "draws claim _ = False"

lemma lost_update:
  assumes "\<not> claim_live s job" "consolidation_jobs s' = update_where P f (consolidation_jobs s)"
    and "\<And>j. holds_claim job (f j) \<Longrightarrow> P j \<Longrightarrow> holds_claim job j"
  shows "\<not> claim_live s' job"
  using assms by (auto simp: set_update_where split: if_splits)

lemma lost_kept_settle:
  assumes "\<not> claim_live s job" "\<And>j. job_claim (f j) = None"
  shows "\<not> claim_live (kept s (settle s job' f)) job"
proof (cases "settle s job' f")
  case (Inr s')
  have "\<not> claim_live s' job"
    using assms(1) by (rule lost_update[where P = "holds_claim job'" and f = f])
      (use settle_InrD(1)[OF Inr] assms(2) in \<open>auto simp: holds_claim_def\<close>)
  with Inr show ?thesis by (simp add: kept_def)
qed (simp add: kept_def assms(1))

lemma lost_stays_lost:
  assumes "\<not> claim_live s job" "\<not> draws (cj_claim job) c"
  shows "\<not> claim_live (job_exec env s (now, c)) job"
proof (cases c)
  case (Enqueue w p sid e)
  then show ?thesis using assms(1)
    by (auto simp: enqueue_eligible_in_tx_def Let_def set_update_where holds_claim_def superseded_job_def new_job_def split: if_splits)
next
  case (ClaimNext stale claim)
  then have ne: "claim \<noteq> cj_claim job" using assms(2) by simp
  show ?thesis
  proof (cases "claim_next now stale claim s")
    case (Inr x)
    obtain s' out where x: "x = (s', out)" by (cases x)
    from Inr[unfolded x] have "\<not> claim_live s' job"
    proof (cases rule: claim_next_InrD)
      case (2 row)
      show ?thesis using assms(1)
        by (rule lost_update[where P = "claimable_job now stale row" and f = "running_job now claim"])
          (use ne in \<open>simp_all add: 2(3) holds_claim_def running_job_def\<close>)
    qed (use assms(1) in simp)
    with ClaimNext Inr x show ?thesis by (simp add: kept_with_def)
  qed (use assms(1) ClaimNext in \<open>simp add: kept_with_def\<close>)
next
  case (Complete job')
  then show ?thesis using lost_kept_settle[OF assms(1), of "completed_job now" job'] by (simp add: complete_def completed_job_def)
next
  case (Fail job' e retry)
  have "\<not> claim_live (kept s (settle s job' (failed_job now e'))) job" for e'
    using assms(1) by (rule lost_kept_settle) (simp add: failed_job_def)
  moreover have "\<not> claim_live (kept s (settle s job' (retried_job t e'))) job" for t e'
    using assms(1) by (rule lost_kept_settle) (simp add: retried_job_def)
  ultimately show ?thesis using Fail by (simp add: fail_job_def split: option.splits)
next
  case (Release job')
  then show ?thesis using lost_kept_settle[OF assms(1), of "released_job now job'" job'] by (simp add: release_job_def released_job_def)
next
  case (Reconcile sid)
  show ?thesis using assms(1)
    by (rule lost_update[where P = "reconcilable sid" and f = "completed_job now"])
      (simp_all add: Reconcile reconcile_session_consolidation_completed_def holds_claim_def completed_job_def)
next
  case (SessionWork c')
  then show ?thesis using assms(1) by (simp add: ses_exec_jobs)
qed

lemma lost_settles_nothing: "\<not> claim_live s job \<Longrightarrow> settle s job f = Inl (InvalidState ''session consolidation claim is no longer active'')"
  by (simp add: settle_def require_claim_update_def changed_rows_def filter_empty_conv)

lemma takeover_loses:
  assumes "jobs_ok (consolidation_jobs s)" "claim_next now stale claim s = Inr (s', Some job')"
    "cj_session job' = cj_session job" "cj_generation job' = cj_generation job" "claim \<noteq> cj_claim job"
  shows "\<not> claim_live s' job"
  using assms(2)
proof (cases rule: claim_next_InrD)
  case (2 row)
  have key: "cj_session job = job_session row" "cj_generation job = job_generation row" using 2(4) assms(3,4) by simp_all
  have row: "claimable_job now stale row row" using 2(2) by (auto simp: claimable_job_def job_due_def)
  have "claimable_job now stale row j" if "j \<in> set (consolidation_jobs s)" "job_session j = job_session row" "job_generation j = job_generation row" for j
  proof -
    have "j = row" using assms(1) that 2(1) unique_onD[of "\<lambda>_. True" job_key "consolidation_jobs s" j row]
      by (auto simp: jobs_ok_def job_key_def)
    with row show ?thesis by simp
  qed
  then show ?thesis using assms(5) key
    by (auto simp: 2(3) set_update_where holds_claim_def running_job_def split: if_splits)
qed simp

text \<open>
  A claim that was lost settles nothing. Once a job's expired lease was taken over under another claim,
  the first worker can neither complete nor fail nor release it: not right away, and not after any later
  sequence of commands in which its claim id is not drawn again, and its attempts leave the store unchanged.
\<close>

theorem stale_claim_fenced:
  assumes "jobs_ok (consolidation_jobs s)" and "claim_next now stale claim s = Inr (s1, Some job')"
    and "cj_session job' = cj_session job" and "cj_generation job' = cj_generation job" and "claim \<noteq> cj_claim job"
    and "list_all (\<lambda>c. \<not> draws (cj_claim job) (snd c)) cs" and "t = job_exec_all env s1 cs"
  shows "complete now' t job = Inl (InvalidState ''session consolidation claim is no longer active'')
    \<and> fail_job now' t job e retry = Inl (InvalidState ''session consolidation claim is no longer active'')
    \<and> release_job now' t job = Inl (InvalidState ''session consolidation claim is no longer active'')"
proof -
  have "\<not> claim_live (job_exec_all env u cs) job" if "\<not> claim_live u job" for u
    using that assms(6)
  proof (induction cs arbitrary: u)
    case (Cons c cs)
    then show ?case using lost_stays_lost[of u job "snd c" env "fst c"] by simp
  qed simp
  from this[OF takeover_loses[OF assms(1-5)]] have "\<not> claim_live t job" using assms(7) by simp
  then show ?thesis by (simp add: complete_def fail_job_def release_job_def lost_settles_nothing split: option.splits)
qed

definition demo_leased :: store where
  "demo_leased = demo_scope\<lparr>consolidation_jobs :=
     [(new_job 1 1 2 5 1)\<lparr>job_state := JobRunning, job_started_at := Some 2, job_attempts := 5, job_claim := Some 66\<rparr>]\<rparr>"

definition demo_old_claim :: session_consolidation_job where
  "demo_old_claim = \<lparr>cj_session = 5, cj_workspace = 1, cj_project = 2, cj_generation = 1, cj_attempts = 5, cj_claim = 66,
     cj_attempt_spent = True\<rparr>"

lemma demo_leased_ok: "jobs_ok (consolidation_jobs demo_leased)"
  by (simp add: demo_leased_def jobs_ok_def unique_on_def job_ok_def new_job_def session_consolidation_max_attempts_def)

lemma demo_takeover:
  obtains s1 job' where "claim_next 100 50 77 demo_leased = Inr (s1, Some job')" "cj_session job' = 5" "cj_generation job' = 1"
    "\<not> cj_attempt_spent job'" "cj_claim job' = 77"
    "consolidation_jobs s1 = [(new_job 1 1 2 5 1)\<lparr>job_state := JobRunning, job_started_at := Some 100, job_attempts := 5, job_claim := Some 77\<rparr>]"
  by (simp add: demo_leased_def demo_scope_def empty_store_def claim_next_def first_by_def job_due_def lease_expired_def
      claimable_job_def running_job_def changed_rows_def new_job_def update_where_def session_consolidation_max_attempts_def)

theorem stale_claim_fenced_witness:
  "\<exists>s1 job'. claim_next 100 50 77 demo_leased = Inr (s1, Some job')
     \<and> complete 101 (job_exec_all demo_ienv s1 [(100, Reconcile 5)]) demo_old_claim
       = Inl (InvalidState ''session consolidation claim is no longer active'')"
proof -
  obtain s1 job' where j: "claim_next 100 50 77 demo_leased = Inr (s1, Some job')" "cj_session job' = 5" "cj_generation job' = 1"
    by (rule demo_takeover)
  have "cj_session job' = cj_session demo_old_claim" "cj_generation job' = cj_generation demo_old_claim" "77 \<noteq> cj_claim demo_old_claim"
    using j by (simp_all add: demo_old_claim_def)
  from stale_claim_fenced[OF demo_leased_ok j(1) this _ refl, of "[(100, Reconcile 5)]"] j(1) show ?thesis by auto
qed

section \<open>Due jobs are handed out\<close>

text \<open>
  A worker that asks is never turned away from due work and never fails: when a job is due, the claim
  succeeds and hands out a due job requested no later than any other, which is then running under the new
  claim; when none is due the answer is none and the store is unchanged.
\<close>

theorem claim_next_oldest:
  assumes "jobs_ok (consolidation_jobs s)"
  shows "(\<not> exists_row (job_due now stale) (consolidation_jobs s) \<longrightarrow> claim_next now stale claim s = Inr (s, None))
    \<and> (exists_row (job_due now stale) (consolidation_jobs s) \<longrightarrow>
        (\<exists>s' job row. claim_next now stale claim s = Inr (s', Some job) \<and> row \<in> set (consolidation_jobs s) \<and> job_due now stale row
           \<and> (cj_session job, cj_generation job) = job_key row \<and> cj_claim job = claim \<and> claim_live s' job
           \<and> (\<forall>x \<in> set (consolidation_jobs s). job_due now stale x \<longrightarrow>
                (job_requested_at row, job_generation row) \<le> (job_requested_at x, job_generation x))))"
proof -
  let ?k = "\<lambda>j. (job_requested_at j, job_generation j)"
  let ?due = "filter (job_due now stale) (consolidation_jobs s)"
  show ?thesis
  proof (cases "first_by ?k ?due")
    case None
    then have "\<not> exists_row (job_due now stale) (consolidation_jobs s)" by (simp add: filter_empty_conv)
    moreover have "claim_next now stale claim s = Inr (s, None)" unfolding claim_next_def None by simp
    ultimately show ?thesis by blast
  next
    case (Some row)
    have row: "row \<in> set (consolidation_jobs s)" "job_due now stale row" using first_by_in[OF Some] by simp_all
    have self: "claimable_job now stale row row" using row(2) by (auto simp: claimable_job_def job_due_def)
    have "filter (claimable_job now stale row) (consolidation_jobs s) \<noteq> []" using row(1) self by (auto simp: filter_empty_conv)
    moreover have "length (filter (claimable_job now stale row) (consolidation_jobs s)) \<le> 1"
      using assms by (intro unique_on_at_most_one[where P = "\<lambda>_. True" and k = job_key and c = "job_key row"])
        (simp_all add: jobs_ok_def claimable_job_def job_key_def)
    ultimately have one: "changed_rows (claimable_job now stale row) (consolidation_jobs s) = 1"
      by (cases "filter (claimable_job now stale row) (consolidation_jobs s)") (simp_all add: changed_rows_def)
    let ?s' = "s\<lparr>consolidation_jobs := update_where (claimable_job now stale row) (running_job now claim) (consolidation_jobs s)\<rparr>"
    obtain job where c: "claim_next now stale claim s = Inr (?s', Some job)" and
      j: "(cj_session job, cj_generation job) = job_key row" "cj_claim job = claim"
      using Some one by (simp add: claim_next_def job_key_def)
    have "running_job now claim row \<in> set (consolidation_jobs ?s')"
      using in_update_where[OF row(1), of "claimable_job now stale row" "running_job now claim"] self by simp
    moreover have "holds_claim job (running_job now claim row)" using j by (simp add: holds_claim_def running_job_def job_key_def)
    ultimately have live: "claim_live ?s' job" by blast
    have least: "?k row \<le> ?k x" if "x \<in> set (consolidation_jobs s)" "job_due now stale x" for x
      using first_by_least[OF Some, of x] that by simp
    have "exists_row (job_due now stale) (consolidation_jobs s)" using row by auto
    moreover have "\<exists>s' job row. claim_next now stale claim s = Inr (s', Some job) \<and> row \<in> set (consolidation_jobs s) \<and> job_due now stale row
        \<and> (cj_session job, cj_generation job) = job_key row \<and> cj_claim job = claim \<and> claim_live s' job
        \<and> (\<forall>x \<in> set (consolidation_jobs s). job_due now stale x \<longrightarrow> ?k row \<le> ?k x)"
      by (rule exI[of _ ?s'], rule exI[of _ job], rule exI[of _ row], intro conjI ballI impI) (fact c row j live least)+
    ultimately show ?thesis by simp
  qed
qed

theorem claim_next_oldest_witness:
  "\<exists>s' job. claim_next 100 50 77 demo_leased = Inr (s', Some job) \<and> claim_live s' job"
proof -
  have "exists_row (job_due 100 50) (consolidation_jobs demo_leased)"
    by (simp add: demo_leased_def job_due_def lease_expired_def session_consolidation_max_attempts_def)
  with claim_next_oldest[OF demo_leased_ok, of 100 50 77] show ?thesis by blast
qed

text \<open>
  C37. An interrupted final attempt can be stranded. A fifth attempt whose lease expired is taken over
  without counting as a new attempt; when that worker then shuts down and releases the job, the job is pending
  with five attempts used, and no later claim at any time hands it out, although it neither failed nor completed.
\<close>

theorem release_strands_final_attempt:
  assumes "jobs_ok (consolidation_jobs s)" and "j \<in> set (consolidation_jobs s)" and "holds_claim job j"
    and "job_attempts j = session_consolidation_max_attempts" and "\<not> cj_attempt_spent job"
    and "release_job now s job = Inr s'"
  shows "\<exists>j' \<in> set (consolidation_jobs s'). job_key j' = job_key j \<and> job_state j' = JobPending
    \<and> (\<forall>now' stale claim s2 job2. claim_next now' stale claim s' = Inr (s2, Some job2) \<longrightarrow> (cj_session job2, cj_generation job2) \<noteq> job_key j)"
proof -
  let ?j = "released_job now job j"
  have s': "s' = s\<lparr>consolidation_jobs := update_where (holds_claim job) (released_job now job) (consolidation_jobs s)\<rparr>"
    using assms(6) settle_InrD(1) by (simp add: release_job_def)
  have j': "?j \<in> set (consolidation_jobs s')" "job_key ?j = job_key j" "job_state ?j = JobPending" "job_attempts ?j = session_consolidation_max_attempts"
    using in_update_where[OF assms(2), of "holds_claim job" "released_job now job"] assms(3-5)
    by (simp_all add: s' released_job_def job_key_def)
  have ok: "jobs_ok (consolidation_jobs s')" using job_exec_ok[OF assms(1), of demo_ienv now "Release job"] assms(6) by (simp add: kept_def)
  have "(cj_session job2, cj_generation job2) \<noteq> job_key j" if "claim_next now' stale claim s' = Inr (s2, Some job2)" for now' stale claim s2 job2
    using that
  proof (cases rule: claim_next_InrD)
    case (2 row)
    have "row \<noteq> ?j" using 2(2) j'(3,4) by (auto simp: job_due_def)
    then have "job_key row \<noteq> job_key ?j" using ok 2(1) j'(1) by (auto simp: jobs_ok_def dest: unique_onD)
    with 2(4) j'(2) show ?thesis by (simp add: job_key_def)
  qed simp
  then show ?thesis using j' by blast
qed

theorem release_strands_final_attempt_witness:
  "\<exists>s1 job s2. claim_next 100 50 77 demo_leased = Inr (s1, Some job) \<and> release_job 110 s1 job = Inr s2
     \<and> (\<exists>j. j \<in> set (consolidation_jobs s2) \<and> job_state j = JobPending \<and> job_key j = (5, 1))
     \<and> \<not> (\<exists>now stale claim s3 job3. claim_next now stale claim s2 = Inr (s3, Some job3) \<and> (cj_session job3, cj_generation job3) = (5, 1))"
proof -
  let ?j = "(new_job 1 1 2 5 1)\<lparr>job_state := JobRunning, job_started_at := Some 100, job_attempts := 5, job_claim := Some 77\<rparr>"
  obtain s1 job where t: "claim_next 100 50 77 demo_leased = Inr (s1, Some job)" "cj_session job = 5" "cj_generation job = 1"
    "\<not> cj_attempt_spent job" "cj_claim job = 77" "consolidation_jobs s1 = [?j]" by (rule demo_takeover)
  have holds: "holds_claim job ?j" using t by (simp add: holds_claim_def new_job_def)
  obtain s2 where s2: "release_job 110 s1 job = Inr s2"
    using holds t(6) by (simp add: release_job_def settle_def require_claim_update_def changed_rows_def)
  have ok: "jobs_ok (consolidation_jobs s1)" by (rule claim_next_ok[OF demo_leased_ok t(1)])
  have "?j \<in> set (consolidation_jobs s1)" "job_attempts ?j = session_consolidation_max_attempts" "job_key ?j = (5, 1)"
    using t(6) by (simp_all add: session_consolidation_max_attempts_def job_key_def new_job_def)
  with release_strands_final_attempt[OF ok _ holds _ t(4) s2] t(1) s2 show ?thesis by auto
qed

section \<open>Retries end\<close>











end
