(* ===== verification/IdleEnd.thy ===== *)
theory IdleEnd
  imports Handoffs Consolidation WorkstreamLink
begin

text \<open>
  The idle sweep (\<^verbatim>\<open>idle_end_sessions\<close> of \<^verbatim>\<open>crates/ai-memory-store/src/ops.rs\<close>): a server tick ends a batch of sessions
  that fell silent, each in its own guarded transaction. It is where four components meet: it reads the active
  managed runs, stamps sessions, returns handoffs and enqueues consolidation work. The harness's session id
  parser, the text of a session id and the JSON of the audit detail are parameters; the clock a transaction
  reads is an argument, the tick's own clock is part of the candidate. Shown: the sweep never fails, spares sessions
  of active runs and sessions that ended meanwhile, never ends the same work twice, and leaves no ended session without its
  job.
\<close>

section \<open>The sweep\<close>

record idle_env = native_env +
  session_text :: "uuid \<Rightarrow> ustr"
  idle_detail :: "uuid \<Rightarrow> string \<Rightarrow> int \<Rightarrow> ustr"

datatype idle_end_action =
    IdleSubstantive uuid int int int
  | IdleLifecycleOnly int int

datatype idle_end_result = EndedSubstantive | EndedLifecycleOnly | IdleLost

record idle_end_candidate =
  ic_session :: uuid
  ic_workspace :: uuid
  ic_project :: uuid
  ic_agent :: agent_kind
  ic_action :: idle_end_action

definition active_managed_run_sessions :: "idle_env \<Rightarrow> store \<Rightarrow> uuid list" where
  "active_managed_run_sessions env s =
     map (from_native (native_env.truncate env))
       (List.map_filter run_native_session (filter (\<lambda>r. run_state r = RunActive) (managed_runs s)))"

definition session_page :: "idle_env \<Rightarrow> store \<Rightarrow> idle_end_candidate \<Rightarrow> uuid option" where
  "session_page env s c =
     map_option pag_id (find (\<lambda>g. pag_workspace g = ic_workspace c \<and> pag_project g = ic_project c
       \<and> pag_path g = lit ''sessions/'' @ session_text env (ic_session c) @ lit ''.md'' \<and> pag_is_latest g) (pages s))"

definition candidate_open :: "idle_end_candidate \<Rightarrow> session_row \<Rightarrow> bool" where
  "candidate_open c r \<longleftrightarrow> ses_id r = ic_session c \<and> ses_workspace r = ic_workspace c \<and> ses_project r = ic_project c
     \<and> ses_ended_at r = None"

definition still_current :: "idle_env \<Rightarrow> store \<Rightarrow> idle_end_candidate \<Rightarrow> uuid \<Rightarrow> int \<Rightarrow> session_row \<Rightarrow> bool" where
  "still_current env s c page count r \<longleftrightarrow> candidate_open c r
     \<and> int (session_observations s (ic_session c)) = count \<and> session_page env s c = Some page"

definition end_idle_substantive ::
  "idle_env \<Rightarrow> int \<Rightarrow> bool \<Rightarrow> store \<Rightarrow> idle_end_candidate \<Rightarrow> uuid \<Rightarrow> int \<Rightarrow> int \<Rightarrow> int \<Rightarrow> store \<times> idle_end_result" where
  "end_idle_substantive env clock enqueue_consolidation s c page count now active_at =
     (let P = still_current env s c page count in
      if changed_rows P (sessions s) = 0 then (s, IdleLost)
      else
        let s1 = s\<lparr>sessions := update_where P (end_row s now (Some page)) (sessions s)\<rparr>;
            s2 = audit_with_detail s1 ''idle_session_end'' (Some (ic_workspace c)) (Some (ic_project c)) (Some page) None now
                   (idle_detail env (ic_session c) ''substantive'' active_at);
            s3 = (if enqueue_consolidation then fst (enqueue_in_tx clock s2 (ic_workspace c) (ic_project c) (ic_session c)) else s2)
        in (s3, EndedSubstantive))"

definition end_idle_lifecycle_only ::
  "idle_env \<Rightarrow> int \<Rightarrow> store \<Rightarrow> idle_end_candidate \<Rightarrow> int \<Rightarrow> int \<Rightarrow> (store \<times> idle_end_result) store_result" where
  "end_idle_lifecycle_only env clock s c now active_at =
     (if changed_rows (candidate_open c) (sessions s) = 0 then Inr (s, IdleLost)
      else and_then (end_lifecycle_only_session_in_tx clock s (ic_session c) (Some now)) (\<lambda>(s1, outcome).
        case outcome of
          LifecycleEnded _ \<Rightarrow>
            Inr (audit_with_detail s1 ''idle_session_end'' (Some (ic_workspace c)) (Some (ic_project c)) None None now
                   (idle_detail env (ic_session c) ''lifecycle_only'' active_at), EndedLifecycleOnly)
        | LifecycleSubstantive \<Rightarrow> Inr (s, IdleLost)))"

definition end_idle_candidate ::
  "idle_env \<Rightarrow> int \<Rightarrow> bool \<Rightarrow> store \<Rightarrow> idle_end_candidate \<Rightarrow> (store \<times> idle_end_result) store_result" where
  "end_idle_candidate env clock enqueue_consolidation s c =
     (case ic_action c of
        IdleSubstantive page count now active_at \<Rightarrow>
          Inr (end_idle_substantive env clock enqueue_consolidation s c page count now active_at)
      | IdleLifecycleOnly now active_at \<Rightarrow> end_idle_lifecycle_only env clock s c now active_at)"

text \<open>The loop: candidates before a failing one stay committed.\<close>

fun idle_end_loop ::
  "idle_env \<Rightarrow> int \<Rightarrow> bool \<Rightarrow> uuid list \<Rightarrow> store \<Rightarrow> idle_end_candidate list \<Rightarrow> store \<times> idle_end_result list store_result" where
  "idle_end_loop env clock enqueue_consolidation active s [] = (s, Inr [])"
| "idle_end_loop env clock enqueue_consolidation active s (c # cs) =
     (case (if ic_session c \<in> set active then Inr (s, IdleLost) else end_idle_candidate env clock enqueue_consolidation s c) of
        Inl e \<Rightarrow> (s, Inl e)
      | Inr (s', r) \<Rightarrow>
          (case idle_end_loop env clock enqueue_consolidation active s' cs of
             (t, rest) \<Rightarrow> (t, and_then rest (\<lambda>rs. Inr (r # rs)))))"

definition idle_end_sessions ::
  "idle_env \<Rightarrow> int \<Rightarrow> store \<Rightarrow> idle_end_candidate list \<Rightarrow> bool \<Rightarrow> store \<times> idle_end_result list store_result" where
  "idle_end_sessions env clock s candidates enqueue_consolidation =
     idle_end_loop env clock enqueue_consolidation (active_managed_run_sessions env s) s candidates"

section \<open>One candidate\<close>

abbreviation unique_sessions :: "store \<Rightarrow> bool" where
  "unique_sessions s \<equiv> unique_on (\<lambda>_. True) ses_id (sessions s)"

lemma enqueue_frame [simp]:
  "sessions (fst (enqueue_in_tx clock s w p sid)) = sessions s" "observations (fst (enqueue_in_tx clock s w p sid)) = observations s"
  by (simp_all add: enqueue_in_tx_def enqueue_eligible_in_tx_def Let_def)

lemma release_frame:
  assumes "release_handoff now s sid = (s', k)"
  shows "sessions s' = sessions s" "observations s' = observations s"
  using assms by (auto simp: release_handoff_def split: option.splits)

text \<open>What an ended candidate looks like: its own open row got the tick's end and the current count, nothing else moved.\<close>

definition ended_candidate :: "store \<Rightarrow> store \<Rightarrow> idle_end_candidate \<Rightarrow> bool" where
  "ended_candidate s s' c \<longleftrightarrow> observations s' = observations s
     \<and> (\<exists>r0 \<in> set (sessions s). candidate_open c r0 \<and> (\<exists>now page. sessions s' =
           update_where (\<lambda>r. ses_id r = ic_session c) (end_row s now page) (sessions s)))"

lemma update_by_id:
  assumes "unique_sessions s" "r0 \<in> set (sessions s)" "P r0" "\<And>r. P r \<Longrightarrow> ses_id r = ses_id r0"
  shows "update_where P f (sessions s) = update_where (\<lambda>r. ses_id r = ses_id r0) f (sessions s)"
proof -
  have "P r \<longleftrightarrow> ses_id r = ses_id r0" if r: "r \<in> set (sessions s)" for r
  proof
    assume "ses_id r = ses_id r0"
    then have "r = r0" by (rule unique_onD[OF assms(1) r assms(2) TrueI TrueI])
    with assms(3) show "P r" by simp
  qed (rule assms(4))
  then show ?thesis by (simp add: update_where_def)
qed

lemma end_idle_substantive_cases:
  assumes "unique_sessions s" "end_idle_substantive env clock enq s c page count now active_at = (s', r)"
  obtains (lost) "r = IdleLost" "s' = s"
  | (ended) "r = EndedSubstantive" "ended_candidate s s' c" "int (session_observations s (ic_session c)) = count" "session_page env s c = Some page"
proof (cases "changed_rows (still_current env s c page count) (sessions s) = 0")
  case True
  with assms(2) show thesis by (intro lost) (simp_all add: end_idle_substantive_def Let_def)
next
  case False
  then obtain r0 where r0: "r0 \<in> set (sessions s)" "still_current env s c page count r0" by (auto simp: changed_rows_0_iff)
  then have o: "candidate_open c r0" "ses_id r0 = ic_session c" by (simp_all add: still_current_def candidate_open_def)
  have "update_where (still_current env s c page count) (end_row s now (Some page)) (sessions s)
      = update_where (\<lambda>r. ses_id r = ses_id r0) (end_row s now (Some page)) (sessions s)"
    using assms(1) r0 by (rule update_by_id) (simp add: still_current_def candidate_open_def o)
  moreover from assms(2) False have "r = EndedSubstantive" "observations s' = observations s"
    "sessions s' = update_where (still_current env s c page count) (end_row s now (Some page)) (sessions s)"
    by (auto simp: end_idle_substantive_def Let_def)
  ultimately have "r = EndedSubstantive" "ended_candidate s s' c" using r0 o unfolding ended_candidate_def by auto
  then show thesis using r0(2) by (intro ended) (simp_all add: still_current_def)
qed

lemma end_idle_lifecycle_cases:
  assumes "end_idle_lifecycle_only env clock s c now active_at = Inr (s', r)"
  obtains (lost) "r = IdleLost" "s' = s"
  | (ended) "r = EndedLifecycleOnly" "ended_candidate s s' c" "\<not> has_substantive_observation s (ic_session c)"
proof (cases "changed_rows (candidate_open c) (sessions s) = 0")
  case True
  with assms show thesis by (intro lost) (simp_all add: end_idle_lifecycle_only_def)
next
  case False
  then obtain r0 where r0: "r0 \<in> set (sessions s)" "candidate_open c r0" by (auto simp: changed_rows_0_iff)
  from assms False obtain s1 out where out: "end_lifecycle_only_session_in_tx clock s (ic_session c) (Some now) = Inr (s1, out)"
    and rest: "(case out of
          LifecycleEnded _ \<Rightarrow>
            Inr (audit_with_detail s1 ''idle_session_end'' (Some (ic_workspace c)) (Some (ic_project c)) None None now
                   (idle_detail env (ic_session c) ''lifecycle_only'' active_at), EndedLifecycleOnly)
        | LifecycleSubstantive \<Rightarrow> Inr (s, IdleLost)) = (Inr (s', r) :: (store \<times> idle_end_result) store_result)"
    by (auto simp: end_idle_lifecycle_only_def and_then_Inr_iff)
  from out show thesis
  proof (cases rule: lifecycle_end_cases)
    case substantive
    with rest show thesis by (intro lost) simp_all
  next
    case (ended s2 reopened)
    have sub: "\<not> has_substantive_observation s (ic_session c)"
      using out ended(1) by (auto simp: end_lifecycle_only_session_in_tx_def)
    have "sessions s2 = update_where (\<lambda>r. ses_id r = ic_session c) (end_row s now None) (sessions s)" "observations s2 = observations s"
      using ended(2) by (auto simp: end_session_row_def split: if_splits)
    with release_frame[OF ended(4)] rest ended(1) have "r = EndedLifecycleOnly" "observations s' = observations s"
      "sessions s' = update_where (\<lambda>r. ses_id r = ic_session c) (end_row s now None) (sessions s)" by auto
    with r0 sub show thesis by (intro that(2)) (auto simp: ended_candidate_def)
  qed
qed

lemma lifecycle_end_total: "\<exists>x. end_lifecycle_only_session_in_tx now s sid occ = Inr x"
  by (auto simp: end_lifecycle_only_session_in_tx_def end_session_row_def split: prod.splits)

lemma end_idle_total: "\<exists>x. end_idle_candidate env clock enq s c = Inr x"
proof (cases "ic_action c")
  case (IdleLifecycleOnly now active_at)
  obtain s1 out where "end_lifecycle_only_session_in_tx clock s (ic_session c) (Some now) = Inr (s1, out)"
    using lifecycle_end_total by (metis surj_pair)
  with IdleLifecycleOnly show ?thesis
    by (auto simp: end_idle_candidate_def end_idle_lifecycle_only_def split: lifecycle_only_end_outcome.splits)
qed (simp add: end_idle_candidate_def)

lemma end_idle_cases:
  assumes "unique_sessions s" "end_idle_candidate env clock enq s c = Inr (s', r)"
  obtains (lost) "r = IdleLost" "s' = s" | (ended) "r \<noteq> IdleLost" "ended_candidate s s' c"
proof (cases "ic_action c")
  case (IdleSubstantive page count now active_at)
  with assms(2) have "end_idle_substantive env clock enq s c page count now active_at = (s', r)" by (simp add: end_idle_candidate_def)
  with assms(1) show thesis by (cases rule: end_idle_substantive_cases) (auto intro: that)
next
  case (IdleLifecycleOnly now active_at)
  with assms(2) have "end_idle_lifecycle_only env clock s c now active_at = Inr (s', r)" by (simp add: end_idle_candidate_def)
  then show thesis by (cases rule: end_idle_lifecycle_cases) (auto intro: that)
qed

section \<open>The batch\<close>

lemma ended_candidate_unique: "unique_sessions s \<Longrightarrow> ended_candidate s s' c \<Longrightarrow> unique_sessions s'"
  unfolding ended_candidate_def by (elim conjE bexE exE) (simp, erule unique_on_update_where, simp_all add: end_row_def)

lemma ended_candidate_others:
  assumes "ended_candidate s s' c" "r \<in> set (sessions s)" "ses_id r \<noteq> ic_session c"
  shows "r \<in> set (sessions s')"
  using assms in_update_where[OF assms(2), of "\<lambda>r. ses_id r = ic_session c"] by (auto simp: ended_candidate_def)

lemma ended_candidate_was_open:
  assumes "unique_sessions s" "ended_candidate s s' c" "r \<in> set (sessions s)" "ses_id r = ic_session c"
  shows "ses_ended_at r = None"
proof -
  obtain r0 where "r0 \<in> set (sessions s)" "candidate_open c r0" using assms(2) by (auto simp: ended_candidate_def)
  with assms(3,4) unique_onD[OF assms(1), of r r0] show ?thesis by (simp add: candidate_open_def)
qed

lemma idle_loop_spec:
  assumes "unique_sessions s"
  shows "\<exists>s' rs. idle_end_loop env clock enq active s cs = (s', Inr rs) \<and> length rs = length cs
    \<and> (\<forall>r \<in> set (sessions s). ses_ended_at r \<noteq> None \<or> ses_id r \<in> set active \<longrightarrow> r \<in> set (sessions s'))
    \<and> observations s' = observations s"
  using assms
proof (induction cs arbitrary: s)
  case (Cons c cs)
  let ?one = "if ic_session c \<in> set active then Inr (s, IdleLost) else end_idle_candidate env clock enq s c"
  obtain s1 r where one: "?one = Inr (s1, r)" using end_idle_total[of env clock enq s c] by (cases "ic_session c \<in> set active") auto
  have s1: "unique_sessions s1 \<and> observations s1 = observations s
      \<and> (\<forall>r \<in> set (sessions s). ses_ended_at r \<noteq> None \<or> ses_id r \<in> set active \<longrightarrow> r \<in> set (sessions s1))"
  proof (cases "ic_session c \<in> set active")
    case True
    with one Cons.prems show ?thesis by simp
  next
    case False
    with one have e: "end_idle_candidate env clock enq s c = Inr (s1, r)" by simp
    from Cons.prems e show ?thesis
    proof (cases rule: end_idle_cases)
      case ended
      have "x \<in> set (sessions s1)" if x: "x \<in> set (sessions s)" "ses_ended_at x \<noteq> None \<or> ses_id x \<in> set active" for x
      proof (rule ended_candidate_others[OF ended(2) x(1)])
        show "ses_id x \<noteq> ic_session c" using x ended_candidate_was_open[OF Cons.prems ended(2) x(1)] False by auto
      qed
      with ended_candidate_unique[OF Cons.prems ended(2)] ended(2) show ?thesis by (simp add: ended_candidate_def)
    qed (use Cons.prems in simp)
  qed
  then obtain s' rs where rest: "idle_end_loop env clock enq active s1 cs = (s', Inr rs)" "length rs = length cs"
    "\<forall>r \<in> set (sessions s1). ses_ended_at r \<noteq> None \<or> ses_id r \<in> set active \<longrightarrow> r \<in> set (sessions s')" "observations s' = observations s1"
    using Cons.IH by blast
  have "idle_end_loop env clock enq active s (c # cs) = (s', Inr (r # rs))" using one rest(1) by simp
  with rest s1 show ?case by auto
qed simp

text \<open>
  C36. The idle sweep does no harm: it always answers for every candidate, it never ends a session that an
  active managed run is using, and a session that ended before its turn came keeps the end it got; it records and
  deletes no observation.
\<close>

theorem idle_end_spares:
  assumes "unique_sessions s"
  shows "\<exists>s' rs. idle_end_sessions env clock s cs enq = (s', Inr rs) \<and> length rs = length cs
    \<and> (\<forall>r \<in> set (sessions s). ses_ended_at r \<noteq> None \<or> ses_id r \<in> set (active_managed_run_sessions env s) \<longrightarrow> r \<in> set (sessions s'))
    \<and> observations s' = observations s"
  using idle_loop_spec[OF assms] by (simp add: idle_end_sessions_def)

definition demo_idle_env :: idle_env where
  "demo_idle_env = \<lparr>builtin_scrub = id, parse_uuid = (\<lambda>t. Some (length t)), new_v5_oid = length, session_text = (\<lambda>u. replicate u 48),
     idle_detail = (\<lambda>_ _ _. [])\<rparr>"

definition demo_quiet :: store where
  "demo_quiet = demo_scope\<lparr>sessions := [new_session_row 3 demo_session, (new_session_row 3 demo_session)\<lparr>ses_id := 4\<rparr>],
     managed_runs := [\<lparr>run_id = 20, run_workstream = 10, run_agent_kind = as_str ClaudeCode, run_lease_owner = [],
       run_native_session = Some (lit ''abcd''), run_linked_at = None, run_owner_user = None, run_state = RunActive,
       run_sync_after = 0, run_sync_through = 0, run_context_delivered = False, run_lease_expires_at = 0, run_started_at = 0,
       run_ended_at = None, run_exit_code = None, run_previous_agent = None, run_previous_native = None, run_scope_by_id = True\<rparr>]\<rparr>"

definition demo_candidate :: "uuid \<Rightarrow> idle_end_candidate" where
  "demo_candidate sid = \<lparr>ic_session = sid, ic_workspace = 1, ic_project = 2, ic_agent = ClaudeCode, ic_action = IdleLifecycleOnly 50 3\<rparr>"

lemma demo_quiet_unique: "unique_sessions demo_quiet"
  by (simp add: demo_quiet_def unique_on_def new_session_row_def demo_session_def)

lemma demo_active: "active_managed_run_sessions demo_idle_env demo_quiet = [4]"
  by (simp add: active_managed_run_sessions_def demo_quiet_def demo_idle_env_def from_native_def native_env.defs map_filter_simps lit_def)

theorem idle_end_spares_witness:
  "\<exists>s' rs r. idle_end_sessions demo_idle_env 51 demo_quiet [demo_candidate 4, demo_candidate 5] False = (s', Inr rs) \<and> length rs = 2
     \<and> r \<in> set (sessions s') \<and> ses_id r = 4 \<and> ses_ended_at r = None"
proof -
  let ?r = "(new_session_row 3 demo_session)\<lparr>ses_id := 4\<rparr>"
  obtain s' rs where i: "idle_end_sessions demo_idle_env 51 demo_quiet [demo_candidate 4, demo_candidate 5] False = (s', Inr rs)"
    "length rs = 2" "\<forall>r \<in> set (sessions demo_quiet). ses_ended_at r \<noteq> None \<or> ses_id r \<in> {4} \<longrightarrow> r \<in> set (sessions s')"
    using idle_end_spares[OF demo_quiet_unique, of demo_idle_env 51 "[demo_candidate 4, demo_candidate 5]" False] by (auto simp: demo_active)
  moreover have "?r \<in> set (sessions demo_quiet)" by (simp add: demo_quiet_def)
  ultimately show ?thesis by (intro exI[of _ s'] exI[of _ rs] exI[of _ ?r]) (auto simp: new_session_row_def)
qed

section \<open>No work is ended twice\<close>

lemma ended_candidate_find:
  assumes "unique_sessions s" "ended_candidate s s' c" "find_session s (ic_session c) = Some r"
  obtains now page where "find_session s' (ic_session c) = Some (end_row s now page r)" "ses_workspace r = ic_workspace c"
    "ses_project r = ic_project c" "session_observations s' (ic_session c) = session_observations s (ic_session c)"
proof -
  obtain r0 now page where r0: "r0 \<in> set (sessions s)" "candidate_open c r0"
    "sessions s' = update_where (\<lambda>r. ses_id r = ic_session c) (end_row s now page) (sessions s)" "observations s' = observations s"
    using assms(2) unfolding ended_candidate_def by blast
  have r: "r \<in> set (sessions s)" "ses_id r = ic_session c" using find_SomeD[OF assms(3)] by simp_all
  have "r = r0" using unique_onD[OF assms(1) r(1) r0(1) TrueI TrueI] r(2) r0(2) by (simp add: candidate_open_def)
  have "find_session s' (ic_session c) = map_option (\<lambda>r. if ses_id r = ic_session c then end_row s now page r else r) (find_session s (ic_session c))"
    unfolding r0(3) by (rule find_update_where) (simp add: end_row_def)
  then have "find_session s' (ic_session c) = Some (end_row s now page r)" using assms(3) r(2) by simp
  then show thesis using r0(2,4) \<open>r = r0\<close> by (intro that) (simp_all add: candidate_open_def session_observations_def)
qed

text \<open>
  A session the sweep ended is ended: when the harness's own SessionEnd arrives afterwards and nothing was
  observed in between, it is recognized as already ended and changes nothing. So the same work is never
  ended, summarized or handed off twice.
\<close>

theorem idle_end_then_session_end:
  assumes "unique_sessions s" and "end_idle_candidate env clock enq s c = Inr (s', r)" and "r \<noteq> IdleLost"
    and "find_session s (ic_session c) = Some row" and "qualified_owner (ses_actor_user row)"
    and "admits_owner f (ses_actor_user row)" and "ses_agent_kind row = as_str (ns_agent session)"
    and "ns_id session = ic_session c" and "ns_workspace session = ic_workspace c" and "ns_project session = ic_project c"
    and "no_kind obs = ObsSessionEnd" and "no_session obs = ns_id session" and "no_workspace obs = ns_workspace session"
    and "no_project obs = ns_project session"
  shows "\<exists>g. admit_hook_session_event ienv now oid s' session obs f key moved = Inr (s', AdmAlreadyEnded g) \<and> ad_session g = ic_session c"
proof -
  have "ended_candidate s s' c" using assms(1,2) by (cases rule: end_idle_cases) (use assms(3) in simp_all)
  then obtain t page where e: "find_session s' (ic_session c) = Some (end_row s t page row)" "ses_workspace row = ic_workspace c"
    "ses_project row = ic_project c" "session_observations s' (ic_session c) = session_observations s (ic_session c)"
    using ended_candidate_find[OF assms(1) _ assms(4)] by blast
  have id: "ses_id row = ic_session c" using find_SomeD[OF assms(4)] by simp
  let ?st = "\<lparr>as_owner = ses_actor_user row, as_ended_at = Some t, as_ended_count = session_observations s (ic_session c),
      as_cwd = ses_cwd row, as_workspace = ic_workspace c, as_project = ic_project c\<rparr>"
  have "resolve_session now s' session True f = Inr (s', Inr ?st)"
    using e(1-3) assms(5-10) id by (simp add: resolve_session_def resolve_existing_def end_row_def)
  moreover have "admit_resolved ienv now oid s' session obs key moved ?st = Inr (s', AdmAlreadyEnded (session_guard session ?st))"
    using e(4) assms(8,11) by (simp add: admit_resolved_def)
  ultimately have "admit_hook_session_event ienv now oid s' session obs f key moved = Inr (s', AdmAlreadyEnded (session_guard session ?st))"
    using assms(11-14) by (simp add: admit_hook_session_event_def)
  moreover have "ad_session (session_guard session ?st) = ic_session c" using assms(8) by (simp add: session_guard_def)
  ultimately show ?thesis by blast
qed

theorem idle_end_then_session_end_witness:
  "\<exists>s' g. end_idle_candidate demo_idle_env 51 False demo_quiet (demo_candidate 5) = Inr (s', EndedLifecycleOnly)
     \<and> admit_hook_session_event demo_ienv 60 7 s' demo_session (demo_obs ObsSessionEnd) OwnerAny None None = Inr (s', AdmAlreadyEnded g)"
proof -
  obtain s' where e: "end_idle_candidate demo_idle_env 51 False demo_quiet (demo_candidate 5) = Inr (s', EndedLifecycleOnly)"
    by (simp add: end_idle_candidate_def demo_candidate_def end_idle_lifecycle_only_def changed_rows_def candidate_open_def demo_quiet_def
        new_session_row_def demo_session_def end_lifecycle_only_session_in_tx_def has_substantive_observation_def demo_scope_def
        empty_store_def end_session_row_def release_handoff_def first_by_def)
  have row: "find_session demo_quiet (ic_session (demo_candidate 5)) = Some (new_session_row 3 demo_session)"
    by (simp add: demo_quiet_def demo_candidate_def new_session_row_def demo_session_def)
  have "\<exists>g. admit_hook_session_event demo_ienv 60 7 s' demo_session (demo_obs ObsSessionEnd) OwnerAny None None = Inr (s', AdmAlreadyEnded g)
      \<and> ad_session g = ic_session (demo_candidate 5)"
    by (rule idle_end_then_session_end[OF demo_quiet_unique e _ row])
      (simp_all add: qualified_owner_def demo_candidate_def new_session_row_def demo_session_def demo_obs_def)
  with e show ?thesis by blast
qed

section \<open>An ended session has its job\<close>

text \<open>What an enqueue leaves behind, in the queue of one session.\<close>

lemma enqueue_post:
  assumes "enqueue_eligible_in_tx now s w p sid e = (s', inserted)"
  shows "exists_row (eligible_session w p sid e) (sessions s) \<Longrightarrow> 0 < session_observations s sid \<Longrightarrow>
      \<exists>j \<in> set (consolidation_jobs s'). job_key j = (sid, session_observations s sid)"
    and "j \<in> set (consolidation_jobs s') \<Longrightarrow> job_session j = sid \<Longrightarrow> job_state j = JobPending \<Longrightarrow> session_observations s sid \<le> job_generation j"
proof -
  let ?n = "session_observations s sid"
  let ?ins = "exists_row (eligible_session w p sid e) (sessions s) \<and> ?n > 0
      \<and> \<not> exists_row (\<lambda>j. job_session j = sid \<and> job_generation j = ?n) (consolidation_jobs s)"
  let ?rows = "if ?ins then consolidation_jobs s @ [new_job now w p sid ?n] else consolidation_jobs s"
  let ?old = "\<lambda>j. job_session j = sid \<and> job_state j = JobPending \<and> job_generation j < ?n"
  have "s' = fst (enqueue_eligible_in_tx now s w p sid e)" using assms by simp
  then have s': "consolidation_jobs s' = update_where ?old (superseded_job now) ?rows"
    by (simp add: enqueue_eligible_in_tx_def Let_def)
  show "\<exists>j \<in> set (consolidation_jobs s'). job_key j = (sid, ?n)"
    if "exists_row (eligible_session w p sid e) (sessions s)" "0 < ?n"
  proof -
    have "\<exists>j \<in> set ?rows. job_key j = (sid, ?n)"
    proof (cases ?ins)
      case True
      then show ?thesis unfolding if_P[OF True] by (intro bexI[of _ "new_job now w p sid ?n"]) (simp_all add: job_key_def new_job_def)
    next
      case False
      with that show ?thesis unfolding if_not_P[OF False] by (auto simp: job_key_def)
    qed
    then obtain j where j: "j \<in> set ?rows" "job_key j = (sid, ?n)" by blast
    have fresh: "\<not> ?old j" using j(2) by (simp add: job_key_def)
    from in_update_where[OF j(1), of ?old "superseded_job now"] have "j \<in> set (consolidation_jobs s')" unfolding s' if_not_P[OF fresh] .
    with j(2) show ?thesis by blast
  qed
  show "?n \<le> job_generation j" if "j \<in> set (consolidation_jobs s')" "job_session j = sid" "job_state j = JobPending"
  proof -
    from that(1) obtain x where x: "j = (if ?old x then superseded_job now x else x)" unfolding s' set_update_where by blast
    have no: "\<not> ?old x"
    proof
      assume "?old x"
      with x have "j = superseded_job now x" by (rule trans[OF _ if_P])
      with that(3) show False by (simp add: superseded_job_def)
    qed
    with x have "j = x" by (rule trans[OF _ if_not_P])
    with no that(2,3) show ?thesis by auto
  qed
qed

text \<open>
  When consolidation is on, the sweep stamps a session and queues its job in one step: every session it ends as
  substantive has a job for exactly the observations its page covers, and no older generation of it is still
  waiting.
\<close>

theorem idle_end_leaves_job:
  assumes "end_idle_substantive env clock True s c page count now active_at = (s', EndedSubstantive)" and "0 < count"
  shows "(\<exists>j \<in> set (consolidation_jobs s'). job_session j = ic_session c \<and> int (job_generation j) = count)
    \<and> (\<forall>j \<in> set (consolidation_jobs s'). job_session j = ic_session c \<and> job_state j = JobPending \<longrightarrow> count \<le> int (job_generation j))"
proof -
  let ?P = "still_current env s c page count"
  let ?s1 = "s\<lparr>sessions := update_where ?P (end_row s now (Some page)) (sessions s)\<rparr>"
  let ?s2 = "audit_with_detail ?s1 ''idle_session_end'' (Some (ic_workspace c)) (Some (ic_project c)) (Some page) None now
                   (idle_detail env (ic_session c) ''substantive'' active_at)"
  have ne: "changed_rows ?P (sessions s) \<noteq> 0"
  proof
    assume z: "changed_rows ?P (sessions s) = 0"
    from assms(1) show False unfolding end_idle_substantive_def Let_def if_P[OF z] by simp
  qed
  then obtain r0 where r0: "r0 \<in> set (sessions s)" "?P r0" by (auto simp: changed_rows_0_iff)
  from assms(1) have "s' = fst (enqueue_in_tx clock ?s2 (ic_workspace c) (ic_project c) (ic_session c))"
    unfolding end_idle_substantive_def Let_def if_not_P[OF ne] by simp
  then obtain b where e: "enqueue_eligible_in_tx clock ?s2 (ic_workspace c) (ic_project c) (ic_session c) EndedSession = (s', b)"
    unfolding enqueue_in_tx_def by (metis prod.collapse)
  have n: "session_observations ?s2 (ic_session c) = session_observations s (ic_session c)" "int (session_observations s (ic_session c)) = count"
    using r0(2) by (simp_all add: session_observations_def still_current_def)
  have "end_row s now (Some page) r0 \<in> set (sessions ?s2)"
    using in_update_where[OF r0(1), of ?P "end_row s now (Some page)"] r0(2) by simp
  moreover have "eligible_session (ic_workspace c) (ic_project c) (ic_session c) EndedSession (end_row s now (Some page) r0)"
    using r0(2) by (simp add: eligible_session_def end_row_def still_current_def candidate_open_def)
  ultimately have "exists_row (eligible_session (ic_workspace c) (ic_project c) (ic_session c) EndedSession) (sessions ?s2)"
    unfolding exists_row_iff by blast
  moreover have "0 < session_observations ?s2 (ic_session c)" using n assms(2) by linarith
  ultimately obtain j where "j \<in> set (consolidation_jobs s')" "job_key j = (ic_session c, session_observations ?s2 (ic_session c))"
    using enqueue_post(1)[OF e] by blast
  moreover have "count \<le> int (job_generation x)" if "x \<in> set (consolidation_jobs s')" "job_session x = ic_session c" "job_state x = JobPending" for x
    using enqueue_post(2)[OF e that] n by linarith
  ultimately show ?thesis using n by (auto simp: job_key_def)
qed

definition demo_page :: page_row where
  "demo_page = plain_page 30 1 2 (lit ''sessions/'' @ replicate 5 48 @ lit ''.md'')"

definition demo_working :: store where
  "demo_working = demo_scope\<lparr>sessions := [new_session_row 3 demo_session], observations := [observation_row_of 4 6 (demo_obs ObsUserPrompt)],
     pages := [demo_page]\<rparr>"

theorem idle_end_leaves_job_witness:
  "\<exists>s' j. end_idle_substantive demo_idle_env 51 True demo_working (demo_candidate 5) 30 1 50 4 = (s', EndedSubstantive)
     \<and> j \<in> set (consolidation_jobs s') \<and> job_session j = 5 \<and> job_generation j = 1"
proof -
  have page: "session_page demo_idle_env demo_working (demo_candidate 5) = Some 30"
    by (simp add: session_page_def demo_idle_env_def demo_working_def demo_candidate_def demo_page_def plain_page_def)
  have "still_current demo_idle_env demo_working (demo_candidate 5) 30 1 (new_session_row 3 demo_session)"
    unfolding still_current_def page
    by (simp add: candidate_open_def demo_working_def demo_candidate_def new_session_row_def demo_session_def session_observations_def
        observation_row_of_def demo_obs_def)
  then obtain s' where e: "end_idle_substantive demo_idle_env 51 True demo_working (demo_candidate 5) 30 1 50 4 = (s', EndedSubstantive)"
    by (simp add: end_idle_substantive_def changed_rows_def demo_working_def Let_def)
  from idle_end_leaves_job[OF e] e show ?thesis by (auto simp: demo_candidate_def)
qed

end
