(* ===== verification/Accounts.thy ===== *)
theory Accounts
  imports Authz
begin

text \<open>
  \<^verbatim>\<open>crates/ai-memory-core/src/user.rs\<close>, \<^verbatim>\<open>crates/ai-memory-store/src/users.rs\<close>, \<^verbatim>\<open>web_sessions.rs\<close> and
  \<^verbatim>\<open>api_credentials.rs\<close>: human accounts, browser sessions and native API keys. Digests, password hashes
  (Argon2id PHC strings), fresh ids and the clock are arguments. An operation that reads the clock twice takes two
  readings. Where an insert violates several unique indexes at once SQLite reports one of them; the model reports the
  first in the order of the columns. Foreign keys are on (\<^verbatim>\<open>Store::open\<close>), so a row that refers to a user that
  does not exist is refused.
\<close>

section \<open>Input validation\<close>

datatype memory_error = InvalidUsername ustr | InvalidEmail ustr | InvalidPassword ustr | MalformedRole ustr

definition max_username_len :: nat where "max_username_len = 64"

definition max_email_len :: nat where "max_email_len = 254"

definition min_human_password_bytes :: nat where "min_human_password_bytes = 12"

definition max_human_password_bytes :: nat where "max_human_password_bytes = 1024"

definition credential_prefixes :: "ustr list" where
  "credential_prefixes = [lit ''ams_'', lit ''aim_'', lit ''amk_'']"

definition user_role_str :: "user_role \<Rightarrow> ustr" where
  "user_role_str r = (case r of RoleRoot \<Rightarrow> lit ''root'' | RoleUser \<Rightarrow> lit ''user'')"

definition user_role_parse :: "ustr \<Rightarrow> memory_error + user_role" where
  "user_role_parse value =
     (if value = lit ''root'' then Inr RoleRoot
      else if value = lit ''user'' then Inr RoleUser
      else Inl (MalformedRole value))"

text \<open>The separator characters \<^verbatim>\<open>/ \ : ; , " ' `\<close> by code point. The texts of the errors are shortened to the rule.\<close>

definition username_separators :: "uchar list" where
  "username_separators = [0x2F, 0x5C, 0x3A, 0x3B, 0x2C, 0x22, 0x27, 0x60]"

fun username_chars_ok :: "ustr \<Rightarrow> memory_error + unit" where
  "username_chars_ok [] = Inr ()"
| "username_chars_ok (c # cs) =
     (if is_control c then Inl (InvalidUsername (lit ''control character''))
      else if is_whitespace c then Inl (InvalidUsername (lit ''whitespace character''))
      else if c \<in> set username_separators then Inl (InvalidUsername (lit ''separator character''))
      else username_chars_ok cs)"

definition validate_username :: "ustr \<Rightarrow> memory_error + unit" where
  "validate_username s =
     (if s = [] then Inl (InvalidUsername (lit ''empty after trim''))
      else if max_username_len < length s then Inl (InvalidUsername (lit ''exceeds max''))
      else username_chars_ok s)"

fun email_chars_ok :: "ustr \<Rightarrow> memory_error + unit" where
  "email_chars_ok [] = Inr ()"
| "email_chars_ok (c # cs) =
     (if is_control c then Inl (InvalidEmail (lit ''control character''))
      else if is_whitespace c then Inl (InvalidEmail (lit ''whitespace character''))
      else email_chars_ok cs)"

definition validate_email :: "ustr \<Rightarrow> memory_error + unit" where
  "validate_email s =
     (if max_email_len < length s then Inl (InvalidEmail (lit ''exceeds max''))
      else and_then (email_chars_ok s) (\<lambda>_.
        let parts = split_all 0x40 s;
            local = (case parts of [] \<Rightarrow> [] | p # _ \<Rightarrow> p);
            domain = (case parts of _ # p # _ \<Rightarrow> p | _ \<Rightarrow> [])
        in if 2 < length parts then Inl (InvalidEmail (lit ''multiple @ characters''))
           else if local = [] then Inl (InvalidEmail (lit ''empty local part''))
           else if domain = [] then Inl (InvalidEmail (lit ''empty domain part''))
           else Inr ()))"

definition validate_human_password :: "ustr \<Rightarrow> ustr option \<Rightarrow> ustr list \<Rightarrow> memory_error + unit" where
  "validate_human_password password username reserved_plaintext =
     (let generic = Inl (InvalidPassword (lit ''does not meet policy'')) in
      if \<not> (min_human_password_bytes \<le> byte_len password \<and> byte_len password \<le> max_human_password_bytes) then generic
      else if list_ex (\<lambda>p. prefix p password) credential_prefixes then generic
      else if username = Some password then generic
      else if list_ex (\<lambda>secret. secret \<noteq> [] \<and> password = secret) reserved_plaintext then generic
      else Inr ())"

section \<open>The public shape of a user\<close>

record user =
  u_id :: uuid
  u_username :: ustr
  u_name :: "ustr option"
  u_email :: "ustr option"
  u_created_at :: int
  u_last_seen_at :: "int option"
  u_role :: user_role
  u_must_change_password :: bool
  u_disabled_at :: "int option"
  u_has_password :: bool

record new_user =
  nu_username :: ustr
  nu_name :: "ustr option"
  nu_email :: "ustr option"

text \<open>\<^verbatim>\<open>NewUser::validate\<close> normalises in place; \<open>lower\<close> is \<^verbatim>\<open>str::to_lowercase\<close> with the tables of Unicode.\<close>

definition new_user_validate :: "(ustr \<Rightarrow> ustr) \<Rightarrow> new_user \<Rightarrow> memory_error + new_user" where
  "new_user_validate lower nu =
     (let username = trim (nu_username nu) in
      and_then (validate_username username) (\<lambda>_.
        let name = (case map_option trim (nu_name nu) of Some [] \<Rightarrow> None | n \<Rightarrow> n) in
        case map_option (\<lambda>e. lower (trim e)) (nu_email nu) of
          None \<Rightarrow> Inr \<lparr>nu_username = username, nu_name = name, nu_email = None\<rparr>
        | Some [] \<Rightarrow> Inr \<lparr>nu_username = username, nu_name = name, nu_email = None\<rparr>
        | Some e \<Rightarrow> and_then (validate_email e) (\<lambda>_.
            Inr \<lparr>nu_username = username, nu_name = name, nu_email = Some e\<rparr>)))"

definition is_human_enabled :: "user \<Rightarrow> bool" where
  "is_human_enabled u \<longleftrightarrow> u_disabled_at u = None \<and> u_has_password u"

definition row_to_user :: "user_row \<Rightarrow> user" where
  "row_to_user r = \<lparr>u_id = usr_id r, u_username = usr_username r, u_name = usr_name r, u_email = usr_email r,
     u_created_at = usr_created_at r, u_last_seen_at = usr_last_seen_at r, u_role = usr_role r,
     u_must_change_password = usr_must_change_password r, u_disabled_at = usr_disabled_at r,
     u_has_password = (usr_password_hash r \<noteq> None)\<rparr>"

definition find_user_by_id :: "store \<Rightarrow> uuid \<Rightarrow> user option" where
  "find_user_by_id s i = map_option row_to_user (find (\<lambda>r. usr_id r = i) (users s))"

definition find_user_by_username :: "store \<Rightarrow> ustr \<Rightarrow> user option" where
  "find_user_by_username s name = map_option row_to_user (find (\<lambda>r. usr_username r = name) (users s))"

definition find_login_user_by_username :: "store \<Rightarrow> ustr \<Rightarrow> (user \<times> ustr option) option" where
  "find_login_user_by_username s name =
     map_option (\<lambda>r. (row_to_user r, usr_password_hash r)) (find (\<lambda>r. usr_username r = name) (users s))"

definition list_users :: "store \<Rightarrow> user list" where
  "list_users s = map row_to_user (sort_key usr_created_at (users s))"

definition any_password_hash :: "store \<Rightarrow> bool" where
  "any_password_hash s = exists_row (\<lambda>r. usr_password_hash r \<noteq> None) (users s)"

definition bootstrap_completed :: "store \<Rightarrow> bool" where
  "bootstrap_completed s = human_auth_state s"

definition set_bootstrap_completed :: "store \<Rightarrow> bool \<Rightarrow> store" where
  "set_bootstrap_completed s completed = s\<lparr>human_auth_state := completed\<rparr>"

definition recoverable_root :: "user_row \<Rightarrow> bool" where
  "recoverable_root r \<longleftrightarrow> usr_role r = RoleRoot \<and> usr_password_hash r \<noteq> None \<and> usr_disabled_at r = None"

definition count_recoverable_roots :: "store \<Rightarrow> nat" where
  "count_recoverable_roots s = length (filter recoverable_root (users s))"

definition ensure_not_last_recoverable_root :: "store \<Rightarrow> uuid \<Rightarrow> unit store_result" where
  "ensure_not_last_recoverable_root s i =
     (if count_recoverable_roots s \<le> 1 \<and> exists_row (\<lambda>r. usr_id r = i \<and> recoverable_root r) (users s)
      then Inl (InvalidState ''cannot demote or disable the last recoverable root'')
      else Inr ())"

section \<open>Unique indexes of users\<close>

text \<open>\<^verbatim>\<open>COLLATE NOCASE\<close> folds the ASCII capitals.\<close>

definition nocase :: "ustr \<Rightarrow> ustr" where
  "nocase s = map (\<lambda>c. if 0x41 \<le> c \<and> c \<le> 0x5A then c + 32 else c) s"

definition email_taken :: "store \<Rightarrow> uuid \<Rightarrow> ustr option \<Rightarrow> bool" where
  "email_taken s i email =
     (case email of None \<Rightarrow> False
      | Some e \<Rightarrow> exists_row (\<lambda>r. usr_id r \<noteq> i \<and> map_option nocase (usr_email r) = Some (nocase e)) (users s))"

text \<open>\<^verbatim>\<open>INSERT INTO users\<close> under \<^verbatim>\<open>map_unique_violation\<close>.\<close>

definition insert_user_row :: "store \<Rightarrow> user_row \<Rightarrow> store store_result" where
  "insert_user_row s r =
     (if exists_row (\<lambda>x. usr_id x = usr_id r) (users s)
      then Inl (Duplicate (lit ''UNIQUE constraint failed: users.id''))
      else if exists_row (\<lambda>x. usr_username x = usr_username r) (users s)
      then Inl (Duplicate (lit ''username already taken''))
      else if email_taken s (usr_id r) (usr_email r) then Inl (Duplicate (lit ''email already in use''))
      else Inr (s\<lparr>users := users s @ [r]\<rparr>))"

definition human_row ::
  "uuid \<Rightarrow> ustr \<Rightarrow> ustr option \<Rightarrow> ustr option \<Rightarrow> int \<Rightarrow> user_role \<Rightarrow> ustr option \<Rightarrow> bool \<Rightarrow> user_row" where
  "human_row i username name email now role phc must_change =
     \<lparr>usr_id = i, usr_username = username, usr_name = name, usr_email = email, usr_created_at = now,
      usr_last_seen_at = None, usr_role = role, usr_password_hash = phc, usr_must_change_password = must_change,
      usr_disabled_at = None\<rparr>"

definition insert_human_user ::
  "store \<Rightarrow> uuid \<Rightarrow> int \<Rightarrow> new_user \<Rightarrow> user_role \<Rightarrow> ustr option \<Rightarrow> bool \<Rightarrow> (store \<times> uuid) store_result" where
  "insert_human_user s i now nu role phc must_change =
     and_then (insert_user_row s (human_row i (nu_username nu) (nu_name nu) (nu_email nu) now role phc must_change))
       (\<lambda>s'. Inr (s', i))"

section \<open>Web sessions\<close>

definition session_ttl_micros :: int where "session_ttl_micros = 7 * 24 * 60 * 60 * 1000000"

definition session_touch_min_micros :: int where "session_touch_min_micros = 60 * 1000000"

text \<open>\<^verbatim>\<open>i64::saturating_add\<close>.\<close>

definition saturating_add :: "int \<Rightarrow> int \<Rightarrow> int" where
  "saturating_add a b = min (2 ^ 63 - 1) (Orderings.max (- (2 ^ 63)) (a + b))"

record web_session =
  ws_id :: uuid
  ws_user :: uuid
  ws_expires_at :: int

record live_web_session =
  lw_id :: uuid
  lw_csrf_hash :: digest
  lw_expires_at :: int
  lw_last_used_at :: int
  lw_user :: user

definition insert_web_session ::
  "store \<Rightarrow> uuid \<Rightarrow> int \<Rightarrow> uuid \<Rightarrow> digest \<Rightarrow> digest \<Rightarrow> (store \<times> web_session) store_result" where
  "insert_web_session s i created_at user_id session_hash csrf_hash =
     (let expires_at = saturating_add created_at session_ttl_micros in
      if exists_row (\<lambda>r. web_id r = i \<or> web_session_hash r = session_hash) (web_sessions s)
      then Inl (Sqlite ''UNIQUE constraint failed: web_sessions'')
      else if \<not> exists_row (\<lambda>u. usr_id u = user_id) (users s)
      then Inl (Sqlite ''FOREIGN KEY constraint failed'')
      else Inr (s\<lparr>web_sessions := web_sessions s @
          [\<lparr>web_id = i, web_session_hash = session_hash, web_user = user_id, web_csrf_hash = csrf_hash,
            web_created_at = created_at, web_last_used_at = created_at, web_expires_at = expires_at,
            web_revoked_at = None\<rparr>]\<rparr>,
        \<lparr>ws_id = i, ws_user = user_id, ws_expires_at = expires_at\<rparr>))"

definition rotate_web_session_secrets :: "store \<Rightarrow> uuid \<Rightarrow> digest \<Rightarrow> digest \<Rightarrow> (store \<times> bool) store_result" where
  "rotate_web_session_secrets s i session_hash csrf_hash =
     (let hit = (\<lambda>r. web_id r = i \<and> web_revoked_at r = None) in
      if exists_row hit (web_sessions s)
         \<and> exists_row (\<lambda>r. web_id r \<noteq> i \<and> web_session_hash r = session_hash) (web_sessions s)
      then Inl (Sqlite ''UNIQUE constraint failed: web_sessions.session_hash'')
      else Inr (s\<lparr>web_sessions := update_where hit
             (\<lambda>r. r\<lparr>web_session_hash := session_hash, web_csrf_hash := csrf_hash\<rparr>) (web_sessions s)\<rparr>,
           exists_row hit (web_sessions s)))"

text \<open>\<^verbatim>\<open>revoked_at = COALESCE(revoked_at, now)\<close>: the first revocation time stays.\<close>

definition revoke_row :: "int \<Rightarrow> web_session_row \<Rightarrow> web_session_row" where
  "revoke_row now r = r\<lparr>web_revoked_at := (case web_revoked_at r of None \<Rightarrow> Some now | Some t \<Rightarrow> Some t)\<rparr>"

definition revoke_user_sessions :: "store \<Rightarrow> int \<Rightarrow> uuid \<Rightarrow> uuid option \<Rightarrow> store" where
  "revoke_user_sessions s now user_id keep =
     s\<lparr>web_sessions := update_where (\<lambda>r. web_user r = user_id \<and> keep \<noteq> Some (web_id r)) (revoke_row now)
         (web_sessions s)\<rparr>"

definition revoke_session_by_hash :: "store \<Rightarrow> int \<Rightarrow> digest \<Rightarrow> store \<times> bool" where
  "revoke_session_by_hash s now h =
     (s\<lparr>web_sessions := update_where (\<lambda>r. web_session_hash r = h) (revoke_row now) (web_sessions s)\<rparr>,
      exists_row (\<lambda>r. web_session_hash r = h) (web_sessions s))"

definition session_live :: "int \<Rightarrow> web_session_row \<Rightarrow> bool" where
  "session_live now r \<longleftrightarrow> web_revoked_at r = None \<and> now < web_expires_at r"

text \<open>The inner join with \<^verbatim>\<open>users\<close>: a session whose user is missing is not found.\<close>

definition find_live_session_by_hash :: "store \<Rightarrow> digest \<Rightarrow> int \<Rightarrow> live_web_session option" where
  "find_live_session_by_hash s h now =
     Option.bind (find (\<lambda>r. web_session_hash r = h \<and> session_live now r) (web_sessions s)) (\<lambda>r.
       map_option (\<lambda>u. \<lparr>lw_id = web_id r, lw_csrf_hash = web_csrf_hash r, lw_expires_at = web_expires_at r,
           lw_last_used_at = web_last_used_at r, lw_user = row_to_user u\<rparr>)
         (find (\<lambda>u. usr_id u = web_user r) (users s)))"

definition touch_web_session :: "store \<Rightarrow> uuid \<Rightarrow> int \<Rightarrow> store \<times> bool" where
  "touch_web_session s i last_used_at =
     (let hit = (\<lambda>r. web_id r = i \<and> session_touch_min_micros \<le> last_used_at - web_last_used_at r) in
      (s\<lparr>web_sessions := update_where hit (\<lambda>r. r\<lparr>web_last_used_at := last_used_at\<rparr>) (web_sessions s)\<rparr>,
       exists_row hit (web_sessions s)))"

section \<open>Account operations\<close>

text \<open>
  The promotion of an existing row in \<^verbatim>\<open>bootstrap_root\<close> and \<^verbatim>\<open>recover_root\<close>: root, enabled, with a new
  password; a display name or email only replaces the stored one when it is given. Its unique violation
  is a plain SQL error.
\<close>

definition promote_root ::
  "store \<Rightarrow> uuid \<Rightarrow> ustr option \<Rightarrow> ustr option \<Rightarrow> ustr \<Rightarrow> bool \<Rightarrow> store store_result" where
  "promote_root s i name email phc must_change =
     (if email_taken s i email then Inl (Sqlite ''UNIQUE constraint failed: users.email'')
      else Inr (s\<lparr>users := update_where (\<lambda>r. usr_id r = i)
        (\<lambda>r. r\<lparr>usr_role := RoleRoot, usr_password_hash := Some phc, usr_must_change_password := must_change,
                usr_disabled_at := None, usr_name := (if name = None then usr_name r else name),
                usr_email := (if email = None then usr_email r else email)\<rparr>) (users s)\<rparr>))"

definition install_root ::
  "store \<Rightarrow> uuid \<Rightarrow> int \<Rightarrow> ustr \<Rightarrow> ustr option \<Rightarrow> ustr option \<Rightarrow> ustr \<Rightarrow> bool \<Rightarrow> (store \<times> uuid) store_result" where
  "install_root s i now username name email phc must_change =
     (case find_user_by_username s username of
        Some existing \<Rightarrow>
          and_then (promote_root s (u_id existing) name email phc must_change) (\<lambda>s'. Inr (s', u_id existing))
      | None \<Rightarrow>
          and_then (insert_user_row s (human_row i username name email now RoleRoot (Some phc) must_change))
            (\<lambda>s'. Inr (s', i)))"

definition bootstrap_root ::
  "store \<Rightarrow> uuid \<Rightarrow> int \<Rightarrow> ustr \<Rightarrow> ustr option \<Rightarrow> ustr option \<Rightarrow> ustr \<Rightarrow> (store \<times> uuid) store_result" where
  "bootstrap_root s i now username name email phc =
     (if bootstrap_completed s then Inl (InvalidState ''bootstrap already completed'')
      else and_then (install_root s i now username name email phc True) (\<lambda>(s', u).
        Inr (set_bootstrap_completed s' True, u)))"

definition recover_root ::
  "store \<Rightarrow> uuid \<Rightarrow> int \<Rightarrow> int \<Rightarrow> ustr \<Rightarrow> ustr option \<Rightarrow> ustr option \<Rightarrow> ustr \<Rightarrow> (store \<times> uuid) store_result" where
  "recover_root s i now revoke_now username name email phc =
     and_then (install_root s i now username name email phc False) (\<lambda>(s', u).
       Inr (set_bootstrap_completed (revoke_user_sessions s' revoke_now u None) True, u))"

definition reset_human_password :: "store \<Rightarrow> int \<Rightarrow> uuid \<Rightarrow> ustr \<Rightarrow> bool \<Rightarrow> store \<times> bool" where
  "reset_human_password s revoke_now user_id phc must_change =
     (if \<not> exists_row (\<lambda>r. usr_id r = user_id) (users s) then (s, False)
      else (revoke_user_sessions (s\<lparr>users := update_where (\<lambda>r. usr_id r = user_id)
              (\<lambda>r. r\<lparr>usr_password_hash := Some phc, usr_must_change_password := must_change\<rparr>) (users s)\<rparr>)
              revoke_now user_id None, True))"

definition password_current :: "store \<Rightarrow> uuid \<Rightarrow> ustr \<Rightarrow> bool" where
  "password_current s user_id expected =
     (case find (\<lambda>r. usr_id r = user_id) (users s) of
        None \<Rightarrow> False
      | Some r \<Rightarrow> usr_password_hash r = Some expected \<and> usr_disabled_at r = None)"

definition change_password ::
  "store \<Rightarrow> int \<Rightarrow> int \<Rightarrow> uuid \<Rightarrow> ustr \<Rightarrow> ustr \<Rightarrow> uuid \<Rightarrow> digest \<Rightarrow> digest \<Rightarrow> (store \<times> bool) store_result" where
  "change_password s now revoke_now user_id expected phc session_id session_hash csrf_hash =
     (if \<not> password_current s user_id expected then Inl (InvalidState ''credentials changed concurrently'')
      else if \<not> exists_row (\<lambda>r. web_id r = session_id \<and> web_user r = user_id \<and> session_live now r) (web_sessions s)
      then Inl (InvalidState ''session changed concurrently'')
      else and_then
        (rotate_web_session_secrets
           (revoke_user_sessions (s\<lparr>users := update_where (\<lambda>r. usr_id r = user_id)
              (\<lambda>r. r\<lparr>usr_password_hash := Some phc, usr_must_change_password := False\<rparr>) (users s)\<rparr>)
              revoke_now user_id (Some session_id))
           session_id session_hash csrf_hash)
        (\<lambda>(s', rotated). if rotated then Inr (s', True) else Inl (InvalidState ''session changed concurrently'')))"

definition issue_web_session ::
  "store \<Rightarrow> uuid \<Rightarrow> int \<Rightarrow> uuid \<Rightarrow> ustr \<Rightarrow> user_role \<Rightarrow> bool \<Rightarrow> digest \<Rightarrow> digest \<Rightarrow> (store \<times> web_session) store_result" where
  "issue_web_session s i now user_id expected_phc expected_role expected_must_change session_hash csrf_hash =
     (case find (\<lambda>r. usr_id r = user_id) (users s) of
        None \<Rightarrow> Inl (NotFound ''user'')
      | Some r \<Rightarrow>
          if usr_disabled_at r \<noteq> None \<or> usr_password_hash r \<noteq> Some expected_phc \<or> usr_role r \<noteq> expected_role
             \<or> usr_must_change_password r \<noteq> expected_must_change
          then Inl (InvalidState ''credentials no longer valid'')
          else insert_web_session s i now user_id session_hash csrf_hash)"

definition guards_last_root :: "store \<Rightarrow> user \<Rightarrow> unit store_result" where
  "guards_last_root s u =
     (if u_role u = RoleRoot \<and> u_has_password u \<and> u_disabled_at u = None
      then ensure_not_last_recoverable_root s (u_id u) else Inr ())"

definition disable_users :: "store \<Rightarrow> int \<Rightarrow> uuid \<Rightarrow> bool \<Rightarrow> store" where
  "disable_users s now user_id disabled =
     s\<lparr>users := update_where (\<lambda>r. usr_id r = user_id)
       (\<lambda>r. r\<lparr>usr_disabled_at :=
          (if disabled then (case usr_disabled_at r of None \<Rightarrow> Some now | Some t \<Rightarrow> Some t) else None)\<rparr>) (users s)\<rparr>"

definition set_user_disabled ::
  "store \<Rightarrow> int \<Rightarrow> int \<Rightarrow> uuid \<Rightarrow> bool \<Rightarrow> (store \<times> bool) store_result" where
  "set_user_disabled s now revoke_now user_id disabled =
     (case find_user_by_id s user_id of
        None \<Rightarrow> Inr (s, False)
      | Some u \<Rightarrow>
          and_then (if disabled then guards_last_root s u else Inr ()) (\<lambda>_.
            let s' = disable_users s now user_id disabled in
            Inr (if disabled then revoke_user_sessions s' revoke_now user_id None else s',
                 exists_row (\<lambda>r. usr_id r = user_id) (users s))))"

definition set_user_column :: "store \<Rightarrow> uuid \<Rightarrow> (user_row \<Rightarrow> user_row) \<Rightarrow> store" where
  "set_user_column s i f = s\<lparr>users := update_where (\<lambda>r. usr_id r = i) f (users s)\<rparr>"

definition patch_user ::
  "store \<Rightarrow> uuid \<Rightarrow> ustr option option \<Rightarrow> ustr option option \<Rightarrow> user_role option \<Rightarrow> (store \<times> bool) store_result" where
  "patch_user s user_id name email role =
     (case find_user_by_id s user_id of
        None \<Rightarrow> Inr (s, False)
      | Some u \<Rightarrow>
          and_then (if role = Some RoleUser then guards_last_root s u else Inr ()) (\<lambda>_.
            let s1 = (case name of None \<Rightarrow> s | Some n \<Rightarrow> set_user_column s user_id (\<lambda>r. r\<lparr>usr_name := n\<rparr>)) in
            and_then
              (case email of None \<Rightarrow> Inr s1
               | Some e \<Rightarrow> if email_taken s1 user_id e then Inl (Duplicate (lit ''email already in use''))
                   else Inr (set_user_column s1 user_id (\<lambda>r. r\<lparr>usr_email := e\<rparr>)))
              (\<lambda>s2. Inr (case role of None \<Rightarrow> s2
                 | Some r' \<Rightarrow> set_user_column s2 user_id (\<lambda>r. r\<lparr>usr_role := r'\<rparr>), True))))"

definition touch_user_last_seen :: "store \<Rightarrow> int \<Rightarrow> uuid \<Rightarrow> store \<times> bool" where
  "touch_user_last_seen s now user_id =
     (set_user_column s user_id (\<lambda>r. r\<lparr>usr_last_seen_at := Some now\<rparr>),
      exists_row (\<lambda>r. usr_id r = user_id) (users s))"

section \<open>What validation admits\<close>

lemma username_chars_ok_iff:
  "username_chars_ok s = Inr () \<longleftrightarrow> (\<forall>c \<in> set s. \<not> is_control c \<and> \<not> is_whitespace c \<and> c \<notin> set username_separators)"
  by (induction s) auto

lemma email_chars_ok_iff: "email_chars_ok s = Inr () \<longleftrightarrow> (\<forall>c \<in> set s. \<not> is_control c \<and> \<not> is_whitespace c)"
  by (induction s) auto

lemma validate_email_parts:
  "validate_email s = Inr () \<longleftrightarrow> length s \<le> max_email_len \<and> (\<forall>c \<in> set s. \<not> is_control c \<and> \<not> is_whitespace c)
     \<and> (\<exists>a b. split_all 0x40 s = [a, b] \<and> a \<noteq> [] \<and> b \<noteq> [])"
proof -
  have parts: "(\<exists>a b. ps = [a, b] \<and> a \<noteq> [] \<and> b \<noteq> []) \<longleftrightarrow> \<not> 2 < length ps \<and> (case ps of [] \<Rightarrow> [] | p # _ \<Rightarrow> p) \<noteq> []
      \<and> (case ps of _ # p # _ \<Rightarrow> p | _ \<Rightarrow> []) \<noteq> []" for ps :: "ustr list"
  proof (cases ps)
    case (Cons p qs)
    show ?thesis
    proof (cases qs)
      case (Cons q rs)
      then show ?thesis using \<open>ps = p # qs\<close> by (cases rs) simp_all
    qed (simp add: \<open>ps = p # qs\<close>)
  qed simp
  show ?thesis
    unfolding validate_email_def parts Let_def by (auto simp: and_then_Inr_iff email_chars_ok_iff)
qed

text \<open>
  What the validators admit, exactly: a username is 1 to 64 characters without control, whitespace or separator
  characters; an email is at most 254 characters without control or whitespace, with exactly one \<^verbatim>\<open>@\<close> between two
  nonempty parts; a password has 12 to 1024 bytes, none of the shapes of a session secret or API key, and is neither
  the username nor a reserved secret.
\<close>

theorem validators_characterized:
  "(validate_username s = Inr () \<longleftrightarrow> s \<noteq> [] \<and> length s \<le> 64
      \<and> (\<forall>c \<in> set s. \<not> is_control c \<and> \<not> is_whitespace c \<and> c \<notin> set username_separators))
   \<and> (validate_email s = Inr () \<longleftrightarrow> length s \<le> 254 \<and> (\<forall>c \<in> set s. \<not> is_control c \<and> \<not> is_whitespace c)
      \<and> (\<exists>local domain. s = local @ 0x40 # domain \<and> local \<noteq> [] \<and> domain \<noteq> []
            \<and> 0x40 \<notin> set local \<and> 0x40 \<notin> set domain))
   \<and> (validate_human_password s username reserved = Inr () \<longleftrightarrow> 12 \<le> byte_len s \<and> byte_len s \<le> 1024
      \<and> \<not> prefix (lit ''ams_'') s \<and> \<not> prefix (lit ''aim_'') s \<and> \<not> prefix (lit ''amk_'') s
      \<and> username \<noteq> Some s \<and> s \<notin> set reserved - {[]})"
proof -
  have pw: "validate_human_password s username reserved = Inr () \<longleftrightarrow> 12 \<le> byte_len s \<and> byte_len s \<le> 1024
      \<and> \<not> prefix (lit ''ams_'') s \<and> \<not> prefix (lit ''aim_'') s \<and> \<not> prefix (lit ''amk_'') s
      \<and> username \<noteq> Some s \<and> s \<notin> set reserved - {[]}"
    by (auto simp: validate_human_password_def min_human_password_bytes_def max_human_password_bytes_def
        credential_prefixes_def Let_def list_ex_iff)
  have un: "validate_username s = Inr () \<longleftrightarrow> s \<noteq> [] \<and> length s \<le> 64
      \<and> (\<forall>c \<in> set s. \<not> is_control c \<and> \<not> is_whitespace c \<and> c \<notin> set username_separators)"
    by (auto simp: validate_username_def max_username_len_def username_chars_ok_iff)
  have em: "validate_email s = Inr () \<longleftrightarrow> length s \<le> 254 \<and> (\<forall>c \<in> set s. \<not> is_control c \<and> \<not> is_whitespace c)
      \<and> (\<exists>local domain. s = local @ 0x40 # domain \<and> local \<noteq> [] \<and> domain \<noteq> []
            \<and> 0x40 \<notin> set local \<and> 0x40 \<notin> set domain)"
    unfolding validate_email_parts split_all_pair max_email_len_def by blast
  show ?thesis by (intro conjI pw un em)
qed

theorem validators_characterized_witness:
  "validate_email (lit ''a@b'') = Inr () \<and> validate_username (lit ''a@b'') = Inr ()
   \<and> validate_human_password (lit ''aim_0123456789'') None [] \<noteq> Inr ()"
proof -
  have e: "lit ''a@b'' = lit ''a'' @ 0x40 # lit ''b''" "(0x40::nat) \<notin> set (lit ''a'')" "(0x40::nat) \<notin> set (lit ''b'')"
    "lit ''a'' \<noteq> []" "lit ''b'' \<noteq> []"
    by (simp_all add: lit_def)
  have c: "\<forall>c \<in> set (lit ''a@b''). \<not> is_control c \<and> \<not> is_whitespace c \<and> c \<notin> set username_separators"
    by (simp add: lit_def is_control_def is_whitespace_def username_separators_def)
  have "prefix (lit ''aim_'') (lit ''aim_0123456789'')" by (simp add: lit_def)
  then have "validate_human_password (lit ''aim_0123456789'') None [] \<noteq> Inr ()"
    using validators_characterized[of "lit ''aim_0123456789''" None "[]"] by blast
  moreover have "validate_username (lit ''a@b'') = Inr ()"
    using validators_characterized[of "lit ''a@b''" None "[]"] c by (simp add: lit_def)
  moreover have "validate_email (lit ''a@b'') = Inr ()"
  proof -
    have "length (lit ''a@b'') \<le> 254" by (simp add: lit_def)
    moreover have "\<exists>local domain. lit ''a@b'' = local @ 0x40 # domain \<and> local \<noteq> [] \<and> domain \<noteq> []
            \<and> 0x40 \<notin> set local \<and> 0x40 \<notin> set domain" using e by blast
    ultimately show ?thesis using validators_characterized[of "lit ''a@b''" None "[]"] c by blast
  qed
  ultimately show ?thesis by blast
qed

interpretation user_role_wire: wire_codec user_role_str
  "\<lambda>v. case user_role_parse v of Inl _ \<Rightarrow> None | Inr r \<Rightarrow> Some r" "\<lambda>_. True"
  by unfold_locales (simp add: user_role_str_def user_role_parse_def split: user_role.splits)

end
