(* ===== verification/Grants.thy ===== *)
theory Grants
  imports Accounts
begin

text \<open>
  \<^verbatim>\<open>crates/ai-memory-store/src/grants.rs\<close>: the grants and access modes that the authorization choke point of
  \<open>Authz\<close> reads, and the root-only operations that change them. The text of an audit detail is made by
  \<^verbatim>\<open>serde_json\<close> and by the display form of a UUID; both are arguments (\<open>grants_env\<close>). The primary key of
  \<^verbatim>\<open>project_grants\<close> orders its rows, so a scan returns them by workspace.
\<close>

record grants_env =
  ge_json :: "(string \<times> ustr option) list \<Rightarrow> ustr"
  ge_uuid_text :: "uuid \<Rightarrow> ustr"

record project_grant =
  pg_workspace :: uuid
  pg_project :: uuid
  pg_user :: uuid
  pg_level :: grant_level
  pg_granted_by :: "uuid option"
  pg_granted_at :: int

datatype grant_outcome = Granted_new | LevelChanged grant_level | Unchanged

datatype grant_filter = AllGrants | UserGrants uuid | ProjectGrants uuid

record grant_listing =
  gl_username :: ustr
  gl_workspace :: ustr
  gl_project :: ustr
  gl_level :: grant_level

definition access_mode_of :: "store \<Rightarrow> uuid \<Rightarrow> access_mode option" where
  "access_mode_of s project =
     map_option (\<lambda>p. access_mode_from_db (Some (prj_access_mode p))) (find (\<lambda>p. prj_id p = project) (projects s))"

definition set_access_mode :: "store \<Rightarrow> uuid \<Rightarrow> access_mode \<Rightarrow> store \<times> access_mode option" where
  "set_access_mode s project mode =
     (case access_mode_of s project of
        None \<Rightarrow> (s, None)
      | Some previous \<Rightarrow>
          (s\<lparr>projects := update_where (\<lambda>p. prj_id p = project) (\<lambda>p. p\<lparr>prj_access_mode := access_mode_str mode\<rparr>) (projects s)\<rparr>,
           Some previous))"

definition would_be_refused :: "store \<Rightarrow> uuid \<Rightarrow> user_row \<Rightarrow> bool" where
  "would_be_refused s project u \<longleftrightarrow> usr_role u \<noteq> RoleRoot \<and> usr_disabled_at u = None
     \<and> \<not> exists_row (\<lambda>p. prj_id p = project \<and> prj_created_by p = Some (usr_id u)) (projects s)
     \<and> \<not> exists_row (\<lambda>g. grt_user g = usr_id u \<and> grt_project g = project) (project_grants s)"

definition authors_without_grant :: "store \<Rightarrow> uuid \<Rightarrow> ustr list" where
  "authors_without_grant s project =
     sort (remdups (map usr_username
       (concat (map (\<lambda>p. filter (\<lambda>u. pag_author p = Some (usr_id u) \<and> would_be_refused s project u) (users s))
         (filter (\<lambda>p. pag_project p = project) (pages s))))))"

text \<open>A row with a level that cannot be read is skipped.\<close>

definition parse_grant :: "grant_row \<Rightarrow> project_grant option" where
  "parse_grant g = map_option (\<lambda>level. \<lparr>pg_workspace = grt_workspace g, pg_project = grt_project g, pg_user = grt_user g,
     pg_level = level, pg_granted_by = grt_granted_by g, pg_granted_at = grt_granted_at g\<rparr>) (grant_level_from_db (grt_level g))"

definition grants_for :: "store \<Rightarrow> uuid \<Rightarrow> uuid \<Rightarrow> project_grant list" where
  "grants_for s user_id project =
     List.map_filter parse_grant
       (sort_key grt_workspace (filter (\<lambda>g. grt_user g = user_id \<and> grt_project g = project) (project_grants s)))"

definition held_grant :: "store \<Rightarrow> uuid \<Rightarrow> uuid \<Rightarrow> project_grant option" where
  "held_grant s user_id project = (case grants_for s user_id project of [] \<Rightarrow> None | g # _ \<Rightarrow> Some g)"

text \<open>The author of an audit row is a foreign key into \<^verbatim>\<open>users\<close>.\<close>

definition user_ref_ok :: "store \<Rightarrow> uuid option \<Rightarrow> bool" where
  "user_ref_ok s r = (case r of None \<Rightarrow> True | Some u \<Rightarrow> exists_row (\<lambda>x. usr_id x = u) (users s))"

definition audit_grant ::
  "store \<Rightarrow> string \<Rightarrow> uuid \<Rightarrow> uuid \<Rightarrow> uuid option \<Rightarrow> ustr \<Rightarrow> int \<Rightarrow> store store_result" where
  "audit_grant s op workspace project by_user detail now =
     (if user_ref_ok s by_user
      then Inr (audit_with_detail s op (Some workspace) (Some project) None by_user now detail)
      else Inl (Sqlite ''FOREIGN KEY constraint failed''))"

text \<open>\<^verbatim>\<open>INSERT \<dots> ON CONFLICT (workspace_id, project_id, user_id) DO UPDATE\<close>.\<close>

definition grant_key :: "uuid \<Rightarrow> uuid \<Rightarrow> uuid \<Rightarrow> grant_row \<Rightarrow> bool" where
  "grant_key workspace project user_id g \<longleftrightarrow>
     grt_workspace g = workspace \<and> grt_project g = project \<and> grt_user g = user_id"

definition upsert_grant :: "store \<Rightarrow> grant_row \<Rightarrow> store store_result" where
  "upsert_grant s row =
     (let same = grant_key (grt_workspace row) (grt_project row) (grt_user row) in
      if \<not> user_ref_ok s (Some (grt_user row)) \<or> \<not> user_ref_ok s (grt_granted_by row)
      then Inl (Sqlite ''FOREIGN KEY constraint failed'')
      else if exists_row same (project_grants s)
      then Inr (s\<lparr>project_grants := update_where same
             (\<lambda>g. g\<lparr>grt_level := grt_level row, grt_granted_by := grt_granted_by row, grt_granted_at := grt_granted_at row\<rparr>)
             (project_grants s)\<rparr>)
      else Inr (s\<lparr>project_grants := project_grants s @ [row]\<rparr>))"

definition grant_outcome_of :: "project_grant option \<Rightarrow> grant_level \<Rightarrow> grant_outcome" where
  "grant_outcome_of held level =
     (case held of None \<Rightarrow> Granted_new
      | Some h \<Rightarrow> if pg_level h = level then Unchanged else LevelChanged (pg_level h))"

definition grant ::
  "grants_env \<Rightarrow> store \<Rightarrow> uuid \<Rightarrow> uuid \<Rightarrow> grant_level \<Rightarrow> uuid option \<Rightarrow> int \<Rightarrow> (store \<times> grant_outcome) store_result" where
  "grant env s user_id project level granted_by now =
     (let held = held_grant s user_id project;
          outcome = grant_outcome_of held level
      in if outcome = Unchanged then Inr (s, Unchanged)
         else case find (\<lambda>p. prj_id p = project) (projects s) of
           None \<Rightarrow> Inl (NotFound ''project'')
         | Some p \<Rightarrow>
             and_then (upsert_grant s \<lparr>grt_workspace = prj_workspace p, grt_project = project, grt_user = user_id,
                 grt_level = grant_level_str level, grt_granted_by = granted_by, grt_granted_at = now\<rparr>)
               (\<lambda>s'. and_then (audit_grant s' ''grant_access'' (prj_workspace p) project granted_by
                  (ge_json env [(''user_id'', Some (ge_uuid_text env user_id)), (''level'', Some (grant_level_str level)),
                     (''previous'', map_option (\<lambda>h. grant_level_str (pg_level h)) held)]) now)
                  (\<lambda>s''. Inr (s'', outcome))))"

text \<open>
  The statements of \<^verbatim>\<open>grant\<close> and \<^verbatim>\<open>revoke\<close> are not in one transaction. The audit row of a grant cannot fail
  once the grant row, which has the same reference to its granter, was written. The one of a revocation can, and
  the deletion stays: the store is returned beside the result.
\<close>

definition revoke ::
  "grants_env \<Rightarrow> store \<Rightarrow> uuid \<Rightarrow> uuid \<Rightarrow> uuid option \<Rightarrow> int \<Rightarrow> store \<times> bool store_result" where
  "revoke env s user_id project revoked_by now =
     (case held_grant s user_id project of
        None \<Rightarrow> (s, Inr False)
      | Some held \<Rightarrow>
          let s' = s\<lparr>project_grants := filter (\<lambda>g. \<not> (grt_user g = user_id \<and> grt_project g = project)) (project_grants s)\<rparr>
          in case audit_grant s' ''revoke_access'' (pg_workspace held) project revoked_by
               (ge_json env [(''user_id'', Some (ge_uuid_text env user_id)), (''level'', Some (grant_level_str (pg_level held)))]) now of
             Inl e \<Rightarrow> (s', Inl e)
           | Inr s'' \<Rightarrow> (s'', Inr True))"

definition listed_by :: "grant_filter \<Rightarrow> grant_row \<Rightarrow> bool" where
  "listed_by f g = (case f of AllGrants \<Rightarrow> True | UserGrants u \<Rightarrow> grt_user g = u | ProjectGrants p \<Rightarrow> grt_project g = p)"

definition listing_rows :: "store \<Rightarrow> grant_filter \<Rightarrow> (ustr \<times> ustr \<times> ustr \<times> ustr) list" where
  "listing_rows s f =
     concat (map (\<lambda>g. concat (map (\<lambda>u. concat (map (\<lambda>p. map (\<lambda>w. (usr_username u, wsp_name w, prj_name p, grt_level g))
           (filter (\<lambda>w. wsp_id w = grt_workspace g) (workspaces s)))
         (filter (\<lambda>p. prj_id p = grt_project g) (projects s))))
       (filter (\<lambda>u. usr_id u = grt_user g) (users s))))
     (filter (listed_by f) (project_grants s)))"

definition list_grants :: "store \<Rightarrow> grant_filter \<Rightarrow> grant_listing list" where
  "list_grants s f =
     List.map_filter (\<lambda>(username, workspace, project, level).
         map_option (\<lambda>l. \<lparr>gl_username = username, gl_workspace = workspace, gl_project = project, gl_level = l\<rparr>)
           (grant_level_from_db level))
       (sort_key (\<lambda>(username, workspace, project, level). (workspace, project, username)) (listing_rows s f))"

section \<open>The table\<close>

text \<open>
  At most one grant per user and project, under the workspace the project lives in, with a level that can be read; and
  one row per project.
\<close>

definition grants_ok :: "store \<Rightarrow> bool" where
  "grants_ok s \<longleftrightarrow> unique_on (\<lambda>_. True) (\<lambda>g. (grt_user g, grt_project g)) (project_grants s)
     \<and> unique_on (\<lambda>_. True) prj_id (projects s)
     \<and> (\<forall>g \<in> set (project_grants s). grant_level_from_db (grt_level g) \<noteq> None)
     \<and> (\<forall>g \<in> set (project_grants s). \<exists>p \<in> set (projects s). prj_id p = grt_project g \<and> prj_workspace p = grt_workspace g)"

lemma grants_okD:
  assumes "grants_ok s"
  shows "unique_on (\<lambda>_. True) (\<lambda>g. (grt_user g, grt_project g)) (project_grants s)" "unique_on (\<lambda>_. True) prj_id (projects s)"
    "g \<in> set (project_grants s) \<Longrightarrow> grant_level_from_db (grt_level g) \<noteq> None"
    "g \<in> set (project_grants s) \<Longrightarrow> \<exists>p \<in> set (projects s). prj_id p = grt_project g \<and> prj_workspace p = grt_workspace g"
  using assms by (simp_all add: grants_ok_def)

abbreviation grant_of :: "store \<Rightarrow> uuid \<Rightarrow> uuid \<Rightarrow> grant_row option" where
  "grant_of s u p \<equiv> find (\<lambda>g. grt_user g = u \<and> grt_project g = p) (project_grants s)"

lemma find_filter: "find P xs = (case filter P xs of [] \<Rightarrow> None | x # _ \<Rightarrow> Some x)"
  by (induction xs) auto

lemma held_grant_find:
  assumes ok: "grants_ok s"
  shows "held_grant s u p = Option.bind (grant_of s u p) parse_grant"
proof -
  let ?P = "\<lambda>g. grt_user g = u \<and> grt_project g = p"
  have "length (filter ?P (project_grants s)) \<le> 1"
    by (rule unique_on_at_most_one[OF grants_okD(1)[OF ok]]) auto
  then consider "filter ?P (project_grants s) = []" | g where "filter ?P (project_grants s) = [g]"
    by (cases "filter ?P (project_grants s)") auto
  then show ?thesis
    by cases (auto simp: held_grant_def grants_for_def find_filter map_filter_simps split: option.splits)
qed

text \<open>The abstract state: who holds what.\<close>

definition access_map :: "store \<Rightarrow> uuid \<times> uuid \<Rightarrow> grant_level option" where
  "access_map s = (\<lambda>(u, p). map_option pg_level (held_grant s u p))"

lemma access_map_find:
  assumes "grants_ok s"
  shows "access_map s (u, p) = Option.bind (grant_of s u p) (\<lambda>g. grant_level_from_db (grt_level g))"
  unfolding access_map_def by (cases "grant_of s u p") (simp_all add: held_grant_find[OF assms] parse_grant_def option.map_comp o_def option.map_ident)

lemma project_by_id:
  assumes "grants_ok s" "p \<in> set (projects s)" "q \<in> set (projects s)" "prj_id p = prj_id q"
  shows "p = q"
  using unique_onD[OF grants_okD(2)[OF assms(1)] assms(2,3)] assms(4) by simp

lemma grant_workspace:
  assumes ok: "grants_ok s" and g: "g \<in> set (project_grants s)" and p: "p \<in> set (projects s)" "prj_id p = grt_project g"
  shows "grt_workspace g = prj_workspace p"
proof -
  obtain q where q: "q \<in> set (projects s)" "prj_id q = grt_project g" "prj_workspace q = grt_workspace g"
    using grants_okD(4)[OF ok g] by blast
  with project_by_id[OF ok q(1) p(1)] p(2) show ?thesis by simp
qed

text \<open>The row the strict resolution reads is the row the management operations change.\<close>

lemma read_grant_access:
  assumes ok: "grants_ok s" and p: "p \<in> set (projects s)" "prj_id p = project" "prj_workspace p = workspace"
  shows "read_grant None s workspace project u = Inr (access_map s (u, project))"
proof -
  have "grant_key workspace project u g \<longleftrightarrow> grt_user g = u \<and> grt_project g = project" if "g \<in> set (project_grants s)" for g
    using grant_workspace[OF ok that p(1)] p(2,3) by (auto simp: grant_key_def)
  then have "find (grant_key workspace project u) (project_grants s) = grant_of s u project"
    by (intro find_cong) simp_all
  then show ?thesis by (simp add: read_grant_def access_map_find[OF ok] grant_key_def[abs_def])
qed

section \<open>What the operations do\<close>

lemma audit_grant_Inr:
  "audit_grant s op w p b d now = Inr s' \<Longrightarrow> s' = audit_with_detail s op (Some w) (Some p) None b now d"
  by (simp add: audit_grant_def split: if_splits)

lemma grant_level_from_str [simp]: "grant_level_from_db (grant_level_str l) = Some l"
  by (rule grant_wire.dec_enc) simp

lemma upsert_grant_ok:
  assumes ok: "grants_ok s" and up: "upsert_grant s row = Inr s'" and pr: "pr \<in> set (projects s)" "prj_id pr = grt_project row"
    "prj_workspace pr = grt_workspace row" and l: "grt_level row = grant_level_str l"
  shows "grants_ok s' \<and> access_map s' = (access_map s)((grt_user row, grt_project row) \<mapsto> l)
    \<and> projects s' = projects s \<and> users s' = users s \<and> workspaces s' = workspaces s"
proof -
  let ?same = "grant_key (grt_workspace row) (grt_project row) (grt_user row)"
  let ?f = "\<lambda>g. g\<lparr>grt_level := grt_level row, grt_granted_by := grt_granted_by row, grt_granted_at := grt_granted_at row\<rparr>"
  have key: "?same g \<longleftrightarrow> grt_user g = grt_user row \<and> grt_project g = grt_project row" if "g \<in> set (project_grants s)" for g
    using grant_workspace[OF ok that pr(1)] pr(2,3) by (auto simp: grant_key_def)
  show ?thesis
  proof (cases "exists_row ?same (project_grants s)")
    case True
    then have s': "s' = s\<lparr>project_grants := update_where ?same ?f (project_grants s)\<rparr>"
      using up by (auto simp: upsert_grant_def Let_def simp del: exists_row_iff split: if_splits)
    have "unique_on (\<lambda>_. True) (\<lambda>g. (grt_user g, grt_project g)) (update_where ?same ?f (project_grants s))"
      using grants_okD(1)[OF ok] by (rule unique_on_update_where) simp
    then have ok': "grants_ok s'"
      using ok l by (simp add: grants_ok_def s' ball_update_where)
    have gs: "grant_of s' u p = map_option (\<lambda>g. if ?same g then ?f g else g) (grant_of s u p)" for u p
      by (simp add: s' find_update_where)
    have "access_map s' (u, p) = ((access_map s)((grt_user row, grt_project row) \<mapsto> l)) (u, p)" for u p
    proof (cases "grant_of s u p")
      case None
      with True key have "(u, p) \<noteq> (grt_user row, grt_project row)" by (auto simp: find_None_iff)
      then show ?thesis by (simp add: access_map_find[OF ok'] access_map_find[OF ok] gs None)
    next
      case (Some g)
      from find_SomeD[OF Some] have "?same g \<longleftrightarrow> (u, p) = (grt_user row, grt_project row)" using key by auto
      then show ?thesis using l by (simp add: access_map_find[OF ok'] access_map_find[OF ok] gs Some)
    qed
    then show ?thesis using ok' by (auto simp: s' fun_eq_iff)
  next
    case False
    then have s': "s' = s\<lparr>project_grants := project_grants s @ [row]\<rparr>"
      using up by (auto simp: upsert_grant_def Let_def simp del: exists_row_iff split: if_splits)
    have new: "\<not> (grt_user g = grt_user row \<and> grt_project g = grt_project row)" if "g \<in> set (project_grants s)" for g
      using False key[OF that] that by auto
    then have ok': "grants_ok s'"
      using ok l pr by (auto simp: grants_ok_def s' unique_on_append1)
    have "access_map s' (u, p) = ((access_map s)((grt_user row, grt_project row) \<mapsto> l)) (u, p)" for u p
    proof (cases "u = grt_user row \<and> p = grt_project row")
      case True
      then have "grant_of s u p = None" using new by (auto simp: find_None_iff)
      then have "grant_of s' u p = Some row" using True by (simp add: s' find_append)
      then show ?thesis using True l by (simp add: access_map_find[OF ok'])
    next
      case other: False
      then have "grant_of s' u p = grant_of s u p" by (cases "grant_of s u p") (auto simp: s' find_append)
      then show ?thesis using other by (auto simp: access_map_find[OF ok'] access_map_find[OF ok])
    qed
    then show ?thesis using ok' by (auto simp: s' fun_eq_iff)
  qed
qed

lemma audit_detail_access [simp]:
  "grants_ok (audit_with_detail s op w p g a t d) = grants_ok s"
  "access_map (audit_with_detail s op w p g a t d) = access_map s"
  by (simp_all add: grants_ok_def access_map_def held_grant_def grants_for_def audit_with_detail_def)

text \<open>When a grant is written: the project exists, and so do the user and the granter.\<close>

definition grant_admissible :: "store \<Rightarrow> uuid \<Rightarrow> uuid \<Rightarrow> uuid option \<Rightarrow> bool" where
  "grant_admissible s user_id project granted_by \<longleftrightarrow>
     exists_row (\<lambda>p. prj_id p = project) (projects s) \<and> user_ref_ok s (Some user_id) \<and> user_ref_ok s granted_by"

lemma upsert_grant_Inr:
  "user_ref_ok s (Some (grt_user row)) \<Longrightarrow> user_ref_ok s (grt_granted_by row) \<Longrightarrow>
     \<exists>s1. upsert_grant s row = Inr s1 \<and> users s1 = users s"
  by (simp add: upsert_grant_def Let_def)

lemma grant_succeeds:
  assumes "grant_admissible s u p b"
  shows "\<exists>s'. grant env s u p l b now = Inr (s', grant_outcome_of (held_grant s u p) l)"
proof -
  obtain pr where pr: "find (\<lambda>x. prj_id x = p) (projects s) = Some pr"
    using assms find_exists[of _ "projects s" "\<lambda>x. prj_id x = p"] by (auto simp: grant_admissible_def)
  obtain s1 where up: "upsert_grant s \<lparr>grt_workspace = prj_workspace pr, grt_project = p, grt_user = u,
       grt_level = grant_level_str l, grt_granted_by = b, grt_granted_at = now\<rparr> = Inr s1"
    and us: "users s1 = users s"
    using assms upsert_grant_Inr by (force simp: grant_admissible_def)
  have "user_ref_ok s1 b" using assms us by (cases b) (simp_all add: grant_admissible_def user_ref_ok_def)
  then show ?thesis by (simp add: grant_def Let_def pr up audit_grant_def)
qed

lemma grant_effect:
  assumes ok: "grants_ok s" and g: "grant env s u p l b now = Inr (s', out)"
  shows "grants_ok s' \<and> access_map s' = (access_map s)((u, p) \<mapsto> l) \<and> out = grant_outcome_of (held_grant s u p) l
    \<and> projects s' = projects s \<and> users s' = users s \<and> workspaces s' = workspaces s
    \<and> (out \<noteq> Unchanged \<longrightarrow> grant_admissible s u p b)"
proof (cases "grant_outcome_of (held_grant s u p) l = Unchanged")
  case True
  then have "access_map s (u, p) = Some l"
    by (auto simp: access_map_def grant_outcome_of_def split: option.splits if_splits)
  then have "(access_map s)((u, p) \<mapsto> l) = access_map s" by (simp add: fun_upd_idem)
  then show ?thesis using g True ok by (simp add: grant_def Let_def)
next
  case False
  let ?row = "\<lambda>pr. \<lparr>grt_workspace = prj_workspace pr, grt_project = p, grt_user = u,
       grt_level = grant_level_str l, grt_granted_by = b, grt_granted_at = now\<rparr>"
  from g False obtain pr s1 where pr: "find (\<lambda>x. prj_id x = p) (projects s) = Some pr" and up: "upsert_grant s (?row pr) = Inr s1"
    and s': "\<exists>d. s' = audit_with_detail s1 ''grant_access'' (Some (prj_workspace pr)) (Some p) None b now d"
    and out: "out = grant_outcome_of (held_grant s u p) l"
    by (auto simp: grant_def Let_def and_then_Inr_iff dest!: audit_grant_Inr split: option.splits)
  have "user_ref_ok s (Some u)" "user_ref_ok s b"
    using up by (auto simp: upsert_grant_def Let_def split: if_splits)
  moreover have mem: "pr \<in> set (projects s)" "prj_id pr = p" using find_SomeD[OF pr] by auto
  ultimately have adm: "grant_admissible s u p b" by (auto simp: grant_admissible_def)
  show ?thesis using upsert_grant_ok[OF ok up mem(1), of l] mem s' out adm by auto
qed

lemma revoke_effect:
  assumes ok: "grants_ok s" and r: "revoke env s u p b now = (s', out)"
  shows "grants_ok s' \<and> access_map s' = (access_map s)((u, p) := None) \<and> projects s' = projects s \<and> users s' = users s
    \<and> workspaces s' = workspaces s"
proof (cases "held_grant s u p")
  case None
  then have "(access_map s)((u, p) := None) = access_map s" by (simp add: access_map_def fun_upd_idem)
  then show ?thesis using r None ok by (simp add: revoke_def)
next
  case (Some h)
  let ?t = "s\<lparr>project_grants := filter (\<lambda>g. \<not> (grt_user g = u \<and> grt_project g = p)) (project_grants s)\<rparr>"
  have s': "s' = ?t \<or> (\<exists>op w d. s' = audit_with_detail ?t op w (Some p) None b now d)"
    using r Some by (auto simp: revoke_def Let_def dest!: audit_grant_Inr split: sum.splits)
  have ok': "grants_ok ?t"
    using ok by (auto simp: grants_ok_def unique_on_def distinct_map_filter)
  have "access_map ?t (v, q) = ((access_map s)((u, p) := None)) (v, q)" for v q
  proof -
    have fl: "find (\<lambda>g. grt_user g = v \<and> grt_project g = q) (filter (\<lambda>g. \<not> (grt_user g = u \<and> grt_project g = p)) xs) =
        (if (v, q) = (u, p) then None else find (\<lambda>g. grt_user g = v \<and> grt_project g = q) xs)" for xs
      by (induction xs) auto
    have pt: "project_grants ?t = filter (\<lambda>g. \<not> (grt_user g = u \<and> grt_project g = p)) (project_grants s)" by simp
    show ?thesis unfolding access_map_find[OF ok'] pt fl by (simp add: access_map_find[OF ok])
  qed
  then have "access_map ?t = (access_map s)((u, p) := None)" by (auto simp: fun_eq_iff)
  with ok' s' show ?thesis by auto
qed

section \<open>The system of management commands\<close>

datatype grant_command =
    GrantMemory uuid uuid grant_level "uuid option" int
  | RevokeMemory uuid uuid "uuid option" int
  | SetAccessMode uuid access_mode

fun grant_exec :: "grants_env \<Rightarrow> store \<Rightarrow> grant_command \<Rightarrow> store" where
  "grant_exec env s (GrantMemory u p l b now) = committed s (grant env s u p l b now)"
| "grant_exec env s (RevokeMemory u p b now) = fst (revoke env s u p b now)"
| "grant_exec env s (SetAccessMode p mode) = fst (set_access_mode s p mode)"

fun access_spec :: "store \<Rightarrow> (uuid \<times> uuid \<Rightarrow> grant_level option) \<Rightarrow> grant_command \<Rightarrow> uuid \<times> uuid \<Rightarrow> grant_level option" where
  "access_spec s m (GrantMemory u p l b now) = (if grant_admissible s u p b then m((u, p) \<mapsto> l) else m)"
| "access_spec s m (RevokeMemory u p b now) = m((u, p) := None)"
| "access_spec s m (SetAccessMode p mode) = m"

lemma set_access_mode_effect:
  assumes "grants_ok s"
  shows "grants_ok (fst (set_access_mode s p mode)) \<and> access_map (fst (set_access_mode s p mode)) = access_map s
    \<and> users (fst (set_access_mode s p mode)) = users s
    \<and> prj_id ` set (projects (fst (set_access_mode s p mode))) = prj_id ` set (projects s)"
proof (cases "access_mode_of s p")
  case (Some m)
  let ?ps = "update_where (\<lambda>x. prj_id x = p) (\<lambda>x. x\<lparr>prj_access_mode := access_mode_str mode\<rparr>) (projects s)"
  have "unique_on (\<lambda>_. True) prj_id ?ps"
    using grants_okD(2)[OF assms] by (rule unique_on_update_where) simp
  moreover have "\<exists>q \<in> set ?ps. prj_id q = i \<and> prj_workspace q = w"
    if e: "\<exists>q \<in> set (projects s). prj_id q = i \<and> prj_workspace q = w" for i w
  proof -
    obtain q where q: "q \<in> set (projects s)" "prj_id q = i" "prj_workspace q = w" using e by blast
    show ?thesis by (rule bexI[OF _ in_update_where[OF q(1)]]) (simp add: q)
  qed
  moreover have "prj_id ` set ?ps = prj_id ` set (projects s)" by (rule image_update_where) simp
  ultimately show ?thesis
    using assms Some by (simp add: set_access_mode_def grants_ok_def access_map_def held_grant_def grants_for_def)
qed (use assms in \<open>simp add: set_access_mode_def\<close>)

lemma grant_exec_effect:
  assumes ok: "grants_ok s"
  shows "grants_ok (grant_exec env s c) \<and> access_map (grant_exec env s c) = access_spec s (access_map s) c
    \<and> users (grant_exec env s c) = users s \<and> prj_id ` set (projects (grant_exec env s c)) = prj_id ` set (projects s)"
proof (cases c)
  case (GrantMemory u p l b now)
  show ?thesis
  proof (cases "grant env s u p l b now")
    case (Inl e)
    then have "\<not> grant_admissible s u p b" using grant_succeeds[of s u p b env l now] by auto
    then show ?thesis using ok Inl GrantMemory by (simp add: committed_def)
  next
    case (Inr r)
    obtain s' out where r: "r = (s', out)" by fastforce
    note e = grant_effect[OF ok Inr[unfolded r]]
    have "(access_map s)((u, p) \<mapsto> l) = access_spec s (access_map s) c"
    proof (cases "grant_admissible s u p b")
      case False
      with e have "grant_outcome_of (held_grant s u p) l = Unchanged" by auto
      then have "access_map s (u, p) = Some l"
        by (auto simp: access_map_def grant_outcome_of_def split: option.splits if_splits)
      with False show ?thesis by (simp add: GrantMemory fun_upd_idem)
    qed (simp add: GrantMemory)
    with e show ?thesis using Inr r GrantMemory by (simp add: committed_def)
  qed
next
  case (RevokeMemory u p b now)
  then show ?thesis using revoke_effect[OF ok, of env u p b now] by (cases "revoke env s u p b now") simp
next
  case (SetAccessMode p mode)
  then show ?thesis using set_access_mode_effect[OF ok, of p mode] by simp
qed

interpretation grants_system: step_system "\<lambda>s. s = empty_store" "\<lambda>s (env, c) s'. s' = grant_exec env s c" grants_ok
proof
  show "grants_ok s" if "s = empty_store" for s using that by (simp add: grants_ok_def empty_store_def)
qed (auto simp: grant_exec_effect)

text \<open>
  The grant table implements a map. Every management command, audit rows and error paths included, acts on the map
  from user and project to level as its specification: a grant that names an existing project, user and granter sets the
  level, any other grant changes nothing, a revocation removes the entry whoever revokes and even when its audit
  row is refused, and a change of the access mode leaves the map alone.
\<close>

theorem grants_refine_map:
  assumes "grants_ok s"
  shows "access_map (grant_exec env s c) = access_spec s (access_map s) c \<and> grants_ok (grant_exec env s c)"
  using grant_exec_effect[OF assms] by blast

definition demo_grants_env :: grants_env where
  "demo_grants_env = \<lparr>ge_json = concat \<circ> map (\<lambda>(k, v). lit k @ (case v of None \<Rightarrow> [] | Some t \<Rightarrow> t)), ge_uuid_text = (\<lambda>u. [u])\<rparr>"

lemma sample_grants_ok: "grants_ok sample_store"
  by (simp add: grants_ok_def sample_store_def empty_store_def unique_on_def grant_level_from_db_def)

theorem grants_refine_map_witness:
  "access_map (grant_exec demo_grants_env sample_store (GrantMemory 7 2 GrantRead None 9)) (7, 2) = Some GrantRead
   \<and> access_map (grant_exec demo_grants_env sample_store (RevokeMemory 8 2 (Some 99) 9)) (8, 2) = None"
  using grants_refine_map[OF sample_grants_ok, of demo_grants_env "GrantMemory 7 2 GrantRead None 9"]
    grants_refine_map[OF sample_grants_ok, of demo_grants_env "RevokeMemory 8 2 (Some 99) 9"]
  by (simp add: grant_admissible_def user_ref_ok_def sample_store_def sample_user_def empty_store_def)

section \<open>Grants decide access\<close>

definition admits_user :: "store \<Rightarrow> uuid \<Rightarrow> uuid \<Rightarrow> uuid \<Rightarrow> project_access \<Rightarrow> bool" where
  "admits_user s workspace project u need \<longleftrightarrow>
     (case resolve_project_authz_strict None s workspace project (principal_user u) True of
        Inl _ \<Rightarrow> False | Inr ctx \<Rightarrow> authorize_project ctx need = Inr ())"

text \<open>An existing restricted project of its own workspace, that is no shared scope.\<close>

definition restricted_in :: "store \<Rightarrow> uuid \<Rightarrow> uuid \<Rightarrow> project_row \<Rightarrow> bool" where
  "restricted_in s workspace project pr \<longleftrightarrow> pr \<in> set (projects s) \<and> prj_id pr = project \<and> prj_workspace pr = workspace
     \<and> prj_access_mode pr = lit ''restricted''
     \<and> (case find (\<lambda>w. wsp_id w = workspace) (workspaces s) of None \<Rightarrow> False | Some w \<Rightarrow> \<not> is_reserved_global (wsp_name w) (prj_name pr))"

lemma admits_user_iff:
  assumes ok: "grants_ok s" and pr: "restricted_in s w p pr" and u: "exists_row (\<lambda>x. usr_id x = u) (users s)"
  shows "admits_user s w p u NeedRead \<longleftrightarrow> prj_created_by pr = Some u \<or> access_map s (u, p) \<noteq> None"
    and "admits_user s w p u NeedWrite \<longleftrightarrow> prj_created_by pr = Some u \<or> access_map s (u, p) = Some GrantWrite"
proof -
  obtain ws where ws: "find (\<lambda>x. wsp_id x = w) (workspaces s) = Some ws" "\<not> is_reserved_global (wsp_name ws) (prj_name pr)"
    using pr by (auto simp: restricted_in_def split: option.splits)
  have prj: "pr \<in> set (projects s)" "prj_id pr = p" "prj_workspace pr = w" "prj_access_mode pr = lit ''restricted''"
    using pr by (simp_all add: restricted_in_def)
  have "find (\<lambda>x. prj_workspace x = w \<and> prj_id x = p) (projects s) = Some pr"
  proof (rule find_only[OF prj(1)])
    show "prj_workspace pr = w \<and> prj_id pr = p" by (simp add: prj)
    show "y = pr" if "y \<in> set (projects s)" "prj_workspace y = w \<and> prj_id y = p" for y
      using project_by_id[OF ok that(1) prj(1)] that(2) prj(2) by simp
  qed
  then have "joined_project s (\<lambda>x. prj_workspace x = w \<and> prj_id x = p) = Some (pr, ws)"
    using ws prj by (simp add: joined_project_def)
  then have row: "read_project_row_strict s w p = Inr \<lparr>ar_access_mode = ModeRestricted, ar_creator = prj_created_by pr, ar_reserved_global = False\<rparr>"
    using ws(2) prj(4) by (simp add: read_project_row_strict_def)
  have ctx: "resolve_project_authz_strict None s w p (principal_user u) True = Inr \<lparr>pa_distinguishes_operators = True,
      pa_access_mode = ModeRestricted, pa_is_root = False, pa_is_creator = (prj_created_by pr = Some u),
      pa_grant = access_map s (u, p), pa_reserved_global = False\<rparr>"
  proof -
    have c: "(prj_created_by pr \<noteq> None \<and> prj_created_by pr = Some u) = (prj_created_by pr = Some u)" by auto
    show ?thesis
      by (simp add: resolve_project_authz_strict_def resolve_def resolve_row_def resolve_grant_def principal_user_def u row
          read_grant_access[OF ok prj(1-3), of u] c del: exists_row_iff not_None_eq)
  qed
  show "admits_user s w p u NeedRead \<longleftrightarrow> prj_created_by pr = Some u \<or> access_map s (u, p) \<noteq> None"
    "admits_user s w p u NeedWrite \<longleftrightarrow> prj_created_by pr = Some u \<or> access_map s (u, p) = Some GrantWrite"
    by (auto simp: admits_user_def ctx authorize_read_iff authorize_write_iff)
qed



lemma access_map_row:
  assumes ok: "grants_ok s"
  shows "(\<exists>g \<in> set (project_grants s). grt_user g = i \<and> grt_project g = p) \<longleftrightarrow> access_map s (i, p) \<noteq> None"
proof (cases "grant_of s i p")
  case None
  then have "\<not> (\<exists>g \<in> set (project_grants s). grt_user g = i \<and> grt_project g = p)" by (auto simp: find_None_iff)
  then show ?thesis by (simp add: access_map_find[OF ok] None)
next
  case (Some g)
  have "g \<in> set (project_grants s)" "grt_user g = i" "grt_project g = p" using find_SomeD[OF Some] by auto
  with grants_okD(3)[OF ok this(1)] show ?thesis by (auto simp: access_map_find[OF ok] Some)
qed

text \<open>
  The warning list is exact. Before an operator restricts a project, \<^verbatim>\<open>authors_without_grant\<close> lists, without
  repetition and in order, exactly the names of the enabled non-root authors of its pages whom the choke point would
  refuse even to read once the project is restricted.
\<close>

theorem authors_without_grant_exact:
  assumes ok: "grants_ok s" and pr: "restricted_in s w p pr"
  shows "set (authors_without_grant s p) = {usr_username u | u. u \<in> set (users s) \<and> usr_role u \<noteq> RoleRoot
        \<and> usr_disabled_at u = None \<and> (\<exists>g \<in> set (pages s). pag_project g = p \<and> pag_author g = Some (usr_id u))
        \<and> \<not> admits_user s w p (usr_id u) NeedRead}
    \<and> distinct (authors_without_grant s p) \<and> sorted (authors_without_grant s p)"
proof -
  have prj: "pr \<in> set (projects s)" "prj_id pr = p" using pr by (simp_all add: restricted_in_def)
  have "(\<exists>x \<in> set (projects s). prj_id x = p \<and> prj_created_by x = Some i) \<longleftrightarrow> prj_created_by pr = Some i" for i
    using prj project_by_id[OF ok _ prj(1)] by metis
  note created = this and row = access_map_row[OF ok, of _ p]
  have "would_be_refused s p u \<longleftrightarrow> usr_role u \<noteq> RoleRoot \<and> usr_disabled_at u = None \<and> \<not> admits_user s w p (usr_id u) NeedRead"
    if "u \<in> set (users s)" for u
  proof -
    have "exists_row (\<lambda>x. usr_id x = usr_id u) (users s)" using that by auto
    from admits_user_iff(1)[OF ok pr this] show ?thesis by (simp add: would_be_refused_def created row)
  qed
  then show ?thesis by (auto simp: authors_without_grant_def)
qed

theorem authors_without_grant_exact_witness:
  "lit ''eve'' \<in> set (authors_without_grant (sample_store\<lparr>users := users sample_store @ [sample_user 9 ''eve''],
     pages := [(plain_page 40 1 2 [])\<lparr>pag_author := Some 9\<rparr>]\<rparr>) 2)"
proof -
  let ?g = "(plain_page 40 1 2 [])\<lparr>pag_author := Some 9\<rparr>"
  let ?s = "sample_store\<lparr>users := users sample_store @ [sample_user 9 ''eve''], pages := [?g]\<rparr>"
  let ?pr = "\<lparr>prj_id = 2, prj_workspace = 1, prj_name = lit ''api'', prj_access_mode = lit ''restricted'', prj_created_by = Some 7\<rparr>"
  have ok: "grants_ok ?s" using sample_grants_ok by (simp add: grants_ok_def)
  have pr: "restricted_in ?s 1 2 ?pr"
    by (simp add: restricted_in_def sample_store_def empty_store_def is_reserved_global_def)
  have u: "exists_row (\<lambda>x. usr_id x = 9) (users ?s)" by (simp add: sample_user_def)
  have "access_map ?s (9, 2) = None" unfolding access_map_find[OF ok] by (simp add: sample_store_def)
  then have "\<not> admits_user ?s 1 2 9 NeedRead" using admits_user_iff(1)[OF ok pr u] by simp
  then have "lit ''eve'' \<in> {usr_username u | u. u \<in> set (users ?s) \<and> usr_role u \<noteq> RoleRoot
        \<and> usr_disabled_at u = None \<and> (\<exists>g \<in> set (pages ?s). pag_project g = 2 \<and> pag_author g = Some (usr_id u))
        \<and> \<not> admits_user ?s 1 2 (usr_id u) NeedRead}"
    by (intro CollectI exI[of _ "sample_user 9 ''eve''"]) (simp add: sample_user_def plain_page_def)
  then show ?thesis using authors_without_grant_exact[OF ok pr] by blast
qed

end
