(* ===== verification/Credentials.thy ===== *)
theory Credentials
  imports Accounts
begin

text \<open>
  \<^verbatim>\<open>crates/ai-memory-store/src/api_credentials.rs\<close>: native API keys, with the per-user limit that the
  writer checks before an insert (\<^verbatim>\<open>writer.rs\<close>, \<^verbatim>\<open>CreateApiCredential\<close>), and the verifier that binds the
  stored digests to one pepper. \<^verbatim>\<open>map_unique_violation\<close> turns every constraint violation into
  \<^verbatim>\<open>Duplicate\<close>, a missing user included.
\<close>

record api_credential =
  apc_id :: uuid
  apc_user :: uuid
  apc_label :: ustr
  apc_preview :: "ustr option"
  apc_created_at :: int
  apc_last_used_at :: "int option"
  apc_expires_at :: "int option"
  apc_revoked_at :: "int option"

definition preview_for :: "ustr \<Rightarrow> ustr" where
  "preview_for secret = 0x2026 # rev (take 4 (rev secret))"

definition insert_api_credential ::
  "store \<Rightarrow> int \<Rightarrow> uuid \<Rightarrow> uuid \<Rightarrow> ustr \<Rightarrow> digest \<Rightarrow> ustr option \<Rightarrow> (store \<times> uuid) store_result" where
  "insert_api_credential s now i user_id label token_hash preview =
     (if exists_row (\<lambda>r. crd_id r = i) (api_credentials s)
      then Inl (Duplicate (lit ''UNIQUE constraint failed: api_credentials.id''))
      else if exists_row (\<lambda>r. crd_token_hash r = token_hash) (api_credentials s)
      then Inl (Duplicate (lit ''token hash collision''))
      else if \<not> exists_row (\<lambda>u. usr_id u = user_id) (users s)
      then Inl (Duplicate (lit ''FOREIGN KEY constraint failed''))
      else Inr (s\<lparr>api_credentials := api_credentials s @
          [\<lparr>crd_id = i, crd_user = user_id, crd_label = label, crd_token_hash = token_hash, crd_preview = preview,
            crd_created_at = now, crd_last_used_at = None, crd_expires_at = None, crd_revoked_at = None\<rparr>]\<rparr>, i))"

definition credential_active :: "int \<Rightarrow> credential_row \<Rightarrow> bool" where
  "credential_active now r \<longleftrightarrow>
     crd_revoked_at r = None \<and> (case crd_expires_at r of None \<Rightarrow> True | Some t \<Rightarrow> now < t)"

definition count_active_api_credentials_for_user :: "store \<Rightarrow> uuid \<Rightarrow> int \<Rightarrow> nat" where
  "count_active_api_credentials_for_user s user_id now =
     length (filter (\<lambda>r. crd_user r = user_id \<and> credential_active now r) (api_credentials s))"

definition create_api_credential ::
  "store \<Rightarrow> int \<Rightarrow> int \<Rightarrow> uuid \<Rightarrow> uuid \<Rightarrow> ustr \<Rightarrow> digest \<Rightarrow> ustr option \<Rightarrow> nat option \<Rightarrow> (store \<times> uuid) store_result" where
  "create_api_credential s count_now now i user_id label token_hash preview max_active =
     (case max_active of
        Some limit \<Rightarrow>
          if limit \<le> count_active_api_credentials_for_user s user_id count_now
          then Inl (InvalidState ''active API key limit reached; revoke a key before creating another'')
          else insert_api_credential s now i user_id label token_hash preview
      | None \<Rightarrow> insert_api_credential s now i user_id label token_hash preview)"

definition rotate_api_credential :: "store \<Rightarrow> uuid \<Rightarrow> digest \<Rightarrow> ustr option \<Rightarrow> (store \<times> bool) store_result" where
  "rotate_api_credential s i token_hash preview =
     (if exists_row (\<lambda>r. crd_id r = i) (api_credentials s)
         \<and> exists_row (\<lambda>r. crd_id r \<noteq> i \<and> crd_token_hash r = token_hash) (api_credentials s)
      then Inl (Duplicate (lit ''token hash collision''))
      else Inr (s\<lparr>api_credentials := update_where (\<lambda>r. crd_id r = i)
             (\<lambda>r. r\<lparr>crd_token_hash := token_hash, crd_preview := preview, crd_revoked_at := None\<rparr>) (api_credentials s)\<rparr>,
           exists_row (\<lambda>r. crd_id r = i) (api_credentials s)))"

definition revoke_api_credential :: "store \<Rightarrow> int \<Rightarrow> uuid \<Rightarrow> store \<times> bool" where
  "revoke_api_credential s now i =
     (s\<lparr>api_credentials := update_where (\<lambda>r. crd_id r = i)
          (\<lambda>r. r\<lparr>crd_revoked_at := (case crd_revoked_at r of None \<Rightarrow> Some now | Some t \<Rightarrow> Some t)\<rparr>) (api_credentials s)\<rparr>,
      exists_row (\<lambda>r. crd_id r = i) (api_credentials s))"

definition touch_api_credential :: "store \<Rightarrow> int \<Rightarrow> uuid \<Rightarrow> store \<times> bool" where
  "touch_api_credential s now i =
     (s\<lparr>api_credentials := update_where (\<lambda>r. crd_id r = i) (\<lambda>r. r\<lparr>crd_last_used_at := Some now\<rparr>) (api_credentials s)\<rparr>,
      exists_row (\<lambda>r. crd_id r = i) (api_credentials s))"

definition find_active_user_by_token_hash :: "store \<Rightarrow> digest \<Rightarrow> int \<Rightarrow> (user \<times> uuid) option" where
  "find_active_user_by_token_hash s h now =
     Option.bind (find (\<lambda>r. crd_token_hash r = h \<and> credential_active now r) (api_credentials s)) (\<lambda>r.
       map_option (\<lambda>u. (row_to_user u, crd_id r)) (find (\<lambda>u. usr_id u = crd_user r) (users s)))"

definition token_hash_exists :: "store \<Rightarrow> digest \<Rightarrow> bool" where
  "token_hash_exists s h = exists_row (\<lambda>r. crd_token_hash r = h) (api_credentials s)"

definition row_to_credential :: "credential_row \<Rightarrow> api_credential" where
  "row_to_credential r = \<lparr>apc_id = crd_id r, apc_user = crd_user r, apc_label = crd_label r, apc_preview = crd_preview r,
     apc_created_at = crd_created_at r, apc_last_used_at = crd_last_used_at r, apc_expires_at = crd_expires_at r,
     apc_revoked_at = crd_revoked_at r\<rparr>"

definition list_api_credentials :: "store \<Rightarrow> api_credential list" where
  "list_api_credentials s = map row_to_credential (sort_key (\<lambda>r. - crd_created_at r) (api_credentials s))"

definition list_api_credentials_for_user :: "store \<Rightarrow> uuid \<Rightarrow> api_credential list" where
  "list_api_credentials_for_user s user_id =
     map row_to_credential (sort_key (\<lambda>r. - crd_created_at r) (filter (\<lambda>r. crd_user r = user_id) (api_credentials s)))"

definition find_api_credential :: "store \<Rightarrow> uuid \<Rightarrow> api_credential option" where
  "find_api_credential s i = map_option row_to_credential (find (\<lambda>r. crd_id r = i) (api_credentials s))"

definition api_credentials_exist :: "store \<Rightarrow> bool" where
  "api_credentials_exist s \<longleftrightarrow> api_credentials s \<noteq> []"

definition api_credential_pepper_verifier :: "store \<Rightarrow> ustr option" where
  "api_credential_pepper_verifier s = map_option fst (pepper_state s)"

definition bind_api_credential_pepper_verifier :: "store \<Rightarrow> int \<Rightarrow> ustr \<Rightarrow> store \<times> bool" where
  "bind_api_credential_pepper_verifier s now verifier =
     (if pepper_state s = None \<or> \<not> api_credentials_exist s
      then (s\<lparr>pepper_state := Some (verifier, now)\<rparr>, True) else (s, False))"

end
