(* ===== verification/AccountSystem.thy ===== *)
theory AccountSystem
  imports Credentials
begin

text \<open>
  The system of all account commands the writer executes (\<^verbatim>\<open>writer.rs\<close>), the invariant of the account
  tables, and what it gives: somebody can always administer the server, a disabled account has no session, a
  revoked session never comes back, a rotated or revoked key never authenticates with its old secret.
\<close>

datatype account_command =
    InsertHuman uuid int new_user user_role "ustr option" bool
  | Bootstrap uuid int ustr "ustr option" "ustr option" ustr
  | RecoverRoot uuid int int ustr "ustr option" "ustr option" ustr
  | ResetPassword int uuid ustr bool
  | ChangePassword int int uuid ustr ustr uuid digest digest
  | IssueSession uuid int uuid ustr user_role bool digest digest
  | SetDisabled int int uuid bool
  | PatchUser uuid "ustr option option" "ustr option option" "user_role option"
  | Logout int digest
  | TouchSession uuid int
  | TouchSeen int uuid
  | CreateKey int int uuid uuid ustr digest "ustr option" "nat option"
  | RotateKey uuid digest "ustr option"
  | RevokeKey int uuid
  | TouchKey int uuid
  | BindPepper int ustr

fun account_exec :: "store \<Rightarrow> account_command \<Rightarrow> store" where
  "account_exec s (InsertHuman i now nu role phc must) = committed s (insert_human_user s i now nu role phc must)"
| "account_exec s (Bootstrap i now un n e phc) = committed s (bootstrap_root s i now un n e phc)"
| "account_exec s (RecoverRoot i now rnow un n e phc) = committed s (recover_root s i now rnow un n e phc)"
| "account_exec s (ResetPassword rnow u phc must) = fst (reset_human_password s rnow u phc must)"
| "account_exec s (ChangePassword now rnow u old phc w h c) = committed s (change_password s now rnow u old phc w h c)"
| "account_exec s (IssueSession i now u phc role must h c) = committed s (issue_web_session s i now u phc role must h c)"
| "account_exec s (SetDisabled now rnow u d) = committed s (set_user_disabled s now rnow u d)"
| "account_exec s (PatchUser u n e role) = committed s (patch_user s u n e role)"
| "account_exec s (Logout now h) = fst (revoke_session_by_hash s now h)"
| "account_exec s (TouchSession w now) = fst (touch_web_session s w now)"
| "account_exec s (TouchSeen now u) = fst (touch_user_last_seen s now u)"
| "account_exec s (CreateKey cnow now i u label h p m) = committed s (create_api_credential s cnow now i u label h p m)"
| "account_exec s (RotateKey i h p) = committed s (rotate_api_credential s i h p)"
| "account_exec s (RevokeKey now i) = fst (revoke_api_credential s now i)"
| "account_exec s (TouchKey now i) = fst (touch_api_credential s now i)"
| "account_exec s (BindPepper now v) = fst (bind_api_credential_pepper_verifier s now v)"

fun account_exec_all :: "store \<Rightarrow> account_command list \<Rightarrow> store" where
  "account_exec_all s [] = s"
| "account_exec_all s (c # cs) = account_exec_all (account_exec s c) cs"

section \<open>The invariant\<close>

definition users_keyed :: "user_row list \<Rightarrow> bool" where
  "users_keyed us \<longleftrightarrow> unique_on (\<lambda>_. True) usr_id us \<and> unique_on (\<lambda>_. True) usr_username us
     \<and> unique_on (\<lambda>r. usr_email r \<noteq> None) (\<lambda>r. map_option nocase (usr_email r)) us"

definition web_keyed :: "web_session_row list \<Rightarrow> bool" where
  "web_keyed ws \<longleftrightarrow> unique_on (\<lambda>_. True) web_id ws \<and> unique_on (\<lambda>_. True) web_session_hash ws"

definition keys_keyed :: "credential_row list \<Rightarrow> bool" where
  "keys_keyed ks \<longleftrightarrow> unique_on (\<lambda>_. True) crd_id ks \<and> unique_on (\<lambda>_. True) crd_token_hash ks"

definition owned :: "store \<Rightarrow> bool" where
  "owned s \<longleftrightarrow> web_user ` set (web_sessions s) \<subseteq> usr_id ` set (users s)
     \<and> crd_user ` set (api_credentials s) \<subseteq> usr_id ` set (users s)"

definition root_recoverable :: "store \<Rightarrow> bool" where
  "root_recoverable s \<longleftrightarrow> (bootstrap_completed s \<longrightarrow> exists_row recoverable_root (users s))"

definition disabled_locked_out :: "store \<Rightarrow> bool" where
  "disabled_locked_out s \<longleftrightarrow>
     (\<forall>u \<in> set (users s). \<forall>w \<in> set (web_sessions s).
        usr_disabled_at u \<noteq> None \<and> web_user w = usr_id u \<longrightarrow> web_revoked_at w \<noteq> None)"

definition accounts_ok :: "store \<Rightarrow> bool" where
  "accounts_ok s \<longleftrightarrow> users_keyed (users s) \<and> web_keyed (web_sessions s) \<and> keys_keyed (api_credentials s)
     \<and> owned s \<and> root_recoverable s \<and> disabled_locked_out s"

lemma accounts_okD:
  assumes "accounts_ok s"
  shows "users_keyed (users s)" "web_keyed (web_sessions s)" "keys_keyed (api_credentials s)"
    "owned s" "root_recoverable s" "disabled_locked_out s"
  using assms by (simp_all add: accounts_ok_def)

lemma accounts_ok_empty: "accounts_ok empty_store"
  by (simp add: accounts_ok_def users_keyed_def web_keyed_def keys_keyed_def owned_def root_recoverable_def
      disabled_locked_out_def bootstrap_completed_def empty_store_def)

section \<open>Changes of the user table\<close>

lemma user_by_id:
  assumes "users_keyed us" "u \<in> set us" "v \<in> set us" "usr_id u = usr_id v"
  shows "u = v"
  using assms by (auto simp: users_keyed_def dest: unique_onD)

lemma find_user:
  assumes "users_keyed us" "u \<in> set us"
  shows "find (\<lambda>r. usr_id r = usr_id u) us = Some u"
  using assms by (auto simp: users_keyed_def intro: find_unique)

text \<open>An update of one user that keeps its names; its email may change to one that nobody else has.\<close>

lemma users_keyed_update:
  assumes k: "users_keyed us"
    and f: "\<And>r. usr_id (f r) = usr_id r" "\<And>r. usr_username (f r) = usr_username r"
    and e: "\<And>r x. r \<in> set us \<Longrightarrow> usr_id r = i \<Longrightarrow> usr_email (f r) = Some x \<Longrightarrow>
          (\<forall>v \<in> set us. usr_id v \<noteq> i \<longrightarrow> map_option nocase (usr_email v) \<noteq> Some (nocase x))"
  shows "users_keyed (update_where (\<lambda>r. usr_id r = i) f us)"
proof -
  let ?us = "update_where (\<lambda>r. usr_id r = i) f us"
  have ids: "unique_on (\<lambda>_. True) usr_id ?us" and names: "unique_on (\<lambda>_. True) usr_username ?us"
    using k f by (auto simp: users_keyed_def intro!: unique_on_update_where)
  have clash: "map_option nocase (usr_email (f a)) \<noteq> map_option nocase (usr_email b)"
    if "a \<in> set us" "usr_id a = i" "usr_email (f a) \<noteq> None" "b \<in> set us" "usr_id b \<noteq> i" for a b
  proof -
    note h = that
    obtain x where "usr_email (f a) = Some x" using h(3) by blast
    with e[OF h(1,2) this] h(4,5) show ?thesis by (metis option.simps(9))
  qed
  have "unique_on (\<lambda>r. usr_email r \<noteq> None) (\<lambda>r. map_option nocase (usr_email r)) ?us"
  proof (rule unique_on_via_key[OF ids])
    fix r r' assume r: "r \<in> set ?us" "r' \<in> set ?us" "usr_email r \<noteq> None" "usr_email r' \<noteq> None"
      and eq: "map_option nocase (usr_email r) = map_option nocase (usr_email r')"
    obtain u v where u: "u \<in> set us" "r = (if usr_id u = i then f u else u)"
      and v: "v \<in> set us" "r' = (if usr_id v = i then f v else v)"
      using r(1,2) by (auto simp: set_update_where)
    have old: "unique_on (\<lambda>r. usr_email r \<noteq> None) (\<lambda>r. map_option nocase (usr_email r)) us"
      using k by (simp add: users_keyed_def)
    show "usr_id r = usr_id r'"
    proof (cases "usr_id u = i \<longleftrightarrow> usr_id v = i")
      case True
      then show ?thesis
        using u v r(3,4) eq f(1) unique_onD[OF old u(1) v(1)] by (cases "usr_id u = i") auto
    next
      case False
      then show ?thesis
        using u v r(3,4) eq clash[OF u(1) _ _ v(1)] clash[OF v(1) _ _ u(1)]
        by (cases "usr_id u = i") simp_all
    qed
  qed
  with ids names show ?thesis by (simp add: users_keyed_def)
qed

lemma users_keyed_insert:
  assumes "users_keyed (users s)" "insert_user_row s r = Inr s'"
  shows "users_keyed (users s')" and "s' = s\<lparr>users := users s @ [r]\<rparr>"
proof -
  show s': "s' = s\<lparr>users := users s @ [r]\<rparr>"
    using assms(2) by (auto simp: insert_user_row_def simp del: exists_row_iff split: if_splits)
  have no: "\<forall>x \<in> set (users s). usr_id x \<noteq> usr_id r" "\<forall>x \<in> set (users s). usr_username x \<noteq> usr_username r"
    "\<not> email_taken s (usr_id r) (usr_email r)"
    using assms(2) by (auto simp: insert_user_row_def split: if_splits)
  have "\<forall>x \<in> set (users s). usr_email r \<noteq> None \<longrightarrow> map_option nocase (usr_email x) \<noteq> map_option nocase (usr_email r)"
    using no(1,3) by (auto simp: email_taken_def split: option.splits)
  with assms(1) no(1,2) show "users_keyed (users s')"
    by (simp add: s' users_keyed_def unique_on_append1)
qed

section \<open>The last recoverable root\<close>

text \<open>The guard of a demotion or a disabling leaves another recoverable root.\<close>

lemma guard_leaves_root:
  assumes k: "users_keyed (users s)" and u: "find_user_by_id s i = Some u" and g: "guards_last_root s u = Inr x"
    and r: "exists_row recoverable_root (users s)"
  shows "\<exists>v \<in> set (users s). recoverable_root v \<and> usr_id v \<noteq> i"
proof (rule ccontr)
  assume none: "\<not> ?thesis"
  obtain row where row: "find (\<lambda>r. usr_id r = i) (users s) = Some row" "u = row_to_user row"
    using u by (auto simp: find_user_by_id_def)
  then have "row \<in> set (users s)" "usr_id row = i" by (auto dest: find_SomeD)
  have all: "v = row" if "v \<in> set (users s)" "recoverable_root v" for v
    using none that \<open>row \<in> set (users s)\<close> \<open>usr_id row = i\<close> user_by_id[OF k that(1)] by blast
  with r have rec: "recoverable_root row" by auto
  have "filter recoverable_root (users s) = filter (\<lambda>v. v = row) (users s)"
    using all rec by (auto intro!: filter_cong)
  moreover have "length (filter (\<lambda>v. v = row) (users s)) \<le> 1"
    using k by (intro unique_on_at_most_one[where k = usr_id and P = "\<lambda>_. True"]) (auto simp: users_keyed_def)
  ultimately have "count_recoverable_roots s \<le> 1" by (simp add: count_recoverable_roots_def)
  with g rec row(2) \<open>row \<in> set (users s)\<close> show False
    by (auto simp: guards_last_root_def ensure_not_last_recoverable_root_def row_to_user_def recoverable_root_def
        split: if_splits)
qed

section \<open>Every primitive change keeps the invariant\<close>

text \<open>A change of one user that keeps its names, moves its email only to a free one and
  disables it only when its sessions are revoked.\<close>

lemma ok_update_user:
  assumes ok: "accounts_ok s"
    and f: "\<And>r. usr_id (f r) = usr_id r" "\<And>r. usr_username (f r) = usr_username r"
    and e: "\<And>r x. usr_email (f r) = Some x \<Longrightarrow> usr_email r = Some x \<or> \<not> email_taken s i (Some x)"
    and d: "\<And>r w. w \<in> set (web_sessions s) \<Longrightarrow> web_user w = i \<Longrightarrow> usr_disabled_at (f r) \<noteq> None
      \<Longrightarrow> usr_disabled_at r \<noteq> None \<or> web_revoked_at w \<noteq> None"
    and root: "bootstrap_completed s \<Longrightarrow>
      exists_row recoverable_root (update_where (\<lambda>r. usr_id r = i) f (users s))"
  shows "accounts_ok (s\<lparr>users := update_where (\<lambda>r. usr_id r = i) f (users s)\<rparr>)"
proof -
  note o = accounts_okD[OF ok]
  have "map_option nocase (usr_email v) \<noteq> Some (nocase x)"
    if "r \<in> set (users s)" "usr_id r = i" "usr_email (f r) = Some x" "v \<in> set (users s)" "usr_id v \<noteq> i" for r x v
  proof (cases "usr_email r = Some x")
    case True
    have "unique_on (\<lambda>r. usr_email r \<noteq> None) (\<lambda>r. map_option nocase (usr_email r)) (users s)"
      using o(1) by (simp add: users_keyed_def)
    from unique_onD[OF this that(1,4)] True that(2,5) show ?thesis by auto
  qed (use e[OF that(3)] that(4,5) in \<open>auto simp: email_taken_def\<close>)
  then have "users_keyed (update_where (\<lambda>r. usr_id r = i) f (users s))"
    using o(1) f by (intro users_keyed_update) auto
  moreover have "web_revoked_at w \<noteq> None"
    if "u \<in> set (users s)" "usr_id u = i" "w \<in> set (web_sessions s)" "web_user w = i" "usr_disabled_at (f u) \<noteq> None" for u w
    using d[OF that(3-5)] o(6) that(1-4) unfolding disabled_locked_out_def by fastforce
  then have "disabled_locked_out (s\<lparr>users := update_where (\<lambda>r. usr_id r = i) f (users s)\<rparr>)"
    using o(6) f(1) by (simp add: disabled_locked_out_def ball_update_where)
  ultimately show ?thesis
    using o(2-4) root f(1) by (simp add: accounts_ok_def owned_def image_update_where root_recoverable_def bootstrap_completed_def)
qed

lemma ok_insert_user:
  assumes ok: "accounts_ok s" and ins: "insert_user_row s r = Inr s'" and d: "usr_disabled_at r = None"
  shows "accounts_ok s'"
proof -
  note o = accounts_okD[OF ok] and i = users_keyed_insert[OF accounts_okD(1)[OF ok] ins]
  have s': "s' = s\<lparr>users := users s @ [r]\<rparr>" by (rule i(2))
  show ?thesis
    using o(2-6) i(1) d
    by (auto simp: s' accounts_ok_def owned_def root_recoverable_def bootstrap_completed_def disabled_locked_out_def)
qed

text \<open>A change of the sessions that moves no row to another user, keeps ids, and revives nothing.\<close>

lemma ok_update_sessions:
  assumes ok: "accounts_ok s"
    and f: "\<And>r. web_user (f r) = web_user r" "\<And>r. web_id (f r) = web_id r"
    and rv: "\<And>r. web_revoked_at r \<noteq> None \<Longrightarrow> web_revoked_at (f r) \<noteq> None"
    and h: "unique_on (\<lambda>_. True) web_session_hash (update_where P f (web_sessions s))"
  shows "accounts_ok (s\<lparr>web_sessions := update_where P f (web_sessions s)\<rparr>)"
proof -
  note o = accounts_okD[OF ok]
  have "web_keyed (update_where P f (web_sessions s))"
    using o(2) h f(2) by (auto simp: web_keyed_def intro: unique_on_update_where)
  moreover have "web_user ` set (update_where P f (web_sessions s)) = web_user ` set (web_sessions s)"
    by (rule image_update_where) (rule f(1))
  moreover have "disabled_locked_out (s\<lparr>web_sessions := update_where P f (web_sessions s)\<rparr>)"
    using o(6) f(1) rv by (simp add: disabled_locked_out_def ball_update_where)
  ultimately show ?thesis
    using o by (simp add: accounts_ok_def owned_def root_recoverable_def bootstrap_completed_def)
qed

lemma revoke_row_simps [simp]:
  "web_user (revoke_row now r) = web_user r" "web_id (revoke_row now r) = web_id r"
  "web_session_hash (revoke_row now r) = web_session_hash r" "web_revoked_at (revoke_row now r) \<noteq> None"
  "web_expires_at (revoke_row now r) = web_expires_at r"
  by (auto simp: revoke_row_def split: option.splits)

lemma hashes_update:
  assumes "accounts_ok s" "\<And>r. web_session_hash (f r) = web_session_hash r"
  shows "unique_on (\<lambda>_. True) web_session_hash (update_where P f (web_sessions s))"
  using assms by (auto simp: accounts_ok_def web_keyed_def intro: unique_on_update_where)

lemma ok_revoke:
  "accounts_ok s \<Longrightarrow> accounts_ok (s\<lparr>web_sessions := update_where P (revoke_row now) (web_sessions s)\<rparr>)"
  by (rule ok_update_sessions) (simp_all add: hashes_update)

lemma ok_insert_session:
  assumes ok: "accounts_ok s" and ins: "insert_web_session s i now u h c = Inr (s', w)"
    and en: "\<And>r. r \<in> set (users s) \<Longrightarrow> usr_id r = u \<Longrightarrow> usr_disabled_at r = None"
  shows "accounts_ok s'"
proof -
  note o = accounts_okD[OF ok]
  obtain row where s': "s' = s\<lparr>web_sessions := web_sessions s @ [row]\<rparr>"
    and row: "web_user row = u" "web_id row = i" "web_session_hash row = h"
    and new: "\<forall>r \<in> set (web_sessions s). web_id r \<noteq> i \<and> web_session_hash r \<noteq> h"
    and fk: "u \<in> usr_id ` set (users s)"
    using ins by (auto simp: insert_web_session_def Let_def split: if_splits)
  have "web_keyed (web_sessions s @ [row])"
    using o(2) new row by (simp add: web_keyed_def unique_on_append1)
  moreover have "disabled_locked_out s'"
    using o(6) en row(1) by (auto simp: s' disabled_locked_out_def)
  ultimately show ?thesis
    using o fk row(1) by (simp add: s' accounts_ok_def owned_def root_recoverable_def bootstrap_completed_def)
qed

lemma ok_rotate_session:
  assumes ok: "accounts_ok s" and rot: "rotate_web_session_secrets s i h c = Inr (s', b)"
  shows "accounts_ok s'"
proof -
  let ?hit = "\<lambda>r. web_id r = i \<and> web_revoked_at r = None"
  let ?f = "\<lambda>r. r\<lparr>web_session_hash := h, web_csrf_hash := c\<rparr>"
  have s': "s' = s\<lparr>web_sessions := update_where ?hit ?f (web_sessions s)\<rparr>"
    and free: "\<And>r q. r \<in> set (web_sessions s) \<Longrightarrow> ?hit r \<Longrightarrow> q \<in> set (web_sessions s) \<Longrightarrow> web_id q \<noteq> i \<Longrightarrow> web_session_hash q \<noteq> h"
    using rot by (auto simp: rotate_web_session_secrets_def Let_def split: if_splits)
  have k: "unique_on (\<lambda>_. True) web_id (web_sessions s)" "unique_on (\<lambda>_. True) web_session_hash (web_sessions s)"
    using ok by (simp_all add: accounts_ok_def web_keyed_def)
  have "unique_on (\<lambda>_. True) web_session_hash (update_where ?hit ?f (web_sessions s))"
    by (rule unique_on_rekey[where i = i and h = h, OF k]) (simp, simp, simp, rule free)
  then show ?thesis using ok unfolding s' by (intro ok_update_sessions) simp_all
qed

lemma ok_credentials:
  assumes "accounts_ok s" "keys_keyed ks" "crd_user ` set ks \<subseteq> usr_id ` set (users s)"
  shows "accounts_ok (s\<lparr>api_credentials := ks\<rparr>)"
  using assms by (simp add: accounts_ok_def owned_def root_recoverable_def bootstrap_completed_def disabled_locked_out_def)

lemma ok_update_credentials:
  assumes ok: "accounts_ok s" and f: "\<And>r. crd_user (f r) = crd_user r" "\<And>r. crd_id (f r) = crd_id r"
    and h: "unique_on (\<lambda>_. True) crd_token_hash (update_where P f (api_credentials s))"
  shows "accounts_ok (s\<lparr>api_credentials := update_where P f (api_credentials s)\<rparr>)"
proof (rule ok_credentials[OF ok])
  have "unique_on (\<lambda>_. True) crd_id (api_credentials s)" using ok by (simp add: accounts_ok_def keys_keyed_def)
  then show "keys_keyed (update_where P f (api_credentials s))"
    using h f(2) by (auto simp: keys_keyed_def intro: unique_on_update_where)
  have "crd_user ` set (update_where P f (api_credentials s)) = crd_user ` set (api_credentials s)"
    by (rule image_update_where) (rule f(1))
  then show "crd_user ` set (update_where P f (api_credentials s)) \<subseteq> usr_id ` set (users s)"
    using ok by (simp add: accounts_ok_def owned_def)
qed

lemma ok_rotate_credential:
  assumes ok: "accounts_ok s" and rot: "rotate_api_credential s i h p = Inr (s', b)"
  shows "accounts_ok s'"
proof -
  let ?f = "\<lambda>r. r\<lparr>crd_token_hash := h, crd_preview := p, crd_revoked_at := None\<rparr>"
  have s': "s' = s\<lparr>api_credentials := update_where (\<lambda>r. crd_id r = i) ?f (api_credentials s)\<rparr>"
    and free: "\<And>r q. r \<in> set (api_credentials s) \<Longrightarrow> crd_id r = i \<Longrightarrow> q \<in> set (api_credentials s) \<Longrightarrow> crd_id q \<noteq> i \<Longrightarrow> crd_token_hash q \<noteq> h"
    using rot by (auto simp: rotate_api_credential_def split: if_splits)
  have k: "unique_on (\<lambda>_. True) crd_id (api_credentials s)" "unique_on (\<lambda>_. True) crd_token_hash (api_credentials s)"
    using ok by (simp_all add: accounts_ok_def keys_keyed_def)
  have "unique_on (\<lambda>_. True) crd_token_hash (update_where (\<lambda>r. crd_id r = i) ?f (api_credentials s))"
    by (rule unique_on_rekey[where i = i and h = h, OF k]) (simp, simp, simp, rule free)
  then show ?thesis using ok unfolding s' by (intro ok_update_credentials) simp_all
qed

section \<open>Every operation keeps the invariant\<close>

lemma ok_set_column:
  assumes "accounts_ok s" "\<And>r. usr_id (f r) = usr_id r" "\<And>r. usr_username (f r) = usr_username r"
    "\<And>r. usr_email (f r) = usr_email r" "\<And>r. usr_disabled_at (f r) = usr_disabled_at r"
    "\<And>r. recoverable_root r \<Longrightarrow> recoverable_root (f r)"
  shows "accounts_ok (s\<lparr>users := update_where (\<lambda>r. usr_id r = i) f (users s)\<rparr>)"
proof (rule ok_update_user)
  assume "bootstrap_completed s"
  then obtain r where "r \<in> set (users s)" "recoverable_root r"
    using assms(1) by (auto simp: accounts_ok_def root_recoverable_def)
  with assms(6) in_update_where[of r "users s" "\<lambda>r. usr_id r = i" f]
  show "exists_row recoverable_root (update_where (\<lambda>r. usr_id r = i) f (users s))"
    by (auto split: if_splits)
qed (use assms in auto)

lemma ok_revoke_user: "accounts_ok s \<Longrightarrow> accounts_ok (revoke_user_sessions s now u keep)"
  by (simp add: revoke_user_sessions_def ok_revoke)

lemma ok_mark_bootstrap:
  "accounts_ok s \<Longrightarrow> exists_row recoverable_root (users s) \<Longrightarrow> accounts_ok (set_bootstrap_completed s b)"
  by (simp add: accounts_ok_def set_bootstrap_completed_def owned_def root_recoverable_def disabled_locked_out_def)

lemma find_user_by_usernameD:
  "find_user_by_username s n = Some u \<Longrightarrow> \<exists>r \<in> set (users s). usr_username r = n \<and> u = row_to_user r"
  by (auto simp: find_user_by_username_def dest: find_SomeD)

lemma ok_install_root:
  assumes ok: "accounts_ok s" and r: "install_root s i now n nm e phc m = Inr (s', u)"
  shows "accounts_ok s'" and "\<exists>r \<in> set (users s'). recoverable_root r \<and> usr_id r = u \<and> usr_username r = n
      \<and> usr_password_hash r = Some phc \<and> usr_must_change_password r = m"
    and "web_sessions s' = web_sessions s" and "api_credentials s' = api_credentials s"
proof -
  let ?goal = "accounts_ok s' \<and> (\<exists>r \<in> set (users s'). recoverable_root r \<and> usr_id r = u \<and> usr_username r = n
      \<and> usr_password_hash r = Some phc \<and> usr_must_change_password r = m)
    \<and> web_sessions s' = web_sessions s \<and> api_credentials s' = api_credentials s"
  have ?goal
  proof (cases "find_user_by_username s n")
    case None
    let ?row = "human_row i n nm e now RoleRoot (Some phc) m"
    from r None have ins: "insert_user_row s ?row = Inr s'" and u: "u = i"
      by (auto simp: install_root_def and_then_Inr_iff)
    have "recoverable_root ?row \<and> usr_id ?row = i \<and> usr_username ?row = n \<and> usr_password_hash ?row = Some phc
        \<and> usr_must_change_password ?row = m \<and> usr_disabled_at ?row = None"
      by (simp add: human_row_def recoverable_root_def)
    with ok_insert_user[OF ok ins] users_keyed_insert(2)[OF accounts_okD(1)[OF ok] ins] u show ?thesis by simp
  next
    case (Some x)
    then obtain row where row: "row \<in> set (users s)" "usr_username row = n" "x = row_to_user row"
      by (auto dest: find_user_by_usernameD)
    let ?f = "\<lambda>r. r\<lparr>usr_role := RoleRoot, usr_password_hash := Some phc, usr_must_change_password := m,
       usr_disabled_at := None, usr_name := (if nm = None then usr_name r else nm),
       usr_email := (if e = None then usr_email r else e)\<rparr>"
    from r Some row(3) have u: "u = usr_id row" and free: "\<not> email_taken s u e"
      and s': "s' = s\<lparr>users := update_where (\<lambda>r. usr_id r = u) ?f (users s)\<rparr>"
      by (auto simp: install_root_def promote_root_def and_then_Inr_iff row_to_user_def split: if_splits)
    have new: "?f row \<in> set (update_where (\<lambda>r. usr_id r = u) ?f (users s))"
      using in_update_where[OF row(1), of "\<lambda>r. usr_id r = u" ?f] by (simp add: u)
    have rec: "recoverable_root (?f row)" by (simp add: recoverable_root_def)
    have "accounts_ok s'" unfolding s'
    proof (rule ok_update_user[OF ok])
      show "exists_row recoverable_root (update_where (\<lambda>r. usr_id r = u) ?f (users s))"
        using new rec by (simp only: exists_row_iff) blast
      show "\<And>r y. usr_email (?f r) = Some y \<Longrightarrow> usr_email r = Some y \<or> \<not> email_taken s u (Some y)"
        using free by (auto split: if_splits)
    qed simp_all
    moreover have "\<exists>r \<in> set (users s'). recoverable_root r \<and> usr_id r = u \<and> usr_username r = n
      \<and> usr_password_hash r = Some phc \<and> usr_must_change_password r = m"
      using new rec row(2) u unfolding s' by (intro bexI[of _ "?f row"]) simp_all
    ultimately show ?thesis by (simp add: s')
  qed
  then show "accounts_ok s'" "\<exists>r \<in> set (users s'). recoverable_root r \<and> usr_id r = u \<and> usr_username r = n
      \<and> usr_password_hash r = Some phc \<and> usr_must_change_password r = m"
    "web_sessions s' = web_sessions s" "api_credentials s' = api_credentials s" by blast+
qed

lemma ok_insert_human: "accounts_ok s \<Longrightarrow> insert_human_user s i now nu role phc m = Inr (s', x) \<Longrightarrow> accounts_ok s'"
  by (auto simp: insert_human_user_def and_then_Inr_iff human_row_def elim!: ok_insert_user)

lemma ok_bootstrap:
  assumes "accounts_ok s" "bootstrap_root s i now n nm e phc = Inr (s', x)"
  shows "accounts_ok s'"
proof -
  obtain s1 where i: "install_root s i now n nm e phc True = Inr (s1, x)" and s': "s' = set_bootstrap_completed s1 True"
    using assms(2) by (auto simp: bootstrap_root_def and_then_Inr_iff split: if_splits)
  show ?thesis unfolding s' using ok_install_root(1,2)[OF assms(1) i] by (intro ok_mark_bootstrap) auto
qed

lemma recover_root_InrE:
  assumes "recover_root s i now rnow n nm e phc = Inr (s', x)"
  obtains s1 where "install_root s i now n nm e phc False = Inr (s1, x)"
    and "s' = set_bootstrap_completed (revoke_user_sessions s1 rnow x None) True"
  using assms by (auto simp: recover_root_def and_then_Inr_iff)

lemma ok_recover:
  assumes "accounts_ok s" "recover_root s i now rnow n nm e phc = Inr (s', x)"
  shows "accounts_ok s'"
  using assms(2)
proof (rule recover_root_InrE)
  fix s1 assume i: "install_root s i now n nm e phc False = Inr (s1, x)"
    and s': "s' = set_bootstrap_completed (revoke_user_sessions s1 rnow x None) True"
  have "exists_row recoverable_root (users (revoke_user_sessions s1 rnow x None))"
    using ok_install_root(2)[OF assms(1) i] by (auto simp: revoke_user_sessions_def)
  then show ?thesis
    unfolding s' by (intro ok_mark_bootstrap ok_revoke_user ok_install_root(1)[OF assms(1) i])
qed

text \<open>A new password keeps an account recoverable.\<close>

lemma ok_set_password:
  "accounts_ok s \<Longrightarrow> accounts_ok (s\<lparr>users := update_where (\<lambda>r. usr_id r = i)
     (\<lambda>r. r\<lparr>usr_password_hash := Some phc, usr_must_change_password := m\<rparr>) (users s)\<rparr>)"
  by (rule ok_set_column) (auto simp: recoverable_root_def)

lemma ok_reset: "accounts_ok s \<Longrightarrow> accounts_ok (fst (reset_human_password s rnow u phc m))"
  by (simp add: reset_human_password_def ok_revoke_user ok_set_password)

lemma ok_change:
  assumes "accounts_ok s" "change_password s now rnow u old phc w h c = Inr (s', x)"
  shows "accounts_ok s'"
proof -
  from assms(2) obtain b where
    "rotate_web_session_secrets (revoke_user_sessions (s\<lparr>users := update_where (\<lambda>r. usr_id r = u)
        (\<lambda>r. r\<lparr>usr_password_hash := Some phc, usr_must_change_password := False\<rparr>) (users s)\<rparr>) rnow u (Some w)) w h c = Inr (s', b)"
    by (auto simp: change_password_def and_then_Inr_iff split: if_splits)
  then show ?thesis by (rule ok_rotate_session[rotated]) (intro ok_revoke_user ok_set_password assms(1))
qed

lemma ok_issue:
  assumes ok: "accounts_ok s" and r: "issue_web_session s i now u phc role m h c = Inr (s', x)"
  shows "accounts_ok s'"
proof -
  obtain row where row: "find (\<lambda>r. usr_id r = u) (users s) = Some row" "usr_disabled_at row = None"
    and ins: "insert_web_session s i now u h c = Inr (s', x)"
    using r by (auto simp: issue_web_session_def split: option.splits if_splits)
  have "row \<in> set (users s)" "usr_id row = u" using find_SomeD[OF row(1)] by auto
  then have "r = row" if "r \<in> set (users s)" "usr_id r = u" for r
    using user_by_id[OF accounts_okD(1)[OF ok] that(1)] that(2) by simp
  then show ?thesis using ok_insert_session[OF ok ins] row(2) by blast
qed

lemma guarded_root:
  assumes ok: "accounts_ok s" and u: "find_user_by_id s i = Some u" and g: "guards_last_root s u = Inr x"
    and b: "bootstrap_completed s"
  shows "exists_row recoverable_root (update_where (\<lambda>r. usr_id r = i) f (users s))"
proof -
  have "exists_row recoverable_root (users s)"
    using ok b by (simp add: accounts_ok_def root_recoverable_def)
  then obtain v where v: "v \<in> set (users s)" "recoverable_root v" "usr_id v \<noteq> i"
    using guard_leaves_root[OF accounts_okD(1)[OF ok] u g] by blast
  with in_update_where[OF v(1), of "\<lambda>r. usr_id r = i" f] show ?thesis by auto
qed

lemma revoke_user_frame [simp]:
  "users (revoke_user_sessions s now u k) = users s"
  "api_credentials (revoke_user_sessions s now u k) = api_credentials s"
  "bootstrap_completed (revoke_user_sessions s now u k) = bootstrap_completed s"
  "find_user_by_id (revoke_user_sessions s now u k) i = find_user_by_id s i"
  "guards_last_root (revoke_user_sessions s now u k) x = guards_last_root s x"
  by (simp_all add: revoke_user_sessions_def bootstrap_completed_def find_user_by_id_def guards_last_root_def
      ensure_not_last_recoverable_root_def count_recoverable_roots_def)

lemma revoke_user_web:
  "web_sessions (revoke_user_sessions s now u k) =
     update_where (\<lambda>r. web_user r = u \<and> k \<noteq> Some (web_id r)) (revoke_row now) (web_sessions s)"
  by (simp add: revoke_user_sessions_def)

lemma revoked_of_user:
  assumes "w \<in> set (web_sessions (revoke_user_sessions s now u None))" "web_user w = u"
  shows "web_revoked_at w \<noteq> None"
proof -
  obtain r where r: "w = (if web_user r = u \<and> None \<noteq> Some (web_id r) then revoke_row now r else r)"
    using assms(1) unfolding revoke_user_web set_update_where by (rule imageE)
  with assms(2) show ?thesis by (cases "web_user r = u") (simp_all del: not_None_eq)
qed

lemma revoke_disable_commute:
  "revoke_user_sessions (disable_users s now u d) rnow u k = disable_users (revoke_user_sessions s rnow u k) now u d"
  by (simp add: revoke_user_sessions_def disable_users_def)

lemma ok_set_disabled:
  assumes ok: "accounts_ok s" and r: "set_user_disabled s now rnow i d = Inr (s', x)"
  shows "accounts_ok s'"
proof (cases "find_user_by_id s i")
  case None
  with r ok show ?thesis by (simp add: set_user_disabled_def)
next
  case (Some u)
  show ?thesis
  proof (cases d)
    case True
    let ?t = "revoke_user_sessions s rnow i None"
    from r Some True have g: "guards_last_root s u = Inr ()" and s': "s' = disable_users ?t now i True"
      by (auto simp: set_user_disabled_def and_then_Inr_iff Let_def revoke_disable_commute)
    have ok': "accounts_ok ?t" by (rule ok_revoke_user[OF ok])
    note rev = revoked_of_user[of _ s rnow i]
    show ?thesis unfolding s' disable_users_def
    proof (rule ok_update_user[OF ok'])
      show "exists_row recoverable_root (update_where (\<lambda>r. usr_id r = i)
          (\<lambda>r. r\<lparr>usr_disabled_at := (if True then case usr_disabled_at r of None \<Rightarrow> Some now | Some t \<Rightarrow> Some t else None)\<rparr>)
          (users ?t))" if "bootstrap_completed ?t"
        using guarded_root[OF ok' _ _ that] Some g by simp
    qed (use rev in auto)
  next
    case False
    with r Some have s': "s' = disable_users s now i False"
      by (auto simp: set_user_disabled_def Let_def)
    show ?thesis unfolding s' disable_users_def
    proof (rule ok_update_user[OF ok])
      assume "bootstrap_completed s"
      then obtain v where v: "v \<in> set (users s)" "recoverable_root v"
        using ok by (auto simp: accounts_ok_def root_recoverable_def)
      let ?f = "\<lambda>r. r\<lparr>usr_disabled_at :=
        (if False then case usr_disabled_at r of None \<Rightarrow> Some now | Some t \<Rightarrow> Some t else None)\<rparr>"
      have "recoverable_root (if usr_id v = i then ?f v else v)" using v(2) by (simp add: recoverable_root_def)
      with in_update_where[OF v(1), of "\<lambda>r. usr_id r = i" ?f]
      show "exists_row recoverable_root (update_where (\<lambda>r. usr_id r = i) ?f (users s))"
        unfolding exists_row_iff by (rule bexI[rotated])
    qed simp_all
  qed
qed

definition other_root :: "store \<Rightarrow> uuid \<Rightarrow> bool" where
  "other_root s i \<longleftrightarrow> (\<exists>v \<in> set (users s). recoverable_root v \<and> usr_id v \<noteq> i)"

lemma other_root_column: "other_root s i \<Longrightarrow> other_root (set_user_column s i f) i"
  by (auto simp: other_root_def set_user_column_def set_update_where)

lemma column_frame [simp]: "bootstrap_completed (set_user_column s i f) = bootstrap_completed s"
  by (simp add: set_user_column_def bootstrap_completed_def)

lemma ok_set_role:
  assumes ok: "accounts_ok s" and r: "role = RoleUser \<Longrightarrow> bootstrap_completed s \<Longrightarrow> other_root s i"
  shows "accounts_ok (set_user_column s i (\<lambda>r. r\<lparr>usr_role := role\<rparr>))"
proof (cases role)
  case RoleRoot
  then show ?thesis using ok unfolding set_user_column_def by (intro ok_set_column) (auto simp: recoverable_root_def)
next
  case RoleUser
  show ?thesis unfolding set_user_column_def
  proof (rule ok_update_user[OF ok])
    assume "bootstrap_completed s"
    from other_root_column[OF r[OF RoleUser this], of "\<lambda>r. r\<lparr>usr_role := role\<rparr>"]
    show "exists_row recoverable_root (update_where (\<lambda>r. usr_id r = i) (\<lambda>r. r\<lparr>usr_role := role\<rparr>) (users s))"
      by (auto simp: other_root_def set_user_column_def)
  qed simp_all
qed

lemma ok_set_email:
  assumes ok: "accounts_ok s" and free: "\<not> email_taken s i e"
  shows "accounts_ok (set_user_column s i (\<lambda>r. r\<lparr>usr_email := e\<rparr>))"
  unfolding set_user_column_def
proof (rule ok_update_user[OF ok])
  assume "bootstrap_completed s"
  then obtain v where v: "v \<in> set (users s)" "recoverable_root v"
    using ok by (auto simp: accounts_ok_def root_recoverable_def)
  have "recoverable_root (if usr_id v = i then v\<lparr>usr_email := e\<rparr> else v)" using v(2) by (simp add: recoverable_root_def)
  with in_update_where[OF v(1), of "\<lambda>r. usr_id r = i" "\<lambda>r. r\<lparr>usr_email := e\<rparr>"]
  show "exists_row recoverable_root (update_where (\<lambda>r. usr_id r = i) (\<lambda>r. r\<lparr>usr_email := e\<rparr>) (users s))"
    unfolding exists_row_iff by (rule bexI[rotated])
qed (use free in auto)

lemma ok_patch:
  assumes ok: "accounts_ok s" and r: "patch_user s i nm e role = Inr (s', x)"
  shows "accounts_ok s'"
proof (cases "find_user_by_id s i")
  case None
  with r ok show ?thesis by (simp add: patch_user_def)
next
  case (Some u)
  define s1 where "s1 = (case nm of None \<Rightarrow> s | Some n \<Rightarrow> set_user_column s i (\<lambda>r. r\<lparr>usr_name := n\<rparr>))"
  have ok1: "accounts_ok s1"
    using ok unfolding s1_def set_user_column_def
    by (cases nm) (auto simp: recoverable_root_def intro!: ok_set_column)
  obtain s2 where s2: "(case e of None \<Rightarrow> Inr s1
               | Some e \<Rightarrow> if email_taken s1 i e then Inl (Duplicate (lit ''email already in use''))
                   else Inr (set_user_column s1 i (\<lambda>r. r\<lparr>usr_email := e\<rparr>))) = Inr s2"
    and s': "s' = (case role of None \<Rightarrow> s2 | Some r' \<Rightarrow> set_user_column s2 i (\<lambda>r. r\<lparr>usr_role := r'\<rparr>))"
    and g: "role = Some RoleUser \<Longrightarrow> guards_last_root s u = Inr ()"
    using r Some unfolding patch_user_def Let_def option.case and_then_Inr_iff s1_def[symmetric] prod.inject sum.inject
    by (auto simp: and_then_Inr_iff split: if_split_asm)
  have ok2: "accounts_ok s2" and b: "bootstrap_completed s2 = bootstrap_completed s"
    and keep: "other_root s i \<Longrightarrow> other_root s2 i"
    using s2 ok1 ok_set_email[OF ok1]
    by (auto simp: s1_def split: option.splits if_splits intro!: other_root_column)
  have "other_root s2 i" if "role = Some RoleUser" "bootstrap_completed s2"
  proof (rule keep)
    have "exists_row recoverable_root (users s)"
      using ok that(2) b by (simp add: accounts_ok_def root_recoverable_def)
    then show "other_root s i"
      using guard_leaves_root[OF accounts_okD(1)[OF ok] Some g[OF that(1)]] by (simp add: other_root_def)
  qed
  then show ?thesis using ok2 unfolding s' by (cases role) (auto intro: ok_set_role)
qed

lemma ok_touch_session: "accounts_ok s \<Longrightarrow> accounts_ok (fst (touch_web_session s w now))"
  unfolding touch_web_session_def Let_def fst_conv
  by (rule ok_update_sessions) (auto intro: hashes_update)

lemma ok_touch_seen: "accounts_ok s \<Longrightarrow> accounts_ok (fst (touch_user_last_seen s now u))"
  unfolding touch_user_last_seen_def set_user_column_def fst_conv
  by (rule ok_set_column) (auto simp: recoverable_root_def)

lemma ok_create_key:
  assumes ok: "accounts_ok s" and r: "create_api_credential s cnow now i u label h p m = Inr (s', x)"
  shows "accounts_ok s'"
proof -
  have ins: "insert_api_credential s now i u label h p = Inr (s', x)"
    using r by (auto simp: create_api_credential_def split: option.splits if_splits)
  obtain row where s': "s' = s\<lparr>api_credentials := api_credentials s @ [row]\<rparr>"
    and row: "crd_id row = i" "crd_token_hash row = h" "crd_user row = u"
    and new: "\<forall>r \<in> set (api_credentials s). crd_id r \<noteq> i" "\<forall>r \<in> set (api_credentials s). crd_token_hash r \<noteq> h"
    and fk: "u \<in> usr_id ` set (users s)"
    using ins by (auto simp: insert_api_credential_def split: if_splits)
  show ?thesis unfolding s'
  proof (rule ok_credentials[OF ok])
    show "keys_keyed (api_credentials s @ [row])"
      using accounts_okD(3)[OF ok] new row by (simp add: keys_keyed_def unique_on_append1)
    show "crd_user ` set (api_credentials s @ [row]) \<subseteq> usr_id ` set (users s)"
      using accounts_okD(4)[OF ok] fk row by (auto simp: owned_def)
  qed
qed

lemma tokens_update:
  assumes "accounts_ok s" "\<And>r. crd_token_hash (f r) = crd_token_hash r"
  shows "unique_on (\<lambda>_. True) crd_token_hash (update_where P f (api_credentials s))"
  using assms by (auto simp: accounts_ok_def keys_keyed_def intro: unique_on_update_where)

lemma ok_revoke_key: "accounts_ok s \<Longrightarrow> accounts_ok (fst (revoke_api_credential s now i))"
  unfolding revoke_api_credential_def fst_conv by (rule ok_update_credentials) (auto intro: tokens_update)

lemma ok_touch_key: "accounts_ok s \<Longrightarrow> accounts_ok (fst (touch_api_credential s now i))"
  unfolding touch_api_credential_def fst_conv by (rule ok_update_credentials) (auto intro: tokens_update)

lemma ok_bind_pepper: "accounts_ok s \<Longrightarrow> accounts_ok (fst (bind_api_credential_pepper_verifier s now v))"
  by (simp add: bind_api_credential_pepper_verifier_def accounts_ok_def owned_def root_recoverable_def
      bootstrap_completed_def disabled_locked_out_def)

theorem account_exec_ok: "accounts_ok s \<Longrightarrow> accounts_ok (account_exec s c)"
proof (cases c)
qed (auto intro!: committed_keeps[where P = accounts_ok] ok_revoke ok_reset ok_touch_session ok_touch_seen ok_revoke_key
    ok_touch_key ok_bind_pepper elim: ok_insert_human ok_bootstrap ok_recover ok_change ok_issue ok_set_disabled ok_patch
    ok_create_key ok_rotate_credential simp: revoke_session_by_hash_def)

interpretation accounts: step_system "\<lambda>s. s = empty_store" "\<lambda>s c s'. s' = account_exec s c" accounts_ok
  by unfold_locales (simp_all add: accounts_ok_empty account_exec_ok)

lemma account_exec_all_ok: "accounts_ok s \<Longrightarrow> accounts_ok (account_exec_all s cs)"
  by (induction cs arbitrary: s) (simp_all add: account_exec_ok)

end
