(* ===== verification/AccountSafety.thy ===== *)
theory AccountSafety
  imports AccountSystem
begin

text \<open>
  What the account system promises over any order of commands: the server stays administrable, an ended
  session never authenticates again, a login lasts its seven days and no longer, keys follow their rotation and
  revocation, the bootstrap happens once, and the pepper verifier is fixed as soon as keys exist.
\<close>

section \<open>Lookups\<close>

lemma find_live_iff:
  assumes ok: "accounts_ok s"
  shows "find_live_session_by_hash s h now = Some l \<longleftrightarrow>
    (\<exists>r \<in> set (web_sessions s). \<exists>u \<in> set (users s). web_session_hash r = h \<and> session_live now r \<and> usr_id u = web_user r
       \<and> l = \<lparr>lw_id = web_id r, lw_csrf_hash = web_csrf_hash r, lw_expires_at = web_expires_at r,
             lw_last_used_at = web_last_used_at r, lw_user = row_to_user u\<rparr>)" (is "_ \<longleftrightarrow> ?rhs")
proof
  assume "find_live_session_by_hash s h now = Some l"
  then show ?rhs by (auto simp: find_live_session_by_hash_def bind_eq_Some_conv dest!: find_SomeD)
next
  assume ?rhs
  then obtain r u where r: "r \<in> set (web_sessions s)" "web_session_hash r = h" "session_live now r"
    and u: "u \<in> set (users s)" "usr_id u = web_user r"
    and l: "l = \<lparr>lw_id = web_id r, lw_csrf_hash = web_csrf_hash r, lw_expires_at = web_expires_at r,
             lw_last_used_at = web_last_used_at r, lw_user = row_to_user u\<rparr>" by blast
  have "unique_on (\<lambda>_. True) web_session_hash (web_sessions s)" using ok by (simp add: accounts_ok_def web_keyed_def)
  then have "find (\<lambda>x. web_session_hash x = h \<and> session_live now x) (web_sessions s) = Some r"
    using r by (intro find_only) (auto dest: unique_onD)
  moreover have "find (\<lambda>x. usr_id x = web_user r) (users s) = Some u"
    using find_user[OF accounts_okD(1)[OF ok] u(1)] u(2) by simp
  ultimately show "find_live_session_by_hash s h now = Some l" by (simp add: find_live_session_by_hash_def l)
qed

lemma find_key_iff:
  assumes ok: "accounts_ok s"
  shows "find_active_user_by_token_hash s h now = Some x \<longleftrightarrow>
    (\<exists>r \<in> set (api_credentials s). \<exists>u \<in> set (users s). crd_token_hash r = h \<and> credential_active now r
       \<and> usr_id u = crd_user r \<and> x = (row_to_user u, crd_id r))" (is "_ \<longleftrightarrow> ?rhs")
proof
  assume "find_active_user_by_token_hash s h now = Some x"
  then show ?rhs by (auto simp: find_active_user_by_token_hash_def bind_eq_Some_conv dest!: find_SomeD)
next
  assume ?rhs
  then obtain r u where r: "r \<in> set (api_credentials s)" "crd_token_hash r = h" "credential_active now r"
    and u: "u \<in> set (users s)" "usr_id u = crd_user r" and x: "x = (row_to_user u, crd_id r)" by blast
  have "unique_on (\<lambda>_. True) crd_token_hash (api_credentials s)" using ok by (simp add: accounts_ok_def keys_keyed_def)
  then have "find (\<lambda>y. crd_token_hash y = h \<and> credential_active now y) (api_credentials s) = Some r"
    using r by (intro find_only) (auto dest: unique_onD)
  moreover have "find (\<lambda>y. usr_id y = crd_user r) (users s) = Some u"
    using find_user[OF accounts_okD(1)[OF ok] u(1)] u(2) by simp
  ultimately show "find_active_user_by_token_hash s h now = Some x" by (simp add: find_active_user_by_token_hash_def x)
qed

text \<open>A secret is dead when its row is revoked; the unique index keeps any other row from having it.\<close>

definition dead_secret :: "store \<Rightarrow> digest \<Rightarrow> bool" where
  "dead_secret s h \<longleftrightarrow> (\<exists>r \<in> set (web_sessions s). web_session_hash r = h \<and> web_revoked_at r \<noteq> None)"

lemma dead_not_live:
  assumes ok: "accounts_ok s" and d: "dead_secret s h"
  shows "find_live_session_by_hash s h now = None"
proof (rule ccontr)
  assume "find_live_session_by_hash s h now \<noteq> None"
  then obtain r where r: "r \<in> set (web_sessions s)" "web_session_hash r = h" "web_revoked_at r = None"
    by (auto simp: find_live_iff[OF ok] session_live_def)
  from d obtain q where q: "q \<in> set (web_sessions s)" "web_session_hash q = h" "web_revoked_at q \<noteq> None"
    by (auto simp: dead_secret_def)
  have "unique_on (\<lambda>_. True) web_session_hash (web_sessions s)" using ok by (simp add: accounts_ok_def web_keyed_def)
  from unique_onD[OF this r(1) q(1)] r q show False by simp
qed

lemma dead_update:
  assumes "dead_secret s h"
    and "\<And>r. P r \<Longrightarrow> web_revoked_at r \<noteq> None \<Longrightarrow> web_session_hash (f r) = web_session_hash r \<and> web_revoked_at (f r) \<noteq> None"
  shows "dead_secret (s\<lparr>web_sessions := update_where P f (web_sessions s)\<rparr>) h"
proof -
  obtain r where r: "r \<in> set (web_sessions s)" "web_session_hash r = h" "web_revoked_at r \<noteq> None"
    using assms(1) by (auto simp: dead_secret_def)
  have "web_session_hash (if P r then f r else r) = h \<and> web_revoked_at (if P r then f r else r) \<noteq> None"
    using r(2,3) assms(2)[of r] by simp
  with in_update_where[OF r(1), of P f] show ?thesis unfolding dead_secret_def by (auto simp del: not_None_eq)
qed

lemma dead_frame: "web_sessions s' = web_sessions s \<Longrightarrow> dead_secret s' h = dead_secret s h"
  by (simp add: dead_secret_def)

lemma dead_revoke: "dead_secret s h \<Longrightarrow> dead_secret (s\<lparr>web_sessions := update_where P (revoke_row now) (web_sessions s)\<rparr>) h"
  by (rule dead_update) simp_all

lemma dead_revoke_user: "dead_secret s h \<Longrightarrow> dead_secret (revoke_user_sessions s now u k) h"
  by (simp add: revoke_user_sessions_def dead_revoke)

lemma dead_rotate: "dead_secret s h \<Longrightarrow> rotate_web_session_secrets s i h' c = Inr (s', b) \<Longrightarrow> dead_secret s' h"
  by (auto simp: rotate_web_session_secrets_def Let_def split: if_splits intro!: dead_update)

text \<open>Operations that leave the sessions alone.\<close>

lemma install_root_web:
  "install_root s i now n nm e phc m = Inr (s', u) \<Longrightarrow> web_sessions s' = web_sessions s"
  by (auto simp: install_root_def promote_root_def insert_user_row_def and_then_Inr_iff split: option.splits if_splits)

lemma bootstrap_root_web: "bootstrap_root s i now n nm e phc = Inr (s', u) \<Longrightarrow> web_sessions s' = web_sessions s"
  by (auto simp: bootstrap_root_def set_bootstrap_completed_def and_then_Inr_iff dest: install_root_web split: if_splits)

lemma insert_human_web: "insert_human_user s i now nu role phc m = Inr (s', x) \<Longrightarrow> web_sessions s' = web_sessions s"
  by (auto simp: insert_human_user_def insert_user_row_def and_then_Inr_iff split: if_splits)

lemma patch_user_web: "patch_user s i nm e role = Inr (s', x) \<Longrightarrow> web_sessions s' = web_sessions s"
  by (auto simp: patch_user_def set_user_column_def and_then_Inr_iff Let_def split: option.splits if_splits)

lemma create_key_web: "create_api_credential s cnow now i u l h p m = Inr (s', x) \<Longrightarrow> web_sessions s' = web_sessions s"
  by (auto simp: create_api_credential_def insert_api_credential_def split: option.splits if_splits)

lemma rotate_key_web: "rotate_api_credential s i h p = Inr (s', x) \<Longrightarrow> web_sessions s' = web_sessions s"
  by (auto simp: rotate_api_credential_def split: if_splits)

lemmas web_frames = bootstrap_root_web insert_human_web patch_user_web create_key_web rotate_key_web

lemma other_web_frames:
  "web_sessions (fst (touch_user_last_seen s now u)) = web_sessions s"
  "web_sessions (fst (revoke_api_credential s now i)) = web_sessions s"
  "web_sessions (fst (touch_api_credential s now i)) = web_sessions s"
  "web_sessions (fst (bind_api_credential_pepper_verifier s now v)) = web_sessions s"
  by (simp_all add: touch_user_last_seen_def set_user_column_def revoke_api_credential_def touch_api_credential_def
      bind_api_credential_pepper_verifier_def)

text \<open>Operations that change them keep a dead secret dead.\<close>

lemma dead_issue: "issue_web_session s i now u phc role m h' c = Inr (s', x) \<Longrightarrow> dead_secret s h \<Longrightarrow> dead_secret s' h"
  by (auto simp: issue_web_session_def insert_web_session_def dead_secret_def Let_def split: option.splits if_splits)

lemma change_password_InrE:
  assumes "change_password s now rnow u old phc w h c = Inr (s', x)"
  obtains t where "web_sessions t = web_sessions s"
    and "t = s\<lparr>users := update_where (\<lambda>r. usr_id r = u)
          (\<lambda>r. r\<lparr>usr_password_hash := Some phc, usr_must_change_password := False\<rparr>) (users s)\<rparr>"
    and "rotate_web_session_secrets (revoke_user_sessions t rnow u (Some w)) w h c = Inr (s', True)"
    and "\<exists>r \<in> set (web_sessions s). web_id r = w \<and> web_user r = u \<and> session_live now r"
    and "password_current s u old"
  using assms by (auto simp: change_password_def and_then_Inr_iff split: if_splits)

lemma dead_change:
  assumes "change_password s now rnow u old phc w h' c = Inr (s', x)" "dead_secret s h"
  shows "dead_secret s' h"
  using assms(1)
proof (rule change_password_InrE)
  fix t assume "web_sessions t = web_sessions s"
    and rot: "rotate_web_session_secrets (revoke_user_sessions t rnow u (Some w)) w h' c = Inr (s', True)"
  then have "dead_secret t h" using assms(2) dead_frame by blast
  then show ?thesis using dead_rotate[OF _ rot] dead_revoke_user by blast
qed

lemma dead_recover:
  assumes "recover_root s i now rnow n nm e phc = Inr (s', x)" "dead_secret s h"
  shows "dead_secret s' h"
  using assms(1)
proof (rule recover_root_InrE)
  fix s1 assume i: "install_root s i now n nm e phc False = Inr (s1, x)"
    and s': "s' = set_bootstrap_completed (revoke_user_sessions s1 rnow x None) True"
  have "dead_secret s1 h" using dead_frame[OF install_root_web[OF i]] assms(2) by simp
  then have "dead_secret (revoke_user_sessions s1 rnow x None) h" by (rule dead_revoke_user)
  then show ?thesis by (simp add: s' set_bootstrap_completed_def dead_secret_def)
qed

lemma dead_disable_users: "dead_secret (disable_users s now u d) h = dead_secret s h"
  by (rule dead_frame) (simp add: disable_users_def)

lemma dead_set_disabled: "set_user_disabled s now rnow i d = Inr (s', x) \<Longrightarrow> dead_secret s h \<Longrightarrow> dead_secret s' h"
  by (auto simp: set_user_disabled_def and_then_Inr_iff Let_def dead_disable_users dead_revoke_user
      split: option.splits if_splits)

lemma dead_users: "dead_secret (s\<lparr>users := us\<rparr>) h = dead_secret s h"
  by (simp add: dead_secret_def)

lemma dead_reset: "dead_secret s h \<Longrightarrow> dead_secret (fst (reset_human_password s rnow u phc m)) h"
  by (simp add: reset_human_password_def dead_revoke_user dead_users)

lemma dead_touch: "dead_secret s h \<Longrightarrow> dead_secret (fst (touch_web_session s w now)) h"
  unfolding touch_web_session_def Let_def fst_conv by (rule dead_update) simp_all

lemma dead_untouched:
  "dead_secret s h \<Longrightarrow> (\<And>s' x. r = Inr (s', x) \<Longrightarrow> web_sessions s' = web_sessions s) \<Longrightarrow> dead_secret (committed s r) h"
  by (rule committed_keeps) (simp_all add: dead_secret_def)

lemma dead_committed:
  "dead_secret s h \<Longrightarrow> (\<And>s' x. r = Inr (s', x) \<Longrightarrow> dead_secret s h \<Longrightarrow> dead_secret s' h) \<Longrightarrow> dead_secret (committed s r) h"
  by (rule committed_keeps) simp_all

lemma dead_exec:
  assumes d: "dead_secret s h"
  shows "dead_secret (account_exec s c) h"
proof (cases c)
qed (simp_all only: account_exec.simps fst_conv revoke_session_by_hash_def other_web_frames(1-4)[THEN dead_frame] d
    dead_untouched[OF d web_frames(1)] dead_untouched[OF d web_frames(2)] dead_untouched[OF d web_frames(3)]
    dead_untouched[OF d web_frames(4)] dead_untouched[OF d web_frames(5)] dead_committed[OF d dead_issue]
    dead_committed[OF d dead_change] dead_committed[OF d dead_recover] dead_committed[OF d dead_set_disabled]
    dead_reset[OF d] dead_touch[OF d] dead_revoke[OF d])

lemma dead_exec_all: "dead_secret s h \<Longrightarrow> dead_secret (account_exec_all s cs) h"
  by (induction cs arbitrary: s) (simp_all add: dead_exec)

section \<open>Administration and disabled accounts\<close>

text \<open>
  C13. Whatever account commands ran, in whatever order: once the bootstrap is done some enabled root account with a
  password exists, and a session that authenticates belongs to an account that is not disabled.
\<close>

theorem accounts_stay_administrable:
  assumes "s = account_exec_all empty_store cs"
  shows "(bootstrap_completed s \<longrightarrow>
      (\<exists>u \<in> set (users s). usr_role u = RoleRoot \<and> usr_password_hash u \<noteq> None \<and> usr_disabled_at u = None))
    \<and> (\<forall>h now l. find_live_session_by_hash s h now = Some l \<longrightarrow> u_disabled_at (lw_user l) = None)"
proof -
  have ok: "accounts_ok s" unfolding assms by (rule account_exec_all_ok[OF accounts_ok_empty])
  have "usr_disabled_at u = None"
    if "r \<in> set (web_sessions s)" "u \<in> set (users s)" "session_live now r" "usr_id u = web_user r" for r u now
  proof (rule ccontr)
    assume "usr_disabled_at u \<noteq> None"
    with accounts_okD(6)[OF ok] that(1,2,4) have "web_revoked_at r \<noteq> None" unfolding disabled_locked_out_def by metis
    with that(3) show False by (simp add: session_live_def)
  qed
  then have "u_disabled_at (lw_user l) = None" if "find_live_session_by_hash s h now = Some l" for h now l
    using that by (auto simp: find_live_iff[OF ok] row_to_user_def)
  moreover have "exists_row recoverable_root (users s)" if "bootstrap_completed s"
    using accounts_okD(5)[OF ok] that by (simp add: root_recoverable_def)
  ultimately show ?thesis by (auto simp: recoverable_root_def)
qed

definition demo_accounts :: "account_command list" where
  "demo_accounts = [Bootstrap 1 10 (lit ''root'') None None (lit ''phc-r''),
     InsertHuman 2 11 \<lparr>nu_username = lit ''ann'', nu_name = None, nu_email = Some (lit ''Ann@x'')\<rparr> RoleUser (Some (lit ''phc-a'')) False,
     IssueSession 50 20 2 (lit ''phc-a'') RoleUser False 900 901,
     SetDisabled 30 31 1 True]"

lemmas account_evals =
  account_exec_all.simps account_exec.simps committed_def insert_human_user_def insert_user_row_def human_row_def
  bootstrap_root_def install_root_def find_user_by_username_def bootstrap_completed_def set_bootstrap_completed_def
  issue_web_session_def insert_web_session_def saturating_add_def session_ttl_micros_def set_user_disabled_def
  find_user_by_id_def guards_last_root_def ensure_not_last_recoverable_root_def count_recoverable_roots_def
  recoverable_root_def row_to_user_def email_taken_def empty_store_def Let_def

lemma demo_accounts_store:
  "account_exec_all empty_store demo_accounts = empty_store\<lparr>human_auth_state := True,
     users := [human_row 1 (lit ''root'') None None 10 RoleRoot (Some (lit ''phc-r'')) True,
       human_row 2 (lit ''ann'') None (Some (lit ''Ann@x'')) 11 RoleUser (Some (lit ''phc-a'')) False],
     web_sessions := [\<lparr>web_id = 50, web_session_hash = 900, web_user = 2, web_csrf_hash = 901, web_created_at = 20,
       web_last_used_at = 20, web_expires_at = 604800000020, web_revoked_at = None\<rparr>]\<rparr>"
  unfolding demo_accounts_def by (simp add: account_evals)

theorem accounts_stay_administrable_witness:
  "bootstrap_completed (account_exec_all empty_store demo_accounts)
   \<and> (\<exists>u \<in> set (users (account_exec_all empty_store demo_accounts)). usr_role u = RoleRoot \<and> usr_disabled_at u = None)"
proof -
  have b: "bootstrap_completed (account_exec_all empty_store demo_accounts)"
    by (simp add: demo_accounts_store bootstrap_completed_def)
  with accounts_stay_administrable[OF refl, of demo_accounts] show ?thesis by blast
qed

section \<open>Ended sessions\<close>

text \<open>The commands that end a session, by what they did to the store.\<close>

fun ends_session :: "store \<Rightarrow> account_command \<Rightarrow> web_session_row \<Rightarrow> bool" where
  "ends_session s (Logout now h) r = (web_session_hash r = h)"
| "ends_session s (ResetPassword rnow u phc m) r = (web_user r = u)"
| "ends_session s (SetDisabled now rnow u d) r = (d \<and> web_user r = u \<and> \<not> isl (set_user_disabled s now rnow u d))"
| "ends_session s (RecoverRoot i now rnow n nm e phc) r =
     (case recover_root s i now rnow n nm e phc of Inl _ \<Rightarrow> False | Inr (_, u) \<Rightarrow> web_user r = u)"
| "ends_session s (ChangePassword now rnow u old phc w h c) r =
     (web_user r = u \<and> web_id r \<noteq> w \<and> \<not> isl (change_password s now rnow u old phc w h c))"
| "ends_session s _ r = False"

lemma revoked_dead:
  assumes "r \<in> set (web_sessions s)" "P r"
  shows "dead_secret (s\<lparr>web_sessions := update_where P (revoke_row now) (web_sessions s)\<rparr>) (web_session_hash r)"
proof -
  have "revoke_row now r \<in> set (update_where P (revoke_row now) (web_sessions s))"
    using in_update_where[OF assms(1), of P "revoke_row now"] assms(2) by simp
  then show ?thesis unfolding dead_secret_def
    by (intro bexI[of _ "revoke_row now r"]) (simp_all del: not_None_eq)
qed

lemma revoked_user_dead:
  "r \<in> set (web_sessions s) \<Longrightarrow> web_user r = u \<Longrightarrow> k \<noteq> Some (web_id r) \<Longrightarrow>
     dead_secret (revoke_user_sessions s now u k) (web_session_hash r)"
  unfolding revoke_user_sessions_def by (rule revoked_dead) auto

lemma session_owner:
  assumes "accounts_ok s" "r \<in> set (web_sessions s)"
  shows "\<exists>u \<in> set (users s). usr_id u = web_user r"
  using accounts_okD(4)[OF assms(1)] assms(2) by (force simp: owned_def)

lemma disable_ends:
  assumes ok: "accounts_ok s" and r: "r \<in> set (web_sessions s)" and d: "set_user_disabled s now rnow (web_user r) True = Inr (s', x)"
  shows "dead_secret s' (web_session_hash r)"
proof -
  obtain u where "find_user_by_id s (web_user r) = Some u"
    using session_owner[OF ok r] find_user[OF accounts_okD(1)[OF ok]] by (force simp: find_user_by_id_def)
  with d have "s' = revoke_user_sessions (disable_users s now (web_user r) True) rnow (web_user r) None"
    by (auto simp: set_user_disabled_def and_then_Inr_iff Let_def)
  then show ?thesis using r by (auto simp: disable_users_def intro!: revoked_user_dead)
qed

lemma recover_ends:
  assumes r: "r \<in> set (web_sessions s)" and rec: "recover_root s i now rnow n nm e phc = Inr (s', web_user r)"
  shows "dead_secret s' (web_session_hash r)"
  using rec
proof (rule recover_root_InrE)
  fix s1 assume i: "install_root s i now n nm e phc False = Inr (s1, web_user r)"
    and s': "s' = set_bootstrap_completed (revoke_user_sessions s1 rnow (web_user r) None) True"
  have "dead_secret (revoke_user_sessions s1 rnow (web_user r) None) (web_session_hash r)"
    using r install_root_web[OF i] by (intro revoked_user_dead) simp_all
  then show ?thesis by (simp add: s' set_bootstrap_completed_def dead_secret_def)
qed

lemma change_ends:
  assumes r: "r \<in> set (web_sessions s)" "web_id r \<noteq> w"
    and ch: "change_password s now rnow (web_user r) old phc w h c = Inr (s', x)"
  shows "dead_secret s' (web_session_hash r)"
  using ch
proof (rule change_password_InrE)
  fix t assume t: "web_sessions t = web_sessions s"
    and rot: "rotate_web_session_secrets (revoke_user_sessions t rnow (web_user r) (Some w)) w h c = Inr (s', True)"
  have "dead_secret (revoke_user_sessions t rnow (web_user r) (Some w)) (web_session_hash r)"
    using r by (intro revoked_user_dead) (simp_all add: t)
  then show ?thesis by (rule dead_rotate[OF _ rot])
qed

lemma not_isl_pair: "\<not> isl r \<Longrightarrow> \<exists>a b. r = Inr (a, b)"
  by (cases r) auto

lemma ends_session_dead:
  assumes ok: "accounts_ok s" and r: "r \<in> set (web_sessions s)" and e: "ends_session s c r"
  shows "dead_secret (account_exec s c) (web_session_hash r)"
proof (cases c)
  case (Logout now h)
  with e r show ?thesis by (auto simp: revoke_session_by_hash_def intro: revoked_dead)
next
  case (ResetPassword rnow u phc m)
  from e ResetPassword have u: "u = web_user r" by simp
  have "exists_row (\<lambda>x. usr_id x = web_user r) (users s)" using session_owner[OF ok r] by simp
  then show ?thesis
    by (simp add: ResetPassword u reset_human_password_def revoked_user_dead r del: exists_row_iff)
next
  case (SetDisabled now rnow u d)
  from e SetDisabled have u: "u = web_user r" "d" and "\<not> isl (set_user_disabled s now rnow (web_user r) True)"
    by auto
  from not_isl_pair[OF this(3)] obtain s' x where r': "set_user_disabled s now rnow (web_user r) True = Inr (s', x)" by blast
  with disable_ends[OF ok r r'] u show ?thesis by (simp add: SetDisabled committed_def)
next
  case (RecoverRoot i now rnow n nm em phc)
  with e obtain s' where "recover_root s i now rnow n nm em phc = Inr (s', web_user r)" by (auto split: sum.splits)
  with recover_ends[OF r this] show ?thesis by (simp add: RecoverRoot committed_def)
next
  case (ChangePassword now rnow u old phc w h c')
  from e ChangePassword have u: "u = web_user r" "web_id r \<noteq> w"
    and "\<not> isl (change_password s now rnow (web_user r) old phc w h c')" by simp_all
  from not_isl_pair[OF this(3)] obtain s' x where r': "change_password s now rnow (web_user r) old phc w h c' = Inr (s', x)" by blast
  with change_ends[OF r u(2) r'] u show ?thesis by (simp add: ChangePassword committed_def)
qed (use e in simp_all)

text \<open>
  C14. A session ends for good. After a logout with its secret, a password reset, a disabling or a root recovery of its
  account, or a password change from another session of the account, its secret authenticates at no time
  and after no further commands.
\<close>

theorem ended_session_never_returns:
  assumes "accounts_ok s" "r \<in> set (web_sessions s)" "ends_session s c r"
  shows "find_live_session_by_hash (account_exec_all (account_exec s c) cs) (web_session_hash r) now = None"
proof (rule dead_not_live)
  show "accounts_ok (account_exec_all (account_exec s c) cs)"
    by (intro account_exec_all_ok account_exec_ok assms(1))
  show "dead_secret (account_exec_all (account_exec s c) cs) (web_session_hash r)"
    by (intro dead_exec_all ends_session_dead assms)
qed

definition demo_session :: web_session_row where
  "demo_session = \<lparr>web_id = 50, web_session_hash = 900, web_user = 2, web_csrf_hash = 901, web_created_at = 20,
       web_last_used_at = 20, web_expires_at = 604800000020, web_revoked_at = None\<rparr>"

theorem ended_session_never_returns_witness:
  "find_live_session_by_hash (account_exec_all empty_store demo_accounts) 900 40 \<noteq> None
   \<and> find_live_session_by_hash (account_exec_all (account_exec (account_exec_all empty_store demo_accounts)
        (ResetPassword 41 2 (lit ''phc-b'') True)) []) (web_session_hash demo_session) 42 = None"
proof
  show "find_live_session_by_hash (account_exec_all empty_store demo_accounts) 900 40 \<noteq> None"
    unfolding demo_accounts_store by (simp add: find_live_session_by_hash_def session_live_def human_row_def empty_store_def)
  show "find_live_session_by_hash (account_exec_all (account_exec (account_exec_all empty_store demo_accounts)
        (ResetPassword 41 2 (lit ''phc-b'') True)) []) (web_session_hash demo_session) 42 = None"
    by (rule ended_session_never_returns[OF account_exec_all_ok[OF accounts_ok_empty]])
      (simp_all add: demo_accounts_store demo_session_def)
qed

section \<open>Logins\<close>

lemma saturating_add_small: "- (2 ^ 63) \<le> a + b \<Longrightarrow> a + b < 2 ^ 63 \<Longrightarrow> saturating_add a b = a + b"
  by (simp add: saturating_add_def)

lemma saturating_add_range: "- (2 ^ 63) \<le> saturating_add a b \<and> saturating_add a b < 2 ^ 63"
  by (simp add: saturating_add_def)

lemma find_live_eq:
  assumes ok: "accounts_ok s" and r: "r \<in> set (web_sessions s)" "u \<in> set (users s)" "usr_id u = web_user r"
  shows "find_live_session_by_hash s (web_session_hash r) t =
    (if session_live t r then Some \<lparr>lw_id = web_id r, lw_csrf_hash = web_csrf_hash r, lw_expires_at = web_expires_at r,
             lw_last_used_at = web_last_used_at r, lw_user = row_to_user u\<rparr> else None)"
proof (cases "session_live t r")
  case True
  then show ?thesis using find_live_iff[OF ok] r by auto
next
  case False
  have "unique_on (\<lambda>_. True) web_session_hash (web_sessions s)" using ok by (simp add: accounts_ok_def web_keyed_def)
  then have "find (\<lambda>x. web_session_hash x = web_session_hash r \<and> session_live t x) (web_sessions s) = None"
    using r(1) False unfolding find_None_iff by (metis unique_onD)
  then show ?thesis using False by (simp add: find_live_session_by_hash_def)
qed

text \<open>
  When \<^verbatim>\<open>issue_web_session\<close> returns, the account was enabled and still had the password hash, role and change
  flag that the login checked; the secret then authenticates that account exactly until the expiry, which for a
  clock inside the range of \<^verbatim>\<open>i64\<close> is the seventh day.
\<close>

lemma issued_session:
  assumes ok: "accounts_ok s" and r: "issue_web_session s i now u phc role m h c = Inr (s', w)"
  obtains row where "row \<in> set (users s)" "usr_id row = u" "usr_disabled_at row = None" "usr_password_hash row = Some phc"
    "usr_role row = role" "usr_must_change_password row = m" "ws_expires_at w = saturating_add now session_ttl_micros"
    "users s' = users s" "human_auth_state s' = human_auth_state s"
    "\<And>t. find_live_session_by_hash s' h t =
       (if t < ws_expires_at w then Some \<lparr>lw_id = i, lw_csrf_hash = c, lw_expires_at = ws_expires_at w,
          lw_last_used_at = now, lw_user = row_to_user row\<rparr> else None)"
proof -
  obtain row where row: "find (\<lambda>r. usr_id r = u) (users s) = Some row" "usr_disabled_at row = None"
    "usr_password_hash row = Some phc" "usr_role row = role" "usr_must_change_password row = m"
    and ins: "insert_web_session s i now u h c = Inr (s', w)"
    using r by (auto simp: issue_web_session_def split: option.splits if_splits)
  have mem: "row \<in> set (users s)" "usr_id row = u" using find_SomeD[OF row(1)] by auto
  let ?new = "\<lparr>web_id = i, web_session_hash = h, web_user = u, web_csrf_hash = c, web_created_at = now,
    web_last_used_at = now, web_expires_at = saturating_add now session_ttl_micros, web_revoked_at = None\<rparr>"
  have s': "s' = s\<lparr>web_sessions := web_sessions s @ [?new]\<rparr>" and w: "ws_expires_at w = saturating_add now session_ttl_micros"
    using ins by (auto simp: insert_web_session_def Let_def split: if_splits)
  have ok': "accounts_ok s'" by (rule ok_issue[OF ok r])
  have "find_live_session_by_hash s' h t =
             (if t < ws_expires_at w then Some \<lparr>lw_id = i, lw_csrf_hash = c, lw_expires_at = ws_expires_at w,
                lw_last_used_at = now, lw_user = row_to_user row\<rparr> else None)" for t
    using find_live_eq[OF ok', of ?new row t] mem by (simp add: s' w session_live_def)
  then show thesis using mem row(2-5) w by (intro that[of row]) (simp_all add: s')
qed

section \<open>Password changes\<close>

lemma rotated_rows:
  assumes rot: "rotate_web_session_secrets s i h c = Inr (s', b)" and r: "r \<in> set (web_sessions s')"
  shows "\<exists>q \<in> set (web_sessions s). web_user r = web_user q \<and> web_id r = web_id q \<and> web_revoked_at r = web_revoked_at q
    \<and> (web_id q = i \<and> web_revoked_at q = None \<longrightarrow> web_session_hash r = h)"
proof -
  let ?hit = "\<lambda>r. web_id r = i \<and> web_revoked_at r = None"
  have "web_sessions s' = update_where ?hit (\<lambda>r. r\<lparr>web_session_hash := h, web_csrf_hash := c\<rparr>) (web_sessions s)"
    using rot by (auto simp: rotate_web_session_secrets_def Let_def split: if_splits)
  with r obtain q where "q \<in> set (web_sessions s)" "r = (if ?hit q then q\<lparr>web_session_hash := h, web_csrf_hash := c\<rparr> else q)"
    by (auto simp only: set_update_where)
  then show ?thesis by (intro bexI[of _ q]) auto
qed

lemma kept_session:
  assumes "r \<in> set (web_sessions (revoke_user_sessions s now u (Some w)))" "web_user r = u" "web_revoked_at r = None"
  shows "web_id r = w"
proof (rule ccontr)
  assume n: "web_id r \<noteq> w"
  obtain q where q: "r = (if web_user q = u \<and> Some w \<noteq> Some (web_id q) then revoke_row now q else q)"
    using assms(1) unfolding revoke_user_web set_update_where by (rule imageE)
  with assms(2) n have "r = revoke_row now q" by (auto split: if_splits)
  with assms(3) show False by simp
qed

text \<open>
  After a password change the account has the new password, no longer the old one, and the only session of the
  account that authenticates, at any time, is the one that made the change, under its new secret.
\<close>

theorem password_change_rotates:
  assumes ok: "accounts_ok s" and ch: "change_password s now rnow u old phc w h c = Inr (s', x)"
  shows "password_current s' u phc \<and> (old \<noteq> phc \<longrightarrow> \<not> password_current s' u old)
    \<and> (\<forall>g t l. find_live_session_by_hash s' g t = Some l \<and> u_id (lw_user l) = u \<longrightarrow> g = h \<and> lw_id l = w)"
  using ch
proof (rule change_password_InrE)
  fix t assume t: "t = s\<lparr>users := update_where (\<lambda>r. usr_id r = u)
          (\<lambda>r. r\<lparr>usr_password_hash := Some phc, usr_must_change_password := False\<rparr>) (users s)\<rparr>"
    and rot: "rotate_web_session_secrets (revoke_user_sessions t rnow u (Some w)) w h c = Inr (s', True)"
    and cur: "password_current s u old"
  obtain row where row: "find (\<lambda>r. usr_id r = u) (users s) = Some row" "usr_disabled_at row = None"
    using cur by (auto simp: password_current_def split: option.splits)
  have us: "users s' = users t"
    using rot by (auto simp: rotate_web_session_secrets_def Let_def split: if_splits)
  have "find (\<lambda>r. usr_id r = u) (users s') = Some (row\<lparr>usr_password_hash := Some phc, usr_must_change_password := False\<rparr>)"
    using row(1) find_SomeD[OF row(1)] by (simp add: us t find_update_where)
  then have pw: "password_current s' u p \<longleftrightarrow> p = phc" for p
    using row(2) by (auto simp: password_current_def)
  have ok': "accounts_ok s'" by (rule ok_change[OF ok ch])
  have "g = h \<and> lw_id l = w" if l: "find_live_session_by_hash s' g t' = Some l" "u_id (lw_user l) = u" for g t' l
  proof -
    obtain r v where r: "r \<in> set (web_sessions s')" "web_session_hash r = g" "web_revoked_at r = None" "usr_id v = web_user r"
      "lw_id l = web_id r" "lw_user l = row_to_user v"
      using l(1) by (auto simp: find_live_iff[OF ok'] session_live_def)
    then have "web_user r = u" using l(2) by (simp add: row_to_user_def)
    moreover obtain q where q: "q \<in> set (web_sessions (revoke_user_sessions t rnow u (Some w)))" "web_user r = web_user q"
      "web_id r = web_id q" "web_revoked_at r = web_revoked_at q"
      "web_id q = w \<and> web_revoked_at q = None \<longrightarrow> web_session_hash r = h"
      using rotated_rows[OF rot r(1)] by blast
    ultimately have "web_id q = w" using kept_session[OF q(1)] r(3) by simp
    with q r show ?thesis by simp
  qed
  then show ?thesis by (simp add: pw) blast
qed

theorem password_change_rotates_witness:
  "\<exists>s'. change_password (account_exec_all empty_store demo_accounts) 70 71 2 (lit ''phc-a'') (lit ''phc-n'') 50 920 921 = Inr (s', True)
     \<and> password_current s' 2 (lit ''phc-n'') \<and> \<not> password_current s' 2 (lit ''phc-a'')"
proof -
  let ?s = "account_exec_all empty_store demo_accounts"
  obtain s' where r: "change_password ?s 70 71 2 (lit ''phc-a'') (lit ''phc-n'') 50 920 921 = Inr (s', True)"
    unfolding demo_accounts_store
    by (simp add: change_password_def password_current_def rotate_web_session_secrets_def revoke_user_sessions_def
        session_live_def human_row_def update_where_def empty_store_def Let_def)
  from password_change_rotates[OF account_exec_all_ok[OF accounts_ok_empty] r] r show ?thesis by auto
qed

section \<open>API keys\<close>

lemma key_owner:
  assumes "accounts_ok s" "r \<in> set (api_credentials s)"
  shows "\<exists>u \<in> set (users s). usr_id u = crd_user r"
  using accounts_okD(4)[OF assms(1)] assms(2) by (force simp: owned_def)

lemma disable_keeps_keys:
  assumes "set_user_disabled s now rnow u d = Inr (s2, x)"
  shows "map_option snd (find_active_user_by_token_hash s2 g t) = map_option snd (find_active_user_by_token_hash s g t)"
proof -
  have us: "users s2 = users s \<or> users s2 = users (disable_users s now u d)" and k: "api_credentials s2 = api_credentials s"
    using assms by (auto simp: set_user_disabled_def and_then_Inr_iff Let_def revoke_user_sessions_def disable_users_def
        split: option.splits if_splits)
  have "map_option (\<lambda>_. c) (find (\<lambda>r. usr_id r = i) (users (disable_users s now u d)))
      = map_option (\<lambda>_. c) (find (\<lambda>r. usr_id r = i) (users s))" for i and c :: uuid
    by (simp add: disable_users_def find_update_where option.map_comp o_def)
  with us have "map_option (\<lambda>_. c) (find (\<lambda>r. usr_id r = i) (users s2)) = map_option (\<lambda>_. c) (find (\<lambda>r. usr_id r = i) (users s))" for i and c :: uuid
    by auto
  then show ?thesis
    by (cases "find (\<lambda>r. crd_token_hash r = g \<and> credential_active t r) (api_credentials s)")
      (simp_all add: find_active_user_by_token_hash_def k option.map_comp o_def)
qed

text \<open>
  A rotated key. The rotation of key \<^verbatim>\<open>i\<close> makes the new secret authenticate its owner whenever the key has not
  expired, even if the key had been revoked, while the old secret authenticates nobody; a revocation makes its
  secret authenticate nobody. Disabling the owner changes neither: keys are cut only by their own operations.
\<close>

theorem key_rotation_and_revocation:
  assumes ok: "accounts_ok s" and k: "k \<in> set (api_credentials s)"
    and rot: "rotate_api_credential s (crd_id k) h p = Inr (s', b)"
  shows "(crd_token_hash k \<noteq> h \<longrightarrow> find_active_user_by_token_hash s' (crd_token_hash k) t = None)
    \<and> (crd_expires_at k = None \<or> (\<exists>e. crd_expires_at k = Some e \<and> t < e) \<longrightarrow>
        (\<exists>u. u_id u = crd_user k \<and> find_active_user_by_token_hash s' h t = Some (u, crd_id k)))
    \<and> find_active_user_by_token_hash (fst (revoke_api_credential s now (crd_id k))) (crd_token_hash k) t = None
    \<and> (\<forall>rnow u d g s2 x. set_user_disabled s now rnow u d = Inr (s2, x) \<longrightarrow>
        map_option snd (find_active_user_by_token_hash s2 g t) = map_option snd (find_active_user_by_token_hash s g t))"
proof -
  let ?f = "\<lambda>r. r\<lparr>crd_token_hash := h, crd_preview := p, crd_revoked_at := None\<rparr>"
  have ids: "unique_on (\<lambda>_. True) crd_id (api_credentials s)" "unique_on (\<lambda>_. True) crd_token_hash (api_credentials s)"
    using ok by (simp_all add: accounts_ok_def keys_keyed_def)
  have same: "r = k" if "r \<in> set (api_credentials s)" "crd_token_hash r = crd_token_hash k \<or> crd_id r = crd_id k" for r
    using that unique_onD[OF ids(1) that(1) k] unique_onD[OF ids(2) that(1) k] by auto
  have s': "s' = s\<lparr>api_credentials := update_where (\<lambda>r. crd_id r = crd_id k) ?f (api_credentials s)\<rparr>"
    using rot by (auto simp: rotate_api_credential_def split: if_splits)
  have ok': "accounts_ok s'" by (rule ok_rotate_credential[OF ok rot])
  have "find_active_user_by_token_hash s' (crd_token_hash k) t = None" if "crd_token_hash k \<noteq> h"
  proof (rule ccontr)
    assume "find_active_user_by_token_hash s' (crd_token_hash k) t \<noteq> None"
    then obtain r where "r \<in> set (api_credentials s')" "crd_token_hash r = crd_token_hash k"
      by (auto simp: find_key_iff[OF ok'])
    then obtain q where "q \<in> set (api_credentials s)" "r = (if crd_id q = crd_id k then ?f q else q)" "crd_token_hash r = crd_token_hash k"
      by (auto simp: s' set_update_where)
    with that same show False by (cases "crd_id q = crd_id k") auto
  qed
  moreover have "\<exists>u. u_id u = crd_user k \<and> find_active_user_by_token_hash s' h t = Some (u, crd_id k)"
    if "crd_expires_at k = None \<or> (\<exists>e. crd_expires_at k = Some e \<and> t < e)"
  proof -
    obtain u where u: "u \<in> set (users s')" "usr_id u = crd_user k" using key_owner[OF ok k] by (auto simp: s')
    have "?f k \<in> set (api_credentials s')"
      using in_update_where[OF k, of "\<lambda>r. crd_id r = crd_id k" ?f] by (simp add: s')
    moreover have "credential_active t (?f k)" using that by (auto simp: credential_active_def)
    ultimately have "find_active_user_by_token_hash s' h t = Some (row_to_user u, crd_id k)"
      using u unfolding find_key_iff[OF ok'] by (intro bexI[of _ "?f k"] bexI[of _ u]) simp_all
    then show ?thesis using u(2) by (intro exI[of _ "row_to_user u"]) (simp add: row_to_user_def)
  qed
  moreover have "find_active_user_by_token_hash (fst (revoke_api_credential s now (crd_id k))) (crd_token_hash k) t = None"
  proof (rule ccontr)
    assume "\<not> ?thesis"
    then obtain r where r: "r \<in> set (api_credentials (fst (revoke_api_credential s now (crd_id k))))"
      "crd_token_hash r = crd_token_hash k" "crd_revoked_at r = None"
      by (auto simp: find_key_iff[OF ok_revoke_key[OF ok]] credential_active_def)
    then obtain q where "q \<in> set (api_credentials s)" "crd_token_hash q = crd_token_hash k"
      "crd_id q = crd_id k \<longrightarrow> crd_revoked_at r \<noteq> None"
      by (auto simp: revoke_api_credential_def set_update_where split: option.splits if_splits)
    with same r(3) show False by auto
  qed
  ultimately show ?thesis using disable_keeps_keys by (intro conjI allI impI) blast+
qed

definition demo_key :: credential_row where
  "demo_key = \<lparr>crd_id = 70, crd_user = 2, crd_label = lit ''laptop'', crd_token_hash = 1000, crd_preview = None,
     crd_created_at = 80, crd_last_used_at = None, crd_expires_at = None, crd_revoked_at = None\<rparr>"

definition demo_key_commands :: "account_command list" where
  "demo_key_commands = demo_accounts @ [BindPepper 79 (lit ''phc-p''), CreateKey 80 80 70 2 (lit ''laptop'') 1000 None (Some 20)]"

lemma account_exec_all_append: "account_exec_all s (cs @ ds) = account_exec_all (account_exec_all s cs) ds"
  by (induction cs arbitrary: s) simp_all

lemma demo_key_store:
  "account_exec_all empty_store demo_key_commands =
     (account_exec_all empty_store demo_accounts)\<lparr>pepper_state := Some (lit ''phc-p'', 79), api_credentials := [demo_key]\<rparr>"
  unfolding demo_key_commands_def account_exec_all_append demo_accounts_store
  by (simp add: bind_api_credential_pepper_verifier_def api_credentials_exist_def create_api_credential_def
      insert_api_credential_def count_active_api_credentials_for_user_def human_row_def committed_def demo_key_def empty_store_def)

theorem key_rotation_and_revocation_witness:
  "\<exists>s'. rotate_api_credential (account_exec_all empty_store demo_key_commands) 70 2000 None = Inr (s', True)
     \<and> find_active_user_by_token_hash s' 1000 99 = None \<and> (\<exists>u. u_id u = 2 \<and> find_active_user_by_token_hash s' 2000 99 = Some (u, 70))"
proof -
  let ?s = "account_exec_all empty_store demo_key_commands"
  have "\<exists>s'. rotate_api_credential ?s (crd_id demo_key) 2000 None = Inr (s', True)" and k: "demo_key \<in> set (api_credentials ?s)"
    by (simp_all add: demo_key_store rotate_api_credential_def)
  then obtain s' where r: "rotate_api_credential ?s (crd_id demo_key) 2000 None = Inr (s', True)" by blast
  from key_rotation_and_revocation[OF account_exec_all_ok[OF accounts_ok_empty] k r, of 99 99] r show ?thesis
    by (simp add: demo_key_def)
qed

section \<open>The pepper verifier\<close>

text \<open>What no command undoes: the verifier of existing keys and the bootstrap marker.\<close>

definition keys_frame :: "store \<Rightarrow> store \<Rightarrow> bool" where
  "keys_frame s s' \<longleftrightarrow> (human_auth_state s \<longrightarrow> human_auth_state s') \<and> (api_credentials s \<noteq> [] \<and> pepper_state s \<noteq> None \<longrightarrow>
     api_credentials s' \<noteq> [] \<and> pepper_state s' = pepper_state s)"

lemma frame_install: "install_root s i now n nm e phc m = Inr (s', u) \<Longrightarrow> api_credentials s' = api_credentials s \<and> pepper_state s' = pepper_state s
    \<and> human_auth_state s' = human_auth_state s"
  by (auto simp: install_root_def promote_root_def insert_user_row_def and_then_Inr_iff split: option.splits if_splits)

lemma frame_revoke_user: "pepper_state (revoke_user_sessions s now u k) = pepper_state s"
  "human_auth_state (revoke_user_sessions s now u k) = human_auth_state s"
  by (simp_all add: revoke_user_sessions_def)

lemma frame_bootstrap: "bootstrap_root s i now n nm e phc = Inr (s', u) \<Longrightarrow> keys_frame s s'"
  by (auto simp: bootstrap_root_def set_bootstrap_completed_def and_then_Inr_iff keys_frame_def dest: frame_install split: if_splits)

lemma frame_recover: "recover_root s i now rnow n nm e phc = Inr (s', u) \<Longrightarrow> keys_frame s s'"
  by (auto simp: recover_root_def set_bootstrap_completed_def and_then_Inr_iff keys_frame_def frame_revoke_user dest: frame_install)

lemma frame_insert_human: "insert_human_user s i now nu role phc m = Inr (s', x) \<Longrightarrow> keys_frame s s'"
  by (auto simp: insert_human_user_def insert_user_row_def and_then_Inr_iff keys_frame_def split: if_splits)

lemma frame_change: "change_password s now rnow u old phc w h c = Inr (s', x) \<Longrightarrow> keys_frame s s'"
  by (auto simp: change_password_def rotate_web_session_secrets_def Let_def and_then_Inr_iff keys_frame_def frame_revoke_user
      split: if_splits)

lemma frame_issue: "issue_web_session s i now u phc role m h c = Inr (s', x) \<Longrightarrow> keys_frame s s'"
  by (auto simp: issue_web_session_def insert_web_session_def Let_def keys_frame_def split: option.splits if_splits)

lemma frame_set_disabled: "set_user_disabled s now rnow i d = Inr (s', x) \<Longrightarrow> keys_frame s s'"
  by (auto simp: set_user_disabled_def disable_users_def and_then_Inr_iff Let_def keys_frame_def frame_revoke_user
      split: option.splits if_splits)

lemma frame_patch: "patch_user s i nm e role = Inr (s', x) \<Longrightarrow> keys_frame s s'"
  by (auto simp: patch_user_def set_user_column_def and_then_Inr_iff Let_def keys_frame_def split: option.splits if_splits)

lemma frame_create: "create_api_credential s cnow now i u l h p m = Inr (s', x) \<Longrightarrow> keys_frame s s'"
  by (auto simp: create_api_credential_def insert_api_credential_def keys_frame_def split: option.splits if_splits)

lemma update_where_Nil_iff: "update_where P f rows = [] \<longleftrightarrow> rows = []"
  by (simp add: update_where_def)

lemma frame_rotate_key: "rotate_api_credential s i h p = Inr (s', x) \<Longrightarrow> keys_frame s s'"
  by (auto simp: rotate_api_credential_def keys_frame_def update_where_Nil_iff split: if_splits)

lemmas keys_frames = frame_bootstrap frame_recover frame_insert_human frame_change frame_issue frame_set_disabled frame_patch
  frame_create frame_rotate_key

lemma frame_total:
  "keys_frame s (fst (reset_human_password s rnow u phc m))" "keys_frame s (fst (revoke_session_by_hash s now h))"
  "keys_frame s (fst (touch_web_session s w now))" "keys_frame s (fst (touch_user_last_seen s now u))"
  "keys_frame s (fst (revoke_api_credential s now i))" "keys_frame s (fst (touch_api_credential s now i))"
  "keys_frame s (fst (bind_api_credential_pepper_verifier s now v))"
  by (auto simp: keys_frame_def reset_human_password_def frame_revoke_user revoke_session_by_hash_def touch_web_session_def
      touch_user_last_seen_def set_user_column_def revoke_api_credential_def touch_api_credential_def update_where_Nil_iff
      bind_api_credential_pepper_verifier_def api_credentials_exist_def Let_def)

lemma keys_frame_committed: "(\<And>s' x. r = Inr (s', x) \<Longrightarrow> keys_frame s s') \<Longrightarrow> keys_frame s (committed s r)"
  by (rule committed_keeps) (simp_all add: keys_frame_def)

lemma account_exec_frame: "keys_frame s (account_exec s c)"
proof (cases c)
qed (simp_all only: account_exec.simps frame_total keys_frames[THEN keys_frame_committed])

lemma account_exec_all_frame: "keys_frame s (account_exec_all s cs)"
proof (induction cs arbitrary: s)
  case (Cons c cs)
  show ?case using account_exec_frame[of s c] Cons[of "account_exec s c"] by (simp add: keys_frame_def)
qed (simp add: keys_frame_def)

text \<open>
  The pepper cannot be swapped under existing keys: once a verifier is recorded and a key exists, no sequence of
  commands changes the verifier, and binding another one is refused.
\<close>

theorem pepper_verifier_fixed:
  assumes "api_credential_pepper_verifier s = Some v" "api_credentials_exist s"
  shows "api_credential_pepper_verifier (account_exec_all s cs) = Some v
    \<and> snd (bind_api_credential_pepper_verifier (account_exec_all s cs) now v') = False"
  using account_exec_all_frame[of s cs] assms
  by (auto simp: keys_frame_def api_credential_pepper_verifier_def api_credentials_exist_def bind_api_credential_pepper_verifier_def)

theorem pepper_verifier_fixed_witness:
  "api_credential_pepper_verifier (account_exec_all (account_exec_all empty_store demo_key_commands)
     [RevokeKey 90 70, BindPepper 91 (lit ''other'')]) = Some (lit ''phc-p'')"
  using pepper_verifier_fixed[of "account_exec_all empty_store demo_key_commands" "lit ''phc-p''"
      "[RevokeKey 90 70, BindPepper 91 (lit ''other'')]"]
  by (simp add: demo_key_store api_credential_pepper_verifier_def api_credentials_exist_def)

section \<open>The bootstrap\<close>

text \<open>A command with whether it completed the bootstrap.\<close>

definition bootstrap_step :: "store \<Rightarrow> account_command \<Rightarrow> store \<times> unit option" where
  "bootstrap_step s c =
     (account_exec s c,
      case c of Bootstrap i now n nm e phc \<Rightarrow> if isl (bootstrap_root s i now n nm e phc) then None else Some () | _ \<Rightarrow> None)"

lemma marker_exec: "bootstrap_completed s \<Longrightarrow> bootstrap_completed (account_exec s c)"
  using account_exec_frame[of s c] by (simp add: keys_frame_def bootstrap_completed_def)

interpretation boot: claim_once "\<lambda>_. True" bootstrap_step "\<lambda>s _. bootstrap_completed s" "\<lambda>_. True"
proof
  fix s c s' k assume st: "bootstrap_step s c = (s', Some k)"
  then obtain i now n nm e phc where c: "c = Bootstrap i now n nm e phc" "\<not> isl (bootstrap_root s i now n nm e phc)"
    by (auto simp: bootstrap_step_def split: account_command.splits if_splits)
  from not_isl_pair[OF c(2)] obtain t u where r: "bootstrap_root s i now n nm e phc = Inr (t, u)" by blast
  with st c have s': "s' = t" by (simp add: bootstrap_step_def committed_def)
  from r show "\<not> bootstrap_completed s \<and> bootstrap_completed s'" unfolding s'
    by (auto simp: bootstrap_root_def set_bootstrap_completed_def bootstrap_completed_def and_then_Inr_iff split: if_splits)
qed (auto simp: bootstrap_step_def marker_exec)

text \<open>
  The bootstrap happens at most once: of all the bootstrap commands in a sequence, whatever runs between them, at
  most one succeeds, and none does once the marker is set.
\<close>

theorem bootstrap_at_most_once:
  "length (boot.granted s cs) \<le> 1 \<and> (bootstrap_completed s \<longrightarrow> boot.granted s cs = [])"
proof
  have "distinct (boot.granted s cs)" by (rule boot.granted_once) simp_all
  then have "length (boot.granted s cs) = card (set (boot.granted s cs))" by (simp add: distinct_card)
  also have "\<dots> \<le> card (UNIV :: unit set)" by (intro card_mono) simp_all
  finally show "length (boot.granted s cs) \<le> 1" by simp
next
  show "bootstrap_completed s \<longrightarrow> boot.granted s cs = []"
  proof (induction cs arbitrary: s)
    case (Cons c cs)
    show ?case
    proof
      assume b: "bootstrap_completed s"
      have "snd (bootstrap_step s c) = None"
        using b by (cases c) (simp_all add: bootstrap_step_def bootstrap_root_def)
      moreover have "bootstrap_completed (fst (bootstrap_step s c))" using b by (simp add: bootstrap_step_def marker_exec)
      ultimately show "boot.granted s (c # cs) = []" using Cons by (cases "bootstrap_step s c") simp
    qed
  qed simp
qed

theorem bootstrap_at_most_once_witness:
  "boot.granted empty_store demo_accounts = [()] \<and> length (boot.granted empty_store demo_accounts) \<le> 1
   \<and> boot.granted (account_exec_all empty_store demo_accounts) [Bootstrap 9 99 (lit ''root'') None None (lit ''evil'')] = []"
proof -
  have "bootstrap_completed (account_exec_all empty_store demo_accounts)"
    by (simp add: demo_accounts_store bootstrap_completed_def)
  then show ?thesis
    using bootstrap_at_most_once[of empty_store demo_accounts]
      bootstrap_at_most_once[of "account_exec_all empty_store demo_accounts" "[Bootstrap 9 99 (lit ''root'') None None (lit ''evil'')]"]
    unfolding demo_accounts_def by (simp add: bootstrap_step_def bootstrap_root_def bootstrap_completed_def empty_store_def
        install_root_def find_user_by_username_def insert_user_row_def human_row_def email_taken_def)
qed

end
