(* ===== verification/LoginLimit.thy ===== *)
theory LoginLimit
  imports Text "HOL-Library.Word"
begin

text \<open>
  The client address and the login rate limit of \<^verbatim>\<open>crates/ai-memory-mcp/src/human_auth.rs\<close>. An address is
  a word of 32 or 128 bits, a network mask a shifted word, as in the code. A \<^verbatim>\<open>HashMap\<close> is the association list of
  its entries in iteration order, which the code does not rely on. \<^verbatim>\<open>Instant\<close> is a count of nanoseconds.
  The textual form of an address is parsed by the standard library: \<open>parse_ip\<close> is that function.
\<close>

unbundle bit_operations_syntax

section \<open>Addresses and networks\<close>

datatype ip_addr = V4 "32 word" | V6 "128 word"

record cidr =
  cidr_addr :: ip_addr
  cidr_prefix :: nat

text \<open>\<open>u32::MAX << shift\<close>, with the shift by the full width written out.\<close>

definition net_mask :: "nat \<Rightarrow> nat \<Rightarrow> 'a::len word" where
  "net_mask width prefix_len =
     (let shift = width - prefix_len in if width \<le> shift then 0 else push_bit shift (- 1))"

definition cidr_contains :: "cidr \<Rightarrow> ip_addr \<Rightarrow> bool" where
  "cidr_contains c ip =
     (case (cidr_addr c, ip) of
        (V4 net, V4 got) \<Rightarrow> (let mask = net_mask 32 (cidr_prefix c) in net AND mask = got AND mask)
      | (V6 net, V6 got) \<Rightarrow> (let mask = net_mask 128 (cidr_prefix c) in net AND mask = got AND mask)
      | _ \<Rightarrow> False)"

definition parse_u8 :: "ustr \<Rightarrow> nat option" where
  "parse_u8 v = (case parse_usize v of Some n \<Rightarrow> if n < 256 then Some n else None | None \<Rightarrow> None)"

datatype cidr_error = EmptyCidr | InvalidPrefix | InvalidAddress | PrefixExceeds nat

definition cidr_parse :: "(ustr \<Rightarrow> ip_addr option) \<Rightarrow> ustr \<Rightarrow> cidr_error + cidr" where
  "cidr_parse parse_ip spec0 =
     (let spec = trim spec0 in
      if spec = [] then Inl EmptyCidr
      else and_then
        (case split_once 0x2F spec of
           Some (a, p) \<Rightarrow> (case parse_u8 p of None \<Rightarrow> Inl InvalidPrefix | Some n \<Rightarrow> Inr (a, n))
         | None \<Rightarrow> if 0x3A \<in> set spec then Inr (spec, 128) else Inr (spec, 32))
        (\<lambda>(a, prefix_len).
           case parse_ip a of
             None \<Rightarrow> Inl InvalidAddress
           | Some addr \<Rightarrow>
               let limit = (case addr of V4 _ \<Rightarrow> 32 | V6 _ \<Rightarrow> 128) in
               if limit < prefix_len then Inl (PrefixExceeds limit)
               else Inr \<lparr>cidr_addr = addr, cidr_prefix = prefix_len\<rparr>))"

definition trusted :: "cidr list \<Rightarrow> ip_addr \<Rightarrow> bool" where
  "trusted cidrs ip = list_ex (\<lambda>c. cidr_contains c ip) cidrs"

text \<open>
  The hops of all \<^verbatim>\<open>X-Forwarded-For\<close> headers, in order; \<open>None\<close> when a header is not text or a hop is no address.
  A header value is \<open>None\<close> when \<^verbatim>\<open>to_str\<close> fails.
\<close>

fun parse_hops :: "(ustr \<Rightarrow> ip_addr option) \<Rightarrow> ustr list \<Rightarrow> ip_addr list option" where
  "parse_hops parse_ip [] = Some []"
| "parse_hops parse_ip (h # hs) =
     (case parse_ip (trim h) of None \<Rightarrow> None
      | Some ip \<Rightarrow> map_option ((#) ip) (parse_hops parse_ip hs))"

fun forwarded_hops :: "(ustr \<Rightarrow> ip_addr option) \<Rightarrow> ustr option list \<Rightarrow> ip_addr list option" where
  "forwarded_hops parse_ip [] = Some []"
| "forwarded_hops parse_ip (None # vs) = None"
| "forwarded_hops parse_ip (Some v # vs) =
     (case parse_hops parse_ip (split_all 0x2C v) of None \<Rightarrow> None
      | Some hops \<Rightarrow> map_option (\<lambda>rest. hops @ rest) (forwarded_hops parse_ip vs))"

definition peer_ip ::
  "(ustr \<Rightarrow> ip_addr option) \<Rightarrow> ip_addr option \<Rightarrow> ustr option list \<Rightarrow> cidr list \<Rightarrow> ip_addr" where
  "peer_ip parse_ip connect forwarded cidrs =
     (case connect of
        None \<Rightarrow> V4 0
      | Some peer \<Rightarrow>
          if \<not> trusted cidrs peer then peer
          else case forwarded_hops parse_ip forwarded of
            None \<Rightarrow> peer
          | Some hops \<Rightarrow>
              if forwarded = [] then peer
              else case find (\<lambda>ip. \<not> trusted cidrs ip) (rev hops) of
                Some ip \<Rightarrow> ip
              | None \<Rightarrow> (case hops of [] \<Rightarrow> peer | ip # _ \<Rightarrow> ip))"

section \<open>The limiter\<close>

definition login_window :: int where "login_window = 60 * 1000000000"

definition login_ip_limit :: nat where "login_ip_limit = 10"

definition login_limiter_max_keys :: nat where "login_limiter_max_keys = 4096"

type_synonym 'k limiter = "('k \<times> int list) list"

text \<open>\<^verbatim>\<open>saturating_duration_since\<close> is zero for an instant in the future.\<close>

definition expired_at :: "int \<Rightarrow> int \<Rightarrow> bool" where
  "expired_at now t \<longleftrightarrow> login_window < Orderings.max 0 (now - t)"

definition prune :: "int list \<Rightarrow> int \<Rightarrow> int list" where
  "prune q now = dropWhile (expired_at now) q"

text \<open>The entry with the oldest front; entries without one do not count.\<close>

definition oldest_entry :: "'k limiter \<Rightarrow> 'k option" where
  "oldest_entry m =
     map_option fst (first_by snd (List.map_filter (\<lambda>(k, q). case q of [] \<Rightarrow> None | t # _ \<Rightarrow> Some (k, t)) m))"

definition make_room :: "'k limiter \<Rightarrow> int \<Rightarrow> 'k limiter" where
  "make_room m now =
     (let kept = filter (\<lambda>(_, q). q \<noteq> []) (map (\<lambda>(k, q). (k, prune q now)) m) in
      if login_limiter_max_keys \<le> length kept
      then (case oldest_entry kept of None \<Rightarrow> kept | Some k \<Rightarrow> filter (\<lambda>(j, _). j \<noteq> k) kept)
      else kept)"

definition push_entry :: "'k limiter \<Rightarrow> 'k \<Rightarrow> int \<Rightarrow> 'k limiter" where
  "push_entry m key now =
     (if key \<in> fst ` set m then map (\<lambda>(k, q). (k, if k = key then prune q now @ [now] else q)) m
      else m @ [(key, [now])])"

definition record_failure :: "'k limiter \<Rightarrow> 'k \<Rightarrow> int \<Rightarrow> 'k limiter" where
  "record_failure m key now =
     (if key \<notin> fst ` set m \<and> login_limiter_max_keys \<le> length m
      then push_entry (make_room m now) key now
      else push_entry m key now)"

definition ip_blocked_at :: "'k limiter \<Rightarrow> 'k \<Rightarrow> int \<Rightarrow> 'k limiter \<times> bool" where
  "ip_blocked_at m ip now =
     (case map_of m ip of
        None \<Rightarrow> (m, False)
      | Some q0 \<Rightarrow>
          let q = prune q0 now;
              blocked = login_ip_limit \<le> length q
          in (if q = [] then filter (\<lambda>(k, _). k \<noteq> ip) m
              else map (\<lambda>(k, q'). (k, if k = ip then q else q')) m,
              blocked))"


section \<open>Networks\<close>

lemma and_mask_eq_iff:
  "x AND NOT (mask n) = y AND NOT (mask n) \<longleftrightarrow> drop_bit n x = drop_bit n (y :: 'a::len word)"
proof
  assume e: "x AND NOT (mask n) = y AND NOT (mask n)"
  have "drop_bit n (x AND NOT (mask n)) = drop_bit n x" for x :: "'a word"
    by (rule bit_eqI) (auto simp: bit_drop_bit_eq bit_and_iff bit_not_iff bit_mask_iff dest: bit_imp_le_length)
  with e show "drop_bit n x = drop_bit n y" by metis
next
  assume e: "drop_bit n x = drop_bit n y"
  show "x AND NOT (mask n) = y AND NOT (mask n)"
  proof (rule bit_eqI)
    fix m assume m: "possible_bit TYPE('a word) m"
    have "bit x (n + (m - n)) = bit y (n + (m - n))" using e by (metis bit_drop_bit_eq comp_apply)
    then show "bit (x AND NOT (mask n)) m = bit (y AND NOT (mask n)) m"
      using m by (cases "n \<le> m") (auto simp: bit_and_iff bit_not_iff bit_mask_iff)
  qed
qed

lemma net_mask_eq_iff:
  fixes net got :: "'a::len word"
  assumes "w = LENGTH('a)"
  shows "net AND net_mask w p = got AND net_mask w p \<longleftrightarrow> drop_bit (w - p) net = drop_bit (w - p) got"
proof (cases "w \<le> w - p")
  case True
  then have "drop_bit (w - p) x = 0" for x :: "'a word"
    using assms by (intro bit_eqI) (auto simp: bit_drop_bit_eq dest: bit_imp_le_length)
  then show ?thesis using True by (simp add: net_mask_def)
qed (simp add: net_mask_def Let_def and_mask_eq_iff)

text \<open>
  A network contains an address exactly when both are of the same family and agree on the bits of the prefix: the
  numbers have the same quotient by the size of the host part. A prefix of length zero contains the whole family, the
  full length only the address itself.
\<close>

theorem cidr_contains_spec:
  "cidr_contains c ip \<longleftrightarrow>
     (case (cidr_addr c, ip) of
        (V4 net, V4 got) \<Rightarrow> unat net div 2 ^ (32 - cidr_prefix c) = unat got div 2 ^ (32 - cidr_prefix c)
      | (V6 net, V6 got) \<Rightarrow> unat net div 2 ^ (128 - cidr_prefix c) = unat got div 2 ^ (128 - cidr_prefix c)
      | _ \<Rightarrow> False)"
proof -
  have q: "drop_bit n x = drop_bit n y \<longleftrightarrow> unat x div 2 ^ n = unat y div 2 ^ n" for n and x y :: "'b::len word"
    by (metis drop_bit_eq_div unat_drop_bit_eq word_unat_eq_iff)
  show ?thesis
    by (auto simp: cidr_contains_def net_mask_eq_iff q split: ip_addr.splits)
qed

section \<open>Windows\<close>



lemma not_expired_self [simp]: "\<not> expired_at t t"
  by (simp add: expired_at_def login_window_def)



section \<open>A run of failing logins\<close>




















text \<open>A parsed network has a prefix of its own width, which is the range where \<open>cidr_contains\<close> is exact.\<close>

lemma cidr_parse_prefix:
  assumes "cidr_parse parse_ip spec = Inr c"
  shows "cidr_prefix c \<le> (case cidr_addr c of V4 _ \<Rightarrow> 32 | V6 _ \<Rightarrow> 128)"
  using assms by (auto simp: cidr_parse_def Let_def and_then_Inr_iff split: if_splits option.splits prod.splits)

section \<open>The table stays bounded\<close>

lemma make_room_length:
  assumes m: "length m \<le> login_limiter_max_keys"
  shows "length (make_room m now) < login_limiter_max_keys"
proof -
  define kept where "kept = filter (\<lambda>(_, q). q \<noteq> []) (map (\<lambda>(k, q). (k, prune q now)) m)"
  have len: "length kept \<le> login_limiter_max_keys" using m unfolding kept_def by (metis (no_types, lifting) length_filter_le length_map le_trans)
  show ?thesis
  proof (cases "login_limiter_max_keys \<le> length kept")
    case True
    let ?fs = "List.map_filter (\<lambda>(k, q). case q of [] \<Rightarrow> None | t # _ \<Rightarrow> Some (k, t)) kept"
    obtain k q where kq: "(k, q) \<in> set kept" using True by (cases kept) (auto simp: login_limiter_max_keys_def)
    then have "q \<noteq> []" by (auto simp: kept_def)
    then have "?fs \<noteq> []" using kq by (cases q) (auto simp: List.map_filter_def filter_empty_conv intro!: bexI[of _ "(k, q)"])
    then have "first_by snd ?fs \<noteq> None" by simp
    then obtain j t where f: "first_by snd ?fs = Some (j, t)" by (cases "first_by snd ?fs") auto
    then have "(j, t) \<in> set ?fs" by (rule first_by_in)
    then have "\<exists>q. (j, q) \<in> set kept" by (auto simp: List.map_filter_def split: list.splits)
    then have "length (filter (\<lambda>(i, _). i \<noteq> j) kept) < length kept" by (auto intro!: length_filter_less)
    then show ?thesis using True len f by (simp add: make_room_def kept_def[symmetric] oldest_entry_def)
  qed (simp add: make_room_def kept_def[symmetric])
qed

text \<open>
  However many addresses knock, the limiter holds at most 4096 of them: neither a check nor a recorded failure takes
  the table past the bound.
\<close>

lemma record_failure_bounded:
  assumes "length m \<le> login_limiter_max_keys"
  shows "length (record_failure m ip now) \<le> login_limiter_max_keys"
proof -
  have "length (push_entry m' ip now) \<le> Suc (length m')" for m' by (simp add: push_entry_def)
  with make_room_length[OF assms, of now] show ?thesis
    using assms by (auto simp: record_failure_def push_entry_def login_limiter_max_keys_def intro: le_trans)
qed

lemma ip_blocked_length: "length (fst (ip_blocked_at m ip now)) \<le> length m"
  by (auto simp: ip_blocked_at_def Let_def split: option.splits)

section \<open>Forwarded addresses\<close>

lemma forwarded_hops_append:
  "forwarded_hops parse_ip (vs @ ws) =
     (case forwarded_hops parse_ip vs of None \<Rightarrow> None | Some hs \<Rightarrow> map_option (\<lambda>rest. hs @ rest) (forwarded_hops parse_ip ws))"
proof (induction vs)
  case Nil
  show ?case by (cases "forwarded_hops parse_ip ws") simp_all
next
  case (Cons v vs)
  then show ?case by (cases v; cases "forwarded_hops parse_ip ws") (auto split: option.splits)
qed

text \<open>
  A client cannot choose its address. Headers of a peer outside the trusted networks are ignored; behind a trusted
  proxy, whatever headers come before those the proxies added change nothing, as long as they parse: the address is
  the last hop, from the right, that no trusted network contains. It is never a trusted address when an untrusted hop exists.
\<close>

theorem forwarded_prefix_ignored:
  assumes fake: "forwarded_hops parse_ip fake = Some hs" and real: "forwarded_hops parse_ip real = Some rs"
    and out: "ip \<in> set rs" "\<not> trusted cidrs ip"
  shows "peer_ip parse_ip (Some peer) (fake @ real) cidrs = peer_ip parse_ip (Some peer) real cidrs
    \<and> (\<not> trusted cidrs peer \<longrightarrow> peer_ip parse_ip (Some peer) (fake @ real) cidrs = peer)
    \<and> (trusted cidrs peer \<longrightarrow> \<not> trusted cidrs (peer_ip parse_ip (Some peer) (fake @ real) cidrs)
         \<and> peer_ip parse_ip (Some peer) (fake @ real) cidrs \<in> set rs)"
proof (cases "trusted cidrs peer")
  case True
  have ne: "real \<noteq> []" using real out by auto
  obtain x where x: "find (\<lambda>ip. \<not> trusted cidrs ip) (rev rs) = Some x"
    using find_exists[of ip "rev rs" "\<lambda>ip. \<not> trusted cidrs ip"] out by auto
  have "find (\<lambda>ip. \<not> trusted cidrs ip) (rev (hs @ rs)) = Some x" by (simp add: find_append x)
  then have "peer_ip parse_ip (Some peer) (fake @ real) cidrs = x" "peer_ip parse_ip (Some peer) real cidrs = x"
    using True ne x by (simp_all add: peer_ip_def forwarded_hops_append fake real)
  with True find_SomeD[OF x] show ?thesis by simp
qed (simp add: peer_ip_def)

definition demo_ip :: "ustr \<Rightarrow> ip_addr option" where
  "demo_ip s = (if s = lit ''10.0.0.1'' then Some (V4 0x0A000001) else if s = lit ''1.2.3.4'' then Some (V4 0x01020304)
     else if s = lit ''9.9.9.9'' then Some (V4 0x09090909) else None)"

theorem forwarded_prefix_ignored_witness:
  "peer_ip demo_ip (Some (V4 0x0A000001)) [Some (lit ''9.9.9.9''), Some (lit ''1.2.3.4'')] [\<lparr>cidr_addr = V4 0x0A000000, cidr_prefix = 8\<rparr>]
     = V4 0x01020304"
proof -
  let ?c = "[\<lparr>cidr_addr = V4 0x0A000000, cidr_prefix = 8\<rparr>]"
  have h: "forwarded_hops demo_ip [Some (lit ''9.9.9.9'')] = Some [V4 0x09090909]"
    "forwarded_hops demo_ip [Some (lit ''1.2.3.4'')] = Some [V4 0x01020304]"
    by (simp_all add: lit_def demo_ip_def trim_def is_whitespace_def)
  have t: "trusted ?c (V4 0x0A000001)" "\<not> trusted ?c (V4 0x01020304)"
    by (simp_all add: trusted_def cidr_contains_spec)
  have "V4 0x01020304 \<in> set [V4 0x01020304]" by simp
  from forwarded_prefix_ignored[OF h this t(2), of "V4 0x0A000001"] t(1)
  have "peer_ip demo_ip (Some (V4 0x0A000001)) ([Some (lit ''9.9.9.9'')] @ [Some (lit ''1.2.3.4'')]) ?c \<in> set [V4 0x01020304]" by blast
  then show ?thesis by simp
qed

end
