(* ===== verification/HttpAuth.thy ===== *)
theory HttpAuth
  imports AccountSafety LoginLimit
begin

text \<open>
  \<^verbatim>\<open>crates/ai-memory-mcp/src/auth.rs\<close>, \<^verbatim>\<open>human_auth.rs\<close> and the header part of \<^verbatim>\<open>actor.rs\<close>: how an HTTP request
  becomes an actor with a level, and the login, recovery, password and logout handlers on the account store.

  The headers of a request are a function from a lower-case name to its occurrences in order, \<open>None\<close> for a value
  whose bytes are not visible text (\<^verbatim>\<open>to_str\<close> of the \<^verbatim>\<open>http\<close> crate fails). SHA-256, the Argon2id verifier, base64,
  the JSON body and the random secrets come from other crates: they are fields of \<open>auth_env\<close> or arguments. A read of
  the database may fail; \<open>fault\<close> is that failure. The touches of \<^verbatim>\<open>last_used_at\<close> that the code spawns after
  a success are account commands of their own and no part of the decision. Constant-time comparison decides equality.
\<close>

type_synonym headers = "string \<Rightarrow> ustr option list"

datatype http_method = GET | HEAD | OPTIONS | POST | PUT | PATCH | DELETE | OtherMethod

record auth_env =
  ae_sha256 :: "ustr \<Rightarrow> digest"
  ae_base64 :: "ustr \<Rightarrow> ustr option"
  ae_verify :: "ustr \<Rightarrow> ustr \<Rightarrow> bool store_result"
  ae_hash_password :: "ustr \<Rightarrow> ustr store_result"
  ae_parse_ip :: "ustr \<Rightarrow> ip_addr option"
  ae_header_ok :: "ustr \<Rightarrow> bool"

record human_runtime =
  hr_recovery_token_hash :: "digest option"
  hr_root_username :: ustr
  hr_root_name :: "ustr option"
  hr_root_email :: "ustr option"
  hr_reserved_passwords :: "ustr list"
  hr_trusted_proxy_cidrs :: "cidr list"

record auth_state =
  as_expected :: "ustr option"
  as_secure_cookie :: bool
  as_root_actor :: actor_context
  as_pepper :: "ustr option"
  as_actor_proxy_bearer :: "ustr option"
  as_human :: "human_runtime option"
  as_human_intended :: bool

definition hash_token :: "auth_env \<Rightarrow> ustr \<Rightarrow> ustr \<Rightarrow> digest" where
  "hash_token env token pepper = ae_sha256 env (token @ lit '':'' @ pepper)"

definition hash_session_secret :: "auth_env \<Rightarrow> ustr \<Rightarrow> digest" where
  "hash_session_secret env secret = ae_sha256 env secret"

text \<open>A blank configured token is no token.\<close>

definition non_blank :: "ustr option \<Rightarrow> ustr option" where
  "non_blank t = (case t of None \<Rightarrow> None | Some s \<Rightarrow> if trim s = [] then None else Some s)"

definition auth_state_new :: "ustr option \<Rightarrow> auth_state" where
  "auth_state_new expected = \<lparr>as_expected = non_blank expected, as_secure_cookie = False, as_root_actor = anonymous_actor,
     as_pepper = None, as_actor_proxy_bearer = None, as_human = None, as_human_intended = False\<rparr>"

definition with_trusted_proxy_bearer :: "auth_state \<Rightarrow> ustr \<Rightarrow> auth_state" where
  "with_trusted_proxy_bearer st token = st\<lparr>as_actor_proxy_bearer := non_blank (Some token)\<rparr>"

definition with_secure_cookie :: "auth_state \<Rightarrow> bool \<Rightarrow> auth_state" where
  "with_secure_cookie st secure_cookie = st\<lparr>as_secure_cookie := secure_cookie\<rparr>"

definition with_root_actor :: "auth_state \<Rightarrow> actor_context \<Rightarrow> auth_state" where
  "with_root_actor st actor = st\<lparr>as_root_actor := actor\<rparr>"

definition with_multiuser :: "auth_state \<Rightarrow> ustr \<Rightarrow> auth_state" where
  "with_multiuser st pepper = st\<lparr>as_pepper := Some pepper\<rparr>"

definition with_human_runtime :: "auth_state \<Rightarrow> human_runtime \<Rightarrow> bool \<Rightarrow> auth_state" where
  "with_human_runtime st human intended = st\<lparr>as_human := Some human, as_human_intended := intended\<rparr>"

definition auth_enabled :: "auth_state \<Rightarrow> bool" where
  "auth_enabled st \<longleftrightarrow> as_expected st \<noteq> None \<or> as_human_intended st"

section \<open>Headers\<close>

definition header_get :: "headers \<Rightarrow> string \<Rightarrow> ustr option" where
  "header_get h name = (case h name of [] \<Rightarrow> None | v # _ \<Rightarrow> v)"

definition header_str :: "headers \<Rightarrow> string \<Rightarrow> ustr option" where
  "header_str h name = (case header_get h name of None \<Rightarrow> None | Some s \<Rightarrow> if trim s = [] then None else Some (trim s))"

definition actor_from_headers :: "headers \<Rightarrow> actor_context" where
  "actor_from_headers h = \<lparr>ac_agent = header_str h ''x-memory-actor-agent'', ac_user = header_str h ''x-memory-actor-user'',
     ac_name = None, ac_email = None, ac_session_id = header_str h ''x-memory-actor-session-id'',
     ac_issuer = header_str h ''x-memory-actor-issuer'', ac_sub = header_str h ''x-memory-actor-sub'',
     ac_client = header_str h ''x-memory-actor-client''\<rparr>"

definition proxy_assertion_headers :: "string list" where
  "proxy_assertion_headers = [''x-memory-actor-user'', ''x-memory-actor-issuer'', ''x-memory-actor-sub'',
     ''x-memory-actor-agent'', ''x-memory-actor-client'', ''x-memory-actor-session-id'']"

datatype proxy_assertion_error = Ambiguous | MissingIdentity | PartialOidcIdentity

definition trusted_proxy_actor :: "headers \<Rightarrow> proxy_assertion_error + actor_context" where
  "trusted_proxy_actor h =
     (if list_ex (\<lambda>name. 1 < length (h name)
           \<or> (case header_get h name of None \<Rightarrow> False | Some v \<Rightarrow> contains_str (lit '','') v)) proxy_assertion_headers
      then Inl Ambiguous
      else let asserted = actor_from_headers h in
        if (ac_issuer asserted \<noteq> None) \<noteq> (ac_sub asserted \<noteq> None) then Inl PartialOidcIdentity
        else if identity_key asserted = None then Inl MissingIdentity
        else Inr asserted)"

definition any_actor_header :: "headers \<Rightarrow> bool" where
  "any_actor_header h = list_ex (\<lambda>name. h name \<noteq> []) proxy_assertion_headers"

text \<open>What a handler reads of a request that passed a gate, or of one without a gate (\<open>None\<close>).\<close>

definition skip_header_value :: "headers \<Rightarrow> ustr option" where
  "skip_header_value h = header_get h ''x-memory-skip-admission-chain''"

definition skip_webhooks_from_headers :: "headers \<Rightarrow> ustr list" where
  "skip_webhooks_from_headers h = parse_skip_admission_chain (skip_header_value h)"

definition skip_webhooks_from_parts :: "auth_level option \<Rightarrow> headers \<Rightarrow> ustr list" where
  "skip_webhooks_from_parts level h =
     skip_admission_chain_for (case level of None \<Rightarrow> AuthAnonymous | Some l \<Rightarrow> l) (skip_header_value h)"

definition actor_from_parts :: "actor_context option \<Rightarrow> actor_context" where
  "actor_from_parts ext = (case ext of None \<Rightarrow> anonymous_actor | Some a \<Rightarrow> a)"

text \<open>The scheme and token of one \<^verbatim>\<open>Authorization\<close> value, split at the first space or tab.\<close>

definition auth_parts :: "ustr \<Rightarrow> ustr \<times> ustr" where
  "auth_parts raw =
     (let trimmed = trim raw; sep = (\<lambda>c. c = 0x20 \<or> c = 9)
      in (takeWhile (\<lambda>c. \<not> sep c) trimmed, trim (dropWhile (\<lambda>c. \<not> sep c) trimmed)))"

definition eq_ignore_ascii_case :: "ustr \<Rightarrow> ustr \<Rightarrow> bool" where
  "eq_ignore_ascii_case a b \<longleftrightarrow> nocase a = nocase b"

fun bearer_loop :: "ustr option list \<Rightarrow> ustr option \<Rightarrow> ustr option" where
  "bearer_loop [] bearer = bearer"
| "bearer_loop (None # vs) bearer = bearer_loop vs bearer"
| "bearer_loop (Some raw # vs) bearer =
     (case auth_parts raw of (scheme, token) \<Rightarrow>
        if \<not> eq_ignore_ascii_case scheme (lit ''Bearer'') then bearer_loop vs bearer
        else if bearer \<noteq> None then Some []
        else bearer_loop vs (Some token))"

definition extract_bearer_from_headers :: "headers \<Rightarrow> ustr option" where
  "extract_bearer_from_headers h = bearer_loop (h ''authorization'') None"

definition has_bearer_scheme :: "headers \<Rightarrow> bool" where
  "has_bearer_scheme h \<longleftrightarrow> extract_bearer_from_headers h \<noteq> None"

definition hex_digit :: "nat \<Rightarrow> uchar" where
  "hex_digit d = (if d < 10 then 0x30 + d else 0x57 + d)"

definition hex_encode :: "nat list \<Rightarrow> ustr" where
  "hex_encode bytes = concat (map (\<lambda>b. [hex_digit (b div 16), hex_digit (b mod 16)]) bytes)"

definition cookie_value :: "headers \<Rightarrow> ustr \<Rightarrow> ustr option" where
  "cookie_value h name =
     (case header_get h ''cookie'' of None \<Rightarrow> None
      | Some v \<Rightarrow>
          (case filter (\<lambda>o'. o' \<noteq> None) (map (\<lambda>pair. strip_prefix (name @ lit ''='') (trim pair)) (split_all 0x3B v)) of
             [] \<Rightarrow> None | x # _ \<Rightarrow> x))"

section \<open>Bearer authentication\<close>

record request_identity =
  ri_actor :: actor_context
  ri_level :: auth_level
  ri_user :: "uuid option"
  ri_viewer :: "uuid option"

definition anonymous_identity :: request_identity where
  "anonymous_identity = \<lparr>ri_actor = anonymous_actor, ri_level = AuthAnonymous, ri_user = None, ri_viewer = None\<rparr>"

datatype bearer_auth = Authenticated request_identity | Absent | Rejected

definition asserts_root_identity :: "auth_state \<Rightarrow> actor_context \<Rightarrow> bool" where
  "asserts_root_identity st actor =
     (case identity_key (as_root_actor st) of
        Some (SubjectKey i u) \<Rightarrow> identity_key actor = Some (SubjectKey i u)
      | _ \<Rightarrow> False)"

definition user_actor :: "user \<Rightarrow> actor_context" where
  "user_actor u = anonymous_actor\<lparr>ac_user := Some (u_username u), ac_name := u_name u, ac_email := u_email u\<rparr>"

definition authenticate_api_key ::
  "auth_env \<Rightarrow> store_error option \<Rightarrow> store \<Rightarrow> int \<Rightarrow> ustr \<Rightarrow> ustr \<Rightarrow> bearer_auth" where
  "authenticate_api_key env fault s now pepper provided =
     (if fault \<noteq> None then Rejected
      else case find_active_user_by_token_hash s (hash_token env provided pepper) now of
        None \<Rightarrow> Rejected
      | Some (u, credential) \<Rightarrow> Authenticated \<lparr>ri_actor = user_actor u, ri_level = AuthUser,
          ri_user = Some (u_id u), ri_viewer = Some (u_id u)\<rparr>)"

definition authenticate_token ::
  "auth_env \<Rightarrow> store_error option \<Rightarrow> store \<Rightarrow> int \<Rightarrow> auth_state \<Rightarrow> headers \<Rightarrow> ustr \<Rightarrow> bool \<Rightarrow> proxy_assertion_error + bearer_auth" where
  "authenticate_token env fault s now st h provided allow_proxy =
     (if provided = [] then Inr Rejected
      else if as_expected st = Some provided
      then Inr (Authenticated \<lparr>ri_actor = as_root_actor st, ri_level = AuthRoot, ri_user = None, ri_viewer = None\<rparr>)
      else if allow_proxy \<and> as_actor_proxy_bearer st = Some provided
      then and_then (trusted_proxy_actor h) (\<lambda>actor. Inr (Authenticated
             \<lparr>ri_actor = actor, ri_level = (if asserts_root_identity st actor then AuthRoot else AuthUser),
              ri_user = None, ri_viewer = None\<rparr>))
      else case as_pepper st of
        None \<Rightarrow> Inr Rejected
      | Some pepper \<Rightarrow> Inr (authenticate_api_key env fault s now pepper provided))"

definition authenticate_bearer ::
  "auth_env \<Rightarrow> store_error option \<Rightarrow> store \<Rightarrow> int \<Rightarrow> auth_state \<Rightarrow> headers \<Rightarrow> proxy_assertion_error + bearer_auth" where
  "authenticate_bearer env fault s now st h =
     (case extract_bearer_from_headers h of
        None \<Rightarrow> Inr Absent
      | Some provided \<Rightarrow> authenticate_token env fault s now st h provided True)"

text \<open>A gate lets a request pass with an identity, or answers with a status.\<close>

datatype gate = Pass request_identity | Refuse nat

definition require_bearer ::
  "auth_env \<Rightarrow> store_error option \<Rightarrow> store \<Rightarrow> int \<Rightarrow> auth_state \<Rightarrow> headers \<Rightarrow> gate" where
  "require_bearer env fault s now st h =
     (case authenticate_bearer env fault s now st h of
        Inr (Authenticated r) \<Rightarrow> Pass r
      | Inl e \<Rightarrow> Refuse 400
      | Inr _ \<Rightarrow> if \<not> auth_enabled st then Pass anonymous_identity else Refuse 401)"

section \<open>Browser requests\<close>

definition session_cookie :: ustr where "session_cookie = lit ''ai_memory_session''"

definition csrf_cookie :: ustr where "csrf_cookie = lit ''ai_memory_csrf''"

definition legacy_auth_cookie :: ustr where "legacy_auth_cookie = lit ''ai_memory_auth''"

text \<open>A request, without its body; the connection's address is absent when the server does not record it.\<close>

record http_request =
  hq_method :: http_method
  hq_headers :: headers
  hq_connect :: "ip_addr option"

text \<open>The reads of one request are numbered; \<open>faults n\<close> is the failure of the \<open>n\<close>-th.\<close>

type_synonym faults = "nat \<Rightarrow> store_error option"

definition legacy_basic_password :: "auth_env \<Rightarrow> headers \<Rightarrow> ustr option" where
  "legacy_basic_password env h =
     Option.bind (header_get h ''authorization'') (\<lambda>value.
       let sep = (\<lambda>c. c = 0x20 \<or> c = 9); scheme = takeWhile (\<lambda>c. \<not> sep c) value in
       case dropWhile (\<lambda>c. \<not> sep c) value of
         [] \<Rightarrow> None
       | _ # encoded \<Rightarrow>
           if \<not> eq_ignore_ascii_case scheme (lit ''Basic'') then None
           else Option.bind (ae_base64 env (trim encoded)) (\<lambda>credentials.
             map_option snd (split_once 0x3A credentials)))"

definition legacy_browser_credential :: "auth_env \<Rightarrow> headers \<Rightarrow> ustr option" where
  "legacy_browser_credential env h =
     (case legacy_basic_password env h of Some p \<Rightarrow> Some p | None \<Rightarrow> cookie_value h legacy_auth_cookie)"

definition human_auth_configured :: "faults \<Rightarrow> store \<Rightarrow> auth_state \<Rightarrow> store_error + bool" where
  "human_auth_configured faults s st =
     (case as_human st of
        None \<Rightarrow> Inr False
      | Some runtime \<Rightarrow>
          (case faults 1 of Some e \<Rightarrow> Inl e
           | None \<Rightarrow> if bootstrap_completed s then Inr True
               else case faults 2 of Some e \<Rightarrow> Inl e | None \<Rightarrow> Inr (any_password_hash s)))"

text \<open>The double submission of the CSRF secret: header and cookie agree and hash to the session's.\<close>

definition csrf_ok :: "auth_env \<Rightarrow> headers \<Rightarrow> live_web_session \<Rightarrow> bool" where
  "csrf_ok env h live =
     (case (header_get h ''x-csrf-token'', cookie_value h csrf_cookie) of
        (Some a, Some c) \<Rightarrow> a = c \<and> hash_session_secret env a = lw_csrf_hash live
      | _ \<Rightarrow> False)"

definition safe_method :: "http_method \<Rightarrow> bool" where
  "safe_method m \<longleftrightarrow> m \<in> {GET, HEAD, OPTIONS}"

definition load_session ::
  "auth_env \<Rightarrow> store_error option \<Rightarrow> store \<Rightarrow> int \<Rightarrow> auth_state \<Rightarrow> headers \<Rightarrow> http_method \<Rightarrow> nat + live_web_session" where
  "load_session env fault s now st h method =
     (case as_human st of
        None \<Rightarrow> Inl 401
      | Some runtime \<Rightarrow>
          (case cookie_value h session_cookie of
             None \<Rightarrow> Inl 401
           | Some secret \<Rightarrow>
               if fault \<noteq> None then Inl 500
               else case find_live_session_by_hash s (hash_session_secret env secret) now of
                 None \<Rightarrow> Inl 401
               | Some live \<Rightarrow>
                   if u_disabled_at (lw_user live) \<noteq> None then Inl 401
                   else if \<not> safe_method method \<and> \<not> csrf_ok env h live then Inl 403
                   else Inr live))"

definition role_level :: "user_role \<Rightarrow> auth_level" where
  "role_level r = (if r = RoleRoot then AuthRoot else AuthUser)"

definition inject_session :: "live_web_session \<Rightarrow> request_identity" where
  "inject_session live =
     (let u = lw_user live; level = role_level (u_role u) in
      \<lparr>ri_actor = user_actor u, ri_level = level, ri_user = Some (u_id u),
       ri_viewer = (if level = AuthUser then Some (u_id u) else None)\<rparr>)"

definition require_session ::
  "auth_env \<Rightarrow> faults \<Rightarrow> store \<Rightarrow> int \<Rightarrow> auth_state \<Rightarrow> http_request \<Rightarrow> nat + live_web_session" where
  "require_session env faults s now st q =
     (if extract_bearer_from_headers (hq_headers q) \<noteq> None then Inl 401
      else load_session env (faults 3) s now st (hq_headers q) (hq_method q))"

definition require_session_or_anonymous ::
  "auth_env \<Rightarrow> faults \<Rightarrow> store \<Rightarrow> int \<Rightarrow> auth_state \<Rightarrow> http_request \<Rightarrow> nat + live_web_session option" where
  "require_session_or_anonymous env faults s now st q =
     (if extract_bearer_from_headers (hq_headers q) \<noteq> None then Inl 401
      else if \<not> auth_enabled st then Inr None
      else and_then (load_session env (faults 3) s now st (hq_headers q) (hq_method q)) (\<lambda>live. Inr (Some live)))"

text \<open>The credential the gate accepted; the code marks legacy browser credentials on the request.\<close>

datatype dual_pass = ByBearer request_identity | ByLegacy request_identity | ByNobody | BySession live_web_session

definition legacy_gate ::
  "auth_env \<Rightarrow> faults \<Rightarrow> store \<Rightarrow> int \<Rightarrow> auth_state \<Rightarrow> http_request \<Rightarrow> nat + dual_pass" where
  "legacy_gate env faults s now st q =
     (if hq_method q \<noteq> GET then Inl 401
      else case legacy_browser_credential env (hq_headers q) of
        None \<Rightarrow> Inl 401
      | Some provided \<Rightarrow>
          (case authenticate_token env (faults 3) s now st (hq_headers q) provided False of
             Inr (Authenticated r) \<Rightarrow> Inr (ByLegacy r)
           | Inl e \<Rightarrow> Inl 400
           | Inr _ \<Rightarrow> Inl 401))"

definition session_gate ::
  "auth_env \<Rightarrow> faults \<Rightarrow> store \<Rightarrow> int \<Rightarrow> auth_state \<Rightarrow> http_request \<Rightarrow> nat + dual_pass" where
  "session_gate env faults s now st q =
     and_then (load_session env (faults 3) s now st (hq_headers q) (hq_method q)) (\<lambda>live.
       if u_must_change_password (lw_user live) then Inl 403 else Inr (BySession live))"

definition require_dual_auth ::
  "auth_env \<Rightarrow> faults \<Rightarrow> store \<Rightarrow> int \<Rightarrow> auth_state \<Rightarrow> http_request \<Rightarrow> nat + dual_pass" where
  "require_dual_auth env faults s now st q =
     (case authenticate_bearer env (faults 0) s now st (hq_headers q) of
        Inl e \<Rightarrow> Inl 400
      | Inr (Authenticated r) \<Rightarrow> Inr (ByBearer r)
      | Inr bearer \<Rightarrow>
          (case human_auth_configured faults s st of
             Inl e \<Rightarrow> Inl 500
           | Inr human_configured \<Rightarrow>
               if bearer = Rejected \<and> (auth_enabled st \<or> human_configured) then Inl 401
               else if human_configured then session_gate env faults s now st q
               else if \<not> auth_enabled st then Inr ByNobody
               else legacy_gate env faults s now st q))"

fun dual_identity :: "dual_pass \<Rightarrow> request_identity" where
  "dual_identity (ByBearer r) = r"
| "dual_identity (ByLegacy r) = r"
| "dual_identity ByNobody = anonymous_identity"
| "dual_identity (BySession live) = inject_session live"

section \<open>Who is vouched for\<close>

text \<open>
  The specification of a presented token: the root token speaks for the configured root actor, the proxy's token for
  the one unambiguous human its headers name, and an API key for its owner, who is an ordinary user whatever the
  role. Only a proxy that names the configured OIDC subject raises a request to root.
\<close>

inductive vouched ::
  "auth_env \<Rightarrow> store \<Rightarrow> int \<Rightarrow> auth_state \<Rightarrow> headers \<Rightarrow> bool \<Rightarrow> ustr \<Rightarrow> request_identity \<Rightarrow> bool"
  for env s now st h where
  root_token: "t \<noteq> [] \<Longrightarrow> as_expected st = Some t \<Longrightarrow>
    vouched env s now st h b t \<lparr>ri_actor = as_root_actor st, ri_level = AuthRoot, ri_user = None, ri_viewer = None\<rparr>"
| proxy_subject: "t \<noteq> [] \<Longrightarrow> as_expected st \<noteq> Some t \<Longrightarrow> as_actor_proxy_bearer st = Some t \<Longrightarrow>
    trusted_proxy_actor h = Inr a \<Longrightarrow> identity_key a = Some (SubjectKey i u) \<Longrightarrow>
    identity_key (as_root_actor st) = Some (SubjectKey i u) \<Longrightarrow>
    vouched env s now st h True t \<lparr>ri_actor = a, ri_level = AuthRoot, ri_user = None, ri_viewer = None\<rparr>"
| proxy_user: "t \<noteq> [] \<Longrightarrow> as_expected st \<noteq> Some t \<Longrightarrow> as_actor_proxy_bearer st = Some t \<Longrightarrow>
    trusted_proxy_actor h = Inr a \<Longrightarrow>
    \<not> (\<exists>i u. identity_key a = Some (SubjectKey i u) \<and> identity_key (as_root_actor st) = Some (SubjectKey i u)) \<Longrightarrow>
    vouched env s now st h True t \<lparr>ri_actor = a, ri_level = AuthUser, ri_user = None, ri_viewer = None\<rparr>"
| api_key: "t \<noteq> [] \<Longrightarrow> as_expected st \<noteq> Some t \<Longrightarrow> \<not> (b \<and> as_actor_proxy_bearer st = Some t) \<Longrightarrow>
    as_pepper st = Some pepper \<Longrightarrow> find_active_user_by_token_hash s (hash_token env t pepper) now = Some (u, k) \<Longrightarrow>
    vouched env s now st h b t
      \<lparr>ri_actor = user_actor u, ri_level = AuthUser, ri_user = Some (u_id u), ri_viewer = Some (u_id u)\<rparr>"


lemma asserts_root_iff:
  "asserts_root_identity st a \<longleftrightarrow>
     (\<exists>i u. identity_key a = Some (SubjectKey i u) \<and> identity_key (as_root_actor st) = Some (SubjectKey i u))"
  by (auto simp: asserts_root_identity_def split: option.splits identity_key.splits)

lemma authenticate_token_vouched:
  assumes a: "authenticate_token env fault s now st h t b = Inr (Authenticated r)"
  shows "vouched env s now st h b t r"
proof -
  have ne: "t \<noteq> []" using a by (auto simp: authenticate_token_def)
  consider (root) "as_expected st = Some t" | (proxy) "as_expected st \<noteq> Some t" "b" "as_actor_proxy_bearer st = Some t"
    | (key) "as_expected st \<noteq> Some t" "\<not> (b \<and> as_actor_proxy_bearer st = Some t)" by blast
  then show ?thesis
  proof cases
    case root
    then have "r = \<lparr>ri_actor = as_root_actor st, ri_level = AuthRoot, ri_user = None, ri_viewer = None\<rparr>"
      using a ne by (simp add: authenticate_token_def)
    then show ?thesis using root_token[OF ne root] by simp
  next
    case proxy
    then obtain actor where t: "trusted_proxy_actor h = Inr actor"
      and r: "r = \<lparr>ri_actor = actor, ri_level = (if asserts_root_identity st actor then AuthRoot else AuthUser),
              ri_user = None, ri_viewer = None\<rparr>"
      using a ne by (cases "trusted_proxy_actor h") (auto simp: authenticate_token_def)
    show ?thesis
    proof (cases "asserts_root_identity st actor")
      case True
      then obtain i u where "identity_key actor = Some (SubjectKey i u)" "identity_key (as_root_actor st) = Some (SubjectKey i u)"
        by (auto simp: asserts_root_iff)
      from proxy_subject[OF ne proxy(1,3) t this] show ?thesis using proxy(2) True by (simp add: r)
    next
      case False
      from proxy_user[OF ne proxy(1,3) t False[unfolded asserts_root_iff]] show ?thesis using proxy(2) False by (simp add: r)
    qed
  next
    case key
    then obtain pepper u k where "as_pepper st = Some pepper"
      "find_active_user_by_token_hash s (hash_token env t pepper) now = Some (u, k)"
      "r = \<lparr>ri_actor = user_actor u, ri_level = AuthUser, ri_user = Some (u_id u), ri_viewer = Some (u_id u)\<rparr>"
      using a ne by (auto simp: authenticate_token_def authenticate_api_key_def split: if_splits option.splits)
    then show ?thesis using api_key[OF ne key] by simp
  qed
qed



text \<open>A presented token is a malformed assertion of the proxy, rejected, or authenticated.\<close>

lemma token_outcome:
  obtains (malformed) e where "authenticate_token env fault s now st h t b = Inl e"
      "t \<noteq> []" "as_actor_proxy_bearer st = Some t"
  | (rejected) "authenticate_token env fault s now st h t b = Inr Rejected"
      "t = [] \<or> \<not> (b \<and> as_actor_proxy_bearer st = Some t)"
  | (authenticated) r where "authenticate_token env fault s now st h t b = Inr (Authenticated r)"
proof (cases "t = [] \<or> as_expected st = Some t")
  case True
  then show ?thesis by (cases "t = []") (auto simp: authenticate_token_def intro: rejected authenticated)
next
  case False
  show ?thesis
  proof (cases "b \<and> as_actor_proxy_bearer st = Some t")
    case True
    with False show ?thesis
      by (cases "trusted_proxy_actor h") (auto simp: authenticate_token_def intro: malformed authenticated)
  next
    case other: False
    show ?thesis
    proof (cases "\<exists>r. authenticate_token env fault s now st h t b = Inr (Authenticated r)")
      case True
      then show ?thesis by (blast intro: authenticated)
    next
      case False
      then have "authenticate_token env fault s now st h t b = Inr Rejected"
        using other \<open>\<not> (t = [] \<or> as_expected st = Some t)\<close>
        by (auto simp: authenticate_token_def authenticate_api_key_def split: option.splits if_splits)
      then show ?thesis using other by (blast intro: rejected)
    qed
  qed
qed


definition demo_env :: auth_env where
  "demo_env = \<lparr>ae_sha256 = (\<lambda>x. sum_list x), ae_base64 = (\<lambda>x. Some x), ae_verify = (\<lambda>p phc. Inr (phc = lit ''phc-'' @ p)),
     ae_hash_password = (\<lambda>p. Inr (lit ''phc-'' @ p)), ae_parse_ip = (\<lambda>_. None), ae_header_ok = (\<lambda>_. True)\<rparr>"

definition demo_auth :: auth_state where
  "demo_auth = with_trusted_proxy_bearer
     (with_root_actor (auth_state_new (Some (lit ''root-token'')))
        (anonymous_actor\<lparr>ac_issuer := Some (lit ''idp''), ac_sub := Some (lit ''boss'')\<rparr>))
     (lit ''proxy-token'')"

definition demo_headers :: "(string \<times> string) list \<Rightarrow> headers" where
  "demo_headers kvs name = map (\<lambda>(_, v). Some (lit v)) (filter (\<lambda>(k, _). k = name) kvs)"


lemmas demo_auth_simps = require_bearer_def authenticate_bearer_def extract_bearer_from_headers_def auth_parts_def
  eq_ignore_ascii_case_def nocase_def authenticate_token_def auth_enabled_def Let_def demo_env_def demo_auth_def with_trusted_proxy_bearer_def with_root_actor_def auth_state_new_def
  demo_headers_def non_blank_def anonymous_actor_def trim_def is_whitespace_def lit_def


section \<open>The browser gate\<close>

definition human_on :: "store \<Rightarrow> auth_state \<Rightarrow> bool" where
  "human_on s st \<longleftrightarrow> as_human st \<noteq> None \<and> (bootstrap_completed s \<or> any_password_hash s)"

lemma human_configured_Inr: "human_auth_configured faults s st = Inr b \<Longrightarrow> b = human_on s st"
  by (auto simp: human_auth_configured_def human_on_def split: option.splits if_splits)

lemma load_session_InrE:
  assumes "load_session env fault s now st h m = Inr live"
  obtains runtime secret where "as_human st = Some runtime" "cookie_value h session_cookie = Some secret"
    "find_live_session_by_hash s (hash_session_secret env secret) now = Some live"
    "u_disabled_at (lw_user live) = None"
    "m \<in> {GET, HEAD, OPTIONS} \<or> (\<exists>c. header_get h ''x-csrf-token'' = Some c \<and> cookie_value h csrf_cookie = Some c
       \<and> hash_session_secret env c = lw_csrf_hash live)"
proof -
  have "csrf_ok env h live \<Longrightarrow> \<exists>c. header_get h ''x-csrf-token'' = Some c \<and> cookie_value h csrf_cookie = Some c
       \<and> hash_session_secret env c = lw_csrf_hash live"
    by (auto simp: csrf_ok_def split: option.splits)
  then show thesis using assms that
    by (auto simp: load_session_def safe_method_def split: option.splits if_splits)
qed

text \<open>
  C10. A request to the browser routes passes in one of four ways, and each has its conditions. A Bearer token that
  vouches for the identity; without one, before human accounts exist and for GET only, the token of the deprecated
  Basic or cookie transport, never the proxy's; nobody at all, only where nothing is configured; or a live session of an
  enabled account that owes no password change, with the CSRF secret of that session on every method that
  writes. A Bearer that does not authenticate never falls back on a cookie.
\<close>

theorem dual_auth_sound:
  assumes "require_dual_auth env faults s now st q = Inr p"
  shows "case p of
      ByBearer r \<Rightarrow> (\<exists>t. extract_bearer_from_headers (hq_headers q) = Some t \<and> vouched env s now st (hq_headers q) True t r)
    | ByLegacy r \<Rightarrow> extract_bearer_from_headers (hq_headers q) = None \<and> \<not> human_on s st \<and> hq_method q = GET
        \<and> (\<exists>t. legacy_browser_credential env (hq_headers q) = Some t \<and> vouched env s now st (hq_headers q) False t r)
    | ByNobody \<Rightarrow> as_expected st = None \<and> \<not> as_human_intended st \<and> \<not> human_on s st
    | BySession live \<Rightarrow> extract_bearer_from_headers (hq_headers q) = None \<and> human_on s st
        \<and> (\<exists>secret. cookie_value (hq_headers q) session_cookie = Some secret
              \<and> find_live_session_by_hash s (hash_session_secret env secret) now = Some live)
        \<and> u_disabled_at (lw_user live) = None \<and> \<not> u_must_change_password (lw_user live)
        \<and> (hq_method q \<in> {GET, HEAD, OPTIONS}
             \<or> (\<exists>c. header_get (hq_headers q) ''x-csrf-token'' = Some c \<and> cookie_value (hq_headers q) csrf_cookie = Some c
                    \<and> hash_session_secret env c = lw_csrf_hash live))"
proof (cases "authenticate_bearer env (faults 0) s now st (hq_headers q)")
  case (Inl e)
  then show ?thesis using assms by (simp add: require_dual_auth_def)
next
  case (Inr bearer)
  show ?thesis
  proof (cases "\<exists>r. bearer = Authenticated r")
    case True
    then obtain r where r: "bearer = Authenticated r" ..
    obtain t where t: "extract_bearer_from_headers (hq_headers q) = Some t"
      using Inr r by (cases "extract_bearer_from_headers (hq_headers q)") (auto simp: authenticate_bearer_def)
    have "vouched env s now st (hq_headers q) True t r"
      using Inr r t by (intro authenticate_token_vouched[of env "faults 0"]) (simp add: authenticate_bearer_def)
    moreover have "p = ByBearer r" using assms Inr r by (simp add: require_dual_auth_def)
    ultimately show ?thesis using t by auto
  next
    case False
    then obtain hc where hc: "human_auth_configured faults s st = Inr hc"
      using assms Inr by (cases "human_auth_configured faults s st"; cases bearer) (auto simp: require_dual_auth_def)
    have on: "hc = human_on s st" using hc by (rule human_configured_Inr)
    have dual: "require_dual_auth env faults s now st q =
        (if bearer = Rejected \<and> (auth_enabled st \<or> hc) then Inl 401
         else if hc then session_gate env faults s now st q
         else if \<not> auth_enabled st then Inr ByNobody
         else legacy_gate env faults s now st q)"
      using Inr hc False by (cases bearer) (auto simp: require_dual_auth_def)
    have none: "extract_bearer_from_headers (hq_headers q) = None" if "bearer \<noteq> Rejected"
    proof (cases "extract_bearer_from_headers (hq_headers q)")
      case (Some t)
      then have "authenticate_token env (faults 0) s now st (hq_headers q) t True = Inr bearer"
        using Inr by (simp add: authenticate_bearer_def)
      then show ?thesis using that False
        by (cases rule: token_outcome[of env "faults 0" s now st "hq_headers q" t True]) auto
    qed simp
    consider (session) "bearer \<noteq> Rejected" "hc" "session_gate env faults s now st q = Inr p"
      | (nobody) "\<not> hc" "\<not> auth_enabled st" "p = ByNobody"
      | (legacy) "bearer \<noteq> Rejected" "\<not> hc" "legacy_gate env faults s now st q = Inr p"
      using assms unfolding dual by (auto split: if_splits)
    then show ?thesis
    proof cases
      case session
      then obtain live where live: "load_session env (faults 3) s now st (hq_headers q) (hq_method q) = Inr live"
        "\<not> u_must_change_password (lw_user live)" "p = BySession live"
        unfolding session_gate_def by (cases "load_session env (faults 3) s now st (hq_headers q) (hq_method q)") (auto split: if_splits)
      from load_session_InrE[OF live(1)] live(2,3) session(2) none[OF session(1)] on show ?thesis by auto
    next
      case nobody
      then show ?thesis using on by (simp add: auth_enabled_def)
    next
      case legacy
      then have get: "hq_method q = GET" by (auto simp: legacy_gate_def split: if_splits)
      then obtain t where t: "legacy_browser_credential env (hq_headers q) = Some t"
        using legacy by (cases "legacy_browser_credential env (hq_headers q)") (auto simp: legacy_gate_def)
      obtain r where r: "authenticate_token env (faults 3) s now st (hq_headers q) t False = Inr (Authenticated r)" "p = ByLegacy r"
        using legacy get t by (auto simp: legacy_gate_def split: sum.splits bearer_auth.splits)
      from authenticate_token_vouched[OF r(1)] r(2) t get none[OF legacy(1)] legacy(2) on show ?thesis by auto
    qed
  qed
qed

definition demo_runtime :: human_runtime where
  "demo_runtime = \<lparr>hr_recovery_token_hash = Some 777, hr_root_username = lit ''root'', hr_root_name = None, hr_root_email = None,
     hr_reserved_passwords = [lit ''root-token''], hr_trusted_proxy_cidrs = []\<rparr>"

definition demo_human :: auth_state where
  "demo_human = with_human_runtime demo_auth demo_runtime True"

definition demo_post :: "(string \<times> string) list \<Rightarrow> http_request" where
  "demo_post kvs = \<lparr>hq_method = POST, hq_headers = demo_headers kvs, hq_connect = None\<rparr>"

definition demo_cookies :: "string \<times> string" where
  "demo_cookies = (''cookie'', ''ai_memory_session=ddddddddd; ai_memory_csrf=dddddddde'')"

lemmas demo_gate_simps = demo_auth_simps require_dual_auth_def human_auth_configured_def session_gate_def load_session_def
  cookie_value_def header_get_def session_cookie_def csrf_cookie_def hash_session_secret_def csrf_ok_def safe_method_def
  demo_human_def demo_runtime_def with_human_runtime_def demo_post_def demo_cookies_def strip_prefix_def
  find_live_session_by_hash_def session_live_def human_row_def row_to_user_def bootstrap_completed_def empty_store_def

lemma demo_session_gate:
  "\<exists>live. require_dual_auth demo_env (\<lambda>_. None) (account_exec_all empty_store demo_accounts) 40 demo_human
       (demo_post [demo_cookies, (''x-csrf-token'', ''dddddddde'')]) = Inr (BySession live)"
  unfolding demo_accounts_store by (simp add: demo_gate_simps)

theorem dual_auth_sound_witness:
  "require_dual_auth demo_env (\<lambda>_. None) (account_exec_all empty_store demo_accounts) 40 demo_human (demo_post [demo_cookies]) = Inl 403
   \<and> (\<exists>live. require_dual_auth demo_env (\<lambda>_. None) (account_exec_all empty_store demo_accounts) 40 demo_human
          (demo_post [demo_cookies, (''x-csrf-token'', ''dddddddde'')]) = Inr (BySession live)
        \<and> lw_csrf_hash live = 901)"
proof
  show "require_dual_auth demo_env (\<lambda>_. None) (account_exec_all empty_store demo_accounts) 40 demo_human
      (demo_post [demo_cookies]) = Inl 403"
    unfolding demo_accounts_store by (simp add: demo_gate_simps)
  obtain live where live: "require_dual_auth demo_env (\<lambda>_. None) (account_exec_all empty_store demo_accounts) 40 demo_human
       (demo_post [demo_cookies, (''x-csrf-token'', ''dddddddde'')]) = Inr (BySession live)"
    using demo_session_gate by blast
  from dual_auth_sound[OF live]
  have "\<exists>c. header_get (demo_headers [demo_cookies, (''x-csrf-token'', ''dddddddde'')]) ''x-csrf-token'' = Some c
      \<and> hash_session_secret demo_env c = lw_csrf_hash live"
    by (auto simp: demo_post_def)
  then have "lw_csrf_hash live = 901"
    by (auto simp: header_get_def demo_headers_def demo_cookies_def hash_session_secret_def demo_env_def lit_def)
  with live show "\<exists>live. require_dual_auth demo_env (\<lambda>_. None) (account_exec_all empty_store demo_accounts) 40 demo_human
          (demo_post [demo_cookies, (''x-csrf-token'', ''dddddddde'')]) = Inr (BySession live)
        \<and> lw_csrf_hash live = 901" by blast
qed

end
