(* ===== verification/HttpHandlers.thy ===== *)
theory HttpHandlers
  imports HttpAuth
begin

text \<open>
  The handlers of \<^verbatim>\<open>crates/ai-memory-mcp/src/human_auth.rs\<close>: login, recovery, \<^verbatim>\<open>/auth/me\<close>, password change, logout
  and the introspection of a sidecar, with the cookies they set. A handler reads the store at one moment and
  writes it at a later one, with other requests in between, so it takes both stores. The body is \<open>None\<close> when
  it cannot be read or parsed. What one request draws from outside is its \<open>world\<close>. The texts of error bodies
  are left out: a response is a status, its cookies and, where there is one, its document.
\<close>

section \<open>Cookies\<close>

text \<open>The age is never negative.\<close>

definition set_cookie :: "ustr \<Rightarrow> ustr \<Rightarrow> bool \<Rightarrow> nat \<Rightarrow> bool \<Rightarrow> ustr" where
  "set_cookie name value http_only max_age secure =
     name @ lit ''='' @ value @ (if http_only then lit ''; HttpOnly'' else [])
     @ lit ''; SameSite=Strict; Path=/; Max-Age='' @ decimal max_age @ (if secure then lit ''; Secure'' else [])"

definition expire_legacy :: "bool \<Rightarrow> ustr" where
  "expire_legacy secure = set_cookie legacy_auth_cookie [] True 0 secure"

text \<open>\<^verbatim>\<open>i64::saturating_sub\<close>, then whole seconds rounded down, at least zero.\<close>

definition seconds_until_expiry :: "int \<Rightarrow> int \<Rightarrow> nat" where
  "seconds_until_expiry expires_at now =
     nat (Orderings.max 0 (min (2 ^ 63 - 1) (Orderings.max (- (2 ^ 63)) (expires_at - now)) div 1000000))"

text \<open>A value the \<^verbatim>\<open>http\<close> crate does not accept is left out.\<close>

definition header_values :: "auth_env \<Rightarrow> ustr list \<Rightarrow> ustr list" where
  "header_values env vs = filter (ae_header_ok env) vs"

definition session_cookies :: "auth_env \<Rightarrow> ustr \<Rightarrow> ustr \<Rightarrow> int \<Rightarrow> int \<Rightarrow> bool \<Rightarrow> ustr list" where
  "session_cookies env session csrf expires_at now secure =
     (let max_age = seconds_until_expiry expires_at now in
      header_values env [set_cookie session_cookie session True max_age secure,
        set_cookie csrf_cookie csrf False max_age secure, expire_legacy secure])"


section \<open>Documents and responses\<close>

record capabilities_body =
  cap_normal_read :: bool
  cap_normal_write :: bool
  cap_admin :: bool
  cap_user_management :: bool

record me_body =
  me_username :: "ustr option"
  me_name :: "ustr option"
  me_role :: "user_role option"
  me_must_change_password :: bool
  me_via :: ustr
  me_capabilities :: capabilities_body

record introspect_response =
  in_authenticated :: bool
  in_username :: "ustr option"
  in_can_manage_api_keys :: bool

datatype document = NoDocument | Me me_body | Introspection introspect_response

record response =
  rs_status :: nat
  rs_cookies :: "ustr list"
  rs_document :: document

definition json_err :: "nat \<Rightarrow> response" where
  "json_err status = \<lparr>rs_status = status, rs_cookies = [], rs_document = NoDocument\<rparr>"

abbreviation internal_err :: response where
  "internal_err \<equiv> json_err 500"

definition is_ok :: "'e + 'a \<Rightarrow> bool" where
  "is_ok r = (case r of Inr _ \<Rightarrow> True | Inl _ \<Rightarrow> False)"

definition capabilities_for :: "auth_level \<Rightarrow> bool \<Rightarrow> capabilities_body" where
  "capabilities_for level must_change =
     (let distinguishes = (level = AuthRoot \<or> level = AuthUser) in
      \<lparr>cap_normal_read = (\<not> must_change \<and> is_ok (authorize_level level NormalRead distinguishes)),
       cap_normal_write = (\<not> must_change \<and> is_ok (authorize_level level NormalWrite distinguishes)),
       cap_admin = (\<not> must_change \<and> is_ok (authorize_level level Admin distinguishes)),
       cap_user_management = (\<not> must_change \<and> is_ok (authorize_level level UserManagement distinguishes))\<rparr>)"

definition me_snapshot :: "user \<Rightarrow> me_body" where
  "me_snapshot u = \<lparr>me_username = Some (u_username u), me_name = u_name u, me_role = Some (u_role u),
     me_must_change_password = u_must_change_password u, me_via = lit ''session'',
     me_capabilities = capabilities_for (role_level (u_role u)) (u_must_change_password u)\<rparr>"

section \<open>Shared checks\<close>

record world =
  wd_faults :: faults
  wd_now :: int
  wd_write_now :: int
  wd_revoke_now :: int
  wd_cookie_now :: int
  wd_blocked_at :: int
  wd_failed_at :: int
  wd_id :: uuid
  wd_secret :: "ustr store_result"
  wd_csrf :: "ustr store_result"
  wd_write_fault :: "store_error option"

definition saturated :: "store_error \<Rightarrow> bool" where
  "saturated e = (case e of InvalidState msg \<Rightarrow> contains_str (lit ''saturated'') (lit msg) | _ \<Rightarrow> False)"

definition dummy_phc :: ustr where
  "dummy_phc = lit ''$argon2id$v=19$m=19456,t=2,p=1$YWktbWVtb3J5LWR1bW15$AAAAAAAAAAAAAAAAAAAAAAAAAAAAAAAAAAAAAAAAAAA''"

definition dummy_verify :: "auth_env \<Rightarrow> ustr \<Rightarrow> unit store_result" where
  "dummy_verify env password = and_then (ae_verify env password dummy_phc) (\<lambda>_. Inr ())"

definition is_reserved_password :: "auth_env \<Rightarrow> human_runtime \<Rightarrow> ustr \<Rightarrow> bool" where
  "is_reserved_password env runtime password \<longleftrightarrow>
     list_ex (\<lambda>secret. secret \<noteq> [] \<and> secret = password) (hr_reserved_passwords runtime)
     \<or> hr_recovery_token_hash runtime = Some (hash_session_secret env password)"

definition password_is_reserved :: "auth_env \<Rightarrow> auth_state \<Rightarrow> ustr \<Rightarrow> bool" where
  "password_is_reserved env st password =
     (case as_human st of None \<Rightarrow> False | Some runtime \<Rightarrow> is_reserved_password env runtime password)"

definition password_collides_with_api_key ::
  "auth_env \<Rightarrow> store_error option \<Rightarrow> store \<Rightarrow> ustr option \<Rightarrow> ustr \<Rightarrow> bool store_result" where
  "password_collides_with_api_key env fault s pepper password =
     (case pepper of None \<Rightarrow> Inr False
      | Some p \<Rightarrow> (case fault of Some e \<Rightarrow> Inl e | None \<Rightarrow> Inr (token_hash_exists s (hash_token env password p))))"

definition declares_json_body :: "headers \<Rightarrow> bool" where
  "declares_json_body h =
     (case header_get h ''content-type'' of
        None \<Rightarrow> False
      | Some value \<Rightarrow>
          let essence = nocase (trim (hd (split_all 0x3B value))) in
          essence = lit ''application/json''
          \<or> (case strip_prefix (lit ''application/'') essence of
               None \<Rightarrow> False
             | Some subtype \<Rightarrow> byte_len (lit ''+json'') < byte_len subtype \<and> suffix (lit ''+json'') subtype))"

definition recovery_token_matches :: "auth_env \<Rightarrow> digest option \<Rightarrow> ustr \<Rightarrow> bool" where
  "recovery_token_matches env expected provided \<longleftrightarrow> expected = Some (hash_session_secret env provided)"

type_synonym ip_limiter = "ip_addr limiter"

text \<open>What a writer command answers when the writer itself fails.\<close>

definition written :: "store_error option \<Rightarrow> 'a store_result \<Rightarrow> 'a store_result" where
  "written fault r = (case fault of Some e \<Rightarrow> Inl e | None \<Rightarrow> r)"

section \<open>Login and recovery\<close>

record login_body =
  lb_username :: ustr
  lb_password :: ustr

record recovery_body =
  rb_recovery_token :: ustr
  rb_new_password :: ustr
  rb_new_password_confirmation :: ustr

record change_password_body =
  cb_current_password :: ustr
  cb_new_password :: ustr
  cb_new_password_confirmation :: ustr

record introspect_body =
  ib_session :: ustr
  ib_method :: ustr
  ib_csrf :: "ustr option"

definition request_ip :: "auth_env \<Rightarrow> human_runtime \<Rightarrow> http_request \<Rightarrow> ip_addr" where
  "request_ip env runtime q =
     peer_ip (ae_parse_ip env) (hq_connect q) (hq_headers q ''x-forwarded-for'') (hr_trusted_proxy_cidrs runtime)"

text \<open>Issue a session for the credentials that were just verified; the writer checks them again.\<close>

definition issue_cookies ::
  "auth_env \<Rightarrow> world \<Rightarrow> store \<Rightarrow> uuid \<Rightarrow> ustr \<Rightarrow> user_role \<Rightarrow> bool \<Rightarrow> nat + (store \<times> ustr \<times> ustr \<times> int)" where
  "issue_cookies env w s user_id phc role must_change =
     (case wd_secret w of Inl e \<Rightarrow> Inl 500
      | Inr secret \<Rightarrow>
          (case wd_csrf w of Inl e \<Rightarrow> Inl 500
           | Inr csrf \<Rightarrow>
               (case written (wd_write_fault w) (issue_web_session s (wd_id w) (wd_write_now w) user_id phc role must_change
                       (hash_session_secret env secret) (hash_session_secret env csrf)) of
                  Inl e \<Rightarrow> Inl 401
                | Inr (s', issued) \<Rightarrow> Inr (s', secret, csrf, ws_expires_at issued))))"

definition dummy_login_failure ::
  "auth_env \<Rightarrow> world \<Rightarrow> ip_limiter \<Rightarrow> ip_addr \<Rightarrow> ustr \<Rightarrow> ip_limiter \<times> response" where
  "dummy_login_failure env w lim ip password =
     (case dummy_verify env password of
        Inl e \<Rightarrow> (lim, if saturated e then json_err 429 else json_err 500)
      | Inr _ \<Rightarrow> (record_failure lim ip (wd_failed_at w), json_err 401))"

definition login_verified ::
  "auth_env \<Rightarrow> auth_state \<Rightarrow> world \<Rightarrow> store \<Rightarrow> user \<Rightarrow> ustr \<Rightarrow> store \<times> response" where
  "login_verified env st w s u phc =
     (case issue_cookies env w s (u_id u) phc (u_role u) (u_must_change_password u) of
        Inl status \<Rightarrow> (s, json_err status)
      | Inr (s', secret, csrf, expires_at) \<Rightarrow>
          (s', \<lparr>rs_status = 200,
                rs_cookies = session_cookies env secret csrf expires_at (wd_cookie_now w) (as_secure_cookie st),
                rs_document = Me (me_snapshot u)\<rparr>))"

definition login_attempt ::
  "auth_env \<Rightarrow> auth_state \<Rightarrow> world \<Rightarrow> store \<Rightarrow> store \<Rightarrow> ip_limiter \<Rightarrow> ip_addr \<Rightarrow> ustr \<Rightarrow> ustr
     \<Rightarrow> store \<times> ip_limiter \<times> response" where
  "login_attempt env st w s_read s lim ip username password =
     (case wd_faults w 0 of
        Some e \<Rightarrow> (s, lim, internal_err)
      | None \<Rightarrow>
          (case find_login_user_by_username s_read username of
             None \<Rightarrow> (s, dummy_login_failure env w lim ip password)
           | Some (u, hash) \<Rightarrow>
               if u_disabled_at u \<noteq> None then (s, dummy_login_failure env w lim ip password)
               else case hash of
                 None \<Rightarrow> (s, dummy_login_failure env w lim ip password)
               | Some phc \<Rightarrow>
                   (case ae_verify env password phc of
                      Inl e \<Rightarrow> (s, lim, if saturated e then json_err 429 else internal_err)
                    | Inr False \<Rightarrow> (s, record_failure lim ip (wd_failed_at w), json_err 401)
                    | Inr True \<Rightarrow> (case login_verified env st w s u phc of (s', r) \<Rightarrow> (s', lim, r)))))"

definition handle_login ::
  "auth_env \<Rightarrow> auth_state \<Rightarrow> world \<Rightarrow> store \<Rightarrow> store \<Rightarrow> ip_limiter \<Rightarrow> http_request \<Rightarrow> login_body option
     \<Rightarrow> store \<times> ip_limiter \<times> response" where
  "handle_login env st w s_read s lim q body =
     (case as_human st of
        None \<Rightarrow> (s, lim, json_err 401)
      | Some runtime \<Rightarrow>
          if \<not> declares_json_body (hq_headers q) then (s, lim, json_err 415)
          else let ip = request_ip env runtime q in
            (case ip_blocked_at lim ip (wd_blocked_at w) of
               (lim', True) \<Rightarrow> (s, lim', json_err 429)
             | (lim', False) \<Rightarrow>
                 (case body of
                    None \<Rightarrow> (s, lim', json_err 400)
                  | Some b \<Rightarrow> login_attempt env st w s_read s lim' ip (trim (lb_username b)) (lb_password b))))"

definition recovery_public_fail ::
  "auth_env \<Rightarrow> world \<Rightarrow> ip_limiter \<Rightarrow> ip_addr \<Rightarrow> ustr \<Rightarrow> ip_limiter \<times> response" where
  "recovery_public_fail env w lim ip password =
     (record_failure lim ip (wd_failed_at w),
      case dummy_verify env password of
        Inl e \<Rightarrow> if saturated e then json_err 429 else json_err 401
      | Inr _ \<Rightarrow> json_err 401)"

definition recovery_admissible :: "auth_env \<Rightarrow> human_runtime \<Rightarrow> recovery_body \<Rightarrow> bool" where
  "recovery_admissible env runtime b \<longleftrightarrow>
     recovery_token_matches env (hr_recovery_token_hash runtime) (rb_recovery_token b)
     \<and> rb_new_password b = rb_new_password_confirmation b
     \<and> \<not> is_reserved_password env runtime (rb_new_password b)
     \<and> is_ok (validate_human_password (rb_new_password b) (Some (hr_root_username runtime)) (hr_reserved_passwords runtime))"

definition recovery_write ::
  "auth_env \<Rightarrow> auth_state \<Rightarrow> human_runtime \<Rightarrow> world \<Rightarrow> store \<Rightarrow> ustr \<Rightarrow> store \<times> response" where
  "recovery_write env st runtime w s password =
     (case ae_hash_password env password of
        Inl e \<Rightarrow> (s, if saturated e then json_err 429 else internal_err)
      | Inr phc \<Rightarrow>
          (case written (wd_write_fault w) (recover_root s (wd_id w) (wd_write_now w) (wd_revoke_now w)
                  (hr_root_username runtime) (hr_root_name runtime) (hr_root_email runtime) phc) of
             Inl e \<Rightarrow> (s, internal_err)
           | Inr (s', _) \<Rightarrow>
               (s', \<lparr>rs_status = 204, rs_cookies = header_values env [expire_legacy (as_secure_cookie st)],
                     rs_document = NoDocument\<rparr>)))"

definition handle_recovery ::
  "auth_env \<Rightarrow> auth_state \<Rightarrow> world \<Rightarrow> store \<Rightarrow> store \<Rightarrow> ip_limiter \<Rightarrow> http_request \<Rightarrow> recovery_body option
     \<Rightarrow> store \<times> ip_limiter \<times> response" where
  "handle_recovery env st w s_read s lim q body =
     (case as_human st of
        None \<Rightarrow> (s, lim, json_err 401)
      | Some runtime \<Rightarrow>
          if \<not> declares_json_body (hq_headers q) then (s, lim, json_err 415)
          else let ip = request_ip env runtime q in
            (case ip_blocked_at lim ip (wd_blocked_at w) of
               (lim', True) \<Rightarrow> (s, lim', json_err 429)
             | (lim', False) \<Rightarrow>
                 (case body of
                    None \<Rightarrow> (s, lim', json_err 400)
                  | Some b \<Rightarrow>
                      if \<not> recovery_admissible env runtime b
                      then (s, recovery_public_fail env w lim' ip (rb_new_password b))
                      else case password_collides_with_api_key env (wd_faults w 0) s_read (as_pepper st) (rb_new_password b) of
                        Inl e \<Rightarrow> (s, lim', internal_err)
                      | Inr True \<Rightarrow> (s, recovery_public_fail env w lim' ip (rb_new_password b))
                      | Inr False \<Rightarrow>
                          (case recovery_write env st runtime w s (rb_new_password b) of (s', r) \<Rightarrow> (s', lim', r)))))"

section \<open>Session handlers\<close>

text \<open>\<open>level\<close>, \<open>actor\<close> and \<open>session\<close> are what the gate put on the request.\<close>

definition handle_me ::
  "auth_env \<Rightarrow> auth_state \<Rightarrow> auth_level \<Rightarrow> actor_context \<Rightarrow> live_web_session option \<Rightarrow> response" where
  "handle_me env st level actor session =
     (let user = map_option lw_user session;
          must_change = (case user of None \<Rightarrow> False | Some u \<Rightarrow> u_must_change_password u)
      in \<lparr>rs_status = 200, rs_cookies = header_values env [expire_legacy (as_secure_cookie st)],
          rs_document = Me (if level = AuthAnonymous
            then \<lparr>me_username = None, me_name = None, me_role = None, me_must_change_password = False,
                  me_via = lit ''anonymous'', me_capabilities = capabilities_for AuthAnonymous False\<rparr>
            else \<lparr>me_username = (case ac_user actor of None \<Rightarrow> map_option u_username user | Some n \<Rightarrow> Some n),
                  me_name = (case ac_name actor of None \<Rightarrow> Option.bind user u_name | Some n \<Rightarrow> Some n),
                  me_role = map_option u_role user, me_must_change_password = must_change, me_via = lit ''session'',
                  me_capabilities = capabilities_for level must_change\<rparr>)\<rparr>)"

definition change_password_write ::
  "auth_env \<Rightarrow> auth_state \<Rightarrow> world \<Rightarrow> store \<Rightarrow> live_web_session \<Rightarrow> ustr \<Rightarrow> ustr \<Rightarrow> store \<times> response" where
  "change_password_write env st w s session phc new_phc =
     (case wd_secret w of Inl e \<Rightarrow> (s, internal_err)
      | Inr secret \<Rightarrow>
          (case wd_csrf w of Inl e \<Rightarrow> (s, internal_err)
           | Inr csrf \<Rightarrow>
               (case written (wd_write_fault w) (change_password s (wd_write_now w) (wd_revoke_now w) (u_id (lw_user session))
                       phc new_phc (lw_id session) (hash_session_secret env secret) (hash_session_secret env csrf)) of
                  Inl e \<Rightarrow> (s, json_err 409)
                | Inr (s', _) \<Rightarrow>
                    (s', \<lparr>rs_status = 204,
                          rs_cookies = session_cookies env secret csrf (lw_expires_at session) (wd_cookie_now w) (as_secure_cookie st),
                          rs_document = NoDocument\<rparr>))))"

definition handle_change_password ::
  "auth_env \<Rightarrow> auth_state \<Rightarrow> world \<Rightarrow> store \<Rightarrow> store \<Rightarrow> live_web_session \<Rightarrow> change_password_body \<Rightarrow> store \<times> response" where
  "handle_change_password env st w s_read s session b =
     (case as_human st of
        None \<Rightarrow> (s, json_err 401)
      | Some runtime \<Rightarrow>
          if cb_new_password b \<noteq> cb_new_password_confirmation b then (s, json_err 400)
          else if \<not> is_ok (validate_human_password (cb_new_password b) (Some (u_username (lw_user session)))
                 (hr_reserved_passwords runtime)) then (s, json_err 400)
          else if is_reserved_password env runtime (cb_new_password b) then (s, json_err 400)
          else if wd_faults w 4 \<noteq> None then (s, internal_err)
          else case find_login_user_by_username s_read (u_username (lw_user session)) of
            None \<Rightarrow> (s, json_err 401)
          | Some (_, None) \<Rightarrow> (s, json_err 401)
          | Some (_, Some phc) \<Rightarrow>
              (case ae_verify env (cb_current_password b) phc of
                 Inl e \<Rightarrow> (s, internal_err)
               | Inr False \<Rightarrow> (s, json_err 401)
               | Inr True \<Rightarrow>
                   (case password_collides_with_api_key env (wd_faults w 5) s_read (as_pepper st) (cb_new_password b) of
                      Inl e \<Rightarrow> (s, internal_err)
                    | Inr True \<Rightarrow> (s, json_err 400)
                    | Inr False \<Rightarrow>
                        (case ae_hash_password env (cb_new_password b) of
                           Inl e \<Rightarrow> (s, internal_err)
                         | Inr new_phc \<Rightarrow> change_password_write env st w s session phc new_phc))))"


definition to_ascii_uppercase :: "ustr \<Rightarrow> ustr" where
  "to_ascii_uppercase s = map (\<lambda>c. if 0x61 \<le> c \<and> c \<le> 0x7A then c - 32 else c) s"

definition not_introspected :: response where
  "not_introspected = \<lparr>rs_status = 200, rs_cookies = [], rs_document = Introspection
     \<lparr>in_authenticated = False, in_username = None, in_can_manage_api_keys = False\<rparr>\<rparr>"

definition handle_session_introspect ::
  "auth_env \<Rightarrow> auth_state \<Rightarrow> world \<Rightarrow> store \<Rightarrow> headers \<Rightarrow> introspect_body \<Rightarrow> response" where
  "handle_session_introspect env st w s h b =
     (if any_actor_header h then json_err 400
      else case as_actor_proxy_bearer st of
        None \<Rightarrow> json_err 401
      | Some expected \<Rightarrow>
          if (case extract_bearer_from_headers h of None \<Rightarrow> [] | Some t \<Rightarrow> t) \<noteq> expected then json_err 401
          else case as_human st of
            None \<Rightarrow> not_introspected
          | Some runtime \<Rightarrow>
              if wd_faults w 0 \<noteq> None then internal_err
              else case find_live_session_by_hash s (hash_session_secret env (ib_session b)) (wd_now w) of
                None \<Rightarrow> not_introspected
              | Some live \<Rightarrow>
                  let mutating = to_ascii_uppercase (ib_method b) \<in> set [lit ''POST'', lit ''PUT'', lit ''PATCH'', lit ''DELETE''];
                      u = lw_user live
                  in if mutating \<and> (case ib_csrf b of None \<Rightarrow> True
                         | Some csrf \<Rightarrow> hash_session_secret env csrf \<noteq> lw_csrf_hash live) then not_introspected
                     else \<lparr>rs_status = 200, rs_cookies = [], rs_document = Introspection
                            \<lparr>in_authenticated = True, in_username = Some (u_username u),
                             in_can_manage_api_keys = (u_role u = RoleRoot \<and> \<not> u_must_change_password u
                               \<and> u_disabled_at u = None)\<rparr>\<rparr>)"

definition expire_legacy_cookie_mw :: "auth_env \<Rightarrow> auth_state \<Rightarrow> faults \<Rightarrow> store \<Rightarrow> response \<Rightarrow> response" where
  "expire_legacy_cookie_mw env st faults s resp =
     (let expire = (case human_auth_configured faults s st of Inr b \<Rightarrow> b | Inl _ \<Rightarrow> True) in
      if expire then resp\<lparr>rs_cookies := rs_cookies resp @ header_values env [expire_legacy (as_secure_cookie st)]\<rparr> else resp)"

section \<open>Requests as account commands\<close>



definition by_commands :: "store \<Rightarrow> store \<Rightarrow> bool" where
  "by_commands s s' \<longleftrightarrow> (\<exists>cs. length cs \<le> 1 \<and> s' = account_exec_all s cs)"

lemma by_commands_refl [simp, intro]: "by_commands s s"
  by (auto simp: by_commands_def intro: exI[of _ "[]"])



lemma written_Inr [simp]: "written f r = Inr x \<longleftrightarrow> f = None \<and> r = Inr x"
  by (auto simp: written_def split: option.splits)












section \<open>The invariant of the login surface\<close>















section \<open>Logins\<close>










definition demo_world :: world where
  "demo_world = \<lparr>wd_faults = (\<lambda>_. None), wd_now = 60, wd_write_now = 60, wd_revoke_now = 61, wd_cookie_now = 62, wd_blocked_at = 1,
     wd_failed_at = 2, wd_id = 51, wd_secret = Inr (lit ''s1''), wd_csrf = Inr (lit ''c1''), wd_write_fault = None\<rparr>"

definition demo_login :: "string \<Rightarrow> string \<Rightarrow> store \<times> ip_limiter \<times> response" where
  "demo_login name password =
     handle_login demo_env demo_human demo_world (account_exec_all empty_store demo_accounts) (account_exec_all empty_store demo_accounts)
       [] (demo_post [(''content-type'', ''Application/JSON; charset=utf-8'')])
       (Some \<lparr>lb_username = lit name, lb_password = lit password\<rparr>)"

lemmas demo_login_simps = demo_auth_simps demo_login_def handle_login_def demo_human_def demo_runtime_def with_human_runtime_def
  demo_post_def declares_json_body_def header_get_def nocase_def request_ip_def peer_ip_def ip_blocked_at_def login_attempt_def
  demo_world_def find_login_user_by_username_def human_row_def row_to_user_def dummy_login_failure_def dummy_verify_def
  login_verified_def issue_cookies_def written_def issue_web_session_def insert_web_session_def hash_session_secret_def empty_store_def



definition admits :: "auth_env \<Rightarrow> store \<Rightarrow> ustr \<Rightarrow> ustr \<Rightarrow> bool" where
  "admits env s name password =
     (case find_login_user_by_username s name of
        Some (u, Some phc) \<Rightarrow> u_disabled_at u = None \<and> ae_verify env password phc = Inr True
      | _ \<Rightarrow> False)"

lemma failing_attempt_same:
  assumes kdf: "\<And>phc. \<exists>b. ae_verify env p phc = Inr b" and no: "\<not> admits env s_read n p"
  shows "login_attempt env st w s_read s lim ip n p =
    (if wd_faults w 0 \<noteq> None then (s, lim, internal_err) else (s, record_failure lim ip (wd_failed_at w), json_err 401))"
proof -
  have dummy: "dummy_login_failure env w lim ip p = (record_failure lim ip (wd_failed_at w), json_err 401)"
    using kdf[of dummy_phc] by (auto simp: dummy_login_failure_def dummy_verify_def)
  have wrong: "ae_verify env p phc = Inr False" if "ae_verify env p phc \<noteq> Inr True" for phc
    using kdf[of phc] that by auto
  show ?thesis using no
    by (auto simp: login_attempt_def dummy admits_def wrong split: option.splits prod.splits)
qed

text \<open>
  A failing login tells nothing about the account. As long as the password function completes, two attempts that
  do not succeed are answered alike and spend the same budget of the address, whether the name is unknown, the
  account disabled or without password, or the password wrong.
\<close>

theorem failing_logins_alike:
  assumes "\<And>phc. \<exists>b. ae_verify env p phc = Inr b" "\<And>phc. \<exists>b. ae_verify env p' phc = Inr b"
    and "\<not> admits env s_read (trim n) p" "\<not> admits env s_read' (trim n') p'"
  shows "handle_login env st w s_read s lim q (Some \<lparr>lb_username = n, lb_password = p\<rparr>)
    = handle_login env st w s_read' s lim q (Some \<lparr>lb_username = n', lb_password = p'\<rparr>)"
  using failing_attempt_same[OF assms(1,3)] failing_attempt_same[OF assms(2,4)]
  by (simp add: handle_login_def split: option.splits prod.splits bool.splits)

theorem failing_logins_alike_witness:
  "demo_login ''nobody'' ''x'' = demo_login ''ann'' ''wrong'' \<and> demo_login ''nobody'' ''x'' \<noteq> demo_login ''ann'' ''a''"
proof
  let ?s = "account_exec_all empty_store demo_accounts"
  have kdf: "\<exists>b. ae_verify demo_env p phc = Inr b" for p phc by (simp add: demo_env_def)
  have no: "\<not> admits demo_env ?s (trim (lit ''nobody'')) (lit ''x'')" "\<not> admits demo_env ?s (trim (lit ''ann'')) (lit ''wrong'')"
    unfolding demo_accounts_store
    by (simp_all add: admits_def find_login_user_by_username_def human_row_def demo_env_def lit_def trim_def is_whitespace_def)
  show "demo_login ''nobody'' ''x'' = demo_login ''ann'' ''wrong''"
    unfolding demo_login_def by (rule failing_logins_alike[OF kdf kdf no])
  show "demo_login ''nobody'' ''x'' \<noteq> demo_login ''ann'' ''a''"
    unfolding demo_login_def demo_accounts_store by (simp add: demo_login_simps json_err_def)
qed

section \<open>Recovery and password change\<close>

lemma recovered_root:
  assumes ok: "accounts_ok s" and r: "recover_root s i now rnow n nm e phc = Inr (s', x)"
  shows "\<exists>row \<in> set (users s'). usr_username row = n \<and> usr_role row = RoleRoot \<and> usr_disabled_at row = None
      \<and> usr_password_hash row = Some phc \<and> \<not> usr_must_change_password row"
    and "find_live_session_by_hash s' h t = Some l \<Longrightarrow> u_username (lw_user l) \<noteq> n"
proof -
  obtain s1 where i: "install_root s i now n nm e phc False = Inr (s1, x)"
    and s': "s' = set_bootstrap_completed (revoke_user_sessions s1 rnow x None) True"
    using r by (rule recover_root_InrE)
  obtain row where row: "row \<in> set (users s')" "recoverable_root row" "usr_id row = x" "usr_username row = n"
    "usr_password_hash row = Some phc" "\<not> usr_must_change_password row"
    using ok_install_root(2)[OF ok i] by (auto simp: s' set_bootstrap_completed_def)
  then show "\<exists>row \<in> set (users s'). usr_username row = n \<and> usr_role row = RoleRoot \<and> usr_disabled_at row = None
      \<and> usr_password_hash row = Some phc \<and> \<not> usr_must_change_password row" by (auto simp: recoverable_root_def)
  have ok': "accounts_ok s'" by (rule ok_recover[OF ok r])
  assume "find_live_session_by_hash s' h t = Some l"
  then obtain w u where w: "w \<in> set (web_sessions s')" "web_revoked_at w = None" and u: "u \<in> set (users s')" "usr_id u = web_user w"
    and l: "lw_user l = row_to_user u"
    by (auto simp: find_live_iff[OF ok'] session_live_def)
  have "web_user w \<noteq> x"
    using revoked_of_user[of w s1 rnow x] w by (auto simp: s' set_bootstrap_completed_def)
  then have "u \<noteq> row" using u(2) row(3) by auto
  have uniq: "unique_on (\<lambda>_. True) usr_username (users s')" using accounts_okD(1)[OF ok'] by (simp add: users_keyed_def)
  show "u_username (lw_user l) \<noteq> n"
  proof
    assume "u_username (lw_user l) = n"
    then have "usr_username u = usr_username row" using row(4) by (simp add: l row_to_user_def)
    with unique_onD[OF uniq u(1) row(1)] \<open>u \<noteq> row\<close> show False by simp
  qed
qed

text \<open>
  C26. The break-glass route changes nothing without its token. If a recovery request changed the store at all, it
  presented the configured secret with a confirmed, policy-conforming, unreserved password, and no key in use hashes to it; the
  root account is then enabled with that password and owes no change, and every session it had is over. No session is issued.
\<close>

theorem recovery_needs_the_token:
  assumes ok: "accounts_ok s" and r: "handle_recovery env st w s_read s lim q body = (s', lim', r)" and ch: "s' \<noteq> s"
  shows "\<exists>runtime b phc. as_human st = Some runtime \<and> body = Some b
    \<and> hr_recovery_token_hash runtime = Some (hash_session_secret env (rb_recovery_token b))
    \<and> rb_new_password b = rb_new_password_confirmation b \<and> \<not> password_is_reserved env st (rb_new_password b)
    \<and> validate_human_password (rb_new_password b) (Some (hr_root_username runtime)) (hr_reserved_passwords runtime) = Inr ()
    \<and> password_collides_with_api_key env (wd_faults w 0) s_read (as_pepper st) (rb_new_password b) = Inr False
    \<and> ae_hash_password env (rb_new_password b) = Inr phc
    \<and> (\<exists>row \<in> set (users s'). usr_username row = hr_root_username runtime \<and> usr_role row = RoleRoot
         \<and> usr_disabled_at row = None \<and> usr_password_hash row = Some phc \<and> \<not> usr_must_change_password row)
    \<and> (\<forall>h t l. find_live_session_by_hash s' h t = Some l \<longrightarrow> u_username (lw_user l) \<noteq> hr_root_username runtime)
    \<and> rs_status r = 204"
proof -
  obtain runtime b where rt: "as_human st = Some runtime" and b: "body = Some b" and adm: "recovery_admissible env runtime b"
    and free: "password_collides_with_api_key env (wd_faults w 0) s_read (as_pepper st) (rb_new_password b) = Inr False"
    and w: "recovery_write env st runtime w s (rb_new_password b) = (s', r)"
    using r ch by (auto simp: handle_recovery_def Let_def recovery_public_fail_def
        split: option.splits if_splits prod.splits bool.splits sum.splits)
  obtain phc x where phc: "ae_hash_password env (rb_new_password b) = Inr phc" and st: "rs_status r = 204"
    and rec: "recover_root s (wd_id w) (wd_write_now w) (wd_revoke_now w) (hr_root_username runtime)
      (hr_root_name runtime) (hr_root_email runtime) phc = Inr (s', x)"
    using w ch by (auto simp: recovery_write_def split: sum.splits)
  have "hr_recovery_token_hash runtime = Some (hash_session_secret env (rb_recovery_token b))"
    "rb_new_password b = rb_new_password_confirmation b" "\<not> password_is_reserved env st (rb_new_password b)"
    "validate_human_password (rb_new_password b) (Some (hr_root_username runtime)) (hr_reserved_passwords runtime) = Inr ()"
    using adm rt by (auto simp: recovery_admissible_def recovery_token_matches_def password_is_reserved_def is_ok_def split: sum.splits)
  then show ?thesis using rt b free phc st recovered_root[OF ok rec] by blast
qed

definition demo_recovery :: "string \<Rightarrow> store \<times> ip_limiter \<times> response" where
  "demo_recovery token =
     handle_recovery demo_env demo_human demo_world (account_exec_all empty_store demo_accounts)
       (account_exec_all empty_store demo_accounts) [] (demo_post [(''content-type'', ''application/json'')])
       (Some \<lparr>rb_recovery_token = lit token, rb_new_password = lit ''a much longer secret'',
              rb_new_password_confirmation = lit ''a much longer secret''\<rparr>)"

lemmas demo_recovery_simps = demo_login_simps demo_recovery_def handle_recovery_def recovery_admissible_def recovery_token_matches_def
  is_reserved_password_def validate_human_password_def min_human_password_bytes_def max_human_password_bytes_def credential_prefixes_def
  password_collides_with_api_key_def recovery_write_def recovery_public_fail_def recover_root_def install_root_def promote_root_def
  find_user_by_username_def email_taken_def set_bootstrap_completed_def revoke_user_sessions_def is_ok_def json_err_def utf8_len_def

theorem recovery_needs_the_token_witness:
  "fst (demo_recovery ''guess'') = account_exec_all empty_store demo_accounts
   \<and> (\<exists>s' lim' r. demo_recovery ''ooooooo'' = (s', lim', r) \<and> rs_status r = 204
        \<and> (\<exists>row \<in> set (users s'). usr_username row = lit ''root'' \<and> usr_password_hash row = Some (lit ''phc-a much longer secret'')))"
proof
  show "fst (demo_recovery ''guess'') = account_exec_all empty_store demo_accounts"
    unfolding demo_recovery_def demo_accounts_store by (simp add: demo_recovery_simps)
  obtain s' lim' r where d: "demo_recovery ''ooooooo'' = (s', lim', r)" by (cases "demo_recovery ''ooooooo''")
  have ne: "fst (demo_recovery ''ooooooo'') \<noteq> account_exec_all empty_store demo_accounts"
    unfolding demo_recovery_def demo_accounts_store by (simp add: demo_recovery_simps update_where_def)
  have ch: "s' \<noteq> account_exec_all empty_store demo_accounts" using ne d by simp
  from recovery_needs_the_token[OF account_exec_all_ok[OF accounts_ok_empty] d[unfolded demo_recovery_def] ch]
  show "\<exists>s' lim' r. demo_recovery ''ooooooo'' = (s', lim', r) \<and> rs_status r = 204
        \<and> (\<exists>row \<in> set (users s'). usr_username row = lit ''root'' \<and> usr_password_hash row = Some (lit ''phc-a much longer secret''))"
  proof (elim exE conjE bexE)
    fix runtime b phc row
    assume rt: "as_human demo_human = Some runtime" and b: "Some \<lparr>rb_recovery_token = lit ''ooooooo'',
        rb_new_password = lit ''a much longer secret'', rb_new_password_confirmation = lit ''a much longer secret''\<rparr> = Some b"
      and phc: "ae_hash_password demo_env (rb_new_password b) = Inr phc" and row: "row \<in> set (users s')"
      "usr_username row = hr_root_username runtime" "usr_password_hash row = Some phc" and st: "rs_status r = 204"
    have "runtime = demo_runtime" using rt by (simp add: demo_human_def with_human_runtime_def)
    then have "usr_username row = lit ''root''" using row(2) by (simp add: demo_runtime_def)
    moreover have "rb_new_password b = lit ''a much longer secret''" using b by (metis option.inject recovery_body.select_convs(2))
    then have "phc = lit ''phc-a much longer secret''" using phc by (simp add: demo_env_def lit_def)
    ultimately show ?thesis using d st row(1,3) by blast
  qed
qed

text \<open>
  The password function bounds its queue and reports a full one as \<open>InvalidState\<close>, for which its documentation
  promises status 429. Login and recovery answer 429; a password change, which needs the same function twice,
  answers 500 for it, after every other check has passed.
\<close>

theorem saturated_password_change_is_500:
  assumes rt: "as_human st = Some runtime" and same: "cb_new_password b = cb_new_password_confirmation b"
    and valid: "validate_human_password (cb_new_password b) (Some (u_username (lw_user live))) (hr_reserved_passwords runtime) = Inr ()"
      "\<not> password_is_reserved env st (cb_new_password b)"
    and read: "wd_faults w 4 = None" "find_login_user_by_username s_read (u_username (lw_user live)) = Some (u, Some phc)"
    and full: "ae_verify env (cb_current_password b) phc = Inl (InvalidState ''kdf saturated'')"
  shows "handle_change_password env st w s_read s live b = (s, json_err 500)"
  using assms by (simp add: handle_change_password_def is_ok_def password_is_reserved_def)

definition saturated_env :: auth_env where
  "saturated_env = demo_env\<lparr>ae_verify := (\<lambda>_ _. Inl (InvalidState ''kdf saturated''))\<rparr>"

definition demo_live :: live_web_session where
  "demo_live = \<lparr>lw_id = 50, lw_csrf_hash = 901, lw_expires_at = 604800000020, lw_last_used_at = 20,
     lw_user = row_to_user (human_row 2 (lit ''ann'') None (Some (lit ''Ann@x'')) 11 RoleUser (Some (lit ''phc-a'')) False)\<rparr>"

theorem saturated_password_change_is_500_witness:
  "rs_status (snd (handle_change_password saturated_env demo_human demo_world (account_exec_all empty_store demo_accounts)
      (account_exec_all empty_store demo_accounts) demo_live
      \<lparr>cb_current_password = lit ''a'', cb_new_password = lit ''a much longer secret'',
       cb_new_password_confirmation = lit ''a much longer secret''\<rparr>)) = 500
   \<and> rs_status (snd (snd (handle_login saturated_env demo_human demo_world (account_exec_all empty_store demo_accounts)
      (account_exec_all empty_store demo_accounts) [] (demo_post [(''content-type'', ''application/json'')])
      (Some \<lparr>lb_username = lit ''ann'', lb_password = lit ''a''\<rparr>)))) = 429"
proof
  let ?s = "account_exec_all empty_store demo_accounts"
  let ?b = "\<lparr>cb_current_password = lit ''a'', cb_new_password = lit ''a much longer secret'',
       cb_new_password_confirmation = lit ''a much longer secret''\<rparr>"
  have "handle_change_password saturated_env demo_human demo_world ?s ?s demo_live ?b = (?s, json_err 500)"
  proof (rule saturated_password_change_is_500)
    show "find_login_user_by_username ?s (u_username (lw_user demo_live)) =
      Some (row_to_user (human_row 2 (lit ''ann'') None (Some (lit ''Ann@x'')) 11 RoleUser (Some (lit ''phc-a'')) False), Some (lit ''phc-a''))"
      unfolding demo_accounts_store
      by (simp add: demo_live_def find_login_user_by_username_def row_to_user_def human_row_def lit_def)
    show "as_human demo_human = Some demo_runtime" by (simp add: demo_human_def with_human_runtime_def)
  qed (simp_all add: demo_recovery_simps saturated_env_def demo_live_def password_is_reserved_def)
  then show "rs_status (snd (handle_change_password saturated_env demo_human demo_world ?s ?s demo_live ?b)) = 500"
    by (simp add: json_err_def)
  show "rs_status (snd (snd (handle_login saturated_env demo_human demo_world ?s ?s []
      (demo_post [(''content-type'', ''application/json'')]) (Some \<lparr>lb_username = lit ''ann'', lb_password = lit ''a''\<rparr>)))) = 429"
    unfolding demo_accounts_store by (simp add: demo_login_simps saturated_env_def saturated_def json_err_def)
qed

end
