(* ===== verification/PasswordKdf.thy ===== *)
theory PasswordKdf
  imports Schema
begin

text \<open>
  \<^verbatim>\<open>with_kdf_slot\<close> of \<^verbatim>\<open>crates/ai-memory-store/src/password.rs\<close>: the two semaphores in front of Argon2id. A call takes a pending
  permit or fails at once, waits for one of two slots, and hands its work to the blocking pool of \<^verbatim>\<open>tokio\<close>. The
  permits belong to the call, the work to the pool: work that was handed over runs to its end even when the call is
  dropped, which is how the pool is documented. Steps of concurrent calls interleave in any order, so the
  section is a labelled step relation over the number of calls in each phase.
\<close>

definition kdf_permits :: nat where "kdf_permits = 2"

definition kdf_pending_limit :: nat where "kdf_pending_limit = 32"

record kdf_state =
  kd_waiting :: nat
  kd_running :: nat
  kd_detached :: nat

datatype kdf_event = Admit | Saturated | Start | Finish | DropWaiting | DropRunning | FinishDetached

definition pending_permits :: "kdf_state \<Rightarrow> nat" where
  "pending_permits k = kd_waiting k + kd_running k"

definition slot_permits :: "kdf_state \<Rightarrow> nat" where
  "slot_permits k = kd_running k"

definition kdf_idle :: kdf_state where
  "kdf_idle = \<lparr>kd_waiting = 0, kd_running = 0, kd_detached = 0\<rparr>"

inductive kdf_step :: "kdf_state \<Rightarrow> kdf_event \<Rightarrow> kdf_state \<Rightarrow> bool" where
  admit: "pending_permits k < kdf_pending_limit \<Longrightarrow> kdf_step k Admit (k\<lparr>kd_waiting := kd_waiting k + 1\<rparr>)"
| full: "kdf_pending_limit \<le> pending_permits k \<Longrightarrow> kdf_step k Saturated k"
| start: "0 < kd_waiting k \<Longrightarrow> slot_permits k < kdf_permits \<Longrightarrow>
    kdf_step k Start (k\<lparr>kd_waiting := kd_waiting k - 1, kd_running := kd_running k + 1\<rparr>)"
| finish: "0 < kd_running k \<Longrightarrow> kdf_step k Finish (k\<lparr>kd_running := kd_running k - 1\<rparr>)"
| drop_waiting: "0 < kd_waiting k \<Longrightarrow> kdf_step k DropWaiting (k\<lparr>kd_waiting := kd_waiting k - 1\<rparr>)"
| drop_running: "0 < kd_running k \<Longrightarrow>
    kdf_step k DropRunning (k\<lparr>kd_running := kd_running k - 1, kd_detached := kd_detached k + 1\<rparr>)"
| finish_detached: "0 < kd_detached k \<Longrightarrow> kdf_step k FinishDetached (k\<lparr>kd_detached := kd_detached k - 1\<rparr>)"

inductive_cases kdf_stepE: "kdf_step k e k'"

inductive kdf_run :: "kdf_state \<Rightarrow> kdf_event list \<Rightarrow> kdf_state \<Rightarrow> bool" where
  idle: "kdf_run k [] k"
| step: "kdf_step k e k' \<Longrightarrow> kdf_run k' es k'' \<Longrightarrow> kdf_run k (e # es) k''"

text \<open>Password hashes that are being computed.\<close>

definition kdf_active :: "kdf_state \<Rightarrow> nat" where
  "kdf_active k = kd_running k + kd_detached k"

definition kdf_inv :: "kdf_state \<Rightarrow> bool" where
  "kdf_inv k \<longleftrightarrow> pending_permits k \<le> kdf_pending_limit \<and> slot_permits k \<le> kdf_permits"

lemmas kdf_defs = kdf_inv_def pending_permits_def slot_permits_def kdf_permits_def kdf_pending_limit_def kdf_idle_def kdf_active_def

interpretation kdf: step_system "\<lambda>k. k = kdf_idle" kdf_step kdf_inv
  by unfold_locales (auto simp: kdf_defs elim!: kdf_stepE)

lemma kdf_run_inv: "kdf_run k es k' \<Longrightarrow> kdf_inv k \<Longrightarrow> kdf_inv k'"
  by (induction rule: kdf_run.induct) (auto intro: kdf.inv_step)

text \<open>Between them, a call that was dropped while its work ran accounts for every detached computation.\<close>

lemma kdf_run_detached: "kdf_run k es k' \<Longrightarrow> kd_detached k' \<le> kd_detached k + count_list es DropRunning"
  by (induction rule: kdf_run.induct) (auto elim!: kdf_stepE)

text \<open>
  The semaphores keep their numbers over every interleaving: at most 32 calls hold a pending permit and at most two
  a slot, so at most two computations run plus one for every call that was dropped in the middle; as long as
  calls are not dropped, that is the bound of two. The queue does not lock up: with a call waiting or work running, some call can
  make progress.
\<close>

theorem kdf_bounds:
  assumes "kdf_run kdf_idle es k"
  shows "pending_permits k \<le> 32 \<and> slot_permits k \<le> 2 \<and> kdf_active k \<le> 2 + count_list es DropRunning
    \<and> (0 < pending_permits k \<longrightarrow> (\<exists>e k'. e \<in> {Start, Finish} \<and> kdf_step k e k'))"
proof -
  have "kdf_inv k" by (rule kdf_run_inv[OF assms kdf.inv_init[OF refl]])
  moreover have "\<exists>e k'. e \<in> {Start, Finish} \<and> kdf_step k e k'" if "0 < pending_permits k"
  proof (cases "0 < kd_running k")
    case True
    from kdf_step.finish[OF this] show ?thesis by blast
  next
    case False
    then have "0 < kd_waiting k" "slot_permits k < kdf_permits" using that by (auto simp: kdf_defs)
    from kdf_step.start[OF this] show ?thesis by blast
  qed
  ultimately show ?thesis using kdf_run_detached[OF assms] by (simp add: kdf_defs)
qed

definition drop_cycle :: "kdf_event list" where
  "drop_cycle = [Admit, Start, DropRunning]"

lemma drop_cycle_run:
  "kdf_run \<lparr>kd_waiting = 0, kd_running = 0, kd_detached = d\<rparr> drop_cycle \<lparr>kd_waiting = 0, kd_running = 0, kd_detached = Suc d\<rparr>"
proof -
  let ?k = "\<lambda>w r d. \<lparr>kd_waiting = w, kd_running = r, kd_detached = d\<rparr>"
  have "kdf_step (?k 0 0 d) Admit (?k 1 0 d)" using admit[of "?k 0 0 d"] by (simp add: kdf_defs)
  moreover have "kdf_step (?k 1 0 d) Start (?k 0 1 d)" using start[of "?k 1 0 d"] by (simp add: kdf_defs)
  moreover have "kdf_step (?k 0 1 d) DropRunning (?k 0 0 (Suc d))" using drop_running[of "?k 0 1 d"] by simp
  ultimately show ?thesis unfolding drop_cycle_def by (blast intro: kdf_run.intros)
qed

lemma kdf_run_append: "kdf_run k as k' \<Longrightarrow> kdf_run k' bs k'' \<Longrightarrow> kdf_run k (as @ bs) k''"
  by (induction rule: kdf_run.induct) (auto intro: kdf_run.intros)

lemma drop_cycles_run:
  "kdf_run kdf_idle (concat (replicate n drop_cycle)) \<lparr>kd_waiting = 0, kd_running = 0, kd_detached = n\<rparr>"
proof (induction n)
  case (Suc n)
  have "concat (replicate (Suc n) drop_cycle) = concat (replicate n drop_cycle) @ drop_cycle"
    by (simp add: replicate_append_same flip: concat_append) (metis concat.simps concat_append append_Nil2 replicate_append_same)
  then show ?case using kdf_run_append[OF Suc drop_cycle_run] by simp
qed (auto simp: kdf_idle_def intro: kdf_run.idle)

theorem kdf_bounds_witness:
  "pending_permits \<lparr>kd_waiting = 0, kd_running = 0, kd_detached = 3\<rparr> \<le> 32
   \<and> kdf_active \<lparr>kd_waiting = 0, kd_running = 0, kd_detached = 3\<rparr> \<le> 5"
  using kdf_bounds[OF drop_cycles_run[of 3]] by (simp add: drop_cycle_def numeral_3_eq_3)


end
