(* ===== verification/PageCore.thy ===== *)
theory PageCore
  imports Paths Json Text
begin

text \<open>
  The page vocabulary of the core crate: page paths (\<^verbatim>\<open>PagePath::new\<close>, \<^verbatim>\<open>ensure_portable\<close>) and the Open
  Knowledge Format frontmatter (\<^verbatim>\<open>okf.rs\<close>). The timestamp grammar of \<^verbatim>\<open>jiff\<close> and the version string of the
  build are parameters (\<open>okf_env\<close>). Shown: an accepted path stays below the wiki root, and conforming is a
  fixed point that keeps what the author wrote.
\<close>

section \<open>Page paths\<close>

datatype path_fault =
    EmptyPath | LeadingSlash | DrivePrefix | BackslashSeparator | DotSegment | InvalidSegment
  | ComponentTooLong | WindowsReserved uchar | ControlCharacter uchar | TrailingDotOrSpace
  | DeviceName ustr | GitReserved

abbreviation dot :: uchar where
  "dot \<equiv> 46"

text \<open>
  The components of a relative path on a Unix host, as \<^verbatim>\<open>std::path::Path::components\<close> yields them: empty
  segments and every \<open>.\<close> but a leading one are skipped, so a \<^verbatim>\<open>CurDir\<close> can only come first.
\<close>

definition has_dot_component :: "ustr \<Rightarrow> bool" where
  "has_dot_component raw \<longleftrightarrow>
     hd (split_all slash raw) = [dot] \<or> list_ex (\<lambda>seg. seg = [dot, dot]) (split_all slash raw)"

definition page_path_new :: "ustr \<Rightarrow> path_fault + ustr" where
  "page_path_new raw =
     (if raw = [] then Inl EmptyPath
      else if prefix [slash] raw then Inl LeadingSlash
      else if (let bytes = utf8_bytes raw in
               3 \<le> length bytes \<and> bytes ! 1 = 58 \<and> bytes ! 2 = slash \<and> is_ascii_alphabetic (bytes ! 0))
      then Inl DrivePrefix
      else if backslash \<in> set raw then Inl BackslashSeparator
      else if has_dot_component raw then Inl DotSegment
      else if list_ex (\<lambda>seg. seg = [] \<or> seg = [dot] \<or> seg = [dot, dot]) (split_all slash raw)
      then Inl InvalidSegment
      else Inr raw)"

definition dos_device_names :: "ustr list" where
  "dos_device_names =
     [lit ''con'', lit ''prn'', lit ''aux'', lit ''nul''] @
     map (\<lambda>d. lit ''com'' @ [d]) ([49..<58] @ [0xB9, 0xB2, 0xB3]) @
     map (\<lambda>d. lit ''lpt'' @ [d]) ([49..<58] @ [0xB9, 0xB2, 0xB3])"

definition is_dos_device_name :: "ustr \<Rightarrow> bool" where
  "is_dos_device_name stem \<longleftrightarrow>
     map to_ascii_lower (trim_end_matches (\<lambda>c. c = 32) stem) \<in> set dos_device_names"

definition windows_reserved_chars :: "uchar list" where
  "windows_reserved_chars = lit ''<>:'' @ [34] @ lit ''|?*''"

definition max_portable_component_bytes :: nat where
  "max_portable_component_bytes = 255"

definition is_git_reserved_component :: "ustr \<Rightarrow> bool" where
  "is_git_reserved_component component \<longleftrightarrow>
     (let b = utf8_bytes component in
      map to_ascii_lower component = lit ''.git''
      \<or> (length b = 5 \<and> map to_ascii_lower (take 4 b) = lit ''git~'' \<and> 49 \<le> b ! 4 \<and> b ! 4 \<le> 52))"

definition ensure_portable_component :: "ustr \<Rightarrow> path_fault + unit" where
  "ensure_portable_component component =
     (if byte_len component > max_portable_component_bytes then Inl ComponentTooLong
      else case find (\<lambda>c. c \<in> set windows_reserved_chars) component of Some bad \<Rightarrow> Inl (WindowsReserved bad)
      | None \<Rightarrow>
        (case find (\<lambda>c. c < 0x20) component of Some bad \<Rightarrow> Inl (ControlCharacter bad)
         | None \<Rightarrow>
           if suffix [dot] component \<or> suffix [32] component then Inl TrailingDotOrSpace
           else let stem = hd (split_all dot component) in
             if is_dos_device_name stem then Inl (DeviceName stem)
             else if is_git_reserved_component component then Inl GitReserved
             else Inr ()))"

text \<open>The loop over the components stops at the first refusal.\<close>

fun ensure_each_portable :: "ustr list \<Rightarrow> path_fault + unit" where
  "ensure_each_portable [] = Inr ()"
| "ensure_each_portable (c # cs) = and_then (ensure_portable_component c) (\<lambda>_. ensure_each_portable cs)"

definition ensure_portable :: "ustr \<Rightarrow> path_fault + unit" where
  "ensure_portable path = ensure_each_portable (split_all slash path)"

section \<open>Open Knowledge Format frontmatter\<close>

text \<open>
  \<open>parse_timestamp\<close> is \<^verbatim>\<open>parse::<jiff::Timestamp>\<close>, \<open>parse_date_end\<close> the last microsecond of the UTC day a
  \<^verbatim>\<open>YYYY-MM-DD\<close> names, \<open>timestamp_text\<close> the \<^verbatim>\<open>Display\<close> of a timestamp, \<open>second_text\<close> its
  \<^verbatim>\<open>strftime\<close> rendering to the second, \<open>pkg_version\<close> the crate version.
\<close>

record okf_env =
  parse_timestamp :: "ustr \<Rightarrow> int option"
  parse_date_end :: "ustr \<Rightarrow> int option"
  timestamp_text :: "int \<Rightarrow> ustr"
  second_text :: "int \<Rightarrow> ustr"
  pkg_version :: ustr

definition parse_expires_at_instant :: "okf_env \<Rightarrow> ustr \<Rightarrow> int option" where
  "parse_expires_at_instant env raw =
     (let raw = trim raw in
      case parse_timestamp env raw of Some ts \<Rightarrow> Some ts | None \<Rightarrow> parse_date_end env raw)"

definition process_actor :: "okf_env \<Rightarrow> ustr" where
  "process_actor env = lit ''process:ai-memory/'' @ pkg_version env"

definition kind_type :: "ustr \<Rightarrow> ustr option" where
  "kind_type kind =
     (if kind = lit ''fact'' then Some (lit ''Fact'')
      else if kind = lit ''note'' then Some (lit ''Note'')
      else if kind = lit ''procedure'' then Some (lit ''Procedure'')
      else if kind = lit ''decision'' then Some (lit ''Decision'')
      else None)"

definition slot_type :: "ustr \<Rightarrow> ustr option" where
  "slot_type slot =
     (if slot = lit ''invariant'' then Some (lit ''Invariant'')
      else if slot = lit ''state'' then Some (lit ''State'')
      else None)"

definition family_types :: "(ustr \<times> ustr) list" where
  "family_types =
     [(lit ''sessions'', lit ''Session Summary''), (lit ''_rules'', lit ''Rule''), (lit ''gotchas'', lit ''Gotcha''),
      (lit ''decisions'', lit ''Decision''), (lit ''procedures'', lit ''Procedure''), (lit ''concepts'', lit ''Concept''),
      (lit ''notes'', lit ''Note''), (lit ''runbooks'', lit ''Runbook''), (lit ''_slots'', lit ''State''),
      (lit ''_lint'', lit ''Lint Report''), (lit ''_pending'', lit ''Pending Note'')]"

definition derive_type :: "ustr \<Rightarrow> json \<Rightarrow> ustr" where
  "derive_type path frontmatter =
     (case Option.bind (Option.bind (json_get frontmatter (lit ''kind'')) json_as_str) kind_type of
        Some t \<Rightarrow> t
      | None \<Rightarrow>
        (case Option.bind (Option.bind (json_get frontmatter (lit ''slot_kind'')) json_as_str) slot_type of
           Some t \<Rightarrow> t
         | None \<Rightarrow> (case map_of family_types (hd (split_all slash path)) of Some t \<Rightarrow> t | None \<Rightarrow> lit ''Note'')))"

definition repair_date_only_stale_after_in :: "okf_env \<Rightarrow> json_map \<Rightarrow> json_map \<times> bool" where
  "repair_date_only_stale_after_in env m =
     (case (map_of m (lit ''stale_after''), map_of m (lit ''expires_at'')) of
        (Some (JStr stale), Some (JStr expires)) \<Rightarrow>
          if stale \<noteq> expires \<or> parse_timestamp env (trim stale) \<noteq> None then (m, False)
          else (case parse_expires_at_instant env expires of
                  None \<Rightarrow> (m, False)
                | Some instant \<Rightarrow> (map_insert (lit ''stale_after'') (JStr (timestamp_text env instant)) m, True))
      | _ \<Rightarrow> (m, False))"

text \<open>The five blocks of \<^verbatim>\<open>conform_frontmatter\<close>, in order, each on the object the previous one left.\<close>

definition fill_type :: "ustr \<Rightarrow> json_map \<Rightarrow> json_map" where
  "fill_type derived m =
     (case map_str m (lit ''type'') of
        Some t \<Rightarrow> if trim t = [] then map_insert (lit ''type'') (JStr derived) m else m
      | None \<Rightarrow> map_insert (lit ''type'') (JStr derived) m)"

definition fill_description :: "json_map \<Rightarrow> json_map" where
  "fill_description m =
     (if contains_key m (lit ''description'') then m
      else case map_str m (lit ''summary'') of
        Some summary \<Rightarrow> if trim summary = [] then m else map_insert (lit ''description'') (JStr summary) m
      | None \<Rightarrow> m)"

definition fill_stale_after :: "okf_env \<Rightarrow> json_map \<Rightarrow> json_map" where
  "fill_stale_after env m =
     (if contains_key m (lit ''stale_after'') then m
      else case map_str m (lit ''expires_at'') of
        None \<Rightarrow> m
      | Some expires \<Rightarrow>
          (case parse_expires_at_instant env expires of
             None \<Rightarrow> m
           | Some instant \<Rightarrow>
               map_insert (lit ''stale_after'')
                 (JStr (if parse_timestamp env (trim expires) \<noteq> None then expires else timestamp_text env instant)) m))"

definition session_source :: "json_map \<Rightarrow> ustr \<Rightarrow> json_map" where
  "session_source m session =
     (let entry = [(lit ''resource'', JStr (lit ''ai-memory://session/'' @ session))] in
      case map_str m (lit ''agent'') of
        Some agent \<Rightarrow> map_insert (lit ''author'') (JStr (lit ''process:'' @ agent)) entry
      | None \<Rightarrow> entry)"

definition fill_sources :: "json_map \<Rightarrow> json_map" where
  "fill_sources m =
     (if contains_key m (lit ''sources'') then m
      else case map_str m (lit ''session_id'') of
        Some session \<Rightarrow> map_insert (lit ''sources'') (JArr [JObj (session_source m session)]) m
      | None \<Rightarrow> m)"

definition fill_generated_by :: "okf_env \<Rightarrow> json_map \<Rightarrow> json_map" where
  "fill_generated_by env m =
     (let by_actor = (case map_str m (lit ''generated_by_model'') of Some model \<Rightarrow> model | None \<Rightarrow> process_actor env) in
      case map_of m (lit ''generated'') of
        Some (JObj generated) \<Rightarrow>
          (if contains_key generated (lit ''by'') then m
           else map_insert (lit ''generated'') (JObj (map_insert (lit ''by'') (JStr by_actor) generated)) m)
      | _ \<Rightarrow> map_insert (lit ''generated'') (JObj [(lit ''by'', JStr by_actor)]) m)"

definition object_of :: "json \<Rightarrow> json_map" where
  "object_of v = (case v of JObj m \<Rightarrow> m | _ \<Rightarrow> [])"

definition conform_frontmatter :: "okf_env \<Rightarrow> ustr \<Rightarrow> json \<Rightarrow> json" where
  "conform_frontmatter env path frontmatter =
     (let m = object_of frontmatter;
          m = fill_type (derive_type path (JObj m)) m;
          m = fill_description m;
          m = fill_stale_after env m;
          m = fst (repair_date_only_stale_after_in env m);
          m = fill_sources m
      in JObj (fill_generated_by env m))"

definition repair_date_only_stale_after :: "okf_env \<Rightarrow> json \<Rightarrow> json \<times> bool" where
  "repair_date_only_stale_after env frontmatter =
     (case frontmatter of
        JObj m \<Rightarrow> (let (m', changed) = repair_date_only_stale_after_in env m in (JObj m', changed))
      | _ \<Rightarrow> (frontmatter, False))"

text \<open>An update in place of \<^verbatim>\<open>generated\<close>, when it is an object.\<close>

definition on_generated :: "(json_map \<Rightarrow> json_map) \<Rightarrow> json \<Rightarrow> json" where
  "on_generated f v =
     (case v of
        JObj m \<Rightarrow>
          (case map_of m (lit ''generated'') of
             Some (JObj g) \<Rightarrow> JObj (map_insert (lit ''generated'') (JObj (f g)) m)
           | _ \<Rightarrow> v)
      | _ \<Rightarrow> v)"

definition strip_generated_at :: "json \<Rightarrow> json" where
  "strip_generated_at = on_generated (map_remove (lit ''at''))"

definition stamp_generated_at :: "ustr \<Rightarrow> json \<Rightarrow> json" where
  "stamp_generated_at at_text = on_generated (map_insert (lit ''at'') (JStr at_text))"

definition generated_at :: "json \<Rightarrow> ustr option" where
  "generated_at frontmatter =
     Option.bind (json_get frontmatter (lit ''generated'')) (\<lambda>g. Option.bind (json_get g (lit ''at'')) json_as_str)"

definition is_conformant :: "json \<Rightarrow> bool" where
  "is_conformant frontmatter =
     (case Option.bind (json_get frontmatter (lit ''type'')) json_as_str of Some t \<Rightarrow> trim t \<noteq> [] | None \<Rightarrow> False)"

section \<open>Conforming is a fixed point\<close>

text \<open>Each block leaves the object alone or inserts its own key.\<close>

lemma fill_type_cases: "fill_type d m = m \<or> (\<exists>v. fill_type d m = map_insert (lit ''type'') v m)"
  by (auto simp: fill_type_def split: option.splits)

lemma fill_description_cases: "fill_description m = m \<or> (\<exists>v. fill_description m = map_insert (lit ''description'') v m)"
  by (auto simp: fill_description_def split: option.splits)

lemma fill_stale_after_cases: "fill_stale_after env m = m \<or> (\<exists>v. fill_stale_after env m = map_insert (lit ''stale_after'') v m)"
  by (auto simp: fill_stale_after_def split: option.splits)

lemma repair_cases:
  "fst (repair_date_only_stale_after_in env m) = m
   \<or> (contains_key m (lit ''stale_after'') \<and> (\<exists>v. fst (repair_date_only_stale_after_in env m) = map_insert (lit ''stale_after'') v m))"
  by (auto simp: repair_date_only_stale_after_in_def contains_key_iff split: option.splits json.splits)

lemma fill_sources_cases: "fill_sources m = m \<or> (\<exists>v. fill_sources m = map_insert (lit ''sources'') v m)"
  by (auto simp: fill_sources_def split: option.splits)

lemma fill_generated_cases: "fill_generated_by env m = m \<or> (\<exists>v. fill_generated_by env m = map_insert (lit ''generated'') v m)"
  by (auto simp: fill_generated_by_def Let_def split: option.splits json.splits)

lemma map_of_fill:
  "j \<noteq> lit ''type'' \<Longrightarrow> map_of (fill_type d m) j = map_of m j"
  "j \<noteq> lit ''description'' \<Longrightarrow> map_of (fill_description m) j = map_of m j"
  "j \<noteq> lit ''stale_after'' \<Longrightarrow> map_of (fill_stale_after env m) j = map_of m j"
  "j \<noteq> lit ''stale_after'' \<Longrightarrow> map_of (fst (repair_date_only_stale_after_in env m)) j = map_of m j"
  "j \<noteq> lit ''sources'' \<Longrightarrow> map_of (fill_sources m) j = map_of m j"
  "j \<noteq> lit ''generated'' \<Longrightarrow> map_of (fill_generated_by env m) j = map_of m j"
  using fill_type_cases[of d m] fill_description_cases[of m] fill_stale_after_cases[of env m] repair_cases[of env m]
    fill_sources_cases[of m] fill_generated_cases[of env m]
  by (auto simp: map_of_insert)

lemma distinct_fill:
  assumes "distinct (map fst m)"
  shows "distinct (map fst (fill_type d m))" "distinct (map fst (fill_description m))"
    "distinct (map fst (fill_stale_after env m))" "distinct (map fst (fst (repair_date_only_stale_after_in env m)))"
    "distinct (map fst (fill_sources m))" "distinct (map fst (fill_generated_by env m))"
  using fill_type_cases[of d m] fill_description_cases[of m] fill_stale_after_cases[of env m] repair_cases[of env m]
    fill_sources_cases[of m] fill_generated_cases[of env m] distinct_map_insert[OF assms] assms
  by metis+

lemma derive_type_nonblank: "trim (derive_type path fm) \<noteq> []"
proof -
  have "trim t \<noteq> []" if "kind_type k = Some t" for k t
    using that by (auto simp: kind_type_def lit_def trim_eq_Nil_iff is_whitespace_def split: if_splits)
  moreover have "trim t \<noteq> []" if "slot_type k = Some t" for k t
    using that by (auto simp: slot_type_def lit_def trim_eq_Nil_iff is_whitespace_def split: if_splits)
  moreover have "trim t \<noteq> []" if "map_of family_types f = Some t" for f t
    using map_of_SomeD[OF that] by (auto simp: family_types_def lit_def trim_eq_Nil_iff is_whitespace_def)
  moreover have "trim (lit ''Note'') \<noteq> []" by (simp add: lit_def trim_eq_Nil_iff is_whitespace_def)
  ultimately show ?thesis
    unfolding derive_type_def by (auto simp: bind_eq_Some_conv split: option.split)
qed

text \<open>What makes each block leave an object alone; all but the repair depend on lookups only.\<close>

definition typed :: "json_map \<Rightarrow> bool" where
  "typed m \<longleftrightarrow> (\<exists>t. map_str m (lit ''type'') = Some t \<and> trim t \<noteq> [])"

lemma typed_fixed: "typed m \<Longrightarrow> fill_type d m = m"
  by (auto simp: typed_def fill_type_def)

lemma fill_type_typed: "trim d \<noteq> [] \<Longrightarrow> typed (fill_type d m)"
  by (auto simp: typed_def fill_type_def map_str_insert split: option.splits)

lemma fill_description_idem: "fill_description (fill_description m) = fill_description m"
  by (auto simp: fill_description_def map_str_insert split: option.splits)

lemma fill_stale_after_idem: "fill_stale_after env (fill_stale_after env m) = fill_stale_after env m"
  by (auto simp: fill_stale_after_def map_str_insert split: option.splits)

lemma fill_sources_idem: "fill_sources (fill_sources m) = fill_sources m"
  by (auto simp: fill_sources_def map_str_insert split: option.splits)

lemma fill_generated_idem: "fill_generated_by env (fill_generated_by env m) = fill_generated_by env m"
proof -
  have c: "contains_key [(lit ''by'', v)] (lit ''by'')" for v :: json by (simp add: contains_key_def)
  show ?thesis
    by (auto simp: fill_generated_by_def Let_def map_of_insert c split: option.splits json.splits)
qed

lemma repair_idem:
  "fst (repair_date_only_stale_after_in env (fst (repair_date_only_stale_after_in env m)))
   = fst (repair_date_only_stale_after_in env m)"
  by (auto simp: repair_date_only_stale_after_in_def map_of_insert split: option.splits json.splits)

text \<open>A block that is done stays done when another block inserts its own key.\<close>

lemma lookups_determine:
  "fill_description m = m \<Longrightarrow> j \<notin> {lit ''description'', lit ''summary''} \<Longrightarrow> fill_description (map_insert j v m) = map_insert j v m"
  "fill_stale_after env m = m \<Longrightarrow> j \<notin> {lit ''stale_after'', lit ''expires_at''} \<Longrightarrow>
     fill_stale_after env (map_insert j v m) = map_insert j v m"
  "fill_sources m = m \<Longrightarrow> j \<notin> {lit ''sources'', lit ''session_id''} \<Longrightarrow> fill_sources (map_insert j v m) = map_insert j v m"
proof -
  have grow: "map_insert k w m \<noteq> m" if "\<not> contains_key m k" for k w
    using that by (simp add: map_insert_def)
  show "fill_description m = m \<Longrightarrow> j \<notin> {lit ''description'', lit ''summary''} \<Longrightarrow> fill_description (map_insert j v m) = map_insert j v m"
    using grow by (fastforce simp: fill_description_def map_str_insert split: option.splits if_splits)
  show "fill_stale_after env m = m \<Longrightarrow> j \<notin> {lit ''stale_after'', lit ''expires_at''} \<Longrightarrow>
     fill_stale_after env (map_insert j v m) = map_insert j v m"
    using grow by (fastforce simp: fill_stale_after_def map_str_insert split: option.splits if_splits)
  show "fill_sources m = m \<Longrightarrow> j \<notin> {lit ''sources'', lit ''session_id''} \<Longrightarrow> fill_sources (map_insert j v m) = map_insert j v m"
    using grow by (fastforce simp: fill_sources_def map_str_insert split: option.splits if_splits)
qed

lemma stale_present_fixed: "contains_key m (lit ''stale_after'') \<Longrightarrow> fill_stale_after env m = m"
  by (simp add: fill_stale_after_def)

lemma repair_insert:
  assumes "j \<noteq> lit ''stale_after''" "j \<noteq> lit ''expires_at''"
  shows "fst (repair_date_only_stale_after_in env (map_insert j v m))
       = map_insert j v (fst (repair_date_only_stale_after_in env m))"
proof -
  have c: "contains_key m (lit ''stale_after'')" if "map_of m (lit ''stale_after'') = Some x" for x
    using that by (simp add: contains_key_iff)
  have "map_insert (lit ''stale_after'') w (map_insert j v m) = map_insert j v (map_insert (lit ''stale_after'') w m)"
    if "map_of m (lit ''stale_after'') = Some x" for w x
    using map_insert_commute[OF c[OF that] assms(1)] .
  then show ?thesis
    using assms by (auto simp: repair_date_only_stale_after_in_def map_of_insert split: option.splits json.splits)
qed

text \<open>The steps on the object; each is a fixed point of its own block and keeps those of the blocks before it.\<close>

definition conform_map :: "okf_env \<Rightarrow> ustr \<Rightarrow> json_map \<Rightarrow> json_map" where
  "conform_map env d m =
     fill_generated_by env (fill_sources (fst (repair_date_only_stale_after_in env
       (fill_stale_after env (fill_description (fill_type d m))))))"

lemma conform_frontmatter_map:
  "conform_frontmatter env path fm = JObj (conform_map env (derive_type path (JObj (object_of fm))) (object_of fm))"
  by (simp add: conform_frontmatter_def conform_map_def Let_def)

lemma conform_map_of:
  "j \<notin> {lit ''type'', lit ''description'', lit ''stale_after'', lit ''sources'', lit ''generated''} \<Longrightarrow>
   map_of (conform_map env d m) j = map_of m j"
  by (simp add: conform_map_def map_of_fill)

lemma conform_map_type: "map_str (conform_map env d m) (lit ''type'') = map_str (fill_type d m) (lit ''type'')"
  by (simp add: conform_map_def map_str_def map_of_fill)

text \<open>An object every block leaves alone.\<close>

definition settled :: "okf_env \<Rightarrow> json_map \<Rightarrow> bool" where
  "settled env m \<longleftrightarrow>
     typed m \<and> fill_description m = m \<and> fill_stale_after env m = m \<and> fst (repair_date_only_stale_after_in env m) = m
     \<and> fill_sources m = m \<and> fill_generated_by env m = m"

lemma settled_fixed: "settled env m \<Longrightarrow> conform_map env e m = m"
  by (simp add: settled_def conform_map_def typed_fixed)

lemma conform_map_settled:
  assumes "trim d \<noteq> []"
  shows "settled env (conform_map env d m)"
proof -
  define m1 where "m1 = fill_type d m"
  define m2 where "m2 = fill_description m1"
  define m3 where "m3 = fill_stale_after env m2"
  define m4 where "m4 = fst (repair_date_only_stale_after_in env m3)"
  define m5 where "m5 = fill_sources m4"
  define m6 where "m6 = fill_generated_by env m5"
  have r: "conform_map env d m = m6" by (simp add: conform_map_def m1_def m2_def m3_def m4_def m5_def m6_def)
  have A: "typed m6"
    using fill_type_typed[OF assms, of m] conform_map_type[of env d m] unfolding typed_def r by simp
  note c2 = fill_description_cases[of m1, folded m2_def] and c3 = fill_stale_after_cases[of env m2, folded m3_def]
    and c4 = repair_cases[of env m3, folded m4_def] and c5 = fill_sources_cases[of m4, folded m5_def]
    and c6 = fill_generated_cases[of env m5, folded m6_def]
  have B2: "fill_description m2 = m2" unfolding m2_def by (rule fill_description_idem)
  have B3: "fill_description m3 = m3" using c3 B2 lookups_determine(1)[of m2 "lit ''stale_after''"] by auto
  have B4: "fill_description m4 = m4" using c4 B3 lookups_determine(1)[of m3 "lit ''stale_after''"] by auto
  have B5: "fill_description m5 = m5" using c5 B4 lookups_determine(1)[of m4 "lit ''sources''"] by auto
  have B: "fill_description m6 = m6" using c6 B5 lookups_determine(1)[of m5 "lit ''generated''"] by auto
  have C3: "fill_stale_after env m3 = m3" unfolding m3_def by (rule fill_stale_after_idem)
  have C4: "fill_stale_after env m4 = m4" using c4 C3 stale_present_fixed[of m4 env] by auto
  have C5: "fill_stale_after env m5 = m5" using c5 C4 lookups_determine(2)[of env m4 "lit ''sources''"] by auto
  have C: "fill_stale_after env m6 = m6" using c6 C5 lookups_determine(2)[of env m5 "lit ''generated''"] by auto
  have D4: "fst (repair_date_only_stale_after_in env m4) = m4" unfolding m4_def by (rule repair_idem)
  have D5: "fst (repair_date_only_stale_after_in env m5) = m5" using c5 D4 repair_insert[of "lit ''sources''" env _ m4] by auto
  have D: "fst (repair_date_only_stale_after_in env m6) = m6" using c6 D5 repair_insert[of "lit ''generated''" env _ m5] by auto
  have E5: "fill_sources m5 = m5" unfolding m5_def by (rule fill_sources_idem)
  have E: "fill_sources m6 = m6" using c6 E5 lookups_determine(3)[of m5 "lit ''generated''"] by auto
  have F: "fill_generated_by env m6 = m6" unfolding m6_def by (rule fill_generated_idem)
  show ?thesis unfolding r settled_def using A B C D E F by blast
qed

lemma settled_stamp:
  assumes "settled env m" "map_of m (lit ''generated'') = Some (JObj g)"
  shows "settled env (map_insert (lit ''generated'') (JObj (map_insert (lit ''at'') v g)) m)"
proof -
  let ?g = "lit ''generated''"
  have grow: "map_insert ?g w m = m \<Longrightarrow> contains_key g (lit ''by'') \<or> w \<noteq> JObj (map_insert (lit ''by'') x g)" for w x
  proof (rule ccontr)
    assume a: "map_insert ?g w m = m" "\<not> (contains_key g (lit ''by'') \<or> w \<noteq> JObj (map_insert (lit ''by'') x g))"
    then have "map_of (map_insert ?g w m) ?g = Some (JObj g)" using assms(2) by simp
    then have "map_insert (lit ''by'') x g = g" using a(2) by (simp add: map_of_insert)
    then show False using a(2) by (simp add: map_insert_def)
  qed
  have by_key: "contains_key g (lit ''by'')"
    using assms grow unfolding settled_def fill_generated_by_def Let_def by (auto split: if_splits)
  note s = assms(1)[unfolded settled_def]
  have "typed (map_insert ?g w m)" for w using s by (simp add: typed_def map_str_insert)
  moreover have "fill_generated_by env (map_insert ?g (JObj (map_insert (lit ''at'') v g)) m)
      = map_insert ?g (JObj (map_insert (lit ''at'') v g)) m"
    using by_key by (simp add: fill_generated_by_def Let_def map_of_insert)
  ultimately show ?thesis
    using s lookups_determine(1)[of m ?g] lookups_determine(2)[of env m ?g] lookups_determine(3)[of m ?g] repair_insert[of ?g env _ m] by (simp add: settled_def)
qed

lemma conform_object [simp]: "object_of (conform_frontmatter env path fm) = conform_map env (derive_type path (JObj (object_of fm))) (object_of fm)"
  by (simp add: conform_frontmatter_map object_of_def)

lemma conform_idem: "conform_frontmatter env path (conform_frontmatter env path fm) = conform_frontmatter env path fm"
proof -
  have "conform_frontmatter env path (conform_frontmatter env path fm)
      = JObj (conform_map env (derive_type path (JObj (object_of (conform_frontmatter env path fm))))
          (conform_map env (derive_type path (JObj (object_of fm))) (object_of fm)))"
    by (subst conform_frontmatter_map) simp
  also have "\<dots> = conform_frontmatter env path fm"
    unfolding settled_fixed[OF conform_map_settled[OF derive_type_nonblank]] by (simp add: conform_frontmatter_map)
  finally show ?thesis .
qed

lemma conform_conformant: "is_conformant (conform_frontmatter env path fm)"
proof -
  have "typed (conform_map env (derive_type path (JObj (object_of fm))) (object_of fm))"
    using fill_type_typed[OF derive_type_nonblank] conform_map_type unfolding typed_def by metis
  then show ?thesis by (auto simp: is_conformant_def conform_frontmatter_map json_get_case typed_def map_str_def)
qed

lemma conform_generated:
  "\<exists>g. json_get (conform_frontmatter env path fm) (lit ''generated'') = Some (JObj g) \<and> contains_key g (lit ''by'')"
proof -
  have "\<exists>g. map_of (fill_generated_by env m) (lit ''generated'') = Some (JObj g) \<and> contains_key g (lit ''by'')" for m
  proof -
    have c: "contains_key [(lit ''by'', v)] (lit ''by'')" for v :: json by (simp add: contains_key_def)
    show ?thesis by (auto simp: fill_generated_by_def Let_def map_of_insert c split: option.splits json.splits)
  qed
  then show ?thesis by (simp add: conform_frontmatter_map conform_map_def json_get_case)
qed

section \<open>Well-formed values and the version stamp\<close>

lemma json_ok_object: "json_ok v \<Longrightarrow> json_ok (JObj (object_of v))"
  by (cases v) (auto simp: object_of_def)

lemma json_ok_session_source: "json_ok (JObj (session_source m x))"
  by (auto simp: session_source_def Let_def simp del: json_ok.simps(2) split: option.splits intro!: json_ok_insert)
    (simp_all add: list_all_iff)

lemma json_ok_fill:
  assumes "json_ok (JObj m)"
  shows "json_ok (JObj (fill_type d m))" "json_ok (JObj (fill_description m))"
    "json_ok (JObj (fill_stale_after env m))" "json_ok (JObj (fst (repair_date_only_stale_after_in env m)))"
    "json_ok (JObj (fill_sources m))" "json_ok (JObj (fill_generated_by env m))"
proof -
  note ins = json_ok_insert[OF assms]
  have str: "json_ok (JStr x)" for x by simp
  show "json_ok (JObj (fill_type d m))"
    unfolding fill_type_def by (auto simp: assms intro: ins[OF str] simp del: json_ok.simps(2) split: option.split)
  show "json_ok (JObj (fill_description m))"
    unfolding fill_description_def by (auto simp: assms intro: ins[OF str] simp del: json_ok.simps(2) split: option.split)
  show "json_ok (JObj (fill_stale_after env m))"
    unfolding fill_stale_after_def by (auto simp: assms intro: ins[OF str] simp del: json_ok.simps(2) split: option.split)
  show "json_ok (JObj (fst (repair_date_only_stale_after_in env m)))"
    unfolding repair_date_only_stale_after_in_def
    by (auto simp: assms intro: ins[OF str] simp del: json_ok.simps(2) split: option.split json.split)
  have "json_ok (JArr [JObj (session_source m x)])" for x
    using json_ok_session_source[of m x] by (simp del: json_ok.simps(2))
  then show "json_ok (JObj (fill_sources m))"
    unfolding fill_sources_def by (auto simp: assms intro: ins simp del: json_ok.simps split: option.split)
  have one: "json_ok (JObj [(k, JStr x)])" for k x by simp
  have g: "json_ok (JObj (map_insert k (JStr x) g))" if "map_of m (lit ''generated'') = Some (JObj g)" for k x g
    by (rule json_ok_insert[OF json_ok_lookup[OF assms that] str])
  show "json_ok (JObj (fill_generated_by env m))"
    unfolding fill_generated_by_def Let_def
    by (auto simp: assms intro: ins[OF one] ins[OF g] simp del: json_ok.simps split: option.split json.split)
qed

lemma json_ok_conform: "json_ok fm \<Longrightarrow> json_ok (conform_frontmatter env path fm)"
  unfolding conform_frontmatter_map conform_map_def by (intro json_ok_fill json_ok_object)

text \<open>Stamping a version does not change what the idempotency check compares.\<close>

lemma on_generated_compose: "on_generated f (on_generated g v) = on_generated (f \<circ> g) v"
  by (auto simp: on_generated_def map_of_insert split: json.splits option.splits)

lemma on_generated_cong:
  assumes "\<And>m. json_get v (lit ''generated'') = Some (JObj m) \<Longrightarrow> f m = g m"
  shows "on_generated f v = on_generated g v"
  using assms by (auto simp: on_generated_def json_get_case split: json.splits option.splits)

lemma strip_stamp:
  assumes "json_ok v"
  shows "strip_generated_at (stamp_generated_at at_text v) = strip_generated_at v"
proof -
  have "distinct (map fst m)" if "json_get v (lit ''generated'') = Some (JObj m)" for m
    using assms that json_ok_lookup[of _ "lit ''generated''" "JObj m"] by (auto simp: json_get_case split: json.splits)
  then show ?thesis
    unfolding strip_generated_at_def stamp_generated_at_def on_generated_compose
    by (intro on_generated_cong) (simp add: map_remove_insert)
qed

lemma generated_at_stamp:
  assumes "json_get v (lit ''generated'') = Some (JObj g)"
  shows "generated_at (stamp_generated_at at_text v) = Some at_text"
  using assms by (auto simp: generated_at_def stamp_generated_at_def on_generated_def json_get_case map_of_insert
      split: json.splits option.splits)

lemma json_ok_on_generated:
  assumes "json_ok v" "\<And>g. json_ok (JObj g) \<Longrightarrow> json_ok (JObj (f g))"
  shows "json_ok (on_generated f v)"
proof (cases v)
  case (JObj m)
  note m = assms(1)[unfolded JObj]
  show ?thesis
    unfolding on_generated_def JObj
    by (auto simp: m intro: json_ok_insert[OF m assms(2)[OF json_ok_lookup[OF m]]] simp del: json_ok.simps split: option.split json.split)
qed (use assms in \<open>auto simp: on_generated_def\<close>)

text \<open>A stamped conformed object is conformed.\<close>

lemma conform_stamp:
  "conform_frontmatter env path (stamp_generated_at at_text (conform_frontmatter env path fm))
   = stamp_generated_at at_text (conform_frontmatter env path fm)"
proof -
  let ?m = "conform_map env (derive_type path (JObj (object_of fm))) (object_of fm)"
  obtain g where g: "map_of ?m (lit ''generated'') = Some (JObj g)"
    using conform_generated[of env path fm] by (auto simp: conform_frontmatter_map)
  have "stamp_generated_at at_text (JObj ?m) = JObj (map_insert (lit ''generated'') (JObj (map_insert (lit ''at'') (JStr at_text) g)) ?m)"
    by (simp add: stamp_generated_at_def on_generated_def g)
  moreover have "settled env (map_insert (lit ''generated'') (JObj (map_insert (lit ''at'') (JStr at_text) g)) ?m)"
    by (rule settled_stamp[OF conform_map_settled[OF derive_type_nonblank] g])
  ultimately show ?thesis unfolding conform_frontmatter_map[of env path fm]
    by (subst conform_frontmatter_map) (simp add: object_of_def settled_fixed)
qed

text \<open>
  C24. Conforming the frontmatter of a page is idempotent, always yields a conformant object (a non-blank
  \<open>type\<close>) with a \<open>generated.by\<close>, changes no key but the five it may derive, and keeps a type, description or
  sources entry the author wrote. Stamping the write time of a version is invisible to the comparison the store
  uses to decide whether anything changed.
\<close>

theorem conform_frontmatter_stable:
  assumes "json_ok fm" "conformed = conform_frontmatter env path fm"
  shows "conform_frontmatter env path conformed = conformed \<and> is_conformant conformed
    \<and> (\<exists>g. json_get conformed (lit ''generated'') = Some (JObj g) \<and> contains_key g (lit ''by''))
    \<and> (\<forall>k. k \<notin> {lit ''type'', lit ''description'', lit ''stale_after'', lit ''sources'', lit ''generated''} \<longrightarrow>
         json_get conformed k = map_of (object_of fm) k)
    \<and> (\<forall>k \<in> {lit ''description'', lit ''sources''}. contains_key (object_of fm) k \<longrightarrow> json_get conformed k = map_of (object_of fm) k)
    \<and> (is_conformant fm \<longrightarrow> json_get conformed (lit ''type'') = json_get fm (lit ''type''))
    \<and> json_eq (strip_generated_at (stamp_generated_at at_text conformed)) (strip_generated_at conformed)
    \<and> generated_at (stamp_generated_at at_text conformed) = Some at_text"
proof (intro conjI)
  let ?m = "object_of fm" and ?d = "derive_type path (JObj (object_of fm))"
  have get: "json_get conformed k = map_of (conform_map env ?d ?m) k" for k
    by (simp add: assms(2) conform_frontmatter_map json_get_case)
  show "conform_frontmatter env path conformed = conformed" "is_conformant conformed"
    by (simp_all add: assms(2) conform_idem conform_conformant)
  show gen: "\<exists>g. json_get conformed (lit ''generated'') = Some (JObj g) \<and> contains_key g (lit ''by'')"
    unfolding assms(2) by (rule conform_generated)
  show "\<forall>k. k \<notin> {lit ''type'', lit ''description'', lit ''stale_after'', lit ''sources'', lit ''generated''} \<longrightarrow>
         json_get conformed k = map_of ?m k"
    unfolding get using conform_map_of by blast
  have "map_of (conform_map env ?d ?m) (lit ''description'') = map_of (fill_description (fill_type ?d ?m)) (lit ''description'')"
    "map_of (conform_map env ?d ?m) (lit ''sources'')
       = map_of (fill_sources (fst (repair_date_only_stale_after_in env (fill_stale_after env (fill_description (fill_type ?d ?m)))))) (lit ''sources'')"
    by (simp_all add: conform_map_def map_of_fill)
  moreover have "map_of (fill_description m) (lit ''description'') = map_of m (lit ''description'')" if "contains_key m (lit ''description'')" for m
    using that by (simp add: fill_description_def)
  moreover have "map_of (fill_sources m) (lit ''sources'') = map_of m (lit ''sources'')" if "contains_key m (lit ''sources'')" for m
    using that by (simp add: fill_sources_def)
  ultimately show "\<forall>k \<in> {lit ''description'', lit ''sources''}. contains_key ?m k \<longrightarrow> json_get conformed k = map_of ?m k"
    unfolding get by (simp add: contains_key_iff map_of_fill del: not_None_eq)
  have "map_of (conform_map env ?d ?m) (lit ''type'') = map_of (fill_type ?d ?m) (lit ''type'')"
    by (simp add: conform_map_def map_of_fill)
  moreover have "fill_type ?d ?m = ?m" if "is_conformant fm"
  proof (rule typed_fixed)
    show "typed ?m" using that
      by (auto simp: is_conformant_def typed_def map_str_def json_get_case object_of_def split: json.splits option.splits)
  qed
  moreover have "json_get fm (lit ''type'') = map_of ?m (lit ''type'')" by (cases fm) (simp_all add: json_get_case object_of_def)
  ultimately show "is_conformant fm \<longrightarrow> json_get conformed (lit ''type'') = json_get fm (lit ''type'')" unfolding get by simp
  have ok: "json_ok conformed" unfolding assms(2) by (rule json_ok_conform[OF assms(1)])
  have "json_ok (strip_generated_at conformed)"
    unfolding strip_generated_at_def by (rule json_ok_on_generated[OF ok json_ok_remove])
  then show "json_eq (strip_generated_at (stamp_generated_at at_text conformed)) (strip_generated_at conformed)"
    unfolding strip_stamp[OF ok] by (rule json_eq_refl)
  show "generated_at (stamp_generated_at at_text conformed) = Some at_text"
    using gen generated_at_stamp by blast
qed

definition demo_okf :: okf_env where
  "demo_okf = \<lparr>parse_timestamp = (\<lambda>_. None), parse_date_end = (\<lambda>_. Some 5), timestamp_text = (\<lambda>_. lit ''1970-01-01T23:59:59Z''),
     second_text = (\<lambda>_. lit ''1970-01-01T00:00:00Z''), pkg_version = lit ''2.0''\<rparr>"

theorem conform_frontmatter_stable_witness:
  "is_conformant (conform_frontmatter demo_okf (lit ''notes/a.md'') (JObj [(lit ''title'', JStr (lit ''T''))]))
   \<and> json_get (conform_frontmatter demo_okf (lit ''notes/a.md'') (JObj [(lit ''title'', JStr (lit ''T''))])) (lit ''title'')
       = Some (JStr (lit ''T''))
   \<and> generated_at (stamp_generated_at (lit ''now'')
       (conform_frontmatter demo_okf (lit ''notes/a.md'') (JObj [(lit ''title'', JStr (lit ''T''))]))) = Some (lit ''now'')"
proof -
  let ?fm = "JObj [(lit ''title'', JStr (lit ''T''))]"
  have ok: "json_ok ?fm" by simp
  note st = conform_frontmatter_stable[OF ok refl, of demo_okf "lit ''notes/a.md''" "lit ''now''"]
  have "lit ''title'' \<notin> {lit ''type'', lit ''description'', lit ''stale_after'', lit ''sources'', lit ''generated''}" by simp
  with st have "json_get (conform_frontmatter demo_okf (lit ''notes/a.md'') ?fm) (lit ''title'') = map_of (object_of ?fm) (lit ''title'')" by blast
  with st show ?thesis by (simp only: object_of_def json.simps map_of.simps prod.sel fun_upd_same)
qed

section \<open>Paths stay below the wiki root\<close>

text \<open>How a file system reads the segments of a path below the segments \<open>root\<close> (given innermost first).\<close>

fun walk :: "ustr list \<Rightarrow> ustr list \<Rightarrow> ustr list" where
  "walk at [] = at"
| "walk at (seg # segs) =
     (if seg = [] \<or> seg = [dot] then walk at segs
      else if seg = [dot, dot] then walk (tl at) segs
      else walk (seg # at) segs)"

lemma walk_plain: "\<forall>seg \<in> set segs. seg \<notin> {[], [dot], [dot, dot]} \<Longrightarrow> walk at segs = rev segs @ at"
  by (induction segs arbitrary: at) auto

lemma page_path_new_iff:
  "page_path_new raw = Inr p \<longleftrightarrow> p = raw \<and> backslash \<notin> set raw
     \<and> (\<forall>seg \<in> set (split_all slash raw). seg \<notin> {[], [dot], [dot, dot]})
     \<and> \<not> (let bytes = utf8_bytes raw in 3 \<le> length bytes \<and> bytes ! 1 = 58 \<and> bytes ! 2 = slash \<and> is_ascii_alphabetic (bytes ! 0))"
proof -
  have head: "hd (split_all slash raw) \<in> set (split_all slash raw)" using split_all_nonempty by (rule hd_in_set)
  have "[] \<in> set (split_all slash raw)" if "raw = [] \<or> prefix [slash] raw"
    using that by (cases raw) (auto simp: slash_def)
  with head show ?thesis unfolding page_path_new_def has_dot_component_def list_ex_iff by (auto simp: Let_def)
qed

lemma git_reserved_names:
  assumes "map to_ascii_lower c \<in> {lit ''.git'', lit ''git~1'', lit ''git~2'', lit ''git~3'', lit ''git~4''}"
  shows "is_git_reserved_component c"
proof -
  have "x < 0x80" if "x \<in> set c" for x
  proof -
    have "to_ascii_lower x \<in> set (map to_ascii_lower c)" using that by simp
    with assms have "to_ascii_lower x < 0x80" by (auto simp: lit_def)
    then show ?thesis by (auto simp: to_ascii_lower_def split: if_splits)
  qed
  then have b: "utf8_bytes c = c"
    by (induction c) (auto simp: utf8_bytes_def utf8_char_def)
  from assms consider "map to_ascii_lower c = lit ''.git''"
    | d where "49 \<le> d" "d \<le> 52" "map to_ascii_lower c = lit ''git~'' @ [d]"
    by (auto simp: lit_def)
  then show ?thesis
  proof cases
    case 1
    then show ?thesis by (simp add: is_git_reserved_component_def Let_def)
  next
    case 2
    have l: "length c = 5" using arg_cong[OF 2(3), of length] by (simp add: lit_def)
    have "map to_ascii_lower (take 4 c) = lit ''git~''" using arg_cong[OF 2(3), of "take 4"] by (simp add: take_map lit_def)
    moreover have "to_ascii_lower (c ! 4) = d" using arg_cong[OF 2(3), of "\<lambda>x. x ! 4"] l by (simp add: lit_def)
    then have "c ! 4 = d" using 2(1,2) by (auto simp: to_ascii_lower_def split: if_splits)
    ultimately show ?thesis using l 2(1,2) by (simp add: is_git_reserved_component_def Let_def b)
  qed
qed

lemma ensure_each_portable_iff:
  "ensure_each_portable cs = Inr () \<longleftrightarrow> (\<forall>c \<in> set cs. ensure_portable_component c = Inr ())"
  by (induction cs) (auto simp: and_then_Inr_iff)

text \<open>
  C20. A page path that is accepted is the text itself, walks from the wiki root down to a file below it and never
  above it, and no other accepted path reaches the same file. When it is also portable, no component is longer than
  255 bytes, holds a character Windows refuses or a control character, ends in a dot or a space, names a DOS
  device before its first dot, or is \<^verbatim>\<open>.git\<close> in any letter case or one of its four short names.
\<close>

theorem page_path_confined:
  assumes "page_path_new raw = Inr p"
  shows "p = raw \<and> walk root (split_all slash p) = rev (split_all slash p) @ root
    \<and> (\<forall>raw' p'. page_path_new raw' = Inr p' \<and> walk root (split_all slash p') = walk root (split_all slash p) \<longrightarrow> p' = p)
    \<and> (ensure_portable p = Inr () \<longrightarrow> (\<forall>c \<in> set (split_all slash p).
         byte_len c \<le> 255 \<and> (\<forall>x \<in> set c. 0x20 \<le> x \<and> x \<notin> {60, 62, 58, 34, 124, 63, 42}) \<and> c \<noteq> [] \<and> last c \<notin> {dot, 32}
         \<and> map to_ascii_lower (trim_end_matches (\<lambda>x. x = 32) (hd (split_all dot c))) \<notin> set dos_device_names
         \<and> map to_ascii_lower c \<notin> {lit ''.git'', lit ''git~1'', lit ''git~2'', lit ''git~3'', lit ''git~4''}))"
proof (intro conjI allI impI ballI)
  note ok = assms[unfolded page_path_new_iff]
  show "p = raw" using ok by simp
  have w: "walk root (split_all slash q) = rev (split_all slash q) @ root" if "page_path_new q' = Inr q" for q q'
    using that unfolding page_path_new_iff by (intro walk_plain) auto
  show "walk root (split_all slash p) = rev (split_all slash p) @ root" by (rule w[OF assms])
  fix raw' p' assume "page_path_new raw' = Inr p' \<and> walk root (split_all slash p') = walk root (split_all slash p)"
  then show "p' = p" using w[OF assms] w[of raw' p'] by (auto dest: split_all_inj)
next
  fix c assume port: "ensure_portable p = Inr ()" and c: "c \<in> set (split_all slash p)"
  from port c have e: "ensure_portable_component c = Inr ()" unfolding ensure_portable_def ensure_each_portable_iff by blast
  note e' = e[unfolded ensure_portable_component_def Let_def]
  show "byte_len c \<le> 255" using e' by (auto simp: max_portable_component_bytes_def split: if_splits)
  have nr: "find (\<lambda>x. x \<in> set windows_reserved_chars) c = None" and nc: "find (\<lambda>x. x < 0x20) c = None"
    and tr: "\<not> suffix [dot] c" "\<not> suffix [32] c" and dev: "\<not> is_dos_device_name (hd (split_all dot c))"
    and git: "\<not> is_git_reserved_component c"
    using e' by (auto split: if_splits option.splits)
  show "0x20 \<le> x" if "x \<in> set c" for x using nc that by (auto simp: find_None_iff)
  show "x \<notin> {60, 62, 58, 34, 124, 63, 42}" if "x \<in> set c" for x
    using nr that by (auto simp: find_None_iff windows_reserved_chars_def lit_def)
  show ne: "c \<noteq> []" using assms c unfolding page_path_new_iff by auto
  show "last c \<notin> {dot, 32}"
  proof
    assume "last c \<in> {dot, 32}"
    moreover have "c = butlast c @ [last c]" using ne by simp
    ultimately show False using tr unfolding suffix_def by (metis insertE singletonD)
  qed
  show "map to_ascii_lower (trim_end_matches (\<lambda>x. x = 32) (hd (split_all dot c))) \<notin> set dos_device_names"
    using dev by (simp add: is_dos_device_name_def)
  show "map to_ascii_lower c \<notin> {lit ''.git'', lit ''git~1'', lit ''git~2'', lit ''git~3'', lit ''git~4''}"
    using git git_reserved_names by blast
qed

theorem page_path_confined_witness:
  "page_path_new (lit ''notes/a.md'') = Inr (lit ''notes/a.md'') \<and> ensure_portable (lit ''notes/a.md'') = Inr ()
   \<and> walk [lit ''wiki''] (split_all slash (lit ''notes/a.md'')) = [lit ''a.md'', lit ''notes'', lit ''wiki'']"
proof -
  have split: "split_all slash (lit ''notes/a.md'') = [lit ''notes'', lit ''a.md'']" by (simp add: lit_def slash_def)
  have new: "page_path_new (lit ''notes/a.md'') = Inr (lit ''notes/a.md'')"
    unfolding page_path_new_iff split by (simp add: lit_def backslash_def utf8_bytes_def utf8_char_def)
  have "ensure_portable_component (lit ''notes'') = Inr ()" "ensure_portable_component (lit ''a.md'') = Inr ()"
    by (simp_all add: ensure_portable_component_def max_portable_component_bytes_def windows_reserved_chars_def lit_def
        utf8_len_def suffix_def is_dos_device_name_def dos_device_names_def trim_end_matches_def to_ascii_lower_def
        is_git_reserved_component_def utf8_bytes_def utf8_char_def Let_def)
  then have "ensure_portable (lit ''notes/a.md'') = Inr ()" by (simp add: ensure_portable_def split)
  moreover have "walk [lit ''wiki''] (split_all slash (lit ''notes/a.md'')) = rev (split_all slash (lit ''notes/a.md'')) @ [lit ''wiki'']"
    using page_path_confined[OF new, of "[lit ''wiki'']"] by blast
  ultimately show ?thesis using new by (simp add: split)
qed

end
