(* ===== verification/PageMeta.thy ===== *)
theory PageMeta
  imports PageCore
begin

text \<open>
  The enumerations of \<^verbatim>\<open>page.rs\<close> with their stored spelling, the normalization of entity names, and
  \<^verbatim>\<open>PageWriteMetadata::into_frontmatter\<close>, the gate every public page write passes its metadata through.
  \<^verbatim>\<open>str::to_lowercase\<close>, \<^verbatim>\<open>char::is_alphanumeric\<close> and the stack tags the profile module detects are
  parameters (\<open>text_env\<close>).
\<close>

section \<open>Enumerations\<close>

datatype tier = Working | Episodic | Semantic | Procedural

fun tier_str :: "tier \<Rightarrow> ustr" where
  "tier_str Working = lit ''working''"
| "tier_str Episodic = lit ''episodic''"
| "tier_str Semantic = lit ''semantic''"
| "tier_str Procedural = lit ''procedural''"

definition tier_from_str :: "ustr \<Rightarrow> tier option" where
  "tier_from_str s =
     (if s = lit ''working'' then Some Working else if s = lit ''episodic'' then Some Episodic
      else if s = lit ''semantic'' then Some Semantic else if s = lit ''procedural'' then Some Procedural else None)"

datatype page_evidence_kind = EvSession | EvObservation | EvFeedback | EvReconsolidation

fun evidence_kind_str :: "page_evidence_kind \<Rightarrow> ustr" where
  "evidence_kind_str EvSession = lit ''session''"
| "evidence_kind_str EvObservation = lit ''observation''"
| "evidence_kind_str EvFeedback = lit ''feedback''"
| "evidence_kind_str EvReconsolidation = lit ''reconsolidation''"

definition evidence_kind_from_str :: "ustr \<Rightarrow> page_evidence_kind option" where
  "evidence_kind_from_str s =
     (if s = lit ''session'' then Some EvSession else if s = lit ''observation'' then Some EvObservation
      else if s = lit ''feedback'' then Some EvFeedback else if s = lit ''reconsolidation'' then Some EvReconsolidation
      else None)"

datatype relation = Causes | Fixes | Contradicts

fun relation_str :: "relation \<Rightarrow> ustr" where
  "relation_str Causes = lit ''causes''"
| "relation_str Fixes = lit ''fixes''"
| "relation_str Contradicts = lit ''contradicts''"

definition relation_parse :: "ustr \<Rightarrow> relation option" where
  "relation_parse s =
     (if s = lit ''causes'' then Some Causes else if s = lit ''fixes'' then Some Fixes
      else if s = lit ''contradicts'' then Some Contradicts else None)"

datatype feedback_kind = Helpful | NotHelpful | Stale | Wrong

fun feedback_kind_str :: "feedback_kind \<Rightarrow> ustr" where
  "feedback_kind_str Helpful = lit ''helpful''"
| "feedback_kind_str NotHelpful = lit ''not_helpful''"
| "feedback_kind_str Stale = lit ''stale''"
| "feedback_kind_str Wrong = lit ''wrong''"

definition feedback_kind_from_str :: "ustr \<Rightarrow> feedback_kind option" where
  "feedback_kind_from_str s =
     (if s = lit ''helpful'' then Some Helpful else if s = lit ''not_helpful'' then Some NotHelpful
      else if s = lit ''stale'' then Some Stale else if s = lit ''wrong'' then Some Wrong else None)"

definition routes_to_lint :: "feedback_kind \<Rightarrow> bool" where
  "routes_to_lint k \<longleftrightarrow> k = Stale \<or> k = Wrong"

interpretation tier_codec: wire_codec tier_str tier_from_str "\<lambda>_. True"
proof
  show "tier_from_str (tier_str x) = Some x" for x by (cases x) (simp_all add: tier_from_str_def)
qed

interpretation evidence_codec: wire_codec evidence_kind_str evidence_kind_from_str "\<lambda>_. True"
proof
  show "evidence_kind_from_str (evidence_kind_str x) = Some x" for x by (cases x) (simp_all add: evidence_kind_from_str_def)
qed

interpretation relation_codec: wire_codec relation_str relation_parse "\<lambda>_. True"
proof
  show "relation_parse (relation_str x) = Some x" for x by (cases x) (simp_all add: relation_parse_def)
qed

interpretation feedback_codec: wire_codec feedback_kind_str feedback_kind_from_str "\<lambda>_. True"
proof
  show "feedback_kind_from_str (feedback_kind_str x) = Some x" for x by (cases x) (simp_all add: feedback_kind_from_str_def)
qed

section \<open>Entity names\<close>

record text_env =
  to_lowercase :: "ustr \<Rightarrow> ustr"
  is_alphanumeric :: "uchar \<Rightarrow> bool"
  stack_tags :: "ustr list"

definition max_entity_len :: nat where
  "max_entity_len = 64"

definition max_entities_per_page :: nat where
  "max_entities_per_page = 10"

text \<open>\<^verbatim>\<open>str::split_whitespace\<close>: the maximal runs of non-whitespace characters.\<close>

fun split_where :: "(uchar \<Rightarrow> bool) \<Rightarrow> ustr \<Rightarrow> ustr list" where
  "split_where p [] = [[]]"
| "split_where p (c # cs) =
     (if p c then [] # split_where p cs
      else case split_where p cs of [] \<Rightarrow> [[c]] | f # fs \<Rightarrow> (c # f) # fs)"

definition words :: "ustr \<Rightarrow> ustr list" where
  "words s = filter (\<lambda>w. w \<noteq> []) (split_where is_whitespace s)"

text \<open>The two loops of \<^verbatim>\<open>normalize_entity\<close> over the characters of a word and over the words.\<close>

fun push_chars :: "nat \<Rightarrow> ustr \<Rightarrow> ustr \<Rightarrow> (nat \<times> ustr) option" where
  "push_chars chars collapsed [] = Some (chars, collapsed)"
| "push_chars chars collapsed (ch # rest) =
     (if is_control ch then None
      else if chars + 1 > max_entity_len then None
      else push_chars (chars + 1) (collapsed @ [ch]) rest)"

fun push_words :: "nat \<Rightarrow> ustr \<Rightarrow> ustr list \<Rightarrow> ustr option" where
  "push_words chars collapsed [] = Some collapsed"
| "push_words chars collapsed (word # rest) =
     (let (chars, collapsed) = (if collapsed \<noteq> [] then (chars + 1, collapsed @ [32]) else (chars, collapsed)) in
      case push_chars chars collapsed word of
        None \<Rightarrow> None
      | Some (chars, collapsed) \<Rightarrow> push_words chars collapsed rest)"

definition normalize_entity :: "text_env \<Rightarrow> ustr \<Rightarrow> ustr option" where
  "normalize_entity env raw =
     (case push_words 0 [] (words raw) of
        None \<Rightarrow> None
      | Some collapsed \<Rightarrow>
          (let normalized = to_lowercase env collapsed in
           if normalized = [] \<or> length normalized > max_entity_len then None else Some normalized))"

text \<open>The loop of \<^verbatim>\<open>normalize_entities\<close>; the output doubles as the set of names seen.\<close>

fun normalize_entities_from :: "text_env \<Rightarrow> ustr list \<Rightarrow> ustr list \<Rightarrow> ustr list" where
  "normalize_entities_from env out [] = out"
| "normalize_entities_from env out (item # rest) =
     (case normalize_entity env item of
        None \<Rightarrow> normalize_entities_from env out rest
      | Some name \<Rightarrow>
          if name \<in> set out then normalize_entities_from env out rest
          else if length (out @ [name]) \<ge> max_entities_per_page then out @ [name]
          else normalize_entities_from env (out @ [name]) rest)"

definition normalize_entities :: "text_env \<Rightarrow> ustr list \<Rightarrow> ustr list" where
  "normalize_entities env raw = normalize_entities_from env [] raw"

definition frontmatter_strings :: "json \<Rightarrow> ustr \<Rightarrow> ustr list" where
  "frontmatter_strings frontmatter key =
     (case Option.bind (json_get frontmatter key) json_as_array of None \<Rightarrow> [] | Some xs \<Rightarrow> List.map_filter json_as_str xs)"

definition frontmatter_entity_names :: "text_env \<Rightarrow> json \<Rightarrow> ustr list" where
  "frontmatter_entity_names env frontmatter =
     normalize_entities env (frontmatter_strings frontmatter (lit ''entities'') @ frontmatter_strings frontmatter (lit ''tags''))"

text \<open>The reference: join the words with single spaces, refuse control characters and long results.\<close>

fun join_words :: "ustr list \<Rightarrow> ustr" where
  "join_words [] = []"
| "join_words [w] = w"
| "join_words (w # ws) = w @ 32 # join_words ws"

lemma words_nonempty: "w \<in> set (words s) \<Longrightarrow> w \<noteq> []"
  by (simp add: words_def)

lemma split_where_clean: "w \<in> set (split_where p s) \<Longrightarrow> c \<in> set w \<Longrightarrow> \<not> p c"
proof (induction s arbitrary: w c)
  case (Cons d s)
  show ?case
  proof (cases "split_where p s")
    case Nil
    then show ?thesis using Cons by (auto split: if_splits)
  next
    case (Cons f fs)
    then have "\<And>w c. w \<in> set (f # fs) \<Longrightarrow> c \<in> set w \<Longrightarrow> \<not> p c" using Cons.IH by simp
    then have "\<And>c. c \<in> set f \<Longrightarrow> \<not> p c" "\<And>w c. w \<in> set fs \<Longrightarrow> c \<in> set w \<Longrightarrow> \<not> p c"
      by (meson list.set_intros)+
    then show ?thesis using Cons.prems Cons by (auto split: if_splits)
  qed
qed simp

lemma words_no_space: "w \<in> set (words s) \<Longrightarrow> c \<in> set w \<Longrightarrow> \<not> is_whitespace c"
  by (auto simp: words_def dest: split_where_clean)

lemma push_chars_spec:
  "push_chars n acc w = (if (\<exists>c \<in> set w. is_control c) \<or> (w \<noteq> [] \<and> n + length w > max_entity_len) then None
     else Some (n + length w, acc @ w))"
  by (induction n acc w rule: push_chars.induct) (auto simp: not_less_eq_eq)

definition joined :: "ustr \<Rightarrow> ustr list \<Rightarrow> ustr" where
  "joined acc ws = (if acc = [] then join_words ws else if ws = [] then acc else acc @ 32 # join_words ws)"

lemma joined_Cons:
  assumes "w \<noteq> []"
  shows "joined acc (w # ws) = joined ((if acc = [] then [] else acc @ [32]) @ w) ws"
  using assms by (cases ws) (simp_all add: joined_def)

lemma length_joined: "length acc \<le> length (joined acc ws)"
  by (cases "acc = []"; cases ws) (simp_all add: joined_def)

lemma push_words_spec:
  "(\<And>w. w \<in> set ws \<Longrightarrow> w \<noteq> []) \<Longrightarrow> n = length acc \<Longrightarrow> n \<le> max_entity_len \<Longrightarrow>
   push_words n acc ws =
     (if (\<exists>w \<in> set ws. \<exists>c \<in> set w. is_control c) \<or> length (joined acc ws) > max_entity_len then None
      else Some (joined acc ws))"
proof (induction ws arbitrary: n acc)
  case Nil
  then show ?case by (simp add: joined_def)
next
  case (Cons w ws)
  let ?acc = "(if acc = [] then [] else acc @ [32]) @ w"
  have w: "w \<noteq> []" by (rule Cons.prems) simp
  note j = joined_Cons[OF w, of acc ws]
  have step: "push_words n acc (w # ws) =
    (if (\<exists>c \<in> set w. is_control c) \<or> length ?acc > max_entity_len then None else push_words (length ?acc) ?acc ws)"
    using w Cons.prems(2) by (auto simp: push_chars_spec Let_def)
  show ?case
  proof (cases "length ?acc > max_entity_len")
    case True
    then have "length (joined acc (w # ws)) > max_entity_len" using length_joined[of ?acc ws] unfolding j by linarith
    with step True show ?thesis by simp
  next
    case False
    then have "push_words (length ?acc) ?acc ws =
      (if (\<exists>w \<in> set ws. \<exists>c \<in> set w. is_control c) \<or> length (joined ?acc ws) > max_entity_len then None
       else Some (joined ?acc ws))"
      using Cons.prems(1) by (intro Cons.IH) simp_all
    with step False have e: "push_words n acc (w # ws) = (if \<exists>c \<in> set w. is_control c then None
      else if (\<exists>w \<in> set ws. \<exists>c \<in> set w. is_control c) \<or> length (joined ?acc ws) > max_entity_len then None
       else Some (joined ?acc ws))" by simp
    show ?thesis unfolding e j by (rule if_split[THEN iffD2]) simp
  qed
qed

lemma normalize_entities_from_spec:
  assumes "distinct out" "length out < max_entities_per_page" "set out \<subseteq> {n. \<exists>r. normalize_entity env r = Some n}"
  shows "distinct (normalize_entities_from env out raw) \<and> length (normalize_entities_from env out raw) \<le> max_entities_per_page
    \<and> set (normalize_entities_from env out raw) \<subseteq> {n. \<exists>r. normalize_entity env r = Some n}
    \<and> prefix out (normalize_entities_from env out raw)
    \<and> (length (normalize_entities_from env out raw) < max_entities_per_page \<longrightarrow>
         (\<forall>r \<in> set raw. \<forall>n. normalize_entity env r = Some n \<longrightarrow> n \<in> set (normalize_entities_from env out raw)))"
  using assms
proof (induction raw arbitrary: out)
  case (Cons item rest)
  show ?case
  proof (cases "normalize_entity env item")
    case None
    then show ?thesis using Cons by simp
  next
    case (Some name)
    consider (seen) "name \<in> set out" | (full) "name \<notin> set out" "length (out @ [name]) \<ge> max_entities_per_page"
      | (new) "name \<notin> set out" "length (out @ [name]) < max_entities_per_page" by linarith
    then show ?thesis
    proof cases
      case seen
      then show ?thesis using Cons.IH[OF Cons.prems] Some by (auto dest: set_mono_prefix)
    next
      case full
      then show ?thesis using Cons.prems Some by auto
    next
      case new
      have o: "set (out @ [name]) \<subseteq> {n. \<exists>r. normalize_entity env r = Some n}" using Cons.prems(3) Some by auto
      have d: "distinct (out @ [name])" using new(1) Cons.prems(1) by simp
      note IH = Cons.IH[OF d new(2) o]
      have "name \<in> set (normalize_entities_from env (out @ [name]) rest)" using IH set_mono_prefix[of "out @ [name]"] by auto
      moreover have "prefix out (normalize_entities_from env (out @ [name]) rest)" using IH by (meson append_prefixD)
      moreover have "normalize_entities_from env out (item # rest) = normalize_entities_from env (out @ [name]) rest"
        using Some new by simp
      ultimately show ?thesis using IH Some by auto
    qed
  qed
qed simp

text \<open>
  The character-by-character entity normalizer computes exactly its reference: the words of the input joined with
  single spaces and lowercased, unless a word holds a control character or the joined or the lowercased text leaves
  1 to 64 characters. A whole list normalizes to at most ten names without repetition, and below ten nothing
  valid is dropped.
\<close>

theorem normalize_entity_reference:
  "normalize_entity env raw =
     (let collapsed = join_words (words raw); n = to_lowercase env collapsed in
      if (\<exists>w \<in> set (words raw). \<exists>c \<in> set w. is_control c) \<or> length collapsed > 64 \<or> n = [] \<or> length n > 64 then None else Some n)
   \<and> distinct (normalize_entities env names) \<and> length (normalize_entities env names) \<le> 10
   \<and> (length (normalize_entities env names) < 10 \<longrightarrow>
        set (normalize_entities env names) \<supseteq> {n. \<exists>r \<in> set names. normalize_entity env r = Some n})"
proof -
  have j: "joined [] ws = join_words ws" for ws by (simp add: joined_def)
  have "push_words 0 [] (words raw) =
      (if (\<exists>w \<in> set (words raw). \<exists>c \<in> set w. is_control c) \<or> length (join_words (words raw)) > max_entity_len then None
       else Some (join_words (words raw)))"
    using push_words_spec[of "words raw" 0 "[]"] words_nonempty by (simp add: j)
  then have 1: "normalize_entity env raw =
     (let collapsed = join_words (words raw); n = to_lowercase env collapsed in
      if (\<exists>w \<in> set (words raw). \<exists>c \<in> set w. is_control c) \<or> length collapsed > 64 \<or> n = [] \<or> length n > 64 then None else Some n)"
    by (simp add: normalize_entity_def max_entity_len_def Let_def)
  have "length [] < max_entities_per_page" by (simp add: max_entities_per_page_def)
  note 2 = normalize_entities_from_spec[of "[]" env names, OF _ this, folded normalize_entities_def]
  show ?thesis using 1 2 by (auto simp: max_entities_per_page_def)
qed

definition demo_text :: text_env where
  "demo_text = \<lparr>to_lowercase = map to_ascii_lower, is_alphanumeric = is_ascii_alphabetic, stack_tags = [lit ''rust'']\<rparr>"

theorem normalize_entity_reference_witness:
  "normalize_entity demo_text (lit '' Ab  C'') = Some (lit ''ab c'')"
  using normalize_entity_reference[of demo_text "lit '' Ab  C''" "[]"]
  by (simp add: lit_def words_def is_whitespace_def is_control_def demo_text_def to_ascii_lower_def Let_def)

section \<open>Metadata of a public write\<close>

record page_source =
  src_path :: ustr
  src_commit :: ustr

text \<open>\<open>pm_relations\<close> lists the entries of the \<^verbatim>\<open>BTreeMap\<close> in key order.\<close>

record page_write_metadata =
  pm_kind :: "ustr option"
  pm_entities :: "ustr list"
  pm_abstract :: "ustr option"
  pm_relations :: "(relation \<times> ustr list) list"
  pm_applies_to :: "ustr list"
  pm_enforced_by :: "ustr option"
  pm_source_files :: "page_source list"

datatype metadata_fault = InvalidMetadata string | UnknownTag ustr

definition valid_text :: "ustr \<Rightarrow> nat \<Rightarrow> bool" where
  "valid_text raw cap \<longleftrightarrow> length raw \<le> cap \<and> \<not> list_ex (\<lambda>c. is_control c \<and> \<not> is_whitespace c) raw"

fun put_texts :: "(string \<times> ustr option \<times> nat) list \<Rightarrow> json_map \<Rightarrow> metadata_fault + json_map" where
  "put_texts [] fm = Inr fm"
| "put_texts ((key, None, cap) # rest) fm = put_texts rest fm"
| "put_texts ((key, Some value, cap) # rest) fm =
     (if \<not> valid_text value cap then Inl (InvalidMetadata key)
      else put_texts rest (if trim value \<noteq> [] then map_insert (lit key) (JStr (trim value)) fm else fm))"

text \<open>The scope before the first colon: \<^verbatim>\<open>project\<close> or \<^verbatim>\<open>workspace/project\<close>.\<close>

definition scope_ok :: "text_env \<Rightarrow> ustr \<Rightarrow> bool" where
  "scope_ok env scope \<longleftrightarrow>
     (let parts = split_all slash scope in
      \<not> (length parts > 2
         \<or> \<not> list_all (\<lambda>c. is_alphanumeric env c \<or> c \<in> set (lit ''-_/.'')) scope
         \<or> list_ex (\<lambda>s. trim s = [] \<or> s \<noteq> trim s \<or> s = [dot] \<or> s = [dot, dot]) parts))"

definition relation_target_ok :: "text_env \<Rightarrow> ustr \<Rightarrow> bool" where
  "relation_target_ok env target =
     (if \<not> valid_text target 1024 \<or> list_ex is_control target then False
      else case (case split_once 58 target of
                   None \<Rightarrow> Some target
                 | Some (scope, path) \<Rightarrow> if scope_ok env scope then Some path else None) of
        None \<Rightarrow> False
      | Some path \<Rightarrow>
          (let raw_path = trim path; file = last (split_all slash raw_path) in
           if file = [] \<or> file = lit ''.md'' \<or> (dot \<in> set file \<and> \<not> suffix (lit ''.md'') raw_path) then False
           else (case page_path_new (if dot \<in> set file then raw_path else raw_path @ lit ''.md'') of
                   Inl _ \<Rightarrow> False
                 | Inr p \<Rightarrow> ensure_portable p = Inr ())))"

definition put_entities :: "text_env \<Rightarrow> ustr list \<Rightarrow> json_map \<Rightarrow> metadata_fault + json_map" where
  "put_entities env entities fm =
     (if length entities > max_entities_per_page
         \<or> list_ex (\<lambda>e. \<not> valid_text e max_entity_len \<or> normalize_entity env e = None) entities
      then Inl (InvalidMetadata ''entities'')
      else Inr (if entities = [] then fm
                else map_insert (lit ''entities'') (JArr (map JStr (normalize_entities env entities))) fm))"

definition put_relations :: "text_env \<Rightarrow> (relation \<times> ustr list) list \<Rightarrow> json_map \<Rightarrow> metadata_fault + json_map" where
  "put_relations env relations fm =
     (if sum_list (map (length \<circ> snd) relations) > 32
         \<or> list_ex (\<lambda>(_, targets). list_ex (\<lambda>t. \<not> relation_target_ok env t) targets) relations
      then Inl (InvalidMetadata ''relations'')
      else Inr (if relations = [] then fm
                else map_insert (lit ''relations'')
                       (JObj (map (\<lambda>(r, targets). (relation_str r, JArr (map JStr targets))) relations)) fm))"

text \<open>The loop over the tags stops at the first unknown one; the result is a \<^verbatim>\<open>BTreeSet\<close>.\<close>

definition check_tag :: "text_env \<Rightarrow> ustr \<Rightarrow> metadata_fault + ustr list" where
  "check_tag env tag =
     (let tag = map to_ascii_lower (trim tag) in
      if tag = [] then Inr [] else if tag \<notin> set (stack_tags env) then Inl (UnknownTag tag) else Inr [tag])"

definition put_applies_to :: "text_env \<Rightarrow> ustr list \<Rightarrow> json_map \<Rightarrow> metadata_fault + json_map" where
  "put_applies_to env applies_to fm =
     (if length applies_to > 16 \<or> list_ex (\<lambda>tag. \<not> valid_text tag 32) applies_to
      then Inl (InvalidMetadata ''applies_to'')
      else and_then (collect_results (check_tag env) applies_to) (\<lambda>tags.
        let known = sort (remdups (concat tags)) in
        Inr (if known = [] then fm else map_insert (lit ''applies_to'') (JArr (map JStr known)) fm)))"

definition check_source :: "page_source \<Rightarrow> metadata_fault + json" where
  "check_source source =
     (let path = trim (src_path source); commit = map to_ascii_lower (trim (src_commit source)) in
      if \<not> valid_text (src_path source) 1024 \<or> list_ex is_control path \<or> backslash \<in> set path
         \<or> list_ex (\<lambda>seg. seg = [] \<or> seg = [dot] \<or> seg = [dot, dot]) (split_all slash path)
         \<or> \<not> (7 \<le> byte_len commit \<and> byte_len commit \<le> 64)
         \<or> \<not> list_all is_ascii_hexdigit (utf8_bytes commit)
      then Inl (InvalidMetadata ''source_files'')
      else Inr (JObj [(lit ''path'', JStr path), (lit ''commit'', JStr commit)]))"

definition put_source_files :: "page_source list \<Rightarrow> json_map \<Rightarrow> metadata_fault + json_map" where
  "put_source_files source_files fm =
     (if length source_files > 16 then Inl (InvalidMetadata ''source_files'')
      else and_then (collect_results check_source source_files) (\<lambda>sources.
        Inr (if sources = [] then fm else map_insert (lit ''source_files'') (JArr sources) fm)))"

definition into_frontmatter :: "text_env \<Rightarrow> page_write_metadata \<Rightarrow> metadata_fault + json_map" where
  "into_frontmatter env m =
     and_then (put_texts [(''kind'', pm_kind m, 64), (''abstract'', pm_abstract m, 1024), (''enforced_by'', pm_enforced_by m, 256)] [])
       (\<lambda>fm. and_then (put_entities env (pm_entities m) fm)
       (\<lambda>fm. and_then (put_relations env (pm_relations m) fm)
       (\<lambda>fm. and_then (put_applies_to env (pm_applies_to m) fm)
       (\<lambda>fm. put_source_files (pm_source_files m) fm))))"

definition ensure_profile_metadata_placement :: "json_map \<Rightarrow> ustr \<Rightarrow> bool \<Rightarrow> string + unit" where
  "ensure_profile_metadata_placement frontmatter path profile_scope =
     (if profile_scope \<and> prefix (lit ''profile/'') path then Inr ()
      else case find (\<lambda>key. contains_key frontmatter (lit key)) [''applies_to'', ''enforced_by''] of
        Some key \<Rightarrow> Inl key
      | None \<Rightarrow> Inr ())"

text \<open>What one step may write: its own key, with a well-formed value.\<close>

definition adds_key :: "string set \<Rightarrow> json_map \<Rightarrow> json_map \<Rightarrow> bool" where
  "adds_key ks fm fm' \<longleftrightarrow> (\<forall>k. map_of fm' k \<noteq> map_of fm k \<longrightarrow> k \<in> lit ` ks) \<and> (json_ok (JObj fm) \<longrightarrow> json_ok (JObj fm'))"

lemma adds_key_refl: "adds_key ks fm fm"
  by (simp add: adds_key_def)

lemma adds_key_trans: "adds_key ks a b \<Longrightarrow> adds_key ls b c \<Longrightarrow> adds_key (ks \<union> ls) a c"
  unfolding adds_key_def by (metis UnI1 UnI2 image_Un)

lemma adds_key_insert: "json_ok v \<Longrightarrow> adds_key {k} fm (map_insert (lit k) v fm)"
  by (simp add: adds_key_def map_of_insert json_ok_insert del: json_ok.simps)

lemma json_ok_strings: "json_ok (JArr (map JStr xs))"
  by (simp add: list_all_iff)

lemma put_texts_adds: "put_texts xs fm = Inr fm' \<Longrightarrow> adds_key (fst ` set xs) fm fm'"
proof (induction xs fm rule: put_texts.induct)
  case (1 fm)
  then show ?case by (simp add: adds_key_refl)
next
  case (2 key cap rest fm)
  then show ?case using adds_key_trans[OF adds_key_refl[of "{key}"]] by fastforce
next
  case (3 key v cap rest fm)
  let ?f = "if trim v \<noteq> [] then map_insert (lit key) (JStr (trim v)) fm else fm"
  have v: "valid_text v cap" and r: "put_texts rest ?f = Inr fm'" using "3.prems" by (auto split: if_splits)
  have "adds_key {key} fm ?f" using adds_key_insert[of "JStr (trim v)" key fm] adds_key_refl by simp
  from adds_key_trans[OF this "3.IH"[OF _ r]] v show ?case by simp
qed

lemma relation_target_okD:
  assumes "relation_target_ok env t"
  shows "\<exists>path p. (case split_once 58 t of None \<Rightarrow> path = trim t | Some (s, q) \<Rightarrow> scope_ok env s \<and> path = trim q)
    \<and> p \<in> {path, path @ lit ''.md''} \<and> suffix (lit ''.md'') p \<and> page_path_new p = Inr p \<and> ensure_portable p = Inr ()"
proof -
  obtain q where q: "(case split_once 58 t of None \<Rightarrow> Some t | Some (s, q) \<Rightarrow> if scope_ok env s then Some q else None) = Some q"
    using assms unfolding relation_target_ok_def by (auto split: if_splits option.splits)
  note a = assms[unfolded relation_target_ok_def q]
  let ?file = "last (split_all slash (trim q))"
  let ?p = "if dot \<in> set ?file then trim q else trim q @ lit ''.md''"
  obtain r where r: "page_path_new ?p = Inr r" "ensure_portable r = Inr ()"
    using a by (auto simp: Let_def split: if_splits sum.splits)
  have s: "suffix (lit ''.md'') ?p" using a by (auto simp: Let_def suffix_def split: if_splits)
  have "r = ?p" using r(1) by (simp add: page_path_new_iff)
  moreover have "case split_once 58 t of None \<Rightarrow> trim q = trim t | Some (s, q') \<Rightarrow> scope_ok env s \<and> trim q = trim q'"
    using q by (auto split: option.splits if_splits)
  ultimately show ?thesis using r s by (intro exI[of _ "trim q"] exI[of _ ?p]) auto
qed

lemma collect_results_all: "collect_results f xs = Inr ys \<Longrightarrow> list_all2 (\<lambda>x y. f x = Inr y) xs ys"
  by (induction xs arbitrary: ys) (auto simp: and_then_Inr_iff)

lemma collect_results_in: "collect_results f xs = Inr ys \<Longrightarrow> x \<in> set xs \<Longrightarrow> \<exists>y. f x = Inr y"
  by (induction xs arbitrary: ys) (auto simp: and_then_Inr_iff)

lemma put_entities_adds: "put_entities env xs fm = Inr fm' \<Longrightarrow> adds_key {''entities''} fm fm'"
  using adds_key_insert[OF json_ok_strings, of "''entities''"] adds_key_refl
  by (auto simp: put_entities_def split: if_splits)

lemma put_relations_adds:
  assumes "put_relations env rs fm = Inr fm'" "distinct (map fst rs)"
  shows "adds_key {''relations''} fm fm'"
proof -
  let ?o = "map (\<lambda>(r, ts). (relation_str r, JArr (map JStr ts))) rs"
  have "map fst ?o = map relation_str (map fst rs)" by (induction rs) auto
  moreover have "inj relation_str" using relation_codec.inj_on_enc by simp
  then have "distinct (map relation_str (map fst rs))" using assms(2) by (meson distinct_map inj_on_subset subset_UNIV)
  ultimately have "distinct (map fst ?o)" by (simp only:)
  then have "json_ok (JObj ?o)" by (auto simp: list_all_iff)
  from adds_key_insert[OF this, of "''relations''" fm] assms(1) adds_key_refl show ?thesis
    by (auto simp: put_relations_def split: if_splits)
qed

lemma put_applies_to_adds: "put_applies_to env xs fm = Inr fm' \<Longrightarrow> adds_key {''applies_to''} fm fm'"
  using adds_key_insert[OF json_ok_strings, of "''applies_to''"] adds_key_refl
  by (auto simp: put_applies_to_def and_then_Inr_iff Let_def split: if_splits)

lemma check_source_ok: "check_source s = Inr v \<Longrightarrow> json_ok v"
  by (auto simp: check_source_def Let_def split: if_splits)

lemma put_source_files_adds:
  assumes "put_source_files xs fm = Inr fm'"
  shows "adds_key {''source_files''} fm fm'"
proof -
  obtain vs where vs: "collect_results check_source xs = Inr vs"
    and f: "fm' = (if vs = [] then fm else map_insert (lit ''source_files'') (JArr vs) fm)"
    using assms by (auto simp: put_source_files_def and_then_Inr_iff split: if_splits)
  have "json_ok (JArr vs)"
    using collect_results_all[OF vs] check_source_ok
    by (simp only: json_ok.simps list_all_length list_all2_conv_all_nth) metis
  from adds_key_insert[OF this, of "''source_files''" fm] adds_key_refl f show ?thesis by auto
qed

lemma source_files_confined:
  assumes "put_source_files files fm = Inr fm'" "s \<in> set files"
  shows "walk root (split_all slash (trim (src_path s))) = rev (split_all slash (trim (src_path s))) @ root
    \<and> 7 \<le> byte_len (map to_ascii_lower (trim (src_commit s))) \<and> byte_len (map to_ascii_lower (trim (src_commit s))) \<le> 64"
proof -
  obtain vs where vs: "collect_results check_source files = Inr vs"
    using assms(1) by (auto simp: put_source_files_def and_then_Inr_iff split: if_splits)
  from collect_results_in[OF vs assms(2)] obtain v where "check_source s = Inr v" by (elim exE)
  note ok = this[unfolded check_source_def Let_def]
  have "\<forall>seg \<in> set (split_all slash (trim (src_path s))). seg \<notin> {[], [dot], [dot, dot]}"
    using ok unfolding list_ex_iff by (meson Inl_Inr_False empty_iff insert_iff)
  moreover have "7 \<le> byte_len (map to_ascii_lower (trim (src_commit s))) \<and> byte_len (map to_ascii_lower (trim (src_commit s))) \<le> 64"
    using ok by (meson Inl_Inr_False)
  ultimately show ?thesis using walk_plain by blast
qed

lemma applies_to_known:
  assumes "put_applies_to env tags fm = Inr fm'" "tag \<in> set tags"
  shows "trim tag = [] \<or> map to_ascii_lower (trim tag) \<in> set (stack_tags env)"
proof -
  obtain vs where vs: "collect_results (check_tag env) tags = Inr vs"
    using assms(1) by (auto simp: put_applies_to_def and_then_Inr_iff split: if_splits)
  from collect_results_in[OF vs assms(2)] obtain v where "check_tag env tag = Inr v" by (elim exE)
  then show ?thesis by (auto simp: check_tag_def Let_def split: if_splits)
qed

text \<open>
  C25. Metadata a public write is accepted with becomes a well-formed object holding no key outside the seven editable
  ones, so a writer can set neither the type, the provenance nor the author of a page. Every relation target names,
  after an optional scope, a portable page path ending in \<^verbatim>\<open>.md\<close>; every source file stays below the
  repository root and carries a commit of 7 to 64 characters; every tag is one the profile can detect.
\<close>

theorem write_metadata_gate:
  assumes acc: "into_frontmatter env m = Inr fm" and keys: "distinct (map fst (pm_relations m))"
  shows "json_ok (JObj fm)
    \<and> fst ` set fm \<subseteq> lit ` {''kind'', ''abstract'', ''enforced_by'', ''entities'', ''relations'', ''applies_to'', ''source_files''}
    \<and> sum_list (map (length \<circ> snd) (pm_relations m)) \<le> 32
    \<and> (\<forall>(r, ts) \<in> set (pm_relations m). \<forall>t \<in> set ts. \<exists>path p.
         (case split_once 58 t of None \<Rightarrow> path = trim t | Some (s, q) \<Rightarrow> path = trim q)
         \<and> p \<in> {path, path @ lit ''.md''} \<and> suffix (lit ''.md'') p \<and> page_path_new p = Inr p \<and> ensure_portable p = Inr ())
    \<and> (\<forall>s \<in> set (pm_source_files m).
         walk root (split_all slash (trim (src_path s))) = rev (split_all slash (trim (src_path s))) @ root
         \<and> 7 \<le> byte_len (map to_ascii_lower (trim (src_commit s))) \<and> byte_len (map to_ascii_lower (trim (src_commit s))) \<le> 64)
    \<and> (\<forall>tag \<in> set (pm_applies_to m). trim tag = [] \<or> map to_ascii_lower (trim tag) \<in> set (stack_tags env))"
proof -
  obtain a b c d where
    a: "put_texts [(''kind'', pm_kind m, 64), (''abstract'', pm_abstract m, 1024), (''enforced_by'', pm_enforced_by m, 256)] [] = Inr a"
    and b: "put_entities env (pm_entities m) a = Inr b" and c: "put_relations env (pm_relations m) b = Inr c"
    and d: "put_applies_to env (pm_applies_to m) c = Inr d" and e: "put_source_files (pm_source_files m) d = Inr fm"
    using acc by (auto simp: into_frontmatter_def and_then_Inr_iff)
  have "adds_key ({''kind'', ''abstract'', ''enforced_by''} \<union> {''entities''} \<union> {''relations''} \<union> {''applies_to''} \<union> {''source_files''}) [] fm"
    using put_texts_adds[OF a] put_entities_adds[OF b] put_relations_adds[OF c keys] put_applies_to_adds[OF d] put_source_files_adds[OF e]
    by (intro adds_key_trans) simp_all
  then have ok: "json_ok (JObj fm)" and ks: "\<And>k. map_of fm k \<noteq> None \<Longrightarrow>
      k \<in> lit ` {''kind'', ''abstract'', ''enforced_by'', ''entities'', ''relations'', ''applies_to'', ''source_files''}"
    by (simp_all add: adds_key_def insert_commute del: not_None_eq image_insert)
  have K: "fst ` set fm \<subseteq> lit ` {''kind'', ''abstract'', ''enforced_by'', ''entities'', ''relations'', ''applies_to'', ''source_files''}"
    using ks map_of_eq_None_iff[of fm] by blast
  have rel: "relation_target_ok env t" if "(r, ts) \<in> set (pm_relations m)" "t \<in> set ts" for r ts t
    using c that by (auto simp: put_relations_def list_ex_iff split: if_splits)
  have S: "sum_list (map (length \<circ> snd) (pm_relations m)) \<le> 32" using c by (auto simp: put_relations_def split: if_splits)
  have R: "\<exists>path p. (case split_once 58 t of None \<Rightarrow> path = trim t | Some (s, q) \<Rightarrow> path = trim q)
      \<and> p \<in> {path, path @ lit ''.md''} \<and> suffix (lit ''.md'') p \<and> page_path_new p = Inr p \<and> ensure_portable p = Inr ()"
    if "(r, ts) \<in> set (pm_relations m)" "t \<in> set ts" for r ts t
    using relation_target_okD[OF rel[OF that]] by (cases "split_once 58 t") (auto split: prod.splits)
  note W = source_files_confined[OF e, where root = root] and T = applies_to_known[OF d]
  show ?thesis
  proof (intro conjI ballI)
    fix x assume x: "x \<in> set (pm_relations m)"
    show "case x of (r, ts) \<Rightarrow> \<forall>t \<in> set ts. \<exists>path p.
         (case split_once 58 t of None \<Rightarrow> path = trim t | Some (s, q) \<Rightarrow> path = trim q)
         \<and> p \<in> {path, path @ lit ''.md''} \<and> suffix (lit ''.md'') p \<and> page_path_new p = Inr p \<and> ensure_portable p = Inr ()"
    proof (cases x)
      case (Pair r ts)
      show ?thesis unfolding Pair prod.case by (intro ballI R[OF x[unfolded Pair]])
    qed
  qed (fact ok K S | rule W[THEN conjunct1] W[THEN conjunct2, THEN conjunct1] W[THEN conjunct2, THEN conjunct2] T; assumption)+
qed

theorem write_metadata_gate_witness:
  "into_frontmatter demo_text \<lparr>pm_kind = None, pm_entities = [], pm_abstract = None, pm_relations = [], pm_applies_to = [lit ''Rust''],
     pm_enforced_by = Some (lit '' ci ''), pm_source_files = []\<rparr>
     = Inr [(lit ''enforced_by'', JStr (lit ''ci'')), (lit ''applies_to'', JArr [JStr (lit ''rust'')])]
   \<and> json_ok (JObj [(lit ''enforced_by'', JStr (lit ''ci'')), (lit ''applies_to'', JArr [JStr (lit ''rust'')])])"
proof -
  let ?m = "\<lparr>pm_kind = None, pm_entities = [], pm_abstract = None, pm_relations = [], pm_applies_to = [lit ''Rust''],
     pm_enforced_by = Some (lit '' ci ''), pm_source_files = []\<rparr>"
  have t: "trim (lit '' ci '') = lit ''ci''" "trim (lit ''Rust'') = lit ''Rust''" "map to_ascii_lower (lit ''Rust'') = lit ''rust''"
    by (simp_all add: lit_def trim_def is_whitespace_def to_ascii_lower_def)
  have v: "valid_text (lit '' ci '') 256" "valid_text (lit ''Rust'') 32" "lit ''ci'' \<noteq> []" "lit ''rust'' \<noteq> []"
    by (simp_all add: valid_text_def lit_def is_control_def)
  have acc: "into_frontmatter demo_text ?m
      = Inr [(lit ''enforced_by'', JStr (lit ''ci'')), (lit ''applies_to'', JArr [JStr (lit ''rust'')])]"
    by (simp add: into_frontmatter_def t v put_entities_def put_relations_def put_applies_to_def put_source_files_def
        check_tag_def Let_def demo_text_def map_insert_def contains_key_def max_entities_per_page_def)
  show ?thesis using acc write_metadata_gate[OF acc, of "[]"] by (simp only: page_write_metadata.simps list.map distinct.simps simp_thms)
qed

end
