(* ===== verification/Pages.thy ===== *)
theory Pages
  imports Schema PageMeta
begin

text \<open>
  The page versions of the store (\<^verbatim>\<open>ops.rs\<close>): the upsert transaction with its idempotent short-circuit,
  supersession and tombstone resurrection; links, entities and evidence; conditional writes; the two tombstoning
  sweeps, deletion, and the permanent deletion of an aged tombstone with its history; the OKF migrations. A function
  that ends in \<^verbatim>\<open>commit\<close> returns the store it commits; one that leaves its transaction early returns the store
  it was given, and so does the caller of one that fails (\<open>committed\<close>).

  SHA-256, the JSON printer and parser, Unicode normalization and the UUID grammar are parameters (\<open>page_env\<close>).
  Fresh ids and clock readings are arguments (\<open>write_ids\<close>). The full-text indexes are derived data and are not
  modelled. The scope triggers of migration V38 cannot fire: an entity is linked to a page of its own scope.
\<close>

section \<open>Parameters and inputs\<close>

record page_env =
  pe_okf :: okf_env
  pe_text :: text_env
  sha256 :: "ustr \<Rightarrow> digest"
  json_text :: "json \<Rightarrow> ustr"
  json_value :: "ustr \<Rightarrow> json option"
  nfc_normalized :: "ustr \<Rightarrow> bool"
  nfc :: "ustr \<Rightarrow> ustr"
  parse_session_id :: "ustr \<Rightarrow> uuid option"
  session_id_text :: "uuid \<Rightarrow> ustr"

record link_target =
  lt_workspace :: "ustr option"
  lt_project :: "ustr option"
  lt_path :: ustr
  lt_relation :: "relation option"

record page_evidence_source =
  ev_kind :: page_evidence_kind
  ev_source_id :: ustr

record new_page =
  np_workspace :: uuid
  np_project :: uuid
  np_path :: ustr
  np_title :: ustr
  np_body :: ustr
  np_tier :: tier
  np_frontmatter :: json
  np_pinned :: bool
  np_links :: "link_target list"
  np_author :: "uuid option"
  np_expires_at :: "int option"
  np_entities :: "ustr list"
  np_evidence :: "page_evidence_source list"

text \<open>The id of the version, the ids of the entities in the order they are drawn, and the clock read while attaching them.\<close>

record write_ids =
  wi_page :: uuid
  wi_entity :: "nat \<Rightarrow> uuid"
  wi_clock :: int

type_synonym page_key = "uuid \<times> uuid \<times> ustr"

definition page_key :: "page_row \<Rightarrow> page_key" where
  "page_key r = (pag_workspace r, pag_project r, pag_path r)"

definition target_key :: "new_page \<Rightarrow> page_key" where
  "target_key page = (np_workspace page, np_project page, np_path page)"

definition portable_page_key :: "page_env \<Rightarrow> ustr \<Rightarrow> ustr" where
  "portable_page_key env path =
     (let lowered = to_lowercase (pe_text env) path in
      if nfc_normalized env lowered then lowered else nfc env lowered)"

definition path_search_text :: "ustr \<Rightarrow> ustr" where
  "path_search_text path =
     (let segments = map (\<lambda>c. if c = slash \<or> c = dot then 32 else c) path;
          split = map (\<lambda>c. if c = 45 \<or> c = 95 then 32 else c) segments
      in segments @ [32] @ split)"

definition stamped_frontmatter :: "page_env \<Rightarrow> json \<Rightarrow> int \<Rightarrow> ustr" where
  "stamped_frontmatter env conformed now_us =
     json_text env
       (if generated_at conformed = None then stamp_generated_at (second_text (pe_okf env) now_us) conformed else conformed)"

section \<open>Lookups inside a transaction\<close>

definition latest_at :: "store \<Rightarrow> page_key \<Rightarrow> page_row option" where
  "latest_at s key = find (\<lambda>r. page_key r = key \<and> pag_is_latest r) (pages s)"

definition latest_page_id_in_tx :: "store \<Rightarrow> new_page \<Rightarrow> uuid option" where
  "latest_page_id_in_tx s page = map_option pag_id (latest_at s (target_key page))"

definition is_tombstone :: "page_row \<Rightarrow> bool" where
  "is_tombstone r \<longleftrightarrow> \<not> pag_is_latest r \<and> pag_superseded_at r \<noteq> None"

definition most_recent_tombstone_at_path :: "store \<Rightarrow> new_page \<Rightarrow> uuid option" where
  "most_recent_tombstone_at_path s page =
     map_option pag_id (first_by (\<lambda>r. - the (pag_superseded_at r))
       (filter (\<lambda>r. page_key r = target_key page \<and> is_tombstone r) (pages s)))"

definition colliding_live_path :: "page_env \<Rightarrow> store \<Rightarrow> new_page \<Rightarrow> ustr option" where
  "colliding_live_path env s page =
     map_option pag_path (find (\<lambda>r. pag_workspace r = np_workspace page \<and> pag_project r = np_project page \<and> pag_is_latest r
         \<and> pag_path r \<noteq> np_path page \<and> portable_page_key env (pag_path r) = portable_page_key env (np_path page)) (pages s))"

section \<open>Evidence, entities and links of a version\<close>

definition cite :: "uuid \<Rightarrow> int \<Rightarrow> evidence_row list \<Rightarrow> page_evidence_source \<Rightarrow> evidence_row list" where
  "cite page_id now rows e =
     (if exists_row (\<lambda>r. pev_page r = page_id \<and> pev_kind r = evidence_kind_str (ev_kind e) \<and> pev_source r = ev_source_id e) rows
      then rows
      else rows @ [\<lparr>pev_page = page_id, pev_kind = evidence_kind_str (ev_kind e), pev_source = ev_source_id e, pev_created_at = now\<rparr>])"

definition insert_evidence_in_tx :: "store \<Rightarrow> uuid \<Rightarrow> page_evidence_source list \<Rightarrow> int \<Rightarrow> store" where
  "insert_evidence_in_tx s page_id evidence now =
     s\<lparr>page_evidence := foldl (cite page_id now) (page_evidence s) evidence\<rparr>"

definition link_entity :: "store \<Rightarrow> uuid \<Rightarrow> uuid \<Rightarrow> int \<Rightarrow> store" where
  "link_entity s entity page_id valid_from =
     (if exists_row (\<lambda>l. epl_entity l = entity \<and> epl_page l = page_id) (entity_page_links s) then s
      else s\<lparr>entity_page_links := entity_page_links s @
        [\<lparr>epl_entity = entity, epl_page = page_id, epl_valid_from = Some valid_from, epl_superseded_at = None\<rparr>]\<rparr>)"

text \<open>One iteration draws an id whether or not the entity exists already.\<close>

fun attach_names :: "store \<Rightarrow> uuid \<Rightarrow> new_page \<Rightarrow> int \<Rightarrow> write_ids \<Rightarrow> nat \<Rightarrow> ustr list \<Rightarrow> store store_result" where
  "attach_names s page_id page version_created_at ids i [] = Inr s"
| "attach_names s page_id page version_created_at ids i (name # rest) =
     (case find (\<lambda>e. ent_workspace e = np_workspace page \<and> ent_project e = np_project page \<and> ent_name e = name) (entities s) of
        Some e \<Rightarrow> attach_names (link_entity s (ent_id e) page_id version_created_at) page_id page version_created_at ids (Suc i) rest
      | None \<Rightarrow>
          if exists_row (\<lambda>e. ent_id e = wi_entity ids i) (entities s) then Inl (Sqlite ''UNIQUE constraint failed: entities.id'')
          else attach_names
            (link_entity (s\<lparr>entities := entities s @
               [\<lparr>ent_id = wi_entity ids i, ent_workspace = np_workspace page, ent_project = np_project page,
                 ent_name = name, ent_created_at = wi_clock ids\<rparr>]\<rparr>) (wi_entity ids i) page_id version_created_at)
            page_id page version_created_at ids (Suc i) rest)"

definition attach_entities_in_tx :: "page_env \<Rightarrow> store \<Rightarrow> uuid \<Rightarrow> new_page \<Rightarrow> int \<Rightarrow> write_ids \<Rightarrow> store store_result" where
  "attach_entities_in_tx env s page_id page version_created_at ids =
     (if np_entities page = [] then Inr s
      else attach_names s page_id page version_created_at ids 0 (normalize_entities (pe_text env) (np_entities page)))"

definition global_scope_project :: ustr where
  "global_scope_project = lit ''_global''"

definition default_workspace_name :: ustr where
  "default_workspace_name = lit ''default''"

definition link_workspace_name :: "link_target \<Rightarrow> ustr option" where
  "link_workspace_name link =
     (if lt_workspace link = None \<and> lt_project link = Some global_scope_project then Some default_workspace_name
      else lt_workspace link)"

text \<open>
  The scope a link names, from a page of \<open>workspace\<close> and \<open>project\<close>: its own project for a bare link, otherwise
  the named project of the named or the source's workspace, if it exists.
\<close>

definition link_scope :: "store \<Rightarrow> uuid \<Rightarrow> uuid \<Rightarrow> ustr option \<Rightarrow> ustr option \<Rightarrow> (uuid \<times> uuid) option" where
  "link_scope s workspace project to_workspace to_project =
     (case to_project of
        None \<Rightarrow> Some (workspace, project)
      | Some project_name \<Rightarrow>
          Option.bind
            (case to_workspace of
               None \<Rightarrow> Some workspace
             | Some workspace_name \<Rightarrow> map_option wsp_id (find (\<lambda>w. wsp_name w = workspace_name) (workspaces s)))
            (\<lambda>w. map_option (\<lambda>p. (w, prj_id p)) (find (\<lambda>p. prj_workspace p = w \<and> prj_name p = project_name) (projects s))))"

definition latest_page_id_for_link :: "store \<Rightarrow> new_page \<Rightarrow> link_target \<Rightarrow> uuid option" where
  "latest_page_id_for_link s page link =
     Option.bind (link_scope s (np_workspace page) (np_project page) (link_workspace_name link) (lt_project link))
       (\<lambda>(w, p). map_option pag_id (latest_at s (w, p, lt_path link)))"

definition link_type_of :: "link_target \<Rightarrow> ustr" where
  "link_type_of link = (case lt_relation link of None \<Rightarrow> lit ''references'' | Some r \<Rightarrow> relation_str r)"

fun insert_links :: "store \<Rightarrow> uuid \<Rightarrow> new_page \<Rightarrow> (ustr option \<times> ustr option \<times> ustr \<times> relation option) list
    \<Rightarrow> link_target list \<Rightarrow> store" where
  "insert_links s from_page page seen [] = s"
| "insert_links s from_page page seen (link # rest) =
     (let key = (link_workspace_name link, lt_project link, lt_path link, lt_relation link) in
      if key \<in> set seen then insert_links s from_page page seen rest
      else insert_links
        (s\<lparr>links := links s @ [\<lparr>lnk_from = from_page, lnk_to = latest_page_id_for_link s page link,
             lnk_workspace = link_workspace_name link, lnk_project = lt_project link, lnk_path = lt_path link,
             lnk_type = link_type_of link\<rparr>]\<rparr>) from_page page (key # seen) rest)"

definition replace_links_in_tx :: "store \<Rightarrow> uuid \<Rightarrow> new_page \<Rightarrow> store" where
  "replace_links_in_tx s from_page page =
     insert_links (s\<lparr>links := filter (\<lambda>l. lnk_from l \<noteq> from_page) (links s)\<rparr>) from_page page [] (np_links page)"

text \<open>\<^verbatim>\<open>EXISTS (SELECT 1 FROM pages from_page WHERE from_page.id = links.from_page_id AND \<dots>)\<close>\<close>

definition source_is :: "store \<Rightarrow> (page_row \<Rightarrow> bool) \<Rightarrow> link_row \<Rightarrow> bool" where
  "source_is s P l \<longleftrightarrow> exists_row (\<lambda>r. pag_id r = lnk_from l \<and> P r) (pages s)"

definition repoint :: "(link_row \<Rightarrow> bool) \<Rightarrow> uuid \<Rightarrow> store \<Rightarrow> store" where
  "repoint P latest s = s\<lparr>links := update_where P (\<lambda>l. l\<lparr>lnk_to := Some latest\<rparr>) (links s)\<rparr>"

definition refresh_incoming_links_for_path :: "store \<Rightarrow> new_page \<Rightarrow> uuid \<Rightarrow> store" where
  "refresh_incoming_links_for_path s page latest =
     (let s1 = repoint (\<lambda>l. lnk_project l = None \<and> lnk_path l = np_path page
                 \<and> source_is s (\<lambda>r. pag_workspace r = np_workspace page \<and> pag_project r = np_project page) l) latest s
      in case (map_option prj_name (find (\<lambda>p. prj_id p = np_project page) (projects s)),
               map_option wsp_name (find (\<lambda>w. wsp_id w = np_workspace page) (workspaces s))) of
           (Some project_name, Some workspace_name) \<Rightarrow>
             (let s2 = repoint (\<lambda>l. lnk_project l = Some project_name \<and> lnk_path l = np_path page
                         \<and> (lnk_workspace l = Some workspace_name
                            \<or> (lnk_workspace l = None \<and> source_is s (\<lambda>r. pag_workspace r = np_workspace page) l))) latest s1
              in if project_name = global_scope_project \<and> workspace_name = default_workspace_name
                 then repoint (\<lambda>l. lnk_project l = Some global_scope_project \<and> lnk_path l = np_path page
                        \<and> lnk_workspace l = None) latest s2
                 else s2)
         | _ \<Rightarrow> s1)"

section \<open>The upsert transaction\<close>

definition insert_page_row :: "store \<Rightarrow> page_row \<Rightarrow> store store_result" where
  "insert_page_row s r =
     (if \<not> pairing_ok s (pag_workspace r) (pag_project r) then Inl (Sqlite ''pages.workspace_id does not match the project's workspace'')
      else if exists_row (\<lambda>q. pag_id q = pag_id r) (pages s) then Inl (Sqlite ''UNIQUE constraint failed: pages.id'')
      else if pag_is_latest r \<and> exists_row (\<lambda>q. pag_is_latest q \<and> page_key q = page_key r) (pages s)
      then Inl (Sqlite ''UNIQUE constraint failed: idx_pages_latest_path'')
      else if \<not> exists_row (\<lambda>w. wsp_id w = pag_workspace r) (workspaces s)
         \<or> \<not> set_option (pag_author r) \<subseteq> usr_id ` set (users s)
         \<or> \<not> set_option (pag_supersedes r) \<subseteq> pag_id ` set (pages s)
      then Inl (Sqlite ''FOREIGN KEY constraint failed'')
      else Inr (s\<lparr>pages := pages s @ [r]\<rparr>))"

text \<open>The row of a new version, both branches of the upsert insert the same columns.\<close>

definition version_row :: "page_env \<Rightarrow> new_page \<Rightarrow> json \<Rightarrow> uuid \<Rightarrow> uuid option \<Rightarrow> int \<Rightarrow> page_row" where
  "version_row env page conformed new_id supersedes now =
     \<lparr>pag_id = new_id, pag_workspace = np_workspace page, pag_project = np_project page, pag_path = np_path page,
      pag_path_search = path_search_text (np_path page), pag_title = np_title page, pag_tier = tier_str (np_tier page),
      pag_body = np_body page, pag_body_sha256 = sha256 env (np_body page),
      pag_frontmatter_json = stamped_frontmatter env conformed now, pag_is_latest = True, pag_supersedes = supersedes,
      pag_pinned = np_pinned page, pag_author = np_author page, pag_created_at = now, pag_updated_at = now,
      pag_superseded_at = None, pag_expires_at = np_expires_at page, pag_valid_from = Some now, pag_valid_to = None,
      pag_compacted_at = (if Option.bind (json_get conformed (lit ''compacted'')) json_as_bool = Some True then Some now else None)\<rparr>"

text \<open>The statements both branches end with.\<close>

definition add_version :: "page_env \<Rightarrow> store \<Rightarrow> new_page \<Rightarrow> json \<Rightarrow> write_ids \<Rightarrow> uuid option \<Rightarrow> string \<Rightarrow> int \<Rightarrow> (store \<times> uuid) store_result" where
  "add_version env s page conformed ids supersedes op now =
     and_then (insert_page_row s (version_row env page conformed (wi_page ids) supersedes now)) (\<lambda>s.
     and_then (attach_entities_in_tx env (replace_links_in_tx s (wi_page ids) page) (wi_page ids) page now ids) (\<lambda>s.
       let s = refresh_incoming_links_for_path s page (wi_page ids);
           s = insert_evidence_in_tx s (wi_page ids) (np_evidence page) now
       in Inr (audit s op (Some (np_workspace page)) (Some (np_project page)) (Some (wi_page ids)) (np_author page) now, wi_page ids)))"

definition close_entity_windows :: "store \<Rightarrow> uuid \<Rightarrow> int \<Rightarrow> store" where
  "close_entity_windows s page_id now =
     s\<lparr>entity_page_links := update_where (\<lambda>l. epl_page l = page_id \<and> epl_superseded_at l = None)
        (\<lambda>l. l\<lparr>epl_superseded_at := Some now\<rparr>) (entity_page_links s)\<rparr>"

definition unchanged :: "page_env \<Rightarrow> page_row \<Rightarrow> new_page \<Rightarrow> json \<Rightarrow> bool" where
  "unchanged env existing page conformed \<longleftrightarrow>
     pag_body_sha256 existing = sha256 env (np_body page)
     \<and> json_eq (strip_generated_at (case json_value env (pag_frontmatter_json existing) of Some v \<Rightarrow> v | None \<Rightarrow> JNull))
         (strip_generated_at conformed)
     \<and> pag_title existing = np_title page \<and> pag_tier existing = tier_str (np_tier page) \<and> pag_pinned existing = np_pinned page"

definition upsert_page_in_tx :: "page_env \<Rightarrow> store \<Rightarrow> new_page \<Rightarrow> write_ids \<Rightarrow> int \<Rightarrow> (store \<times> uuid) store_result" where
  "upsert_page_in_tx env s page ids now =
     (let conformed = conform_frontmatter (pe_okf env) (np_path page) (np_frontmatter page) in
      case latest_at s (target_key page) of
        Some existing \<Rightarrow>
          if unchanged env existing page conformed
          then Inr (insert_evidence_in_tx s (pag_id existing) (np_evidence page) now, pag_id existing)
          else let s = s\<lparr>pages := update_where (\<lambda>r. pag_id r = pag_id existing)
                           (\<lambda>r. r\<lparr>pag_is_latest := False, pag_valid_to := Some now\<rparr>) (pages s)\<rparr>;
                   s = close_entity_windows s (pag_id existing) now
               in add_version env s page conformed ids (Some (pag_id existing)) ''supersede_page'' now
      | None \<Rightarrow>
          (case colliding_live_path env s page of
             Some existing \<Rightarrow> Inl (PagePathCollides (np_path page) existing)
           | None \<Rightarrow>
               (let tombstone = most_recent_tombstone_at_path s page;
                    s = (case tombstone of
                           None \<Rightarrow> s
                         | Some t \<Rightarrow> s\<lparr>pages := update_where (\<lambda>r. pag_id r = t) (\<lambda>r. r\<lparr>pag_superseded_at := None\<rparr>) (pages s)\<rparr>)
                in add_version env s page conformed ids tombstone
                     (if tombstone \<noteq> None then ''resurrect_tombstoned_page'' else ''create_page'') now)))"

definition upsert_page :: "page_env \<Rightarrow> store \<Rightarrow> new_page \<Rightarrow> write_ids \<Rightarrow> int \<Rightarrow> (store \<times> uuid) store_result" where
  "upsert_page env s page ids now = upsert_page_in_tx env s page ids now"

definition strip_suffix :: "ustr \<Rightarrow> ustr \<Rightarrow> ustr option" where
  "strip_suffix e s = (if suffix e s then Some (take (length s - length e) s) else None)"

definition session_of_path :: "page_env \<Rightarrow> ustr \<Rightarrow> uuid option" where
  "session_of_path env path =
     Option.bind (strip_prefix (lit ''sessions/'') path) (\<lambda>rest.
     Option.bind (strip_suffix (lit ''.md'') rest) (parse_session_id env))"

text \<open>\<^verbatim>\<open>json_extract(frontmatter_json, '$.session_id') IS NOT \<dots>\<close> of a stored version; malformed text raises.\<close>

definition foreign_version :: "page_env \<Rightarrow> ustr \<Rightarrow> page_row \<Rightarrow> bool store_result" where
  "foreign_version env session_text r =
     (case json_value env (pag_frontmatter_json r) of
        None \<Rightarrow> Inl (Sqlite ''malformed JSON'')
      | Some v \<Rightarrow> Inr (json_get v (lit ''session_id'') \<noteq> Some (JStr session_text)))"

definition summary_blocked :: "page_env \<Rightarrow> store \<Rightarrow> new_page \<Rightarrow> uuid \<Rightarrow> bool store_result" where
  "summary_blocked env s page session =
     (let owns_file = (Option.bind (json_get (np_frontmatter page) (lit ''session_id'')) json_as_str = Some (session_id_text env session)) in
      if \<not> exists_row (\<lambda>t. pur_workspace t = np_workspace page \<and> pur_project t = np_project page \<and> pur_session t = session) (purged_sessions s)
      then Inr False
      else if owns_file then Inr True
      else case latest_at s (target_key page) of
        None \<Rightarrow> Inr True
      | Some r \<Rightarrow> and_then (foreign_version env (session_id_text env session) r) (\<lambda>foreign. Inr (\<not> foreign)))"

definition upsert_page_from_disk :: "page_env \<Rightarrow> store \<Rightarrow> new_page \<Rightarrow> write_ids \<Rightarrow> int \<Rightarrow> (store \<times> uuid) store_result" where
  "upsert_page_from_disk env s page ids now =
     (case session_of_path env (np_path page) of
        None \<Rightarrow> upsert_page_in_tx env s page ids now
      | Some session \<Rightarrow>
          and_then (summary_blocked env s page session) (\<lambda>blocked.
            if blocked then Inl (SessionPurged session) else upsert_page_in_tx env s page ids now))"

datatype page_precondition = PreAbsent | PreLatest uuid

datatype conditional_upsert = Upserted uuid | Mismatch "uuid option"

datatype conditional_batch_upsert = BatchUpserted "uuid list" | BatchMismatch nat "uuid option"

definition precondition_holds :: "page_precondition \<Rightarrow> uuid option \<Rightarrow> bool" where
  "precondition_holds precondition current =
     (case precondition of PreAbsent \<Rightarrow> current = None | PreLatest expected \<Rightarrow> current = Some expected)"

definition upsert_page_if :: "page_env \<Rightarrow> store \<Rightarrow> new_page \<Rightarrow> page_precondition \<Rightarrow> write_ids \<Rightarrow> int \<Rightarrow> (store \<times> conditional_upsert) store_result" where
  "upsert_page_if env s page precondition ids now =
     (let current = latest_page_id_in_tx s page in
      if \<not> precondition_holds precondition current then Inr (s, Mismatch current)
      else and_then (upsert_page_in_tx env s page ids now) (\<lambda>(s, i). Inr (s, Upserted i)))"

fun first_mismatch :: "store \<Rightarrow> nat \<Rightarrow> (new_page \<times> page_precondition) list \<Rightarrow> (nat \<times> uuid option) option" where
  "first_mismatch s index [] = None"
| "first_mismatch s index ((page, precondition) # rest) =
     (let current = latest_page_id_in_tx s page in
      if \<not> precondition_holds precondition current then Some (index, current) else first_mismatch s (Suc index) rest)"

fun upsert_each :: "page_env \<Rightarrow> store \<Rightarrow> new_page list \<Rightarrow> write_ids list \<Rightarrow> int \<Rightarrow> (store \<times> uuid list) store_result" where
  "upsert_each env s [] ids now = Inr (s, [])"
| "upsert_each env s (page # rest) ids now =
     and_then (upsert_page_in_tx env s page (hd ids) now) (\<lambda>(s, i).
     and_then (upsert_each env s rest (tl ids) now) (\<lambda>(s, is). Inr (s, i # is)))"

definition upsert_pages_batch :: "page_env \<Rightarrow> store \<Rightarrow> new_page list \<Rightarrow> write_ids list \<Rightarrow> int \<Rightarrow> (store \<times> uuid list) store_result" where
  "upsert_pages_batch env s batch ids now = upsert_each env s batch ids now"

definition upsert_pages_batch_if :: "page_env \<Rightarrow> store \<Rightarrow> (new_page \<times> page_precondition) list \<Rightarrow> write_ids list \<Rightarrow> int
    \<Rightarrow> (store \<times> conditional_batch_upsert) store_result" where
  "upsert_pages_batch_if env s batch ids now =
     (case first_mismatch s 0 batch of
        Some (index, current) \<Rightarrow> Inr (s, BatchMismatch index current)
      | None \<Rightarrow> and_then (upsert_each env s (map fst batch) ids now) (\<lambda>(s, is). Inr (s, BatchUpserted is)))"

section \<open>Tombstones and deletion\<close>

definition tombstone_if_latest :: "string \<Rightarrow> store \<Rightarrow> page_key \<Rightarrow> uuid \<Rightarrow> int \<Rightarrow> store \<times> bool" where
  "tombstone_if_latest op s key expected_latest now =
     (let P = (\<lambda>r. pag_id r = expected_latest \<and> page_key r = key \<and> pag_is_latest r) in
      if \<not> exists_row P (pages s) then (s, False)
      else (let s = s\<lparr>pages := update_where P (\<lambda>r. r\<lparr>pag_is_latest := False, pag_superseded_at := Some now, pag_valid_to := Some now\<rparr>) (pages s)\<rparr>;
                s = close_entity_windows s expected_latest now
            in (audit s op (Some (fst key)) (Some (fst (snd key))) (Some expected_latest) None now, True)))"

definition soft_delete_for_decay_if_latest :: "store \<Rightarrow> page_key \<Rightarrow> uuid \<Rightarrow> int \<Rightarrow> store \<times> bool" where
  "soft_delete_for_decay_if_latest = tombstone_if_latest ''soft_delete_for_decay''"

definition soft_delete_for_reconcile_if_latest :: "store \<Rightarrow> page_key \<Rightarrow> uuid \<Rightarrow> int \<Rightarrow> store \<times> bool" where
  "soft_delete_for_reconcile_if_latest = tombstone_if_latest ''soft_delete_for_reconcile''"

text \<open>
  \<^verbatim>\<open>DELETE FROM pages WHERE \<dots>\<close> with the foreign keys onto \<^verbatim>\<open>pages(id)\<close>: links out of the deleted versions,
  their evidence and entity links go with them; \<^verbatim>\<open>supersedes\<close>, links into them and session summaries become null.
\<close>

definition forget :: "uuid set \<Rightarrow> uuid option \<Rightarrow> uuid option" where
  "forget gone i = (case i of Some x \<Rightarrow> if x \<in> gone then None else i | None \<Rightarrow> None)"

definition delete_pages_where :: "(page_row \<Rightarrow> bool) \<Rightarrow> store \<Rightarrow> store" where
  "delete_pages_where P s =
     (let gone = pag_id ` set (filter P (pages s)) in
      s\<lparr>pages := map (\<lambda>r. r\<lparr>pag_supersedes := forget gone (pag_supersedes r)\<rparr>) (filter (\<lambda>r. \<not> P r) (pages s)),
        links := map (\<lambda>l. l\<lparr>lnk_to := forget gone (lnk_to l)\<rparr>) (filter (\<lambda>l. lnk_from l \<notin> gone) (links s)),
        page_evidence := filter (\<lambda>e. pev_page e \<notin> gone) (page_evidence s),
        entity_page_links := filter (\<lambda>l. epl_page l \<notin> gone) (entity_page_links s),
        sessions := map (\<lambda>r. r\<lparr>ses_summary_page := forget gone (ses_summary_page r)\<rparr>) (sessions s)\<rparr>)"

definition delete_unlinked_entities :: "store \<Rightarrow> uuid \<Rightarrow> uuid \<Rightarrow> store" where
  "delete_unlinked_entities s workspace project =
     s\<lparr>entities := filter (\<lambda>e. \<not> (ent_workspace e = workspace \<and> ent_project e = project
        \<and> \<not> exists_row (\<lambda>l. epl_entity l = ent_id e) (entity_page_links s))) (entities s)\<rparr>"

definition delete_page_inner :: "store \<Rightarrow> page_key \<Rightarrow> uuid option \<Rightarrow> uuid option \<Rightarrow> int \<Rightarrow> store \<times> bool" where
  "delete_page_inner s key expected_latest author now =
     (let page_id = map_option pag_id (latest_at s key) in
      if expected_latest \<noteq> None \<and> page_id \<noteq> expected_latest then (s, False)
      else if \<not> exists_row (\<lambda>r. page_key r = key) (pages s) then (s, False)
      else (let s = delete_pages_where (\<lambda>r. page_key r = key) s;
                s = delete_unlinked_entities s (fst key) (fst (snd key))
            in (audit s ''delete_page'' (Some (fst key)) (Some (fst (snd key))) page_id author now, True)))"

definition delete_page :: "store \<Rightarrow> page_key \<Rightarrow> uuid option \<Rightarrow> int \<Rightarrow> store" where
  "delete_page s key author now = fst (delete_page_inner s key None author now)"

definition delete_page_if_latest :: "store \<Rightarrow> page_key \<Rightarrow> uuid \<Rightarrow> uuid option \<Rightarrow> int \<Rightarrow> store \<times> bool" where
  "delete_page_if_latest s key expected_latest author now = delete_page_inner s key (Some expected_latest) author now"

text \<open>
  The recursive query: from a version, along \<^verbatim>\<open>supersedes\<close>, as long as the parent is a version of the same path.
  \<^verbatim>\<open>UNION\<close> drops a version met before, so the query ends even on a cycle.
\<close>

function decay_chain :: "page_row list \<Rightarrow> page_key \<Rightarrow> uuid list \<Rightarrow> uuid \<Rightarrow> uuid list" where
  "decay_chain rows key seen i =
     (if i \<in> set seen then seen
      else case find (\<lambda>r. pag_id r = i \<and> page_key r = key) rows of
        None \<Rightarrow> seen
      | Some r \<Rightarrow> (case pag_supersedes r of None \<Rightarrow> i # seen | Some j \<Rightarrow> decay_chain rows key (i # seen) j))"
  by pat_completeness auto
termination
proof (relation "measure (\<lambda>(rows, key, seen, i). length (filter (\<lambda>r. pag_id r \<notin> set seen) rows))")
  fix rows key seen i r j
  assume i: "i \<notin> set seen" and r: "find (\<lambda>r. pag_id r = i \<and> page_key r = key) rows = Some r"
  have "r \<in> set rows" "pag_id r = i" using find_SomeD[OF r] by auto
  have "filter (\<lambda>r. pag_id r \<notin> set (i # seen)) rows = filter (\<lambda>r. pag_id r \<noteq> i) (filter (\<lambda>r. pag_id r \<notin> set seen) rows)"
    by (auto intro!: filter_cong)
  moreover have "length (filter (\<lambda>r. pag_id r \<noteq> i) xs) < length xs" if "r \<in> set xs" for xs
    using that \<open>pag_id r = i\<close> by (simp add: length_filter_less)
  ultimately show "((rows, key, i # seen, j), (rows, key, seen, i)) \<in> measure (\<lambda>(rows, key, seen, i). length (filter (\<lambda>r. pag_id r \<notin> set seen) rows))"
    using \<open>r \<in> set rows\<close> i \<open>pag_id r = i\<close> by (simp del: filter_filter)
qed simp

declare decay_chain.simps [simp del]

definition decay_root :: "page_key \<Rightarrow> int \<Rightarrow> uuid \<Rightarrow> page_row \<Rightarrow> bool" where
  "decay_root key cutoff tombstone r \<longleftrightarrow>
     pag_id r = tombstone \<and> page_key r = key \<and> \<not> pag_is_latest r
     \<and> (case pag_superseded_at r of None \<Rightarrow> False | Some at_us \<Rightarrow> at_us \<le> cutoff)"

definition hard_delete_decayed_page_chain :: "store \<Rightarrow> page_key \<Rightarrow> uuid \<Rightarrow> uuid option \<Rightarrow> int \<Rightarrow> int \<Rightarrow> store \<times> nat" where
  "hard_delete_decayed_page_chain s key tombstone expected_latest cutoff now =
     (if map_option pag_id (latest_at s key) \<noteq> expected_latest then (s, 0)
      else (let chain = (if exists_row (decay_root key cutoff tombstone) (pages s) then decay_chain (pages s) key [] tombstone else []);
                n = changed_rows (\<lambda>r. pag_id r \<in> set chain) (pages s)
            in if n = 0 then (s, 0)
               else (let s = delete_pages_where (\<lambda>r. pag_id r \<in> set chain) s;
                         s = delete_unlinked_entities s (fst key) (fst (snd key))
                     in (audit s ''hard_delete_decayed'' (Some (fst key)) (Some (fst (snd key))) (Some tombstone) None now, n))))"

section \<open>Migration to the Open Knowledge Format\<close>

definition stored_frontmatter :: "page_env \<Rightarrow> page_row \<Rightarrow> json" where
  "stored_frontmatter env r = (case json_value env (pag_frontmatter_json r) of Some v \<Rightarrow> v | None \<Rightarrow> JNull)"

definition okf_nonconformant :: "page_env \<Rightarrow> page_row \<Rightarrow> bool" where
  "okf_nonconformant env r \<longleftrightarrow>
     (let fm = stored_frontmatter env r in
      \<not> json_eq (conform_frontmatter (pe_okf env) (pag_path r) fm) fm \<or> generated_at fm = None)"

definition okf_nonconformant_latest_pages :: "page_env \<Rightarrow> store \<Rightarrow> nat" where
  "okf_nonconformant_latest_pages env s = length (filter (\<lambda>r. pag_is_latest r \<and> okf_nonconformant env r) (pages s))"

definition okf_migrated :: "page_env \<Rightarrow> page_row \<Rightarrow> json" where
  "okf_migrated env r =
     (let conformed = conform_frontmatter (pe_okf env) (pag_path r) (stored_frontmatter env r) in
      if generated_at conformed = None then stamp_generated_at (second_text (pe_okf env) (pag_updated_at r)) conformed else conformed)"

definition okf_needs_rewrite :: "page_env \<Rightarrow> page_row \<Rightarrow> bool" where
  "okf_needs_rewrite env r \<longleftrightarrow> pag_is_latest r \<and> \<not> json_eq (okf_migrated env r) (stored_frontmatter env r)"

definition okf_migrate_latest_pages :: "page_env \<Rightarrow> store \<Rightarrow> store \<times> (uuid \<times> uuid \<times> ustr \<times> ustr) list" where
  "okf_migrate_latest_pages env s =
     (s\<lparr>pages := update_where (okf_needs_rewrite env) (\<lambda>r. r\<lparr>pag_frontmatter_json := json_text env (okf_migrated env r)\<rparr>) (pages s)\<rparr>,
      map (\<lambda>r. (pag_workspace r, pag_project r, pag_path r,
                case generated_at (okf_migrated env r) of Some a \<Rightarrow> a | None \<Rightarrow> second_text (pe_okf env) (pag_updated_at r)))
        (filter (okf_needs_rewrite env) (pages s)))"

text \<open>\<^verbatim>\<open>LIKE\<close> folds the ASCII case; the pattern only narrows the scan.\<close>

definition mentions_expires_at :: "page_row \<Rightarrow> bool" where
  "mentions_expires_at r \<longleftrightarrow>
     contains_str ([34] @ lit ''expires_at'' @ [34]) (map to_ascii_lower (pag_frontmatter_json r))"

definition date_only_ttl :: "page_env \<Rightarrow> json \<Rightarrow> bool" where
  "date_only_ttl env fm =
     (case Option.bind (json_get fm (lit ''expires_at'')) json_as_str of
        None \<Rightarrow> False
      | Some raw \<Rightarrow> parse_timestamp (pe_okf env) (trim raw) = None \<and> parse_expires_at_instant (pe_okf env) raw \<noteq> None)"

definition repair_candidate :: "page_env \<Rightarrow> page_row \<Rightarrow> bool" where
  "repair_candidate env r \<longleftrightarrow>
     pag_is_latest r \<and> mentions_expires_at r
     \<and> (case json_value env (pag_frontmatter_json r) of None \<Rightarrow> False | Some fm \<Rightarrow> date_only_ttl env fm)"

definition repair_latest_stale_after :: "page_env \<Rightarrow> store \<Rightarrow> store \<times> nat \<times> (uuid \<times> uuid \<times> ustr) list" where
  "repair_latest_stale_after env s =
     (let changes = (\<lambda>r. repair_candidate env r \<and> snd (repair_date_only_stale_after (pe_okf env) (stored_frontmatter env r))) in
      (s\<lparr>pages := update_where changes
          (\<lambda>r. r\<lparr>pag_frontmatter_json := json_text env (fst (repair_date_only_stale_after (pe_okf env) (stored_frontmatter env r)))\<rparr>)
          (pages s)\<rparr>,
       changed_rows changes (pages s),
       map page_key (filter (repair_candidate env) (pages s))))"

end
