(* ===== verification/PageHistory.thy ===== *)
theory PageHistory
  imports Pages
begin

text \<open>
  The version history of the page table. \<open>pages_ok\<close> is the invariant of the rows: ids are unique, each path has at
  most one head (the live version, or the tombstone that closed it), every other version is superseded by
  exactly one version of the same path, and a version only supersedes one that was inserted before it. It follows
  that the history of a path is one chain, and that the recursive query started at the head collects exactly the
  versions of the path.
\<close>

definition is_head :: "page_row \<Rightarrow> bool" where
  "is_head r \<longleftrightarrow> pag_is_latest r \<or> pag_superseded_at r \<noteq> None"

fun earlier :: "uuid set \<Rightarrow> page_row list \<Rightarrow> bool" where
  "earlier S [] = True"
| "earlier S (r # rs) = (set_option (pag_supersedes r) \<subseteq> S \<and> earlier (insert (pag_id r) S) rs)"

definition superseded_ok :: "page_row list \<Rightarrow> bool" where
  "superseded_ok rows \<longleftrightarrow>
     (\<forall>r \<in> set rows. \<forall>x. pag_supersedes r = Some x \<longrightarrow>
        (\<exists>q \<in> set rows. pag_id q = x \<and> page_key q = page_key r \<and> \<not> is_head q))"

definition covered :: "page_row list \<Rightarrow> bool" where
  "covered rows \<longleftrightarrow> (\<forall>r \<in> set rows. \<not> is_head r \<longrightarrow> (\<exists>q \<in> set rows. pag_supersedes q = Some (pag_id r)))"

definition pages_ok :: "page_row list \<Rightarrow> bool" where
  "pages_ok rows \<longleftrightarrow>
     unique_on (\<lambda>_. True) pag_id rows \<and> unique_on is_head page_key rows
     \<and> (\<forall>r \<in> set rows. pag_is_latest r \<longrightarrow> pag_superseded_at r = None \<and> pag_valid_to r = None)
     \<and> earlier {} rows \<and> superseded_ok rows \<and> unique_on (\<lambda>r. pag_supersedes r \<noteq> None) pag_supersedes rows \<and> covered rows"

lemma unique_on_filter: "unique_on Q k rows \<Longrightarrow> unique_on Q k (filter R rows)"
proof -
  have "filter Q (filter R rows) = filter R (filter Q rows)" by (simp add: conj_commute)
  then show "unique_on Q k rows \<Longrightarrow> unique_on Q k (filter R rows)" unfolding unique_on_def by (simp only: distinct_map_filter)
qed

lemma pages_okD:
  assumes "pages_ok rows"
  shows "unique_on (\<lambda>_. True) pag_id rows" "unique_on is_head page_key rows"
    "\<And>r. r \<in> set rows \<Longrightarrow> pag_is_latest r \<Longrightarrow> pag_superseded_at r = None"
    "\<And>r. r \<in> set rows \<Longrightarrow> pag_is_latest r \<Longrightarrow> pag_valid_to r = None"
    "earlier {} rows" "superseded_ok rows" "unique_on (\<lambda>r. pag_supersedes r \<noteq> None) pag_supersedes rows" "covered rows"
  using assms by (simp_all add: pages_ok_def)

lemma same_id: "pages_ok rows \<Longrightarrow> r \<in> set rows \<Longrightarrow> q \<in> set rows \<Longrightarrow> pag_id r = pag_id q \<Longrightarrow> r = q"
  by (rule unique_onD[OF pages_okD(1)]) simp_all

lemma same_head:
  "pages_ok rows \<Longrightarrow> r \<in> set rows \<Longrightarrow> q \<in> set rows \<Longrightarrow> is_head r \<Longrightarrow> is_head q \<Longrightarrow> page_key r = page_key q \<Longrightarrow> r = q"
  by (rule unique_onD[OF pages_okD(2)])

lemma latest_head: "pag_is_latest r \<Longrightarrow> is_head r"
  by (simp add: is_head_def)

lemma tombstone_head: "is_tombstone r \<Longrightarrow> is_head r"
  by (simp add: is_head_def is_tombstone_def)

lemma pages_ok_Nil [simp]: "pages_ok []"
  by (simp add: pages_ok_def superseded_ok_def covered_def)

section \<open>Order of insertion\<close>

lemma earlier_append: "earlier S (rs @ ts) \<longleftrightarrow> earlier S rs \<and> earlier (S \<union> pag_id ` set rs) ts"
  by (induction rs arbitrary: S) auto

lemma earlier_snoc: "earlier {} (rs @ [r]) \<longleftrightarrow> earlier {} rs \<and> set_option (pag_supersedes r) \<subseteq> pag_id ` set rs"
  by (simp add: earlier_append)

lemma earlier_update:
  assumes "\<And>r. pag_id (f r) = pag_id r" "\<And>r. pag_supersedes (f r) = pag_supersedes r"
  shows "earlier S (update_where P f rows) = earlier S rows"
  by (induction rows arbitrary: S) (auto simp: update_where_def assms)

lemma earlier_delete:
  assumes "\<And>r. r \<in> set rows \<Longrightarrow> \<not> P r \<Longrightarrow> pag_id r \<notin> gone" "\<And>r. r \<in> set rows \<Longrightarrow> P r \<Longrightarrow> pag_id r \<in> gone"
  shows "earlier S rows \<Longrightarrow>
    earlier (S - gone) (map (\<lambda>r. r\<lparr>pag_supersedes := forget gone (pag_supersedes r)\<rparr>) (filter (\<lambda>r. \<not> P r) rows))"
  using assms
proof (induction rows arbitrary: S)
  case (Cons r rows)
  note IH = Cons.IH[of "insert (pag_id r) S"]
  show ?case
  proof (cases "P r")
    case True
    then have "pag_id r \<in> gone" using Cons.prems(3) by simp
    then have "insert (pag_id r) S - gone = S - gone" by blast
    then show ?thesis using True Cons.prems IH by simp
  next
    case False
    then have "pag_id r \<notin> gone" using Cons.prems(2) by simp
    then have "insert (pag_id r) S - gone = insert (pag_id r) (S - gone)" by blast
    then show ?thesis using False Cons.prems IH by (auto simp: forget_def split: option.splits)
  qed
qed simp

lemma superseder_later:
  assumes "pages_ok (xs @ r # ys)" "q \<in> set (xs @ r # ys)" "pag_supersedes q = Some (pag_id r)"
  shows "q \<in> set ys"
proof (rule ccontr)
  assume "q \<notin> set ys"
  with assms(2) have "q \<in> set xs \<or> q = r" by auto
  then obtain as bs where "xs @ [r] = as @ q # bs" using split_list[of q "xs @ [r]"] by auto
  then have rows: "xs @ r # ys = as @ q # bs @ ys" and pre: "set as \<subseteq> set xs"
    by (metis append.assoc append_Cons append_Nil) (metis \<open>xs @ [r] = as @ q # bs\<close> butlast_append butlast_snoc list.discI set_append sup_ge1 butlast.simps(2))
  have "earlier (pag_id ` set as) (q # bs @ ys)" using pages_okD(5)[OF assms(1)] unfolding rows earlier_append by simp
  then have "pag_id r \<in> pag_id ` set as" using assms(3) by simp
  then have "pag_id r \<in> pag_id ` set xs" using pre by blast
  then show False using pages_okD(1)[OF assms(1)] by (auto simp: unique_on_def)
qed

section \<open>The recursive query\<close>

lemma decay_chain_seen: "set seen \<subseteq> set (decay_chain rows key seen i)"
proof (induction rows key seen i rule: decay_chain.induct)
  case (1 rows key seen i)
  then show ?case by (subst decay_chain.simps) (auto split: option.splits)
qed

lemma decay_chain_start:
  assumes "r \<in> set rows" "pag_id r = i" "page_key r = key"
  shows "i \<in> set (decay_chain rows key seen i)"
proof (cases "find (\<lambda>r. pag_id r = i \<and> page_key r = key) rows")
  case None
  then show ?thesis using assms by (auto simp: find_None_iff)
next
  case (Some q)
  have "i \<in> set (decay_chain rows key (i # seen) j)" for j using decay_chain_seen[of "i # seen" rows key j] by auto
  then show ?thesis using Some by (subst decay_chain.simps) (auto split: option.splits)
qed

lemma decay_chain_rows:
  "set seen \<subseteq> pag_id ` {r \<in> set rows. page_key r = key} \<Longrightarrow>
   set (decay_chain rows key seen i) \<subseteq> pag_id ` {r \<in> set rows. page_key r = key}"
proof (induction rows key seen i rule: decay_chain.induct)
  case (1 rows key seen i)
  show ?case
  proof (cases "i \<in> set seen")
    case True
    then show ?thesis using "1.prems" by (subst decay_chain.simps) simp
  next
    case False
    show ?thesis
    proof (cases "find (\<lambda>r. pag_id r = i \<and> page_key r = key) rows")
      case None
      then show ?thesis using "1.prems" by (subst decay_chain.simps) simp
    next
      case (Some r)
      have "i \<in> pag_id ` {r \<in> set rows. page_key r = key}" using find_SomeD[OF Some] by blast
      then have s: "set (i # seen) \<subseteq> pag_id ` {r \<in> set rows. page_key r = key}" using "1.prems" by simp
      show ?thesis
      proof (cases "pag_supersedes r")
        case None
        then show ?thesis using s False Some by (subst decay_chain.simps) simp
      next
        case p: (Some j)
        then show ?thesis using "1.IH"[OF False Some p s] False Some by (subst decay_chain.simps) simp
      qed
    qed
  qed
qed

text \<open>A parent of a collected version that is a version of the path is collected.\<close>

lemma decay_chain_closed:
  "pages_ok rows \<Longrightarrow>
   (\<And>r j. r \<in> set rows \<Longrightarrow> pag_id r \<in> set seen \<Longrightarrow> pag_supersedes r = Some j \<Longrightarrow> j \<in> set seen \<or> j = i) \<Longrightarrow>
   r \<in> set rows \<Longrightarrow> pag_id r \<in> set (decay_chain rows key seen i) \<Longrightarrow> pag_supersedes r = Some (pag_id q) \<Longrightarrow>
   q \<in> set rows \<Longrightarrow> page_key q = key \<Longrightarrow> pag_id q \<in> set (decay_chain rows key seen i)"
proof (induction rows key seen i rule: decay_chain.induct)
  case (1 rows key seen i)
  note ok = "1.prems"(1) and inv = "1.prems"(2) and r = "1.prems"(3,4,5) and q = "1.prems"(6,7)
  show ?case
  proof (cases "i \<in> set seen")
    case True
    then have "decay_chain rows key seen i = seen" by (subst decay_chain.simps) simp
    then show ?thesis using inv[OF r(1) _ r(3)] r(2) True by auto
  next
    case False
    show ?thesis
    proof (cases "find (\<lambda>r. pag_id r = i \<and> page_key r = key) rows")
      case None
      then have e: "decay_chain rows key seen i = seen" using False by (subst decay_chain.simps) simp
      have "pag_id q \<noteq> i" using None q by (auto simp: find_None_iff)
      then show ?thesis using inv[OF r(1) _ r(3)] r(2) e by auto
    next
      case (Some p)
      have p: "p \<in> set rows" "pag_id p = i" using find_SomeD[OF Some] by auto
      have own: "x = p" if "x \<in> set rows" "pag_id x = i" for x using same_id[OF ok that(1) p(1)] that(2) p(2) by simp
      show ?thesis
      proof (cases "pag_supersedes p")
        case None
        then have e: "decay_chain rows key seen i = i # seen" using False Some by (subst decay_chain.simps) simp
        have "pag_id r \<noteq> i" using own[OF r(1)] None r(3) by auto
        then show ?thesis using inv[OF r(1) _ r(3)] r(2) e by auto
      next
        case s: (Some j)
        then have e: "decay_chain rows key seen i = decay_chain rows key (i # seen) j"
          using False Some by (subst decay_chain.simps) simp
        have inv': "k \<in> set (i # seen) \<or> k = j" if "x \<in> set rows" "pag_id x \<in> set (i # seen)" "pag_supersedes x = Some k" for x k
          using inv[OF that(1) _ that(3)] own[OF that(1)] that(2,3) s by auto
        show ?thesis unfolding e by (rule "1.IH"[OF False Some s ok _ r(1) r(2)[unfolded e] r(3) q]) (rule inv')
      qed
    qed
  qed
qed

text \<open>From the head of a path the query collects every version of the path and nothing else.\<close>

theorem chain_is_history:
  assumes "pages_ok rows" "h \<in> set rows" "is_head h"
  shows "set (decay_chain rows (page_key h) [] (pag_id h)) = pag_id ` {r \<in> set rows. page_key r = page_key h}"
proof
  let ?C = "set (decay_chain rows (page_key h) [] (pag_id h))"
  show "?C \<subseteq> pag_id ` {r \<in> set rows. page_key r = page_key h}" by (rule decay_chain_rows) simp
  have start: "pag_id h \<in> ?C" by (rule decay_chain_start[OF assms(2)]) simp_all
  have "rows = xs @ ys \<Longrightarrow> r \<in> set ys \<Longrightarrow> page_key r = page_key h \<Longrightarrow> pag_id r \<in> ?C" for xs ys r
  proof (induction ys arbitrary: xs r)
    case (Cons a ys)
    have IH: "pag_id r \<in> ?C" if "r \<in> set ys" "page_key r = page_key h" for r
      using Cons.IH[of "xs @ [a]" r] Cons.prems(1) that by simp
    show ?case
    proof (cases "r \<in> set ys")
      case True
      then show ?thesis using IH Cons.prems(3) by blast
    next
      case False
      then have a: "r = a" using Cons.prems(2) by simp
      have r: "r \<in> set rows" using Cons.prems(1) a by simp
      show ?thesis
      proof (cases "is_head r")
        case True
        from same_head[OF assms(1) r assms(2) True assms(3) Cons.prems(3)] show ?thesis using start by simp
      next
        case nh: False
        then obtain q where q: "q \<in> set rows" "pag_supersedes q = Some (pag_id r)"
          using pages_okD(8)[OF assms(1)] r unfolding covered_def by blast
        obtain t where t: "t \<in> set rows" "pag_id t = pag_id r" "page_key t = page_key q"
          using pages_okD(6)[OF assms(1)] q unfolding superseded_ok_def by blast
        have "t = r" by (rule same_id[OF assms(1) t(1) r t(2)])
        with t(3) Cons.prems(3) have k: "page_key q = page_key h" by simp
        have "q \<in> set ys" using superseder_later[of xs a ys q] assms(1) q a unfolding Cons.prems(1) by simp
        from IH[OF this k] have "pag_id q \<in> ?C" .
        then show ?thesis
          by (intro decay_chain_closed[OF assms(1) _ q(1) _ q(2) r Cons.prems(3)]) simp_all
      qed
    qed
  qed simp
  then show "pag_id ` {r \<in> set rows. page_key r = page_key h} \<subseteq> ?C" by blast
qed

section \<open>What keeps the history intact\<close>

lemma covered_update:
  assumes "covered rows" "\<And>r. pag_id (f r) = pag_id r" "\<And>r. pag_supersedes (f r) = pag_supersedes r"
    and "\<And>r. r \<in> set rows \<Longrightarrow> P r \<Longrightarrow> \<not> is_head (f r) \<Longrightarrow> \<not> is_head r"
  shows "covered (update_where P f rows)"
  unfolding covered_def
proof (intro ballI impI)
  fix r assume r: "r \<in> set (update_where P f rows)" "\<not> is_head r"
  obtain a where a: "a \<in> set rows" "r = (if P a then f a else a)" using r(1) by (auto simp: set_update_where)
  have "\<not> is_head a" using a r(2) assms(4)[of a] by (auto split: if_splits)
  then obtain q where q: "q \<in> set rows" "pag_supersedes q = Some (pag_id a)" using assms(1) a(1) unfolding covered_def by blast
  have "pag_id r = pag_id a" using a(2) assms(2) by simp
  then show "\<exists>q \<in> set (update_where P f rows). pag_supersedes q = Some (pag_id r)"
    using in_update_where[OF q(1), of P f] q(2) assms(3) by (intro bexI[of _ "if P q then f q else q"]) auto
qed

lemma superseded_ok_update:
  assumes "superseded_ok rows" "\<And>r. pag_id (f r) = pag_id r" "\<And>r. pag_supersedes (f r) = pag_supersedes r"
    "\<And>r. page_key (f r) = page_key r" and "\<And>r. r \<in> set rows \<Longrightarrow> P r \<Longrightarrow> is_head (f r) \<Longrightarrow> is_head r"
  shows "superseded_ok (update_where P f rows)"
  unfolding superseded_ok_def
proof (intro ballI allI impI)
  fix r x assume r: "r \<in> set (update_where P f rows)" "pag_supersedes r = Some x"
  obtain a where a: "a \<in> set rows" "r = (if P a then f a else a)" using r(1) by (auto simp: set_update_where)
  have "pag_supersedes a = Some x" "page_key a = page_key r" using a(2) r(2) assms(3,4) by (auto split: if_splits)
  then obtain q where q: "q \<in> set rows" "pag_id q = x" "page_key q = page_key r" "\<not> is_head q"
    using assms(1) a(1) unfolding superseded_ok_def by metis
  show "\<exists>q \<in> set (update_where P f rows). pag_id q = x \<and> page_key q = page_key r \<and> \<not> is_head q"
    using in_update_where[OF q(1), of P f] q assms(2,4,5) by (intro bexI[of _ "if P q then f q else q"]) auto
qed

text \<open>Rewriting a column that is no part of the history.\<close>

lemma pages_ok_in_place:
  assumes "pages_ok rows" "\<And>r. pag_id (f r) = pag_id r" "\<And>r. pag_supersedes (f r) = pag_supersedes r" "\<And>r. page_key (f r) = page_key r"
    "\<And>r. pag_is_latest (f r) = pag_is_latest r" "\<And>r. pag_superseded_at (f r) = pag_superseded_at r" "\<And>r. pag_valid_to (f r) = pag_valid_to r"
  shows "pages_ok (update_where P f rows)"
proof -
  have h: "is_head (f r) = is_head r" for r by (simp add: is_head_def assms(5,6))
  note ok = pages_okD[OF assms(1)]
  show ?thesis
    unfolding pages_ok_def
    using ok unique_on_update_where[OF ok(1), of P f] unique_on_update_where[OF ok(2), of P f] unique_on_update_where[OF ok(7), of P f]
      superseded_ok_update[OF ok(6), of f P] covered_update[OF ok(8), of f P]
    by (simp add: assms(2-) h earlier_update ball_update_where)
qed

text \<open>A live version becomes a tombstone: the path keeps its one head.\<close>

lemma pages_ok_tombstone:
  assumes "pages_ok rows" "\<And>r. P r \<Longrightarrow> pag_is_latest r"
    "f = (\<lambda>r. r\<lparr>pag_is_latest := False, pag_superseded_at := Some now, pag_valid_to := Some now\<rparr>)"
  shows "pages_ok (update_where P f rows)"
proof -
  note ok = pages_okD[OF assms(1)]
  have h: "P r \<Longrightarrow> is_head r" "is_head (f r)" for r using assms(2) by (auto simp: is_head_def assms(3))
  have k: "page_key (f r) = page_key r" "pag_id (f r) = pag_id r" "pag_supersedes (f r) = pag_supersedes r" "\<not> pag_is_latest (f r)" for r
    by (simp_all add: assms(3) page_key_def)
  show ?thesis
    unfolding pages_ok_def
    using ok unique_on_update_where[OF ok(1), of P f] unique_on_update_where[OF ok(2), of P f] unique_on_update_where[OF ok(7), of P f]
      superseded_ok_update[OF ok(6), of f P] covered_update[OF ok(8), of f P]
    by (simp add: k h earlier_update ball_update_where)
qed

text \<open>The head is superseded by a new version; without a head the new version starts the path.\<close>

lemma pages_ok_supersede:
  assumes ok: "pages_ok rows" and h: "h \<in> set rows" "is_head h" "page_key h = page_key r"
    and f: "\<And>x. pag_id (f x) = pag_id x" "\<And>x. pag_supersedes (f x) = pag_supersedes x" "\<And>x. page_key (f x) = page_key x" "\<not> is_head (f h)"
    and r: "pag_supersedes r = Some (pag_id h)" "pag_is_latest r" "pag_superseded_at r = None" "pag_valid_to r = None"
      "pag_id r \<notin> pag_id ` set rows"
  shows "pages_ok (update_where (\<lambda>x. pag_id x = pag_id h) f rows @ [r])"
proof -
  let ?P = "\<lambda>x. pag_id x = pag_id h" and ?u = "update_where (\<lambda>x. pag_id x = pag_id h) f rows"
  have only: "x = h" if "x \<in> set rows" "?P x" for x using same_id[OF ok that(1) h(1)] that(2) by simp
  note o = pages_okD[OF ok]
  have ids: "pag_id ` set ?u = pag_id ` set rows" by (rule image_update_where) (simp add: f)
  have fh: "f h \<in> set ?u" using in_update_where[OF h(1), of ?P f] by simp
  have src: "\<exists>a \<in> set rows. x = (if ?P a then f a else a)" if "x \<in> set ?u" for x using that by (auto simp: set_update_where)
  have nohead: "page_key x \<noteq> page_key r" if x: "x \<in> set ?u" "is_head x" for x
  proof
    assume k: "page_key x = page_key r"
    obtain a where a: "a \<in> set rows" "x = (if ?P a then f a else a)" using src[OF x(1)] by blast
    show False
    proof (cases "?P a")
      case True
      with only[OF a(1)] a(2) x(2) f(4) show False by simp
    next
      case False
      then have "x = a" using a(2) by simp
      then have "a = h" using same_head[OF ok a(1) h(1) _ h(2)] x(2) k h(3) by simp
      with False show False by simp
    qed
  qed
  have 1: "unique_on (\<lambda>_. True) pag_id (?u @ [r])"
  proof -
    have "pag_id x \<noteq> pag_id r" if "x \<in> set ?u" for x using r(5) imageI[OF that, of pag_id] unfolding ids by auto
    then show ?thesis using unique_on_update_where[OF o(1), of ?P f] by (simp add: unique_on_append1 f)
  qed
  have 2: "unique_on is_head page_key (?u @ [r])"
    using unique_on_update_where[OF o(2), of ?P f] nohead only f(3,4) h by (auto simp: unique_on_append1)
  have 3: "earlier {} (?u @ [r])" using o(5) r(1) h(1) ids by (simp add: earlier_snoc earlier_update f)
  have nosup: "pag_supersedes x \<noteq> Some (pag_id h)" if x: "x \<in> set rows" for x
  proof
    assume "pag_supersedes x = Some (pag_id h)"
    then obtain q where "q \<in> set rows" "pag_id q = pag_id h" "\<not> is_head q" using o(6) x unfolding superseded_ok_def by blast
    then show False using only h(2) by blast
  qed
  have 4: "unique_on (\<lambda>r. pag_supersedes r \<noteq> None) pag_supersedes (?u @ [r])"
    using unique_on_update_where[OF o(7), of ?P f] nosup r(1)
    by (auto simp: unique_on_append1 f set_update_where split: if_splits)
  have 5: "superseded_ok (?u @ [r])"
  proof -
    have "superseded_ok ?u" by (rule superseded_ok_update[OF o(6) f(1,2,3)]) (use only f(4) in auto)
    moreover have "\<exists>q \<in> set ?u. pag_id q = pag_id h \<and> page_key q = page_key r \<and> \<not> is_head q"
      using fh f h(3) by (intro bexI[of _ "f h"]) simp_all
    ultimately show ?thesis using r(1) unfolding superseded_ok_def by auto
  qed
  have 6: "covered (?u @ [r])"
    unfolding covered_def
  proof (intro ballI impI)
    fix x assume x: "x \<in> set (?u @ [r])" "\<not> is_head x"
    then have "x \<in> set ?u" using latest_head[OF r(2)] by auto
    then obtain a where a: "a \<in> set rows" "x = (if ?P a then f a else a)" using src by blast
    show "\<exists>q \<in> set (?u @ [r]). pag_supersedes q = Some (pag_id x)"
    proof (cases "?P a")
      case True
      then show ?thesis using a r(1) f(1) by auto
    next
      case False
      then obtain q where q: "q \<in> set rows" "pag_supersedes q = Some (pag_id x)" using o(8) a x(2) unfolding covered_def by auto
      show ?thesis using in_update_where[OF q(1), of ?P f] q(2) f(2) by (intro bexI[of _ "if ?P q then f q else q"]) auto
    qed
  qed
  have 7: "\<forall>x \<in> set (?u @ [r]). pag_is_latest x \<longrightarrow> pag_superseded_at x = None \<and> pag_valid_to x = None"
  proof (intro ballI impI)
    fix x assume x: "x \<in> set (?u @ [r])" "pag_is_latest x"
    show "pag_superseded_at x = None \<and> pag_valid_to x = None"
    proof (cases "x = r")
      case False
      then obtain a where a: "a \<in> set rows" "x = (if ?P a then f a else a)" using src x(1) by auto
      have "\<not> ?P a" using only[OF a(1)] a(2) x(2) f(4) latest_head by auto
      then show ?thesis using a x(2) o(3,4) by auto
    qed (use r in simp)
  qed
  show ?thesis unfolding pages_ok_def using 1 2 3 4 5 6 7 by blast
qed

lemma pages_ok_create:
  assumes ok: "pages_ok rows" and free: "\<And>h. h \<in> set rows \<Longrightarrow> is_head h \<Longrightarrow> page_key h \<noteq> page_key r"
    and r: "pag_supersedes r = None" "pag_is_latest r" "pag_superseded_at r = None" "pag_valid_to r = None" "pag_id r \<notin> pag_id ` set rows"
  shows "pages_ok (rows @ [r])"
proof -
  have "pag_id x \<noteq> pag_id r" if "x \<in> set rows" for x using r(5) imageI[OF that, of pag_id] by auto
  then show ?thesis using pages_okD[OF ok] r(1-4) free latest_head[OF r(2)]
    by (auto simp: pages_ok_def unique_on_append1 earlier_snoc superseded_ok_def covered_def)
qed

text \<open>Deleting a set of versions that holds with a version all it superseded, and with a version the one that superseded it.\<close>

lemma pages_ok_delete:
  assumes ok: "pages_ok rows" and gone: "gone = pag_id ` set (filter P rows)"
    and down: "\<And>r q. r \<in> set rows \<Longrightarrow> q \<in> set rows \<Longrightarrow> pag_supersedes r = Some (pag_id q) \<Longrightarrow> P q = P r"
  shows "pages_ok (map (\<lambda>r. r\<lparr>pag_supersedes := forget gone (pag_supersedes r)\<rparr>) (filter (\<lambda>r. \<not> P r) rows))" (is "pages_ok ?m")
proof -
  let ?f = "\<lambda>r. r\<lparr>pag_supersedes := forget gone (pag_supersedes r)\<rparr>"
  note o = pages_okD[OF ok]
  have mem: "pag_id r \<in> gone \<longleftrightarrow> P r" if "r \<in> set rows" for r
    using that same_id[OF ok that] by (auto simp: gone)
  have kept: "?f r = r" if r: "r \<in> set rows" "\<not> P r" for r
  proof (cases "pag_supersedes r")
    case (Some x)
    then obtain q where q: "q \<in> set rows" "pag_id q = x" using o(6) r(1) unfolding superseded_ok_def by blast
    then have "\<not> P q" using down[OF r(1) q(1)] Some r(2) by simp
    then show ?thesis using mem[OF q(1)] q(2) Some by (simp add: forget_def)
  qed (simp add: forget_def)
  then have m: "?m = filter (\<lambda>r. \<not> P r) rows" by (intro map_idI) auto
  have e: "earlier {} ?m" using earlier_delete[of rows P gone "{}", OF _ _ o(5)] mem by simp
  have s: "superseded_ok (filter (\<lambda>r. \<not> P r) rows)"
    unfolding superseded_ok_def
  proof (intro ballI allI impI)
    fix r x assume r: "r \<in> set (filter (\<lambda>r. \<not> P r) rows)" "pag_supersedes r = Some x"
    then obtain q where q: "q \<in> set rows" "pag_id q = x" "page_key q = page_key r" "\<not> is_head q"
      using o(6) unfolding superseded_ok_def by auto
    have "P q = P r" using down[of r q] r q(1,2) by simp
    then show "\<exists>q \<in> set (filter (\<lambda>r. \<not> P r) rows). pag_id q = x \<and> page_key q = page_key r \<and> \<not> is_head q"
      using q r(1) by (intro bexI[of _ q]) auto
  qed
  have c: "covered (filter (\<lambda>r. \<not> P r) rows)"
    unfolding covered_def
  proof (intro ballI impI)
    fix r assume r: "r \<in> set (filter (\<lambda>r. \<not> P r) rows)" "\<not> is_head r"
    then obtain q where q: "q \<in> set rows" "pag_supersedes q = Some (pag_id r)" using o(8) unfolding covered_def by auto
    have "P r = P q" using down[OF q(1) _ q(2)] r(1) by simp
    then show "\<exists>q \<in> set (filter (\<lambda>r. \<not> P r) rows). pag_supersedes q = Some (pag_id r)" using q r(1) by (intro bexI[of _ q]) auto
  qed
  show ?thesis using e o(3,4) unique_on_filter[OF o(1)] unique_on_filter[OF o(2)] unique_on_filter[OF o(7)] s c unfolding pages_ok_def m by simp
qed

end
