(* ===== verification/PageInvariant.thy ===== *)
theory PageInvariant
  imports PageHistory
begin

text \<open>
  The invariant of the page tables and the upsert: the histories are intact (\<open>PageHistory\<close>), every link points at
  the live version of the page it names whenever there is one, an entity window is open exactly while its version is
  live, and every version lies in a project of its workspace. The refresh of incoming links repoints exactly the
  links that name the written page; with it the upsert keeps the invariant on each of its branches.
\<close>

section \<open>The invariant\<close>

definition scopes_ok :: "store \<Rightarrow> bool" where
  "scopes_ok s \<longleftrightarrow>
     unique_on (\<lambda>_. True) wsp_id (workspaces s) \<and> unique_on (\<lambda>_. True) wsp_name (workspaces s)
     \<and> unique_on (\<lambda>_. True) prj_id (projects s) \<and> unique_on (\<lambda>_. True) (\<lambda>p. (prj_workspace p, prj_name p)) (projects s)"

definition legacy_link :: "link_row \<Rightarrow> bool" where
  "legacy_link l \<longleftrightarrow> lnk_workspace l = None \<and> lnk_project l = Some global_scope_project"

text \<open>The page a link of version \<open>r\<close> names.\<close>

definition link_key :: "store \<Rightarrow> page_row \<Rightarrow> link_row \<Rightarrow> page_key option" where
  "link_key s r l =
     map_option (\<lambda>(w, p). (w, p, lnk_path l)) (link_scope s (pag_workspace r) (pag_project r) (lnk_workspace l) (lnk_project l))"

definition target_ok :: "page_row list \<Rightarrow> page_key \<Rightarrow> uuid option \<Rightarrow> bool" where
  "target_ok rows k to \<longleftrightarrow>
     (\<forall>i. to = Some i \<longrightarrow> (\<exists>q \<in> set rows. pag_id q = i \<and> page_key q = k))
     \<and> (\<forall>q \<in> set rows. page_key q = k \<and> pag_is_latest q \<longrightarrow> to = Some (pag_id q))"

definition link_ok :: "store \<Rightarrow> link_row \<Rightarrow> bool" where
  "link_ok s l \<longleftrightarrow>
     \<not> legacy_link l
     \<and> (\<exists>r \<in> set (pages s). pag_id r = lnk_from l
          \<and> (case link_key s r l of None \<Rightarrow> lnk_to l = None | Some k \<Rightarrow> target_ok (pages s) k (lnk_to l)))"

definition window_ok :: "page_row list \<Rightarrow> entity_link_row \<Rightarrow> bool" where
  "window_ok rows l \<longleftrightarrow> (\<exists>r \<in> set rows. pag_id r = epl_page l \<and> (epl_superseded_at l = None \<longleftrightarrow> pag_is_latest r))"

definition page_store_ok :: "store \<Rightarrow> bool" where
  "page_store_ok s \<longleftrightarrow>
     pages_ok (pages s) \<and> scopes_ok s \<and> (\<forall>l \<in> set (links s). link_ok s l)
     \<and> (\<forall>l \<in> set (entity_page_links s). window_ok (pages s) l)
     \<and> (\<forall>r \<in> set (pages s). pairing_ok s (pag_workspace r) (pag_project r))"

lemma page_store_okD:
  assumes "page_store_ok s"
  shows "pages_ok (pages s)" "scopes_ok s" "\<And>l. l \<in> set (links s) \<Longrightarrow> link_ok s l"
    "\<And>l. l \<in> set (entity_page_links s) \<Longrightarrow> window_ok (pages s) l"
    "\<And>r. r \<in> set (pages s) \<Longrightarrow> pairing_ok s (pag_workspace r) (pag_project r)"
  using assms by (simp_all add: page_store_ok_def)

section \<open>The steps of an upsert, field by field\<close>

lemma latest_at_SomeD: "latest_at s k = Some r \<Longrightarrow> r \<in> set (pages s) \<and> page_key r = k \<and> pag_is_latest r"
  unfolding latest_at_def by (drule find_SomeD) simp

lemma latest_at_NoneD: "latest_at s k = None \<Longrightarrow> r \<in> set (pages s) \<Longrightarrow> page_key r = k \<Longrightarrow> \<not> pag_is_latest r"
  by (auto simp: latest_at_def find_None_iff)

lemma latest_at_unique:
  assumes "pages_ok (pages s)" "r \<in> set (pages s)" "page_key r = k" "pag_is_latest r"
  shows "latest_at s k = Some r"
  unfolding latest_at_def using assms
  by (intro find_only) (auto intro: same_head[OF assms(1)] simp: latest_head)

lemma link_scope_cong:
  assumes "workspaces s' = workspaces s" "projects s' = projects s"
  shows "link_scope s' = link_scope s"
  unfolding link_scope_def assms ..

lemma link_key_cong:
  assumes "workspaces s' = workspaces s" "projects s' = projects s"
  shows "link_key s' r l = link_key s r l"
  unfolding link_key_def link_scope_cong[OF assms] ..

lemma link_ok_cong:
  assumes "workspaces s' = workspaces s" "projects s' = projects s" "pages s' = pages s"
  shows "link_ok s' l = link_ok s l"
  unfolding link_ok_def link_key_cong[OF assms(1,2)] assms(3) ..

lemma pairing_ok_cong: "projects s' = projects s \<Longrightarrow> pairing_ok s' w p = pairing_ok s w p"
  by (simp add: pairing_ok_def)

lemma page_store_ok_cong:
  assumes "workspaces s' = workspaces s" "projects s' = projects s" "pages s' = pages s" "links s' = links s"
    "entity_page_links s' = entity_page_links s"
  shows "page_store_ok s' = page_store_ok s"
  unfolding page_store_ok_def scopes_ok_def assms link_ok_cong[OF assms(1-3)] pairing_ok_cong[OF assms(2)] ..

lemma link_key_row:
  "pag_workspace r = pag_workspace q \<Longrightarrow> pag_project r = pag_project q \<Longrightarrow> link_key s r l = link_key s q l"
  by (simp add: link_key_def)

lemma link_key_to [simp]: "link_key s r (l\<lparr>lnk_to := t\<rparr>) = link_key s r l"
  by (simp add: link_key_def)

lemma legacy_link_to [simp]: "legacy_link (l\<lparr>lnk_to := t\<rparr>) = legacy_link l"
  by (simp add: legacy_link_def)

definition new_link :: "store \<Rightarrow> uuid \<Rightarrow> new_page \<Rightarrow> link_row \<Rightarrow> bool" where
  "new_link s from_page page l \<longleftrightarrow>
     (\<exists>link. l = \<lparr>lnk_from = from_page, lnk_to = latest_page_id_for_link s page link,
             lnk_workspace = link_workspace_name link, lnk_project = lt_project link, lnk_path = lt_path link,
             lnk_type = link_type_of link\<rparr>)"

lemma latest_for_link_links [simp]: "latest_page_id_for_link (s\<lparr>links := x\<rparr>) page link = latest_page_id_for_link s page link"
proof -
  have "link_scope (s\<lparr>links := x\<rparr>) = link_scope s" by (rule link_scope_cong) simp_all
  moreover have "latest_at (s\<lparr>links := x\<rparr>) = latest_at s" by (intro ext) (simp add: latest_at_def)
  ultimately show ?thesis unfolding latest_page_id_for_link_def by (simp only:)
qed

lemma new_link_links [simp]: "new_link (s\<lparr>links := x\<rparr>) f page l = new_link s f page l"
  by (simp add: new_link_def)

lemma insert_links_shape:
  "\<exists>new. insert_links s from_page page seen ls = s\<lparr>links := links s @ new\<rparr> \<and> (\<forall>l \<in> set new. new_link s from_page page l)"
proof (induction ls arbitrary: s seen)
  case Nil
  show ?case by (intro exI[of _ "[]"]) simp
next
  case (Cons link ls)
  let ?key = "(link_workspace_name link, lt_project link, lt_path link, lt_relation link)"
  let ?l = "\<lparr>lnk_from = from_page, lnk_to = latest_page_id_for_link s page link,
             lnk_workspace = link_workspace_name link, lnk_project = lt_project link, lnk_path = lt_path link,
             lnk_type = link_type_of link\<rparr>"
  show ?case
  proof (cases "?key \<in> set seen")
    case True
    then show ?thesis using Cons.IH[of s seen] by (simp add: Let_def)
  next
    case False
    obtain new where new: "insert_links (s\<lparr>links := links s @ [?l]\<rparr>) from_page page (?key # seen) ls
        = s\<lparr>links := (links s @ [?l]) @ new\<rparr>" "\<forall>l \<in> set new. new_link s from_page page l"
      using Cons.IH[of "s\<lparr>links := links s @ [?l]\<rparr>" "?key # seen"] by auto
    have "new_link s from_page page ?l" unfolding new_link_def by blast
    then show ?thesis using False new by (intro exI[of _ "?l # new"]) (simp add: Let_def)
  qed
qed

lemma replace_links_shape:
  "\<exists>new. replace_links_in_tx s from_page page = s\<lparr>links := filter (\<lambda>l. lnk_from l \<noteq> from_page) (links s) @ new\<rparr>
     \<and> (\<forall>l \<in> set new. new_link s from_page page l)"
  using insert_links_shape[of "s\<lparr>links := filter (\<lambda>l. lnk_from l \<noteq> from_page) (links s)\<rparr>" from_page page "[]" "np_links page"]
  by (simp add: replace_links_in_tx_def)

lemma link_entity_shape:
  "\<exists>ls. link_entity s e i now = s\<lparr>entity_page_links := entity_page_links s @ ls\<rparr>
     \<and> (\<forall>l \<in> set ls. epl_page l = i \<and> epl_superseded_at l = None)"
proof (cases "exists_row (\<lambda>l. epl_entity l = e \<and> epl_page l = i) (entity_page_links s)")
  case True
  then show ?thesis by (intro exI[of _ "[]"]) (simp add: link_entity_def del: exists_row_iff)
next
  case False
  then show ?thesis
    by (intro exI[of _ "[\<lparr>epl_entity = e, epl_page = i, epl_valid_from = Some now, epl_superseded_at = None\<rparr>]"])
      (simp add: link_entity_def del: exists_row_iff)
qed

lemma attach_names_shape:
  "attach_names s i page now ids n names = Inr s' \<Longrightarrow>
   \<exists>es ls. s' = s\<lparr>entities := entities s @ es, entity_page_links := entity_page_links s @ ls\<rparr>
     \<and> (\<forall>l \<in> set ls. epl_page l = i \<and> epl_superseded_at l = None)"
proof (induction names arbitrary: s n)
  case Nil
  then show ?case by (intro exI[of _ "[]"]) simp
next
  case (Cons name names)
  let ?f = "find (\<lambda>e. ent_workspace e = np_workspace page \<and> ent_project e = np_project page \<and> ent_name e = name) (entities s)"
  show ?case
  proof (cases ?f)
    case (Some e)
    obtain ls where ls: "link_entity s (ent_id e) i now = s\<lparr>entity_page_links := entity_page_links s @ ls\<rparr>"
      "\<forall>l \<in> set ls. epl_page l = i \<and> epl_superseded_at l = None" using link_entity_shape by blast
    have "attach_names (s\<lparr>entity_page_links := entity_page_links s @ ls\<rparr>) i page now ids (Suc n) names = Inr s'"
      using Cons.prems Some ls(1) by simp
    from Cons.IH[OF this] obtain es ms where "s' = s\<lparr>entities := entities s @ es, entity_page_links := (entity_page_links s @ ls) @ ms\<rparr>"
      "\<forall>l \<in> set ms. epl_page l = i \<and> epl_superseded_at l = None" by auto
    then show ?thesis using ls(2) by (intro exI[of _ es] exI[of _ "ls @ ms"]) auto
  next
    case None
    let ?e = "\<lparr>ent_id = wi_entity ids n, ent_workspace = np_workspace page, ent_project = np_project page,
                 ent_name = name, ent_created_at = wi_clock ids\<rparr>"
    let ?s = "s\<lparr>entities := entities s @ [?e]\<rparr>"
    obtain ls where ls: "link_entity ?s (wi_entity ids n) i now = ?s\<lparr>entity_page_links := entity_page_links ?s @ ls\<rparr>"
      "\<forall>l \<in> set ls. epl_page l = i \<and> epl_superseded_at l = None" using link_entity_shape by blast
    have "attach_names (?s\<lparr>entity_page_links := entity_page_links s @ ls\<rparr>) i page now ids (Suc n) names = Inr s'"
      using Cons.prems None ls(1) by (simp del: exists_row_iff split: if_splits)
    from Cons.IH[OF this] obtain es ms where
      "s' = s\<lparr>entities := (entities s @ [?e]) @ es, entity_page_links := (entity_page_links s @ ls) @ ms\<rparr>"
      "\<forall>l \<in> set ms. epl_page l = i \<and> epl_superseded_at l = None" by auto
    then show ?thesis using ls(2) by (intro exI[of _ "?e # es"] exI[of _ "ls @ ms"]) auto
  qed
qed

lemma attach_entities_shape:
  assumes "attach_entities_in_tx env s i page now ids = Inr s'"
  shows "\<exists>es ls. s' = s\<lparr>entities := entities s @ es, entity_page_links := entity_page_links s @ ls\<rparr>
     \<and> (\<forall>l \<in> set ls. epl_page l = i \<and> epl_superseded_at l = None)"
proof (cases "np_entities page = []")
  case True
  with assms show ?thesis by (intro exI[of _ "[]"]) (simp add: attach_entities_in_tx_def)
qed (use assms attach_names_shape in \<open>simp add: attach_entities_in_tx_def\<close>)

section \<open>The refresh repoints exactly the links that name the page\<close>

definition refreshed :: "store \<Rightarrow> new_page \<Rightarrow> ustr \<Rightarrow> ustr \<Rightarrow> link_row \<Rightarrow> bool" where
  "refreshed s page project_name workspace_name l \<longleftrightarrow>
     lnk_path l = np_path page
     \<and> ((lnk_project l = None \<and> source_is s (\<lambda>r. pag_workspace r = np_workspace page \<and> pag_project r = np_project page) l)
        \<or> (lnk_project l = Some project_name
           \<and> (lnk_workspace l = Some workspace_name
              \<or> (lnk_workspace l = None \<and> source_is s (\<lambda>r. pag_workspace r = np_workspace page) l)))
        \<or> (project_name = global_scope_project \<and> workspace_name = default_workspace_name \<and> legacy_link l))"

lemma update_where_merge:
  assumes "\<And>x. Q (g x) = Q x" "\<And>x. g (g x) = g x"
  shows "update_where Q g (update_where P g xs) = update_where (\<lambda>x. P x \<or> Q x) g xs"
  by (simp add: update_where_def assms)

lemma update_where_cong: "(\<And>x. P x = Q x) \<Longrightarrow> update_where P g xs = update_where Q g xs"
  by (simp add: update_where_def)

lemma source_is_to [simp]: "source_is s P (l\<lparr>lnk_to := t\<rparr>) = source_is s P l"
  by (simp add: source_is_def)

lemma repoint_links [simp]: "links (repoint P i s) = update_where P (\<lambda>l. l\<lparr>lnk_to := Some i\<rparr>) (links s)"
  and repoint_again: "repoint Q i (repoint P i s) = s\<lparr>links := update_where Q (\<lambda>l. l\<lparr>lnk_to := Some i\<rparr>) (update_where P (\<lambda>l. l\<lparr>lnk_to := Some i\<rparr>) (links s))\<rparr>"
  by (simp_all add: repoint_def)

lemma refresh_shape:
  assumes "find (\<lambda>p. prj_id p = np_project page) (projects s) = Some p"
    and "find (\<lambda>w. wsp_id w = np_workspace page) (workspaces s) = Some w"
  shows "refresh_incoming_links_for_path s page i =
    s\<lparr>links := update_where (refreshed s page (prj_name p) (wsp_name w)) (\<lambda>l. l\<lparr>lnk_to := Some i\<rparr>) (links s)\<rparr>"
proof -
  let ?g = "\<lambda>l. l\<lparr>lnk_to := Some i\<rparr>"
  let ?A = "\<lambda>l. lnk_project l = None \<and> lnk_path l = np_path page
              \<and> source_is s (\<lambda>r. pag_workspace r = np_workspace page \<and> pag_project r = np_project page) l"
  let ?B = "\<lambda>l. lnk_project l = Some (prj_name p) \<and> lnk_path l = np_path page
              \<and> (lnk_workspace l = Some (wsp_name w) \<or> (lnk_workspace l = None \<and> source_is s (\<lambda>r. pag_workspace r = np_workspace page) l))"
  let ?C = "\<lambda>l. lnk_project l = Some global_scope_project \<and> lnk_path l = np_path page \<and> lnk_workspace l = None"
  have AB: "update_where ?B ?g (update_where ?A ?g (links s)) = update_where (\<lambda>l. ?A l \<or> ?B l) ?g (links s)"
    by (rule update_where_merge) simp_all
  have ABC: "update_where ?C ?g (update_where (\<lambda>l. ?A l \<or> ?B l) ?g (links s)) = update_where (\<lambda>l. (?A l \<or> ?B l) \<or> ?C l) ?g (links s)"
    by (rule update_where_merge) simp_all
  have two: "repoint ?B i (repoint ?A i s) = s\<lparr>links := update_where (\<lambda>l. ?A l \<or> ?B l) ?g (links s)\<rparr>"
    unfolding repoint_again AB ..
  have three: "repoint ?C i (s\<lparr>links := update_where (\<lambda>l. ?A l \<or> ?B l) ?g (links s)\<rparr>)
      = s\<lparr>links := update_where (\<lambda>l. (?A l \<or> ?B l) \<or> ?C l) ?g (links s)\<rparr>"
    unfolding repoint_def by (simp add: ABC)
  show ?thesis
  proof (cases "prj_name p = global_scope_project \<and> wsp_name w = default_workspace_name")
    case True
    have "update_where (refreshed s page (prj_name p) (wsp_name w)) ?g (links s) = update_where (\<lambda>l. (?A l \<or> ?B l) \<or> ?C l) ?g (links s)"
      by (rule update_where_cong) (use True in \<open>auto simp: refreshed_def legacy_link_def\<close>)
    then show ?thesis
      unfolding refresh_incoming_links_for_path_def assms option.map prod.case option.case Let_def two if_P[OF True] three by simp
  next
    case False
    have "update_where (refreshed s page (prj_name p) (wsp_name w)) ?g (links s) = update_where (\<lambda>l. ?A l \<or> ?B l) ?g (links s)"
      by (rule update_where_cong) (use False in \<open>auto simp: refreshed_def\<close>)
    then show ?thesis
      unfolding refresh_incoming_links_for_path_def assms option.map prod.case option.case Let_def two if_not_P[OF False] by simp
  qed
qed

lemma scope_names:
  assumes "scopes_ok s"
  shows "w \<in> set (workspaces s) \<Longrightarrow> w' \<in> set (workspaces s) \<Longrightarrow> wsp_id w = wsp_id w' \<Longrightarrow> w = w'"
    "w \<in> set (workspaces s) \<Longrightarrow> find (\<lambda>x. wsp_name x = wsp_name w) (workspaces s) = Some w"
    "p \<in> set (projects s) \<Longrightarrow> p' \<in> set (projects s) \<Longrightarrow> prj_id p = prj_id p' \<Longrightarrow> p = p'"
    "p \<in> set (projects s) \<Longrightarrow> find (\<lambda>x. prj_workspace x = prj_workspace p \<and> prj_name x = prj_name p) (projects s) = Some p"
proof -
  note ok = assms[unfolded scopes_ok_def]
  show "w \<in> set (workspaces s) \<Longrightarrow> w' \<in> set (workspaces s) \<Longrightarrow> wsp_id w = wsp_id w' \<Longrightarrow> w = w'"
    using ok by (auto dest: unique_onD)
  show "w \<in> set (workspaces s) \<Longrightarrow> find (\<lambda>x. wsp_name x = wsp_name w) (workspaces s) = Some w"
    using ok by (auto intro: find_unique)
  show "p \<in> set (projects s) \<Longrightarrow> p' \<in> set (projects s) \<Longrightarrow> prj_id p = prj_id p' \<Longrightarrow> p = p'"
    using ok by (auto dest: unique_onD)
  show "p \<in> set (projects s) \<Longrightarrow> find (\<lambda>x. prj_workspace x = prj_workspace p \<and> prj_name x = prj_name p) (projects s) = Some p"
    using ok find_unique[of "\<lambda>p. (prj_workspace p, prj_name p)" "projects s" p] by simp
qed

lemma named_project_iff:
  assumes ok: "scopes_ok s" and p: "p \<in> set (projects s)"
  shows "map_option (\<lambda>p. (w, prj_id p)) (find (\<lambda>x. prj_workspace x = w \<and> prj_name x = name) (projects s)) = Some (prj_workspace p, prj_id p)
     \<longleftrightarrow> w = prj_workspace p \<and> name = prj_name p" (is "?L \<longleftrightarrow> ?R")
proof
  assume ?L
  then obtain q where q: "find (\<lambda>x. prj_workspace x = w \<and> prj_name x = name) (projects s) = Some q" "w = prj_workspace p" "prj_id q = prj_id p"
    by auto
  have "q \<in> set (projects s)" "prj_name q = name" using find_SomeD[OF q(1)] by simp_all
  then show ?R using scope_names(3)[OF ok _ p] q(2,3) by auto
next
  assume ?R
  then show ?L using scope_names(4)[OF ok p] by simp
qed

lemma refreshed_iff:
  assumes ok: "scopes_ok s" and p: "p \<in> set (projects s)" "prj_id p = np_project page" "prj_workspace p = np_workspace page"
    and w: "w \<in> set (workspaces s)" "wsp_id w = np_workspace page"
    and src: "\<And>P. source_is s P l = P r" and new: "\<not> legacy_link l"
  shows "refreshed s page (prj_name p) (wsp_name w) l \<longleftrightarrow> link_key s r l = Some (target_key page)"
proof (cases "lnk_project l")
  case None
  then show ?thesis using new by (auto simp: refreshed_def link_key_def link_scope_def src target_key_def)
next
  case (Some pn)
  note named = named_project_iff[OF ok p(1), unfolded p(2,3)]
  show ?thesis
  proof (cases "lnk_workspace l")
    case None
    have "link_key s r l = Some (target_key page) \<longleftrightarrow>
      map_option (\<lambda>p. (pag_workspace r, prj_id p)) (find (\<lambda>x. prj_workspace x = pag_workspace r \<and> prj_name x = pn) (projects s))
        = Some (np_workspace page, np_project page) \<and> lnk_path l = np_path page"
      by (auto simp: link_key_def link_scope_def None Some target_key_def)
    then show ?thesis using new None Some unfolding named by (auto simp: refreshed_def src)
  next
    case ws: (Some wn)
    show ?thesis
    proof (cases "find (\<lambda>x. wsp_name x = wn) (workspaces s)")
      case None
      then have "wn \<noteq> wsp_name w" using w(1) by (auto simp: find_None_iff)
      then show ?thesis using None ws Some new by (simp add: refreshed_def link_key_def link_scope_def)
    next
      case w': (Some v)
      have v: "v \<in> set (workspaces s)" "wsp_name v = wn" using find_SomeD[OF w'] by simp_all
      have same: "wsp_id v = np_workspace page \<longleftrightarrow> wn = wsp_name w"
      proof
        assume "wsp_id v = np_workspace page"
        then show "wn = wsp_name w" using scope_names(1)[OF ok v(1) w(1)] v(2) w(2) by simp
      next
        assume "wn = wsp_name w"
        then show "wsp_id v = np_workspace page" using scope_names(2)[OF ok w(1)] w' w(2) by simp
      qed
      have "link_key s r l = Some (target_key page) \<longleftrightarrow>
        map_option (\<lambda>p. (wsp_id v, prj_id p)) (find (\<lambda>x. prj_workspace x = wsp_id v \<and> prj_name x = pn) (projects s))
          = Some (np_workspace page, np_project page) \<and> lnk_path l = np_path page"
        by (auto simp: link_key_def link_scope_def ws Some w' target_key_def)
      then show ?thesis using new ws Some unfolding named same by (auto simp: refreshed_def)
    qed
  qed
qed

section \<open>Adding a version keeps the invariant\<close>

lemma insert_page_row_InrD:
  assumes "insert_page_row s r = Inr s'"
  shows "s' = s\<lparr>pages := pages s @ [r]\<rparr>" "pairing_ok s (pag_workspace r) (pag_project r)" "pag_id r \<notin> pag_id ` set (pages s)"
    "\<exists>w \<in> set (workspaces s). wsp_id w = pag_workspace r"
proof -
  note a = assms[unfolded insert_page_row_def]
  show "s' = s\<lparr>pages := pages s @ [r]\<rparr>" using a by (simp del: exists_row_iff split: if_splits)
  show "pairing_ok s (pag_workspace r) (pag_project r)" using a by (simp del: exists_row_iff split: if_splits)
  have "\<not> exists_row (\<lambda>q. pag_id q = pag_id r) (pages s)" using a by (simp del: exists_row_iff split: if_splits)
  then show "pag_id r \<notin> pag_id ` set (pages s)" by auto
  have "exists_row (\<lambda>w. wsp_id w = pag_workspace r) (workspaces s)" using a by (simp del: exists_row_iff split: if_splits)
  then show "\<exists>w \<in> set (workspaces s). wsp_id w = pag_workspace r" by simp
qed

lemma pairing_okE:
  assumes "pairing_ok s w p"
  obtains x where "find (\<lambda>q. prj_id q = p) (projects s) = Some x" "x \<in> set (projects s)" "prj_id x = p" "prj_workspace x = w"
proof (cases "find (\<lambda>q. prj_id q = p) (projects s)")
  case (Some x)
  then show thesis using that[OF Some] find_SomeD[OF Some] assms by (simp add: pairing_ok_def)
qed (use assms in \<open>simp add: pairing_ok_def\<close>)

lemma source_is_unique:
  assumes "pages_ok (pages s)" "r \<in> set (pages s)" "pag_id r = lnk_from l"
  shows "source_is s P l = P r"
proof
  assume "source_is s P l"
  then obtain q where q: "q \<in> set (pages s)" "pag_id q = lnk_from l" "P q" unfolding source_is_def by auto
  have "q = r" by (rule same_id[OF assms(1) q(1) assms(2)]) (simp add: q(2) assms(3))
  with q(3) show "P r" by simp
next
  assume "P r"
  then show "source_is s P l" unfolding source_is_def exists_row_iff using assms(2,3) by (intro bexI[of _ r]) simp_all
qed

text \<open>What the statements after the page update leave.\<close>

lemma add_version_shape:
  assumes r: "add_version env s page conformed ids supersedes op now = Inr (s', i)"
    and v: "v = version_row env page conformed (wi_page ids) supersedes now"
  obtains x w new ls where "i = wi_page ids" "x \<in> set (projects s)" "prj_id x = np_project page" "prj_workspace x = np_workspace page"
    "w \<in> set (workspaces s)" "wsp_id w = np_workspace page" "pag_id v \<notin> pag_id ` set (pages s)"
    "\<forall>l \<in> set new. new_link (s\<lparr>pages := pages s @ [v]\<rparr>) i page l"
    "\<forall>l \<in> set ls. epl_page l = i \<and> epl_superseded_at l = None"
    "workspaces s' = workspaces s" "projects s' = projects s" "pages s' = pages s @ [v]"
    "entity_page_links s' = entity_page_links s @ ls" "sessions s' = sessions s"
    "links s' = update_where (refreshed (s\<lparr>pages := pages s @ [v]\<rparr>) page (prj_name x) (wsp_name w)) (\<lambda>l. l\<lparr>lnk_to := Some i\<rparr>)
       (filter (\<lambda>l. lnk_from l \<noteq> i) (links s) @ new)"
proof -
  let ?i = "wi_page ids"
  obtain s1 s3 where s1: "insert_page_row s v = Inr s1"
    and s3: "attach_entities_in_tx env (replace_links_in_tx s1 ?i page) ?i page now ids = Inr s3"
    and fin: "s' = audit (insert_evidence_in_tx (refresh_incoming_links_for_path s3 page ?i) ?i (np_evidence page) now)
        op (Some (np_workspace page)) (Some (np_project page)) (Some ?i) (np_author page) now" "i = ?i"
    using r unfolding add_version_def v by (auto simp: and_then_Inr_iff Let_def)
  note ins = insert_page_row_InrD[OF s1]
  have vk: "pag_workspace v = np_workspace page" "pag_project v = np_project page" by (simp_all add: v version_row_def)
  obtain x where x: "find (\<lambda>q. prj_id q = np_project page) (projects s) = Some x" "x \<in> set (projects s)"
    "prj_id x = np_project page" "prj_workspace x = np_workspace page"
    using pairing_okE[OF ins(2)] unfolding vk by metis
  obtain w where w: "find (\<lambda>w. wsp_id w = np_workspace page) (workspaces s) = Some w" "w \<in> set (workspaces s)" "wsp_id w = np_workspace page"
    using ins(4) find_exists[of _ "workspaces s" "\<lambda>w. wsp_id w = np_workspace page"] find_SomeD[of "\<lambda>w. wsp_id w = np_workspace page" "workspaces s"]
    unfolding vk by metis
  obtain new where new: "replace_links_in_tx s1 ?i page = s1\<lparr>links := filter (\<lambda>l. lnk_from l \<noteq> ?i) (links s1) @ new\<rparr>"
    "\<forall>l \<in> set new. new_link s1 ?i page l" using replace_links_shape by blast
  obtain es ls where e: "s3 = s1\<lparr>links := filter (\<lambda>l. lnk_from l \<noteq> ?i) (links s) @ new,
        entities := entities s @ es, entity_page_links := entity_page_links s @ ls\<rparr>"
    "\<forall>l \<in> set ls. epl_page l = ?i \<and> epl_superseded_at l = None"
    using attach_entities_shape[OF s3[unfolded new(1)]] by (auto simp: ins(1))
  have src: "source_is s3 = source_is s1" by (intro ext) (simp add: source_is_def e(1) ins(1))
  have ref: "refreshed s3 page a b = refreshed s1 page a b" for a b by (intro ext) (simp add: refreshed_def src)
  have fp: "find (\<lambda>q. prj_id q = np_project page) (projects s3) = Some x" "find (\<lambda>w. wsp_id w = np_workspace page) (workspaces s3) = Some w"
    using x(1) w(1) by (simp_all add: e(1) ins(1))
  note f = fin(1)[unfolded refresh_shape[OF fp] insert_evidence_in_tx_def ref]
  show thesis
  proof (rule that[of x w new ls])
    show "links s' = update_where (refreshed (s\<lparr>pages := pages s @ [v]\<rparr>) page (prj_name x) (wsp_name w)) (\<lambda>l. l\<lparr>lnk_to := Some i\<rparr>)
       (filter (\<lambda>l. lnk_from l \<noteq> i) (links s) @ new)" unfolding f fin(2) by (simp add: e(1) ins(1))
    show "\<forall>l \<in> set new. new_link (s\<lparr>pages := pages s @ [v]\<rparr>) i page l" using new(2) unfolding ins(1) fin(2) .
  qed (use x w ins(3) e(2) in \<open>simp_all add: f fin(2) e(1) ins(1)\<close>)
qed

lemma target_ok_latest_at:
  assumes "pages_ok (pages s)"
  shows "target_ok (pages s) k (map_option pag_id (latest_at s k))"
  unfolding target_ok_def
proof (intro conjI allI impI ballI)
  fix i assume "map_option pag_id (latest_at s k) = Some i"
  then obtain q where "latest_at s k = Some q" "pag_id q = i" by auto
  then show "\<exists>q \<in> set (pages s). pag_id q = i \<and> page_key q = k" using latest_at_SomeD[of s k q] by (intro bexI[of _ q]) simp_all
next
  fix q assume "q \<in> set (pages s)" "page_key q = k \<and> pag_is_latest q"
  then show "map_option pag_id (latest_at s k) = Some (pag_id q)" using latest_at_unique[OF assms, of q k] by simp
qed

lemma new_link_ok:
  assumes ok: "pages_ok (pages s)" and v: "v \<in> set (pages s)" "pag_id v = i" "pag_workspace v = np_workspace page" "pag_project v = np_project page"
    and l: "new_link s i page l"
  shows "link_ok s l"
proof -
  obtain link where link: "l = \<lparr>lnk_from = i, lnk_to = latest_page_id_for_link s page link,
             lnk_workspace = link_workspace_name link, lnk_project = lt_project link, lnk_path = lt_path link,
             lnk_type = link_type_of link\<rparr>" using l unfolding new_link_def by blast
  have "\<not> legacy_link l" by (auto simp: legacy_link_def link link_workspace_name_def)
  moreover have "case link_key s v l of None \<Rightarrow> lnk_to l = None | Some k \<Rightarrow> target_ok (pages s) k (lnk_to l)"
  proof (cases "link_scope s (np_workspace page) (np_project page) (link_workspace_name link) (lt_project link)")
    case None
    then show ?thesis by (simp add: link_key_def link v(3,4) latest_page_id_for_link_def)
  next
    case (Some wp)
    then show ?thesis using target_ok_latest_at[OF ok]
      by (cases wp) (simp add: link_key_def link v(3,4) latest_page_id_for_link_def)
  qed
  ultimately show ?thesis unfolding link_ok_def using v by (intro conjI bexI[of _ v]) (simp_all add: link)
qed

text \<open>
  A page update that keeps identities and makes nothing live, then a new version at a path that has no live version
  left: the links of old versions are kept right by the refresh, those of the new one by the lookup.
\<close>

lemma old_link_ok:
  assumes l: "link_ok s l" and v: "page_key v = k" "pag_is_latest v" and free: "\<And>q. q \<in> set rows \<Longrightarrow> page_key q = k \<Longrightarrow> \<not> pag_is_latest q"
    and s2: "pages s2 = rows @ [v]" "workspaces s2 = workspaces s" "projects s2 = projects s"
    and up: "rows = update_where P f (pages s)" "\<And>x. pag_id (f x) = pag_id x" "\<And>x. page_key (f x) = page_key x"
      "\<And>x. pag_is_latest (f x) \<Longrightarrow> pag_is_latest x"
    and l': "\<And>r. r \<in> set (pages s2) \<Longrightarrow> pag_id r = lnk_from l \<Longrightarrow>
        l' = (if link_key s2 r l = Some k then l\<lparr>lnk_to := Some (pag_id v)\<rparr> else l)"
  shows "link_ok s2 l'"
proof -
  obtain r where r: "r \<in> set (pages s)" "pag_id r = lnk_from l"
    and t: "case link_key s r l of None \<Rightarrow> lnk_to l = None | Some k \<Rightarrow> target_ok (pages s) k (lnk_to l)" and nl: "\<not> legacy_link l"
    using l unfolding link_ok_def by blast
  let ?r = "if P r then f r else r"
  have kept: "(if P x then f x else x) \<in> set (pages s2)" if "x \<in> set (pages s)" for x
    using in_update_where[OF that, of P f] by (simp add: s2 up(1))
  have rr: "?r \<in> set (pages s2)" "pag_id ?r = lnk_from l" "page_key ?r = page_key r" using kept[OF r(1)] r(2) up(2,3) by simp_all
  have lk: "link_key s2 ?r l = link_key s r l"
    using rr(3) link_key_cong[OF s2(2,3), of ?r l] link_key_row[of ?r r s l] by (simp add: page_key_def)
  note l'' = l'[OF rr(1,2), unfolded lk]
  have "case link_key s2 ?r l' of None \<Rightarrow> lnk_to l' = None | Some k \<Rightarrow> target_ok (pages s2) k (lnk_to l')"
  proof (cases "link_key s r l")
    case None
    then show ?thesis using t l'' lk by simp
  next
    case (Some j)
    show ?thesis
    proof (cases "j = k")
      case True
      then have "l' = l\<lparr>lnk_to := Some (pag_id v)\<rparr>" using l'' Some by simp
      moreover have "target_ok (pages s2) k (Some (pag_id v))"
        unfolding target_ok_def using free v by (auto simp: s2(1))
      ultimately show ?thesis using lk Some True by simp
    next
      case False
      then have e: "l' = l" using l'' Some by simp
      note t' = t[unfolded Some option.case target_ok_def]
      have "target_ok (pages s2) j (lnk_to l)"
        unfolding target_ok_def
      proof (intro conjI allI impI ballI)
        fix i assume "lnk_to l = Some i"
        then obtain q where q: "q \<in> set (pages s)" "pag_id q = i" "page_key q = j" using t' by blast
        then show "\<exists>q \<in> set (pages s2). pag_id q = i \<and> page_key q = j"
          using kept[OF q(1)] up(2,3) by (intro bexI[of _ "if P q then f q else q"]) simp_all
      next
        fix q assume q: "q \<in> set (pages s2)" "page_key q = j \<and> pag_is_latest q"
        then have "q \<in> set rows" using v(1) False by (auto simp: s2(1))
        then obtain a where a: "a \<in> set (pages s)" "q = (if P a then f a else a)" unfolding up(1) by (auto simp: set_update_where)
        have "page_key a = j" "pag_is_latest a" "pag_id a = pag_id q" using a(2) q(2) up(2,3,4)[of a] by (auto split: if_splits)
        then show "lnk_to l = Some (pag_id q)" using t' a(1) by auto
      qed
      then show ?thesis using lk Some e by simp
    qed
  qed
  moreover have "\<not> legacy_link l'" "lnk_from l' = lnk_from l" using nl l'' by (auto split: if_splits)
  ultimately show ?thesis unfolding link_ok_def using rr by (intro conjI bexI[of _ ?r]) simp_all
qed

lemma window_ok_append: "window_ok rows l \<Longrightarrow> window_ok (rows @ [v]) l"
  unfolding window_ok_def by auto

lemma add_version_keeps:
  assumes ok: "page_store_ok s"
    and s1: "workspaces s1 = workspaces s" "projects s1 = projects s" "links s1 = links s" "pages s1 = update_where P f (pages s)"
    and f: "\<And>x. pag_id (f x) = pag_id x" "\<And>x. page_key (f x) = page_key x" "\<And>x. pag_is_latest (f x) \<Longrightarrow> pag_is_latest x"
    and win: "\<And>l. l \<in> set (entity_page_links s1) \<Longrightarrow> window_ok (pages s1) l"
    and free: "\<And>q. q \<in> set (pages s1) \<Longrightarrow> page_key q = target_key page \<Longrightarrow> \<not> pag_is_latest q"
    and v: "v = version_row env page conformed (wi_page ids) supersedes now"
    and hist: "pag_id v \<notin> pag_id ` set (pages s1) \<Longrightarrow> pages_ok (pages s1 @ [v])"
    and r: "add_version env s1 page conformed ids supersedes op now = Inr (s', i)"
  shows "page_store_ok s' \<and> i = wi_page ids \<and> pages s' = pages s1 @ [v]"
proof -
  note o = page_store_okD[OF ok]
  obtain x w new ls where i: "i = wi_page ids" and x: "x \<in> set (projects s1)" "prj_id x = np_project page" "prj_workspace x = np_workspace page"
    and w: "w \<in> set (workspaces s1)" "wsp_id w = np_workspace page" and fresh: "pag_id v \<notin> pag_id ` set (pages s1)"
    and new: "\<forall>l \<in> set new. new_link (s1\<lparr>pages := pages s1 @ [v]\<rparr>) i page l"
    and ls: "\<forall>l \<in> set ls. epl_page l = i \<and> epl_superseded_at l = None"
    and s': "workspaces s' = workspaces s1" "projects s' = projects s1" "pages s' = pages s1 @ [v]" "entity_page_links s' = entity_page_links s1 @ ls"
    and lk: "links s' = update_where (refreshed (s1\<lparr>pages := pages s1 @ [v]\<rparr>) page (prj_name x) (wsp_name w)) (\<lambda>l. l\<lparr>lnk_to := Some i\<rparr>)
       (filter (\<lambda>l. lnk_from l \<noteq> i) (links s1) @ new)"
    by (rule add_version_shape[OF r v])
  let ?s2 = "s1\<lparr>pages := pages s1 @ [v]\<rparr>" and ?k = "target_key page"
  have vv: "pag_id v = i" "page_key v = ?k" "pag_is_latest v" "pag_workspace v = np_workspace page" "pag_project v = np_project page"
    by (simp_all add: v version_row_def i page_key_def target_key_def)
  have po: "pages_ok (pages ?s2)" using hist[OF fresh] by simp
  have so: "scopes_ok ?s2" using o(2) s1(1,2) by (simp add: scopes_ok_def)
  have fr: "refreshed ?s2 page (prj_name x) (wsp_name w) l \<longleftrightarrow> link_key ?s2 r l = Some ?k"
    if "r \<in> set (pages ?s2)" "pag_id r = lnk_from l" "\<not> legacy_link l" for r l
    using refreshed_iff[OF so _ x(2,3) _ w(2) source_is_unique[OF po that(1,2)] that(3)] x(1) w(1) by simp
  have "link_ok ?s2 l'" if l': "l' \<in> set (links s')" for l'
  proof -
    let ?u = "\<lambda>l. if refreshed ?s2 page (prj_name x) (wsp_name w) l then l\<lparr>lnk_to := Some i\<rparr> else l"
    obtain l where l: "l \<in> set (filter (\<lambda>l. lnk_from l \<noteq> i) (links s1) @ new)" "l' = ?u l"
      using l' unfolding lk set_update_where by blast
    show ?thesis
    proof (cases "l \<in> set new")
      case True
      have "link_ok ?s2 l" by (rule new_link_ok[OF po _ vv(1,4,5)]) (use new True in simp_all)
      moreover have "link_ok ?s2 (l\<lparr>lnk_to := Some i\<rparr>)" if "refreshed ?s2 page (prj_name x) (wsp_name w) l"
      proof -
        obtain r where rr: "r \<in> set (pages ?s2)" "pag_id r = lnk_from l" "\<not> legacy_link l"
          using \<open>link_ok ?s2 l\<close> unfolding link_ok_def by blast
        have "link_key ?s2 r l = Some ?k" using fr[OF rr] that by simp
        moreover have "target_ok (pages ?s2) ?k (Some i)" unfolding target_ok_def using free vv by auto
        ultimately show ?thesis unfolding link_ok_def using rr by (intro conjI bexI[of _ r]) simp_all
      qed
      ultimately show ?thesis using l(2) by simp
    next
      case False
      then have l0: "l \<in> set (links s)" using l(1) s1(3) by auto
      have lo: "link_ok s l" by (rule o(3)[OF l0])
      have nl: "\<not> legacy_link l" using lo by (simp add: link_ok_def)
      show ?thesis
      proof (rule old_link_ok[OF lo vv(2,3) free _ _ _ s1(4) f])
        fix r assume rr: "r \<in> set (pages ?s2)" "pag_id r = lnk_from l"
        show "l' = (if link_key ?s2 r l = Some ?k then l\<lparr>lnk_to := Some (pag_id v)\<rparr> else l)"
          using l(2) fr[OF rr nl] by (simp add: vv(1))
      qed (simp_all add: s1)
    qed
  qed
  moreover have "link_ok s' l = link_ok ?s2 l" for l
    by (rule link_ok_cong) (simp_all add: s')
  moreover have "window_ok (pages s') l" if "l \<in> set (entity_page_links s')" for l
  proof (cases "l \<in> set ls")
    case True
    then show ?thesis unfolding window_ok_def s'(3) using ls vv by (intro bexI[of _ v]) auto
  next
    case False
    then show ?thesis using that win s'(3,4) by (auto intro: window_ok_append)
  qed
  moreover have "pairing_ok s' (pag_workspace q) (pag_project q)" if q: "q \<in> set (pages s')" for q
  proof (cases "q = v")
    case True
    have "find (\<lambda>p. prj_id p = prj_id x) (projects s1) = Some x"
      using o(2) s1(2) x(1) by (intro find_unique) (simp_all add: scopes_ok_def)
    then show ?thesis using x(2,3) by (simp add: True vv pairing_ok_def s'(2))
  next
    case False
    then obtain a where a: "a \<in> set (pages s)" "q = (if P a then f a else a)"
      using q s'(3) s1(4) by (auto simp: set_update_where)
    then have "page_key q = page_key a" using f(2) by simp
    then show ?thesis using o(5)[OF a(1)] pairing_ok_cong[of s' s] s'(2) s1(2) by (simp add: page_key_def)
  qed
  ultimately show ?thesis using po so s'(1,2,3) i by (simp add: page_store_ok_def scopes_ok_def)
qed

section \<open>Every write keeps the invariant\<close>

lemma page_key_simps [simp]:
  "page_key (r\<lparr>pag_is_latest := a\<rparr>) = page_key r" "page_key (r\<lparr>pag_valid_to := b\<rparr>) = page_key r"
  "page_key (r\<lparr>pag_superseded_at := c\<rparr>) = page_key r" "page_key (r\<lparr>pag_frontmatter_json := d\<rparr>) = page_key r"
  "page_key (r\<lparr>pag_supersedes := e\<rparr>) = page_key r"
  by (simp_all add: page_key_def)

lemma version_row_simps:
  "pag_id (version_row env page c i prev now) = i" "page_key (version_row env page c i prev now) = target_key page"
  "pag_is_latest (version_row env page c i prev now)" "pag_supersedes (version_row env page c i prev now) = prev"
  "pag_superseded_at (version_row env page c i prev now) = None" "pag_valid_to (version_row env page c i prev now) = None"
  by (simp_all add: version_row_def page_key_def target_key_def)

lemma evidence_keeps: "page_store_ok (insert_evidence_in_tx s i ev now) = page_store_ok s"
  by (rule page_store_ok_cong) (simp_all add: insert_evidence_in_tx_def)

lemma closed_windows:
  assumes ok: "pages_ok rows" and win: "\<And>l. l \<in> set epl \<Longrightarrow> window_ok rows l" and h: "h \<in> set rows" "pag_id h = i"
    and f: "\<And>x. pag_id (f x) = pag_id x" "\<not> pag_is_latest (f h)"
    and l: "l \<in> set (update_where (\<lambda>l. epl_page l = i \<and> epl_superseded_at l = None) (\<lambda>l. l\<lparr>epl_superseded_at := Some now\<rparr>) epl)"
  shows "window_ok (update_where (\<lambda>x. pag_id x = i) f rows) l"
proof -
  let ?W = "\<lambda>l. epl_page l = i \<and> epl_superseded_at l = None"
  obtain a where a: "l = (if ?W a then a\<lparr>epl_superseded_at := Some now\<rparr> else a)" "a \<in> set epl"
    using l unfolding set_update_where by (rule imageE)
  obtain r where r: "r \<in> set rows" "pag_id r = epl_page a" "epl_superseded_at a = None \<longleftrightarrow> pag_is_latest r"
    using win[OF a(2)] unfolding window_ok_def by (elim bexE conjE)
  let ?r = "if pag_id r = i then f r else r"
  have "?r \<in> set (update_where (\<lambda>x. pag_id x = i) f rows)" by (rule in_update_where[OF r(1)])
  moreover have "pag_id ?r = epl_page l" using a(1) r(2) f(1)[of r] by (simp split: if_splits)
  moreover have "epl_superseded_at l = None \<longleftrightarrow> pag_is_latest ?r"
  proof (cases "pag_id r = i")
    case True
    then have "r = h" using same_id[OF ok r(1) h(1)] h(2) by simp
    then show ?thesis using a(1) r(2) f(2) True by (simp split: if_splits)
  next
    case False
    then show ?thesis using a(1) r(2,3) False by (simp split: if_splits)
  qed
  ultimately show ?thesis unfolding window_ok_def by (intro bexI[of _ ?r]) blast+
qed

lemma tombstone_chosen:
  assumes "most_recent_tombstone_at_path s page = Some t"
  shows "\<exists>h \<in> set (pages s). pag_id h = t \<and> page_key h = target_key page \<and> is_tombstone h"
proof -
  let ?k = "\<lambda>r. - the (pag_superseded_at r)" and ?R = "filter (\<lambda>r. page_key r = target_key page \<and> is_tombstone r) (pages s)"
  obtain h where h: "first_by ?k ?R = Some h" "pag_id h = t"
    using assms unfolding most_recent_tombstone_at_path_def by (cases "first_by ?k ?R") auto
  have "h \<in> set ?R" by (rule first_by_in[OF h(1)])
  then show ?thesis using h(2) by (intro bexI[of _ h]) auto
qed

lemma no_tombstone:
  assumes "most_recent_tombstone_at_path s page = None" "r \<in> set (pages s)" "page_key r = target_key page"
  shows "\<not> is_tombstone r"
  using assms by (auto simp: most_recent_tombstone_at_path_def filter_empty_conv)

text \<open>The three ways an upsert ends.\<close>

lemma upsert_cases:
  assumes "upsert_page_in_tx env s page ids now = Inr (s', i)"
  defines "c \<equiv> conform_frontmatter (pe_okf env) (np_path page) (np_frontmatter page)"
  obtains (same) e where "latest_at s (target_key page) = Some e" "unchanged env e page c"
      "s' = insert_evidence_in_tx s (pag_id e) (np_evidence page) now" "i = pag_id e"
  | (supersede) e where "latest_at s (target_key page) = Some e" "\<not> unchanged env e page c"
      "add_version env (close_entity_windows (s\<lparr>pages := update_where (\<lambda>r. pag_id r = pag_id e)
         (\<lambda>r. r\<lparr>pag_is_latest := False, pag_valid_to := Some now\<rparr>) (pages s)\<rparr>) (pag_id e) now)
         page c ids (Some (pag_id e)) ''supersede_page'' now = Inr (s', i)"
  | (resurrect) t where "latest_at s (target_key page) = None" "most_recent_tombstone_at_path s page = Some t"
      "add_version env (s\<lparr>pages := update_where (\<lambda>r. pag_id r = t) (\<lambda>r. r\<lparr>pag_superseded_at := None\<rparr>) (pages s)\<rparr>)
         page c ids (Some t) ''resurrect_tombstoned_page'' now = Inr (s', i)"
  | (create) "latest_at s (target_key page) = None" "most_recent_tombstone_at_path s page = None"
      "add_version env s page c ids None ''create_page'' now = Inr (s', i)"
proof (cases "latest_at s (target_key page)")
  case (Some e)
  note a = assms(1)[unfolded upsert_page_in_tx_def Let_def Some, folded c_def, unfolded option.case]
  show thesis
  proof (cases "unchanged env e page c")
    case True
    from a[unfolded if_P[OF True]] show thesis by (intro same[OF Some True]) auto
  next
    case False
    from a[unfolded if_not_P[OF False]] show thesis by (rule supersede[OF Some False])
  qed
next
  case None
  note a = assms(1)[unfolded upsert_page_in_tx_def Let_def None, folded c_def, unfolded option.case]
  have col: "colliding_live_path env s page = None" using a by (cases "colliding_live_path env s page") simp_all
  show thesis
  proof (cases "most_recent_tombstone_at_path s page")
    case t: (Some t)
    then show thesis using resurrect[OF None t] a col by simp
  next
    case t: None
    then show thesis using create[OF None t] a col by simp
  qed
qed

lemma upsert_keeps:
  assumes ok: "page_store_ok s" and r: "upsert_page_in_tx env s page ids now = Inr (s', i)"
  shows "page_store_ok s'"
  using r
proof (cases rule: upsert_cases)
  case (same e)
  then show ?thesis using ok by (simp add: evidence_keeps)
next
  case (supersede e)
  note o = page_store_okD[OF ok] and e = latest_at_SomeD[OF supersede(1)]
  let ?f = "\<lambda>r. r\<lparr>pag_is_latest := False, pag_valid_to := Some now\<rparr>"
  let ?s1 = "close_entity_windows (s\<lparr>pages := update_where (\<lambda>r. pag_id r = pag_id e) ?f (pages s)\<rparr>) (pag_id e) now"
  have sa: "pag_superseded_at e = None" using pages_okD(3)[OF o(1)] e by blast
  have pg: "pages ?s1 = update_where (\<lambda>r. pag_id r = pag_id e) ?f (pages s)" by (simp add: close_entity_windows_def)
  show ?thesis
  proof (rule add_version_keeps[THEN conjunct1, OF ok _ _ _ pg _ _ _ _ _ refl _ supersede(3)])
    fix l assume "l \<in> set (entity_page_links ?s1)"
    then show "window_ok (pages ?s1) l"
      using closed_windows[OF o(1) o(4), where h = e and i = "pag_id e" and f = ?f and l = l and now = now] e
      by (simp add: close_entity_windows_def)
  next
    fix q assume q: "q \<in> set (pages ?s1)" "page_key q = target_key page"
    then obtain a where a: "a \<in> set (pages s)" "q = (if pag_id a = pag_id e then ?f a else a)"
      unfolding pg set_update_where by blast
    show "\<not> pag_is_latest q"
    proof
      assume "pag_is_latest q"
      with a have "q = a" "pag_id a \<noteq> pag_id e" by (auto split: if_splits)
      moreover from this have "a = e" using same_head[OF o(1) a(1), of e] e q(2) \<open>pag_is_latest q\<close> by (simp add: latest_head)
      ultimately show False by simp
    qed
  next
    let ?v = "version_row env page (conform_frontmatter (pe_okf env) (np_path page) (np_frontmatter page)) (wi_page ids) (Some (pag_id e)) now"
    assume fresh: "pag_id ?v \<notin> pag_id ` set (pages ?s1)"
    have "pag_id ` set (pages ?s1) = pag_id ` set (pages s)" unfolding pg by (rule image_update_where) simp
    with fresh show "pages_ok (pages ?s1 @ [?v])"
      unfolding pg using e sa by (intro pages_ok_supersede[OF o(1)]) (simp_all add: version_row_simps is_head_def)
  qed (simp_all add: close_entity_windows_def)
next
  case (resurrect t)
  note o = page_store_okD[OF ok]
  let ?f = "\<lambda>r. r\<lparr>pag_superseded_at := None\<rparr>"
  let ?s1 = "s\<lparr>pages := update_where (\<lambda>r. pag_id r = t) ?f (pages s)\<rparr>"
  obtain h where h: "h \<in> set (pages s)" "pag_id h = t" "page_key h = target_key page" "is_tombstone h"
    using tombstone_chosen[OF resurrect(2)] by blast
  have pg: "pages ?s1 = update_where (\<lambda>r. pag_id r = t) ?f (pages s)" by simp
  show ?thesis
  proof (rule add_version_keeps[THEN conjunct1, OF ok _ _ _ pg _ _ _ _ _ refl _ resurrect(3)])
    fix l assume "l \<in> set (entity_page_links ?s1)"
    then obtain x where x: "x \<in> set (pages s)" "pag_id x = epl_page l" "epl_superseded_at l = None \<longleftrightarrow> pag_is_latest x"
      using o(4)[of l] unfolding window_ok_def by auto
    then show "window_ok (pages ?s1) l"
      unfolding window_ok_def using in_update_where[OF x(1), of "\<lambda>r. pag_id r = t" ?f]
      by (intro bexI[of _ "if pag_id x = t then ?f x else x"]) simp_all
  next
    fix q assume q: "q \<in> set (pages ?s1)" "page_key q = target_key page"
    then obtain a where a: "a \<in> set (pages s)" "q = (if pag_id a = t then ?f a else a)" unfolding pg set_update_where by blast
    then show "\<not> pag_is_latest q" using latest_at_NoneD[OF resurrect(1) a(1)] q(2) by (auto split: if_splits)
  next
    let ?v = "version_row env page (conform_frontmatter (pe_okf env) (np_path page) (np_frontmatter page)) (wi_page ids) (Some t) now"
    assume fresh: "pag_id ?v \<notin> pag_id ` set (pages ?s1)"
    have "pag_id ` set (pages ?s1) = pag_id ` set (pages s)" unfolding pg by (rule image_update_where) simp
    with fresh have "pages_ok (update_where (\<lambda>r. pag_id r = pag_id h) ?f (pages s) @ [?v])"
      using h tombstone_head[OF h(4)] by (intro pages_ok_supersede[OF o(1)]) (simp_all add: version_row_simps is_head_def is_tombstone_def)
    then show "pages_ok (pages ?s1 @ [?v])" unfolding pg h(2) .
  qed simp_all
next
  case create
  note o = page_store_okD[OF ok]
  have pg: "pages s = update_where (\<lambda>_. False) id (pages s)" by (simp add: update_where_def)
  show ?thesis
  proof (rule add_version_keeps[THEN conjunct1, OF ok refl refl refl pg _ _ _ o(4) _ refl _ create(3)])
    fix q assume "q \<in> set (pages s)" "page_key q = target_key page"
    then show "\<not> pag_is_latest q" by (rule latest_at_NoneD[OF create(1)])
  next
    let ?v = "version_row env page (conform_frontmatter (pe_okf env) (np_path page) (np_frontmatter page)) (wi_page ids) None now"
    assume "pag_id ?v \<notin> pag_id ` set (pages s)"
    moreover have "page_key h \<noteq> page_key ?v" if "h \<in> set (pages s)" "is_head h" for h
      using latest_at_NoneD[OF create(1) that(1)] no_tombstone[OF create(2) that(1)] that(2)
      by (auto simp: version_row_simps is_head_def is_tombstone_def)
    ultimately show "pages_ok (pages s @ [?v])"
      by (intro pages_ok_create[OF o(1)]) (simp_all add: version_row_simps)
  qed simp_all
qed

end
