(* ===== verification/PageSystem.thy ===== *)
theory PageSystem
  imports PageInvariant
begin

text \<open>
  The page operations as a system of commands. Every command keeps the invariant of \<open>PageInvariant\<close>, so it holds in
  every store reachable from an empty wiki. From it follow what the operations promise: links follow the live version,
  a conditional write is compare-and-set, rewriting a page with what it holds adds no version, a write to a
  tombstoned path takes over its history, and the permanent deletion removes exactly the versions of a path nobody
  lives at.
\<close>

section \<open>Tombstoning, deletion and migration keep the invariant\<close>

lemma target_ok_rows:
  assumes "target_ok rows k to"
    and "\<And>q. q \<in> set rows \<Longrightarrow> \<exists>q' \<in> set rows'. pag_id q' = pag_id q \<and> page_key q' = page_key q"
    and "\<And>q. q \<in> set rows' \<Longrightarrow> pag_is_latest q \<Longrightarrow> \<exists>q' \<in> set rows. pag_id q' = pag_id q \<and> page_key q' = page_key q \<and> pag_is_latest q'"
  shows "target_ok rows' k to"
  unfolding target_ok_def
proof (intro conjI allI impI ballI)
  fix i assume "to = Some i"
  then obtain q where q: "q \<in> set rows" "pag_id q = i" "page_key q = k" using assms(1) unfolding target_ok_def by blast
  from assms(2)[OF q(1)] show "\<exists>q \<in> set rows'. pag_id q = i \<and> page_key q = k" using q(2,3) by (elim bexE) (intro bexI, simp_all)
next
  fix q assume q: "q \<in> set rows'" "page_key q = k \<and> pag_is_latest q"
  from assms(3)[OF q(1)] q(2) obtain q' where "q' \<in> set rows" "pag_id q' = pag_id q" "page_key q' = k" "pag_is_latest q'" by auto
  with assms(1) show "to = Some (pag_id q)" unfolding target_ok_def by auto
qed

text \<open>An update of page rows that keeps identities and makes nothing live keeps every link right.\<close>

lemma link_ok_update:
  assumes l: "link_ok s l" and s': "workspaces s' = workspaces s" "projects s' = projects s" "pages s' = update_where P f (pages s)"
    and f: "\<And>x. pag_id (f x) = pag_id x" "\<And>x. page_key (f x) = page_key x" "\<And>x. pag_is_latest (f x) \<Longrightarrow> pag_is_latest x"
  shows "link_ok s' l"
proof -
  obtain r where r: "r \<in> set (pages s)" "pag_id r = lnk_from l"
    and t: "case link_key s r l of None \<Rightarrow> lnk_to l = None | Some k \<Rightarrow> target_ok (pages s) k (lnk_to l)" and nl: "\<not> legacy_link l"
    using l unfolding link_ok_def by blast
  let ?u = "\<lambda>x. if P x then f x else x"
  have in': "?u x \<in> set (pages s')" if "x \<in> set (pages s)" for x using in_update_where[OF that, of P f] unfolding s'(3) .
  have u: "pag_id (?u x) = pag_id x" "page_key (?u x) = page_key x" for x using f(1,2) by simp_all
  have lk: "link_key s' (?u r) l = link_key s r l"
    using link_key_cong[OF s'(1,2), of "?u r" l] link_key_row[of "?u r" r s l] u(2)[of r] by (simp add: page_key_def)
  have "target_ok (pages s') k to" if "target_ok (pages s) k to" for k to
    using that
  proof (rule target_ok_rows)
    fix q assume "q \<in> set (pages s)"
    then show "\<exists>q' \<in> set (pages s'). pag_id q' = pag_id q \<and> page_key q' = page_key q" using in'[of q] u[of q] by (intro bexI[of _ "?u q"]) simp_all
  next
    fix q assume q: "q \<in> set (pages s')" "pag_is_latest q"
    obtain a where a: "q = ?u a" "a \<in> set (pages s)" using q(1) unfolding s'(3) set_update_where by (rule imageE)
    have "pag_is_latest a" using q(2) a(1) f(3)[of a] by (simp split: if_splits)
    then show "\<exists>q' \<in> set (pages s). pag_id q' = pag_id q \<and> page_key q' = page_key q \<and> pag_is_latest q'"
      using a u[of a] by (intro bexI[of _ a]) simp_all
  qed
  then have "case link_key s' (?u r) l of None \<Rightarrow> lnk_to l = None | Some k \<Rightarrow> target_ok (pages s') k (lnk_to l)"
    using t unfolding lk by (cases "link_key s r l") simp_all
  then show ?thesis unfolding link_ok_def using nl in'[OF r(1)] u(1)[of r] r(2) by (intro conjI bexI[of _ "?u r"]) simp_all
qed

lemma pairing_update:
  assumes "\<And>r. r \<in> set (pages s) \<Longrightarrow> pairing_ok s (pag_workspace r) (pag_project r)" "projects s' = projects s"
    "pages s' = update_where P f (pages s)" "\<And>x. page_key (f x) = page_key x" "r \<in> set (pages s')"
  shows "pairing_ok s' (pag_workspace r) (pag_project r)"
proof -
  obtain a where a: "r = (if P a then f a else a)" "a \<in> set (pages s)"
    using assms(5) unfolding assms(3) set_update_where by (rule imageE)
  have "page_key r = page_key a" using a(1) assms(4)[of a] by simp
  then show ?thesis using assms(1)[OF a(2)] pairing_ok_cong[OF assms(2)] by (simp add: page_key_def)
qed

lemma in_place_keeps:
  assumes ok: "page_store_ok s"
    and f: "\<And>r. pag_id (f r) = pag_id r" "\<And>r. pag_supersedes (f r) = pag_supersedes r" "\<And>r. page_key (f r) = page_key r"
      "\<And>r. pag_is_latest (f r) = pag_is_latest r" "\<And>r. pag_superseded_at (f r) = pag_superseded_at r" "\<And>r. pag_valid_to (f r) = pag_valid_to r"
  shows "page_store_ok (s\<lparr>pages := update_where P f (pages s)\<rparr>)"
proof -
  let ?s = "s\<lparr>pages := update_where P f (pages s)\<rparr>"
  note o = page_store_okD[OF ok]
  have "pages_ok (pages ?s)" using pages_ok_in_place[OF o(1) f] by simp
  moreover have "scopes_ok ?s" using o(2) by (simp add: scopes_ok_def)
  moreover have "link_ok ?s l" if "l \<in> set (links ?s)" for l
    by (rule link_ok_update[OF o(3), of l _ P f]) (use that f in simp_all)
  moreover have "window_ok (pages ?s) l" if l: "l \<in> set (entity_page_links ?s)" for l
  proof -
    have "window_ok (pages s) l" using o(4) l by simp
    then obtain r where r: "r \<in> set (pages s)" "pag_id r = epl_page l" "epl_superseded_at l = None \<longleftrightarrow> pag_is_latest r"
      unfolding window_ok_def by (elim bexE conjE)
    then show ?thesis unfolding window_ok_def using in_update_where[OF r(1), of P f] f(1,4)
      by (intro bexI[of _ "if P r then f r else r"]) simp_all
  qed
  moreover have "pairing_ok ?s (pag_workspace r) (pag_project r)" if "r \<in> set (pages ?s)" for r
    by (rule pairing_update[OF o(5) _ _ f(3) that]) simp_all
  ultimately show ?thesis unfolding page_store_ok_def by blast
qed

lemma audit_keeps: "page_store_ok (audit s op w p g a t) = page_store_ok s"
  by (rule page_store_ok_cong) simp_all

lemma tombstone_keeps:
  assumes ok: "page_store_ok s"
  shows "page_store_ok (fst (tombstone_if_latest op s key i now))"
proof (cases "exists_row (\<lambda>r. pag_id r = i \<and> page_key r = key \<and> pag_is_latest r) (pages s)")
  case False
  then show ?thesis using ok by (simp add: tombstone_if_latest_def del: exists_row_iff)
next
  case True
  note o = page_store_okD[OF ok]
  obtain h where h: "h \<in> set (pages s)" "pag_id h = i" "page_key h = key" "pag_is_latest h" using True by auto
  let ?P = "\<lambda>r. pag_id r = i \<and> page_key r = key \<and> pag_is_latest r"
  let ?f = "\<lambda>r. r\<lparr>pag_is_latest := False, pag_superseded_at := Some now, pag_valid_to := Some now\<rparr>"
  let ?s = "close_entity_windows (s\<lparr>pages := update_where ?P ?f (pages s)\<rparr>) i now"
  have pg: "pages ?s = update_where ?P ?f (pages s)" by (simp add: close_entity_windows_def)
  have alt: "update_where ?P ?f (pages s) = update_where (\<lambda>r. pag_id r = i) ?f (pages s)"
    unfolding update_where_def
  proof (rule map_cong[OF refl])
    fix x assume "x \<in> set (pages s)"
    then have "pag_id x = i \<Longrightarrow> x = h" using same_id[OF o(1) _ h(1)] h(2) by simp
    then show "(if ?P x then ?f x else x) = (if pag_id x = i then ?f x else x)" using h by auto
  qed
  have "pages_ok (pages ?s)" unfolding pg by (rule pages_ok_tombstone[OF o(1) _ refl]) simp
  moreover have "scopes_ok ?s" using o(2) by (simp add: scopes_ok_def close_entity_windows_def)
  moreover have "link_ok ?s l" if "l \<in> set (links ?s)" for l
    by (rule link_ok_update[OF o(3) _ _ pg]) (use that in \<open>simp_all add: close_entity_windows_def\<close>)
  moreover have "window_ok (pages ?s) l" if "l \<in> set (entity_page_links ?s)" for l
    unfolding trans[OF pg alt] by (rule closed_windows[OF o(1) o(4) h(1,2)]) (use that in \<open>simp_all add: close_entity_windows_def\<close>)
  moreover have "pairing_ok ?s (pag_workspace r) (pag_project r)" if "r \<in> set (pages ?s)" for r
    by (rule pairing_update[OF o(5) _ pg _ that]) (simp_all add: close_entity_windows_def)
  ultimately have "page_store_ok ?s" unfolding page_store_ok_def by blast
  then show ?thesis using True by (simp add: tombstone_if_latest_def Let_def audit_keeps del: exists_row_iff)
qed

lemma delete_where_keeps:
  assumes ok: "page_store_ok s"
    and down: "\<And>r q. r \<in> set (pages s) \<Longrightarrow> q \<in> set (pages s) \<Longrightarrow> pag_supersedes r = Some (pag_id q) \<Longrightarrow> P q = P r"
  shows "page_store_ok (delete_pages_where P s)"
proof -
  let ?s = "delete_pages_where P s" and ?gone = "pag_id ` set (filter P (pages s))"
  let ?f = "\<lambda>r. r\<lparr>pag_supersedes := forget ?gone (pag_supersedes r)\<rparr>"
  note o = page_store_okD[OF ok]
  have gone: "pag_id q \<in> ?gone \<longleftrightarrow> P q" if q: "q \<in> set (pages s)" for q
  proof
    assume "pag_id q \<in> ?gone"
    then obtain a where "a \<in> set (pages s)" "P a" "pag_id a = pag_id q" by auto
    then show "P q" using same_id[OF o(1) _ q] by blast
  qed (use q in auto)
  have pg: "pages ?s = map ?f (filter (\<lambda>r. \<not> P r) (pages s))" by (simp add: delete_pages_where_def Let_def)
  have fr: "workspaces ?s = workspaces s" "projects ?s = projects s" by (simp_all add: delete_pages_where_def Let_def)
  have kept: "?f q \<in> set (pages ?s)" if "q \<in> set (pages s)" "pag_id q \<notin> ?gone" for q
    unfolding pg using that gone[OF that(1)] by simp
  have from': "\<exists>a \<in> set (pages s). q = ?f a \<and> pag_id a \<notin> ?gone" if q: "q \<in> set (pages ?s)" for q
  proof -
    obtain a where a: "q = ?f a" "a \<in> set (filter (\<lambda>r. \<not> P r) (pages s))" using q unfolding pg set_map by (rule imageE)
    then show ?thesis using gone[of a] by (intro bexI[of _ a]) simp_all
  qed
  have "pages_ok (pages ?s)" unfolding pg by (rule pages_ok_delete[OF o(1) refl down])
  moreover have "scopes_ok ?s" using o(2) unfolding scopes_ok_def fr .
  moreover have "link_ok ?s l'" if l': "l' \<in> set (links ?s)" for l'
  proof -
    obtain l where l: "l \<in> set (links s)" "lnk_from l \<notin> ?gone" "l' = l\<lparr>lnk_to := forget ?gone (lnk_to l)\<rparr>"
      using l' by (auto simp: delete_pages_where_def Let_def)
    obtain r where r: "r \<in> set (pages s)" "pag_id r = lnk_from l" "\<not> legacy_link l"
      and t: "case link_key s r l of None \<Rightarrow> lnk_to l = None | Some k \<Rightarrow> target_ok (pages s) k (lnk_to l)"
      using o(3)[OF l(1)] unfolding link_ok_def by blast
    have lk: "link_key ?s (?f r) l' = link_key s r l"
      using link_key_cong[OF fr, of "?f r" l'] link_key_row[of "?f r" r s l] by (simp add: l(3))
    have "target_ok (pages ?s) k (forget ?gone to)" if t': "target_ok (pages s) k to" for k to
      unfolding target_ok_def
    proof (intro conjI allI impI ballI)
      fix i assume "forget ?gone to = Some i"
      then have i: "to = Some i" "i \<notin> ?gone" by (auto simp: forget_def split: option.splits if_splits)
      then obtain q where q: "q \<in> set (pages s)" "pag_id q = i" "page_key q = k" using t' unfolding target_ok_def by blast
      then show "\<exists>q \<in> set (pages ?s). pag_id q = i \<and> page_key q = k" using kept[OF q(1)] i(2) by (intro bexI[of _ "?f q"]) simp_all
    next
      fix q assume q: "q \<in> set (pages ?s)" "page_key q = k \<and> pag_is_latest q"
      obtain a where a: "a \<in> set (pages s)" "q = ?f a" "pag_id a \<notin> ?gone" using from'[OF q(1)] by blast
      have "to = Some (pag_id a)" using t' a(1,2) q(2) unfolding target_ok_def by simp
      then show "forget ?gone to = Some (pag_id q)" using a(2,3) by (simp add: forget_def)
    qed
    then have "case link_key ?s (?f r) l' of None \<Rightarrow> lnk_to l' = None | Some k \<Rightarrow> target_ok (pages ?s) k (lnk_to l')"
      using t unfolding lk by (cases "link_key s r l") (simp_all add: l(3) forget_def)
    then show ?thesis unfolding link_ok_def using r l kept[OF r(1)] by (intro conjI bexI[of _ "?f r"]) simp_all
  qed
  moreover have "window_ok (pages ?s) l" if l: "l \<in> set (entity_page_links ?s)" for l
  proof -
    have l': "l \<in> set (entity_page_links s)" "epl_page l \<notin> ?gone" using l by (auto simp: delete_pages_where_def Let_def)
    from o(4)[OF l'(1)] obtain r where r: "r \<in> set (pages s)" "pag_id r = epl_page l" "epl_superseded_at l = None \<longleftrightarrow> pag_is_latest r"
      unfolding window_ok_def by (elim bexE conjE)
    then show ?thesis unfolding window_ok_def using kept[OF r(1)] l'(2) by (intro bexI[of _ "?f r"]) simp_all
  qed
  moreover have "pairing_ok ?s (pag_workspace q) (pag_project q)" if q: "q \<in> set (pages ?s)" for q
  proof -
    obtain a where a: "a \<in> set (pages s)" "q = ?f a" using from'[OF q] by blast
    then show ?thesis using o(5)[OF a(1)] pairing_ok_cong[OF fr(2)] by simp
  qed
  ultimately show ?thesis unfolding page_store_ok_def by blast
qed

lemma unlinked_entities_keeps: "page_store_ok (delete_unlinked_entities s w p) = page_store_ok s"
  by (rule page_store_ok_cong) (simp_all add: delete_unlinked_entities_def)

lemma superseded_same_key:
  assumes "pages_ok rows" "r \<in> set rows" "q \<in> set rows" "pag_supersedes r = Some (pag_id q)"
  shows "page_key q = page_key r"
proof -
  obtain t where "t \<in> set rows" "pag_id t = pag_id q" "page_key t = page_key r"
    using pages_okD(6)[OF assms(1)] assms(2,4) unfolding superseded_ok_def by blast
  then show ?thesis using same_id[OF assms(1) _ assms(3)] by blast
qed

lemma delete_page_inner_keeps:
  assumes "page_store_ok s"
  shows "page_store_ok (fst (delete_page_inner s key expected author now))"
proof -
  have "page_store_ok (delete_pages_where (\<lambda>r. page_key r = key) s)"
    by (rule delete_where_keeps[OF assms]) (use superseded_same_key[OF page_store_okD(1)[OF assms]] in auto)
  then show ?thesis using assms
    by (simp add: delete_page_inner_def Let_def audit_keeps unlinked_entities_keeps del: exists_row_iff)
qed

text \<open>A root of the permanent deletion is the head of its path, so the deletion takes the whole path.\<close>

lemma decay_root_chain:
  assumes "page_store_ok s" "exists_row (decay_root key cutoff t) (pages s)"
  shows "set (decay_chain (pages s) key [] t) = pag_id ` {r \<in> set (pages s). page_key r = key}"
    and "\<And>r. r \<in> set (pages s) \<Longrightarrow> page_key r = key \<Longrightarrow> \<not> pag_is_latest r"
proof -
  obtain h where h: "h \<in> set (pages s)" "decay_root key cutoff t h" using assms(2) by auto
  then have hk: "pag_id h = t" "page_key h = key" "is_tombstone h" by (auto simp: decay_root_def is_tombstone_def split: option.splits)
  note ok = page_store_okD(1)[OF assms(1)] and hh = tombstone_head[OF hk(3)]
  show "set (decay_chain (pages s) key [] t) = pag_id ` {r \<in> set (pages s). page_key r = key}"
    using chain_is_history[OF ok h(1) hh] by (simp add: hk)
  fix r assume r: "r \<in> set (pages s)" "page_key r = key"
  show "\<not> pag_is_latest r"
  proof
    assume "pag_is_latest r"
    then have "r = h" using same_head[OF ok r(1) h(1) latest_head hh] r(2) hk(2) by simp
    then show False using \<open>pag_is_latest r\<close> hk(3) by (simp add: is_tombstone_def)
  qed
qed

lemma chain_rows_are_path:
  assumes "page_store_ok s" "exists_row (decay_root key cutoff t) (pages s)" "r \<in> set (pages s)"
  shows "pag_id r \<in> set (decay_chain (pages s) key [] t) \<longleftrightarrow> page_key r = key"
  unfolding decay_root_chain(1)[OF assms(1,2)]
proof
  assume "pag_id r \<in> pag_id ` {r \<in> set (pages s). page_key r = key}"
  then obtain q where q: "q \<in> set (pages s)" "page_key q = key" "pag_id q = pag_id r" by auto
  have "q = r" by (rule same_id[OF page_store_okD(1)[OF assms(1)] q(1) assms(3) q(3)])
  with q(2) show "page_key r = key" by simp
qed (use assms(3) in auto)

lemma hard_delete_keeps:
  assumes ok: "page_store_ok s"
  shows "page_store_ok (fst (hard_delete_decayed_page_chain s key t expected cutoff now))"
proof (cases "map_option pag_id (latest_at s key) = expected \<and> exists_row (decay_root key cutoff t) (pages s)")
  case True
  note p = page_store_okD(1)[OF ok] and iff = chain_rows_are_path[OF ok conjunct2[OF True]]
  have "page_store_ok (delete_pages_where (\<lambda>r. pag_id r \<in> set (decay_chain (pages s) key [] t)) s)"
    by (rule delete_where_keeps[OF ok]) (use superseded_same_key[OF p] iff in auto)
  then show ?thesis using True ok
    by (simp add: hard_delete_decayed_page_chain_def Let_def audit_keeps unlinked_entities_keeps del: exists_row_iff)
next
  case False
  then show ?thesis using ok
    by (auto simp: hard_delete_decayed_page_chain_def Let_def changed_rows_def simp del: exists_row_iff)
qed

section \<open>The system of page commands\<close>

datatype page_command =
    UpsertPage new_page write_ids int
  | UpsertFromDisk new_page write_ids int
  | UpsertIf new_page page_precondition write_ids int
  | UpsertBatch "new_page list" "write_ids list" int
  | UpsertBatchIf "(new_page \<times> page_precondition) list" "write_ids list" int
  | DecayPage page_key uuid int
  | ReconcilePage page_key uuid int
  | DeletePage page_key "uuid option" int
  | DeletePageIfLatest page_key uuid "uuid option" int
  | HardDelete page_key uuid "uuid option" int int
  | MigrateOkf
  | RepairStaleAfter

primrec page_step :: "page_env \<Rightarrow> store \<Rightarrow> page_command \<Rightarrow> store" where
  "page_step env s (UpsertPage page ids now) = committed s (upsert_page env s page ids now)"
| "page_step env s (UpsertFromDisk page ids now) = committed s (upsert_page_from_disk env s page ids now)"
| "page_step env s (UpsertIf page precondition ids now) = committed s (upsert_page_if env s page precondition ids now)"
| "page_step env s (UpsertBatch batch ids now) = committed s (upsert_pages_batch env s batch ids now)"
| "page_step env s (UpsertBatchIf batch ids now) = committed s (upsert_pages_batch_if env s batch ids now)"
| "page_step env s (DecayPage key i now) = fst (soft_delete_for_decay_if_latest s key i now)"
| "page_step env s (ReconcilePage key i now) = fst (soft_delete_for_reconcile_if_latest s key i now)"
| "page_step env s (DeletePage key author now) = delete_page s key author now"
| "page_step env s (DeletePageIfLatest key i author now) = fst (delete_page_if_latest s key i author now)"
| "page_step env s (HardDelete key t expected cutoff now) = fst (hard_delete_decayed_page_chain s key t expected cutoff now)"
| "page_step env s MigrateOkf = fst (okf_migrate_latest_pages env s)"
| "page_step env s RepairStaleAfter = fst (repair_latest_stale_after env s)"

definition empty_wiki :: "store \<Rightarrow> bool" where
  "empty_wiki s \<longleftrightarrow> scopes_ok s \<and> pages s = [] \<and> links s = [] \<and> entity_page_links s = []"

lemma upsert_each_keeps:
  "page_store_ok s \<Longrightarrow> upsert_each env s ps ids now = Inr (s', is) \<Longrightarrow> page_store_ok s'"
  by (induction ps arbitrary: s s' ids "is") (auto simp: and_then_Inr_iff dest: upsert_keeps split: prod.splits)

lemma page_step_keeps:
  assumes ok: "page_store_ok s"
  shows "page_store_ok (page_step env s c)"
proof (cases c)
  case (UpsertPage page ids now)
  show ?thesis unfolding UpsertPage page_step.simps
    by (rule committed_keeps[where P = page_store_ok, OF ok]) (auto simp: upsert_page_def dest: upsert_keeps[OF ok])
next
  case (UpsertFromDisk page ids now)
  show ?thesis unfolding UpsertFromDisk page_step.simps
    by (rule committed_keeps[where P = page_store_ok, OF ok])
      (auto simp: upsert_page_from_disk_def and_then_Inr_iff dest: upsert_keeps[OF ok] split: option.splits if_splits)
next
  case (UpsertIf page precondition ids now)
  show ?thesis unfolding UpsertIf page_step.simps
    by (rule committed_keeps[where P = page_store_ok, OF ok])
      (auto simp: upsert_page_if_def and_then_Inr_iff Let_def ok dest: upsert_keeps[OF ok] split: if_splits)
next
  case (UpsertBatch batch ids now)
  show ?thesis unfolding UpsertBatch page_step.simps
    by (rule committed_keeps[where P = page_store_ok, OF ok]) (auto simp: upsert_pages_batch_def dest: upsert_each_keeps[OF ok])
next
  case (UpsertBatchIf batch ids now)
  show ?thesis unfolding UpsertBatchIf page_step.simps
    by (rule committed_keeps[where P = page_store_ok, OF ok])
      (auto simp: upsert_pages_batch_if_def and_then_Inr_iff ok dest: upsert_each_keeps[OF ok] split: option.splits)
next
  case MigrateOkf
  show ?thesis unfolding MigrateOkf page_step.simps okf_migrate_latest_pages_def fst_conv
    by (rule in_place_keeps[OF ok]) simp_all
next
  case RepairStaleAfter
  show ?thesis unfolding RepairStaleAfter page_step.simps repair_latest_stale_after_def Let_def fst_conv
    by (rule in_place_keeps[OF ok]) simp_all
qed (simp_all add: soft_delete_for_decay_if_latest_def soft_delete_for_reconcile_if_latest_def delete_page_def
      delete_page_if_latest_def tombstone_keeps[OF ok] delete_page_inner_keeps[OF ok] hard_delete_keeps[OF ok])

interpretation page_sys: step_system empty_wiki "\<lambda>s ec s'. s' = page_step (fst ec) s (snd ec)" page_store_ok
proof
  show "page_store_ok s" if "empty_wiki s" for s
    using that by (simp add: empty_wiki_def page_store_ok_def)
  show "page_store_ok s'" if "page_store_ok s" "s' = page_step (fst ec) s (snd ec)" for s ec s'
    using that page_step_keeps by simp
qed

section \<open>Links, entity windows and histories\<close>

text \<open>
  C5. In every store a sequence of page writes, sweeps, deletions and migrations can lead to, each link whose target
  page has a live version points at that version, whatever scope it was written with; a link that points anywhere
  points at a version of the page it names; an entity window is open exactly while its version is live; and
  each path has at most one live version.
\<close>

theorem links_follow_live_versions:
  assumes "empty_wiki s0" "page_sys.run s0 cs s"
  shows "(\<forall>l \<in> set (links s). \<exists>r \<in> set (pages s). pag_id r = lnk_from l
      \<and> (case link_scope s (pag_workspace r) (pag_project r) (lnk_workspace l) (lnk_project l) of
           None \<Rightarrow> lnk_to l = None
         | Some (w, p) \<Rightarrow>
             (\<forall>q \<in> set (pages s). page_key q = (w, p, lnk_path l) \<and> pag_is_latest q \<longrightarrow> lnk_to l = Some (pag_id q))
             \<and> (\<forall>i. lnk_to l = Some i \<longrightarrow> (\<exists>q \<in> set (pages s). pag_id q = i \<and> page_key q = (w, p, lnk_path l)))))
    \<and> (\<forall>e \<in> set (entity_page_links s). \<exists>r \<in> set (pages s). pag_id r = epl_page e \<and> (epl_superseded_at e = None \<longleftrightarrow> pag_is_latest r))
    \<and> unique_on pag_is_latest page_key (pages s)"
proof (intro conjI ballI)
  have ok: "page_store_ok s" using page_sys.reachable_inv assms by blast
  note o = page_store_okD[OF ok]
  fix l assume "l \<in> set (links s)"
  then obtain r where r: "r \<in> set (pages s)" "pag_id r = lnk_from l"
    and t: "case link_key s r l of None \<Rightarrow> lnk_to l = None | Some k \<Rightarrow> target_ok (pages s) k (lnk_to l)"
    using o(3) unfolding link_ok_def by blast
  have "case link_scope s (pag_workspace r) (pag_project r) (lnk_workspace l) (lnk_project l) of
           None \<Rightarrow> lnk_to l = None
         | Some (w, p) \<Rightarrow>
             (\<forall>q \<in> set (pages s). page_key q = (w, p, lnk_path l) \<and> pag_is_latest q \<longrightarrow> lnk_to l = Some (pag_id q))
             \<and> (\<forall>i. lnk_to l = Some i \<longrightarrow> (\<exists>q \<in> set (pages s). pag_id q = i \<and> page_key q = (w, p, lnk_path l)))"
    using t by (cases "link_scope s (pag_workspace r) (pag_project r) (lnk_workspace l) (lnk_project l)")
      (auto simp: link_key_def target_ok_def)
  with r show "\<exists>r \<in> set (pages s). pag_id r = lnk_from l
      \<and> (case link_scope s (pag_workspace r) (pag_project r) (lnk_workspace l) (lnk_project l) of
           None \<Rightarrow> lnk_to l = None
         | Some (w, p) \<Rightarrow>
             (\<forall>q \<in> set (pages s). page_key q = (w, p, lnk_path l) \<and> pag_is_latest q \<longrightarrow> lnk_to l = Some (pag_id q))
             \<and> (\<forall>i. lnk_to l = Some i \<longrightarrow> (\<exists>q \<in> set (pages s). pag_id q = i \<and> page_key q = (w, p, lnk_path l))))"
    by (intro bexI[of _ r] conjI)
next
  have ok: "page_store_ok s" using page_sys.reachable_inv assms by blast
  fix e assume "e \<in> set (entity_page_links s)"
  then show "\<exists>r \<in> set (pages s). pag_id r = epl_page e \<and> (epl_superseded_at e = None \<longleftrightarrow> pag_is_latest r)"
    using page_store_okD(4)[OF ok] unfolding window_ok_def by blast
next
  have ok: "pages_ok (pages s)" using page_sys.reachable_inv assms page_store_okD(1) by blast
  show "unique_on pag_is_latest page_key (pages s)"
    by (rule unique_on_via_key[OF pages_okD(1)[OF ok]]) (use same_head[OF ok] latest_head in blast)
qed



section \<open>Conditional and repeated writes\<close>

lemma add_version_pages:
  assumes "add_version env s page c ids prev op now = Inr (s', i)"
  shows "i = wi_page ids" "pages s' = pages s @ [version_row env page c (wi_page ids) prev now]"
    "workspaces s' = workspaces s" "projects s' = projects s"
  by (rule add_version_shape[OF assms refl], assumption)+

text \<open>The version an upsert returns is the live one: the unchanged version it found, or the row it added.\<close>

lemma upsert_live:
  assumes ok: "page_store_ok s" and r: "upsert_page_in_tx env s page ids now = Inr (s', i)"
  defines "c \<equiv> conform_frontmatter (pe_okf env) (np_path page) (np_frontmatter page)"
  shows "\<exists>r. latest_at s' (target_key page) = Some r \<and> pag_id r = i
    \<and> (latest_at s (target_key page) = Some r \<and> unchanged env r page c \<or> (\<exists>prev. r = version_row env page c (wi_page ids) prev now))"
proof -
  have ok': "pages_ok (pages s')" by (rule page_store_okD(1)[OF upsert_keeps[OF ok r]])
  have added: "?thesis" if "add_version env s1 page c ids prev op now = Inr (s', i)" for s1 prev op
  proof (intro exI conjI disjI2)
    let ?v = "version_row env page c (wi_page ids) prev now"
    note p = add_version_pages[OF that]
    show "latest_at s' (target_key page) = Some ?v"
      by (rule latest_at_unique[OF ok']) (simp_all add: p(2) version_row_simps)
    show "pag_id ?v = i" by (simp add: p(1) version_row_simps)
  qed (rule refl)
  show ?thesis using r
  proof (cases rule: upsert_cases)
    case (same e)
    then show ?thesis by (intro exI[of _ e]) (simp add: insert_evidence_in_tx_def latest_at_def c_def)
  next
    case (supersede e)
    show ?thesis by (rule added[OF supersede(3)[folded c_def]])
  next
    case (resurrect t)
    show ?thesis by (rule added[OF resurrect(3)[folded c_def]])
  next
    case create
    show ?thesis by (rule added[OF create(3)[folded c_def]])
  qed
qed





lemma cite_again: "e \<in> set ev \<Longrightarrow> cite i now' (foldl (cite i now) rows ev) e = foldl (cite i now) rows ev"
proof -
  have mono: "x \<in> set rows \<Longrightarrow> x \<in> set (foldl (cite i now) rows ev)" for x rows ev
    by (induction ev arbitrary: rows) (auto simp: cite_def)
  have cited: "exists_row (\<lambda>r. pev_page r = i \<and> pev_kind r = evidence_kind_str (ev_kind e) \<and> pev_source r = ev_source_id e) (cite i now rows e)" for rows
    by (cases "exists_row (\<lambda>r. pev_page r = i \<and> pev_kind r = evidence_kind_str (ev_kind e) \<and> pev_source r = ev_source_id e) rows")
      (auto simp: cite_def)
  have "e \<in> set ev \<Longrightarrow> exists_row (\<lambda>r. pev_page r = i \<and> pev_kind r = evidence_kind_str (ev_kind e) \<and> pev_source r = ev_source_id e)
      (foldl (cite i now) rows ev)" for rows ev
  proof (induction ev arbitrary: rows)
    case (Cons a ev)
    show ?case
    proof (cases "e = a")
      case True
      with cited[of rows] mono[of _ "cite i now rows a" ev] show ?thesis by auto
    qed (use Cons in simp)
  qed simp
  then show "e \<in> set ev \<Longrightarrow> cite i now' (foldl (cite i now) rows ev) e = foldl (cite i now) rows ev"
    by (simp add: cite_def)
qed

lemma evidence_again:
  "foldl (cite i now') (foldl (cite i now) rows ev) ev = foldl (cite i now) rows ev"
proof -
  have "set ev' \<subseteq> set ev \<Longrightarrow> foldl (cite i now') (foldl (cite i now) rows ev) ev' = foldl (cite i now) rows ev" for ev'
    by (induction ev') (simp_all add: cite_again)
  then show ?thesis by simp
qed

text \<open>
  C19. Writing a page again with what it already holds adds no version: in a reachable store the repeated upsert
  returns the same version id and leaves the page table, the links and the evidence exactly as the first left
  them, even though the clock has moved and the stored text carries the time stamp of the first write. The JSON
  printer and parser are only assumed to read back the one value that was written.
\<close>

theorem rewrite_is_idempotent:
  assumes "empty_wiki s0" "page_sys.run s0 cs s" "json_ok (np_frontmatter page)"
    and c: "c = conform_frontmatter (pe_okf env) (np_path page) (np_frontmatter page)"
    and rt: "json_value env (stamped_frontmatter env c now)
        = Some (if generated_at c = None then stamp_generated_at (second_text (pe_okf env) now) c else c)"
    and w: "upsert_page_in_tx env s page ids now = Inr (s1, i)"
  shows "\<exists>s2. upsert_page_in_tx env s1 page ids2 now2 = Inr (s2, i)
    \<and> pages s2 = pages s1 \<and> links s2 = links s1 \<and> entities s2 = entities s1 \<and> entity_page_links s2 = entity_page_links s1
    \<and> page_evidence s2 = page_evidence s1 \<and> audit_log s2 = audit_log s1"
proof -
  have ok: "page_store_ok s" using page_sys.reachable_inv assms(1,2) by blast
  have cok: "json_ok c" unfolding c by (rule json_ok_conform[OF assms(3)])
  obtain r where r: "latest_at s1 (target_key page) = Some r" "pag_id r = i"
    and alt: "latest_at s (target_key page) = Some r \<and> unchanged env r page c \<or> (\<exists>prev. r = version_row env page c (wi_page ids) prev now)"
    using upsert_live[OF ok w, folded c] by blast
  have eq: "json_eq (strip_generated_at (if generated_at c = None then stamp_generated_at (second_text (pe_okf env) now) c else c)) (strip_generated_at c)"
  proof -
    have "json_ok (strip_generated_at c)" unfolding strip_generated_at_def by (rule json_ok_on_generated[OF cok json_ok_remove])
    then show ?thesis using strip_stamp[OF cok] json_eq_refl by simp
  qed
  have un: "unchanged env r page c"
    using alt
  proof (elim disjE exE conjE)
    fix prev assume v: "r = version_row env page c (wi_page ids) prev now"
    show ?thesis unfolding unchanged_def v version_row_def using eq by (simp add: rt)
  qed
  have "\<exists>rows. page_evidence s1 = foldl (cite i now) rows (np_evidence page)"
    using w
  proof (cases rule: upsert_cases)
    case (same e)
    then show ?thesis by (auto simp: insert_evidence_in_tx_def)
  qed (auto simp: add_version_def and_then_Inr_iff Let_def insert_evidence_in_tx_def)
  then have "foldl (cite i now2) (page_evidence s1) (np_evidence page) = page_evidence s1" using evidence_again by metis
  moreover have "upsert_page_in_tx env s1 page ids2 now2 = Inr (insert_evidence_in_tx s1 i (np_evidence page) now2, i)"
    using r un by (simp add: upsert_page_in_tx_def Let_def c[symmetric])
  ultimately show ?thesis by (simp add: insert_evidence_in_tx_def)
qed

section \<open>Tombstones\<close>



text \<open>
  Reindexing a file never revives the summary of a purged session: the write is refused exactly when the path is
  a session summary of a session purged in that project and either the file claims to be the session's own, or no
  live version written by somebody else stands at the path. A refused write changes nothing.
\<close>

theorem disk_never_revives_purged_summary:
  assumes sess: "session_of_path env (np_path page) = Some session"
    and parses: "\<And>r. latest_at s (target_key page) = Some r \<Longrightarrow> json_value env (pag_frontmatter_json r) \<noteq> None"
  shows "(upsert_page_from_disk env s page ids now = Inl (SessionPurged session) \<longleftrightarrow>
      (\<exists>t \<in> set (purged_sessions s). pur_workspace t = np_workspace page \<and> pur_project t = np_project page \<and> pur_session t = session)
      \<and> (Option.bind (json_get (np_frontmatter page) (lit ''session_id'')) json_as_str = Some (session_id_text env session)
         \<or> (\<forall>r v. latest_at s (target_key page) = Some r \<and> json_value env (pag_frontmatter_json r) = Some v \<longrightarrow>
              json_get v (lit ''session_id'') = Some (JStr (session_id_text env session)))))
    \<and> (upsert_page_from_disk env s page ids now = Inl (SessionPurged session)
       \<or> upsert_page_from_disk env s page ids now = upsert_page_in_tx env s page ids now)"
proof -
  have ne: "upsert_page_in_tx env s page ids now \<noteq> Inl (SessionPurged session)"
  proof
    assume a: "upsert_page_in_tx env s page ids now = Inl (SessionPurged session)"
    have ins: "insert_page_row s' r \<noteq> Inl (SessionPurged session)" for s' r
      by (simp add: insert_page_row_def del: exists_row_iff)
    have "attach_names s' j page n ids k names \<noteq> Inl (SessionPurged session)" for s' j n k names
      by (induction s' j page n ids k names rule: attach_names.induct) (auto simp del: exists_row_iff split: option.splits)
    then have att: "attach_entities_in_tx env s' j page n ids \<noteq> Inl (SessionPurged session)" for s' j n
      by (simp add: attach_entities_in_tx_def)
    have "add_version env s' page c ids prev op n \<noteq> Inl (SessionPurged session)" for s' c prev op n
      by (simp add: add_version_def and_then_Inl_iff ins att Let_def)
    then show False using a by (auto simp: upsert_page_in_tx_def Let_def split: option.splits if_splits)
  qed
  let ?purged = "exists_row (\<lambda>t. pur_workspace t = np_workspace page \<and> pur_project t = np_project page \<and> pur_session t = session) (purged_sessions s)"
  let ?owns = "Option.bind (json_get (np_frontmatter page) (lit ''session_id'')) json_as_str = Some (session_id_text env session)"
  let ?own = "\<forall>r v. latest_at s (target_key page) = Some r \<and> json_value env (pag_frontmatter_json r) = Some v \<longrightarrow>
              json_get v (lit ''session_id'') = Some (JStr (session_id_text env session))"
  have "summary_blocked env s page session = Inr (?purged \<and> (?owns \<or> ?own))"
    using parses by (auto simp: summary_blocked_def Let_def foreign_version_def simp del: exists_row_iff split: option.splits)
  then have e: "upsert_page_from_disk env s page ids now
      = (if ?purged \<and> (?owns \<or> ?own) then Inl (SessionPurged session) else upsert_page_in_tx env s page ids now)"
    unfolding upsert_page_from_disk_def sess option.case by (simp del: exists_row_iff)
  show ?thesis unfolding e using ne by (simp only: exists_row_iff) simp
qed

section \<open>A small wiki\<close>

definition demo_env :: page_env where
  "demo_env = \<lparr>pe_okf = demo_okf, pe_text = demo_text, sha256 = length, json_text = (\<lambda>_. lit ''{}''),
     json_value = (\<lambda>_. Some (stamp_generated_at (lit ''1970-01-01T00:00:00Z'') (conform_frontmatter demo_okf (lit ''b'') (JObj [])))),
     nfc_normalized = (\<lambda>_. True), nfc = (\<lambda>x. x),
     parse_session_id = (\<lambda>_. Some 7), session_id_text = (\<lambda>_. lit ''7'')\<rparr>"

definition demo_wiki :: store where
  "demo_wiki = empty_store\<lparr>workspaces := [\<lparr>wsp_id = 1, wsp_name = lit ''default''\<rparr>],
     projects := [\<lparr>prj_id = 2, prj_workspace = 1, prj_name = lit ''api'', prj_access_mode = lit ''open'', prj_created_by = None\<rparr>]\<rparr>"

definition demo_new :: "string \<Rightarrow> link_target list \<Rightarrow> new_page" where
  "demo_new path ls = \<lparr>np_workspace = 1, np_project = 2, np_path = lit path, np_title = [], np_body = [], np_tier = Semantic,
     np_frontmatter = JObj [], np_pinned = False, np_links = ls, np_author = None, np_expires_at = None, np_entities = [], np_evidence = []\<rparr>"

definition demo_link :: link_target where
  "demo_link = \<lparr>lt_workspace = None, lt_project = None, lt_path = lit ''b'', lt_relation = None\<rparr>"

definition demo_ids :: "uuid \<Rightarrow> write_ids" where
  "demo_ids i = \<lparr>wi_page = i, wi_entity = (\<lambda>n. n), wi_clock = 0\<rparr>"

lemma demo_empty_wiki: "empty_wiki demo_wiki"
  by (simp add: empty_wiki_def demo_wiki_def empty_store_def scopes_ok_def unique_on_def)

lemma demo_compacted: "json_get (conform_frontmatter env path (JObj [])) (lit ''compacted'') = None"
  by (simp add: conform_frontmatter_map conform_map_of object_of_def)

text \<open>The pages \<open>a\<close>, which links to \<open>b\<close>, and then \<open>b\<close>.\<close>

definition demo_a :: store where
  "demo_a = page_step demo_env demo_wiki (UpsertPage (demo_new ''a'' [demo_link]) (demo_ids 10) 5)"

definition demo_b :: store where
  "demo_b = page_step demo_env demo_a (UpsertPage (demo_new ''b'' []) (demo_ids 11) 6)"

lemmas demo_upsert_simps = upsert_page_def upsert_page_in_tx_def latest_at_def colliding_live_path_def most_recent_tombstone_at_path_def
  add_version_def insert_page_row_def pairing_ok_def version_row_def stamped_frontmatter_def replace_links_in_tx_def
  attach_entities_in_tx_def refresh_incoming_links_for_path_def repoint_def update_where_def insert_evidence_in_tx_def
  demo_new_def demo_ids_def demo_env_def demo_compacted target_key_def page_key_def first_by_def committed_def Let_def

definition demo_row :: "string \<Rightarrow> uuid \<Rightarrow> uuid option \<Rightarrow> int \<Rightarrow> page_row" where
  "demo_row path i prev now = version_row demo_env (demo_new path []) (conform_frontmatter demo_okf (lit path) (JObj [])) i prev now"

lemma demo_row_simps [simp]:
  "pag_id (demo_row path i prev now) = i" "pag_workspace (demo_row path i prev now) = 1" "pag_project (demo_row path i prev now) = 2"
  "pag_path (demo_row path i prev now) = lit path" "pag_is_latest (demo_row path i prev now)" "pag_superseded_at (demo_row path i prev now) = None"
  "pag_supersedes (demo_row path i prev now) = prev" "page_key (demo_row path i prev now) = (1, 2, lit path)"
  by (simp_all add: demo_row_def version_row_def demo_new_def page_key_def)

lemmas demo_link_simps = demo_link_def latest_page_id_for_link_def link_workspace_name_def link_scope_def global_scope_project_def
  source_is_def link_type_of_def

lemma demo_a_fields:
  "pages demo_a = [demo_row ''a'' 10 None 5]"
  "links demo_a = [\<lparr>lnk_from = 10, lnk_to = None, lnk_workspace = None, lnk_project = None, lnk_path = lit ''b'', lnk_type = lit ''references''\<rparr>]"
  "workspaces demo_a = workspaces demo_wiki" "projects demo_a = projects demo_wiki"
  by (simp_all add: demo_a_def demo_wiki_def empty_store_def demo_upsert_simps demo_link_simps demo_row_def)

lemma demo_parts:
  "pe_okf demo_env = demo_okf" "np_path (demo_new path ls) = lit path" "np_frontmatter (demo_new path ls) = JObj []"
  by (simp_all add: demo_env_def demo_new_def)

lemma demo_create_b: "upsert_page_in_tx demo_env demo_a (demo_new ''b'' []) (demo_ids 11) 6
      = add_version demo_env demo_a (demo_new ''b'' []) (conform_frontmatter demo_okf (lit ''b'') (JObj [])) (demo_ids 11) None ''create_page'' 6"
proof -
  have l: "latest_at demo_a (1, 2, lit ''b'') = None" by (simp add: latest_at_def demo_a_fields)
  have c: "colliding_live_path demo_env demo_a (demo_new ''b'' []) = None"
    by (simp add: colliding_live_path_def demo_a_fields demo_new_def portable_page_key_def demo_env_def demo_text_def lit_def to_ascii_lower_def)
  have m: "most_recent_tombstone_at_path demo_a (demo_new ''b'' []) = None"
    by (simp add: most_recent_tombstone_at_path_def demo_a_fields demo_new_def target_key_def first_by_def)
  have t: "target_key (demo_new ''b'' []) = (1, 2, lit ''b'')" by (simp add: target_key_def demo_new_def)
  show ?thesis unfolding upsert_page_in_tx_def Let_def t l c m demo_parts option.case by simp
qed

lemma demo_b_fields:
  "pages demo_b = [demo_row ''a'' 10 None 5, demo_row ''b'' 11 None 6]"
  "map lnk_to (links demo_b) = [Some 11]"
  "workspaces demo_b = workspaces demo_wiki" "projects demo_b = projects demo_wiki"
  unfolding demo_b_def page_step.simps upsert_page_def demo_create_b
  by (simp_all add: demo_a_fields demo_wiki_def empty_store_def demo_upsert_simps demo_link_simps demo_row_def)

lemma demo_run_b: "page_sys.run demo_wiki [(demo_env, UpsertPage (demo_new ''a'' [demo_link]) (demo_ids 10) 5),
    (demo_env, UpsertPage (demo_new ''b'' []) (demo_ids 11) 6)] demo_b"
proof -
  have "page_sys.run demo_wiki ([] @ [(demo_env, UpsertPage (demo_new ''a'' [demo_link]) (demo_ids 10) 5)]) demo_a"
    by (rule page_sys.run.run_snoc[OF page_sys.run.run_nil]) (simp add: demo_a_def)
  then have "page_sys.run demo_wiki (([] @ [(demo_env, UpsertPage (demo_new ''a'' [demo_link]) (demo_ids 10) 5)])
      @ [(demo_env, UpsertPage (demo_new ''b'' []) (demo_ids 11) 6)]) demo_b"
    by (rule page_sys.run.run_snoc) (simp add: demo_b_def)
  then show ?thesis by simp
qed

theorem links_follow_live_versions_witness:
  "unique_on pag_is_latest page_key (pages demo_b) \<and> map lnk_to (links demo_b) = [Some 11]"
  using links_follow_live_versions[OF demo_empty_wiki demo_run_b] demo_b_fields(2) by blast


definition demo_dead :: page_row where
  "demo_dead = (demo_row ''b'' 11 None 6)\<lparr>pag_is_latest := False, pag_superseded_at := Some 7, pag_valid_to := Some 7\<rparr>"

lemma demo_dead_simps [simp]:
  "pag_id demo_dead = 11" "pag_workspace demo_dead = 1" "pag_project demo_dead = 2" "pag_path demo_dead = lit ''b''"
  "\<not> pag_is_latest demo_dead" "pag_superseded_at demo_dead = Some 7" "pag_supersedes demo_dead = None" "page_key demo_dead = (1, 2, lit ''b'')"
  by (simp_all add: demo_dead_def page_key_def)









lemma demo_stamp:
  assumes "c = conform_frontmatter demo_okf (lit ''b'') (JObj [])"
  shows "json_value demo_env t = Some (if generated_at c = None then stamp_generated_at (second_text demo_okf now) c else c)"
proof -
  have "generated_at c = None"
    unfolding assms by (simp add: generated_at_def conform_frontmatter_map conform_map_def object_of_def fill_generated_by_def Let_def
        map_of_fill map_of_insert json_get_case)
  then show ?thesis unfolding assms by (simp add: demo_env_def demo_okf_def)
qed

lemma demo_write_b: "upsert_page_in_tx demo_env demo_a (demo_new ''b'' []) (demo_ids 11) 6 = Inr (demo_b, 11)"
  unfolding demo_b_def page_step.simps upsert_page_def demo_create_b
  by (simp add: demo_a_fields demo_wiki_def empty_store_def demo_upsert_simps demo_link_simps)

theorem rewrite_is_idempotent_witness:
  "map_sum id snd (upsert_page_in_tx demo_env demo_b (demo_new ''b'' []) (demo_ids 12) 9) = Inr 11"
proof -
  have run: "page_sys.run demo_wiki ([] @ [(demo_env, UpsertPage (demo_new ''a'' [demo_link]) (demo_ids 10) 5)]) demo_a"
    by (rule page_sys.run.run_snoc[OF page_sys.run.run_nil]) (simp add: demo_a_def)
  have ok: "json_ok (np_frontmatter (demo_new ''b'' []))" by (simp add: demo_parts)
  show ?thesis
    using rewrite_is_idempotent[OF demo_empty_wiki run ok refl _ demo_write_b, of "demo_ids 12" 9, unfolded demo_parts, OF demo_stamp[OF refl]]
    by auto
qed



definition demo_purged :: store where
  "demo_purged = demo_wiki\<lparr>purged_sessions := [\<lparr>pur_session = 7, pur_workspace = 1, pur_project = 2\<rparr>]\<rparr>"

theorem disk_never_revives_purged_summary_witness:
  "upsert_page_from_disk demo_env demo_purged (demo_new ''sessions/7.md'' []) (demo_ids 12) 9 = Inl (SessionPurged 7)"
proof -
  have sess: "session_of_path demo_env (np_path (demo_new ''sessions/7.md'' [])) = Some 7"
    by (simp add: session_of_path_def demo_env_def demo_new_def strip_suffix_def strip_prefix_def suffix_def lit_def)
  have none: "latest_at demo_purged key = None" for key
    by (simp add: latest_at_def demo_purged_def demo_wiki_def empty_store_def)
  have "\<exists>t \<in> set (purged_sessions demo_purged). pur_workspace t = 1 \<and> pur_project t = 2 \<and> pur_session t = 7"
    by (simp add: demo_purged_def)
  then show ?thesis
    using disk_never_revives_purged_summary[OF sess, of demo_purged "demo_ids 12" 9] none
    by (simp add: demo_new_def)
qed

end
