(* ===== verification/PageMigration.thy ===== *)
theory PageMigration
  imports Pages
begin

text \<open>
  What the migration of stored pages to the Open Knowledge Format achieves (\<^verbatim>\<open>okf_migrate_latest_pages\<close> and the count
  \<^verbatim>\<open>okf_nonconformant_latest_pages\<close> that decides whether it is needed, \<^verbatim>\<open>ops.rs\<close>): one run settles every live page, so that
  the count is zero and a second run finds nothing to do.
\<close>

lemma json_eq_get: "json_eq a b \<Longrightarrow> json_get a k = Some v \<Longrightarrow> \<exists>w. json_get b k = Some w \<and> json_eq v w"
proof -
  assume e: "json_eq a b" "json_get a k = Some v"
  then obtain m where m: "a = JObj m" "map_of m k = Some v" by (auto simp: json_get_case split: json.splits)
  then obtain n where n: "b = JObj n" using e(1) by (cases b) auto
  have "case map_of n k of None \<Rightarrow> False | Some w \<Rightarrow> json_eq v w"
    using e(1) map_of_SomeD[OF m(2)] by (auto simp: m(1) n list_all_iff)
  then show "\<exists>w. json_get b k = Some w \<and> json_eq v w" by (auto simp: n split: option.splits)
qed

lemma json_eq_str: "json_eq (JStr s) w \<Longrightarrow> w = JStr s"
  by (cases w) auto

lemma json_eq_generated_at:
  assumes "json_eq a b" "generated_at a = Some t"
  shows "generated_at b = Some t"
proof -
  obtain g where g: "json_get a (lit ''generated'') = Some g" "json_get g (lit ''at'') = Some (JStr t)"
    using assms(2) by (auto simp: generated_at_def bind_eq_Some_conv elim: json_as_str.elims)
  obtain h where h: "json_get b (lit ''generated'') = Some h" "json_eq g h" using json_eq_get[OF assms(1) g(1)] by blast
  obtain w where w: "json_get h (lit ''at'') = Some w" "json_eq (JStr t) w" using json_eq_get[OF h(2) g(2)] by blast
  show ?thesis using h(1) w(1) json_eq_str[OF w(2)] by (simp add: generated_at_def)
qed

lemma generated_at_SomeD:
  assumes "generated_at fm = Some t"
  shows "\<exists>m g. fm = JObj m \<and> map_of m (lit ''generated'') = Some (JObj g) \<and> map_of g (lit ''at'') = Some (JStr t)"
proof -
  obtain v where v: "json_get fm (lit ''generated'') = Some v" "json_get v (lit ''at'') = Some (JStr t)"
    using assms by (auto simp: generated_at_def bind_eq_Some_conv elim: json_as_str.elims)
  then show ?thesis by (cases fm; cases v) auto
qed

lemma conform_keeps_generated_at:
  assumes "generated_at fm = Some t"
  shows "generated_at (conform_frontmatter env path fm) = Some t"
proof -
  obtain m g where fm: "fm = JObj m" "map_of m (lit ''generated'') = Some (JObj g)" "map_of g (lit ''at'') = Some (JStr t)"
    using generated_at_SomeD[OF assms] by blast
  have "generated_at (JObj (fill_generated_by env m')) = Some t" if "map_of m' (lit ''generated'') = Some (JObj g)" for m'
    using that fm(3) by (auto simp: generated_at_def fill_generated_by_def Let_def map_of_insert)
  then show ?thesis using fm(1,2) by (simp add: conform_frontmatter_map conform_map_def object_of_def map_of_fill)
qed

lemma migrated_settled:
  "conform_frontmatter (pe_okf env) (pag_path r) (okf_migrated env r) = okf_migrated env r" "generated_at (okf_migrated env r) \<noteq> None"
  using conform_generated[of "pe_okf env" "pag_path r" "stored_frontmatter env r"] generated_at_stamp
  by (auto simp: okf_migrated_def Let_def conform_stamp conform_idem)

text \<open>A row whose stored frontmatter is the migrated one needs nothing more.\<close>

lemma settled_row:
  assumes "stored_frontmatter env r' = okf_migrated env r" "pag_path r' = pag_path r" "json_ok (okf_migrated env r)"
  shows "\<not> okf_needs_rewrite env r'" "\<not> okf_nonconformant env r'"
proof -
  have "okf_migrated env r' = okf_migrated env r"
    unfolding okf_migrated_def[of env r'] Let_def assms(1,2) using migrated_settled[of env r] by (simp del: not_None_eq)
  then show "\<not> okf_needs_rewrite env r'" using json_eq_refl[OF assms(3)] by (simp add: okf_needs_rewrite_def assms(1))
  show "\<not> okf_nonconformant env r'"
    using json_eq_refl[OF assms(3)] migrated_settled[of env r] by (simp add: okf_nonconformant_def assms(1,2) Let_def)
qed

text \<open>A row the migration would leave as it is counts as conformant.\<close>

lemma kept_row:
  assumes "json_eq (okf_migrated env r) (stored_frontmatter env r)"
  shows "\<not> okf_nonconformant env r"
proof -
  obtain t where t: "generated_at (stored_frontmatter env r) = Some t"
    using migrated_settled(2)[of env r] json_eq_generated_at[OF assms] by auto
  then have "okf_migrated env r = conform_frontmatter (pe_okf env) (pag_path r) (stored_frontmatter env r)"
    using conform_keeps_generated_at by (simp add: okf_migrated_def Let_def)
  then show ?thesis using assms t by (simp add: okf_nonconformant_def Let_def)
qed

lemma json_ok_migrated: "json_ok (stored_frontmatter env r) \<Longrightarrow> json_ok (okf_migrated env r)"
  using json_ok_conform json_ok_on_generated[OF _ json_ok_insert] by (simp add: okf_migrated_def Let_def stamp_generated_at_def)

text \<open>
  C23. One run of the migration settles the wiki: no live page counts as nonconformant any more, a second run changes nothing
  and reports nothing, superseded versions keep their text, and of a live version only the frontmatter text changes, and only if
  the migration reported its path. The JSON printer and parser are only assumed to read back the values that were written,
  and parsed objects to have distinct keys.
\<close>

theorem okf_migration_settles:
  assumes rt: "\<And>r. r \<in> set (pages s) \<Longrightarrow> okf_needs_rewrite env r \<Longrightarrow>
      json_value env (json_text env (okf_migrated env r)) = Some (okf_migrated env r)"
    and ok: "\<And>r. r \<in> set (pages s) \<Longrightarrow> json_ok (stored_frontmatter env r)"
    and m: "okf_migrate_latest_pages env s = (s', written)"
  shows "okf_nonconformant_latest_pages env s' = 0
    \<and> okf_migrate_latest_pages env s' = (s', [])
    \<and> filter (\<lambda>r. \<not> pag_is_latest r) (pages s') = filter (\<lambda>r. \<not> pag_is_latest r) (pages s)
    \<and> list_all2 (\<lambda>r r'. r'\<lparr>pag_frontmatter_json := pag_frontmatter_json r\<rparr> = r
        \<and> (r' = r \<or> (pag_workspace r, pag_project r, pag_path r) \<in> (\<lambda>(w, p, path, _). (w, p, path)) ` set written)) (pages s) (pages s')"
proof -
  let ?f = "\<lambda>r. r\<lparr>pag_frontmatter_json := json_text env (okf_migrated env r)\<rparr>"
  let ?u = "\<lambda>r. if okf_needs_rewrite env r then ?f r else r"
  have p: "pages s' = map ?u (pages s)" using m by (auto simp: okf_migrate_latest_pages_def update_where_def)
  have quiet: "\<not> okf_needs_rewrite env (?u r) \<and> \<not> (pag_is_latest (?u r) \<and> okf_nonconformant env (?u r))" if r: "r \<in> set (pages s)" for r
  proof (cases "okf_needs_rewrite env r")
    case True
    then have "stored_frontmatter env (?f r) = okf_migrated env r" using rt[OF r] by (simp add: stored_frontmatter_def)
    from settled_row[OF this _ json_ok_migrated[OF ok[OF r]]] True show ?thesis by simp
  next
    case False
    then show ?thesis using kept_row by (auto simp: okf_needs_rewrite_def)
  qed
  have q: "\<not> okf_needs_rewrite env r' \<and> \<not> (pag_is_latest r' \<and> okf_nonconformant env r')" if r': "r' \<in> set (pages s')" for r'
  proof -
    obtain r where r: "r' = ?u r" "r \<in> set (pages s)" using r' unfolding p set_map by (rule imageE)
    show ?thesis unfolding r(1) by (rule quiet[OF r(2)])
  qed
  have none: "filter (okf_needs_rewrite env) (pages s') = []" using q by (simp add: filter_empty_conv)
  have "update_where (okf_needs_rewrite env) ?f (pages s') = pages s'" using q by (intro update_where_none) simp
  then have "okf_migrate_latest_pages env s' = (s', [])" by (simp add: okf_migrate_latest_pages_def none)
  moreover have "okf_nonconformant_latest_pages env s' = 0"
    using q by (simp add: okf_nonconformant_latest_pages_def filter_empty_conv)
  moreover have "filter (\<lambda>r. \<not> pag_is_latest r) (pages s') = filter (\<lambda>r. \<not> pag_is_latest r) (pages s)"
  proof -
    have "filter (\<lambda>r. \<not> pag_is_latest r) (map ?u rows) = filter (\<lambda>r. \<not> pag_is_latest r) rows" for rows
      by (induction rows) (auto simp: okf_needs_rewrite_def)
    then show ?thesis unfolding p .
  qed
  moreover have "(pag_workspace r, pag_project r, pag_path r) \<in> (\<lambda>(w, p, path, _). (w, p, path)) ` set written"
    if "r \<in> set (pages s)" "okf_needs_rewrite env r" for r
    using m that by (force simp: okf_migrate_latest_pages_def)
  then have "list_all2 (\<lambda>r r'. r'\<lparr>pag_frontmatter_json := pag_frontmatter_json r\<rparr> = r
        \<and> (r' = r \<or> (pag_workspace r, pag_project r, pag_path r) \<in> (\<lambda>(w, p, path, _). (w, p, path)) ` set written)) (pages s) (pages s')"
    unfolding p list_all2_map2 by (intro list.rel_refl_strong) simp
  ultimately show ?thesis by blast
qed

text \<open>A wiki with one page stored before the format existed; every text parses as an empty object until it is migrated.\<close>

definition old_env :: page_env where
  "old_env = \<lparr>pe_okf = demo_okf, pe_text = demo_text, sha256 = length, json_text = (\<lambda>_. lit ''new''),
     json_value = (\<lambda>t. Some (if t = lit ''new'' then stamp_generated_at (lit ''1970-01-01T00:00:00Z'') (conform_frontmatter demo_okf (lit ''b'') (JObj []))
                            else JObj [])),
     nfc_normalized = (\<lambda>_. True), nfc = (\<lambda>x. x), parse_session_id = (\<lambda>_. None), session_id_text = (\<lambda>_. [])\<rparr>"

definition old_wiki :: store where
  "old_wiki = empty_store\<lparr>pages := [plain_page 10 3 2 (lit ''b'')]\<rparr>"

theorem okf_migration_settles_witness:
  "okf_nonconformant_latest_pages old_env old_wiki = 1
   \<and> okf_nonconformant_latest_pages old_env (fst (okf_migrate_latest_pages old_env old_wiki)) = 0"
proof -
  let ?r = "plain_page 10 3 2 (lit ''b'')" and ?c = "conform_frontmatter demo_okf (lit ''b'') (JObj [])"
  have st: "stored_frontmatter old_env ?r = JObj []" by (simp add: stored_frontmatter_def old_env_def plain_page_def)
  have "generated_at ?c = None"
    by (simp add: generated_at_def conform_frontmatter_map conform_map_def object_of_def fill_generated_by_def Let_def
        map_of_fill map_of_insert json_get_case)
  then have mig: "okf_migrated old_env ?r = stamp_generated_at (lit ''1970-01-01T00:00:00Z'') ?c"
    unfolding okf_migrated_def Let_def st by (simp add: old_env_def demo_okf_def plain_page_def)
  have p: "pages old_wiki = [?r]" by (simp add: old_wiki_def)
  have rt: "json_value old_env (json_text old_env (okf_migrated old_env r)) = Some (okf_migrated old_env r)" if "r \<in> set (pages old_wiki)" for r
    using that unfolding p by (simp add: mig) (simp add: old_env_def)
  have ok: "json_ok (stored_frontmatter old_env r)" if "r \<in> set (pages old_wiki)" for r
    using that unfolding p by (simp add: st)
  have "okf_nonconformant old_env ?r" by (simp add: okf_nonconformant_def st generated_at_def Let_def)
  moreover have "pag_is_latest ?r" by (simp add: plain_page_def)
  ultimately have "okf_nonconformant_latest_pages old_env old_wiki = 1" by (simp add: okf_nonconformant_latest_pages_def p)
  moreover have "okf_nonconformant_latest_pages old_env (fst (okf_migrate_latest_pages old_env old_wiki)) = 0"
    by (rule conjunct1[OF okf_migration_settles[OF rt ok surjective_pairing]])
  ultimately show ?thesis ..
qed

end
