(* ===== verification/FtsQuery.thy ===== *)
theory FtsQuery
  imports Pages
begin

text \<open>
  Preparation of search text for SQLite's full-text search (\<^verbatim>\<open>crates/ai-memory-store/src/fts_query.rs\<close>): the bound on
  the text, stopwords, the quoting of tokens, the fallback to a bag of quoted words, and the terms and queries of the
  index for Chinese, Japanese and Korean text. The judgement of the FTS5 parser (\<^verbatim>\<open>fts5_query_parses\<close>) is a parameter, and
  so are the Unicode tables (\<open>text_env\<close>). A set of stopwords is the list of its lowercased entries.
\<close>

section \<open>Bounds and stopwords\<close>

fun join_with :: "ustr \<Rightarrow> ustr list \<Rightarrow> ustr" where
  "join_with sep [] = []"
| "join_with sep [w] = w"
| "join_with sep (w # v # ws) = w @ sep @ join_with sep (v # ws)"

definition default_stopwords :: "ustr list" where
  "default_stopwords = map lit
     [''a'', ''an'', ''and'', ''are'', ''as'', ''at'', ''be'', ''been'', ''but'', ''by'', ''can'', ''could'', ''did'', ''do'',
      ''does'', ''for'', ''from'', ''had'', ''has'', ''have'', ''how'', ''i'', ''if'', ''in'', ''is'', ''it'', ''its'', ''me'',
      ''my'', ''of'', ''on'', ''or'', ''our'', ''she'', ''should'', ''so'', ''that'', ''the'', ''their'', ''them'', ''they'',
      ''this'', ''to'', ''was'', ''we'', ''were'', ''what'', ''when'', ''where'', ''which'', ''who'', ''why'', ''will'',
      ''with'', ''would'', ''you'', ''your'']"

type_synonym fts_stopwords = "ustr list"

definition fts_stopwords_new :: "text_env \<Rightarrow> ustr list \<Rightarrow> fts_stopwords" where
  "fts_stopwords_new env ws = map (to_lowercase env) ws"

definition fts_stopwords_none :: fts_stopwords where
  "fts_stopwords_none = []"

definition is_stopword :: "text_env \<Rightarrow> fts_stopwords \<Rightarrow> ustr \<Rightarrow> bool" where
  "is_stopword env stopwords token \<longleftrightarrow> to_lowercase env token \<in> set stopwords"

definition max_fts_query_bytes :: nat where
  "max_fts_query_bytes = 4096"

definition bounded_query_text :: "ustr \<Rightarrow> ustr" where
  "bounded_query_text raw = map (\<lambda>c. if c = 0 then 32 else c) (utf8_head max_fts_query_bytes 0 raw)"

section \<open>Tokens\<close>

definition is_ascii_punctuation :: "uchar \<Rightarrow> bool" where
  "is_ascii_punctuation c \<longleftrightarrow>
     (33 \<le> c \<and> c \<le> 47) \<or> (58 \<le> c \<and> c \<le> 64) \<or> (91 \<le> c \<and> c \<le> 96) \<or> (123 \<le> c \<and> c \<le> 126)"

definition has_unknown_bare_column :: "ustr \<Rightarrow> bool" where
  "has_unknown_bare_column token \<longleftrightarrow>
     58 \<in> set token \<and> 34 \<notin> set token \<and> \<not> prefix (lit ''title:'') token \<and> \<not> prefix (lit ''body:'') token"

definition should_quote_fts5_token :: "ustr \<Rightarrow> bool" where
  "should_quote_fts5_token token =
     (if token \<noteq> [] \<and> hd token = 34 \<and> last token = 34 then False
      else (let core = (case strip_suffix [42] token of Some core \<Rightarrow> core | None \<Rightarrow> token) in
            \<exists>c \<in> set core. is_ascii_punctuation c \<and> c \<noteq> 58))"

definition double_quotes :: "ustr \<Rightarrow> ustr" where
  "double_quotes s = concat (map (\<lambda>c. if c = 34 then [34, 34] else [c]) s)"

definition quote_fts5_token :: "text_env \<Rightarrow> ustr \<Rightarrow> ustr" where
  "quote_fts5_token env token =
     (if 34 \<in> set token then [34] @ double_quotes token @ [34]
      else
        let (token, star) =
              (case strip_suffix [42] token of
                 Some core \<Rightarrow> if \<exists>c \<in> set core. is_alphanumeric env c then (core, [42]) else (token, [])
               | None \<Rightarrow> (token, []));
            split = join_with [32] (words (map (\<lambda>c. if is_ascii_punctuation c then 32 else c) token))
        in if split = [] \<or> split = token then [34] @ token @ [34] @ star
           else [40] @ [34] @ token @ [34] @ star @ lit '' OR '' @ [34] @ split @ [34] @ star @ [41])"

definition column_term :: "ustr \<Rightarrow> (ustr \<times> ustr) option" where
  "column_term token =
     (if 34 \<in> set token then None
      else case split_once 58 token of
        None \<Rightarrow> None
      | Some (column, term) \<Rightarrow>
          if (column = lit ''title'' \<or> column = lit ''body'') \<and> term \<noteq> []
             \<and> (should_quote_fts5_token term \<or> 58 \<in> set term)
          then Some (column, term) else None)"

text \<open>\<^verbatim>\<open>first.insert_str(0, \<dots>)\<close> and \<^verbatim>\<open>last.push_str(\<dots>)\<close>.\<close>

definition hug :: "ustr \<Rightarrow> ustr \<Rightarrow> ustr list \<Rightarrow> ustr list" where
  "hug opening closing parts =
     (case parts of
        [] \<Rightarrow> []
      | p # ps \<Rightarrow> (let parts = (opening @ p) # ps in butlast parts @ [last parts @ closing]))"

function prepare_fts5_token :: "text_env \<Rightarrow> ustr \<Rightarrow> ustr list" where
  "prepare_fts5_token env token =
     (let open_n = length token - length (dropWhile (\<lambda>c. c = 40) token);
          close_n = length token - length (trim_end_matches (\<lambda>c. c = 41) token) in
      if (0 < open_n \<or> 0 < close_n) \<and> open_n + close_n < length token
      then hug (take open_n token) (drop (length token - close_n) token)
             (prepare_fts5_token env (drop open_n (take (length token - close_n) token)))
      else if has_unknown_bare_column token
      then map (quote_fts5_token env) (words (map (\<lambda>c. if c = 58 then 32 else c) token))
      else case column_term token of
        Some (column, term) \<Rightarrow> [column @ [58] @ quote_fts5_token env term]
      | None \<Rightarrow> if should_quote_fts5_token token then [quote_fts5_token env token] else [token])"
  by pat_completeness auto
termination
  by (relation "measure (\<lambda>(env, token). length token)") auto

declare prepare_fts5_token.simps [simp del]

section \<open>The query\<close>

definition explicit_syntax :: "ustr \<Rightarrow> bool" where
  "explicit_syntax raw \<longleftrightarrow>
     34 \<in> set raw \<or> 40 \<in> set raw \<or> 41 \<in> set raw
     \<or> (\<exists>t \<in> set (words raw). t \<in> {lit ''OR'', lit ''AND'', lit ''NOT'', lit ''NEAR''})"

text \<open>The words between quotes and parentheses, each with whether a closed pair of quotes encloses it.\<close>

definition bag_words :: "ustr \<Rightarrow> (ustr \<times> bool) list" where
  "bag_words raw =
     (let segments = split_all 34 raw;
          unclosed = (length segments mod 2 = 0);
          last_i = length segments - 1
      in concat (map (\<lambda>(index, segment).
           let quoted = (index mod 2 = 1 \<and> \<not> (unclosed \<and> index = last_i)) in
           map (\<lambda>word. (word, quoted)) (concat (map words (split_where (\<lambda>c. c = 40 \<or> c = 41) segment))))
         (enumerate 0 segments)))"

definition quoted_bag :: "text_env \<Rightarrow> fts_stopwords \<Rightarrow> ustr \<Rightarrow> ustr" where
  "quoted_bag env stopwords raw =
     (let ws = bag_words raw;
          content = map fst (filter (\<lambda>(word, quoted). quoted \<or> \<not> is_stopword env stopwords word) ws);
          kept = (if content = [] then map fst ws else content)
      in join_with (lit '' OR '') (map (quote_fts5_token env) kept))"

definition prepare_fts5_query :: "text_env \<Rightarrow> (ustr \<Rightarrow> bool) \<Rightarrow> ustr \<Rightarrow> fts_stopwords \<Rightarrow> ustr" where
  "prepare_fts5_query env parses raw stopwords =
     (let raw = bounded_query_text raw;
          explicit = explicit_syntax raw;
          tokens = concat (map (prepare_fts5_token env) (filter (\<lambda>t. explicit \<or> \<not> is_stopword env stopwords t) (words raw)));
          tokens = (if tokens = [] \<and> \<not> explicit then concat (map (prepare_fts5_token env) (words raw)) else tokens)
      in if tokens = [] then []
         else let candidate = join_with (if explicit then [32] else lit '' OR '') tokens in
              if parses candidate then candidate else quoted_bag env stopwords raw)"

section \<open>The index for Chinese, Japanese and Korean text\<close>

definition is_cjk :: "text_env \<Rightarrow> uchar \<Rightarrow> bool" where
  "is_cjk env ch \<longleftrightarrow> is_alphanumeric env ch \<and>
     ((0x1100 \<le> ch \<and> ch \<le> 0x11ff) \<or> (0x2e80 \<le> ch \<and> ch \<le> 0x2fff) \<or> (0x3005 \<le> ch \<and> ch \<le> 0x3006)
      \<or> (0x3031 \<le> ch \<and> ch \<le> 0x3035) \<or> ch = 0x303b \<or> (0x3040 \<le> ch \<and> ch \<le> 0x30ff) \<or> (0x3130 \<le> ch \<and> ch \<le> 0x318f)
      \<or> (0x31f0 \<le> ch \<and> ch \<le> 0x31ff) \<or> (0x3400 \<le> ch \<and> ch \<le> 0x4dbf) \<or> (0x4e00 \<le> ch \<and> ch \<le> 0x9fff)
      \<or> (0xa960 \<le> ch \<and> ch \<le> 0xa97f) \<or> (0xac00 \<le> ch \<and> ch \<le> 0xd7af) \<or> (0xd7b0 \<le> ch \<and> ch \<le> 0xd7ff)
      \<or> (0xf900 \<le> ch \<and> ch \<le> 0xfaff) \<or> (0xff66 \<le> ch \<and> ch \<le> 0xff9f) \<or> (0x20000 \<le> ch \<and> ch \<le> 0x323af))"

text \<open>\<^verbatim>\<open>run.windows(2)\<close>\<close>

fun bigrams :: "ustr \<Rightarrow> ustr list" where
  "bigrams (a # b # rest) = [a, b] # bigrams (b # rest)"
| "bigrams _ = []"

definition append_cjk_terms :: "ustr list \<Rightarrow> ustr \<Rightarrow> ustr list" where
  "append_cjk_terms terms run = (if run = [] then terms else terms @ map (\<lambda>c. [c]) run @ bigrams run)"

fun cjk_terms :: "text_env \<Rightarrow> ustr list \<Rightarrow> ustr \<Rightarrow> ustr \<Rightarrow> ustr list" where
  "cjk_terms env terms run [] = append_cjk_terms terms run"
| "cjk_terms env terms run (ch # rest) =
     (if is_cjk env ch then cjk_terms env terms (run @ [ch]) rest
      else cjk_terms env (append_cjk_terms terms run) [] rest)"

definition cjk_index_terms :: "text_env \<Rightarrow> ustr \<Rightarrow> ustr" where
  "cjk_index_terms env raw = join_with [32] (cjk_terms env [] [] raw)"

definition append_cjk_query :: "ustr list \<Rightarrow> ustr \<Rightarrow> ustr option \<Rightarrow> ustr list" where
  "append_cjk_query phrases run column =
     (if run = [] then phrases
      else
        let column_text = (case column of None \<Rightarrow> [] | Some column \<Rightarrow> column @ [58]) in
        if length run = 1 then phrases @ [column_text @ [34] @ [hd run] @ [34]]
        else phrases @ [column_text @ [34] @ join_with [32] (bigrams run) @ [34]])"

fun cjk_phrases :: "text_env \<Rightarrow> ustr option \<Rightarrow> ustr list \<Rightarrow> ustr \<Rightarrow> ustr \<Rightarrow> ustr list" where
  "cjk_phrases env column phrases run [] = append_cjk_query phrases run column"
| "cjk_phrases env column phrases run (ch # rest) =
     (if is_cjk env ch then cjk_phrases env column phrases (run @ [ch]) rest
      else cjk_phrases env column (append_cjk_query phrases run column) [] rest)"

definition cjk_column :: "ustr \<Rightarrow> ustr option \<times> ustr" where
  "cjk_column token =
     (case split_once 58 token of
        Some (column, text) \<Rightarrow> if column = lit ''title'' \<or> column = lit ''body'' then (Some column, text) else (None, token)
      | None \<Rightarrow> (None, token))"

definition cjk_token_phrases :: "text_env \<Rightarrow> ustr list \<Rightarrow> ustr \<Rightarrow> ustr list" where
  "cjk_token_phrases env phrases token =
     (let (column, text) = cjk_column (dropWhile (\<lambda>c. c = 40) token) in cjk_phrases env column phrases [] text)"

definition prepare_cjk_fts5_query :: "text_env \<Rightarrow> ustr \<Rightarrow> ustr option" where
  "prepare_cjk_fts5_query env raw =
     (let bounded = bounded_query_text raw in
      if \<exists>t \<in> set (words bounded). t \<in> {lit ''AND'', lit ''NOT'', lit ''NEAR''} then None
      else let phrases = foldl (cjk_token_phrases env) [] (words bounded) in
           if phrases \<noteq> [] then Some (join_with (lit '' OR '') phrases) else None)"

section \<open>Words and joins\<close>

lemma split_where_none: "(\<And>c. c \<in> set w \<Longrightarrow> \<not> p c) \<Longrightarrow> split_where p w = [w]"
  by (induction w) auto

lemma split_where_cut: "(\<And>c. c \<in> set w \<Longrightarrow> \<not> p c) \<Longrightarrow> p d \<Longrightarrow> split_where p (w @ d # rest) = w # split_where p rest"
  by (induction w) auto

lemma split_where_set: "w \<in> set (split_where p s) \<Longrightarrow> set w \<subseteq> set s"
proof (induction s arbitrary: w)
  case (Cons c s)
  have "\<forall>u \<in> set (split_where p s). set u \<subseteq> set s" using Cons.IH by blast
  then show ?case using Cons.prems by (cases "split_where p s") (auto split: if_splits)
qed simp

lemma split_all_set: "w \<in> set (split_all d s) \<Longrightarrow> set w \<subseteq> set s - {d}"
proof (induction s arbitrary: w)
  case (Cons c s)
  have "\<forall>u \<in> set (split_all d s). set u \<subseteq> set s - {d}" using Cons.IH by blast
  then show ?case using Cons.prems by (cases "split_all d s") (auto split: if_splits)
qed simp

lemma words_set: "w \<in> set (words s) \<Longrightarrow> set w \<subseteq> set s"
  by (auto simp: words_def dest: split_where_set)

lemma words_join:
  "(\<And>w. w \<in> set ws \<Longrightarrow> w \<noteq> [] \<and> (\<forall>c \<in> set w. \<not> is_whitespace c)) \<Longrightarrow> words (join_with [32] ws) = ws"
proof (induction "[32::nat]" ws rule: join_with.induct)
  case (2 w)
  then show ?case by (simp add: words_def split_where_none)
next
  case (3 w v ws)
  have "is_whitespace 32" by (simp add: is_whitespace_def)
  moreover have w: "w \<noteq> []" "\<And>c. c \<in> set w \<Longrightarrow> \<not> is_whitespace c" using 3(2)[of w] by simp_all
  ultimately have "words (w @ 32 # join_with [32] (v # ws)) = w # words (join_with [32] (v # ws))"
    by (simp add: words_def split_where_cut)
  moreover have "words (join_with [32] (v # ws)) = v # ws" by (intro 3(1) 3(2)) simp
  ultimately show ?case by simp
qed (simp add: words_def)

lemma join_with_set: "set (join_with sep ws) \<subseteq> set sep \<union> \<Union> (set ` set ws)"
  by (induction sep ws rule: join_with.induct) auto

lemma bounded_query_text_fits:
  "byte_len (bounded_query_text raw) \<le> 4096" "0 \<notin> set (bounded_query_text raw)"
proof -
  have "byte_len (map (\<lambda>c. if c = 0 then 32 else c) s) = byte_len s" for s
    by (induction s) (auto simp: utf8_len_def)
  then show "byte_len (bounded_query_text raw) \<le> 4096"
    using utf8_head_bound[of 0 max_fts_query_bytes raw] by (simp add: bounded_query_text_def max_fts_query_bytes_def)
qed (auto simp: bounded_query_text_def)

lemma utf8_head_all: "index + byte_len s \<le> limit \<Longrightarrow> utf8_head limit index s = s"
  by (induction limit index s rule: utf8_head.induct) (auto simp: Let_def)

section \<open>A search never fails on its text\<close>

text \<open>
  The part of the FTS5 grammar the fallback uses: strings with doubled quotes and no NUL, such a string with the
  star of a prefix search, two of them in parentheses, and any number of these joined by
  \<^verbatim>\<open>OR\<close>.
\<close>

inductive fts_phrase :: "ustr \<Rightarrow> bool" where
  fts_string: "0 \<notin> set body \<Longrightarrow> fts_phrase ([34] @ double_quotes body @ [34])"
| fts_prefix: "0 \<notin> set body \<Longrightarrow> fts_phrase ([34] @ double_quotes body @ [34] @ [42])"
| fts_either: "fts_phrase p \<Longrightarrow> fts_phrase q \<Longrightarrow> fts_phrase ([40] @ p @ lit '' OR '' @ q @ [41])"

inductive fts_bag :: "ustr \<Rightarrow> bool" where
  bag_one: "fts_phrase p \<Longrightarrow> fts_bag p"
| bag_more: "fts_phrase p \<Longrightarrow> fts_bag q \<Longrightarrow> fts_bag (p @ lit '' OR '' @ q)"

lemma double_quotes_id: "34 \<notin> set s \<Longrightarrow> double_quotes s = s"
  by (induction s) (auto simp: double_quotes_def)

lemma double_quotes_set: "set (double_quotes s) = set s"
  by (auto simp: double_quotes_def split: if_splits)

lemma strip_suffix_SomeD: "strip_suffix e s = Some t \<Longrightarrow> s = t @ e"
  by (auto simp: strip_suffix_def suffix_def split: if_splits)

text \<open>The punctuation-free form of a token keeps the characters that are not punctuation.\<close>

lemma split_form_set:
  "set (join_with [32] (words (map (\<lambda>c. if is_ascii_punctuation c then 32 else c) token))) \<subseteq> insert 32 (set token)"
proof -
  have "set w \<subseteq> insert 32 (set token)" if "w \<in> set (words (map (\<lambda>c. if is_ascii_punctuation c then 32 else c) token))" for w
    using words_set[OF that] by (auto split: if_splits)
  then have "\<Union> (set ` set (words (map (\<lambda>c. if is_ascii_punctuation c then 32 else c) token))) \<subseteq> insert 32 (set token)" by blast
  then show ?thesis using join_with_set[of "[32]" "words (map (\<lambda>c. if is_ascii_punctuation c then 32 else c) token)"] by (simp only: list.set) blast
qed

lemma fts_bag_join: "ws \<noteq> [] \<Longrightarrow> (\<And>w. w \<in> set ws \<Longrightarrow> fts_phrase w) \<Longrightarrow> fts_bag (join_with (lit '' OR '') ws)"
  by (induction "lit '' OR ''" ws rule: join_with.induct) (auto intro: bag_one bag_more[simplified])

lemma bag_words_clean:
  assumes "(w, b) \<in> set (bag_words raw)"
  shows "w \<noteq> []" "set w \<subseteq> set raw - {34, 40, 41}" "\<And>c. c \<in> set w \<Longrightarrow> \<not> is_whitespace c"
proof -
  obtain seg part where seg: "seg \<in> set (split_all 34 raw)" and part: "part \<in> set (split_where (\<lambda>c. c = 40 \<or> c = 41) seg)"
    and w: "w \<in> set (words part)"
    using assms unfolding bag_words_def Let_def set_concat set_map by (force simp: enumerate_eq_zip dest: set_zip_rightD)
  show "w \<noteq> []" "\<And>c. c \<in> set w \<Longrightarrow> \<not> is_whitespace c" using w words_nonempty words_no_space by blast+
  have "c \<notin> {40, 41}" if "c \<in> set part" for c using split_where_clean[OF part that] by simp
  then show "set w \<subseteq> set raw - {34, 40, 41}"
    using words_set[OF w] split_where_set[OF part] split_all_set[OF seg] by blast
qed

text \<open>A token without quotes becomes one phrase, or two in parentheses.\<close>

lemma quote_fts5_token_phrase:
  assumes "0 \<notin> set token"
  shows "fts_phrase (quote_fts5_token env token)"
proof (cases "34 \<in> set token")
  case True
  then show ?thesis using fts_string[OF assms] by (simp add: quote_fts5_token_def)
next
  case False
  obtain core and star :: ustr where cs: "(case strip_suffix [42] token of
                 Some core \<Rightarrow> if \<exists>c \<in> set core. is_alphanumeric env c then (core, [42]) else (token, [])
               | None \<Rightarrow> (token, [])) = (core, star)" by (rule prod.exhaust)
  then have core: "set core \<subseteq> set token" "star = [] \<or> star = [42]"
    by (auto split: option.splits if_splits dest!: strip_suffix_SomeD)
  let ?split = "join_with [32] (words (map (\<lambda>c. if is_ascii_punctuation c then 32 else c) core))"
  have phrase: "fts_phrase ([34] @ body @ [34] @ star)" if "0 \<notin> set body" "34 \<notin> set body" for body
    using fts_string[OF that(1)] fts_prefix[OF that(1)] core(2) double_quotes_id[OF that(2)] by auto
  have one: "fts_phrase ([34] @ core @ [34] @ star)" by (rule phrase) (use core(1) assms False in auto)
  have two: "fts_phrase ([34] @ ?split @ [34] @ star)" by (rule phrase) (use split_form_set[of core] core(1) assms False in auto)
  show ?thesis
    using False one fts_either[OF one two] by (simp add: quote_fts5_token_def cs Let_def)
qed

lemma quoted_bag_phrases:
  assumes "0 \<notin> set raw"
  shows "quoted_bag env stopwords raw = [] \<or> fts_bag (quoted_bag env stopwords raw)"
proof -
  define content where "content = map fst (filter (\<lambda>(word, quoted). quoted \<or> \<not> is_stopword env stopwords word) (bag_words raw))"
  define kept where "kept = (if content = [] then map fst (bag_words raw) else content)"
  have q: "quoted_bag env stopwords raw = join_with (lit '' OR '') (map (quote_fts5_token env) kept)"
    unfolding quoted_bag_def Let_def kept_def content_def ..
  have "0 \<notin> set w" if w: "w \<in> set kept" for w
  proof -
    obtain b where "(w, b) \<in> set (bag_words raw)"
      using w by (auto simp: kept_def content_def split: if_splits)
    then show ?thesis using bag_words_clean(2) assms by blast
  qed
  then show ?thesis unfolding q by (cases "kept = []") (auto intro!: fts_bag_join quote_fts5_token_phrase)
qed

text \<open>Without quotes and parentheses the bag holds the words of the text, none of them quoted.\<close>

lemma bag_words_bare: "34 \<notin> set raw \<Longrightarrow> 40 \<notin> set raw \<Longrightarrow> 41 \<notin> set raw \<Longrightarrow> bag_words raw = map (\<lambda>w. (w, False)) (words raw)"
proof -
  assume a: "34 \<notin> set raw" "40 \<notin> set raw" "41 \<notin> set raw"
  then have "split_all 34 raw = [raw]" by (simp add: split_all_single)
  moreover have "split_where (\<lambda>c. c = 40 \<or> c = 41) raw = [raw]" by (rule split_where_none) (use a in auto)
  ultimately show ?thesis by (simp add: bag_words_def)
qed

lemma only_stopwords:
  assumes "\<not> explicit_syntax (bounded_query_text raw)" "\<forall>t \<in> set (words (bounded_query_text raw)). is_stopword env stopwords t"
  shows "prepare_fts5_query env parses raw stopwords = prepare_fts5_query env parses raw fts_stopwords_none"
proof -
  let ?raw = "bounded_query_text raw"
  have none: "\<not> is_stopword env [] t" for t by (simp add: is_stopword_def)
  have bag: "bag_words ?raw = map (\<lambda>w. (w, False)) (words ?raw)"
    using assms(1) by (intro bag_words_bare) (auto simp: explicit_syntax_def)
  have f: "filter (\<lambda>w. \<not> is_stopword env stopwords w) (words ?raw) = []" using assms(2) by (simp add: filter_empty_conv)
  then have "quoted_bag env stopwords ?raw = quoted_bag env [] ?raw"
    by (simp add: quoted_bag_def bag Let_def filter_map comp_def none)
  then show ?thesis using assms(1)
    by (simp add: prepare_fts5_query_def fts_stopwords_none_def Let_def none f del: concat_eq_Nil_conv)
qed

text \<open>
  C21. Search text never makes the query fail: what is handed to FTS5 is empty (the search is then skipped), or
  FTS5's own parser has accepted it, or it is a bag of quoted phrases, in which every character of the text is inert.
  Text without words gives the empty query; a plain text made of stopwords only is searched for as if
  there were no stopwords; and at most 4096 bytes of the text, free of NUL, are looked at.
\<close>

theorem search_text_always_parses:
  "(prepare_fts5_query env parses raw stopwords = [] \<or> parses (prepare_fts5_query env parses raw stopwords)
      \<or> fts_bag (prepare_fts5_query env parses raw stopwords))
   \<and> (words (bounded_query_text raw) = [] \<longrightarrow> prepare_fts5_query env parses raw stopwords = [])
   \<and> (\<not> explicit_syntax (bounded_query_text raw) \<and> (\<forall>t \<in> set (words (bounded_query_text raw)). is_stopword env stopwords t) \<longrightarrow>
        prepare_fts5_query env parses raw stopwords = prepare_fts5_query env parses raw fts_stopwords_none)
   \<and> byte_len (bounded_query_text raw) \<le> 4096 \<and> 0 \<notin> set (bounded_query_text raw)"
proof -
  note b = bounded_query_text_fits[of raw]
  have "prepare_fts5_query env parses raw stopwords = [] \<or> parses (prepare_fts5_query env parses raw stopwords)
      \<or> prepare_fts5_query env parses raw stopwords = quoted_bag env stopwords (bounded_query_text raw)"
    by (simp add: prepare_fts5_query_def Let_def)
  then have "prepare_fts5_query env parses raw stopwords = [] \<or> parses (prepare_fts5_query env parses raw stopwords)
      \<or> fts_bag (prepare_fts5_query env parses raw stopwords)"
    using quoted_bag_phrases[OF b(2), of env stopwords] by auto
  moreover have "prepare_fts5_query env parses raw stopwords = []" if "words (bounded_query_text raw) = []"
    using that by (simp add: prepare_fts5_query_def)
  ultimately show ?thesis using only_stopwords b by blast
qed

theorem search_text_always_parses_witness:
  "prepare_fts5_query demo_text (\<lambda>_. False) (lit ''the'') [lit ''the''] = [34] @ lit ''the'' @ [34]"
proof -
  have w: "bounded_query_text (lit ''the'') = lit ''the''" "words (lit ''the'') = [lit ''the'']"
    by (simp_all add: bounded_query_text_def max_fts_query_bytes_def utf8_len_def words_def is_whitespace_def lit_def)
  have n: "\<not> explicit_syntax (lit ''the'')" "is_stopword demo_text [lit ''the''] (lit ''the'')"
    by (simp_all add: explicit_syntax_def w(2)) (simp_all add: is_stopword_def demo_text_def to_ascii_lower_def lit_def)
  have b: "bag_words (lit ''the'') = [(lit ''the'', False)]"
    using bag_words_bare[of "lit ''the''"] w(2) by (simp add: lit_def)
  have t: "prepare_fts5_token demo_text (lit ''the'') \<noteq> []"
    by (subst prepare_fts5_token.simps)
      (simp add: Let_def trim_end_matches_def has_unknown_bare_column_def lit_def split: option.splits prod.splits)
  have "prepare_fts5_query demo_text (\<lambda>_. False) (lit ''the'') [lit ''the'']
      = prepare_fts5_query demo_text (\<lambda>_. False) (lit ''the'') fts_stopwords_none"
    using search_text_always_parses[of demo_text "\<lambda>_. False" "lit ''the''" "[lit ''the'']"] w n by simp
  also have "\<dots> = quoted_bag demo_text [] (lit ''the'')"
    using t by (simp add: prepare_fts5_query_def w n(1) is_stopword_def fts_stopwords_none_def)
  also have "\<dots> = [34] @ lit ''the'' @ [34]"
    by (simp add: quoted_bag_def b is_stopword_def)
      (simp add: quote_fts5_token_def strip_suffix_def suffix_def words_def is_whitespace_def is_ascii_punctuation_def lit_def)
  finally show ?thesis .
qed

section \<open>Searching a run of characters is substring search\<close>

text \<open>Two facts on blocks of a list that agree or disagree with a predicate.\<close>

lemma sublist_skip:
  assumes "xs \<noteq> []" "\<forall>x \<in> set xs. P x" "\<forall>u \<in> set us. \<not> P u"
  shows "sublist xs (us @ ys) \<longleftrightarrow> sublist xs ys"
proof -
  have "xs1 = []" if "xs = xs1 @ xs2" "suffix xs1 us" for xs1 xs2
    using that assms(2,3) by (cases xs1) (auto dest: set_mono_suffix)
  then have "sublist xs ys" if "xs = xs1 @ xs2" "suffix xs1 us" "prefix xs2 ys" for xs1 xs2
    using that by (metis append_Nil prefix_imp_sublist)
  moreover have "\<not> sublist xs us" using assms by (cases xs) (auto dest: set_mono_sublist)
  ultimately show ?thesis unfolding sublist_append by blast
qed

lemma sublist_border:
  assumes "\<forall>x \<in> set xs. P x" "ys = [] \<or> \<not> P (hd ys)"
  shows "sublist xs (us @ ys) \<longleftrightarrow> sublist xs us \<or> sublist xs ys"
proof -
  have "xs2 = []" if "xs = xs1 @ xs2" "prefix xs2 ys" for xs1 xs2
    using that assms by (cases xs2) (auto simp: prefix_def)
  then show ?thesis by (fastforce simp: sublist_append)
qed

lemma sublist_single: "sublist [x] ys \<longleftrightarrow> x \<in> set ys"
  by (auto simp: in_set_conv_decomp sublist_def)

lemma bigrams_prefix: "prefix (bigrams q) (bigrams (q @ b))"
  by (induction q rule: bigrams.induct) auto

lemma bigrams_suffix: "sublist (bigrams q) (bigrams (a @ q))"
proof (induction a)
  case (Cons x a)
  have "sublist (bigrams (a @ q)) (bigrams (x # a @ q))" by (cases "a @ q") (auto simp: sublist_Cons_right)
  then show ?case using Cons by (simp add: sublist_order.order.trans)
qed simp

lemma bigrams_prefixD: "2 \<le> length q \<Longrightarrow> prefix (bigrams q) (bigrams r) \<Longrightarrow> prefix q r"
proof (induction q arbitrary: r rule: bigrams.induct)
  case (1 a b rest)
  then obtain r' where r: "r = a # b # r'" "prefix (bigrams (b # rest)) (bigrams (b # r'))"
    by (cases r rule: bigrams.cases) auto
  show ?case
  proof (cases rest)
    case (Cons c rest')
    then show ?thesis using 1(1)[OF _ r(2)] r(1) by simp
  qed (simp add: r(1))
qed auto

lemma bigrams_sublist:
  assumes "2 \<le> length q"
  shows "sublist (bigrams q) (bigrams r) \<longleftrightarrow> sublist q r"
proof
  assume "sublist (bigrams q) (bigrams r)"
  then show "sublist q r"
  proof (induction r rule: bigrams.induct)
    case (1 a b rest)
    then show ?case using bigrams_prefixD[OF assms, of "a # b # rest"]
      by (auto simp: sublist_Cons_right[of "bigrams q"] sublist_Cons_right[of q a])
  qed (use assms in \<open>cases q rule: bigrams.cases; auto\<close>)+
next
  assume "sublist q r"
  then obtain a b where "r = a @ q @ b" by (auto simp: sublist_def)
  then show "sublist (bigrams q) (bigrams r)"
    using bigrams_prefix[of q b] bigrams_suffix[of "q @ b" a] by (meson prefix_imp_sublist sublist_order.order.trans)
qed

text \<open>The loop without its accumulator: every maximal run contributes its characters and then its bigrams.\<close>

fun run_terms :: "text_env \<Rightarrow> ustr \<Rightarrow> ustr \<Rightarrow> ustr list" where
  "run_terms env run [] = map (\<lambda>c. [c]) run @ bigrams run"
| "run_terms env run (ch # rest) =
     (if is_cjk env ch then run_terms env (run @ [ch]) rest else (map (\<lambda>c. [c]) run @ bigrams run) @ run_terms env [] rest)"

lemma cjk_terms_run: "cjk_terms env terms run raw = terms @ run_terms env run raw"
  by (induction env terms run raw rule: cjk_terms.induct) (auto simp: append_cjk_terms_def)

lemma bigrams_length2: "t \<in> set (bigrams r) \<Longrightarrow> length t = 2"
  by (induction r rule: bigrams.induct) auto

lemma bigrams_chars: "t \<in> set (bigrams r) \<Longrightarrow> set t \<subseteq> set r"
  by (induction r rule: bigrams.induct) auto

lemma bigrams_Nil_iff: "bigrams r = [] \<longleftrightarrow> length r < 2"
  by (cases r rule: bigrams.cases) auto

lemma run_terms_hd: "run_terms env run raw = [] \<or> length (hd (run_terms env run raw)) = 1"
proof (induction env run raw rule: run_terms.induct)
  case (1 env run)
  then show ?case by (cases run) auto
next
  case (2 env run ch rest)
  then show ?case by (cases run) auto
qed

text \<open>The bigrams of a run of two or more characters occur side by side among the terms exactly when the run occurs in the text.\<close>

lemma run_terms_bigrams:
  assumes "2 \<le> length q" "\<forall>c \<in> set q. is_cjk env c"
  shows "sublist (bigrams q) (run_terms env run raw) \<longleftrightarrow> sublist q (run @ raw)"
proof (induction raw arbitrary: run)
  have q: "bigrams q \<noteq> []" "q \<noteq> []" "\<forall>t \<in> set (bigrams q). length t = 2" using assms(1) by (auto simp: bigrams_Nil_iff dest: bigrams_length2)
  have block: "sublist (bigrams q) (map (\<lambda>c. [c]) r @ bigrams r) \<longleftrightarrow> sublist q r" for r
    using sublist_skip[OF q(1,3), of "map (\<lambda>c. [c]) r"] bigrams_sublist[OF assms(1)] by simp
  {
    case Nil
    show ?case using block by simp
  next
    case (Cons ch rest)
    show ?case
    proof (cases "is_cjk env ch")
      case True
      then show ?thesis using Cons[of "run @ [ch]"] by simp
    next
      case False
      have "sublist (bigrams q) ((map (\<lambda>c. [c]) run @ bigrams run) @ run_terms env [] rest)
          \<longleftrightarrow> sublist q run \<or> sublist (bigrams q) (run_terms env [] rest)"
        unfolding block[symmetric, of run]
        by (rule sublist_border[OF q(3)]) (use run_terms_hd[of env "[]" rest] in auto)
      also have "\<dots> \<longleftrightarrow> sublist q run \<or> sublist q rest" using Cons[of "[]"] by simp
      also have "\<dots> \<longleftrightarrow> sublist q run \<or> sublist q (ch # rest)"
        using sublist_skip[OF q(2) assms(2), of "[ch]" rest] False by simp
      also have "\<dots> \<longleftrightarrow> sublist q (run @ ch # rest)"
        using sublist_border[OF assms(2), of "ch # rest" run] False by simp
      finally show ?thesis using False by simp
    qed
  }
qed

lemma run_terms_chars: "[c] \<in> set (run_terms env run raw) \<longleftrightarrow> c \<in> set run \<or> (c \<in> set raw \<and> is_cjk env c)"
proof (induction env run raw rule: run_terms.induct)
  case (1 env run)
  then show ?case by (auto dest: bigrams_length2)
next
  case (2 env run ch rest)
  then show ?case by (auto dest: bigrams_length2)
qed

lemma is_cjk_plain: "is_cjk env c \<Longrightarrow> \<not> is_whitespace c \<and> 128 \<le> c"
  by (auto simp: is_cjk_def is_whitespace_def)

lemma run_terms_clean:
  "\<forall>c \<in> set run. is_cjk env c \<Longrightarrow> t \<in> set (run_terms env run raw) \<Longrightarrow> t \<noteq> [] \<and> (\<forall>c \<in> set t. \<not> is_whitespace c)"
proof (induction raw arbitrary: run)
  have block: "t \<noteq> [] \<and> (\<forall>c \<in> set t. \<not> is_whitespace c)"
    if r: "\<forall>c \<in> set r. is_cjk env c" "t \<in> set (map (\<lambda>c. [c]) r @ bigrams r)" for r
  proof -
    have "t \<noteq> []" "set t \<subseteq> set r" using r(2) bigrams_length2 bigrams_chars by fastforce+
    then show ?thesis using r(1) is_cjk_plain by blast
  qed
  {
    case Nil
    then show ?case using block[of run] by simp
  next
    case (Cons ch rest)
    then show ?case using block[of run] Cons.IH[of "[]"] Cons.IH[of "run @ [ch]"] by (cases "is_cjk env ch") auto
  }
qed

lemma cjk_phrases_run: "\<forall>c \<in> set cs. is_cjk env c \<Longrightarrow> cjk_phrases env column phrases run cs = append_cjk_query phrases (run @ cs) column"
  by (induction cs arbitrary: run) auto

lemma split_once_None: "d \<notin> set s \<Longrightarrow> split_once d s = None"
  by (induction s) auto

lemma cjk_query_of_run:
  assumes "q \<noteq> []" "\<forall>c \<in> set q. is_cjk env c" "byte_len q \<le> 4096"
  shows "prepare_cjk_fts5_query env q = Some ([34] @ (if length q = 1 then q else join_with [32] (bigrams q)) @ [34])"
proof -
  have big: "128 \<le> c" "\<not> is_whitespace c" if "c \<in> set q" for c using assms(2) is_cjk_plain that by blast+
  have "utf8_head max_fts_query_bytes 0 q = q"
    using utf8_head_all[of 0 q] assms(3) by (simp add: max_fts_query_bytes_def)
  moreover have "\<forall>c \<in> set q. c \<noteq> 0 \<and> c \<noteq> 40 \<and> c \<noteq> 58" using big(1) by fastforce
  ultimately have b: "bounded_query_text q = q" and p: "dropWhile (\<lambda>c. c = 40) q = q" "split_once 58 q = None"
    using assms(1) by (auto simp: bounded_query_text_def map_idI intro!: dropWhile_cond split_once_None)
  have w: "words q = [q]" using assms(1) big(2) by (simp add: words_def split_where_none)
  have "q \<noteq> lit ''AND''" "q \<noteq> lit ''NOT''" "q \<noteq> lit ''NEAR''" using big(1)[of 65] big(1)[of 78] by (auto simp: lit_def)
  moreover have "cjk_token_phrases env [] q = append_cjk_query [] q None"
    using cjk_phrases_run[OF assms(2)] by (simp add: cjk_token_phrases_def cjk_column_def p)
  moreover have "append_cjk_query [] q None = [[34] @ (if length q = 1 then q else join_with [32] (bigrams q)) @ [34]]"
    using assms(1) by (cases q) (simp_all add: append_cjk_query_def)
  ultimately show ?thesis by (simp add: prepare_cjk_fts5_query_def b w)
qed

text \<open>
  C22. Searching for a run of Chinese, Japanese or Korean characters is substring search: the phrase the query quotes
  occurs, word by word and side by side, in the text put into the index exactly when the run occurs in the page's text, for
  runs of one character and of more.
\<close>

theorem cjk_search_is_substring:
  assumes "q \<noteq> []" "\<forall>c \<in> set q. is_cjk env c" "byte_len q \<le> 4096"
  shows "\<exists>phrase. prepare_cjk_fts5_query env q = Some ([34] @ phrase @ [34])
    \<and> (sublist (words phrase) (words (cjk_index_terms env body)) \<longleftrightarrow> sublist q body)"
proof (intro exI conjI)
  let ?phrase = "if length q = 1 then q else join_with [32] (bigrams q)"
  show "prepare_cjk_fts5_query env q = Some ([34] @ ?phrase @ [34])" by (rule cjk_query_of_run[OF assms])
  have idx: "words (cjk_index_terms env body) = run_terms env [] body"
    unfolding cjk_index_terms_def cjk_terms_run append_Nil by (rule words_join) (rule run_terms_clean[of "[]"], simp_all)
  show "sublist (words ?phrase) (words (cjk_index_terms env body)) \<longleftrightarrow> sublist q body"
  proof (cases "length q = 1")
    case True
    then obtain c where q: "q = [c]" by (cases q) auto
    have "words q = [q]" using assms(2) is_cjk_plain by (simp add: q words_def)
    then show ?thesis using run_terms_chars[of c env "[]" body] assms(2) by (simp add: idx sublist_single q)
  next
    case False
    then have "2 \<le> length q" using assms(1) by (cases q) (auto simp: Suc_le_eq)
    moreover have "words (join_with [32] (bigrams q)) = bigrams q"
      using assms(2) is_cjk_plain bigrams_chars bigrams_length2 by (intro words_join) fastforce
    ultimately show ?thesis using run_terms_bigrams[of q env "[]" body] assms(2) False by (simp add: idx)
  qed
qed

definition demo_cjk :: text_env where
  "demo_cjk = demo_text\<lparr>is_alphanumeric := (\<lambda>c. True)\<rparr>"

theorem cjk_search_is_substring_witness:
  "\<exists>phrase. prepare_cjk_fts5_query demo_cjk [0x65e5, 0x3005] = Some ([34] @ phrase @ [34])
    \<and> sublist (words phrase) (words (cjk_index_terms demo_cjk ([0x3042] @ [0x65e5, 0x3005] @ [46])))"
proof -
  have cjk: "\<forall>c \<in> set [0x65e5, 0x3005]. is_cjk demo_cjk c" by (simp add: is_cjk_def demo_cjk_def)
  have len: "byte_len [0x65e5, 0x3005] \<le> 4096" by (simp add: utf8_len_def)
  show ?thesis
    using cjk_search_is_substring[OF _ cjk len, of "[0x3042] @ [0x65e5, 0x3005] @ [46]"] sublist_appendI by blast
qed

end
