(* ===== verification/Spec2Isabelle.thy ===== *)
theory Spec2Isabelle
  imports WorkstreamSystem Messages Startup IdleEnd Grants HttpHandlers PasswordKdf PageSystem PageMigration FtsQuery
begin

text \<open>
  \<^bold>\<open>ai-memory: the coordination layer of the store, the accounts that guard it, and the pages it keeps.\<close>

  ai-memory gives coding agents a shared, durable memory. Agents, their lifecycle hooks, a server and its
  operators work on one SQLite database at the same time: a hook reports what a session does, a launcher resumes a
  workstream in whatever harness comes next, a session that ends leaves a baton for the one that follows, agents of
  different projects write to each other, and a worker digests finished sessions. The parts modelled here are the ones
  that keep these actors from stepping on each other, in \<^verbatim>\<open>crates/ai-memory-store\<close> and
  \<^verbatim>\<open>crates/ai-memory-core\<close>, and the ones that decide who they are: accounts, sessions, keys and grants in the store, and the
  HTTP gates and login handlers of \<^verbatim>\<open>crates/ai-memory-mcp\<close> on top of them. What the memory consists of, the
  versioned pages with their links, entities and evidence, is modelled too, from the frontmatter rules of the core crate
  through the page transactions of the store to the preparation of search text.

  \<^bold>\<open>How the code is modelled.\<close> A write operation of the store runs in one transaction on the single writer
  thread (\<^verbatim>\<open>writer.rs\<close>), so it is a function from the store to \<open>store_error + store \<times> result\<close>: an error, or a
  return before the commit, leaves the store as it was. The store is a record of tables, a table the list of its rows,
  an SQL statement a filter, update or append with the constraint, trigger and index checks that can make it fail.
  What the operations draw from outside is an argument: the clock, fresh ids, and \<^verbatim>\<open>serde_json\<close>, SHA-256, UUID and
  regular-expression code of other crates. A command type per system lists its transactions, and a sequence
  of commands is any interleaving of the actors that issue them. An HTTP handler reads the store at one moment and writes
  it at a later one, so it takes both stores; what it draws from outside (clocks, secrets, faults of reads and
  writes) is one record.

  \<^bold>\<open>Theories and sources.\<close>
  \<^item> \<open>Prelude\<close>: Rust strings as code points with their UTF-8 length, results, tables, and the interfaces
    \<open>wire_codec\<close>, \<open>step_system\<close>, \<open>claim_return\<close> and \<open>claim_once\<close>.
  \<^item> \<open>Text\<close>, \<open>Agent\<close>, \<open>Identity\<close>, \<open>Paths\<close>: \<^verbatim>\<open>core/sanitize.rs\<close> (truncation), \<^verbatim>\<open>core/ids.rs\<close> (harnesses),
    \<^verbatim>\<open>core/actor.rs\<close> (identities, owner filters, capabilities), and the directory comparison of \<^verbatim>\<open>store/reader.rs\<close>.
  \<^item> \<open>Schema\<close>: the tables of the migrations, errors and the audit log.
  \<^item> \<open>Json\<close>: values of \<^verbatim>\<open>serde_json\<close> with insertion-ordered objects.
  \<^item> \<open>Authz\<close>: \<^verbatim>\<open>store/project_authz.rs\<close>, the decision and its two resolutions.
  \<^item> \<open>WorkstreamTypes\<close>, \<open>WorkstreamStore\<close>, \<open>WorkstreamLink\<close>, \<open>WorkstreamFinish\<close>, \<open>WorkstreamRead\<close>, \<open>WorkstreamSystem\<close>:
    \<^verbatim>\<open>core/workstream.rs\<close> and \<^verbatim>\<open>store/workstream.rs\<close>, from launching a run through native-session binding and context
    delivery to the import of its transcript, the listings, and the system of all commands.
  \<^item> \<open>Messages\<close>: \<^verbatim>\<open>core/message.rs\<close> and the message queue of \<^verbatim>\<open>store/ops.rs\<close>.
  \<^item> \<open>Sessions\<close>: \<^verbatim>\<open>core/observation.rs\<close>, sessions, keyed ingest and \<^verbatim>\<open>admit_hook_session_event\<close> of \<^verbatim>\<open>store/ops.rs\<close>.
  \<^item> \<open>Handoffs\<close>, \<open>HandoffSystem\<close>: \<^verbatim>\<open>core/handoff.rs\<close>, the handoff operations of \<^verbatim>\<open>store/ops.rs\<close> and the
    handoff readers of \<^verbatim>\<open>store/reader.rs\<close>.
  \<^item> \<open>Startup\<close>: the atomic startup claim of \<^verbatim>\<open>store/writer.rs\<close>.
  \<^item> \<open>Consolidation\<close>: \<^verbatim>\<open>store/session_consolidation.rs\<close>, the durable job queue.
  \<^item> \<open>IdleEnd\<close>: the idle sweep of \<^verbatim>\<open>store/ops.rs\<close>, which reads runs and writes sessions, handoffs and jobs.

  \<^item> \<open>Accounts\<close>, \<open>Credentials\<close>, \<open>AccountSystem\<close>, \<open>AccountSafety\<close>: \<^verbatim>\<open>core/user.rs\<close>, \<^verbatim>\<open>store/users.rs\<close>,
    \<^verbatim>\<open>store/web_sessions.rs\<close> and \<^verbatim>\<open>store/api_credentials.rs\<close>, the system of their commands, its invariant and what follows from it.
  \<^item> \<open>Grants\<close>: \<^verbatim>\<open>store/grants.rs\<close>, which writes what \<open>Authz\<close> reads.
  \<^item> \<open>LoginLimit\<close>, \<open>PasswordKdf\<close>: the client address and rate limit of \<^verbatim>\<open>mcp/human_auth.rs\<close> with addresses as words, and the
    queue in front of the password function of \<^verbatim>\<open>store/password.rs\<close>.
  \<^item> \<open>HttpAuth\<close>, \<open>HttpHandlers\<close>: the gates of \<^verbatim>\<open>mcp/auth.rs\<close> and \<^verbatim>\<open>mcp/human_auth.rs\<close>, and the login, recovery, password,
    logout and introspection handlers.
  \<^item> \<open>PageCore\<close>, \<open>PageMeta\<close>: \<^verbatim>\<open>PagePath\<close> of \<^verbatim>\<open>core/ids.rs\<close>, \<^verbatim>\<open>core/okf.rs\<close> (the keys a page's frontmatter
    derives) and \<^verbatim>\<open>core/page.rs\<close> (tiers, relations, entity names, the metadata of a public write).
  \<^item> \<open>Pages\<close>, \<open>PageHistory\<close>, \<open>PageInvariant\<close>, \<open>PageSystem\<close>, \<open>PageMigration\<close>: the page transactions of \<^verbatim>\<open>store/ops.rs\<close>, the
    invariant of version histories, links and entity windows, the system of page commands, and the migration of stored pages.
  \<^item> \<open>FtsQuery\<close>: \<^verbatim>\<open>store/fts_query.rs\<close>, search text to full-text query.

  \<^bold>\<open>What is shown.\<close>
  \<^item> Exclusion: one active run per workstream, one receiver per context, one pop per message, one recorded
    observation per ingest key, one delivery of a baton until it comes back, one live claim per job, at most one baton per receiver.
    They are interpretations of \<open>claim_once\<close> and \<open>claim_return\<close> on the command systems, so they hold for any
    order of commands.
  \<^item> Invariants of every reachable store (\<open>step_system\<close>): the ledger without gaps, the current-session index,
    cursors inside the ledger, unique batons and receivers, the job table.
  \<^item> Refinement: the job queue implements a seven-rule machine per job, from which finality of completed jobs follows; grants
    implement a map from user and project to a level; the bearer gate implements four rules that say whom a token vouches
    for; every login, recovery, password and logout request has the effect of at most one account command.
  \<^item> Accounts: over any commands somebody can administer the server, an ended session never authenticates again, rotated and
    revoked keys stop working; a browser passes its gate only with what the gate demands, a login can be used
    until it expires, failing logins tell nothing about an account, and recovery does nothing without its token.
  \<^item> Pages: over any page commands each path has at most one live version and every link to it points there; a
    conditional write is compare-and-set; rewriting what is stored adds no version; a tombstoned page that is written again
    keeps its history out of reach of the permanent deletion, which otherwise removes exactly the versions of one dead path;
    reindexing never revives the summary of a purged session; one migration run settles every live page.
  \<^item> Page input: accepted paths stay below the wiki root, one per file; conforming frontmatter is idempotent and keeps
    what the author wrote; accepted metadata names only portable pages and bounded values; the entity normalizer equals its reference.
  \<^item> Search: prepared text is empty, accepted by FTS5's parser or a bag of quoted phrases, so that no text makes a search
    fail; searching a run of Chinese, Japanese or Korean characters is substring search.
  \<^item> Boundaries: owner filters and scopes are respected by claims, expiries and sweeps; a foreign session or owner
    is refused; strict authorization fails closed.
  \<^item> Liveness: the baton offered at startup can be claimed, a startup delivers what it was offered, a due job is handed
    out, oldest first; retries end after five attempts.
  \<^item> Round trips and codecs: identities, agent names, accepting and returning a baton; containment of
    directories equals the prefix order of path components, membership in a network equality of address prefixes.
  \<^item> What the code does not do as it means to: a final attempt that is released is stranded, an edit can overfill
    an inbox, an exact replay of a scrubbed batch is refused, noncanonical owner keys validate, dropped requests escape
    the bound on password computations, a password change answers a full queue with the wrong status.

  \<^bold>\<open>Bounds.\<close> No definition needs fuel: loops over rows are structural recursion, \<open>chunks\<close> terminates on the
  length of its list, \<open>prepare_fts5_token\<close> on the length of the token and \<open>decay_chain\<close> on the versions not yet met. Timestamps are integers of microseconds inside \<^verbatim>\<open>i64\<close>; the retention of ingest keys is stated
  over one window of thirty days, since an older key is swept on purpose. Addresses and network masks are words of 32 and 128 bits; the
  saturating arithmetic of session expiries is written out.

  \<^bold>\<open>Not modelled.\<close> Embeddings, the full-text indexes themselves and ranking (text indexes and floating
  point inside SQLite); the files, git checkpoints and the watcher of the wiki crate; purging, moving and merging of scopes
  and the one-time backfills; the HTTP hook router, MCP server and admin
  API (protocol glue over these operations); Argon2id, SHA-256, base64 and random generation (other crates: parameters); transcript adapters and hook installers (formats of other programs);
  providers and consolidation prompts (network calls); the threads and channels of the writer and reader pool, whose
  serialization of transactions is what the model takes as the order of steps.
\<close>

end
